(* ===== verification/Prelude.thy ===== *)
theory Prelude
  imports Main "HOL-Library.AList"
begin

text \<open>
  Shared vocabulary of the development.

  A Python \<open>dict\<close> iterates in insertion order and keeps one value per key, so it is an
  association list with distinct keys (\<open>wf_dict\<close>): \<open>dget\<close> is \<open>d.get(k)\<close>, \<open>dset\<close> is
  \<open>d[k] = v\<close> (in place when the key is there, at the end otherwise) and \<open>ddel\<close> is
  \<open>d.pop(k, None)\<close>. An operation that can raise returns \<open>error + result\<close>.
  The locale \<open>invariant_system\<close> is the contract every stateful component discharges: its
  invariant holds initially and is kept by every step, hence in every reachable state.
\<close>

section \<open>Ordered dictionaries\<close>

type_synonym ('k, 'v) pydict = "('k \<times> 'v) list"

abbreviation dget :: "('k, 'v) pydict \<Rightarrow> 'k \<Rightarrow> 'v option" where
  "dget d k \<equiv> map_of d k"

abbreviation dset :: "('k, 'v) pydict \<Rightarrow> 'k \<Rightarrow> 'v \<Rightarrow> ('k, 'v) pydict" where
  "dset d k v \<equiv> AList.update k v d"

abbreviation ddel :: "('k, 'v) pydict \<Rightarrow> 'k \<Rightarrow> ('k, 'v) pydict" where
  "ddel d k \<equiv> AList.delete k d"

abbreviation dkeys :: "('k, 'v) pydict \<Rightarrow> 'k list" where
  "dkeys d \<equiv> map fst d"

abbreviation dvals :: "('k, 'v) pydict \<Rightarrow> 'v list" where
  "dvals d \<equiv> map snd d"

definition wf_dict :: "('k, 'v) pydict \<Rightarrow> bool" where
  "wf_dict d \<longleftrightarrow> distinct (dkeys d)"

definition has_key :: "('k, 'v) pydict \<Rightarrow> 'k \<Rightarrow> bool" where
  "has_key d k \<longleftrightarrow> dget d k \<noteq> None"

fun dupdate :: "('k, 'v) pydict \<Rightarrow> ('k, 'v) pydict \<Rightarrow> ('k, 'v) pydict" where
  "dupdate d [] = d"
| "dupdate d ((k, v) # kvs) = dupdate (dset d k v) kvs"

named_theorems dict_simps "rewrites that turn dictionary operations into map updates"

lemma dget_dset [simp]: "dget (dset d k v) k' = (if k' = k then Some v else dget d k')"
  by (simp add: update_conv')

lemma dget_ddel [simp]: "dget (ddel d k) k' = (if k' = k then None else dget d k')"
  by (simp add: delete_conv')

lemma wf_dict_Nil [simp, intro]: "wf_dict []"
  by (simp add: wf_dict_def)

lemma wf_dict_dset [simp, intro]: "wf_dict d \<Longrightarrow> wf_dict (dset d k v)"
  by (simp add: wf_dict_def distinct_update)

lemma wf_dict_ddel [simp, intro]: "wf_dict d \<Longrightarrow> wf_dict (ddel d k)"
  by (simp add: wf_dict_def distinct_delete)

lemma wf_dict_dupdate [simp, intro]: "wf_dict d \<Longrightarrow> wf_dict (dupdate d kvs)"
  by (induction d kvs rule: dupdate.induct) auto

lemma dget_in_set: "dget d k = Some v \<Longrightarrow> (k, v) \<in> set d"
  by (rule map_of_SomeD)

lemma wf_dict_dget: "wf_dict d \<Longrightarrow> (k, v) \<in> set d \<Longrightarrow> dget d k = Some v"
  by (simp add: wf_dict_def)

lemma in_dkeys_iff: "k \<in> set (dkeys d) \<longleftrightarrow> (\<exists>v. dget d k = Some v)"
  by (induction d) auto

lemma dget_None_iff: "dget d k = None \<longleftrightarrow> k \<notin> set (dkeys d)"
  by (simp add: map_of_eq_None_iff)

lemma dset_keys_old: "dget d k \<noteq> None \<Longrightarrow> dkeys (dset d k v) = dkeys d"
  by (simp add: update_keys dget_None_iff)

lemma dset_keys_new: "dget d k = None \<Longrightarrow> dkeys (dset d k v) = dkeys d @ [k]"
  by (simp add: update_keys dget_None_iff)

lemma dset_new: "dget d k = None \<Longrightarrow> dset d k v = d @ [(k, v)]"
  by (induction d) (auto split: if_splits)

lemma dset_in_set: "(k', v') \<in> set (dset d k v) \<Longrightarrow> (k' = k \<and> v' = v) \<or> (k', v') \<in> set d"
  by (induction d) (auto split: if_splits)

lemma has_key_simps [dict_simps]:
  "has_key (dset d k v) k' \<longleftrightarrow> k' = k \<or> has_key d k'"
  "has_key (ddel d k) k' \<longleftrightarrow> k' \<noteq> k \<and> has_key d k'"
  "\<not> has_key [] k"
  by (simp_all add: has_key_def)

lemma dget_dupdate:
  "wf_dict kvs \<Longrightarrow> dget (dupdate d kvs) k = (case dget kvs k of None \<Rightarrow> dget d k | Some v \<Rightarrow> Some v)"
proof (induction d kvs rule: dupdate.induct)
  case (2 d k' v kvs)
  then have "wf_dict kvs" and "dget kvs k' = None"
    by (auto simp: wf_dict_def dget_None_iff)
  with "2.IH" show ?case by (auto split: option.split)
qed simp

text \<open>Replacing every value in place: a loop over \<open>d.values()\<close> that mutates the objects.\<close>

definition dmap :: "('v \<Rightarrow> 'w) \<Rightarrow> ('k, 'v) pydict \<Rightarrow> ('k, 'w) pydict" where
  "dmap f d = map (\<lambda>(k, v). (k, f v)) d"

lemma dget_dmap [simp]: "dget (dmap f d) k = map_option f (dget d k)"
  by (induction d) (auto simp: dmap_def)

lemma dkeys_dmap [simp]: "dkeys (dmap f d) = dkeys d"
  by (simp add: dmap_def comp_def case_prod_unfold)

lemma wf_dict_dmap [simp]: "wf_dict (dmap f d) = wf_dict d"
  by (simp add: wf_dict_def)

section \<open>Results\<close>

lemma map_sum_eq_Inr: "map_sum f g x = Inr y \<longleftrightarrow> (\<exists>z. x = Inr z \<and> y = g z)"
  by (cases x) auto

section \<open>Truthiness of optional strings\<close>

text \<open>\<open>if aid:\<close> on an \<open>Optional[str]\<close>: neither \<open>None\<close> nor the empty string.\<close>

definition str_truthy :: "string option \<Rightarrow> bool" where
  "str_truthy x \<longleftrightarrow> (case x of None \<Rightarrow> False | Some s \<Rightarrow> s \<noteq> [])"

lemma str_truthy_simps [simp]:
  "\<not> str_truthy None"
  "str_truthy (Some s) \<longleftrightarrow> s \<noteq> []"
  by (simp_all add: str_truthy_def)

section \<open>Reachable states and invariants\<close>

inductive reachable :: "('s \<Rightarrow> bool) \<Rightarrow> ('s \<Rightarrow> 's \<Rightarrow> bool) \<Rightarrow> 's \<Rightarrow> bool"
  for init :: "'s \<Rightarrow> bool" and step :: "'s \<Rightarrow> 's \<Rightarrow> bool" where
  reach_init: "init s \<Longrightarrow> reachable init step s"
| reach_step: "reachable init step s \<Longrightarrow> step s t \<Longrightarrow> reachable init step t"

locale invariant_system =
  fixes init :: "'s \<Rightarrow> bool"
    and step :: "'s \<Rightarrow> 's \<Rightarrow> bool"
    and inv :: "'s \<Rightarrow> bool"
  assumes inv_init: "init s \<Longrightarrow> inv s"
    and inv_step: "inv s \<Longrightarrow> step s t \<Longrightarrow> inv t"
begin

lemma reachable_inv: "reachable init step s \<Longrightarrow> inv s"
  by (induction rule: reachable.induct) (auto intro: inv_init inv_step)

lemma reachable_step_inv: "reachable init step s \<Longrightarrow> step s t \<Longrightarrow> inv t"
  using reachable_inv inv_step by blast

end

text \<open>A machine whose steps are the executable operations of a component, named by labels.\<close>

definition op_step :: "('l \<Rightarrow> 's \<Rightarrow> 's) \<Rightarrow> ('l \<Rightarrow> 's \<Rightarrow> bool) \<Rightarrow> 's \<Rightarrow> 's \<Rightarrow> bool" where
  "op_step run ok s t \<longleftrightarrow> (\<exists>l. ok l s \<and> t = run l s)"

fun run_ops :: "('l \<Rightarrow> 's \<Rightarrow> 's) \<Rightarrow> 'l list \<Rightarrow> 's \<Rightarrow> 's" where
  "run_ops run [] s = s"
| "run_ops run (l # ls) s = run_ops run ls (run l s)"

fun ops_ok :: "('l \<Rightarrow> 's \<Rightarrow> 's) \<Rightarrow> ('l \<Rightarrow> 's \<Rightarrow> bool) \<Rightarrow> 'l list \<Rightarrow> 's \<Rightarrow> bool" where
  "ops_ok run ok [] s \<longleftrightarrow> True"
| "ops_ok run ok (l # ls) s \<longleftrightarrow> ok l s \<and> ops_ok run ok ls (run l s)"

lemma run_ops_append: "run_ops run (xs @ ys) s = run_ops run ys (run_ops run xs s)"
  by (induction xs arbitrary: s) auto

lemma reachable_run_ops:
  "reachable init (op_step run ok) s \<Longrightarrow> ops_ok run ok ls s \<Longrightarrow>
   reachable init (op_step run ok) (run_ops run ls s)"
proof (induction ls arbitrary: s)
  case (Cons l ls)
  then have "op_step run ok s (run l s)" by (auto simp: op_step_def)
  with Cons.prems(1) have "reachable init (op_step run ok) (run l s)" by (rule reach_step)
  with Cons show ?case by simp
qed simp

section \<open>Lists\<close>

lemma sum_list_less:
  fixes f g :: "'a \<Rightarrow> nat"
  assumes "\<And>x. x \<in> set xs \<Longrightarrow> f x \<le> g x" and "x \<in> set xs" and "f x < g x"
  shows "sum_list (map f xs) < sum_list (map g xs)"
  using assms
proof (induction xs)
  case (Cons y ys)
  show ?case
  proof (cases "x = y")
    case True
    have "sum_list (map f ys) \<le> sum_list (map g ys)"
      using Cons.prems(1) by (intro sum_list_mono) auto
    with True Cons.prems(3) show ?thesis by simp
  next
    case False
    with Cons have "sum_list (map f ys) < sum_list (map g ys)" by auto
    with Cons.prems(1) [of y] show ?thesis by simp
  qed
qed simp

lemma length_filter_mono:
  "(\<And>x. x \<in> set xs \<Longrightarrow> P x \<Longrightarrow> Q x) \<Longrightarrow> length (filter P xs) \<le> length (filter Q xs)"
  by (induction xs) (auto simp: le_SucI)

lemma filter_length_less:
  assumes "\<And>x. x \<in> set xs \<Longrightarrow> P x \<Longrightarrow> Q x" and "x \<in> set xs" and "Q x" and "\<not> P x"
  shows "length (filter P xs) < length (filter Q xs)"
  using assms
proof (induction xs)
  case (Cons y ys)
  have "\<And>x. x \<in> set ys \<Longrightarrow> P x \<Longrightarrow> Q x" using Cons.prems(1) by simp
  then have le: "length (filter P ys) \<le> length (filter Q ys)"
    by (rule length_filter_mono)
  show ?case
  proof (cases "x = y")
    case True
    with Cons.prems le show ?thesis by simp
  next
    case False
    with Cons show ?thesis by auto
  qed
qed simp

lemma find_split:
  "(find P xs = Some x) = (\<exists>before after. xs = before @ x # after \<and> P x \<and> (\<forall>u \<in> set before. \<not> P u))"
proof
  assume "find P xs = Some x"
  then show "\<exists>before after. xs = before @ x # after \<and> P x \<and> (\<forall>u \<in> set before. \<not> P u)"
  proof (induction xs)
    case (Cons y ys)
    show ?case
    proof (cases "P y")
      case True
      with Cons.prems have "y # ys = [] @ x # ys \<and> P x \<and> (\<forall>u \<in> set []. \<not> P u)" by simp
      then show ?thesis by blast
    next
      case False
      with Cons obtain before after where "ys = before @ x # after" "P x" "\<forall>u \<in> set before. \<not> P u"
        by auto
      with False have "y # ys = (y # before) @ x # after \<and> P x \<and> (\<forall>u \<in> set (y # before). \<not> P u)"
        by simp
      then show ?thesis by blast
    qed
  qed simp
next
  assume "\<exists>before after. xs = before @ x # after \<and> P x \<and> (\<forall>u \<in> set before. \<not> P u)"
  then obtain before after where "xs = before @ x # after" "P x" "\<forall>u \<in> set before. \<not> P u" by blast
  then show "find P xs = Some x" by (induction before arbitrary: xs) auto
qed

end
