(* ===== verification/CircuitBreaker.thy ===== *)
theory CircuitBreaker
  imports Prelude
begin

text \<open>
  The per-team circuit breaker of the unified API's reverse proxy
  (\<^verbatim>\<open>backend/unified_api/circuit_breaker.py\<close>). Every method runs under one lock, so a
  method is one atomic step on the state. The monotonic clock is an integer number of
  ticks (CPython keeps it in nanoseconds); the reading each call takes is its argument \<open>now\<close>.
\<close>

section \<open>State\<close>

datatype circuit_state = CLOSED | OPEN | HALF_OPEN

record team_circuit =
  state :: circuit_state
  consecutive_failures :: nat
  last_failure_time :: int
  last_success_time :: int

definition new_circuit :: team_circuit where
  "new_circuit = \<lparr>state = CLOSED, consecutive_failures = 0,
                  last_failure_time = 0, last_success_time = 0\<rparr>"

record breaker =
  failure_threshold :: nat
  recovery_timeout :: int
  circuits :: "(string, team_circuit) pydict"

definition init_breaker :: "nat \<Rightarrow> int \<Rightarrow> breaker" where
  "init_breaker threshold timeout =
     \<lparr>failure_threshold = threshold, recovery_timeout = timeout, circuits = []\<rparr>"

section \<open>Operations\<close>

definition get_circuit :: "breaker \<Rightarrow> string \<Rightarrow> team_circuit \<times> breaker" where
  "get_circuit b k =
     (case dget (circuits b) k of
        Some c \<Rightarrow> (c, b)
      | None \<Rightarrow> (new_circuit, b\<lparr>circuits := dset (circuits b) k new_circuit\<rparr>))"

definition put_circuit :: "breaker \<Rightarrow> string \<Rightarrow> team_circuit \<Rightarrow> breaker" where
  "put_circuit b k c = b\<lparr>circuits := dset (circuits b) k c\<rparr>"

definition is_open :: "breaker \<Rightarrow> string \<Rightarrow> int \<Rightarrow> bool \<times> breaker" where
  "is_open b k now =
     (let (c, b) = get_circuit b k in
      case state c of
        CLOSED \<Rightarrow> (False, b)
      | OPEN \<Rightarrow>
          (if now - last_failure_time c \<ge> recovery_timeout b
           then (False, put_circuit b k (c\<lparr>state := HALF_OPEN\<rparr>))
           else (True, b))
      | HALF_OPEN \<Rightarrow> (False, b))"

definition get_state :: "breaker \<Rightarrow> string \<Rightarrow> circuit_state \<times> breaker" where
  "get_state b k = (let (c, b) = get_circuit b k in (state c, b))"

definition record_success :: "breaker \<Rightarrow> string \<Rightarrow> int \<Rightarrow> breaker" where
  "record_success b k now =
     (let (c, b) = get_circuit b k in
      put_circuit b k (c\<lparr>state := CLOSED, consecutive_failures := 0, last_success_time := now\<rparr>))"

definition record_failure :: "breaker \<Rightarrow> string \<Rightarrow> int \<Rightarrow> breaker" where
  "record_failure b k now =
     (let (c, b) = get_circuit b k;
          c = c\<lparr>consecutive_failures := consecutive_failures c + 1, last_failure_time := now\<rparr>
      in put_circuit b k
           (if state c = HALF_OPEN then c\<lparr>state := OPEN\<rparr>
            else if consecutive_failures c \<ge> failure_threshold b then c\<lparr>state := OPEN\<rparr>
            else c))"

definition get_all_states :: "breaker \<Rightarrow> (string, circuit_state) pydict" where
  "get_all_states b = dmap state (circuits b)"

section \<open>The breaker as a machine\<close>

datatype breaker_op = IsOpen string int | GetState string | Success string int | Failure string int

fun breaker_run :: "breaker_op \<Rightarrow> breaker \<Rightarrow> breaker" where
  "breaker_run (IsOpen k now) b = snd (is_open b k now)"
| "breaker_run (GetState k) b = snd (get_state b k)"
| "breaker_run (Success k now) b = record_success b k now"
| "breaker_run (Failure k now) b = record_failure b k now"

fun op_team :: "breaker_op \<Rightarrow> string" where
  "op_team (IsOpen k now) = k"
| "op_team (GetState k) = k"
| "op_team (Success k now) = k"
| "op_team (Failure k now) = k"

definition circuit_of :: "breaker \<Rightarrow> string \<Rightarrow> team_circuit" where
  "circuit_of b k = (case dget (circuits b) k of Some c \<Rightarrow> c | None \<Rightarrow> new_circuit)"

text \<open>Trailing failures of a team in the history of calls, latest call last.\<close>

definition failures_since_success :: "string \<Rightarrow> breaker_op list \<Rightarrow> nat" where
  "failures_since_success k ops =
     fold (\<lambda>l n. case l of Failure k' now \<Rightarrow> if k' = k then n + 1 else n
                         | Success k' now \<Rightarrow> if k' = k then 0 else n
                         | _ \<Rightarrow> n) ops 0"

definition circuit_inv :: "nat \<Rightarrow> team_circuit \<Rightarrow> bool" where
  "circuit_inv threshold c \<longleftrightarrow>
     (state c = CLOSED \<longrightarrow> consecutive_failures c < threshold) \<and>
     (state c \<noteq> CLOSED \<longrightarrow> consecutive_failures c \<ge> threshold)"

definition breaker_inv :: "nat \<Rightarrow> breaker \<Rightarrow> bool" where
  "breaker_inv threshold b \<longleftrightarrow>
     failure_threshold b = threshold \<and> (\<forall>k. circuit_inv threshold (circuit_of b k))"

section \<open>Characteristic equations\<close>

lemma get_circuit_eq:
  "get_circuit b k = (circuit_of b k, b\<lparr>circuits := dset (circuits b) k (circuit_of b k)\<rparr>)"
  by (auto simp: get_circuit_def circuit_of_def update_triv split: option.splits)

lemma circuit_of_put [simp]:
  "circuit_of (put_circuit b k c) k' = (if k' = k then c else circuit_of b k')"
  "circuit_of (b\<lparr>circuits := dset (circuits b) k (circuit_of b k)\<rparr>) k' = circuit_of b k'"
  by (auto simp: circuit_of_def put_circuit_def split: option.splits)

lemma put_circuit_conf [simp]:
  "failure_threshold (put_circuit b k c) = failure_threshold b"
  "recovery_timeout (put_circuit b k c) = recovery_timeout b"
  by (simp_all add: put_circuit_def)

lemmas breaker_ops =
  is_open_def get_state_def record_success_def record_failure_def get_circuit_eq Let_def

lemma breaker_run_conf [simp]:
  "failure_threshold (breaker_run l b) = failure_threshold b"
  "recovery_timeout (breaker_run l b) = recovery_timeout b"
  by (cases l; auto simp: breaker_ops split: circuit_state.splits)+

lemma circuit_of_run_other: "op_team l \<noteq> k \<Longrightarrow> circuit_of (breaker_run l b) k = circuit_of b k"
  by (cases l) (auto simp: breaker_ops split: circuit_state.splits)

lemma circuit_of_run_failure:
  "circuit_of (breaker_run (Failure k now) b) k =
     (circuit_of b k)\<lparr>consecutive_failures := consecutive_failures (circuit_of b k) + 1,
       last_failure_time := now,
       state := (if state (circuit_of b k) = HALF_OPEN \<or>
                    consecutive_failures (circuit_of b k) + 1 \<ge> failure_threshold b
                 then OPEN else state (circuit_of b k))\<rparr>"
  by (auto simp: breaker_ops)

lemma circuit_of_run_success:
  "circuit_of (breaker_run (Success k now) b) k =
     (circuit_of b k)\<lparr>consecutive_failures := 0, state := CLOSED, last_success_time := now\<rparr>"
  by (auto simp: breaker_ops)

lemma circuit_of_run_is_open:
  "circuit_of (breaker_run (IsOpen k now) b) k =
     (if state (circuit_of b k) = OPEN \<and>
         now - last_failure_time (circuit_of b k) \<ge> recovery_timeout b
      then (circuit_of b k)\<lparr>state := HALF_OPEN\<rparr> else circuit_of b k)"
  by (auto simp: breaker_ops split: circuit_state.splits)

lemma circuit_of_run_get_state [simp]: "circuit_of (breaker_run (GetState k) b) k' = circuit_of b k'"
  by (simp add: breaker_ops)

lemmas circuit_of_run =
  circuit_of_run_failure circuit_of_run_success circuit_of_run_is_open circuit_of_run_get_state

declare breaker_run.simps [simp del]

section \<open>Invariant\<close>

lemma circuit_inv_run:
  assumes "circuit_inv (failure_threshold b) (circuit_of b k)" and "failure_threshold b > 0"
  shows "circuit_inv (failure_threshold b) (circuit_of (breaker_run l b) k)"
proof (cases "op_team l = k")
  case True
  then show ?thesis using assms
    by (cases l) (auto simp: circuit_inv_def circuit_of_run)
next
  case False
  with assms show ?thesis by (simp add: circuit_of_run_other)
qed

lemma breaker_inv_init: "breaker_inv (Suc t) (init_breaker (Suc t) timeout)"
  by (simp add: breaker_inv_def init_breaker_def circuit_of_def circuit_inv_def new_circuit_def)

lemma breaker_inv_run: "breaker_inv (Suc t) b \<Longrightarrow> breaker_inv (Suc t) (breaker_run l b)"
  using circuit_inv_run [of b _ l] by (simp add: breaker_inv_def)

interpretation breaker_machine:
  invariant_system "\<lambda>b. b = init_breaker (Suc t) timeout" "op_step breaker_run (\<lambda>_ _. True)"
    "breaker_inv (Suc t)"
  by unfold_locales (auto simp: op_step_def breaker_inv_init breaker_inv_run)

section \<open>Properties\<close>

lemma failures_since_success_Nil [simp]: "failures_since_success k [] = 0"
  by (simp add: failures_since_success_def)

lemma failures_since_success_snoc:
  "failures_since_success k (ops @ [l]) =
     (case l of Failure k' now \<Rightarrow> if k' = k then failures_since_success k ops + 1
                                   else failures_since_success k ops
              | Success k' now \<Rightarrow> if k' = k then 0 else failures_since_success k ops
              | _ \<Rightarrow> failures_since_success k ops)"
  by (cases l) (simp_all add: failures_since_success_def)

lemma run_consecutive_failures:
  "consecutive_failures (circuit_of (run_ops breaker_run ops (init_breaker t timeout)) k) =
     failures_since_success k ops"
proof (induction ops rule: rev_induct)
  case Nil
  show ?case by (simp add: circuit_of_def init_breaker_def new_circuit_def)
next
  case (snoc l ops)
  let ?b = "run_ops breaker_run ops (init_breaker t timeout)"
  show ?case
  proof (cases "op_team l = k")
    case True
    with snoc show ?thesis
      by (cases l) (auto simp: run_ops_append failures_since_success_snoc circuit_of_run)
  next
    case False
    with snoc show ?thesis
      by (cases l) (auto simp: run_ops_append failures_since_success_snoc circuit_of_run_other)
  qed
qed

lemma reachable_history:
  "reachable (\<lambda>b. b = init_breaker t timeout) (op_step breaker_run (\<lambda>_ _. True))
     (run_ops breaker_run ops (init_breaker t timeout))"
proof -
  have ok: "ops_ok breaker_run (\<lambda>_ _. True) ops b" for b
    by (induction ops arbitrary: b) auto
  show ?thesis
    by (rule reachable_run_ops [OF reach_init ok]) simp
qed

text \<open>A team's circuit refuses traffic only because of that team's own history: after any
  sequence of calls on a fresh breaker (threshold at least one), the circuit is closed exactly
  when the team has had fewer than \<open>failure_threshold\<close> failures since its last success.\<close>

theorem breaker_closed_iff_few_failures:
  "(state (circuit_of (run_ops breaker_run ops (init_breaker (Suc t) timeout)) k) = CLOSED) =
     (failures_since_success k ops < Suc t)"
proof -
  have "breaker_inv (Suc t) (run_ops breaker_run ops (init_breaker (Suc t) timeout))"
    by (rule breaker_machine.reachable_inv [OF reachable_history])
  then have "circuit_inv (Suc t) (circuit_of (run_ops breaker_run ops (init_breaker (Suc t) timeout)) k)"
    by (simp add: breaker_inv_def)
  then show ?thesis
    by (cases "state (circuit_of (run_ops breaker_run ops (init_breaker (Suc t) timeout)) k) = CLOSED")
       (simp_all add: circuit_inv_def run_consecutive_failures)
qed

text \<open>While a circuit is open and its recovery timeout has not passed since the last failure,
  every request is refused and the circuit does not change; once the timeout has passed the
  request is admitted as a probe (half open), and the probe's outcome decides: success closes the
  circuit with a cleared count, failure opens it again and restarts the timeout.\<close>

theorem open_circuit_lifecycle:
  assumes "state (circuit_of b k) = OPEN"
  shows "if now - last_failure_time (circuit_of b k) < recovery_timeout b
         then fst (is_open b k now) \<and> circuit_of (snd (is_open b k now)) k = circuit_of b k
         else \<not> fst (is_open b k now) \<and>
           (let probing = snd (is_open b k now) in
              state (circuit_of probing k) = HALF_OPEN \<and>
              state (circuit_of (record_success probing k later) k) = CLOSED \<and>
              consecutive_failures (circuit_of (record_success probing k later) k) = 0 \<and>
              state (circuit_of (record_failure probing k later) k) = OPEN \<and>
              last_failure_time (circuit_of (record_failure probing k later) k) = later)"
  using assms by (simp add: breaker_ops)

text \<open>A call for one team never changes another team's circuit, whatever the sequence.\<close>

theorem breaker_teams_independent:
  assumes "\<And>l. l \<in> set ops \<Longrightarrow> op_team l \<noteq> k"
  shows "circuit_of (run_ops breaker_run ops b) k = circuit_of b k"
  using assms
proof (induction ops arbitrary: b)
  case (Cons l ops)
  then show ?case by (simp add: circuit_of_run_other)
qed simp

text \<open>In the half-open state the breaker admits every request, however many arrive before the
  probe reports: the class comment promises that one request is allowed through.\<close>

theorem half_open_admits_all:
  assumes "state (circuit_of b k) = HALF_OPEN"
  shows "\<not> fst (is_open (run_ops breaker_run (map (IsOpen k) probes) b) k now) \<and>
         circuit_of (run_ops breaker_run (map (IsOpen k) probes) b) k = circuit_of b k"
  using assms
proof (induction probes arbitrary: b)
  case Nil
  then show ?case by (simp add: breaker_ops)
next
  case (Cons t probes)
  then have same: "circuit_of (breaker_run (IsOpen k t) b) k = circuit_of b k"
    by (simp add: circuit_of_run)
  with Cons.prems have "state (circuit_of (breaker_run (IsOpen k t) b) k) = HALF_OPEN" by simp
  from Cons.IH [OF this] same show ?case by simp
qed

section \<open>Witnesses\<close>

definition tripped :: breaker where
  "tripped = run_ops breaker_run [Failure ''blogging'' 10, Failure ''blogging'' 20]
               (init_breaker 2 30)"

lemma tripped_circuit:
  "circuit_of tripped ''blogging'' =
     \<lparr>state = OPEN, consecutive_failures = 2, last_failure_time = 20, last_success_time = 0\<rparr>"
  "recovery_timeout tripped = 30"
  by (simp_all add: tripped_def init_breaker_def circuit_of_run circuit_of_def new_circuit_def
        breaker_run.simps breaker_ops put_circuit_def)

theorem open_circuit_lifecycle_witness:
  "fst (is_open tripped ''blogging'' 40) \<and> \<not> fst (is_open tripped ''blogging'' 50) \<and>
   state (circuit_of (record_success (snd (is_open tripped ''blogging'' 50)) ''blogging'' 51)
            ''blogging'') = CLOSED"
  using open_circuit_lifecycle [of tripped "''blogging''" 40 51]
    open_circuit_lifecycle [of tripped "''blogging''" 50 51]
  by (simp add: tripped_circuit Let_def)

theorem breaker_teams_independent_witness:
  "circuit_of (run_ops breaker_run [Failure ''sales'' 60, Success ''sales'' 61] tripped) ''blogging'' =
     circuit_of tripped ''blogging''"
  by (rule breaker_teams_independent) auto

theorem half_open_admits_all_witness:
  "\<not> fst (is_open (run_ops breaker_run (map (IsOpen ''blogging'') [60, 70])
        (snd (is_open tripped ''blogging'' 50))) ''blogging'' 80)"
proof -
  have "state (circuit_of (snd (is_open tripped ''blogging'' 50)) ''blogging'') = HALF_OPEN"
    by (simp add: breaker_ops tripped_circuit)
  from half_open_admits_all [OF this] show ?thesis by blast
qed

end
