(* ===== verification/Json.thy ===== *)
theory Json
  imports Prelude
begin

text \<open>
  The dynamically typed values that cross component boundaries (job records, LLM output,
  snapshots) and the text functions of the standard library the components apply to them.
  \<open>json\<close> is what \<open>json.dumps\<close> accepts, less floats; an ISO-8601 timestamp string, as
  \<open>datetime.isoformat()\<close> writes it, is represented by its instant in microseconds (\<open>JTime\<close>).
  Text is ASCII: \<open>str.lower\<close>, \<open>str.strip\<close> and \<open>str.split\<close> are modelled on it.
\<close>

section \<open>Values\<close>

datatype json =
    JNull
  | JBool bool
  | JInt int
  | JStr string
  | JTime int
  | JList "json list"
  | JDict "(string \<times> json) list"

type_synonym jdict = "(string, json) pydict"

text \<open>\<open>bool(v)\<close>.\<close>

fun truthy :: "json \<Rightarrow> bool" where
  "truthy JNull = False"
| "truthy (JBool b) = b"
| "truthy (JInt n) = (n \<noteq> 0)"
| "truthy (JStr s) = (s \<noteq> [])"
| "truthy (JTime t) = True"
| "truthy (JList xs) = (xs \<noteq> [])"
| "truthy (JDict kvs) = (kvs \<noteq> [])"

text \<open>\<open>d.get(k)\<close> with \<open>None\<close> for a missing key, and \<open>d.get(k, default)\<close>.\<close>

definition jget :: "jdict \<Rightarrow> string \<Rightarrow> json" where
  "jget d k = (case dget d k of Some v \<Rightarrow> v | None \<Rightarrow> JNull)"

definition jget_or :: "jdict \<Rightarrow> string \<Rightarrow> json \<Rightarrow> json" where
  "jget_or d k v = (case dget d k of Some v \<Rightarrow> v | None \<Rightarrow> v)"

text \<open>\<open>a or b\<close> on values.\<close>

definition jor :: "json \<Rightarrow> json \<Rightarrow> json" where
  "jor a b = (if truthy a then a else b)"

fun is_dict :: "json \<Rightarrow> bool" where
  "is_dict (JDict kvs) = True"
| "is_dict _ = False"

fun dict_of :: "json \<Rightarrow> jdict" where
  "dict_of (JDict kvs) = kvs"
| "dict_of _ = []"

fun list_of :: "json \<Rightarrow> json list" where
  "list_of (JList xs) = xs"
| "list_of _ = []"

text \<open>What a \<open>dict\<close> key or \<open>set\<close> member may be; using any other value raises \<open>TypeError\<close>. (Python also
  identifies the keys \<open>1\<close> and \<open>True\<close>; here they are different keys.)\<close>

fun hashable :: "json \<Rightarrow> bool" where
  "hashable (JList xs) = False"
| "hashable (JDict kvs) = False"
| "hashable _ = True"

lemma jget_simps [simp]:
  "jget (dset d k v) k' = (if k' = k then v else jget d k')"
  "jget (ddel d k) k' = (if k' = k then JNull else jget d k')"
  "jget [] k = JNull"
  by (simp_all add: jget_def)

lemma jget_Cons: "jget ((k, v) # d) k' = (if k' = k then v else jget d k')"
  by (simp add: jget_def)

lemma jget_or_simps [simp]:
  "jget_or (dset d k v) k' w = (if k' = k then v else jget_or d k' w)"
  "jget_or (ddel d k) k' w = (if k' = k then w else jget_or d k' w)"
  "jget_or [] k w = w"
  by (simp_all add: jget_or_def)

lemma jget_or_Cons: "jget_or ((k, v) # d) k' w = (if k' = k then v else jget_or d k' w)"
  by (simp add: jget_or_def)

lemmas jget_lits = jget_Cons jget_or_Cons

lemma jget_dupdate:
  "wf_dict kvs \<Longrightarrow> jget (dupdate d kvs) k = (if has_key kvs k then jget kvs k else jget d k)"
  by (auto simp: jget_def dget_dupdate has_key_def split: option.split)

lemma truthy_jget_has_key: "truthy (jget d k) \<Longrightarrow> has_key d k"
  by (cases "dget d k") (auto simp: jget_def has_key_def)

section \<open>Text\<close>

definition is_space :: "char \<Rightarrow> bool" where
  "is_space c \<longleftrightarrow> (let n = of_char c :: nat in (9 \<le> n \<and> n \<le> 13) \<or> (28 \<le> n \<and> n \<le> 32))"

definition lower_char :: "char \<Rightarrow> char" where
  "lower_char c = (let n = of_char c :: nat in if 65 \<le> n \<and> n \<le> 90 then char_of (n + 32) else c)"

definition str_lower :: "string \<Rightarrow> string" where
  "str_lower s = map lower_char s"

definition str_strip :: "string \<Rightarrow> string" where
  "str_strip s = rev (dropWhile is_space (rev (dropWhile is_space s)))"

text \<open>\<open>s.split()\<close>: the maximal runs of non-blank characters.\<close>

function str_split :: "string \<Rightarrow> string list" where
  "str_split s =
     (let t = dropWhile is_space s in
      if t = [] then []
      else takeWhile (\<lambda>c. \<not> is_space c) t # str_split (dropWhile (\<lambda>c. \<not> is_space c) t))"
  by pat_completeness auto
termination
proof (relation "measure length", goal_cases)
  case (2 s t)
  from 2(2) obtain c cs where t: "t = c # cs" by (cases t) simp_all
  then have "\<not> is_space c" using 2(1) dropWhile_eq_Cons_conv [of is_space s c cs] by simp
  then have "length (dropWhile (\<lambda>c. \<not> is_space c) t) < length t"
    using t by (simp add: length_dropWhile_le le_imp_less_Suc)
  also have "length t \<le> length s"
    using 2(1) by (simp add: length_dropWhile_le)
  finally show ?case by simp
qed simp

declare str_split.simps [simp del]

fun str_join :: "string \<Rightarrow> string list \<Rightarrow> string" where
  "str_join sep [] = []"
| "str_join sep [s] = s"
| "str_join sep (s # t # ss) = s @ sep @ str_join sep (t # ss)"

lemma is_space_blank [simp]: "is_space CHR '' ''"
  by (simp add: is_space_def)

lemma lower_char_idem [simp]: "lower_char (lower_char c) = lower_char c"
  by (auto simp: lower_char_def Let_def)

lemma is_space_lower [simp]: "is_space (lower_char c) = is_space c"
  by (auto simp: lower_char_def is_space_def Let_def)

lemma str_lower_idem [simp]: "str_lower (str_lower s) = str_lower s"
  by (simp add: str_lower_def)

lemma str_lower_append: "str_lower (s @ t) = str_lower s @ str_lower t"
  by (simp add: str_lower_def)

lemma dropWhile_space_lower:
  "dropWhile is_space (map lower_char s) = map lower_char (dropWhile is_space s)"
  by (induction s) auto

lemma dropWhile_nonspace_lower:
  "dropWhile (\<lambda>c. \<not> is_space c) (map lower_char s) = map lower_char (dropWhile (\<lambda>c. \<not> is_space c) s)"
  by (induction s) auto

lemma takeWhile_nonspace_lower:
  "takeWhile (\<lambda>c. \<not> is_space c) (map lower_char s) = map lower_char (takeWhile (\<lambda>c. \<not> is_space c) s)"
  by (induction s) auto

lemma str_split_lower: "str_split (str_lower s) = map str_lower (str_split s)"
proof (induction s rule: str_split.induct)
  case (1 s)
  show ?case
  proof (cases "dropWhile is_space s = []")
    case True
    then show ?thesis
      by (subst (1 2) str_split.simps) (simp add: str_lower_def dropWhile_space_lower)
  next
    case False
    from 1 [OF refl False] False show ?thesis
      by (subst (1 2) str_split.simps)
        (simp add: str_lower_def dropWhile_space_lower takeWhile_nonspace_lower
          dropWhile_nonspace_lower Let_def)
  qed
qed

text \<open>A word: non-empty, without blanks.\<close>

definition is_word :: "string \<Rightarrow> bool" where
  "is_word w \<longleftrightarrow> w \<noteq> [] \<and> (\<forall>c \<in> set w. \<not> is_space c)"

lemma str_split_words: "w \<in> set (str_split s) \<Longrightarrow> is_word w"
proof (induction s rule: str_split.induct)
  case (1 s)
  show ?case
  proof (cases "dropWhile is_space s")
    case Nil
    with "1.prems" show ?thesis by (subst (asm) str_split.simps) simp
  next
    case (Cons c cs)
    then have c: "\<not> is_space c" using dropWhile_eq_Cons_conv [of is_space s c cs] by auto
    from "1.prems" Cons have "w = takeWhile (\<lambda>c. \<not> is_space c) (c # cs) \<or>
        w \<in> set (str_split (dropWhile (\<lambda>c. \<not> is_space c) (c # cs)))"
      by (subst (asm) str_split.simps) (simp add: Let_def)
    then show ?thesis
    proof
      assume "w = takeWhile (\<lambda>c. \<not> is_space c) (c # cs)"
      with c show ?thesis by (auto simp: is_word_def dest: set_takeWhileD)
    next
      assume "w \<in> set (str_split (dropWhile (\<lambda>c. \<not> is_space c) (c # cs)))"
      with "1.IH" [OF refl] Cons show ?thesis by simp
    qed
  qed
qed

lemma split_word_append:
  assumes "is_word w" and "r = [] \<or> is_space (hd r)"
  shows "str_split (w @ r) = w # str_split r"
proof -
  from assms(1) have d: "dropWhile is_space (w @ r) = w @ r"
    by (cases w) (auto simp: is_word_def)
  have t: "takeWhile (\<lambda>c. \<not> is_space c) (w @ r) = w"
    using assms by (cases r) (auto simp: is_word_def takeWhile_append)
  have e: "dropWhile (\<lambda>c. \<not> is_space c) (w @ r) = r"
    using assms by (cases r) (auto simp: is_word_def dropWhile_append)
  from assms(1) show ?thesis
    by (subst str_split.simps) (simp add: d t e is_word_def Let_def)
qed

lemma str_split_Nil [simp]: "str_split [] = []"
  by (subst str_split.simps) simp

lemma str_split_space: "is_space c \<Longrightarrow> str_split (c # s) = str_split s"
  by (subst (1 2) str_split.simps) simp

lemma split_join:
  "(\<And>w. w \<in> set ws \<Longrightarrow> is_word w) \<Longrightarrow> str_split (str_join '' '' ws) = ws"
proof (induction "'' ''" ws rule: str_join.induct)
  case (2 s)
  then show ?case using split_word_append [of s "[]"] by simp
next
  case (3 s t ss)
  then show ?case using split_word_append [of s "'' '' @ str_join '' '' (t # ss)"]
    by (simp add: str_split_space)
qed simp

section \<open>Decimal numerals\<close>

text \<open>\<open>str(n)\<close> of a natural number.\<close>

fun nat_str :: "nat \<Rightarrow> string" where
  "nat_str n = (if n < 10 then [char_of (48 + n)] else nat_str (n div 10) @ [char_of (48 + n mod 10)])"

declare nat_str.simps [simp del]

definition str_val :: "string \<Rightarrow> nat" where
  "str_val s = fold (\<lambda>c v. 10 * v + (of_char c - 48)) s 0"

lemma str_val_nat_str [simp]: "str_val (nat_str n) = n"
proof (induction n rule: nat_str.induct)
  case (1 n)
  show ?case
  proof (cases "n < 10")
    case True
    then show ?thesis by (simp add: nat_str.simps [of n] str_val_def)
  next
    case False
    with 1 have "str_val (nat_str (n div 10)) = n div 10" by simp
    with False show ?thesis by (simp add: nat_str.simps [of n] str_val_def)
  qed
qed

lemma nat_str_inject [simp]: "nat_str m = nat_str n \<longleftrightarrow> m = n"
  using str_val_nat_str by metis

section \<open>Conversions\<close>

text \<open>\<open>str(v)\<close>; that of a container or a timestamp is the parameter \<open>rep\<close>.\<close>

definition int_str :: "int \<Rightarrow> string" where
  "int_str n = (if n < 0 then CHR ''-'' # nat_str (nat (- n)) else nat_str (nat n))"

fun py_str :: "(json \<Rightarrow> string) \<Rightarrow> json \<Rightarrow> string" where
  "py_str rep JNull = ''None''"
| "py_str rep (JBool b) = (if b then ''True'' else ''False'')"
| "py_str rep (JInt n) = int_str n"
| "py_str rep (JStr s) = s"
| "py_str rep v = rep v"

text \<open>\<open>for x in v or []\<close>; a timestamp where a list belongs is outside the model.\<close>

fun iterate :: "json \<Rightarrow> json list option" where
  "iterate (JList xs) = Some xs"
| "iterate (JDict kvs) = Some (map (\<lambda>(k, v). JStr k) kvs)"
| "iterate (JStr s) = Some (map (\<lambda>c. JStr [c]) s)"
| "iterate v = (if truthy v then None else Some [])"

text \<open>\<open>(v or "")\<close> where a string method follows.\<close>

fun str_or_empty :: "json \<Rightarrow> string option" where
  "str_or_empty (JStr s) = Some s"
| "str_or_empty v = (if truthy v then None else Some [])"

end
