(* ===== verification/TaskModels.thy ===== *)
theory TaskModels
  imports Json
begin

text \<open>
  The coding team's data model (\<^verbatim>\<open>backend/agents/software_engineering_team/models.py\<close>): task and job
  statuses, subtasks and tasks. A \<open>datetime\<close> is its instant in microseconds.
\<close>

section \<open>Statuses\<close>

datatype task_status = TO_DO | IN_PROGRESS | IN_REVIEW | MERGED | FAILED

fun status_value :: "task_status \<Rightarrow> string" where
  "status_value TO_DO = ''to_do''"
| "status_value IN_PROGRESS = ''in_progress''"
| "status_value IN_REVIEW = ''in_review''"
| "status_value MERGED = ''merged''"
| "status_value FAILED = ''failed''"

text \<open>\<open>TaskStatus(s)\<close>, which raises \<open>ValueError\<close> on any other string.\<close>

definition parse_status :: "string \<Rightarrow> task_status option" where
  "parse_status s =
     (if s = ''to_do'' then Some TO_DO
      else if s = ''in_progress'' then Some IN_PROGRESS
      else if s = ''in_review'' then Some IN_REVIEW
      else if s = ''merged'' then Some MERGED
      else if s = ''failed'' then Some FAILED
      else None)"

lemma parse_status_value [simp]: "parse_status (status_value s) = Some s"
  by (cases s) (simp_all add: parse_status_def)

datatype job_status =
  JS_PENDING | JS_RUNNING | JS_WAITING_FOR_USER | JS_COMPLETED | JS_COMPLETED_WITH_FAILURES
  | JS_ALREADY_COMPLETE | JS_FAILED | JS_CANCELLED

fun job_status_value :: "job_status \<Rightarrow> string" where
  "job_status_value JS_PENDING = ''pending''"
| "job_status_value JS_RUNNING = ''running''"
| "job_status_value JS_WAITING_FOR_USER = ''waiting_for_user''"
| "job_status_value JS_COMPLETED = ''completed''"
| "job_status_value JS_COMPLETED_WITH_FAILURES = ''completed_with_failures''"
| "job_status_value JS_ALREADY_COMPLETE = ''already_complete''"
| "job_status_value JS_FAILED = ''failed''"
| "job_status_value JS_CANCELLED = ''cancelled''"

section \<open>Tasks\<close>

record subtask =
  sub_id :: string
  sub_title :: string
  sub_description :: string
  sub_dependencies :: "string list"
  sub_status :: task_status
  sub_completed_at :: "int option"

record task =
  task_id :: string
  title :: string
  description :: string
  dependencies :: "string list"
  status :: task_status
  assigned_agent_id :: "string option"
  target_team :: "string option"
  feature_branch :: "string option"
  feature_branch_agent_id :: "string option"
  merged_at :: "int option"
  acceptance_criteria :: "string list"
  out_of_scope :: string
  priority :: string
  subtasks :: "subtask list"
  changes_summary :: "string option"
  revision_count :: int
  revision_feedback :: "json list"
  no_change_revisits :: int
  last_change_digest :: string
  resolved_without_changes :: bool

text \<open>A task with every field but its id at the model's default.\<close>

definition default_task :: "string \<Rightarrow> task" where
  "default_task i =
     \<lparr>task_id = i, title = [], description = [], dependencies = [], status = TO_DO,
      assigned_agent_id = None, target_team = None, feature_branch = None,
      feature_branch_agent_id = None, merged_at = None, acceptance_criteria = [],
      out_of_scope = [], priority = ''medium'', subtasks = [], changes_summary = None,
      revision_count = 0, revision_feedback = [], no_change_revisits = 0,
      last_change_digest = [], resolved_without_changes = False\<rparr>"

lemma default_task_simps [simp]:
  "task_id (default_task i) = i"
  "status (default_task i) = TO_DO"
  "assigned_agent_id (default_task i) = None"
  "dependencies (default_task i) = []"
  "subtasks (default_task i) = []"
  by (simp_all add: default_task_def)

end
