(* ===== verification/TaskGraph.thy ===== *)
theory TaskGraph
  imports TaskModels
begin

text \<open>
  The coding team's task graph (\<^verbatim>\<open>backend/agents/software_engineering_team/task_graph.py\<close>): the
  per-job store of tasks, dependencies and which agent holds which task. Every public method
  holds the service's lock for its whole body, so a method is one atomic step. The Python
  objects are mutated in place; here a changed task is stored back under its key. The persist
  callback reads the graph and cannot change it, so a call is recorded by the revision it saw.
\<close>

section \<open>State\<close>

record task_graph =
  job_id :: string
  tasks :: "(string, task) pydict"
  agent_to_task :: "(string, string) pydict"
  has_persist :: bool
  revision :: int
  persisted :: "int list"

definition create_task_graph :: "string \<Rightarrow> bool \<Rightarrow> task_graph" where
  "create_task_graph j p =
     \<lparr>job_id = j, tasks = [], agent_to_task = [], has_persist = p, revision = 0, persisted = []\<rparr>"

datatype graph_error = TaskExists string

definition maybe_persist :: "task_graph \<Rightarrow> task_graph" where
  "maybe_persist g =
     (let r = revision g + 1 in
      g\<lparr>revision := r, persisted := (if has_persist g then persisted g @ [r] else persisted g)\<rparr>)"

definition put_task :: "task_graph \<Rightarrow> string \<Rightarrow> task \<Rightarrow> task_graph" where
  "put_task g k t = g\<lparr>tasks := dset (tasks g) k t\<rparr>"

section \<open>Operations\<close>

definition add_task ::
  "string \<Rightarrow> string \<Rightarrow> string \<Rightarrow> string list \<Rightarrow> string list \<Rightarrow> string \<Rightarrow> string \<Rightarrow> subtask list \<Rightarrow>
   string option \<Rightarrow> task_graph \<Rightarrow> graph_error + (task \<times> task_graph)" where
  "add_task tid ttl descr deps accept oos prio subs team g =
     (if has_key (tasks g) tid then Inl (TaskExists tid)
      else let t = (default_task tid)
             \<lparr>title := (if ttl \<noteq> [] then ttl else tid), description := descr, dependencies := deps,
              status := TO_DO, acceptance_criteria := accept, out_of_scope := oos,
              priority := prio, subtasks := subs, target_team := team\<rparr>
           in Inr (t, maybe_persist (put_task g tid t)))"

definition free_agent :: "task \<Rightarrow> task_graph \<Rightarrow> task_graph" where
  "free_agent t g =
     (case assigned_agent_id t of
        None \<Rightarrow> g
      | Some a \<Rightarrow>
          if a \<noteq> [] \<and> dget (agent_to_task g) a = Some (task_id t)
          then g\<lparr>agent_to_task := ddel (agent_to_task g) a\<rparr> else g)"

text \<open>The \<open>assigned_agent_id\<close> argument of \<open>update_task\<close>: absent (the sentinel), an explicit
  \<open>None\<close>, or an agent. The remaining keyword arguments set attributes the task has.\<close>

datatype assign_arg = Unset | ClearAgent | SetAgent string

datatype task_attr =
    AId string | ATitle string | ADescription string | ADependencies "string list"
  | ATargetTeam "string option" | AFeatureBranchAgent "string option"
  | AAcceptance "string list" | AOutOfScope string | APriority string
  | ASubtasks "subtask list" | AChangesSummary "string option" | ARevisionCount int
  | ARevisionFeedback "json list" | ANoChangeRevisits int | ALastChangeDigest string
  | AResolvedWithoutChanges bool | AUnknown string

fun set_attr :: "task_attr \<Rightarrow> task \<Rightarrow> task" where
  "set_attr (AId x) t = t\<lparr>task_id := x\<rparr>"
| "set_attr (ATitle x) t = t\<lparr>title := x\<rparr>"
| "set_attr (ADescription x) t = t\<lparr>description := x\<rparr>"
| "set_attr (ADependencies x) t = t\<lparr>dependencies := x\<rparr>"
| "set_attr (ATargetTeam x) t = t\<lparr>target_team := x\<rparr>"
| "set_attr (AFeatureBranchAgent x) t = t\<lparr>feature_branch_agent_id := x\<rparr>"
| "set_attr (AAcceptance x) t = t\<lparr>acceptance_criteria := x\<rparr>"
| "set_attr (AOutOfScope x) t = t\<lparr>out_of_scope := x\<rparr>"
| "set_attr (APriority x) t = t\<lparr>priority := x\<rparr>"
| "set_attr (ASubtasks x) t = t\<lparr>subtasks := x\<rparr>"
| "set_attr (AChangesSummary x) t = t\<lparr>changes_summary := x\<rparr>"
| "set_attr (ARevisionCount x) t = t\<lparr>revision_count := x\<rparr>"
| "set_attr (ARevisionFeedback x) t = t\<lparr>revision_feedback := x\<rparr>"
| "set_attr (ANoChangeRevisits x) t = t\<lparr>no_change_revisits := x\<rparr>"
| "set_attr (ALastChangeDigest x) t = t\<lparr>last_change_digest := x\<rparr>"
| "set_attr (AResolvedWithoutChanges x) t = t\<lparr>resolved_without_changes := x\<rparr>"
| "set_attr (AUnknown x) t = t"

definition update_task ::
  "string \<Rightarrow> task_status option \<Rightarrow> assign_arg \<Rightarrow> string option \<Rightarrow> int option \<Rightarrow> task_attr list \<Rightarrow>
   task_graph \<Rightarrow> task option \<times> task_graph" where
  "update_task tid st asg branch merged kws g =
     (case dget (tasks g) tid of
        None \<Rightarrow> (None, g)
      | Some t \<Rightarrow>
          let t = (case st of None \<Rightarrow> t | Some s \<Rightarrow> t\<lparr>status := s\<rparr>);
              g = (if st = Some FAILED then free_agent t g else g);
              g = (if asg = ClearAgent then free_agent t g else g);
              t = (case asg of Unset \<Rightarrow> t | ClearAgent \<Rightarrow> t\<lparr>assigned_agent_id := None\<rparr>
                   | SetAgent a \<Rightarrow> t\<lparr>assigned_agent_id := Some a\<rparr>);
              t = (case branch of None \<Rightarrow> t | Some b \<Rightarrow> t\<lparr>feature_branch := Some b\<rparr>);
              t = (case merged of None \<Rightarrow> t | Some m \<Rightarrow> t\<lparr>merged_at := Some m\<rparr>);
              t = fold set_attr kws t
          in (Some t, maybe_persist (put_task g tid t)))"

definition unassign_task :: "string \<Rightarrow> task_graph \<Rightarrow> task_graph" where
  "unassign_task tid g = snd (update_task tid None ClearAgent None None [] g)"

text \<open>The loop of the two reset methods: demote the selected tasks, in dictionary order, to
  unassigned \<open>TO_DO\<close>; \<open>extra\<close> is what the method resets besides.\<close>

fun demote_loop ::
  "(task \<Rightarrow> bool) \<Rightarrow> (task \<Rightarrow> task) \<Rightarrow> string list \<Rightarrow> task_graph \<Rightarrow> task_graph" where
  "demote_loop sel extra [] g = g"
| "demote_loop sel extra (k # ks) g =
     (case dget (tasks g) k of
        None \<Rightarrow> demote_loop sel extra ks g
      | Some t \<Rightarrow>
          if sel t then
            let t' = t\<lparr>status := TO_DO\<rparr>; g' = free_agent t' g;
                t'' = extra (t'\<lparr>assigned_agent_id := None\<rparr>)
            in demote_loop sel extra ks (put_task g' k t'')
          else demote_loop sel extra ks g)"

definition in_flight :: "task \<Rightarrow> bool" where
  "in_flight t \<longleftrightarrow> status t = IN_PROGRESS \<or> status t = IN_REVIEW"

definition reset_in_flight :: "task_graph \<Rightarrow> task_graph" where
  "reset_in_flight g = maybe_persist (demote_loop in_flight (\<lambda>t. t) (dkeys (tasks g)) g)"

definition fresh_budget :: "task \<Rightarrow> task" where
  "fresh_budget t = t\<lparr>revision_count := 0, no_change_revisits := 0, last_change_digest := []\<rparr>"

definition reset_failed :: "task_graph \<Rightarrow> task_graph" where
  "reset_failed g =
     maybe_persist (demote_loop (\<lambda>t. status t = FAILED) fresh_budget (dkeys (tasks g)) g)"

definition get_tasks :: "task_graph \<Rightarrow> task list" where
  "get_tasks g = dvals (tasks g)"

definition get_task :: "string \<Rightarrow> task_graph \<Rightarrow> task option" where
  "get_task tid g = dget (tasks g) tid"

definition count_with_status :: "task_status \<Rightarrow> task_graph \<Rightarrow> nat" where
  "count_with_status s g = length (filter (\<lambda>t. status t = s) (dvals (tasks g)))"

definition dependencies_satisfied :: "string \<Rightarrow> task_graph \<Rightarrow> bool" where
  "dependencies_satisfied tid g =
     (case dget (tasks g) tid of
        None \<Rightarrow> True
      | Some t \<Rightarrow>
          list_all (\<lambda>d. case dget (tasks g) d of None \<Rightarrow> False | Some dep \<Rightarrow> status dep = MERGED)
            (dependencies t))"

definition assign_task_to_agent :: "string \<Rightarrow> string \<Rightarrow> task_graph \<Rightarrow> bool \<times> task_graph" where
  "assign_task_to_agent tid aid g =
     (case dget (tasks g) tid of
        None \<Rightarrow> (False, g)
      | Some t \<Rightarrow>
          if status t \<noteq> TO_DO then (False, g)
          else
            let current = dget (agent_to_task g) aid;
                busy = (case current of None \<Rightarrow> False | Some c \<Rightarrow>
                          c \<noteq> [] \<and> (case dget (tasks g) c of None \<Rightarrow> False
                                        | Some ct \<Rightarrow> status ct \<noteq> MERGED))
            in if busy then (False, g)
               else
                 let g = (if str_truthy current
                          then g\<lparr>agent_to_task := ddel (agent_to_task g) aid\<rparr> else g)
                 in if \<not> dependencies_satisfied tid g then (False, g)
                    else (True,
                      maybe_persist
                        ((put_task g tid (t\<lparr>status := IN_PROGRESS, assigned_agent_id := Some aid\<rparr>))
                           \<lparr>agent_to_task := dset (agent_to_task g) aid tid\<rparr>)))"

definition get_task_for_agent :: "string \<Rightarrow> task_graph \<Rightarrow> task option \<times> task_graph" where
  "get_task_for_agent aid g =
     (case dget (agent_to_task g) aid of
        None \<Rightarrow> (None, g)
      | Some tid \<Rightarrow>
          if tid = [] then (None, g)
          else case dget (tasks g) tid of
            None \<Rightarrow> (None, g\<lparr>agent_to_task := ddel (agent_to_task g) aid\<rparr>)
          | Some t \<Rightarrow>
              if status t = MERGED \<or> status t = FAILED
              then (None, g\<lparr>agent_to_task := ddel (agent_to_task g) aid\<rparr>)
              else (Some t, g))"

definition mark_branch_merged :: "string \<Rightarrow> int \<Rightarrow> task_graph \<Rightarrow> bool \<times> task_graph" where
  "mark_branch_merged tid now g =
     (case dget (tasks g) tid of
        None \<Rightarrow> (False, g)
      | Some t \<Rightarrow>
          let t' = t\<lparr>status := MERGED, merged_at := Some now\<rparr>
          in (True, maybe_persist (free_agent t' (put_task g tid t'))))"

definition set_task_in_review :: "string \<Rightarrow> task_graph \<Rightarrow> bool \<times> task_graph" where
  "set_task_in_review tid g =
     (case dget (tasks g) tid of
        None \<Rightarrow> (False, g)
      | Some t \<Rightarrow> (True, maybe_persist (put_task g tid (t\<lparr>status := IN_REVIEW\<rparr>))))"

definition blocked_note :: json where
  "blocked_note = JDict [(''source'', JStr ''system''),
                         (''reason'', JStr ''Blocked: a required dependency failed'')]"

definition has_failed_dep :: "task_graph \<Rightarrow> task \<Rightarrow> bool" where
  "has_failed_dep g t =
     list_ex (\<lambda>d. case dget (tasks g) d of None \<Rightarrow> False | Some dep \<Rightarrow> status dep = FAILED)
       (dependencies t)"

definition fail_blocked :: "string \<Rightarrow> task \<Rightarrow> task_graph \<Rightarrow> task_graph" where
  "fail_blocked k t g =
     (let t' = t\<lparr>status := FAILED, revision_feedback := revision_feedback t @ [blocked_note]\<rparr>
      in free_agent t' (put_task g k t'))"

text \<open>One pass of the \<open>while changed\<close> loop over \<open>values()\<close>: a task failed early in the pass is
  seen as failed later in the same pass.\<close>

fun cascade_pass :: "string list \<Rightarrow> task_graph \<Rightarrow> string list \<Rightarrow> task_graph \<times> string list" where
  "cascade_pass [] g new = (g, new)"
| "cascade_pass (k # ks) g new =
     (case dget (tasks g) k of
        None \<Rightarrow> cascade_pass ks g new
      | Some t \<Rightarrow>
          if status t = FAILED \<or> \<not> has_failed_dep g t then cascade_pass ks g new
          else cascade_pass ks (fail_blocked k t g) (new @ [task_id t]))"

definition live_count :: "task_graph \<Rightarrow> nat" where
  "live_count g = length (filter (\<lambda>t. status t \<noteq> FAILED) (dvals (tasks g)))"

section \<open>Frame lemmas\<close>

lemma free_agent_frame [simp]:
  "tasks (free_agent t g) = tasks g" "job_id (free_agent t g) = job_id g"
  "revision (free_agent t g) = revision g" "has_persist (free_agent t g) = has_persist g"
  "persisted (free_agent t g) = persisted g"
  by (simp_all add: free_agent_def split: option.splits)

lemma maybe_persist_frame [simp]:
  "tasks (maybe_persist g) = tasks g" "agent_to_task (maybe_persist g) = agent_to_task g"
  "job_id (maybe_persist g) = job_id g" "has_persist (maybe_persist g) = has_persist g"
  by (simp_all add: maybe_persist_def Let_def)

lemma put_task_frame [simp]:
  "tasks (put_task g k t) = dset (tasks g) k t" "agent_to_task (put_task g k t) = agent_to_task g"
  "job_id (put_task g k t) = job_id g" "revision (put_task g k t) = revision g"
  "has_persist (put_task g k t) = has_persist g" "persisted (put_task g k t) = persisted g"
  by (simp_all add: put_task_def)

lemma free_agent_map:
  "dget (agent_to_task (free_agent t g)) a =
     (if assigned_agent_id t = Some a \<and> a \<noteq> [] \<and> dget (agent_to_task g) a = Some (task_id t)
      then None else dget (agent_to_task g) a)"
  by (auto simp: free_agent_def split: option.splits)

lemma wf_free_agent [simp]:
  "wf_dict (agent_to_task g) \<Longrightarrow> wf_dict (agent_to_task (free_agent t g))"
  by (auto simp: free_agent_def split: option.splits)

lemma live_count_put:
  assumes "dget (tasks g) k = Some t" and "status t \<noteq> FAILED" and "status t' = FAILED"
  shows "live_count (put_task g k t') < live_count g"
proof -
  have "length (filter (\<lambda>t. status t \<noteq> FAILED) (dvals (dset d k t'))) <
        length (filter (\<lambda>t. status t \<noteq> FAILED) (dvals d))"
    if "dget d k = Some t" for d
    using that assms(2,3) by (induction d) (auto split: if_splits)
  with assms(1) show ?thesis by (simp add: live_count_def)
qed

lemma live_count_fail_blocked:
  "dget (tasks g) k = Some t \<Longrightarrow> status t \<noteq> FAILED \<Longrightarrow> live_count (fail_blocked k t g) < live_count g"
  using live_count_put [of g k t "t\<lparr>status := FAILED, revision_feedback := revision_feedback t @ [blocked_note]\<rparr>"]
  by (simp add: fail_blocked_def live_count_def Let_def)

lemma cascade_pass_live:
  "cascade_pass ks g new = (g', new') \<Longrightarrow>
     live_count g' \<le> live_count g \<and> (new' \<noteq> new \<longrightarrow> live_count g' < live_count g) \<and>
     (\<exists>zs. new' = new @ zs) \<and> (new' = new \<longrightarrow> g' = g)"
proof (induction ks g new rule: cascade_pass.induct)
  case (2 k ks g new)
  show ?case
  proof (cases "dget (tasks g) k")
    case None
    with 2 show ?thesis by simp
  next
    case (Some t)
    show ?thesis
    proof (cases "status t = FAILED \<or> \<not> has_failed_dep g t")
      case True
      with 2 Some show ?thesis by auto
    next
      case False
      with Some 2 have "live_count g' \<le> live_count (fail_blocked k t g)"
        "\<exists>zs. new' = (new @ [task_id t]) @ zs" by auto
      with live_count_fail_blocked [OF Some] False show ?thesis by auto
    qed
  qed
qed simp

section \<open>The cascade\<close>

text \<open>The \<open>while changed\<close> loop: it stops because a pass that changes anything fails at least one
  more task.\<close>

function cascade_loop :: "task_graph \<Rightarrow> string list \<Rightarrow> task_graph \<times> string list" where
  "cascade_loop g failed =
     (let (g', new) = cascade_pass (dkeys (tasks g)) g []
      in if new = [] then (g', failed) else cascade_loop g' (failed @ new))"
  by pat_completeness auto
termination
  by (relation "measure (\<lambda>(g, failed). live_count g)")
    (auto dest!: cascade_pass_live [OF sym])

declare cascade_loop.simps [simp del]

definition mark_dependents_failed :: "string \<Rightarrow> task_graph \<Rightarrow> string list \<times> task_graph" where
  "mark_dependents_failed tid g =
     (let (g', failed) = cascade_loop g []
      in (failed, if failed \<noteq> [] then maybe_persist g' else g'))"

definition get_next_eligible_subtask :: "string \<Rightarrow> task_graph \<Rightarrow> subtask option" where
  "get_next_eligible_subtask tid g =
     (case dget (tasks g) tid of
        None \<Rightarrow> None
      | Some t \<Rightarrow>
          let completed = set (map sub_id (filter (\<lambda>s. sub_status s = MERGED) (subtasks t)))
          in find (\<lambda>s. sub_status s \<notin> {MERGED, IN_PROGRESS, IN_REVIEW} \<and>
                       list_all (\<lambda>d. d \<in> completed) (sub_dependencies s)) (subtasks t))"

end
