(* ===== verification/TaskCascade.thy ===== *)
theory TaskCascade
  imports TaskGraph
begin

text \<open>
  Correctness of the dependency-failure cascade (\<open>mark_dependents_failed\<close>): it computes exactly
  the tasks that can never be satisfied, the least set that holds the failed tasks and is closed
  under "depends on a member".
\<close>

section \<open>Specification\<close>

inductive doomed :: "task_graph \<Rightarrow> string \<Rightarrow> bool" for g :: task_graph where
  doomed_failed: "dget (tasks g) k = Some t \<Longrightarrow> status t = FAILED \<Longrightarrow> doomed g k"
| doomed_dep: "dget (tasks g) k = Some t \<Longrightarrow> d \<in> set (dependencies t) \<Longrightarrow> doomed g d \<Longrightarrow> doomed g k"

definition failed_version :: "task \<Rightarrow> task" where
  "failed_version t = t\<lparr>status := FAILED, revision_feedback := revision_feedback t @ [blocked_note]\<rparr>"

definition keyed :: "task_graph \<Rightarrow> bool" where
  "keyed g \<longleftrightarrow> (\<forall>k t. dget (tasks g) k = Some t \<longrightarrow> task_id t = k)"

text \<open>What the cascade has done so far, from the graph \<open>g0\<close> it started on.\<close>

definition cascaded_at :: "task_graph \<Rightarrow> task_graph \<Rightarrow> string list \<Rightarrow> string \<Rightarrow> bool" where
  "cascaded_at g0 g new k \<longleftrightarrow>
     (case dget (tasks g0) k of
        None \<Rightarrow> dget (tasks g) k = None \<and> k \<notin> set new
      | Some t0 \<Rightarrow>
          if k \<in> set new
          then status t0 \<noteq> FAILED \<and> doomed g0 k \<and> dget (tasks g) k = Some (failed_version t0)
          else dget (tasks g) k = Some t0)"

definition cascaded :: "task_graph \<Rightarrow> task_graph \<Rightarrow> string list \<Rightarrow> bool" where
  "cascaded g0 g new \<longleftrightarrow>
     (\<forall>k. cascaded_at g0 g new k) \<and> distinct new \<and> dkeys (tasks g) = dkeys (tasks g0)"

lemma failed_version_simps [simp]:
  "status (failed_version t) = FAILED" "dependencies (failed_version t) = dependencies t"
  "task_id (failed_version t) = task_id t"
  "assigned_agent_id (failed_version t) = assigned_agent_id t"
  by (simp_all add: failed_version_def)

lemma fail_blocked_eq: "fail_blocked k t g = free_agent (failed_version t) (put_task g k (failed_version t))"
  by (simp add: fail_blocked_def failed_version_def Let_def)

lemma tasks_fail_blocked [simp]: "tasks (fail_blocked k t g) = dset (tasks g) k (failed_version t)"
  by (simp add: fail_blocked_eq)

lemma cascaded_refl: "cascaded g g []"
  by (auto simp: cascaded_def cascaded_at_def split: option.splits)

lemma cascaded_at: "cascaded g0 g new \<Longrightarrow> cascaded_at g0 g new k"
  by (simp add: cascaded_def)

lemma has_failed_dep_iff:
  "has_failed_dep g t \<longleftrightarrow> (\<exists>d \<in> set (dependencies t). \<exists>u. dget (tasks g) d = Some u \<and> status u = FAILED)"
  by (auto simp: has_failed_dep_def list_ex_iff split: option.splits)

lemma cascaded_lookup:
  assumes "cascaded g0 g new" and "dget (tasks g) k = Some t"
  obtains t0 where "dget (tasks g0) k = Some t0"
    and "k \<in> set new \<Longrightarrow> status t0 \<noteq> FAILED \<and> doomed g0 k \<and> t = failed_version t0"
    and "k \<notin> set new \<Longrightarrow> t = t0"
proof (cases "dget (tasks g0) k")
  case None
  with cascaded_at [OF assms(1), of k] assms(2) have False by (simp add: cascaded_at_def)
  then show thesis ..
next
  case (Some t0)
  have "k \<in> set new \<Longrightarrow> status t0 \<noteq> FAILED \<and> doomed g0 k \<and> t = failed_version t0"
    and "k \<notin> set new \<Longrightarrow> t = t0"
    using cascaded_at [OF assms(1), of k] assms(2) Some by (simp_all add: cascaded_at_def)
  with Some show thesis by (rule that)
qed

lemma cascaded_failed_doomed:
  assumes "cascaded g0 g new" and "dget (tasks g) k = Some t" and "status t = FAILED"
  shows "doomed g0 k"
  by (rule cascaded_lookup [OF assms(1,2)]) (use assms(3) in \<open>auto intro: doomed_failed\<close>)

lemma cascaded_fail_blocked:
  assumes c: "cascaded g0 g new" and k: "dget (tasks g) k = Some t"
    and live: "status t \<noteq> FAILED" and dep: "has_failed_dep g t" and id: "task_id t = k"
  shows "cascaded g0 (fail_blocked k t g) (new @ [task_id t])"
proof -
  have new: "k \<notin> set new"
    by (rule cascaded_lookup [OF c k]) (use live in auto)
  have t0: "dget (tasks g0) k = Some t"
    by (rule cascaded_lookup [OF c k]) (use new in auto)
  from dep obtain d u where "d \<in> set (dependencies t)" "dget (tasks g) d = Some u" "status u = FAILED"
    by (auto simp: has_failed_dep_iff)
  then have "doomed g0 k"
    using t0 cascaded_failed_doomed [OF c] by (blast intro: doomed_dep)
  then have "cascaded_at g0 (fail_blocked k t g) (new @ [k]) j" for j
    using cascaded_at [OF c, of j] t0 new live
    by (cases "j = k") (auto simp: cascaded_at_def split: option.splits)
  moreover have "dkeys (dset (tasks g) k (failed_version t)) = dkeys (tasks g)"
    using k by (simp add: dset_keys_old)
  ultimately show ?thesis
    using c new id by (simp add: cascaded_def)
qed

lemma keyed_fail_blocked: "keyed g \<Longrightarrow> dget (tasks g) k = Some t \<Longrightarrow> keyed (fail_blocked k t g)"
  by (auto simp: keyed_def)

section \<open>The passes\<close>

lemma cascade_pass_cascaded:
  "cascade_pass ks g new = (g', new') \<Longrightarrow> cascaded g0 g (old @ new) \<Longrightarrow> keyed g \<Longrightarrow>
     cascaded g0 g' (old @ new') \<and> keyed g'"
proof (induction ks g new rule: cascade_pass.induct)
  case (2 k ks g new)
  show ?case
  proof (cases "dget (tasks g) k")
    case None
    then have "cascade_pass ks g new = (g', new')" using "2.prems"(1) by simp
    from "2.IH"(1) [OF None this "2.prems"(2,3)] show ?thesis .
  next
    case (Some t)
    show ?thesis
    proof (cases "status t = FAILED \<or> \<not> has_failed_dep g t")
      case True
      then have "cascade_pass ks g new = (g', new')" using "2.prems"(1) Some by simp
      from "2.IH"(2) [OF Some True this "2.prems"(2,3)] show ?thesis .
    next
      case False
      from "2.prems"(3) Some have id: "task_id t = k" by (simp add: keyed_def)
      with cascaded_fail_blocked [OF "2.prems"(2) Some] False
      have "cascaded g0 (fail_blocked k t g) (old @ (new @ [task_id t]))" by auto
      moreover have "keyed (fail_blocked k t g)"
        using "2.prems"(3) Some by (rule keyed_fail_blocked)
      moreover have "cascade_pass ks (fail_blocked k t g) (new @ [task_id t]) = (g', new')"
        using "2.prems"(1) Some False by simp
      ultimately show ?thesis using "2.IH"(3) [OF Some False] by blast
    qed
  qed
qed simp

lemma cascade_pass_quiet:
  "cascade_pass ks g new = (g', new) \<Longrightarrow> k \<in> set ks \<Longrightarrow> dget (tasks g) k = Some t \<Longrightarrow>
     status t = FAILED \<or> \<not> has_failed_dep g t"
proof (induction ks g new rule: cascade_pass.induct)
  case (2 j ks g new)
  show ?case
  proof (cases "dget (tasks g) j")
    case None
    with 2 show ?thesis by auto
  next
    case (Some u)
    show ?thesis
    proof (cases "status u = FAILED \<or> \<not> has_failed_dep g u")
      case True
      with 2 Some show ?thesis by auto
    next
      case False
      with 2 Some have "cascade_pass ks (fail_blocked j u g) (new @ [task_id u]) = (g', new)" by auto
      from cascade_pass_live [OF this] show ?thesis by auto
    qed
  qed
qed simp

section \<open>The loop\<close>

definition settled :: "task_graph \<Rightarrow> bool" where
  "settled g \<longleftrightarrow> (\<forall>k t. dget (tasks g) k = Some t \<longrightarrow> status t = FAILED \<or> \<not> has_failed_dep g t)"

lemma cascade_loop_correct:
  "cascade_loop g old = (g', new') \<Longrightarrow> cascaded g0 g old \<Longrightarrow> keyed g \<Longrightarrow>
     cascaded g0 g' new' \<and> keyed g' \<and> settled g'"
proof (induction g old rule: cascade_loop.induct)
  case (1 g old)
  obtain g1 new where pass: "cascade_pass (dkeys (tasks g)) g [] = (g1, new)" by fastforce
  from cascade_pass_cascaded [OF pass, of g0 old] "1.prems"
  have c1: "cascaded g0 g1 (old @ new)" "keyed g1" by auto
  show ?case
  proof (cases "new = []")
    case True
    with pass 1 have same: "g1 = g" "g' = g1" "new' = old"
      using cascade_pass_live [OF pass]
      by (simp_all add: cascade_loop.simps [of g old])
    have "settled g"
      using cascade_pass_quiet [of "dkeys (tasks g)" g "[]" g1] pass True
      unfolding settled_def by (metis in_dkeys_iff)
    with c1 same True show ?thesis by simp
  next
    case False
    with 1(2) pass have "cascade_loop g1 (old @ new) = (g', new')"
      by (simp add: cascade_loop.simps [of g old])
    from "1.IH" [OF pass [symmetric] refl False this] c1 show ?thesis by blast
  qed
qed

lemma doomed_failed_after:
  assumes "cascaded g0 g new" and "settled g" and "doomed g0 k"
  shows "\<exists>t. dget (tasks g) k = Some t \<and> status t = FAILED"
  using assms(3)
proof (induction rule: doomed.induct)
  case (doomed_failed k t)
  with cascaded_at [OF assms(1), of k] show ?case
    by (auto simp: cascaded_at_def split: if_splits)
next
  case (doomed_dep k t d)
  from cascaded_at [OF assms(1), of k] doomed_dep.hyps(1)
  obtain t' where t': "dget (tasks g) k = Some t'" "dependencies t' = dependencies t"
    by (auto simp: cascaded_at_def split: if_splits)
  with doomed_dep have "has_failed_dep g t'" by (auto simp: has_failed_dep_iff)
  with assms(2) t'(1) show ?case by (auto simp: settled_def)
qed

lemma cascaded_cong: "tasks g = tasks h \<Longrightarrow> cascaded g0 g new = cascaded g0 h new"
  by (simp only: cascaded_def cascaded_at_def)

lemma settled_cong: "tasks g = tasks h \<Longrightarrow> settled g = settled h"
  by (simp only: settled_def has_failed_dep_def)

section \<open>Properties\<close>

lemma mark_dependents_failed_parts:
  assumes "mark_dependents_failed tid g = (failed, g')" and "keyed g"
  shows "cascaded g g' failed \<and> settled g'"
proof -
  obtain g1 where loop: "cascade_loop g [] = (g1, failed)" and "tasks g' = tasks g1"
    using assms(1) by (auto simp: mark_dependents_failed_def split: prod.splits)
  moreover from cascade_loop_correct [OF loop cascaded_refl assms(2)]
  have "cascaded g g1 failed \<and> settled g1" by blast
  ultimately show ?thesis
    using cascaded_cong [of g' g1] settled_cong [of g' g1] by blast
qed

text \<open>C1. Failing the dependents of a failed task fails exactly the tasks that can never run: a
  task is failed afterwards iff it was failed, or depends (through any chain of tasks of the
  graph) on a failed one. The returned list is the newly failed tasks, each once; every other
  task is untouched, and each newly failed task got the system note appended to its feedback.\<close>

theorem cascade_fails_exactly_the_doomed:
  assumes "keyed g" and "mark_dependents_failed tid g = (failed, g')"
  shows "(\<forall>k. (\<exists>t. dget (tasks g') k = Some t \<and> status t = FAILED) = doomed g k) \<and>
         distinct failed \<and>
         set failed = {k. doomed g k \<and> (\<exists>t. dget (tasks g) k = Some t \<and> status t \<noteq> FAILED)} \<and>
         (\<forall>k. dget (tasks g') k =
                (if k \<in> set failed then map_option failed_version (dget (tasks g) k)
                 else dget (tasks g) k))"
proof -
  from mark_dependents_failed_parts [OF assms(2,1)]
  have c: "cascaded g g' failed" and s: "settled g'" by auto
  have iff: "(\<exists>t. dget (tasks g') k = Some t \<and> status t = FAILED) = doomed g k" for k
    using cascaded_failed_doomed [OF c] doomed_failed_after [OF c s] by blast
  have look: "dget (tasks g') k =
      (if k \<in> set failed then map_option failed_version (dget (tasks g) k) else dget (tasks g) k)"
    and new: "k \<in> set failed \<Longrightarrow> doomed g k \<and> (\<exists>t. dget (tasks g) k = Some t \<and> status t \<noteq> FAILED)" for k
    using cascaded_at [OF c, of k] by (auto simp: cascaded_at_def split: option.splits if_splits)
  have "k \<in> set failed" if "doomed g k" "dget (tasks g) k = Some t" "status t \<noteq> FAILED" for k t
    using iff [of k] that look [of k] by (auto split: if_splits)
  with new have "set failed = {k. doomed g k \<and> (\<exists>t. dget (tasks g) k = Some t \<and> status t \<noteq> FAILED)}"
    by blast
  moreover have "distinct failed" using c by (simp add: cascaded_def)
  ultimately show ?thesis using iff look by blast
qed

text \<open>After the cascade the swarm can make progress: no task that is not failed has a failed
  dependency left.\<close>

theorem cascade_leaves_no_blocked_task:
  assumes "keyed g" and "dget (tasks (snd (mark_dependents_failed tid g))) k = Some t"
    and "status t \<noteq> FAILED" and "d \<in> set (dependencies t)"
    and "dget (tasks (snd (mark_dependents_failed tid g))) d = Some u"
  shows "status u \<noteq> FAILED"
proof -
  obtain failed g' where m: "mark_dependents_failed tid g = (failed, g')" by fastforce
  from mark_dependents_failed_parts [OF this assms(1)] have "settled g'" by blast
  with assms m show ?thesis by (auto simp: settled_def has_failed_dep_iff)
qed

section \<open>Witnesses\<close>

text \<open>Tasks a (failed), b needs a, c needs b, d needs nothing; b is held by an agent.\<close>

definition chain_graph :: task_graph where
  "chain_graph = (create_task_graph ''job'' True)
     \<lparr>tasks := [(''c'', (default_task ''c'')\<lparr>dependencies := [''b'']\<rparr>),
               (''b'', (default_task ''b'')\<lparr>dependencies := [''a''], status := IN_PROGRESS,
                         assigned_agent_id := Some ''w1''\<rparr>),
               (''a'', (default_task ''a'')\<lparr>status := FAILED\<rparr>),
               (''d'', default_task ''d'')],
      agent_to_task := [(''w1'', ''b'')]\<rparr>"

lemma keyed_chain_graph: "keyed chain_graph"
  by (auto simp: keyed_def chain_graph_def split: if_splits)

lemma chain_graph_cascade: "fst (mark_dependents_failed ''a'' chain_graph) = [''b'', ''c'']"
  by code_simp

theorem cascade_fails_exactly_the_doomed_witness:
  "doomed chain_graph ''c'' \<and> \<not> doomed chain_graph ''d'' \<and>
   set [''b'', ''c''] = {k. doomed chain_graph k \<and>
      (\<exists>t. dget (tasks chain_graph) k = Some t \<and> status t \<noteq> FAILED)}"
proof -
  let ?m = "mark_dependents_failed ''a'' chain_graph"
  have m: "?m = (fst ?m, snd ?m)" by simp
  note all = cascade_fails_exactly_the_doomed [OF keyed_chain_graph m, unfolded chain_graph_cascade]
  have "''c'' \<in> set [''b'', ''c'']" by simp
  with all have c: "doomed chain_graph ''c''" by blast
  have "dget (tasks chain_graph) ''d'' = Some (default_task ''d'')"
    by (simp add: chain_graph_def)
  then have "\<exists>t. dget (tasks chain_graph) ''d'' = Some t \<and> status t \<noteq> FAILED" by simp
  moreover have "''d'' \<notin> set [''b'', ''c'']" by simp
  ultimately have d: "\<not> doomed chain_graph ''d''" using all by blast
  from c d conjunct1 [OF conjunct2 [OF conjunct2 [OF all]]] show ?thesis by (intro conjI)
qed

definition pair_graph :: task_graph where
  "pair_graph = (create_task_graph ''job'' True)
     \<lparr>tasks := [(''a'', default_task ''a''), (''b'', (default_task ''b'')\<lparr>dependencies := [''a'']\<rparr>)]\<rparr>"

lemma tasks_pair_graph:
  "tasks pair_graph = [(''a'', default_task ''a''), (''b'', (default_task ''b'')\<lparr>dependencies := [''a'']\<rparr>)]"
  by (simp add: pair_graph_def)

lemma pair_graph_cascade: "snd (mark_dependents_failed tid pair_graph) = pair_graph"
  by (simp add: mark_dependents_failed_def cascade_loop.simps [of pair_graph] tasks_pair_graph
      has_failed_dep_def)

theorem cascade_leaves_no_blocked_task_witness:
  "status (default_task ''a'') \<noteq> FAILED"
proof -
  have k: "keyed pair_graph" by (auto simp: keyed_def tasks_pair_graph split: if_splits)
  show ?thesis
    by (rule cascade_leaves_no_blocked_task
        [OF k, of "''z''" "''b''" "(default_task ''b'')\<lparr>dependencies := [''a'']\<rparr>" "''a''"])
      (simp_all add: pair_graph_cascade tasks_pair_graph)
qed

end
