(* ===== verification/TaskGraphInv.thy ===== *)
theory TaskGraphInv
  imports TaskCascade
begin

text \<open>
  The task graph's central invariant: the agent map holds one active task per agent and one agent
  per task, and the map and the tasks' own back-references agree. A demotion is two calls, each under
  the lock on its own, so between them a task is \<open>TO_DO\<close> and still held: the invariant takes the set
  \<open>B\<close> of the tasks whose status was set without a release, and the set \<open>T\<close> of tasks nothing is said
  of. \<open>graph_inv\<close> is the invariant with both empty.
\<close>

section \<open>The invariant\<close>

definition holds_task :: "string set \<Rightarrow> task_graph \<Rightarrow> string \<Rightarrow> string \<Rightarrow> bool" where
  "holds_task B g a tid \<longleftrightarrow>
     a \<noteq> [] \<and> tid \<noteq> [] \<and>
     (\<exists>t. dget (tasks g) tid = Some t \<and> assigned_agent_id t = Some a \<and> (in_flight t \<or> tid \<in> B))"

definition agents_ok :: "string set \<Rightarrow> string set \<Rightarrow> task_graph \<Rightarrow> bool" where
  "agents_ok B T g \<longleftrightarrow>
     (\<forall>a tid. dget (agent_to_task g) a = Some tid \<longrightarrow> tid \<in> T \<or> holds_task B g a tid)"

definition graph_ok :: "string set \<Rightarrow> string set \<Rightarrow> task_graph \<Rightarrow> bool" where
  "graph_ok B T g \<longleftrightarrow> keyed g \<and> agents_ok B T g \<and> wf_dict (tasks g) \<and> wf_dict (agent_to_task g)"

abbreviation graph_inv :: "task_graph \<Rightarrow> bool" where
  "graph_inv \<equiv> graph_ok {} {}"

lemma graph_okI:
  "keyed g \<Longrightarrow> agents_ok B T g \<Longrightarrow> wf_dict (tasks g) \<Longrightarrow> wf_dict (agent_to_task g) \<Longrightarrow> graph_ok B T g"
  by (simp add: graph_ok_def)

lemma graph_invD:
  assumes "graph_ok B T g"
  shows "keyed g" "agents_ok B T g" "wf_dict (tasks g)" "wf_dict (agent_to_task g)"
  using assms by (simp_all add: graph_ok_def)

lemma keyedD: "keyed g \<Longrightarrow> dget (tasks g) k = Some t \<Longrightarrow> task_id t = k"
  by (simp add: keyed_def)

lemma agents_okD: "agents_ok B T g \<Longrightarrow> dget (agent_to_task g) a = Some tid \<Longrightarrow> tid \<in> T \<or> holds_task B g a tid"
  by (simp add: agents_ok_def)

lemma holds_task_cong: "tasks g = tasks h \<Longrightarrow> holds_task B g a tid = holds_task B h a tid"
  by (simp only: holds_task_def)

lemma holds_task_put:
  "holds_task B (put_task g k t) a tid =
     (if tid = k then a \<noteq> [] \<and> tid \<noteq> [] \<and> assigned_agent_id t = Some a \<and> (in_flight t \<or> tid \<in> B)
      else holds_task B g a tid)"
  by (auto simp: holds_task_def)

lemma keyed_cong: "tasks g = tasks h \<Longrightarrow> keyed g = keyed h"
  by (simp only: keyed_def)

lemma held_back_reference:
  "graph_ok B T g \<Longrightarrow> dget (agent_to_task g) a = Some k \<Longrightarrow> k \<notin> T \<Longrightarrow>
     \<exists>t. dget (tasks g) k = Some t \<and> assigned_agent_id t = Some a \<and> (in_flight t \<or> k \<in> B) \<and> a \<noteq> [] \<and> k \<noteq> []"
  using agents_okD [OF graph_invD(2)] unfolding holds_task_def by blast

text \<open>Fewer entries over the same tasks, and larger exceptions.\<close>

lemma graph_ok_fewer:
  assumes "graph_ok B T g" and "tasks h = tasks g" and "wf_dict (agent_to_task h)"
    and "\<And>a k. dget (agent_to_task h) a = Some k \<Longrightarrow> dget (agent_to_task g) a = Some k"
  shows "graph_ok B T h"
  using assms holds_task_cong [OF assms(2)] keyed_cong [OF assms(2)]
  by (auto simp: graph_ok_def agents_ok_def)

lemma graph_ok_mono: "graph_ok B T g \<Longrightarrow> B \<subseteq> B' \<Longrightarrow> T \<subseteq> T' \<Longrightarrow> graph_ok B' T' g"
  by (fastforce simp: graph_ok_def agents_ok_def holds_task_def)

text \<open>A task that nobody holds, or that is in flight, is no exception any more.\<close>

lemma graph_ok_settled:
  assumes "graph_ok B T g"
    and "\<And>a. dget (agent_to_task g) a = Some k \<Longrightarrow> k \<notin> T \<Longrightarrow> \<exists>t. dget (tasks g) k = Some t \<and> in_flight t"
  shows "graph_ok (B - {k}) T g"
  using assms unfolding graph_ok_def agents_ok_def holds_task_def by (metis Diff_iff option.inject singletonD)

lemma graph_ok_maybe_persist [simp]: "graph_ok B T (maybe_persist g) = graph_ok B T g"
  using holds_task_cong [of "maybe_persist g" g] keyed_cong [of "maybe_persist g" g]
  by (simp add: graph_ok_def agents_ok_def)

lemma create_graph_inv: "graph_ok B T (create_task_graph j p)"
  by (simp add: graph_ok_def keyed_def agents_ok_def create_task_graph_def)

section \<open>Two shapes of update\<close>

text \<open>A task stored back in flight under the same agent, or one that no agent holds.\<close>

lemma graph_ok_put:
  assumes "graph_ok B T g" and "task_id t' = k"
    and "\<And>a. dget (agent_to_task g) a = Some k \<Longrightarrow> k \<notin> T \<Longrightarrow>
      assigned_agent_id t' = Some a \<and> (in_flight t' \<or> k \<in> B)"
  shows "graph_ok B T (put_task g k t')"
proof (rule graph_okI)
  from graph_invD [OF assms(1)] show "wf_dict (tasks (put_task g k t'))"
    "wf_dict (agent_to_task (put_task g k t'))" by simp_all
  from graph_invD(1) [OF assms(1)] assms(2) show "keyed (put_task g k t')"
    by (simp add: keyed_def)
  show "agents_ok B T (put_task g k t')"
    unfolding agents_ok_def
  proof (intro allI impI)
    fix a tid assume "dget (agent_to_task (put_task g k t')) a = Some tid"
    then have m: "dget (agent_to_task g) a = Some tid" by simp
    with agents_okD [OF graph_invD(2) [OF assms(1)]] have h: "tid \<in> T \<or> holds_task B g a tid" by blast
    show "tid \<in> T \<or> holds_task B (put_task g k t') a tid"
    proof (cases "tid \<in> T")
      case False
      with h have "holds_task B g a tid" "a \<noteq> []" "tid \<noteq> []" by (simp_all add: holds_task_def)
      then show ?thesis using assms(3) [of a] m False by (auto simp: holds_task_put)
    qed simp
  qed
qed

text \<open>A task whose agent is released first may be stored back in any state.\<close>

lemma graph_ok_free: "graph_ok B T g \<Longrightarrow> graph_ok B T (free_agent t g)"
  by (rule graph_ok_fewer) (auto simp: free_agent_map split: if_splits dest: graph_invD(4))

lemma freed_unheld:
  assumes "graph_ok B T g" and "dget (tasks g) k = Some t" and "k \<notin> T"
    and "assigned_agent_id t' = assigned_agent_id t" and "task_id t' = k"
  shows "dget (agent_to_task (free_agent t' g)) a \<noteq> Some k"
proof
  assume h: "dget (agent_to_task (free_agent t' g)) a = Some k"
  then have m: "dget (agent_to_task g) a = Some k" by (simp add: free_agent_map split: if_splits)
  from held_back_reference [OF assms(1) m assms(3)] assms(2,4)
  have "assigned_agent_id t' = Some a" "a \<noteq> []" by auto
  with h m assms(5) show False by (simp add: free_agent_map)
qed

lemma graph_ok_free_put:
  assumes "graph_ok B T g" and "dget (tasks g) k = Some t"
    and "assigned_agent_id t' = assigned_agent_id t" and "task_id t' = k" and "task_id t'' = k"
  shows "graph_ok (B - {k}) T (put_task (free_agent t' g) k t'')"
proof (rule graph_ok_settled)
  show "graph_ok B T (put_task (free_agent t' g) k t'')"
    by (rule graph_ok_put [OF graph_ok_free [OF assms(1)] assms(5)])
      (use freed_unheld [OF assms(1,2) _ assms(3,4)] in blast)
qed (use freed_unheld [OF assms(1,2) _ assms(3,4)] in simp)

lemma free_agent_put: "free_agent t (put_task g k t') = put_task (free_agent t g) k t'"
  by (simp add: free_agent_def put_task_def split: option.splits)

lemma unheld_status:
  assumes "graph_ok B T g" and "dget (tasks g) k = Some t" and "\<not> in_flight t" and "k \<notin> B" and "k \<notin> T"
  shows "dget (agent_to_task g) a \<noteq> Some k"
  using held_back_reference [OF assms(1) _ assms(5), of a] assms(2-4) by auto

section \<open>Every operation keeps it\<close>

lemma add_task_inv:
  assumes "add_task tid ttl descr deps accept oos prio subs team g = Inr (t, g')" and "graph_ok B T g"
  shows "graph_ok B T g'"
proof -
  from assms(1) have new: "dget (tasks g) tid = None"
    by (simp add: add_task_def has_key_def split: if_splits)
  from assms(1) obtain t' where "g' = maybe_persist (put_task g tid t')" "task_id t' = tid"
    by (auto simp: add_task_def Let_def split: if_splits)
  moreover have "tid \<in> T \<or> dget (agent_to_task g) a \<noteq> Some tid" for a
    using held_back_reference [OF assms(2), of a tid] new by auto
  ultimately show ?thesis using graph_ok_put [OF assms(2), of t' tid] by auto
qed

text \<open>Calls of \<open>update_task\<close>: no caller names an agent or another id. A status set without a release
  leaves the task loose, until it is released or in flight again.\<close>

definition keeps_identity :: "task_attr list \<Rightarrow> bool" where
  "keeps_identity kws \<longleftrightarrow> list_all (\<lambda>k. case k of AId _ \<Rightarrow> False | _ \<Rightarrow> True) kws"

lemma fold_set_attr_keeps:
  "keeps_identity kws \<Longrightarrow>
     task_id (fold set_attr kws t) = task_id t \<and>
     assigned_agent_id (fold set_attr kws t) = assigned_agent_id t \<and>
     status (fold set_attr kws t) = status t"
proof (induction kws arbitrary: t)
  case (Cons k kws)
  have "task_id (set_attr k t) = task_id t \<and>
    assigned_agent_id (set_attr k t) = assigned_agent_id t \<and> status (set_attr k t) = status t"
    using Cons.prems by (cases k) (auto simp: keeps_identity_def)
  with Cons show ?case by (simp add: keeps_identity_def)
qed simp

definition update_ok :: "assign_arg \<Rightarrow> task_attr list \<Rightarrow> bool" where
  "update_ok asg kws \<longleftrightarrow> keeps_identity kws \<and> (asg = Unset \<or> asg = ClearAgent)"

definition loose_after_update ::
  "string \<Rightarrow> task_status option \<Rightarrow> assign_arg \<Rightarrow> task_graph \<Rightarrow> string set \<Rightarrow> string set" where
  "loose_after_update tid st asg g B =
     (if dget (tasks g) tid = None then B
      else if asg = ClearAgent \<or> st = Some FAILED then B - {tid}
      else case st of None \<Rightarrow> B
           | Some s \<Rightarrow> if s = IN_PROGRESS \<or> s = IN_REVIEW then B - {tid} else insert tid B)"

lemma loose_after_failing: "loose_after_update tid (Some FAILED) asg g {} = {}"
  unfolding loose_after_update_def by simp

lemma free_agent_again:
  "assigned_agent_id t' = assigned_agent_id t \<Longrightarrow> task_id t' = task_id t \<Longrightarrow>
     free_agent t' (free_agent t g) = free_agent t g"
  by (auto simp: free_agent_def split: option.splits)

text \<open>An update that releases nothing keeps the holder, whatever the status becomes.\<close>

lemma graph_ok_restatus:
  assumes inv: "graph_ok B T g" and t: "dget (tasks g) tid = Some t"
    and u: "task_id u = task_id t" "assigned_agent_id u = assigned_agent_id t"
    and st: "status u = (case st of None \<Rightarrow> status t | Some s \<Rightarrow> s)" and "st \<noteq> Some FAILED"
  shows "graph_ok (loose_after_update tid st Unset g B) T (put_task g tid u)"
proof -
  let ?B = "case st of None \<Rightarrow> B | Some s \<Rightarrow> insert tid B"
  have id: "task_id t = tid" using keyedD [OF graph_invD(1) [OF inv] t] .
  have "graph_ok ?B T (put_task g tid u)"
  proof (rule graph_ok_put)
    show "graph_ok ?B T g" by (rule graph_ok_mono [OF inv]) (auto split: option.split)
    show "task_id u = tid" using u id by simp
    fix a assume "dget (agent_to_task g) a = Some tid" "tid \<notin> T"
    from held_back_reference [OF inv this] t u st
    show "assigned_agent_id u = Some a \<and> (in_flight u \<or> tid \<in> ?B)"
      by (auto simp: in_flight_def split: option.splits)
  qed
  moreover have "graph_ok (?B - {tid}) T (put_task g tid u)" if "st = Some IN_PROGRESS \<or> st = Some IN_REVIEW"
    by (rule graph_ok_settled [OF calculation]) (use that st in \<open>auto simp: in_flight_def\<close>)
  ultimately show ?thesis using t assms(6) by (auto simp: loose_after_update_def split: option.splits)
qed

lemma update_task_inv:
  assumes inv: "graph_ok B T g" and ok: "update_ok asg kws"
  shows "graph_ok (loose_after_update tid st asg g B) T (snd (update_task tid st asg branch merged kws g))"
proof (cases "dget (tasks g) tid")
  case None
  with inv show ?thesis by (simp add: update_task_def loose_after_update_def)
next
  case (Some t)
  let ?t = "case st of None \<Rightarrow> t | Some s \<Rightarrow> t\<lparr>status := s\<rparr>"
  let ?t' = "case asg of Unset \<Rightarrow> ?t | ClearAgent \<Rightarrow> ?t\<lparr>assigned_agent_id := None\<rparr>
    | SetAgent a \<Rightarrow> ?t\<lparr>assigned_agent_id := Some a\<rparr>"
  obtain u where res: "snd (update_task tid st asg branch merged kws g) =
      maybe_persist (put_task (if asg = ClearAgent
        then free_agent ?t (if st = Some FAILED then free_agent ?t g else g)
        else (if st = Some FAILED then free_agent ?t g else g)) tid u)"
    and u: "task_id u = task_id ?t'" "assigned_agent_id u = assigned_agent_id ?t'" "status u = status ?t'"
    using ok Some fold_set_attr_keeps [of kws]
    by (auto simp: update_task_def Let_def update_ok_def split: option.splits)
  have id: "task_id t = tid" using keyedD [OF graph_invD(1) [OF inv] Some] .
  have t: "task_id ?t = tid" "assigned_agent_id ?t = assigned_agent_id t"
    using id by (simp_all split: option.splits)
  show ?thesis
  proof (cases "asg = ClearAgent \<or> st = Some FAILED")
    case True
    with ok t u have "task_id u = tid" by (auto simp: update_ok_def)
    from graph_ok_free_put [OF inv Some t(2,1) this] True Some show ?thesis
      unfolding res by (auto simp: free_agent_again loose_after_update_def)
  next
    case False
    with ok have asg: "asg = Unset" by (auto simp: update_ok_def)
    have "graph_ok (loose_after_update tid st Unset g B) T (put_task g tid u)"
      by (rule graph_ok_restatus [OF inv Some]) (use u t id asg False in \<open>auto split: option.splits\<close>)
    with False asg res show ?thesis by simp
  qed
qed

lemma demote_loop_inv:
  assumes ext: "\<And>t. task_id (extra t) = task_id t"
  shows "graph_ok B T g \<Longrightarrow> graph_ok B T (demote_loop sel extra ks g)"
proof (induction ks arbitrary: g)
  case (Cons k ks)
  show ?case
  proof (cases "dget (tasks g) k")
    case (Some t)
    have id: "task_id t = k" using keyedD [OF graph_invD(1) [OF Cons.prems] Some] .
    show ?thesis
    proof (cases "sel t")
      case True
      have "graph_ok (B - {k}) T (put_task (free_agent (t\<lparr>status := TO_DO\<rparr>) g) k
          (extra (t\<lparr>status := TO_DO, assigned_agent_id := None\<rparr>)))"
        by (rule graph_ok_free_put [OF Cons.prems Some]) (simp_all add: id ext)
      then have "graph_ok B T (put_task (free_agent (t\<lparr>status := TO_DO\<rparr>) g) k
          (extra (t\<lparr>status := TO_DO, assigned_agent_id := None\<rparr>)))"
        by (rule graph_ok_mono) auto
      with Cons.IH Some True show ?thesis by (simp add: Let_def)
    qed (use Cons Some in simp)
  qed (use Cons in simp)
qed simp

lemma graph_ok_drop_agent:
  "graph_ok B T g \<Longrightarrow> graph_ok B T (g\<lparr>agent_to_task := ddel (agent_to_task g) a\<rparr>)"
  by (rule graph_ok_fewer) (auto dest: graph_invD(4) split: if_splits)

lemma graph_ok_map_agent:
  assumes "graph_ok B T g" and "holds_task B g a tid"
  shows "graph_ok B T (g\<lparr>agent_to_task := dset (agent_to_task g) a tid\<rparr>)"
proof -
  have h: "holds_task B (g\<lparr>agent_to_task := m\<rparr>) b k = holds_task B g b k" for m b k
    by (simp add: holds_task_def)
  from graph_invD [OF assms(1)] assms(2) show ?thesis
    by (auto simp: graph_ok_def keyed_def agents_ok_def h)
qed

text \<open>The three outcomes of an assignment: refused untouched, refused after the agent's stale
  entry was dropped, or committed.\<close>

definition commit_assignment :: "string \<Rightarrow> string \<Rightarrow> task \<Rightarrow> task_graph \<Rightarrow> task_graph" where
  "commit_assignment tid aid t g =
     maybe_persist
       ((put_task g tid (t\<lparr>status := IN_PROGRESS, assigned_agent_id := Some aid\<rparr>))
          \<lparr>agent_to_task := dset (agent_to_task g) aid tid\<rparr>)"

definition agent_busy :: "string \<Rightarrow> task_graph \<Rightarrow> bool" where
  "agent_busy aid g \<longleftrightarrow>
     (case dget (agent_to_task g) aid of None \<Rightarrow> False
      | Some c \<Rightarrow> c \<noteq> [] \<and> (case dget (tasks g) c of None \<Rightarrow> False | Some ct \<Rightarrow> status ct \<noteq> MERGED))"

definition drop_stale :: "string \<Rightarrow> task_graph \<Rightarrow> task_graph" where
  "drop_stale aid g =
     (if str_truthy (dget (agent_to_task g) aid)
      then g\<lparr>agent_to_task := ddel (agent_to_task g) aid\<rparr> else g)"

lemma tasks_drop_stale [simp]: "tasks (drop_stale aid g) = tasks g"
  by (simp add: drop_stale_def)

lemma dependencies_satisfied_cong:
  "tasks g = tasks h \<Longrightarrow> dependencies_satisfied tid g = dependencies_satisfied tid h"
  by (simp only: dependencies_satisfied_def)

lemma assign_eq:
  "assign_task_to_agent tid aid g =
     (case dget (tasks g) tid of
        None \<Rightarrow> (False, g)
      | Some t \<Rightarrow>
          if status t \<noteq> TO_DO \<or> agent_busy aid g then (False, g)
          else if dependencies_satisfied tid g
          then (True, commit_assignment tid aid t (drop_stale aid g))
          else (False, drop_stale aid g))"
  using dependencies_satisfied_cong [of "drop_stale aid g" g tid]
  unfolding assign_task_to_agent_def commit_assignment_def agent_busy_def [symmetric]
    drop_stale_def [symmetric] Let_def
  by (simp split: option.split)

lemma drop_stale_inv: "graph_ok B T g \<Longrightarrow> graph_ok B T (drop_stale aid g)"
  by (simp add: drop_stale_def graph_ok_drop_agent)

lemma commit_assignment_inv:
  assumes "graph_ok B T g" and "dget (tasks g) tid = Some t" and "status t = TO_DO" and "aid \<noteq> []"
    and "tid \<noteq> []" and "tid \<notin> B"
  shows "graph_ok B T (commit_assignment tid aid t g)"
proof -
  let ?p = "put_task g tid (t\<lparr>status := IN_PROGRESS, assigned_agent_id := Some aid\<rparr>)"
  have "tid \<in> T \<or> dget (agent_to_task g) b \<noteq> Some tid" for b
    using unheld_status [OF assms(1,2)] assms(3,6) by (auto simp: in_flight_def)
  then have "graph_ok B T ?p"
    using keyedD [OF graph_invD(1) [OF assms(1)] assms(2)] by (intro graph_ok_put [OF assms(1)]) auto
  moreover have "holds_task B ?p aid tid"
    using assms(4,5) by (simp add: holds_task_put in_flight_def)
  ultimately show ?thesis
    using graph_ok_map_agent [of B T ?p aid tid] by (simp add: commit_assignment_def)
qed

lemma assign_inv:
  assumes inv: "graph_ok B T g" and a: "aid \<noteq> []" and t: "tid \<noteq> []" and b: "tid \<notin> B"
  shows "graph_ok B T (snd (assign_task_to_agent tid aid g))"
  using inv drop_stale_inv [OF inv] commit_assignment_inv [OF drop_stale_inv [OF inv, of aid] _ _ a t b]
  by (simp add: assign_eq split: option.split)

lemma get_task_for_agent_inv:
  assumes "graph_ok B T g"
  shows "graph_ok B T (snd (get_task_for_agent aid g))"
  using assms graph_ok_drop_agent [OF assms]
  by (auto simp: get_task_for_agent_def split: option.split)

lemma mark_branch_merged_inv:
  assumes "graph_ok B T g"
  shows "graph_ok (if dget (tasks g) tid = None then B else B - {tid}) T (snd (mark_branch_merged tid now g))"
proof (cases "dget (tasks g) tid")
  case (Some t)
  with graph_ok_free_put [OF assms Some, of "t\<lparr>status := MERGED, merged_at := Some now\<rparr>"]
  show ?thesis
    using keyedD [OF graph_invD(1) [OF assms] Some]
    by (simp add: mark_branch_merged_def Let_def free_agent_put)
qed (simp add: assms mark_branch_merged_def)

lemma set_task_in_review_inv:
  assumes "graph_ok B T g"
  shows "graph_ok (loose_after_update tid (Some IN_REVIEW) Unset g B) T (snd (set_task_in_review tid g))"
proof (cases "dget (tasks g) tid")
  case (Some t)
  have "graph_ok (loose_after_update tid (Some IN_REVIEW) Unset g B) T (put_task g tid (t\<lparr>status := IN_REVIEW\<rparr>))"
    by (rule graph_ok_restatus [OF assms Some]) simp_all
  with Some show ?thesis by (simp add: set_task_in_review_def)
qed (simp add: assms set_task_in_review_def loose_after_update_def)

lemma fail_blocked_inv:
  assumes "graph_ok B T g" and "dget (tasks g) k = Some t"
  shows "graph_ok B T (fail_blocked k t g)"
  using graph_ok_mono [OF graph_ok_free_put [OF assms, of "failed_version t" "failed_version t"], of B T]
    keyedD [OF graph_invD(1) [OF assms(1)] assms(2)]
  by (auto simp: fail_blocked_eq free_agent_put)

lemma cascade_pass_inv:
  "graph_ok B T g \<Longrightarrow> graph_ok B T (fst (cascade_pass ks g new))"
proof (induction ks g new rule: cascade_pass.induct)
  case (2 k ks g new)
  then show ?case
    by (cases "dget (tasks g) k") (auto simp: fail_blocked_inv)
qed simp

lemma cascade_loop_inv: "graph_ok B T g \<Longrightarrow> graph_ok B T (fst (cascade_loop g failed))"
proof (induction g failed rule: cascade_loop.induct)
  case (1 g failed)
  obtain g1 new where p: "cascade_pass (dkeys (tasks g)) g [] = (g1, new)" by fastforce
  with cascade_pass_inv [OF "1.prems", of "dkeys (tasks g)" "[]"] have "graph_ok B T g1" by simp
  with p "1.IH" [OF p [symmetric] refl] show ?case
    by (cases "new = []") (simp_all add: cascade_loop.simps [of g failed])
qed

lemma mark_dependents_failed_inv:
  "graph_ok B T g \<Longrightarrow> graph_ok B T (snd (mark_dependents_failed tid g))"
  using cascade_loop_inv [of B T g "[]"] by (auto simp: mark_dependents_failed_def split: prod.splits)

section \<open>The operations as steps\<close>

datatype graph_op =
    OpAdd string string string "string list" "string list" string string "subtask list" "string option"
  | OpUpdate string "task_status option" assign_arg "string option" "int option" "task_attr list"
  | OpUnassign string
  | OpResetInFlight
  | OpResetFailed
  | OpAssign string string
  | OpGetFor string
  | OpMerged string int
  | OpReview string
  | OpCascade string

fun graph_run :: "graph_op \<Rightarrow> task_graph \<Rightarrow> task_graph" where
  "graph_run (OpAdd tid ttl descr deps accept oos prio subs team) g =
     (case add_task tid ttl descr deps accept oos prio subs team g of
        Inl e \<Rightarrow> g | Inr (t, g') \<Rightarrow> g')"
| "graph_run (OpUpdate tid st asg branch merged kws) g = snd (update_task tid st asg branch merged kws g)"
| "graph_run (OpUnassign tid) g = unassign_task tid g"
| "graph_run OpResetInFlight g = reset_in_flight g"
| "graph_run OpResetFailed g = reset_failed g"
| "graph_run (OpAssign tid aid) g = snd (assign_task_to_agent tid aid g)"
| "graph_run (OpGetFor aid) g = snd (get_task_for_agent aid g)"
| "graph_run (OpMerged tid now) g = snd (mark_branch_merged tid now g)"
| "graph_run (OpReview tid) g = snd (set_task_in_review tid g)"
| "graph_run (OpCascade tid) g = snd (mark_dependents_failed tid g)"

text \<open>Which tasks are loose after a call.\<close>

fun loose_after :: "graph_op \<Rightarrow> task_graph \<Rightarrow> string set \<Rightarrow> string set" where
  "loose_after (OpUpdate tid st asg branch merged kws) g B = loose_after_update tid st asg g B"
| "loose_after (OpUnassign tid) g B = loose_after_update tid None ClearAgent g B"
| "loose_after (OpReview tid) g B = loose_after_update tid (Some IN_REVIEW) Unset g B"
| "loose_after (OpMerged tid now) g B = (if dget (tasks g) tid = None then B else B - {tid})"
| "loose_after _ g B = B"

text \<open>The calls of the swarm: no caller passes an agent or an id to \<open>update_task\<close>, ids and agents are not
  empty, and the coordinator assigns while no worker runs, so never a task that is being demoted.\<close>

fun op_ok :: "graph_op \<Rightarrow> string set \<Rightarrow> bool" where
  "op_ok (OpUpdate tid st asg branch merged kws) B \<longleftrightarrow> update_ok asg kws"
| "op_ok (OpAssign tid aid) B \<longleftrightarrow> tid \<noteq> [] \<and> aid \<noteq> [] \<and> tid \<notin> B"
| "op_ok _ B \<longleftrightarrow> True"

lemma fresh_budget_simps [simp]:
  "task_id (fresh_budget t) = task_id t" "status (fresh_budget t) = status t"
  "assigned_agent_id (fresh_budget t) = assigned_agent_id t"
  by (simp_all add: fresh_budget_def)

lemma graph_run_inv:
  assumes "graph_ok B T g" and "op_ok l B"
  shows "graph_ok (loose_after l g B) T (graph_run l g)"
proof (cases l)
  case (OpAdd tid ttl descr deps accept oos prio subs team)
  with assms show ?thesis by (auto split: sum.split dest: add_task_inv)
next
  case (OpUnassign tid)
  have "update_ok ClearAgent []" by (simp add: update_ok_def keeps_identity_def)
  with OpUnassign assms show ?thesis by (simp add: unassign_task_def update_task_inv)
next
  case OpResetInFlight
  with assms show ?thesis by (simp add: reset_in_flight_def demote_loop_inv)
next
  case OpResetFailed
  with assms show ?thesis by (simp add: reset_failed_def demote_loop_inv)
qed (use assms in \<open>simp_all add: update_task_inv assign_inv get_task_for_agent_inv
      mark_branch_merged_inv set_task_in_review_inv mark_dependents_failed_inv\<close>)

section \<open>Lookups after the loops\<close>

definition demoted :: "(task \<Rightarrow> bool) \<Rightarrow> (task \<Rightarrow> task) \<Rightarrow> task \<Rightarrow> task" where
  "demoted sel extra t =
     (if sel t then extra (t\<lparr>status := TO_DO, assigned_agent_id := None\<rparr>) else t)"

lemma demote_loop_lookup:
  "distinct ks \<Longrightarrow>
   dget (tasks (demote_loop sel extra ks g)) j =
     (if j \<in> set ks then map_option (demoted sel extra) (dget (tasks g) j) else dget (tasks g) j)"
proof (induction ks arbitrary: g)
  case (Cons k ks)
  show ?case
  proof (cases "dget (tasks g) k")
    case None
    with Cons show ?thesis by auto
  next
    case (Some t)
    have "demote_loop sel extra (k # ks) g = demote_loop sel extra ks
        (if sel t then put_task (free_agent (t\<lparr>status := TO_DO\<rparr>) g) k (demoted sel extra t) else g)"
      using Some by (simp add: Let_def demoted_def)
    moreover have "demoted sel extra t = t" if "\<not> sel t" using that by (simp add: demoted_def)
    ultimately show ?thesis using Cons Some by simp
  qed
qed simp

lemma demote_all_lookup:
  assumes "wf_dict (tasks g)"
  shows "dget (tasks (demote_loop sel extra (dkeys (tasks g)) g)) k =
     map_option (demoted sel extra) (dget (tasks g) k)"
proof (cases "k \<in> set (dkeys (tasks g))")
  case True
  with assms show ?thesis by (simp only: demote_loop_lookup wf_dict_def if_True)
next
  case False
  then have "dget (tasks g) k = None" by (simp only: dget_None_iff not_False_eq_True)
  with False assms show ?thesis by (simp add: demote_loop_lookup wf_dict_def)
qed

section \<open>The persist log\<close>

text \<open>Every call that bumps the revision runs the callback exactly once.\<close>

definition log_inv :: "task_graph \<Rightarrow> bool" where
  "log_inv g \<longleftrightarrow> 0 \<le> revision g \<and> persisted g = (if has_persist g then [1..revision g] else [])"

lemma log_inv_maybe_persist: "log_inv g \<Longrightarrow> log_inv (maybe_persist g)"
  by (simp add: log_inv_def maybe_persist_def Let_def upto_rec2)

lemma log_inv_frame:
  "log_inv (free_agent t g) = log_inv g" "log_inv (put_task g k t) = log_inv g"
  "log_inv (g\<lparr>agent_to_task := m\<rparr>) = log_inv g" "log_inv (drop_stale a g) = log_inv g"
  by (simp_all add: log_inv_def drop_stale_def)

lemma log_inv_update_task: "log_inv g \<Longrightarrow> log_inv (snd (update_task tid st asg branch merged kws g))"
  by (auto simp: update_task_def Let_def log_inv_frame intro!: log_inv_maybe_persist split: option.split)

lemma log_inv_demote_loop: "log_inv (demote_loop sel extra ks g) = log_inv g"
  by (induction sel extra ks g rule: demote_loop.induct)
    (auto simp: Let_def log_inv_frame split: option.split)

lemma log_inv_cascade_pass: "log_inv (fst (cascade_pass ks g new)) = log_inv g"
  by (induction ks g new rule: cascade_pass.induct)
    (auto simp: fail_blocked_eq log_inv_frame split: option.split)

lemma log_inv_cascade_loop: "log_inv (fst (cascade_loop g failed)) = log_inv g"
proof (induction g failed rule: cascade_loop.induct)
  case (1 g failed)
  obtain g1 new where p: "cascade_pass (dkeys (tasks g)) g [] = (g1, new)" by fastforce
  with log_inv_cascade_pass [of "dkeys (tasks g)" g "[]"] have "log_inv g1 = log_inv g" by simp
  with p "1.IH" [OF p [symmetric] refl] show ?case
    by (cases "new = []") (simp_all add: cascade_loop.simps [of g failed])
qed

lemma log_inv_run: "log_inv g \<Longrightarrow> log_inv (graph_run l g)"
  using log_inv_cascade_loop [of g "[]"]
  by (cases l)
    (auto simp: add_task_def Let_def log_inv_frame log_inv_update_task unassign_task_def
      reset_in_flight_def reset_failed_def log_inv_demote_loop assign_eq commit_assignment_def
      get_task_for_agent_def mark_branch_merged_def set_task_in_review_def mark_dependents_failed_def
      intro!: log_inv_maybe_persist split: option.split prod.split)

abbreviation graph_reachable :: "task_graph \<Rightarrow> bool" where
  "graph_reachable \<equiv> reachable (\<lambda>g. \<exists>j p. g = create_task_graph j p) (op_step graph_run (\<lambda>l g. True))"

interpretation log_machine:
  invariant_system "\<lambda>g. \<exists>j p. g = create_task_graph j p" "op_step graph_run (\<lambda>l g. True)" log_inv
  by unfold_locales (auto simp: op_step_def log_inv_run, simp add: log_inv_def create_task_graph_def)

section \<open>Properties\<close>

text \<open>Assignment under the invariant succeeds exactly when the task is there and to do, the
  agent holds nothing and every dependency is merged; then the task is in progress under that
  agent, the map says so, and no other task or agent changed.\<close>

theorem assign_succeeds_iff:
  assumes "graph_inv g" and "aid \<noteq> []"
    and "assign_task_to_agent tid aid g = (ok, g')"
  shows "ok = (\<exists>t. dget (tasks g) tid = Some t \<and> status t = TO_DO \<and>
                dget (agent_to_task g) aid = None \<and> dependencies_satisfied tid g) \<and>
         (if ok then
            dget (tasks g') = (dget (tasks g))(tid := map_option
               (\<lambda>t. t\<lparr>status := IN_PROGRESS, assigned_agent_id := Some aid\<rparr>) (dget (tasks g) tid)) \<and>
            dget (agent_to_task g') = (dget (agent_to_task g))(aid \<mapsto> tid)
          else g' = g)"
proof -
  note inv = assms(1)
  have busy: "agent_busy aid g = (dget (agent_to_task g) aid \<noteq> None)"
  proof (cases "dget (agent_to_task g) aid")
    case (Some c)
    from held_back_reference [OF inv Some]
    obtain t where "dget (tasks g) c = Some t" "in_flight t" "c \<noteq> []" by blast
    with Some show ?thesis by (auto simp: agent_busy_def in_flight_def)
  qed (simp add: agent_busy_def)
  have idle: "drop_stale aid g = g" if "dget (agent_to_task g) aid = None"
    using that by (simp add: drop_stale_def)
  show ?thesis
    using assms(3) busy idle
    by (auto simp: assign_eq commit_assignment_def fun_eq_iff split: option.splits if_splits)
qed

text \<open>A refused assignment can still change the graph: when the agent's entry is stale (its task
  is merged or gone) the entry is dropped before the dependency check refuses. Tasks, revision
  and persist log do not move, so the drop is not persisted.\<close>

theorem refused_assignment_drops_stale_entry:
  assumes "dget (tasks g) tid = Some t" and "status t = TO_DO" and "\<not> dependencies_satisfied tid g"
    and "dget (agent_to_task g) aid = Some c" and "c \<noteq> []"
    and "\<forall>u. dget (tasks g) c = Some u \<longrightarrow> status u = MERGED"
  shows "assign_task_to_agent tid aid g = (False, g\<lparr>agent_to_task := ddel (agent_to_task g) aid\<rparr>)"
  using assms by (auto simp: assign_eq agent_busy_def drop_stale_def split: option.split)

text \<open>The resume reset demotes exactly the in-flight tasks to unassigned to-do tasks, keeps
  every other task as it was, and leaves no agent holding anything.\<close>

theorem reset_in_flight_frees_everyone:
  assumes "graph_inv g"
  shows "dget (tasks (reset_in_flight g)) k =
           map_option (\<lambda>t. if in_flight t then t\<lparr>status := TO_DO, assigned_agent_id := None\<rparr> else t)
             (dget (tasks g) k) \<and>
         dget (agent_to_task (reset_in_flight g)) a = None"
proof -
  note inv = assms
  have look: "dget (tasks (reset_in_flight g)) j =
      map_option (\<lambda>t. if in_flight t then t\<lparr>status := TO_DO, assigned_agent_id := None\<rparr> else t)
        (dget (tasks g) j)" for j
    using demote_all_lookup [OF graph_invD(3) [OF inv]] by (simp add: reset_in_flight_def demoted_def [abs_def])
  have "graph_inv (reset_in_flight g)"
    using inv by (simp add: reset_in_flight_def demote_loop_inv)
  note held = held_back_reference [OF this, of a]
  have "dget (agent_to_task (reset_in_flight g)) a \<noteq> Some j" for j
    using held [of j] look [of j] by (cases "dget (tasks g) j") (auto simp: in_flight_def split: if_splits)
  then have "dget (agent_to_task (reset_in_flight g)) a = None" by (metis not_Some_eq)
  with look show ?thesis by simp
qed

text \<open>The retry reset demotes exactly the failed tasks, with a fresh revision budget and their
  feedback kept, and touches neither another task nor any agent's entry.\<close>

lemma demote_loop_map:
  assumes "\<And>t. sel t \<Longrightarrow> \<not> in_flight t" and "\<And>t. task_id (extra t) = task_id t"
  shows "graph_inv g \<Longrightarrow> agent_to_task (demote_loop sel extra ks g) = agent_to_task g"
proof (induction ks arbitrary: g)
  case (Cons k ks)
  show ?case
  proof (cases "dget (tasks g) k")
    case (Some t)
    show ?thesis
    proof (cases "sel t")
      case True
      let ?g' = "put_task (free_agent (t\<lparr>status := TO_DO\<rparr>) g) k
        (extra (t\<lparr>status := TO_DO, assigned_agent_id := None\<rparr>))"
      have id: "task_id t = k" using keyedD [OF graph_invD(1) [OF Cons.prems] Some] .
      have "agent_to_task (free_agent (t\<lparr>status := TO_DO\<rparr>) g) = agent_to_task g"
        using unheld_status [OF Cons.prems Some] assms(1) [OF True] id
        by (auto simp: free_agent_def split: option.split)
      moreover have "graph_inv ?g'"
        by (rule graph_ok_free_put [OF Cons.prems Some, simplified]) (simp_all add: id [symmetric] assms(2))
      ultimately show ?thesis using Cons.IH [of ?g'] Some True by (simp add: Let_def)
    qed (use Cons Some in simp)
  qed (use Cons in simp)
qed simp

theorem reset_failed_gives_fresh_budget:
  assumes "graph_inv g"
  shows "dget (tasks (reset_failed g)) k =
           map_option (\<lambda>t. if status t = FAILED
               then t\<lparr>status := TO_DO, assigned_agent_id := None, revision_count := 0,
                      no_change_revisits := 0, last_change_digest := []\<rparr>
               else t) (dget (tasks g) k) \<and>
         agent_to_task (reset_failed g) = agent_to_task g"
proof -
  note inv = assms
  have "agent_to_task (reset_failed g) = agent_to_task g"
    unfolding reset_failed_def maybe_persist_frame
    by (rule demote_loop_map [OF _ _ inv]) (simp_all add: in_flight_def)
  moreover have "demoted (\<lambda>t. status t = FAILED) fresh_budget = (\<lambda>t. if status t = FAILED
               then t\<lparr>status := TO_DO, assigned_agent_id := None, revision_count := 0,
                      no_change_revisits := 0, last_change_digest := []\<rparr>
               else t)"
    by (rule ext) (simp add: demoted_def fresh_budget_def)
  ultimately show ?thesis
    using demote_all_lookup [OF graph_invD(3) [OF inv]] by (simp add: reset_failed_def)
qed

text \<open>With a callback, the revisions persisted along any run are 1, 2, ... up to the current
  one, each once and in order; without one nothing is persisted.\<close>

theorem persist_log_is_the_revisions:
  assumes "graph_reachable g"
  shows "persisted g = (if has_persist g then [1..revision g] else [])"
  using log_machine.reachable_inv [OF assms] by (simp add: log_inv_def)

text \<open>The next eligible subtask is the first that is to do or failed and whose dependencies
  are all merged subtasks of the same task; a failed subtask is eligible.\<close>

theorem next_subtask_first_eligible:
  assumes "dget (tasks g) tid = Some t"
  shows "(get_next_eligible_subtask tid g = Some s) =
    (\<exists>before after. subtasks t = before @ s # after \<and>
       sub_status s \<in> {TO_DO, FAILED} \<and>
       (\<forall>d \<in> set (sub_dependencies s). \<exists>m \<in> set (subtasks t). sub_id m = d \<and> sub_status m = MERGED) \<and>
       (\<forall>u \<in> set before. sub_status u \<notin> {TO_DO, FAILED} \<or>
          (\<exists>d \<in> set (sub_dependencies u). \<forall>m \<in> set (subtasks t). sub_id m = d \<longrightarrow> sub_status m \<noteq> MERGED)))"
proof -
  define ok where "ok s \<longleftrightarrow> sub_status s \<in> {TO_DO, FAILED} \<and>
    (\<forall>d \<in> set (sub_dependencies s). \<exists>m \<in> set (subtasks t). sub_id m = d \<and> sub_status m = MERGED)" for s :: subtask
  have live: "st \<notin> {MERGED, IN_PROGRESS, IN_REVIEW} \<longleftrightarrow> st \<in> {TO_DO, FAILED}" for st
    by (cases st) auto
  have "list_all (\<lambda>d. d \<in> set (map sub_id (filter (\<lambda>s. sub_status s = MERGED) (subtasks t))))
      (sub_dependencies u) \<longleftrightarrow>
      (\<forall>d \<in> set (sub_dependencies u). \<exists>m \<in> set (subtasks t). sub_id m = d \<and> sub_status m = MERGED)" for u :: subtask
    by (auto simp: list_all_iff image_iff)
  then have "get_next_eligible_subtask tid g = find ok (subtasks t)"
    using assms unfolding get_next_eligible_subtask_def Let_def live ok_def [abs_def] by simp
  moreover have "(find ok xs = Some s) =
      (\<exists>before after. xs = before @ s # after \<and> ok s \<and> (\<forall>u \<in> set before. \<not> ok u))" for xs
    by (rule find_split)
  moreover have "\<not> ok u \<longleftrightarrow> sub_status u \<notin> {TO_DO, FAILED} \<or>
      (\<exists>d \<in> set (sub_dependencies u). \<forall>m \<in> set (subtasks t). sub_id m = d \<longrightarrow> sub_status m \<noteq> MERGED)" for u
    unfolding ok_def by blast
  ultimately show ?thesis by (simp only: ok_def conj_assoc)
qed

section \<open>Witnesses\<close>

text \<open>A run that adds two tasks, the second on the first, and assigns the first.\<close>

definition demo_ops :: "graph_op list" where
  "demo_ops =
     [OpAdd ''a'' [] [] [] [] [] ''high'' [] None, OpAdd ''b'' [] [] [''a''] [] [] ''low'' [] None,
      OpAssign ''a'' ''w1'']"

definition demo_graph :: task_graph where
  "demo_graph = run_ops graph_run demo_ops (create_task_graph ''job'' True)"

definition demo_task_a :: task where
  "demo_task_a = (default_task ''a'')
     \<lparr>title := ''a'', priority := ''high'', status := IN_PROGRESS, assigned_agent_id := Some ''w1''\<rparr>"

definition demo_task_b :: task where
  "demo_task_b = (default_task ''b'')\<lparr>title := ''b'', priority := ''low'', dependencies := [''a'']\<rparr>"

lemma demo_graph_eq:
  "demo_graph = \<lparr>job_id = ''job'', tasks = [(''a'', demo_task_a), (''b'', demo_task_b)],
     agent_to_task = [(''w1'', ''a'')], has_persist = True, revision = 3, persisted = [1, 2, 3]\<rparr>"
  by (simp add: demo_graph_def demo_ops_def demo_task_a_def demo_task_b_def add_task_def has_key_def
      create_task_graph_def put_task_def maybe_persist_def Let_def default_task_def assign_eq
      agent_busy_def drop_stale_def commit_assignment_def dependencies_satisfied_def)

lemma demo_reachable: "graph_reachable demo_graph"
proof -
  have "graph_reachable (create_task_graph ''job'' True)" by (rule reach_init) blast
  moreover have "ops_ok graph_run (\<lambda>l g. True) demo_ops (create_task_graph ''job'' True)"
    by (simp add: demo_ops_def)
  ultimately show ?thesis unfolding demo_graph_def by (rule reachable_run_ops)
qed

lemma demo_inv: "graph_inv demo_graph"
  by (simp add: graph_ok_def keyed_def agents_ok_def holds_task_def demo_graph_eq wf_dict_def in_flight_def
      demo_task_a_def demo_task_b_def default_task_def)

theorem assign_succeeds_iff_witness:
  "assign_task_to_agent ''b'' ''w2'' demo_graph = (False, demo_graph)"
proof -
  obtain ok g' where r: "assign_task_to_agent ''b'' ''w2'' demo_graph = (ok, g')" by fastforce
  have "\<not> dependencies_satisfied ''b'' demo_graph"
    by (simp add: dependencies_satisfied_def demo_graph_eq demo_task_a_def demo_task_b_def)
  with assign_succeeds_iff [OF demo_inv _ r] r show ?thesis by auto
qed

theorem refused_assignment_drops_stale_entry_witness:
  "assign_task_to_agent ''b'' ''w1'' (demo_graph\<lparr>agent_to_task := [(''w1'', ''gone'')]\<rparr>) =
     (False, demo_graph\<lparr>agent_to_task := []\<rparr>)"
  using refused_assignment_drops_stale_entry
    [of "demo_graph\<lparr>agent_to_task := [(''w1'', ''gone'')]\<rparr>" "''b''" demo_task_b "''w1''" "''gone''"]
  by (simp add: demo_graph_eq demo_task_b_def dependencies_satisfied_def demo_task_a_def)

theorem reset_in_flight_frees_everyone_witness:
  "dget (agent_to_task (reset_in_flight demo_graph)) ''w1'' = None \<and>
   map_option status (dget (tasks (reset_in_flight demo_graph)) ''a'') = Some TO_DO"
  using reset_in_flight_frees_everyone [OF demo_inv, of "''a''" "''w1''"]
  by (simp add: demo_graph_eq demo_task_a_def in_flight_def)

theorem reset_failed_gives_fresh_budget_witness:
  "agent_to_task (reset_failed demo_graph) = [(''w1'', ''a'')]"
  using reset_failed_gives_fresh_budget [OF demo_inv] by (simp add: demo_graph_eq)

theorem persist_log_is_the_revisions_witness: "persisted demo_graph = [1..3]"
  using persist_log_is_the_revisions [OF demo_reachable] by (simp add: demo_graph_eq)

definition demo_subtask :: "string \<Rightarrow> task_status \<Rightarrow> string list \<Rightarrow> subtask" where
  "demo_subtask i st deps =
     \<lparr>sub_id = i, sub_title = [], sub_description = [], sub_dependencies = deps, sub_status = st,
      sub_completed_at = None\<rparr>"

theorem next_subtask_first_eligible_witness:
  "get_next_eligible_subtask ''a'' (put_task demo_graph ''a'' (demo_task_a\<lparr>subtasks :=
     [demo_subtask ''s1'' MERGED [], demo_subtask ''s2'' FAILED [''s1'']]\<rparr>)) =
   Some (demo_subtask ''s2'' FAILED [''s1''])"
proof -
  let ?t = "demo_task_a\<lparr>subtasks := [demo_subtask ''s1'' MERGED [], demo_subtask ''s2'' FAILED [''s1'']]\<rparr>"
  have "dget (tasks (put_task demo_graph ''a'' ?t)) ''a'' = Some ?t" by simp
  note iff = next_subtask_first_eligible [OF this, of "demo_subtask ''s2'' FAILED [''s1'']"]
  have "subtasks ?t = [demo_subtask ''s1'' MERGED []] @ demo_subtask ''s2'' FAILED [''s1''] # []"
    by simp
  then show ?thesis unfolding iff
    by (intro exI conjI) (assumption | simp add: demo_subtask_def)+
qed

end
