(* ===== verification/TaskSnapshot.thy ===== *)
theory TaskSnapshot
  imports TaskGraphInv
begin

text \<open>
  Saving and restoring the task graph (\<open>TaskGraphService.snapshot\<close> / \<open>restore\<close>). A snapshot is the
  JSON value the job store keeps. Restoring validates: \<open>TaskStatus(...)\<close> and the Pydantic models
  raise on bad data, and by then the old tasks are gone and the good prefix has been loaded, so
  the result is the error, if any, with the graph as it was left. Pydantic's lax conversion of a
  value to \<open>int\<close> and \<open>bool\<close> is not under src/: it is the parameter \<open>as_int\<close>, \<open>as_bool\<close>. An
  \<open>agent_task_map\<close> that is not an object of strings is outside the model (\<open>NotModelled\<close>).
\<close>

section \<open>Snapshot\<close>

definition jstrs :: "string list \<Rightarrow> json" where
  "jstrs xs = JList (map JStr xs)"

definition jopt :: "string option \<Rightarrow> json" where
  "jopt x = (case x of None \<Rightarrow> JNull | Some s \<Rightarrow> JStr s)"

definition subtask_data :: "subtask \<Rightarrow> json" where
  "subtask_data s = JDict
     [(''id'', JStr (sub_id s)), (''title'', JStr (sub_title s)),
      (''description'', JStr (sub_description s)), (''dependencies'', jstrs (sub_dependencies s)),
      (''status'', JStr (status_value (sub_status s)))]"

definition task_data :: "task \<Rightarrow> json" where
  "task_data t = JDict
     [(''id'', JStr (task_id t)), (''title'', JStr (title t)),
      (''description'', JStr (description t)), (''dependencies'', jstrs (dependencies t)),
      (''status'', JStr (status_value (status t))),
      (''assigned_agent_id'', jopt (assigned_agent_id t)), (''target_team'', jopt (target_team t)),
      (''feature_branch'', jopt (feature_branch t)),
      (''feature_branch_agent_id'', jopt (feature_branch_agent_id t)),
      (''merged_at'', case merged_at t of None \<Rightarrow> JNull | Some m \<Rightarrow> JTime m),
      (''acceptance_criteria'', jstrs (acceptance_criteria t)),
      (''out_of_scope'', JStr (out_of_scope t)), (''priority'', JStr (priority t)),
      (''changes_summary'', jopt (changes_summary t)),
      (''revision_count'', JInt (revision_count t)),
      (''revision_feedback'', JList (revision_feedback t)),
      (''no_change_revisits'', JInt (no_change_revisits t)),
      (''last_change_digest'', JStr (last_change_digest t)),
      (''resolved_without_changes'', JBool (resolved_without_changes t)),
      (''subtasks'', JList (map subtask_data (subtasks t)))]"

definition snapshot :: "task_graph \<Rightarrow> jdict" where
  "snapshot g =
     [(''job_id'', JStr (job_id g)),
      (''tasks'', JList (map task_data (dvals (tasks g)))),
      (''agent_task_map'', JDict (dmap JStr (agent_to_task g)))]"

section \<open>Restore\<close>

datatype restore_error =
    NotADict | NotIterable | MissingKey string | BadStatus | BadTimestamp
  | ValidationError string | NotModelled

fun rbind :: "'e + 'a \<Rightarrow> ('a \<Rightarrow> 'e + 'b) \<Rightarrow> 'e + 'b" where
  "rbind (Inl e) f = Inl e"
| "rbind (Inr x) f = f x"

fun need :: "string \<Rightarrow> 'a option \<Rightarrow> restore_error + 'a" where
  "need k None = Inl (ValidationError k)"
| "need k (Some x) = Inr x"

text \<open>Iterating a JSON value with \<open>for\<close>.\<close>

fun iter_json :: "json \<Rightarrow> restore_error + json list" where
  "iter_json (JList xs) = Inr xs"
| "iter_json (JStr s) = Inr (map (\<lambda>c. JStr [c]) s)"
| "iter_json (JDict kvs) = Inr (map (\<lambda>(k, v). JStr k) kvs)"
| "iter_json _ = Inl NotIterable"

fun as_str :: "json \<Rightarrow> string option" where
  "as_str (JStr s) = Some s"
| "as_str _ = None"

fun as_opt_str :: "json \<Rightarrow> string option option" where
  "as_opt_str JNull = Some None"
| "as_opt_str (JStr s) = Some (Some s)"
| "as_opt_str _ = None"

fun as_strs :: "json \<Rightarrow> string list option" where
  "as_strs (JList xs) = those (map as_str xs)"
| "as_strs _ = None"

fun as_dicts :: "json \<Rightarrow> json list option" where
  "as_dicts (JList xs) = (if list_all is_dict xs then Some xs else None)"
| "as_dicts _ = None"

text \<open>\<open>TaskStatus(v)\<close> and the \<open>merged_at\<close> expression.\<close>

fun restore_status :: "json \<Rightarrow> restore_error + task_status" where
  "restore_status (JStr s) = (case parse_status s of None \<Rightarrow> Inl BadStatus | Some st \<Rightarrow> Inr st)"
| "restore_status _ = Inl BadStatus"

fun restore_time :: "json \<Rightarrow> restore_error + int option" where
  "restore_time (JTime m) = Inr (Some m)"
| "restore_time v = (if truthy v then Inl BadTimestamp else Inr None)"

fun restore_subtask :: "json \<Rightarrow> restore_error + subtask" where
  "restore_subtask (JDict s) =
     (case dget s ''id'' of
        None \<Rightarrow> Inl (MissingKey ''id'')
      | Some i \<Rightarrow>
          rbind (restore_status (jget_or s ''status'' (JStr ''to_do''))) (\<lambda>st.
          rbind (need ''id'' (as_str i)) (\<lambda>i.
          rbind (need ''title'' (as_str (jget_or s ''title'' (JStr [])))) (\<lambda>ttl.
          rbind (need ''description'' (as_str (jget_or s ''description'' (JStr [])))) (\<lambda>descr.
          rbind (need ''dependencies'' (as_strs (jget_or s ''dependencies'' (JList [])))) (\<lambda>deps.
            Inr \<lparr>sub_id = i, sub_title = ttl, sub_description = descr, sub_dependencies = deps,
                 sub_status = st, sub_completed_at = None\<rparr>))))))"
| "restore_subtask _ = Inl NotADict"

fun restore_list :: "(json \<Rightarrow> restore_error + 'a) \<Rightarrow> json list \<Rightarrow> restore_error + 'a list" where
  "restore_list f [] = Inr []"
| "restore_list f (x # xs) = rbind (f x) (\<lambda>y. rbind (restore_list f xs) (\<lambda>ys. Inr (y # ys)))"

fun restore_task ::
  "(json \<Rightarrow> int option) \<Rightarrow> (json \<Rightarrow> bool option) \<Rightarrow> json \<Rightarrow> restore_error + task" where
  "restore_task as_int as_bool (JDict d) =
     rbind (iter_json (jget_or d ''subtasks'' (JList []))) (\<lambda>sdata.
     rbind (restore_list restore_subtask sdata) (\<lambda>subs.
     (case dget d ''id'' of
        None \<Rightarrow> Inl (MissingKey ''id'')
      | Some i \<Rightarrow>
          rbind (restore_status (jget_or d ''status'' (JStr ''to_do''))) (\<lambda>st.
          rbind (restore_time (jget d ''merged_at'')) (\<lambda>merged.
          rbind (need ''id'' (as_str i)) (\<lambda>i.
          rbind (need ''title'' (as_str (jget_or d ''title'' (JStr [])))) (\<lambda>ttl.
          rbind (need ''description'' (as_str (jget_or d ''description'' (JStr [])))) (\<lambda>descr.
          rbind (need ''dependencies'' (as_strs (jget_or d ''dependencies'' (JList [])))) (\<lambda>deps.
          rbind (need ''assigned_agent_id'' (as_opt_str (jget d ''assigned_agent_id''))) (\<lambda>agent.
          rbind (need ''target_team'' (as_opt_str (jget d ''target_team''))) (\<lambda>team.
          rbind (need ''feature_branch'' (as_opt_str (jget d ''feature_branch''))) (\<lambda>branch.
          rbind (need ''feature_branch_agent_id''
                   (as_opt_str (jget d ''feature_branch_agent_id''))) (\<lambda>branch_agent.
          rbind (need ''acceptance_criteria''
                   (as_strs (jget_or d ''acceptance_criteria'' (JList [])))) (\<lambda>accept.
          rbind (need ''out_of_scope'' (as_str (jget_or d ''out_of_scope'' (JStr [])))) (\<lambda>oos.
          rbind (need ''priority'' (as_str (jget_or d ''priority'' (JStr ''medium'')))) (\<lambda>prio.
          rbind (need ''changes_summary'' (as_opt_str (jget d ''changes_summary''))) (\<lambda>summary.
          rbind (need ''revision_count'' (as_int (jget_or d ''revision_count'' (JInt 0)))) (\<lambda>revs.
          rbind (need ''revision_feedback''
                   (as_dicts (jget_or d ''revision_feedback'' (JList [])))) (\<lambda>feedback.
          rbind (need ''no_change_revisits''
                   (as_int (jget_or d ''no_change_revisits'' (JInt 0)))) (\<lambda>revisits.
          rbind (need ''last_change_digest''
                   (as_str (jget_or d ''last_change_digest'' (JStr [])))) (\<lambda>digest.
          rbind (need ''resolved_without_changes''
                   (as_bool (jget_or d ''resolved_without_changes'' (JBool False)))) (\<lambda>resolved.
            Inr \<lparr>task_id = i, title = ttl, description = descr, dependencies = deps, status = st,
                 assigned_agent_id = agent, target_team = team, feature_branch = branch,
                 feature_branch_agent_id = branch_agent, merged_at = merged,
                 acceptance_criteria = accept, out_of_scope = oos, priority = prio,
                 subtasks = subs, changes_summary = summary, revision_count = revs,
                 revision_feedback = feedback, no_change_revisits = revisits,
                 last_change_digest = digest, resolved_without_changes = resolved\<rparr>))))))))))))))))))))))"
| "restore_task as_int as_bool _ = Inl NotADict"

fun restore_loop ::
  "(json \<Rightarrow> int option) \<Rightarrow> (json \<Rightarrow> bool option) \<Rightarrow> json list \<Rightarrow> task_graph \<Rightarrow>
   restore_error option \<times> task_graph" where
  "restore_loop as_int as_bool [] g = (None, g)"
| "restore_loop as_int as_bool (x # xs) g =
     (case restore_task as_int as_bool x of
        Inl e \<Rightarrow> (Some e, g)
      | Inr t \<Rightarrow> restore_loop as_int as_bool xs (put_task g (task_id t) t))"

fun restore_agents :: "json \<Rightarrow> restore_error + (string, string) pydict" where
  "restore_agents (JDict kvs) =
     (case those (map (\<lambda>(k, v). map_option (Pair k) (as_str v)) kvs) of
        None \<Rightarrow> Inl NotModelled | Some m \<Rightarrow> Inr m)"
| "restore_agents _ = Inl NotModelled"

definition restore ::
  "(json \<Rightarrow> int option) \<Rightarrow> (json \<Rightarrow> bool option) \<Rightarrow> jdict \<Rightarrow> task_graph \<Rightarrow>
   restore_error option \<times> task_graph" where
  "restore as_int as_bool snap g =
     (let g = g\<lparr>tasks := [], agent_to_task := []\<rparr> in
      case iter_json (jget_or snap ''tasks'' (JList [])) of
        Inl e \<Rightarrow> (Some e, g)
      | Inr xs \<Rightarrow>
          (case restore_loop as_int as_bool xs g of
             (Some e, g) \<Rightarrow> (Some e, g)
           | (None, g) \<Rightarrow>
               (case restore_agents (jget_or snap ''agent_task_map'' (JDict [])) of
                  Inl e \<Rightarrow> (Some e, g)
                | Inr m \<Rightarrow> (None, g\<lparr>agent_to_task := m, revision := revision g + 1\<rparr>))))"

section \<open>What a snapshot keeps\<close>

definition drop_completed_at :: "task \<Rightarrow> task" where
  "drop_completed_at t = t\<lparr>subtasks := map (\<lambda>s. s\<lparr>sub_completed_at := None\<rparr>) (subtasks t)\<rparr>"

definition feedback_ok :: "task \<Rightarrow> bool" where
  "feedback_ok t \<longleftrightarrow> list_all is_dict (revision_feedback t)"

text \<open>The documented behaviour of Pydantic the round trip rests on: a value already of the
  field's type is kept.\<close>

definition keeps_ints :: "(json \<Rightarrow> int option) \<Rightarrow> bool" where
  "keeps_ints as_int \<longleftrightarrow> (\<forall>n. as_int (JInt n) = Some n)"

definition keeps_bools :: "(json \<Rightarrow> bool option) \<Rightarrow> bool" where
  "keeps_bools as_bool \<longleftrightarrow> (\<forall>b. as_bool (JBool b) = Some b)"

lemma those_map_Some [simp]: "those (map (\<lambda>x. Some (f x)) xs) = Some (map f xs)"
  by (induction xs) simp_all

lemma as_str_simps [simp]:
  "as_strs (jstrs xs) = Some xs" "as_opt_str (jopt x) = Some x"
  by (simp_all add: jstrs_def jopt_def comp_def split: option.split)

lemma restore_subtask_data [simp]:
  "restore_subtask (subtask_data s) = Inr (s\<lparr>sub_completed_at := None\<rparr>)"
  by (simp add: subtask_data_def jget_lits)

lemma restore_list_map:
  "(\<And>x. x \<in> set xs \<Longrightarrow> f (g x) = Inr (h x)) \<Longrightarrow> restore_list f (map g xs) = Inr (map h xs)"
  by (induction xs) simp_all

lemma restore_status_value [simp]: "restore_status (JStr (status_value s)) = Inr s"
  by simp

lemma restore_task_data:
  assumes "keeps_ints as_int" and "keeps_bools as_bool" and "feedback_ok t"
  shows "restore_task as_int as_bool (task_data t) = Inr (drop_completed_at t)"
  using assms
  by (cases "merged_at t")
    (simp_all add: task_data_def jget_lits restore_list_map [where h = "\<lambda>s. s\<lparr>sub_completed_at := None\<rparr>"]
      keeps_ints_def keeps_bools_def feedback_ok_def drop_completed_at_def del: restore_status.simps)

lemma restore_loop_tasks:
  assumes "keeps_ints as_int" and "keeps_bools as_bool"
  shows "\<forall>(k, t) \<in> set d. task_id t = k \<and> feedback_ok t \<Longrightarrow> wf_dict (tasks g @ d) \<Longrightarrow>
    restore_loop as_int as_bool (map task_data (dvals d)) g =
      (None, g\<lparr>tasks := tasks g @ dmap drop_completed_at d\<rparr>)"
proof (induction d arbitrary: g)
  case Nil
  then show ?case by (simp add: dmap_def)
next
  case (Cons kt d)
  obtain k t where kt: "kt = (k, t)" by fastforce
  from Cons.prems kt have t: "task_id t = k" "feedback_ok t" by auto
  have new: "dget (tasks g) k = None"
    using Cons.prems(2) kt by (auto simp: wf_dict_def dget_None_iff)
  let ?g = "put_task g k (drop_completed_at t)"
  have put: "tasks ?g = tasks g @ [(k, drop_completed_at t)]" using new by (simp add: dset_new)
  have "wf_dict (tasks ?g @ d)" using Cons.prems(2) kt unfolding put by (simp add: wf_dict_def)
  with Cons.IH [of ?g] Cons.prems(1)
  have "restore_loop as_int as_bool (map task_data (dvals d)) ?g =
      (None, ?g\<lparr>tasks := tasks ?g @ dmap drop_completed_at d\<rparr>)" by simp
  moreover have "?g\<lparr>tasks := tasks ?g @ dmap drop_completed_at d\<rparr> =
      g\<lparr>tasks := tasks g @ dmap drop_completed_at (kt # d)\<rparr>"
    unfolding put by (simp add: kt dmap_def put_task_def)
  moreover have "task_id (drop_completed_at t) = k" using t by (simp add: drop_completed_at_def)
  ultimately show ?case
    using restore_task_data [OF assms t(2)] kt by simp
qed

lemma restore_agents_dmap: "restore_agents (JDict (dmap JStr m)) = Inr m"
  by (simp add: dmap_def case_prod_unfold comp_def)

section \<open>Properties\<close>

text \<open>Restoring a snapshot of a graph that keeps its invariant, over any graph, succeeds and gives back every
  task in order and every agent entry; only the subtasks' completion times are lost. The job id
  and the persist log of the target stay and its revision moves.\<close>

theorem restore_snapshot:
  assumes "keeps_ints as_int" and "keeps_bools as_bool" and "graph_ok B T g"
    and "\<forall>(k, t) \<in> set (tasks g). feedback_ok t"
  shows "restore as_int as_bool (snapshot g) h =
    (None, h\<lparr>tasks := dmap drop_completed_at (tasks g), agent_to_task := agent_to_task g,
              revision := revision h + 1\<rparr>)"
proof -
  note inv = assms(3)
  have "\<forall>(k, t) \<in> set (tasks g). task_id t = k \<and> feedback_ok t"
    using assms(4) keyedD [OF graph_invD(1) [OF inv]] wf_dict_dget [OF graph_invD(3) [OF inv]]
    by fastforce
  with restore_loop_tasks [OF assms(1,2), of "tasks g" "h\<lparr>tasks := [], agent_to_task := []\<rparr>"]
    graph_invD(3) [OF inv]
  have "restore_loop as_int as_bool (map task_data (dvals (tasks g)))
      (h\<lparr>tasks := [], agent_to_task := []\<rparr>) =
      (None, h\<lparr>tasks := dmap drop_completed_at (tasks g), agent_to_task := []\<rparr>)" by simp
  then show ?thesis
    by (simp add: restore_def snapshot_def jget_lits restore_agents_dmap del: restore_agents.simps)
qed

text \<open>A restore that fails on a bad task record has already dropped the graph's state: the
  agent map is empty, the tasks are exactly the good records before the bad one, and the revision
  did not move, so a persister sees no change.\<close>

theorem failed_restore_keeps_prefix:
  assumes "keeps_ints as_int" and "keeps_bools as_bool"
    and "\<forall>(k, t) \<in> set d. task_id t = k \<and> feedback_ok t" and "wf_dict d"
    and "restore_task as_int as_bool bad = Inl e"
    and "dget snap ''tasks'' = Some (JList (map task_data (dvals d) @ bad # later))"
  shows "restore as_int as_bool snap h =
    (Some e, h\<lparr>tasks := dmap drop_completed_at d, agent_to_task := []\<rparr>)"
proof -
  have app: "restore_loop as_int as_bool (xs @ ys) g =
      (case restore_loop as_int as_bool xs g of
         (Some e, g) \<Rightarrow> (Some e, g) | (None, g) \<Rightarrow> restore_loop as_int as_bool ys g)" for xs ys g
    by (induction xs arbitrary: g) (auto split: sum.split)
  from restore_loop_tasks [OF assms(1,2,3), of "h\<lparr>tasks := [], agent_to_task := []\<rparr>"] assms(4)
  have "restore_loop as_int as_bool (map task_data (dvals d)) (h\<lparr>tasks := [], agent_to_task := []\<rparr>) =
      (None, h\<lparr>tasks := dmap drop_completed_at d, agent_to_task := []\<rparr>)" by simp
  with assms(5,6) show ?thesis by (simp add: restore_def jget_or_def app)
qed

section \<open>Witnesses\<close>

fun plain_int :: "json \<Rightarrow> int option" where
  "plain_int (JInt n) = Some n"
| "plain_int (JBool b) = Some (if b then 1 else 0)"
| "plain_int _ = None"

fun plain_bool :: "json \<Rightarrow> bool option" where
  "plain_bool (JBool b) = Some b"
| "plain_bool _ = None"

lemma plain_keeps: "keeps_ints plain_int" "keeps_bools plain_bool"
  by (simp_all add: keeps_ints_def keeps_bools_def)

theorem restore_snapshot_witness:
  "restore plain_int plain_bool (snapshot demo_graph) (create_task_graph ''job'' True) =
    (None, (create_task_graph ''job'' True)
       \<lparr>tasks := [(''a'', demo_task_a), (''b'', demo_task_b)], agent_to_task := [(''w1'', ''a'')],
        revision := 1\<rparr>)"
  using restore_snapshot [OF plain_keeps demo_inv, of "create_task_graph ''job'' True"]
  by (simp add: demo_graph_eq feedback_ok_def demo_task_a_def demo_task_b_def default_task_def
      dmap_def drop_completed_at_def create_task_graph_def)

theorem failed_restore_keeps_prefix_witness:
  "restore plain_int plain_bool
     [(''tasks'', JList [task_data demo_task_a, JDict [(''title'', JStr ''x'')]]),
      (''agent_task_map'', JDict [])] demo_graph =
   (Some (MissingKey ''id''), demo_graph\<lparr>tasks := [(''a'', demo_task_a)], agent_to_task := []\<rparr>)"
  using failed_restore_keeps_prefix [OF plain_keeps, of "[(''a'', demo_task_a)]"
      "JDict [(''title'', JStr ''x'')]" "MissingKey ''id''"
      "[(''tasks'', JList [task_data demo_task_a, JDict [(''title'', JStr ''x'')]]),
      (''agent_task_map'', JDict [])]" "[]" demo_graph]
  by (simp add: jget_lits demo_task_a_def default_task_def feedback_ok_def wf_dict_def dmap_def
      drop_completed_at_def)

end
