(* ===== verification/TaskRuns.thy ===== *)
theory TaskRuns
  imports TaskSnapshot
begin

text \<open>
  A job's task graph over all its runs: the calls of the swarm's threads in any order, the snapshots
  that reach the job store (any snapshot taken since the last one that did, because they are written in
  the background), the death of the process at any moment, and the restore of the last stored snapshot
  on resume (\<^verbatim>\<open>coding_team_orchestrator.py\<close>, which then calls \<open>reset_in_flight\<close> and, on a retry,
  \<open>reset_failed\<close>). The demotion of a bounced task is two calls, \<open>update_task(status=TO_DO)\<close> and
  \<open>unassign_task\<close> (\<^verbatim>\<open>swarm_review.py\<close>); what other threads do and what is stored in between is part of
  the model. \<open>loose\<close> notes the tasks between the two, \<open>torn\<close> those that a resumed run took over from a
  snapshot in which they were; both are for the statements only.
\<close>

section \<open>The machine\<close>

record task_run =
  run_graph :: task_graph
  run_loose :: "string set"
  run_torn :: "string set"
  run_saved :: "(jdict \<times> string set) option"

definition first_run :: "string \<Rightarrow> bool \<Rightarrow> task_run" where
  "first_run j p = \<lparr>run_graph = create_task_graph j p, run_loose = {}, run_torn = {}, run_saved = None\<rparr>"

datatype run_op = Call graph_op | Store | Resume bool

text \<open>A new process restores into a fresh graph; a restore that raises fails the job instead.\<close>

definition resume_graph ::
  "(json \<Rightarrow> int option) \<Rightarrow> (json \<Rightarrow> bool option) \<Rightarrow> bool \<Rightarrow> jdict \<Rightarrow> task_run \<Rightarrow> restore_error option \<times> task_graph" where
  "resume_graph as_int as_bool p snap s = restore as_int as_bool snap (create_task_graph (job_id (run_graph s)) p)"

fun run_next ::
  "(json \<Rightarrow> int option) \<Rightarrow> (json \<Rightarrow> bool option) \<Rightarrow> run_op \<Rightarrow> task_run \<Rightarrow> task_run" where
  "run_next as_int as_bool (Call l) s =
     s\<lparr>run_graph := graph_run l (run_graph s), run_loose := loose_after l (run_graph s) (run_loose s)\<rparr>"
| "run_next as_int as_bool Store s =
     s\<lparr>run_saved := Some (snapshot (run_graph s), run_loose s \<union> run_torn s)\<rparr>"
| "run_next as_int as_bool (Resume p) s =
     (case run_saved s of
        None \<Rightarrow> s\<lparr>run_graph := create_task_graph (job_id (run_graph s)) p, run_loose := {}, run_torn := {}\<rparr>
      | Some (snap, torn) \<Rightarrow>
          s\<lparr>run_graph := snd (resume_graph as_int as_bool p snap s), run_loose := {}, run_torn := torn\<rparr>)"

fun run_ok :: "(json \<Rightarrow> int option) \<Rightarrow> (json \<Rightarrow> bool option) \<Rightarrow> run_op \<Rightarrow> task_run \<Rightarrow> bool" where
  "run_ok as_int as_bool (Call l) s \<longleftrightarrow> op_ok l (run_loose s)"
| "run_ok as_int as_bool Store s \<longleftrightarrow> True"
| "run_ok as_int as_bool (Resume p) s \<longleftrightarrow>
     (case run_saved s of None \<Rightarrow> True
      | Some (snap, torn) \<Rightarrow> fst (resume_graph as_int as_bool p snap s) = None)"

abbreviation run_reachable :: "(json \<Rightarrow> int option) \<Rightarrow> (json \<Rightarrow> bool option) \<Rightarrow> task_run \<Rightarrow> bool" where
  "run_reachable as_int as_bool \<equiv>
     reachable (\<lambda>s. \<exists>j p. s = first_run j p) (op_step (run_next as_int as_bool) (run_ok as_int as_bool))"

section \<open>Its invariant\<close>

definition saved_ok :: "jdict \<times> string set \<Rightarrow> bool" where
  "saved_ok x \<longleftrightarrow> (\<exists>g B T. x = (snapshot g, B \<union> T) \<and> graph_ok B T g)"

definition run_inv :: "task_run \<Rightarrow> bool" where
  "run_inv s \<longleftrightarrow> graph_ok (run_loose s) (run_torn s) (run_graph s) \<and> (\<forall>x. run_saved s = Some x \<longrightarrow> saved_ok x)"

lemma those_None: "None \<in> set xs \<Longrightarrow> those xs = None"
  by (induction xs) (auto split: option.split)

text \<open>A task whose feedback holds something else than dictionaries does not restore.\<close>

lemma bad_feedback_fails:
  assumes "keeps_ints as_int" and "keeps_bools as_bool" and "\<not> feedback_ok t"
  shows "\<exists>e. restore_task as_int as_bool (task_data t) = Inl e"
  using assms
  by (cases "merged_at t")
    (simp_all add: task_data_def jget_lits restore_list_map [where h = "\<lambda>s. s\<lparr>sub_completed_at := None\<rparr>"]
      keeps_ints_def keeps_bools_def feedback_ok_def del: restore_status.simps)

lemma restore_loop_good:
  assumes "keeps_ints as_int" and "keeps_bools as_bool"
    and "restore_loop as_int as_bool (map task_data ts) g = (None, h)" and "t \<in> set ts"
  shows "feedback_ok t"
  using assms(3,4)
proof (induction ts arbitrary: g)
  case (Cons u us)
  have "feedback_ok u"
  proof (rule ccontr)
    assume "\<not> feedback_ok u"
    from bad_feedback_fails [OF assms(1,2) this] Cons.prems(1) show False by auto
  qed
  with Cons show ?case by (auto split: sum.splits)
qed simp

lemma restored_feedback:
  assumes "keeps_ints as_int" and "keeps_bools as_bool"
    and "restore as_int as_bool (snapshot g) h = (None, g')" and "(k, t) \<in> set (tasks g)"
  shows "feedback_ok t"
proof -
  let ?h = "h\<lparr>tasks := [], agent_to_task := []\<rparr>"
  obtain e h' where r: "restore_loop as_int as_bool (map task_data (dvals (tasks g))) ?h = (e, h')" by force
  with assms(3) have "e = None"
    by (cases e) (simp_all add: restore_def snapshot_def jget_lits del: restore_agents.simps)
  with restore_loop_good [OF assms(1,2), of "dvals (tasks g)" ?h h' t] r assms(4) show ?thesis by force
qed

text \<open>What comes back from a snapshot: the graph it was taken of, the loose tasks being torn from now on.\<close>

lemma restored_ok:
  assumes "keeps_ints as_int" and "keeps_bools as_bool" and "graph_ok B T g"
    and "restore as_int as_bool (snapshot g) h = (None, g')"
  shows "graph_ok {} (B \<union> T) g'"
proof -
  have "\<forall>(k, t) \<in> set (tasks g). feedback_ok t" using restored_feedback [OF assms(1,2,4)] by blast
  from restore_snapshot [OF assms(1-3) this, of h] assms(4)
  have g': "tasks g' = dmap drop_completed_at (tasks g)" "agent_to_task g' = agent_to_task g" by auto
  have "holds_task {} g' a k" if "dget (agent_to_task g') a = Some k" "k \<notin> B \<union> T" for a k
    using held_back_reference [OF assms(3), of a k] that
    by (auto simp: holds_task_def g' drop_completed_at_def in_flight_def)
  then show ?thesis
    using graph_invD [OF assms(3)] by (auto simp: graph_ok_def keyed_def agents_ok_def g' drop_completed_at_def)
qed

lemma run_next_inv:
  assumes "keeps_ints as_int" and "keeps_bools as_bool" and "run_inv s" and "run_ok as_int as_bool l s"
  shows "run_inv (run_next as_int as_bool l s)"
proof (cases l)
  case (Call x)
  with assms(3,4) show ?thesis by (simp add: run_inv_def graph_run_inv)
next
  case Store
  with assms(3) show ?thesis by (auto simp: run_inv_def saved_ok_def)
next
  case (Resume p)
  show ?thesis
  proof (cases "run_saved s")
    case None
    with Resume show ?thesis by (simp add: run_inv_def create_graph_inv)
  next
    case (Some x)
    with assms(3) obtain g B T where x: "x = (snapshot g, B \<union> T)" "graph_ok B T g"
      by (auto simp: run_inv_def saved_ok_def)
    obtain g' where "resume_graph as_int as_bool p (snapshot g) s = (None, g')"
      using assms(4) Resume Some x(1) by (cases "resume_graph as_int as_bool p (snapshot g) s") auto
    with restored_ok [OF assms(1,2) x(2)] assms(3) Resume Some x(1) show ?thesis
      by (simp add: run_inv_def resume_graph_def)
  qed
qed

lemma run_reachable_inv:
  assumes "keeps_ints as_int" and "keeps_bools as_bool" and "run_reachable as_int as_bool s"
  shows "run_inv s"
proof (rule invariant_system.reachable_inv [OF _ assms(3)])
  show "invariant_system (\<lambda>s. \<exists>j p. s = first_run j p) (op_step (run_next as_int as_bool) (run_ok as_int as_bool)) run_inv"
  proof
    show "run_inv s" if "\<exists>j p. s = first_run j p" for s
      using that by (auto simp: run_inv_def first_run_def create_graph_inv)
    show "run_inv t" if "run_inv s" "op_step (run_next as_int as_bool) (run_ok as_int as_bool) s t" for s t
      using that run_next_inv [OF assms(1,2)] by (auto simp: op_step_def)
  qed
qed

section \<open>Properties\<close>

text \<open>C7. Over all runs of a job and any order of the swarm's calls, an agent's entry names a task of the
  graph that points back at that agent, and no other agent has an entry for it; the task is in progress
  or in review, or is between the two calls of its demotion. The one exception is a task whose demotion
  was cut off by the death of the process after its first half had been stored.\<close>

theorem one_agent_per_task:
  assumes "keeps_ints as_int" and "keeps_bools as_bool" and "run_reachable as_int as_bool s"
    and "dget (agent_to_task (run_graph s)) a = Some tid" and "tid \<notin> run_torn s"
  shows "(\<exists>t. dget (tasks (run_graph s)) tid = Some t \<and> task_id t = tid \<and> assigned_agent_id t = Some a \<and>
            (in_flight t \<or> tid \<in> run_loose s)) \<and>
         (\<forall>b. dget (agent_to_task (run_graph s)) b = Some tid \<longrightarrow> b = a)"
proof -
  have inv: "graph_ok (run_loose s) (run_torn s) (run_graph s)"
    using run_reachable_inv [OF assms(1-3)] by (simp add: run_inv_def)
  from held_back_reference [OF inv assms(4,5)] keyedD [OF graph_invD(1) [OF inv]]
  obtain t where t: "dget (tasks (run_graph s)) tid = Some t" "assigned_agent_id t = Some a"
    "in_flight t \<or> tid \<in> run_loose s" "task_id t = tid" by blast
  moreover have "b = a" if "dget (agent_to_task (run_graph s)) b = Some tid" for b
    using held_back_reference [OF inv that assms(5)] t by auto
  ultimately show ?thesis by blast
qed

section \<open>A demotion that is cut off\<close>

lemma demote_loop_keeps:
  "keyed g \<Longrightarrow> (\<And>t. task_id (extra t) = task_id t) \<Longrightarrow> dget (agent_to_task g) a = Some tid \<Longrightarrow>
     (\<And>t. dget (tasks g) tid = Some t \<Longrightarrow> \<not> sel t) \<Longrightarrow>
     dget (agent_to_task (demote_loop sel extra ks g)) a = Some tid"
proof (induction ks arbitrary: g)
  case (Cons k ks)
  show ?case
  proof (cases "dget (tasks g) k")
    case (Some t)
    show ?thesis
    proof (cases "sel t")
      case True
      then have k: "k \<noteq> tid" "task_id t = k" using Cons.prems(1,4) Some by (auto simp: keyed_def)
      let ?g = "put_task (free_agent (t\<lparr>status := TO_DO\<rparr>) g) k (extra (t\<lparr>status := TO_DO, assigned_agent_id := None\<rparr>))"
      have "dget (agent_to_task (demote_loop sel extra ks ?g)) a = Some tid"
        by (rule Cons.IH)
          (use Cons.prems k in \<open>auto simp: keyed_def free_agent_map split: if_splits\<close>)
      with Some True show ?thesis by (simp add: Let_def)
    qed (use Cons Some in simp)
  qed (use Cons in simp)
qed simp

text \<open>The resumed graph after \<open>reset_in_flight\<close>: a task that was stored half demoted is to do and still held.\<close>

definition half_demoted :: "int \<Rightarrow> task \<Rightarrow> task" where
  "half_demoted n t = t\<lparr>status := TO_DO, revision_count := n\<rparr>"

lemma half_demotion_stored:
  assumes "keeps_ints as_int" and "keeps_bools as_bool" and "graph_ok B T g"
    and "\<forall>(k, t) \<in> set (tasks g). feedback_ok t" and "dget (tasks g) tid = Some t"
    and "g1 = graph_run (OpUpdate tid (Some TO_DO) Unset None None [ARevisionCount n]) g"
  shows "\<exists>g2. restore as_int as_bool (snapshot g1) h = (None, g2) \<and>
    tasks g2 = dmap drop_completed_at (dset (tasks g) tid (half_demoted n t)) \<and> agent_to_task g2 = agent_to_task g"
proof -
  have g1: "g1 = maybe_persist (put_task g tid (half_demoted n t))"
    using assms(5,6) by (simp add: update_task_def Let_def half_demoted_def)
  have "update_ok Unset [ARevisionCount n]" by (simp add: update_ok_def keeps_identity_def)
  with assms(3) have ok: "graph_ok (loose_after_update tid (Some TO_DO) Unset g B) T g1"
    unfolding assms(6) by (simp add: update_task_inv)
  have "feedback_ok t" using assms(4,5) dget_in_set by fastforce
  then have "\<forall>(k, t) \<in> set (tasks g1). feedback_ok t"
    using assms(4) by (auto simp: g1 feedback_ok_def half_demoted_def dest!: dset_in_set)
  from restore_snapshot [OF assms(1,2) ok this, of h] show ?thesis by (simp add: g1)
qed

definition demotion_cut_off :: "string \<Rightarrow> run_op list" where
  "demotion_cut_off tid =
     [Call (OpUpdate tid (Some TO_DO) Unset None None [ARevisionCount 1]), Store, Resume True, Call OpResetInFlight]"

text \<open>After a death between the two calls of a demotion the resumed job has a task that is to do and held,
  because \<open>reset_in_flight\<close> only looks at tasks in progress or in review. Its agent never counts as free,
  a worker skips a task that is not in progress, and assigning the task to its agent (to which its feature
  branch pins it) is refused: neither is used again.\<close>

theorem interrupted_demotion_strands:
  assumes k: "keeps_ints as_int" "keeps_bools as_bool" and r: "run_reachable as_int as_bool s"
    and h: "dget (agent_to_task (run_graph s)) a = Some tid" and T: "tid \<notin> run_torn s"
    and f: "\<forall>(k, t) \<in> set (tasks (run_graph s)). feedback_ok t"
  defines "g \<equiv> run_graph (run_ops (run_next as_int as_bool) (demotion_cut_off tid) s)"
  shows "ops_ok (run_next as_int as_bool) (run_ok as_int as_bool) (demotion_cut_off tid) s \<and>
    (\<exists>u. get_task_for_agent a g = (Some u, g) \<and> task_id u = tid \<and> status u = TO_DO) \<and>
    assign_task_to_agent tid a g = (False, g)"
proof -
  have inv: "graph_ok (run_loose s) (run_torn s) (run_graph s)"
    using run_reachable_inv [OF k r] by (simp add: run_inv_def)
  from held_back_reference [OF inv h T] obtain t where t: "dget (tasks (run_graph s)) tid = Some t" and tid: "tid \<noteq> []"
    by blast
  define g1 where "g1 = graph_run (OpUpdate tid (Some TO_DO) Unset None None [ARevisionCount 1]) (run_graph s)"
  define w where "w = drop_completed_at (half_demoted 1 t)"
  from half_demotion_stored [OF k inv f t g1_def] obtain g2 where
    g2: "restore as_int as_bool (snapshot g1) (create_task_graph (job_id g1) True) = (None, g2)"
      "tasks g2 = dmap drop_completed_at (dset (tasks (run_graph s)) tid (half_demoted 1 t))"
      "agent_to_task g2 = agent_to_task (run_graph s)" by blast
  have "job_id g1 = job_id (run_graph s)" using t by (simp add: g1_def update_task_def Let_def)
  then have g: "g = reset_in_flight g2"
    and ok: "ops_ok (run_next as_int as_bool) (run_ok as_int as_bool) (demotion_cut_off tid) s"
    using g2(1)
    by (simp_all add: g_def demotion_cut_off_def resume_graph_def g1_def [symmetric] update_ok_def keeps_identity_def
        del: graph_run.simps(2))
  have wf: "wf_dict (tasks g2)" "keyed g2"
    using graph_invD [OF inv] t by (auto simp: g2 keyed_def half_demoted_def drop_completed_at_def)
  have w: "dget (tasks g2) tid = Some w" "status w = TO_DO" "\<not> in_flight w" "task_id w = tid"
    using keyedD [OF graph_invD(1) [OF inv] t]
    by (simp_all add: g2 w_def half_demoted_def drop_completed_at_def in_flight_def)
  then have w3: "dget (tasks g) tid = Some w"
    using demote_all_lookup [OF wf(1)] by (simp add: g reset_in_flight_def demoted_def)
  have a3: "dget (agent_to_task g) a = Some tid" unfolding g reset_in_flight_def maybe_persist_frame
    by (rule demote_loop_keeps [OF wf(2)]) (use h g2 w in auto)
  show ?thesis using ok w w3 a3 tid by (simp add: get_task_for_agent_def assign_eq agent_busy_def)
qed

section \<open>Witnesses\<close>

definition demo_run :: task_run where
  "demo_run = run_ops (run_next plain_int plain_bool) (map Call demo_ops) (first_run ''job'' True)"

lemma run_ops_calls:
  "run_graph (run_ops (run_next i b) (map Call ls) s) = run_ops graph_run ls (run_graph s)"
  "run_torn (run_ops (run_next i b) (map Call ls) s) = run_torn s"
  by (induction ls arbitrary: s) simp_all

lemma demo_run_facts: "run_graph demo_run = demo_graph" "run_torn demo_run = {}"
  by (simp_all add: demo_run_def run_ops_calls first_run_def demo_graph_def)

lemma demo_run_reachable: "run_reachable plain_int plain_bool demo_run"
proof -
  have "run_reachable plain_int plain_bool (first_run ''job'' True)" by (rule reach_init) blast
  moreover have "ops_ok (run_next plain_int plain_bool) (run_ok plain_int plain_bool) (map Call demo_ops) (first_run ''job'' True)"
    by (simp add: demo_ops_def first_run_def)
  ultimately show ?thesis unfolding demo_run_def by (rule reachable_run_ops)
qed

theorem one_agent_per_task_witness:
  "\<exists>t. dget (tasks demo_graph) ''a'' = Some t \<and> assigned_agent_id t = Some ''w1'' \<and>
     (\<forall>b. dget (agent_to_task demo_graph) b = Some ''a'' \<longrightarrow> b = ''w1'')"
proof -
  have "dget (agent_to_task (run_graph demo_run)) ''w1'' = Some ''a''" by (simp add: demo_run_facts demo_graph_eq)
  from one_agent_per_task [OF plain_keeps demo_run_reachable this] show ?thesis
    unfolding demo_run_facts by blast
qed

theorem interrupted_demotion_strands_witness:
  "\<exists>s u. run_reachable plain_int plain_bool s \<and> fst (get_task_for_agent ''w1'' (run_graph s)) = Some u \<and> status u = TO_DO"
proof -
  have f: "\<forall>(k, t) \<in> set (tasks (run_graph demo_run)). feedback_ok t"
    by (simp add: demo_run_facts demo_graph_eq feedback_ok_def demo_task_a_def demo_task_b_def default_task_def)
  have "dget (agent_to_task (run_graph demo_run)) ''w1'' = Some ''a''" "''a'' \<notin> run_torn demo_run"
    by (simp_all add: demo_run_facts demo_graph_eq)
  from interrupted_demotion_strands [OF plain_keeps demo_run_reachable this f] reachable_run_ops [OF demo_run_reachable]
  show ?thesis by (metis fst_conv)
qed

end
