(* ===== verification/OrderContract.thy ===== *)
theory OrderContract
  imports Json Complex_Main
begin

text \<open>
  Orders as a strategy emits them (\<^verbatim>\<open>backend/agents/investment_team/trading_service/strategy/contract.py\<close>):
  the enumerations, attachments and \<open>OrderRequest\<close> with its \<open>validate_prices\<close> gate, and the
  timestamp helpers of \<^verbatim>\<open>engine/order_book.py\<close>. A finite Python float is a rational.
\<close>

section \<open>Enumerations and requests\<close>

datatype order_side = LONG | SHORT
datatype order_type = MARKET | LIMIT | STOP | STOP_LIMIT | TRAILING_STOP
datatype time_in_force = DAY | GTC | IOC | FOK
datatype unfilled_policy = DROP | REQUEUE_NEXT_BAR | TWAP_N
datatype offset_kind = ABS | BPS

record stop_attachment =
  sa_stop_price :: rat
  sa_trail_offset :: "rat option"
  sa_trail_offset_kind :: offset_kind
  sa_limit_offset :: "rat option"
  sa_limit_offset_kind :: offset_kind
  sa_client_order_id :: "string option"
  sa_entry_price_pct :: "rat option"
  sa_reason :: "string option"

record limit_attachment =
  la_limit_price :: rat
  la_client_order_id :: "string option"

datatype exit_leg = StopLeg stop_attachment | LimitLeg limit_attachment

record order_request =
  client_order_id :: string
  symbol :: string
  side :: order_side
  qty :: rat
  order_type :: order_type
  limit_price :: "rat option"
  stop_price :: "rat option"
  trail_offset :: "rat option"
  trail_offset_kind :: offset_kind
  tif :: time_in_force
  reason :: string
  risk_presized :: bool
  engine_scaled_partial :: bool
  unfilled_policy :: "unfilled_policy option"
  twap_slices :: "int option"
  attached_stop_loss :: "stop_attachment option"
  attached_take_profit :: "limit_attachment option"
  attached_exits :: "exit_leg list"
  parent_order_id :: "string option"
  oco_group_id :: "string option"

definition market_request :: "string \<Rightarrow> order_side \<Rightarrow> rat \<Rightarrow> order_request" where
  "market_request sy sd q =
     \<lparr>client_order_id = ''c'', symbol = sy, side = sd, qty = q, order_type = MARKET,
      limit_price = None, stop_price = None, trail_offset = None, trail_offset_kind = ABS,
      tif = DAY, reason = [], risk_presized = False, engine_scaled_partial = False,
      unfilled_policy = None, twap_slices = None, attached_stop_loss = None,
      attached_take_profit = None, attached_exits = [], parent_order_id = None,
      oco_group_id = None\<rparr>"

definition has_attached_exits :: "order_request \<Rightarrow> bool" where
  "has_attached_exits r \<longleftrightarrow>
     attached_stop_loss r \<noteq> None \<or> attached_take_profit r \<noteq> None \<or> attached_exits r \<noteq> []"

section \<open>Validation\<close>

text \<open>The exception classes the gate and the book raise; \<open>InvalidTwap\<close> is also an
  \<open>Unsupported\<close> (its superclass).\<close>

datatype order_error =
  ValueErr string | TypeErr string | KeyErr string | Unsupported string | InvalidTwap string

type_synonym check = "order_error option"

text \<open>The first check that fails.\<close>

fun first_error :: "check list \<Rightarrow> check" where
  "first_error [] = None"
| "first_error (None # cs) = first_error cs"
| "first_error (Some e # cs) = Some e"

definition fail_if :: "bool \<Rightarrow> order_error \<Rightarrow> check" where
  "fail_if b e = (if b then Some e else None)"

definition neg_opt :: "rat option \<Rightarrow> bool" where
  "neg_opt x = (case x of None \<Rightarrow> False | Some v \<Rightarrow> v < 0)"

definition stop_legs :: "order_request \<Rightarrow> stop_attachment list" where
  "stop_legs r =
     (case attached_stop_loss r of None \<Rightarrow> [] | Some sl \<Rightarrow> [sl]) @
     concat (map (\<lambda>l. case l of StopLeg sl \<Rightarrow> [sl] | LimitLeg _ \<Rightarrow> []) (attached_exits r))"

definition check_stop_leg :: "stop_attachment \<Rightarrow> check" where
  "check_stop_leg sl = first_error
     [fail_if (neg_opt (sa_trail_offset sl)) (ValueErr ''trail_offset must be non-negative''),
      fail_if (neg_opt (sa_limit_offset sl)) (ValueErr ''limit_offset must be non-negative''),
      fail_if (sa_limit_offset sl \<noteq> None \<and> sa_trail_offset sl \<noteq> None)
        (ValueErr ''cannot set both trail_offset and limit_offset''),
      (case sa_entry_price_pct sl of None \<Rightarrow> None
       | Some p \<Rightarrow> fail_if (\<not> (0 < p \<and> p < 1)) (ValueErr ''entry_price_pct out of range''))]"

definition check_stop_limit :: "order_request \<Rightarrow> check" where
  "check_stop_limit r =
     (case (stop_price r, limit_price r) of
        (Some s, Some l) \<Rightarrow> first_error
          [fail_if (side r = SHORT \<and> l > s) (ValueErr ''short stop_limit requires limit_price <= stop_price''),
           fail_if (side r = LONG \<and> l < s) (ValueErr ''long stop_limit requires limit_price >= stop_price'')]
      | _ \<Rightarrow> Some (ValueErr ''stop_limit order requires both stop_price and limit_price''))"

definition check_trailing :: "order_request \<Rightarrow> check" where
  "check_trailing r = first_error
     [fail_if (stop_price r = None) (ValueErr ''trailing_stop order requires stop_price''),
      fail_if (trail_offset r = None) (ValueErr ''trailing_stop order requires trail_offset''),
      fail_if (neg_opt (trail_offset r)) (ValueErr ''trail_offset must be non-negative'')]"

definition check_twap :: "order_request \<Rightarrow> check" where
  "check_twap r =
     (if unfilled_policy r = Some TWAP_N
      then fail_if (case twap_slices r of None \<Rightarrow> True | Some n \<Rightarrow> n < 2)
             (InvalidTwap ''twap_n policy requires twap_slices >= 2'')
      else fail_if (twap_slices r \<noteq> None)
             (InvalidTwap ''twap_slices may only be set when unfilled_policy is twap_n''))"

definition validate_prices :: "order_request \<Rightarrow> check" where
  "validate_prices r = first_error
     (map check_stop_leg (stop_legs r) @
      [fail_if (parent_order_id r \<noteq> None) (Unsupported ''parent_order_id is engine-internal''),
       fail_if (oco_group_id r \<noteq> None) (Unsupported ''oco_group_id is engine-internal''),
       fail_if (order_type r = LIMIT \<and> limit_price r = None) (ValueErr ''limit order requires limit_price''),
       fail_if (order_type r = STOP \<and> stop_price r = None) (ValueErr ''stop order requires stop_price''),
       (if order_type r = STOP_LIMIT then check_stop_limit r else None),
       (if order_type r = TRAILING_STOP then check_trailing r else None),
       fail_if (tif r \<in> {IOC, FOK} \<and> order_type r \<notin> {MARKET, LIMIT})
         (ValueErr ''only valid with market or limit orders''),
       check_twap r])"

lemma first_error_None [simp]: "first_error cs = None \<longleftrightarrow> (\<forall>c \<in> set cs. c = None)"
  by (induction cs rule: first_error.induct) auto

lemma first_error_append: "first_error (xs @ ys) = (case first_error xs of None \<Rightarrow> first_error ys | Some e \<Rightarrow> Some e)"
  by (induction xs rule: first_error.induct) auto

lemma fail_if_simps [simp]: "fail_if b e = None \<longleftrightarrow> \<not> b" "fail_if False e = None" "fail_if True e = Some e"
  by (simp_all add: fail_if_def)

lemma neg_opt_simps [simp]: "\<not> neg_opt None" "neg_opt (Some v) \<longleftrightarrow> v < 0"
  by (simp_all add: neg_opt_def)

section \<open>What the gate guarantees\<close>

text \<open>The declarative contract: which prices each order type carries, on which side a stop-limit's
  limit sits, which policies and attachments go together.\<close>

definition leg_wf :: "stop_attachment \<Rightarrow> bool" where
  "leg_wf sl \<longleftrightarrow>
     (\<forall>v. sa_trail_offset sl = Some v \<longrightarrow> 0 \<le> v) \<and> (\<forall>v. sa_limit_offset sl = Some v \<longrightarrow> 0 \<le> v) \<and>
     (sa_limit_offset sl = None \<or> sa_trail_offset sl = None) \<and>
     (\<forall>p. sa_entry_price_pct sl = Some p \<longrightarrow> 0 < p \<and> p < 1)"

definition prices_wf :: "order_request \<Rightarrow> bool" where
  "prices_wf r \<longleftrightarrow>
     (case order_type r of
        MARKET \<Rightarrow> True
      | LIMIT \<Rightarrow> limit_price r \<noteq> None
      | STOP \<Rightarrow> stop_price r \<noteq> None
      | STOP_LIMIT \<Rightarrow> (\<exists>s l. stop_price r = Some s \<and> limit_price r = Some l \<and>
                       (if side r = LONG then s \<le> l else l \<le> s))
      | TRAILING_STOP \<Rightarrow> stop_price r \<noteq> None \<and> (\<exists>v \<ge> 0. trail_offset r = Some v))"

definition request_wf :: "order_request \<Rightarrow> bool" where
  "request_wf r \<longleftrightarrow>
     (\<forall>sl. (attached_stop_loss r = Some sl \<or> StopLeg sl \<in> set (attached_exits r)) \<longrightarrow> leg_wf sl) \<and>
     parent_order_id r = None \<and> oco_group_id r = None \<and> prices_wf r \<and>
     (tif r = IOC \<or> tif r = FOK \<longrightarrow> order_type r = MARKET \<or> order_type r = LIMIT) \<and>
     (if unfilled_policy r = Some TWAP_N then \<exists>n \<ge> 2. twap_slices r = Some n else twap_slices r = None)"

lemma set_stop_legs:
  "sl \<in> set (stop_legs r) \<longleftrightarrow> attached_stop_loss r = Some sl \<or> StopLeg sl \<in> set (attached_exits r)"
  by (auto simp: stop_legs_def split: option.splits exit_leg.splits intro: bexI [rotated])

lemma check_stop_leg_None: "check_stop_leg sl = None \<longleftrightarrow> leg_wf sl"
  by (cases "sa_trail_offset sl"; cases "sa_limit_offset sl"; cases "sa_entry_price_pct sl")
    (auto simp: check_stop_leg_def leg_wf_def not_less)

lemma check_stop_limit_None:
  "check_stop_limit r = None \<longleftrightarrow> (\<exists>s l. stop_price r = Some s \<and> limit_price r = Some l \<and>
     (if side r = LONG then s \<le> l else l \<le> s))"
  by (cases "stop_price r"; cases "limit_price r"; cases "side r")
    (auto simp: check_stop_limit_def not_less)

lemma check_trailing_None:
  "check_trailing r = None \<longleftrightarrow> stop_price r \<noteq> None \<and> (\<exists>v \<ge> 0. trail_offset r = Some v)"
  by (cases "trail_offset r") (auto simp: check_trailing_def not_less)

lemma check_twap_None:
  "check_twap r = None \<longleftrightarrow>
     (if unfilled_policy r = Some TWAP_N then \<exists>n \<ge> 2. twap_slices r = Some n else twap_slices r = None)"
  by (cases "twap_slices r") (auto simp: check_twap_def)

text \<open>The price gate accepts a request exactly when it meets the declared contract: prices
  present for its type, a stop-limit's limit on the protective side, non-negative and exclusive
  trailing and limit offsets on every attached stop (the list legs included), no engine-internal
  ids, an immediate order only as market or limit, and a slice count exactly for TWAP.\<close>

theorem validate_prices_iff_wf: "validate_prices r = None \<longleftrightarrow> request_wf r"
proof -
  have legs: "(\<forall>c \<in> set (map check_stop_leg (stop_legs r)). c = None) \<longleftrightarrow>
      (\<forall>sl. (attached_stop_loss r = Some sl \<or> StopLeg sl \<in> set (attached_exits r)) \<longrightarrow> leg_wf sl)"
    using check_stop_leg_None set_stop_legs [of _ r] by auto
  have "validate_prices r = None \<longleftrightarrow>
      (\<forall>c \<in> set (map check_stop_leg (stop_legs r)). c = None) \<and>
      parent_order_id r = None \<and> oco_group_id r = None \<and>
      \<not> (order_type r = LIMIT \<and> limit_price r = None) \<and> \<not> (order_type r = STOP \<and> stop_price r = None) \<and>
      (order_type r = STOP_LIMIT \<longrightarrow> check_stop_limit r = None) \<and>
      (order_type r = TRAILING_STOP \<longrightarrow> check_trailing r = None) \<and>
      \<not> (tif r \<in> {IOC, FOK} \<and> order_type r \<notin> {MARKET, LIMIT}) \<and> check_twap r = None"
    unfolding validate_prices_def first_error_None set_append ball_Un by simp
  also have "\<dots> \<longleftrightarrow> request_wf r"
    unfolding legs request_wf_def prices_wf_def check_stop_limit_None check_trailing_None check_twap_None
    by (cases "order_type r") auto
  finally show ?thesis .
qed

text \<open>The engine-internal ids are refused as unsupported features, never as a mere value error,
  provided the attached stops are well formed; so a strategy that sets them fails its run instead
  of losing one order.\<close>

theorem internal_ids_are_unsupported:
  assumes "\<forall>sl. (attached_stop_loss r = Some sl \<or> StopLeg sl \<in> set (attached_exits r)) \<longrightarrow> leg_wf sl"
    and "parent_order_id r \<noteq> None \<or> oco_group_id r \<noteq> None"
  shows "\<exists>m. validate_prices r = Some (Unsupported m)"
proof -
  have "first_error (map check_stop_leg (stop_legs r)) = None"
    using assms(1) check_stop_leg_None set_stop_legs [of _ r] by auto
  note legs = this
  show ?thesis
  proof (cases "parent_order_id r = None")
    case True
    with assms(2) show ?thesis
      unfolding validate_prices_def first_error_append legs by (simp add: fail_if_def)
  next
    case False
    then show ?thesis
      unfolding validate_prices_def first_error_append legs by (simp add: fail_if_def)
  qed
qed

theorem internal_ids_are_unsupported_witness:
  "\<exists>m. validate_prices ((market_request ''AAA'' LONG 1)\<lparr>oco_group_id := Some ''g''\<rparr>) = Some (Unsupported m)"
  by (rule internal_ids_are_unsupported) (simp_all add: market_request_def)

section \<open>Timestamps\<close>

definition is_digit :: "char \<Rightarrow> bool" where
  "is_digit c \<longleftrightarrow> (let n = of_char c :: nat in 48 \<le> n \<and> n \<le> 57)"

fun digits_val :: "string \<Rightarrow> int" where
  "digits_val s = fold (\<lambda>c v. 10 * v + (of_char c - 48)) s 0"

text \<open>Exactly \<open>n\<close> digits at the front.\<close>

definition take_num :: "nat \<Rightarrow> string \<Rightarrow> (int \<times> string) option" where
  "take_num n s =
     (if n \<le> length s \<and> list_all is_digit (take n s) then Some (digits_val (take n s), drop n s) else None)"

definition is_leap :: "int \<Rightarrow> bool" where
  "is_leap y \<longleftrightarrow> y mod 4 = 0 \<and> (y mod 100 \<noteq> 0 \<or> y mod 400 = 0)"

definition days_in_month :: "int \<Rightarrow> int \<Rightarrow> int" where
  "days_in_month y m =
     (if m = 2 then (if is_leap y then 29 else 28) else if m \<in> {4, 6, 9, 11} then 30 else 31)"

definition days_before_year :: "int \<Rightarrow> int" where
  "days_before_year y = (let p = y - 1 in p * 365 + p div 4 - p div 100 + p div 400)"

definition day_number :: "int \<Rightarrow> int \<Rightarrow> int \<Rightarrow> int" where
  "day_number y m d =
     days_before_year y + sum_list (map (days_in_month y) (filter (\<lambda>i. i < m) [1..12])) + d"

definition parse_date :: "string \<Rightarrow> (int \<times> string) option" where
  "parse_date s =
     (case take_num 4 s of
        Some (y, CHR ''-'' # s) \<Rightarrow>
          (case take_num 2 s of
             Some (m, CHR ''-'' # s) \<Rightarrow>
               (case take_num 2 s of
                  Some (d, s) \<Rightarrow>
                    if 1 \<le> y \<and> 1 \<le> m \<and> m \<le> 12 \<and> 1 \<le> d \<and> d \<le> days_in_month y m
                    then Some (day_number y m d, s) else None
                | None \<Rightarrow> None)
           | _ \<Rightarrow> None)
      | _ \<Rightarrow> None)"

text \<open>\<open>HH[:MM[:SS[.fff[fff]]]]\<close> in microseconds, with the text after it.\<close>

definition parse_clock :: "string \<Rightarrow> (int \<times> string) option" where
  "parse_clock s =
     (case take_num 2 s of
        None \<Rightarrow> None
      | Some (h, CHR '':'' # s1) \<Rightarrow>
          (case take_num 2 s1 of
             None \<Rightarrow> None
           | Some (m, CHR '':'' # s2) \<Rightarrow>
               (case take_num 2 s2 of
                  None \<Rightarrow> None
                | Some (sec, s3) \<Rightarrow>
                    if h \<ge> 24 \<or> m \<ge> 60 \<or> sec \<ge> 60 then None
                    else let base = ((h * 60 + m) * 60 + sec) * 1000000 in
                      (case s3 of
                         CHR ''.'' # s4 \<Rightarrow>
                           (case take_num 6 s4 of
                              Some (f, s5) \<Rightarrow> Some (base + f, s5)
                            | None \<Rightarrow> (case take_num 3 s4 of
                                Some (f, s5) \<Rightarrow> Some (base + f * 1000, s5) | None \<Rightarrow> None))
                       | _ \<Rightarrow> Some (base, s3)))
           | Some (m, s2) \<Rightarrow> if h \<ge> 24 \<or> m \<ge> 60 then None else Some ((h * 60 + m) * 60000000, s2))
      | Some (h, s1) \<Rightarrow> if h \<ge> 24 then None else Some (h * 3600000000, s1))"

text \<open>\<open>datetime.fromisoformat\<close> on its documented format \<open>YYYY-MM-DD[*HH[:MM[:SS[.fff[fff]]]][+HH:MM]]\<close>:
  whether the result carries a timezone, and its instant in microseconds.\<close>

definition fromisoformat :: "string \<Rightarrow> (bool \<times> int) option" where
  "fromisoformat s =
     (case parse_date s of
        None \<Rightarrow> None
      | Some (d, []) \<Rightarrow> Some (False, d * 86400000000)
      | Some (d, sep # s1) \<Rightarrow>
          (case parse_clock s1 of
             None \<Rightarrow> None
           | Some (t, []) \<Rightarrow> Some (False, d * 86400000000 + t)
           | Some (t, sg # s2) \<Rightarrow>
               if sg \<notin> {CHR ''+'', CHR ''-''} then None
               else (case parse_clock s2 of
                  Some (off, []) \<Rightarrow>
                    Some (True, d * 86400000000 + t - (if sg = CHR ''+'' then off else - off))
                | _ \<Rightarrow> None)))"

definition normalize_ts :: "string \<Rightarrow> string" where
  "normalize_ts ts =
     (if ts \<noteq> [] \<and> last ts = CHR ''Z'' then butlast ts @ ''+00:00''
      else
        let core = (if ts \<noteq> [] \<and> last ts = CHR 0x0A then butlast ts else ts);
            n = length core - 5; tail = drop n core
        in if length core \<ge> 5 \<and> hd tail \<in> {CHR ''+'', CHR ''-''} \<and> list_all is_digit (tl tail)
           then take n core @ take 3 tail @ '':'' @ drop 3 tail
           else ts)"

definition try_parse_ts :: "string \<Rightarrow> (bool \<times> int) option" where
  "try_parse_ts ts = fromisoformat (normalize_ts ts)"

text \<open>Python's order on strings, by code point.\<close>

fun str_less :: "string \<Rightarrow> string \<Rightarrow> bool" where
  "str_less _ [] = False"
| "str_less [] (_ # _) = True"
| "str_less (a # as) (b # bs) =
     ((of_char a :: nat) < of_char b \<or> (a = b \<and> str_less as bs))"

definition ts_lt :: "string \<Rightarrow> string \<Rightarrow> bool" where
  "ts_lt new old =
     (case (try_parse_ts new, try_parse_ts old) of
        (Some (tz, a), Some (tz', b)) \<Rightarrow>
          if tz = tz' then a < b else str_less (normalize_ts new) (normalize_ts old)
      | _ \<Rightarrow> str_less (normalize_ts new) (normalize_ts old))"

definition date_only :: "string \<Rightarrow> string" where
  "date_only ts = take 10 ts"

lemma str_less_irrefl [simp]: "\<not> str_less s s"
  by (induction s) simp_all

lemma ts_lt_irrefl [simp]: "\<not> ts_lt s s"
  by (simp add: ts_lt_def split: option.split)

text \<open>Two well-formed timestamps with a zone are ordered by instant, whatever their offsets and
  spelling; so equal instants never count as a regression.\<close>

theorem ts_lt_by_instant:
  assumes "try_parse_ts new = Some (tz, a)" and "try_parse_ts old = Some (tz, b)"
  shows "ts_lt new old = (a < b)"
  using assms by (simp add: ts_lt_def)

lemma ts_examples:
  "try_parse_ts ''2024-01-02T10:00:00+0530'' = Some (True, (738887 * 86400 + 16200) * 1000000)"
  "try_parse_ts ''2024-01-02T04:30:00Z'' = Some (True, (738887 * 86400 + 16200) * 1000000)"
  by code_simp+

theorem ts_lt_by_instant_witness:
  "\<not> ts_lt ''2024-01-02T10:00:00+0530'' ''2024-01-02T04:30:00Z''"
  using ts_lt_by_instant [OF ts_examples] by simp

end
