(* ===== verification/OrderBook.thy ===== *)
theory OrderBook
  imports OrderContract
begin

text \<open>
  The pending-order book (\<^verbatim>\<open>backend/agents/investment_team/trading_service/engine/order_book.py\<close>).
  The book's state is explicit and every method returns it updated; a \<open>PendingOrder\<close> changed in
  place is stored back under its id. The two indexes keep ids of orders already gone (tombstones)
  until a read compacts them. The rounding of a float operation is the parameter \<open>rnd\<close>.
\<close>

section \<open>State\<close>

record pending_order =
  po_id :: string
  request :: order_request
  submitted_at :: string
  submitted_equity :: rat
  original_submitted_at :: string
  original_qty :: rat
  rejection_reason :: "string option"
  cumulative_filled_qty :: rat
  remaining_qty :: rat
  twap_slices_remaining :: "int option"
  effective_stop_price :: "rat option"
  trailing_water :: "rat option"
  stop_limit_armed :: bool
  armed :: bool
  working_against :: "string option"

record top_level_meta =
  meta_symbol :: string
  meta_side :: order_side

record order_book =
  next_id :: nat
  pending :: "(string, pending_order) pydict"
  by_symbol :: "(string, string list) pydict"
  by_parent :: "(string, string list) pydict"
  known_top_level :: "(string, top_level_meta) pydict"

definition empty_book :: order_book where
  "empty_book = \<lparr>next_id = 0, pending = [], by_symbol = [], by_parent = [], known_top_level = []\<rparr>"

definition order_name :: "nat \<Rightarrow> string" where
  "order_name n = CHR ''o'' # nat_str n"

definition new_order :: "string \<Rightarrow> order_request \<Rightarrow> string \<Rightarrow> rat \<Rightarrow> bool \<Rightarrow> pending_order" where
  "new_order oid r ts equity arm =
     \<lparr>po_id = oid, request = r, submitted_at = ts, submitted_equity = equity,
      original_submitted_at = ts, original_qty = qty r, rejection_reason = None,
      cumulative_filled_qty = 0, remaining_qty = qty r, twap_slices_remaining = None,
      effective_stop_price = None, trailing_water = None, stop_limit_armed = False, armed = arm,
      working_against = None\<rparr>"

text \<open>\<open>index.setdefault(key, deque()).append(oid)\<close>.\<close>

definition bucket :: "(string, string list) pydict \<Rightarrow> string \<Rightarrow> string list" where
  "bucket idx k = (case dget idx k of None \<Rightarrow> [] | Some b \<Rightarrow> b)"

definition push :: "(string, string list) pydict \<Rightarrow> string \<Rightarrow> string \<Rightarrow> (string, string list) pydict" where
  "push idx k oid = dset idx k (bucket idx k @ [oid])"

section \<open>Submission\<close>

definition submit ::
  "order_request \<Rightarrow> string \<Rightarrow> rat \<Rightarrow> bool \<Rightarrow> order_book \<Rightarrow>
   order_error + (pending_order \<times> order_book)" where
  "submit r ts equity expect b =
     (if parent_order_id r \<noteq> None \<or> oco_group_id r \<noteq> None
      then Inl (ValueErr ''submit() must not receive a request with parent_order_id or oco_group_id set'')
      else
        let n = next_id b + 1; oid = order_name n; po = new_order oid r ts equity True in
        Inr (po, b\<lparr>next_id := n, pending := dset (pending b) oid po,
                  known_top_level := (if expect
                    then dset (known_top_level b) oid \<lparr>meta_symbol = symbol r, meta_side = side r\<rparr>
                    else known_top_level b),
                  by_symbol := push (by_symbol b) (symbol r) oid\<rparr>))"

definition submit_attached ::
  "order_request \<Rightarrow> string \<Rightarrow> rat \<Rightarrow> string \<Rightarrow> string \<Rightarrow> order_book \<Rightarrow>
   order_error + (pending_order \<times> order_book)" where
  "submit_attached r ts equity parent oco b =
     (if parent = [] then Inl (TypeErr ''parent_order_id must be a non-empty str'')
      else if oco = [] then Inl (TypeErr ''oco_group_id must be a non-empty str'')
      else case dget (known_top_level b) parent of
        None \<Rightarrow> Inl (ValueErr ''parent_order_id is not a known top-level order id'')
      | Some meta \<Rightarrow>
          if symbol r \<noteq> meta_symbol meta then Inl (ValueErr ''child symbol does not match parent'')
          else if side r = meta_side meta then Inl (ValueErr ''child side must be opposite parent'')
          else if order_type r = MARKET then Inl (ValueErr ''child must not be MARKET'')
          else
            let r' = r\<lparr>parent_order_id := Some parent, oco_group_id := Some oco\<rparr> in
            (case validate_prices (r'\<lparr>parent_order_id := None, oco_group_id := None\<rparr>) of
               Some e \<Rightarrow> Inl e
             | None \<Rightarrow>
                 let arm = (\<not> has_key (pending b) parent); n = next_id b + 1;
                     oid = order_name n; po = new_order oid r' ts equity arm in
                 Inr (po, b\<lparr>next_id := n, pending := dset (pending b) oid po,
                           by_symbol := push (by_symbol b) (symbol r') oid,
                           by_parent := push (by_parent b) parent oid\<rparr>)))"

section \<open>Reading the indexes\<close>

text \<open>The live orders of a bucket, and the bucket after the amortized compaction: rebuilt once the
  tombstones are as many as the live entries, dropped when nothing is left.\<close>

definition live_in :: "(string, pending_order) pydict \<Rightarrow> string list \<Rightarrow> pending_order list" where
  "live_in p ids = List.map_filter (dget p) ids"

definition scan ::
  "(string, pending_order) pydict \<Rightarrow> (string, string list) pydict \<Rightarrow> string \<Rightarrow>
   pending_order list \<times> (string, string list) pydict" where
  "scan p idx k =
     (let ids = bucket idx k in
      if ids = [] then ([], idx)
      else
        let live = live_in p ids; tombstones = length ids - length live in
        (live,
         if length live \<le> tombstones \<and> 0 < tombstones
         then (if live \<noteq> [] then dset idx k (map po_id live) else ddel idx k)
         else idx))"

definition pending_for_symbol :: "string \<Rightarrow> order_book \<Rightarrow> pending_order list \<times> order_book" where
  "pending_for_symbol sy b =
     (let (live, idx) = scan (pending b) (by_symbol b) sy in (live, b\<lparr>by_symbol := idx\<rparr>))"

definition all_pending :: "order_book \<Rightarrow> pending_order list" where
  "all_pending b = dvals (pending b)"

definition contains :: "string \<Rightarrow> order_book \<Rightarrow> bool" where
  "contains oid b = has_key (pending b) oid"

text \<open>The body of \<open>children_of\<close>, after its guard on the id.\<close>

definition scan_children :: "string \<Rightarrow> order_book \<Rightarrow> pending_order list \<times> order_book" where
  "scan_children parent b =
     (let (live, idx) = scan (pending b) (by_parent b) parent in (live, b\<lparr>by_parent := idx\<rparr>))"

definition children_of :: "string \<Rightarrow> order_book \<Rightarrow> order_error + (pending_order list \<times> order_book)" where
  "children_of parent b =
     (if parent = [] then Inl (TypeErr ''children_of parent_order_id must be a non-empty str'')
      else Inr (scan_children parent b))"

section \<open>Removal\<close>

definition forget_parent :: "string \<Rightarrow> order_book \<Rightarrow> order_book" where
  "forget_parent oid b = b\<lparr>known_top_level := ddel (known_top_level b) oid\<rparr>"

definition maybe_evict_resolved_parent :: "string \<Rightarrow> order_book \<Rightarrow> order_book" where
  "maybe_evict_resolved_parent parent b =
     (if has_key (pending b) parent then b
      else
        let (live, b) = scan_children parent b in
        if live \<noteq> [] then b
        else (forget_parent parent b)\<lparr>by_parent := ddel (by_parent b) parent\<rparr>)"

text \<open>\<open>remove\<close> and \<open>_cascade_cancel_children\<close> call each other, one order fewer pending each time;
  the fuel is the number of pending orders.\<close>

fun remove_fuel :: "nat \<Rightarrow> bool \<Rightarrow> string \<Rightarrow> order_book \<Rightarrow> order_book" where
  "remove_fuel 0 was_filled oid b = b"
| "remove_fuel (Suc n) was_filled oid b =
     (case dget (pending b) oid of
        None \<Rightarrow> b
      | Some po \<Rightarrow>
          let b = b\<lparr>pending := ddel (pending b) oid\<rparr> in
          (case parent_order_id (request po) of
             None \<Rightarrow>
               if was_filled then b
               else let (live, b) = scan_children oid (forget_parent oid b)
                    in fold (\<lambda>c. remove_fuel n False (po_id c)) live b
           | Some parent \<Rightarrow> maybe_evict_resolved_parent parent b))"

definition remove_order :: "string \<Rightarrow> bool \<Rightarrow> order_book \<Rightarrow> pending_order option \<times> order_book" where
  "remove_order oid was_filled b =
     (dget (pending b) oid, remove_fuel (length (pending b)) was_filled oid b)"

definition cascade_cancel_children :: "string \<Rightarrow> order_book \<Rightarrow> order_book" where
  "cascade_cancel_children parent b =
     (let (live, b) = scan_children parent b
      in fold (\<lambda>c b. snd (remove_order (po_id c) False b)) live b)"

definition cancel_order :: "string \<Rightarrow> order_book \<Rightarrow> bool \<times> order_book" where
  "cancel_order oid b =
     (case dget (pending b) oid of
        None \<Rightarrow> (False, b)
      | Some po \<Rightarrow>
          let b = b\<lparr>pending := ddel (pending b) oid\<rparr> in
          (True,
           case parent_order_id (request po) of
             None \<Rightarrow> cascade_cancel_children oid (forget_parent oid b)
           | Some parent \<Rightarrow> maybe_evict_resolved_parent parent b))"

section \<open>Partial fills\<close>

text \<open>What a caller may pass as a quantity or a slice count.\<close>

datatype pynum = PyBool bool | PyInt int | PyFloat rat | PyInf bool | PyNaN | PyOther

definition fill_qty_rel_tol :: rat where
  "fill_qty_rel_tol = 1 / 10 ^ 12"

fun finite_real :: "pynum \<Rightarrow> order_error + rat" where
  "finite_real (PyBool b) = Inl (ValueErr ''new_remaining_qty must be a real number, got bool'')"
| "finite_real (PyInt n) = Inr (of_int n)"
| "finite_real (PyFloat q) = Inr q"
| "finite_real PyOther = Inl (TypeErr ''new_remaining_qty must be int or float'')"
| "finite_real _ = Inl (ValueErr ''new_remaining_qty must be finite'')"

fun slices_ok :: "pynum option \<Rightarrow> bool" where
  "slices_ok None = True"
| "slices_ok (Some (PyInt n)) = (0 \<le> n)"
| "slices_ok (Some _) = False"

fun slices_val :: "pynum option \<Rightarrow> int option" where
  "slices_val (Some (PyInt n)) = Some n"
| "slices_val _ = None"

definition clamp_residual :: "(rat \<Rightarrow> rat) \<Rightarrow> rat \<Rightarrow> rat \<Rightarrow> rat" where
  "clamp_residual rnd orig q =
     (let threshold = rnd (orig * fill_qty_rel_tol)
      in if 0 < threshold \<and> \<bar>q\<bar> < threshold then 0 else q)"

definition requeue ::
  "(rat \<Rightarrow> rat) \<Rightarrow> string \<Rightarrow> pynum \<Rightarrow> string \<Rightarrow> pynum option \<Rightarrow> bool \<Rightarrow> order_book \<Rightarrow>
   order_error + (pending_order \<times> order_book)" where
  "requeue rnd oid new_remaining ts slices was_filled b =
     (case dget (pending b) oid of
        None \<Rightarrow> Inl (KeyErr ''requeue: order_id is not in the book'')
      | Some po \<Rightarrow>
          (case finite_real new_remaining of
             Inl e \<Rightarrow> Inl e
           | Inr q0 \<Rightarrow>
               if ts_lt ts (submitted_at po) then Inl (ValueErr ''submitted_at must not regress'')
               else
                 let q = clamp_residual rnd (original_qty po) q0 in
                 if q < 0 then Inl (ValueErr ''new_remaining_qty must be >= 0'')
                 else if q > remaining_qty po
                 then Inl (ValueErr ''new_remaining_qty must not exceed current remaining_qty'')
                 else if \<not> slices_ok slices
                 then Inl (ValueErr ''twap_slices_remaining must be a non-negative int or None'')
                 else
                   let po = po\<lparr>submitted_at := ts, remaining_qty := q,
                               cumulative_filled_qty := rnd (original_qty po - q),
                               twap_slices_remaining := slices_val slices\<rparr>;
                       b = b\<lparr>pending := dset (pending b) oid po\<rparr>
                   in Inr (po, if q = 0 then snd (remove_order oid was_filled b) else b)))"

section \<open>Brackets\<close>

definition in_bracket :: "string \<Rightarrow> string \<Rightarrow> pending_order \<Rightarrow> bool" where
  "in_bracket oco parent po \<longleftrightarrow>
     oco_group_id (request po) = Some oco \<and> parent_order_id (request po) = Some parent"

text \<open>The loop runs over the ids pending when it starts; \<open>self._pending[oid]\<close> raises \<open>KeyError\<close>
  when an id has gone meanwhile.\<close>

fun oco_loop ::
  "string \<Rightarrow> string \<Rightarrow> string \<Rightarrow> string list \<Rightarrow> order_book \<Rightarrow> string list \<Rightarrow>
   order_error + (string list \<times> order_book)" where
  "oco_loop oco except parent [] b done = Inr (done, b)"
| "oco_loop oco except parent (oid # oids) b done =
     (case dget (pending b) oid of
        None \<Rightarrow> Inl (KeyErr oid)
      | Some po \<Rightarrow>
          if in_bracket oco parent po \<and> oid \<noteq> except
          then oco_loop oco except parent oids (snd (remove_order oid False b)) (done @ [oid])
          else oco_loop oco except parent oids b done)"

definition oco_cancel_siblings ::
  "string \<Rightarrow> string \<Rightarrow> string \<Rightarrow> order_book \<Rightarrow> order_error + (string list \<times> order_book)" where
  "oco_cancel_siblings oco except parent b =
     (if oco = [] then Inl (TypeErr ''oco_group_id must be a non-empty str'')
      else if except = [] then Inl (TypeErr ''except_order_id must be a non-empty str'')
      else if parent = [] then Inl (TypeErr ''parent_order_id must be a non-empty str'')
      else case dget (pending b) except of
        None \<Rightarrow> Inl (ValueErr ''except_order_id is not currently pending'')
      | Some survivor \<Rightarrow>
          if \<not> in_bracket oco parent survivor
          then Inl (ValueErr ''except_order_id does not belong to the bracket'')
          else oco_loop oco except parent (dkeys (pending b)) b [])"

definition active_parents :: "order_book \<Rightarrow> string list" where
  "active_parents b =
     map (\<lambda>po. case parent_order_id (request po) of None \<Rightarrow> po_id po | Some p \<Rightarrow> p) (dvals (pending b))"

definition prune_known_top_level_order_ids :: "order_book \<Rightarrow> nat \<times> order_book" where
  "prune_known_top_level_order_ids b =
     (let prunable = filter (\<lambda>oid. oid \<notin> set (active_parents b)) (dkeys (known_top_level b))
      in (length prunable,
          fold (\<lambda>oid b. b\<lparr>known_top_level := ddel (known_top_level b) oid,
                        by_parent := ddel (by_parent b) oid\<rparr>) prunable b))"

section \<open>Expiry\<close>

definition expires :: "string \<Rightarrow> pending_order \<Rightarrow> bool" where
  "expires today po \<longleftrightarrow>
     tif (request po) = DAY \<and>
     str_less
       (date_only (if original_submitted_at po \<noteq> [] then original_submitted_at po else submitted_at po))
       (date_only today)"

fun expire_loop ::
  "string \<Rightarrow> string list \<Rightarrow> order_book \<Rightarrow> pending_order list \<Rightarrow> pending_order list \<times> order_book" where
  "expire_loop today [] b expired = (expired, b)"
| "expire_loop today (oid # oids) b expired =
     (case dget (pending b) oid of
        None \<Rightarrow> expire_loop today oids b expired
      | Some po \<Rightarrow>
          if expires today po
          then expire_loop today oids
                 (snd (remove_order oid (0 < cumulative_filled_qty po) b)) (expired @ [po])
          else expire_loop today oids b expired)"

definition expire_day_orders :: "string \<Rightarrow> order_book \<Rightarrow> pending_order list \<times> order_book" where
  "expire_day_orders today b = expire_loop today (dkeys (pending b)) b []"

end
