(* ===== verification/OrderBookInv.thy ===== *)
theory OrderBookInv
  imports OrderBook
begin

text \<open>
  The order book's invariant and its consequences: the per-symbol and per-parent indexes list
  exactly the live orders in submission order whatever tombstones they carry, no bracket child is
  ever without its registered parent, and partial fills keep the quantities consistent.
\<close>

section \<open>Indexes\<close>

abbreviation live_keys :: "('v \<Rightarrow> bool) \<Rightarrow> (string, 'v) pydict \<Rightarrow> string list" where
  "live_keys f p \<equiv> map fst (filter (\<lambda>kv. f (snd kv)) p)"

definition index_ok ::
  "(string, pending_order) pydict \<Rightarrow> (string, string list) pydict \<Rightarrow>
   (pending_order \<Rightarrow> string option) \<Rightarrow> bool" where
  "index_ok p idx key \<longleftrightarrow>
     (\<forall>s. filter (has_key p) (bucket idx s) = live_keys (\<lambda>po. key po = Some s) p)"

lemma index_okD: "index_ok p idx key \<Longrightarrow> filter (has_key p) (bucket idx s) = live_keys (\<lambda>po. key po = Some s) p"
  by (simp add: index_ok_def)

lemma bucket_simps [simp]:
  "bucket (dset idx k b) s = (if s = k then b else bucket idx s)"
  "bucket (ddel idx k) s = (if s = k then [] else bucket idx s)"
  by (simp_all add: bucket_def)

lemma bucket_push [simp]: "bucket (push idx k i) s = (if s = k then bucket idx k @ [i] else bucket idx s)"
  by (simp add: push_def)

lemma ddel_filter: "ddel p k = filter (\<lambda>kv. fst kv \<noteq> k) p"
  by (induction p) auto

lemma has_key_ddel: "has_key (ddel p k) = (\<lambda>i. i \<noteq> k \<and> has_key p i)"
  by (simp add: has_key_def fun_eq_iff)

lemma has_key_dset: "has_key (dset p k v) = (\<lambda>i. i = k \<or> has_key p i)"
  by (simp add: has_key_def fun_eq_iff)

lemma has_key_iff: "has_key p k \<longleftrightarrow> k \<in> set (dkeys p)"
  unfolding has_key_def in_dkeys_iff by simp

lemma index_ok_ddel:
  assumes "index_ok p idx key"
  shows "index_ok (ddel p k) idx key"
proof -
  have "filter (has_key (ddel p k)) (bucket idx s) = live_keys (\<lambda>po. key po = Some s) (ddel p k)" for s
  proof -
    have "filter (has_key (ddel p k)) (bucket idx s) = filter (\<lambda>i. i \<noteq> k) (filter (has_key p) (bucket idx s))"
      by (simp add: has_key_ddel conj_commute)
    also have "\<dots> = filter (\<lambda>i. i \<noteq> k) (live_keys (\<lambda>po. key po = Some s) p)"
      by (simp only: index_okD [OF assms])
    also have "\<dots> = live_keys (\<lambda>po. key po = Some s) (ddel p k)"
      by (induction p) (auto simp: ddel_filter)
    finally show ?thesis .
  qed
  then show ?thesis by (simp add: index_ok_def)
qed

lemma live_keys_replace:
  "dget p k = Some po \<Longrightarrow> f po' = f po \<Longrightarrow> wf_dict p \<Longrightarrow> live_keys f (dset p k po') = live_keys f p"
  by (induction p) (auto simp: wf_dict_def split: if_splits)

lemma index_ok_replace:
  assumes "index_ok p idx key" and "dget p k = Some po" and "key po' = key po" and "wf_dict p"
  shows "index_ok (dset p k po') idx key"
proof -
  have "has_key (dset p k po') = has_key p"
    using assms(2) by (auto simp: has_key_def fun_eq_iff)
  moreover have "live_keys (\<lambda>po. key po = Some s) (dset p k po') = live_keys (\<lambda>po. key po = Some s) p" for s
    by (rule live_keys_replace [OF assms(2) _ assms(4)]) (simp add: assms(3))
  ultimately show ?thesis using assms(1) by (simp add: index_ok_def)
qed

lemma filter_has_key_new:
  "k \<notin> set ids \<Longrightarrow> filter (has_key (dset p k po)) ids = filter (has_key p) ids"
  unfolding has_key_dset by (rule filter_cong) auto

lemma live_keys_new:
  "dget p k = None \<Longrightarrow> live_keys f (dset p k po) = live_keys f p @ (if f po then [k] else [])"
  by (simp add: dset_new)

lemma index_ok_push:
  assumes "index_ok p idx key" and "dget p k = None" and "\<And>s. k \<notin> set (bucket idx s)"
    and "key po = Some s0"
  shows "index_ok (dset p k po) (push idx s0 k) key"
proof -
  have "has_key (dset p k po) k" by (simp add: has_key_def)
  moreover have "live_keys (\<lambda>po. key po = Some s) (dset p k po) =
      live_keys (\<lambda>po. key po = Some s) p @ (if key po = Some s then [k] else [])" for s
    by (rule live_keys_new [OF assms(2)])
  ultimately show ?thesis
    using index_okD [OF assms(1)] assms(4)
    by (simp add: index_ok_def filter_has_key_new [OF assms(3)])
qed

lemma index_ok_unlisted:
  assumes "index_ok p idx key" and "dget p k = None" and "\<And>s. k \<notin> set (bucket idx s)"
    and "key po = None"
  shows "index_ok (dset p k po) idx key"
proof -
  have "live_keys (\<lambda>po. key po = Some s) (dset p k po) =
      live_keys (\<lambda>po. key po = Some s) p @ (if key po = Some s then [k] else [])" for s
    by (rule live_keys_new [OF assms(2)])
  with index_okD [OF assms(1)] assms(4) show ?thesis
    by (simp add: index_ok_def filter_has_key_new [OF assms(3)])
qed

text \<open>A read returns exactly the live orders of the bucket, and compaction loses none.\<close>

definition ids_match :: "(string, pending_order) pydict \<Rightarrow> bool" where
  "ids_match p \<longleftrightarrow> (\<forall>k po. dget p k = Some po \<longrightarrow> po_id po = k)"

lemma live_in_eq: "live_in p ids = map (the \<circ> dget p) (filter (has_key p) ids)"
  by (induction ids) (auto simp: live_in_def map_filter_simps has_key_def split: option.split)

lemma map_po_id_live_in:
  assumes "ids_match p"
  shows "map po_id (live_in p ids) = filter (has_key p) ids"
  using assms by (induction ids) (auto simp: live_in_eq ids_match_def has_key_def)

lemma live_in_index:
  assumes "index_ok p idx key" and "wf_dict p"
  shows "live_in p (bucket idx s) = filter (\<lambda>po. key po = Some s) (dvals p)"
proof -
  have get: "(the \<circ> dget p) (fst kv) = snd kv" if "kv \<in> set p" for kv
    using wf_dict_dget [OF assms(2), of "fst kv" "snd kv"] that by simp
  have "live_in p (bucket idx s) = map (the \<circ> dget p) (live_keys (\<lambda>po. key po = Some s) p)"
    by (simp add: live_in_eq index_okD [OF assms(1)])
  also have "\<dots> = map snd (filter (\<lambda>kv. key (snd kv) = Some s) p)"
    using get by (induction p) auto
  also have "\<dots> = filter (\<lambda>po. key po = Some s) (dvals p)"
    by (simp add: filter_map comp_def)
  finally show ?thesis .
qed

lemma scan_live:
  assumes "index_ok p idx key" and "wf_dict p"
  shows "fst (scan p idx s) = filter (\<lambda>po. key po = Some s) (dvals p)"
  using live_in_index [OF assms, of s] by (auto simp: scan_def Let_def live_in_def map_filter_simps)

lemma scan_bucket:
  assumes "ids_match p"
  shows "filter (has_key p) (bucket (snd (scan p idx s)) s') = filter (has_key p) (bucket idx s') \<and>
         set (bucket (snd (scan p idx s)) s') \<subseteq> set (bucket idx s')"
proof (cases "bucket idx s = [] \<or> s' \<noteq> s")
  case True
  then show ?thesis by (auto simp: scan_def Let_def)
next
  case False
  then have s: "s' = s" "bucket idx s \<noteq> []" by auto
  have "bucket (snd (scan p idx s)) s = bucket idx s \<or>
      bucket (snd (scan p idx s)) s = filter (has_key p) (bucket idx s)"
    using s map_po_id_live_in [OF assms, of "bucket idx s"]
    by (auto simp: scan_def Let_def live_in_eq)
  with s show ?thesis by auto
qed

lemma index_ok_scan:
  assumes "index_ok p idx key" and "ids_match p"
  shows "index_ok p (snd (scan p idx s)) key"
  using assms(1) scan_bucket [OF assms(2)] by (simp add: index_ok_def)

lemma index_ok_drop:
  assumes "index_ok p idx key" and "\<And>po. po \<in> set (dvals p) \<Longrightarrow> key po \<noteq> Some s"
  shows "index_ok p (ddel idx s) key"
proof -
  have "live_keys (\<lambda>po. key po = Some s) p = []"
    using assms(2) by (auto simp: filter_empty_conv)
  with assms(1) show ?thesis by (simp add: index_ok_def)
qed

section \<open>The invariant\<close>

abbreviation symbol_key :: "pending_order \<Rightarrow> string option" where
  "symbol_key po \<equiv> Some (symbol (request po))"

abbreviation parent_key :: "pending_order \<Rightarrow> string option" where
  "parent_key po \<equiv> parent_order_id (request po)"

definition issued :: "order_book \<Rightarrow> string \<Rightarrow> bool" where
  "issued b oid \<longleftrightarrow> (\<exists>n \<le> next_id b. oid = order_name n)"

definition indexes_ok :: "order_book \<Rightarrow> bool" where
  "indexes_ok b \<longleftrightarrow>
     wf_dict (pending b) \<and> ids_match (pending b) \<and> (\<forall>k. has_key (pending b) k \<longrightarrow> issued b k) \<and>
     (\<forall>k. has_key (known_top_level b) k \<longrightarrow> issued b k) \<and>
     (\<forall>s. \<forall>k \<in> set (bucket (by_symbol b) s). issued b k) \<and>
     (\<forall>s. \<forall>k \<in> set (bucket (by_parent b) s). issued b k) \<and>
     index_ok (pending b) (by_symbol b) symbol_key \<and> index_ok (pending b) (by_parent b) parent_key"

text \<open>A pending child's parent is registered, on its symbol and the opposite side; the parents in
  \<open>X\<close> are exempt while their legs are being removed.\<close>

definition leg_ok :: "order_book \<Rightarrow> pending_order \<Rightarrow> string \<Rightarrow> bool" where
  "leg_ok b po p \<longleftrightarrow> (\<exists>m. dget (known_top_level b) p = Some m \<and>
     symbol (request po) = meta_symbol m \<and> side (request po) \<noteq> meta_side m)"

definition brackets_ok :: "string set \<Rightarrow> order_book \<Rightarrow> bool" where
  "brackets_ok X b \<longleftrightarrow>
     (\<forall>k po p. dget (pending b) k = Some po \<longrightarrow> parent_key po = Some p \<longrightarrow> p \<in> X \<or> leg_ok b po p) \<and>
     (\<forall>k po p. dget (pending b) k = Some po \<longrightarrow> parent_key po = Some p \<longrightarrow> p \<noteq> []) \<and>
     (\<forall>k m po. dget (known_top_level b) k = Some m \<longrightarrow> dget (pending b) k = Some po \<longrightarrow> parent_key po = None)"

definition qty_ok :: "(rat \<Rightarrow> rat) \<Rightarrow> pending_order \<Rightarrow> bool" where
  "qty_ok rnd po \<longleftrightarrow> 0 < remaining_qty po \<and> remaining_qty po \<le> original_qty po \<and>
     cumulative_filled_qty po = rnd (original_qty po - remaining_qty po)"

definition quantities_ok :: "(rat \<Rightarrow> rat) \<Rightarrow> order_book \<Rightarrow> bool" where
  "quantities_ok rnd b \<longleftrightarrow> (\<forall>k po. dget (pending b) k = Some po \<longrightarrow> qty_ok rnd po)"

definition book_inv_x :: "(rat \<Rightarrow> rat) \<Rightarrow> string set \<Rightarrow> order_book \<Rightarrow> bool" where
  "book_inv_x rnd X b \<longleftrightarrow> indexes_ok b \<and> brackets_ok X b \<and> quantities_ok rnd b"

abbreviation book_inv :: "(rat \<Rightarrow> rat) \<Rightarrow> order_book \<Rightarrow> bool" where
  "book_inv rnd \<equiv> book_inv_x rnd {}"

lemma book_inv_xI: "indexes_ok b \<Longrightarrow> brackets_ok X b \<Longrightarrow> quantities_ok rnd b \<Longrightarrow> book_inv_x rnd X b"
  by (simp add: book_inv_x_def)

lemma book_inv_xD:
  assumes "book_inv_x rnd X b"
  shows "indexes_ok b" "brackets_ok X b" "quantities_ok rnd b"
  using assms by (simp_all add: book_inv_x_def)

lemma indexes_okD:
  assumes "indexes_ok b"
  shows "wf_dict (pending b)" "ids_match (pending b)"
    "has_key (pending b) k \<Longrightarrow> issued b k" "has_key (known_top_level b) k \<Longrightarrow> issued b k"
    "k \<in> set (bucket (by_symbol b) s) \<Longrightarrow> issued b k" "k \<in> set (bucket (by_parent b) s) \<Longrightarrow> issued b k"
    "index_ok (pending b) (by_symbol b) symbol_key" "index_ok (pending b) (by_parent b) parent_key"
  using assms unfolding indexes_ok_def by auto

section \<open>The small steps\<close>

definition pop :: "string \<Rightarrow> order_book \<Rightarrow> order_book" where
  "pop k b = b\<lparr>pending := ddel (pending b) k\<rparr>"

lemma pop_simps [simp]:
  "pending (pop k b) = ddel (pending b) k" "next_id (pop k b) = next_id b"
  "by_symbol (pop k b) = by_symbol b" "by_parent (pop k b) = by_parent b"
  "known_top_level (pop k b) = known_top_level b"
  by (simp_all add: pop_def)

lemma has_key_ddelD: "has_key (ddel d k) k' \<Longrightarrow> has_key d k'"
  by (simp add: has_key_ddel)

lemma issued_cong: "next_id b = next_id b' \<Longrightarrow> issued b = issued b'"
  by (simp add: issued_def fun_eq_iff)

lemma pop_inv:
  assumes "book_inv_x rnd X b"
  shows "book_inv_x rnd X (pop k b)"
proof (rule book_inv_xI)
  note i = indexes_okD [OF book_inv_xD(1) [OF assms]]
  have "issued (pop k b) = issued b" by (rule issued_cong) simp
  then show "indexes_ok (pop k b)"
    using i index_ok_ddel [OF i(7)] index_ok_ddel [OF i(8)]
    unfolding indexes_ok_def by (auto simp: ids_match_def dest: has_key_ddelD)
  have "leg_ok (pop k b) = leg_ok b" by (simp add: leg_ok_def fun_eq_iff)
  with book_inv_xD(2) [OF assms] show "brackets_ok X (pop k b)"
    by (auto simp: brackets_ok_def split: if_splits)
  from book_inv_xD(3) [OF assms] show "quantities_ok rnd (pop k b)"
    by (simp add: quantities_ok_def)
qed

lemma scan_children_eq:
  "scan_children p b = (fst (scan (pending b) (by_parent b) p), b\<lparr>by_parent := snd (scan (pending b) (by_parent b) p)\<rparr>)"
  by (simp add: scan_children_def case_prod_unfold Let_def)

lemma pending_for_symbol_eq:
  "pending_for_symbol s b = (fst (scan (pending b) (by_symbol b) s), b\<lparr>by_symbol := snd (scan (pending b) (by_symbol b) s)\<rparr>)"
  by (simp add: pending_for_symbol_def case_prod_unfold Let_def)

lemma brackets_cong:
  "pending b' = pending b \<Longrightarrow> known_top_level b' = known_top_level b \<Longrightarrow> brackets_ok X b' = brackets_ok X b"
  by (simp only: brackets_ok_def leg_ok_def)

lemma quantities_cong: "pending b' = pending b \<Longrightarrow> quantities_ok rnd b' = quantities_ok rnd b"
  by (simp only: quantities_ok_def)

lemma set_index_inv:
  assumes "book_inv_x rnd X b"
    and "index_ok (pending b) isym symbol_key" and "index_ok (pending b) ipar parent_key"
    and "\<And>s. set (bucket isym s) \<subseteq> set (bucket (by_symbol b) s)"
    and "\<And>s. set (bucket ipar s) \<subseteq> set (bucket (by_parent b) s)"
  shows "book_inv_x rnd X (b\<lparr>by_symbol := isym, by_parent := ipar\<rparr>)"
proof (rule book_inv_xI)
  let ?b = "b\<lparr>by_symbol := isym, by_parent := ipar\<rparr>"
  note i = indexes_okD [OF book_inv_xD(1) [OF assms(1)]]
  have eq: "issued ?b = issued b" by (rule issued_cong) simp
  have "\<forall>s. \<forall>k \<in> set (bucket isym s). issued b k" using i(5) assms(4) by blast
  moreover have "\<forall>s. \<forall>k \<in> set (bucket ipar s). issued b k" using i(6) assms(5) by blast
  ultimately show "indexes_ok ?b"
    using i(1-4) assms(2,3) unfolding indexes_ok_def eq by simp
  show "brackets_ok X ?b"
    using book_inv_xD(2) [OF assms(1)] brackets_cong [of ?b b] by simp
  show "quantities_ok rnd ?b"
    using book_inv_xD(3) [OF assms(1)] quantities_cong [of ?b b] by simp
qed

lemma set_by_parent_inv:
  assumes "book_inv_x rnd X b" and "index_ok (pending b) idx parent_key"
    and "\<And>s. set (bucket idx s) \<subseteq> set (bucket (by_parent b) s)"
  shows "book_inv_x rnd X (b\<lparr>by_parent := idx\<rparr>)"
  using set_index_inv [OF assms(1) indexes_okD(7) [OF book_inv_xD(1) [OF assms(1)]] assms(2) _ assms(3)]
  by simp

lemma set_by_symbol_inv:
  assumes "book_inv_x rnd X b" and "index_ok (pending b) idx symbol_key"
    and "\<And>s. set (bucket idx s) \<subseteq> set (bucket (by_symbol b) s)"
  shows "book_inv_x rnd X (b\<lparr>by_symbol := idx\<rparr>)"
  using set_index_inv [OF assms(1,2) indexes_okD(8) [OF book_inv_xD(1) [OF assms(1)]] assms(3)]
  by simp

lemma scan_children_inv:
  assumes "book_inv_x rnd X b"
  shows "book_inv_x rnd X (snd (scan_children p b))"
proof -
  note i = indexes_okD [OF book_inv_xD(1) [OF assms]]
  show ?thesis
    unfolding scan_children_eq snd_conv
    by (rule set_by_parent_inv [OF assms]) (use index_ok_scan [OF i(8,2)] scan_bucket [OF i(2)] in auto)
qed

lemma pending_for_symbol_inv:
  assumes "book_inv_x rnd X b"
  shows "book_inv_x rnd X (snd (pending_for_symbol s b))"
proof -
  note i = indexes_okD [OF book_inv_xD(1) [OF assms]]
  show ?thesis
    unfolding pending_for_symbol_eq snd_conv
    by (rule set_by_symbol_inv [OF assms]) (use index_ok_scan [OF i(7,2)] scan_bucket [OF i(2)] in auto)
qed

lemma scan_children_live:
  assumes "book_inv_x rnd X b"
  shows "fst (scan_children p b) = filter (\<lambda>po. parent_key po = Some p) (dvals (pending b))"
  using scan_live indexes_okD(8,1) [OF book_inv_xD(1) [OF assms]] by (simp add: scan_children_eq)

lemma forget_parent_frame [simp]:
  "pending (forget_parent p b) = pending b" "next_id (forget_parent p b) = next_id b"
  "by_symbol (forget_parent p b) = by_symbol b" "by_parent (forget_parent p b) = by_parent b"
  "known_top_level (forget_parent p b) = ddel (known_top_level b) p"
  by (simp_all add: forget_parent_def)

lemma forget_parent_inv:
  assumes "book_inv_x rnd X b"
  shows "book_inv_x rnd (insert p X) (forget_parent p b)"
proof (rule book_inv_xI)
  note i = indexes_okD [OF book_inv_xD(1) [OF assms]]
  have "issued (forget_parent p b) = issued b" by (rule issued_cong) simp
  with i show "indexes_ok (forget_parent p b)"
    unfolding indexes_ok_def by (auto dest: has_key_ddelD)
  have "q \<noteq> p \<Longrightarrow> leg_ok (forget_parent p b) po q = leg_ok b po q" for po q
    by (simp add: leg_ok_def)
  with book_inv_xD(2) [OF assms] show "brackets_ok (insert p X) (forget_parent p b)"
    unfolding brackets_ok_def by (fastforce split: if_splits)
  from book_inv_xD(3) [OF assms] show "quantities_ok rnd (forget_parent p b)"
    by (simp add: quantities_ok_def)
qed

definition childless :: "string \<Rightarrow> order_book \<Rightarrow> bool" where
  "childless p b \<longleftrightarrow> (\<forall>k po. dget (pending b) k = Some po \<longrightarrow> parent_key po \<noteq> Some p)"

lemma close_inv:
  assumes "book_inv_x rnd (insert p X) b" and "childless p b"
  shows "book_inv_x rnd X b"
  using assms unfolding book_inv_x_def brackets_ok_def childless_def by blast

lemma childless_iff:
  assumes "book_inv_x rnd X b"
  shows "childless p b \<longleftrightarrow> fst (scan_children p b) = []"
  unfolding scan_children_live [OF assms] childless_def filter_empty_conv
  using dget_in_set wf_dict_dget [OF indexes_okD(1) [OF book_inv_xD(1) [OF assms]]]
  by (force simp: image_iff)

lemma pending_evict [simp]: "pending (maybe_evict_resolved_parent p b) = pending b"
  "next_id (maybe_evict_resolved_parent p b) = next_id b"
  by (simp_all add: maybe_evict_resolved_parent_def scan_children_eq Let_def)

lemma drop_parent_bucket_inv:
  assumes "book_inv_x rnd X b" and "childless p b"
  shows "book_inv_x rnd X (b\<lparr>by_parent := ddel (by_parent b) p\<rparr>)"
proof (rule set_by_parent_inv [OF assms(1)])
  note i = indexes_okD [OF book_inv_xD(1) [OF assms(1)]]
  have "parent_key po \<noteq> Some p" if "po \<in> set (dvals (pending b))" for po
    using that assms(2) wf_dict_dget [OF i(1)] unfolding childless_def by fastforce
  from index_ok_drop [OF i(8) this] show "index_ok (pending b) (ddel (by_parent b) p) parent_key" .
qed auto

lemma evict_inv:
  assumes "book_inv_x rnd X b"
  shows "book_inv_x rnd X (maybe_evict_resolved_parent p b)"
proof -
  let ?b = "snd (scan_children p b)"
  have inv: "book_inv_x rnd X ?b" by (rule scan_children_inv [OF assms])
  show ?thesis
  proof (cases "has_key (pending b) p \<or> fst (scan_children p b) \<noteq> []")
    case True
    with assms inv show ?thesis
      by (auto simp: maybe_evict_resolved_parent_def split: prod.split)
  next
    case False
    have "childless p b" using False childless_iff [OF assms] by simp
    then have c: "childless p (forget_parent p ?b)"
      by (simp add: childless_def scan_children_eq)
    have "book_inv_x rnd X (forget_parent p ?b)"
      by (rule close_inv [OF forget_parent_inv [OF inv] c])
    from drop_parent_bucket_inv [OF this c] False show ?thesis
      by (cases "scan_children p b") (simp add: maybe_evict_resolved_parent_def)
  qed
qed

section \<open>Removal\<close>

lemma remove_fuel_child:
  assumes "dget (pending b) k = Some po" and "parent_key po = Some p"
  shows "remove_fuel (Suc n) filled k b = maybe_evict_resolved_parent p (pop k b)"
  using assms by (simp add: pop_def)

definition legs_of :: "string \<Rightarrow> pending_order list \<Rightarrow> order_book \<Rightarrow> bool" where
  "legs_of p cs b \<longleftrightarrow> distinct (map po_id cs) \<and>
     (\<forall>c \<in> set cs. dget (pending b) (po_id c) = Some c \<and> parent_key c = Some p)"

text \<open>Removing the legs of one parent, by whatever removal \<open>rm\<close> acts as an eviction after a pop.\<close>

lemma fold_legs:
  assumes "\<And>b k po. dget (pending b) k = Some po \<Longrightarrow> parent_key po = Some p \<Longrightarrow>
             rm k b = maybe_evict_resolved_parent p (pop k b)"
  shows "legs_of p cs b \<Longrightarrow> book_inv_x rnd X b \<Longrightarrow>
    book_inv_x rnd X (fold (\<lambda>c. rm (po_id c)) cs b) \<and>
    (\<forall>k. dget (pending (fold (\<lambda>c. rm (po_id c)) cs b)) k =
       (if k \<in> po_id ` set cs then None else dget (pending b) k))"
proof (induction cs arbitrary: b)
  case (Cons c cs)
  let ?b = "maybe_evict_resolved_parent p (pop (po_id c) b)"
  have c: "dget (pending b) (po_id c) = Some c" "parent_key c = Some p" "po_id c \<notin> po_id ` set cs"
    using Cons.prems(1) by (auto simp: legs_of_def)
  then have step: "rm (po_id c) b = ?b" by (intro assms)
  have "po_id x \<noteq> po_id c" if "x \<in> set cs" for x using c(3) that by (metis imageI)
  with Cons.prems(1) have "legs_of p cs ?b" by (simp add: legs_of_def)
  from Cons.IH [OF this evict_inv [OF pop_inv [OF Cons.prems(2)]]]
  have "book_inv_x rnd X (fold (\<lambda>c. rm (po_id c)) cs ?b)"
    and look: "dget (pending (fold (\<lambda>c. rm (po_id c)) cs ?b)) k =
       (if k \<in> po_id ` set cs then None else dget (pending ?b) k)" for k by blast+
  moreover have "fold (\<lambda>c. rm (po_id c)) (c # cs) b = fold (\<lambda>c. rm (po_id c)) cs ?b"
    by (simp add: step)
  ultimately show ?case by simp
qed simp

lemma scan_children_legs:
  assumes "book_inv_x rnd X b"
  shows "legs_of p (fst (scan_children p b)) (snd (scan_children p b))"
proof -
  note i = indexes_okD [OF book_inv_xD(1) [OF assms]]
  have id: "po_id po = k \<and> dget (pending b) k = Some po" if "(k, po) \<in> set (pending b)" for k po
    using that wf_dict_dget [OF i(1) that] i(2) by (simp add: ids_match_def)
  have "map po_id (dvals (pending b)) = dkeys (pending b)"
    unfolding map_map by (rule map_cong) (use id in auto)
  then have "distinct (map po_id (dvals (pending b)))" using i(1) by (simp only: wf_dict_def)
  then have "distinct (map po_id (filter (\<lambda>po. parent_key po = Some p) (dvals (pending b))))"
    by (rule distinct_map_filter)
  with id show ?thesis
    unfolding legs_of_def scan_children_live [OF assms] by (fastforce simp: scan_children_eq)
qed

definition leg_ids :: "string \<Rightarrow> order_book \<Rightarrow> string set" where
  "leg_ids p b = {k. \<exists>po. dget (pending b) k = Some po \<and> parent_key po = Some p}"

lemma leg_ids_scan:
  assumes "book_inv_x rnd X b"
  shows "po_id ` set (fst (scan_children p b)) = leg_ids p b"
proof -
  note i = indexes_okD [OF book_inv_xD(1) [OF assms]]
  show ?thesis
  proof (intro set_eqI iffI)
    fix k assume "k \<in> po_id ` set (fst (scan_children p b))"
    then obtain c where "c \<in> set (fst (scan_children p b))" "k = po_id c" by blast
    with scan_children_legs [OF assms, of p] show "k \<in> leg_ids p b"
      by (auto simp: legs_of_def leg_ids_def scan_children_eq)
  next
    fix k assume "k \<in> leg_ids p b"
    then obtain po where "dget (pending b) k = Some po" "parent_key po = Some p"
      by (auto simp: leg_ids_def)
    moreover have "po_id po = k" using i(2) calculation by (simp add: ids_match_def)
    ultimately show "k \<in> po_id ` set (fst (scan_children p b))"
      using dget_in_set [of "pending b" k po] unfolding scan_children_live [OF assms]
      by (intro image_eqI [of _ _ po]) force+
  qed
qed

text \<open>Cascading from a parent that has just gone removes exactly its legs.\<close>

lemma cascade_correct:
  assumes "book_inv_x rnd {} b" and "dget (pending b) p = None"
    and rm: "\<And>b k po. dget (pending b) k = Some po \<Longrightarrow> parent_key po = Some p \<Longrightarrow>
             rm k b = maybe_evict_resolved_parent p (pop k b)"
  defines "b' \<equiv> fold (\<lambda>c. rm (po_id c)) (fst (scan_children p (forget_parent p b)))
                 (snd (scan_children p (forget_parent p b)))"
  shows "book_inv_x rnd {} b' \<and>
    (\<forall>k. dget (pending b') k = (if k \<in> leg_ids p b then None else dget (pending b) k))"
proof -
  let ?f = "forget_parent p b"
  have f: "book_inv_x rnd {p} ?f" using forget_parent_inv [OF assms(1)] .
  note s = scan_children_inv [OF f, of p]
  from fold_legs [OF rm scan_children_legs [OF f] s] leg_ids_scan [OF f, of p]
  have inv: "book_inv_x rnd {p} b'"
    and look: "\<And>k. dget (pending b') k = (if k \<in> leg_ids p b then None else dget (pending b) k)"
    unfolding b'_def by (auto simp: scan_children_eq leg_ids_def)
  have "childless p b'" unfolding childless_def look by (auto simp: leg_ids_def)
  from close_inv [OF _ this, of rnd "{}"] inv look show ?thesis by simp
qed

definition removed_with :: "string \<Rightarrow> bool \<Rightarrow> order_book \<Rightarrow> string set" where
  "removed_with oid filled b =
     (case dget (pending b) oid of
        None \<Rightarrow> {}
      | Some po \<Rightarrow> insert oid (if parent_key po = None \<and> \<not> filled then leg_ids oid b else {}))"

lemma not_own_leg:
  "dget (pending b) k = Some po \<Longrightarrow> parent_key po = None \<Longrightarrow> leg_ids k (pop k b) = leg_ids k b"
  by (auto simp: leg_ids_def split: if_splits)

lemma remove_order_correct:
  assumes "book_inv_x rnd {} b"
  shows "book_inv_x rnd {} (snd (remove_order oid filled b)) \<and>
    (\<forall>k. dget (pending (snd (remove_order oid filled b))) k =
       (if k \<in> removed_with oid filled b then None else dget (pending b) k))"
proof (cases "dget (pending b) oid")
  case None
  then have "remove_fuel n filled oid b = b" for n by (cases n) simp_all
  with assms None show ?thesis by (simp add: remove_order_def removed_with_def)
next
  case (Some po)
  then obtain n where n: "length (pending b) = Suc n" by (cases "pending b") auto
  have popped: "book_inv_x rnd {} (pop oid b)" by (rule pop_inv [OF assms])
  show ?thesis
  proof (cases "parent_key po")
    case parent: (Some p)
    with n Some have "snd (remove_order oid filled b) = maybe_evict_resolved_parent p (pop oid b)"
      by (simp add: remove_order_def pop_def)
    with evict_inv [OF popped] Some parent show ?thesis by (simp add: removed_with_def)
  next
    case None
    show ?thesis
    proof (cases filled)
      case True
      with n Some None have "snd (remove_order oid filled b) = pop oid b"
        by (simp add: remove_order_def pop_def)
      with popped Some True show ?thesis by (simp add: removed_with_def)
    next
      case False
      let ?c = "forget_parent oid (pop oid b)"
      let ?run = "\<lambda>rm. fold (\<lambda>c. rm (po_id c)) (fst (scan_children oid ?c)) (snd (scan_children oid ?c))"
      have run: "snd (remove_order oid filled b) = ?run (remove_fuel n False)"
        using n Some None False by (simp add: remove_order_def pop_def split: prod.split)
      have c: "book_inv_x rnd {} (?run (remove_fuel (Suc m) False)) \<and>
        (\<forall>k. dget (pending (?run (remove_fuel (Suc m) False))) k =
          (if k \<in> leg_ids oid (pop oid b) then None else dget (pending (pop oid b)) k))" for m
        by (rule cascade_correct [OF popped]) (simp, rule remove_fuel_child)
      have "\<exists>m. ?run (remove_fuel n False) = ?run (remove_fuel (Suc m) False)"
      proof (cases n)
        case 0
        with n Some have "pending b = [(oid, po)]" by (cases "pending b") (auto split: if_splits)
        then have "fst (scan_children oid ?c) = []"
          using scan_children_live [OF forget_parent_inv [OF popped]] by simp
        then show ?thesis by simp
      qed blast
      then obtain m where "?run (remove_fuel n False) = ?run (remove_fuel (Suc m) False)" ..
      with run have res: "snd (remove_order oid filled b) = ?run (remove_fuel (Suc m) False)" by (simp only:)
      have "removed_with oid filled b = insert oid (leg_ids oid b)"
        using Some None False by (simp add: removed_with_def)
      with c [of m] show ?thesis
        unfolding res not_own_leg [OF Some None] by simp
    qed
  qed
qed

lemma cancel_order_correct:
  assumes "book_inv_x rnd {} b"
  shows "fst (cancel_order oid b) = has_key (pending b) oid \<and>
    book_inv_x rnd {} (snd (cancel_order oid b)) \<and>
    (\<forall>k. dget (pending (snd (cancel_order oid b))) k =
       (if k \<in> removed_with oid False b then None else dget (pending b) k))"
proof (cases "dget (pending b) oid")
  case None
  with assms show ?thesis by (simp add: cancel_order_def removed_with_def has_key_def)
next
  case (Some po)
  have popped: "book_inv_x rnd {} (pop oid b)" by (rule pop_inv [OF assms])
  show ?thesis
  proof (cases "parent_key po")
    case parent: (Some p)
    with Some have "cancel_order oid b = (True, maybe_evict_resolved_parent p (pop oid b))"
      by (simp add: cancel_order_def pop_def)
    with evict_inv [OF popped] Some parent show ?thesis by (simp add: removed_with_def has_key_def)
  next
    case None
    let ?c = "forget_parent oid (pop oid b)"
    let ?rm = "\<lambda>k b. snd (remove_order k False b)"
    have run: "cancel_order oid b =
        (True, fold (\<lambda>c. ?rm (po_id c)) (fst (scan_children oid ?c)) (snd (scan_children oid ?c)))"
      using Some None by (simp add: cancel_order_def pop_def cascade_cancel_children_def split: prod.split)
    have rm: "?rm k b = maybe_evict_resolved_parent p (pop k b)"
      if "dget (pending b) k = Some po" "parent_key po = Some p" for b k po p
    proof -
      from that(1) obtain n where "length (pending b) = Suc n" by (cases "pending b") auto
      with that show ?thesis by (simp add: remove_order_def pop_def)
    qed
    have c: "book_inv_x rnd {} (snd (cancel_order oid b)) \<and>
      (\<forall>k. dget (pending (snd (cancel_order oid b))) k =
        (if k \<in> leg_ids oid (pop oid b) then None else dget (pending (pop oid b)) k))"
      unfolding run snd_conv by (rule cascade_correct [OF popped]) (simp, rule rm)
    have "removed_with oid False b = insert oid (leg_ids oid b)"
      using Some None by (simp add: removed_with_def)
    moreover have "fst (cancel_order oid b) = has_key (pending b) oid"
      using run Some by (simp add: has_key_def)
    ultimately show ?thesis using c unfolding not_own_leg [OF Some None] by simp
  qed
qed

section \<open>Submission\<close>

lemma order_name_inject [simp]: "order_name m = order_name n \<longleftrightarrow> m = n"
  by (simp add: order_name_def)

lemma fresh_name: "\<not> issued b (order_name (next_id b + 1))"
  by (simp add: issued_def)

lemma issued_next: "next_id b' = next_id b + 1 \<Longrightarrow> issued b' k \<longleftrightarrow> issued b k \<or> k = order_name (next_id b + 1)"
  by (auto simp: issued_def le_Suc_eq)

lemma new_order_simps [simp]:
  "po_id (new_order oid r ts e a) = oid" "request (new_order oid r ts e a) = r"
  "remaining_qty (new_order oid r ts e a) = qty r" "original_qty (new_order oid r ts e a) = qty r"
  "cumulative_filled_qty (new_order oid r ts e a) = 0" "submitted_at (new_order oid r ts e a) = ts"
  "original_submitted_at (new_order oid r ts e a) = ts" "armed (new_order oid r ts e a) = a"
  by (simp_all add: new_order_def)

text \<open>A fresh order under the next id, listed under its symbol and, for a child, its parent.\<close>

lemma insert_inv:
  assumes inv: "book_inv_x rnd {} b" and b': "next_id b' = next_id b + 1"
    and p: "pending b' = dset (pending b) (order_name (next_id b + 1)) po"
    and id: "po_id po = order_name (next_id b + 1)" and q: "qty_ok rnd po"
    and bs: "by_symbol b' = push (by_symbol b) (symbol (request po)) (order_name (next_id b + 1))"
    and bp: "by_parent b' = (case parent_key po of None \<Rightarrow> by_parent b
               | Some pa \<Rightarrow> push (by_parent b) pa (order_name (next_id b + 1)))"
    and kn: "known_top_level b' = known_top_level b \<or>
             (\<exists>m. known_top_level b' = dset (known_top_level b) (order_name (next_id b + 1)) m \<and> parent_key po = None)"
    and leg: "\<And>pa. parent_key po = Some pa \<Longrightarrow> pa \<noteq> [] \<and> leg_ok b po pa"
  shows "book_inv_x rnd {} b'"
proof (rule book_inv_xI)
  let ?k = "order_name (next_id b + 1)"
  note i = indexes_okD [OF book_inv_xD(1) [OF inv]]
  have new: "dget (pending b) ?k = None" and new_known: "dget (known_top_level b) ?k = None"
    using i(3,4) [of ?k] fresh_name [of b] unfolding has_key_def by blast+
  have notin: "?k \<notin> set (bucket (by_symbol b) s)" "?k \<notin> set (bucket (by_parent b) s)" for s
    using i(5,6) fresh_name [of b] by blast+
  note iss = issued_next [OF b']
  have "index_ok (pending b') (by_symbol b') symbol_key"
    unfolding p bs by (rule index_ok_push [OF i(7) new notin(1)]) simp
  moreover have "index_ok (pending b') (by_parent b') parent_key"
    unfolding p bp using index_ok_unlisted [OF i(8) new notin(2), of po]
      index_ok_push [OF i(8) new notin(2), of po] by (cases "parent_key po") simp_all
  moreover have "ids_match (pending b')" using i(2) id by (simp add: ids_match_def p)
  moreover have "\<forall>k. has_key (pending b') k \<longrightarrow> issued b' k" using i(3) by (auto simp: p has_key_dset iss)
  moreover have "\<forall>k. has_key (known_top_level b') k \<longrightarrow> issued b' k"
    using i(4) kn by (auto simp: has_key_dset iss)
  moreover have "\<forall>s. \<forall>k \<in> set (bucket (by_symbol b') s). issued b' k"
    using i(5) by (auto simp: bs iss)
  moreover have "\<forall>s. \<forall>k \<in> set (bucket (by_parent b') s). issued b' k"
    using i(6) by (auto simp: bp iss split: option.splits)
  ultimately show "indexes_ok b'" using i(1) unfolding indexes_ok_def by (simp add: p)
  have legs: "leg_ok b' po' q" if "leg_ok b po' q" for po' q
    using that kn new_known by (auto simp: leg_ok_def)
  have "parent_key po' = None"
    if k: "dget (known_top_level b') k = Some m" "dget (pending b') k = Some po'" for k m po'
  proof (cases "k = ?k")
    case True
    with k kn new_known show ?thesis by (auto simp: p)
  next
    case False
    with k kn have "dget (known_top_level b) k = Some m" "dget (pending b) k = Some po'" by (auto simp: p)
    with book_inv_xD(2) [OF inv] show ?thesis unfolding brackets_ok_def by blast
  qed
  with book_inv_xD(2) [OF inv] leg legs show "brackets_ok {} b'"
    unfolding brackets_ok_def by (simp add: p; blast)
  from book_inv_xD(3) [OF inv] q show "quantities_ok rnd b'" by (simp add: quantities_ok_def p)
qed

lemma submit_inv:
  assumes inv: "book_inv_x rnd {} b" and "0 < qty r" and "rnd 0 = 0"
    and "submit r ts equity expect b = Inr (po, b')"
  shows "book_inv_x rnd {} b'"
proof (rule insert_inv [OF inv, where po = po])
  from assms(4) have r: "parent_order_id r = None"
    and po: "po = new_order (order_name (next_id b + 1)) r ts equity True"
    and b': "b' = b\<lparr>next_id := next_id b + 1, pending := dset (pending b) (order_name (next_id b + 1)) po,
        known_top_level := (if expect
          then dset (known_top_level b) (order_name (next_id b + 1)) \<lparr>meta_symbol = symbol r, meta_side = side r\<rparr>
          else known_top_level b),
        by_symbol := push (by_symbol b) (symbol r) (order_name (next_id b + 1))\<rparr>"
    by (auto simp: submit_def Let_def split: if_splits)
  show "qty_ok rnd po" using assms(2,3) by (simp add: qty_ok_def po)
qed (insert assms(4), auto simp: submit_def Let_def split: if_splits)

lemma submit_attached_inv:
  assumes inv: "book_inv_x rnd {} b" and "0 < qty r" and "rnd 0 = 0"
    and "submit_attached r ts equity parent oco b = Inr (po, b')"
  shows "book_inv_x rnd {} b'"
proof (rule insert_inv [OF inv, where po = po])
  let ?k = "order_name (next_id b + 1)"
  from assms(4) obtain m where m: "dget (known_top_level b) parent = Some m" "symbol r = meta_symbol m"
      "side r \<noteq> meta_side m" "parent \<noteq> []"
    and po: "po = new_order ?k (r\<lparr>parent_order_id := Some parent, oco_group_id := Some oco\<rparr>) ts equity
               (\<not> has_key (pending b) parent)"
    and b': "b' = b\<lparr>next_id := next_id b + 1, pending := dset (pending b) ?k po,
        by_symbol := push (by_symbol b) (symbol r) ?k, by_parent := push (by_parent b) parent ?k\<rparr>"
    by (auto simp: submit_attached_def Let_def split: if_splits option.splits)
  show "qty_ok rnd po" using assms(2,3) by (simp add: qty_ok_def po)
  show "next_id b' = next_id b + 1" "pending b' = dset (pending b) ?k po" "po_id po = ?k"
    "by_symbol b' = push (by_symbol b) (symbol (request po)) ?k"
    "by_parent b' = (case parent_key po of None \<Rightarrow> by_parent b | Some pa \<Rightarrow> push (by_parent b) pa ?k)"
    "known_top_level b' = known_top_level b \<or>
      (\<exists>m. known_top_level b' = dset (known_top_level b) ?k m \<and> parent_key po = None)"
    by (simp_all add: b' po)
  show "pa \<noteq> [] \<and> leg_ok b po pa" if "parent_key po = Some pa" for pa
    using that m by (simp add: po leg_ok_def)
qed

section \<open>Partial fills\<close>

definition requeue_result :: "(rat \<Rightarrow> rat) \<Rightarrow> string \<Rightarrow> rat \<Rightarrow> pynum option \<Rightarrow> pending_order \<Rightarrow> pending_order" where
  "requeue_result rnd ts q slices po =
     po\<lparr>submitted_at := ts, remaining_qty := q, cumulative_filled_qty := rnd (original_qty po - q),
        twap_slices_remaining := slices_val slices\<rparr>"

lemma requeue_result_simps [simp]:
  "request (requeue_result rnd ts q sl po) = request po" "po_id (requeue_result rnd ts q sl po) = po_id po"
  "remaining_qty (requeue_result rnd ts q sl po) = q"
  "original_qty (requeue_result rnd ts q sl po) = original_qty po"
  "cumulative_filled_qty (requeue_result rnd ts q sl po) = rnd (original_qty po - q)"
  by (simp_all add: requeue_result_def)

lemma requeue_Inr:
  assumes "requeue rnd oid nq ts slices filled b = Inr (po', b')"
  obtains po q0 q where "dget (pending b) oid = Some po" "finite_real nq = Inr q0"
    "q = clamp_residual rnd (original_qty po) q0" "\<not> ts_lt ts (submitted_at po)" "0 \<le> q"
    "q \<le> remaining_qty po" "slices_ok slices" "po' = requeue_result rnd ts q slices po"
    "b' = (if q = 0 then snd (remove_order oid filled (b\<lparr>pending := dset (pending b) oid po'\<rparr>))
           else b\<lparr>pending := dset (pending b) oid po'\<rparr>)"
proof (cases "dget (pending b) oid")
  case None
  with assms have False by (simp add: requeue_def)
  then show thesis ..
next
  case (Some po)
  show thesis
  proof (cases "finite_real nq")
    case (Inl e)
    with assms Some have False by (simp add: requeue_def)
    then show thesis ..
  next
    case (Inr q0)
    let ?q = "clamp_residual rnd (original_qty po) q0"
    have ok: "\<not> ts_lt ts (submitted_at po)" "\<not> ?q < 0" "\<not> remaining_qty po < ?q" "slices_ok slices"
      using assms Some Inr by (simp_all add: requeue_def Let_def split: if_splits)
    with assms Some Inr have "po' = requeue_result rnd ts ?q slices po"
      "b' = (if ?q = 0 then snd (remove_order oid filled (b\<lparr>pending := dset (pending b) oid po'\<rparr>))
           else b\<lparr>pending := dset (pending b) oid po'\<rparr>)"
      by (auto simp: requeue_def Let_def requeue_result_def)
    note res = this
    have "0 \<le> ?q" "?q \<le> remaining_qty po" using ok(2,3) by simp_all
    from that [OF Some Inr refl ok(1) this ok(4) res] show thesis .
  qed
qed

lemma replace_inv:
  assumes inv: "book_inv_x rnd {} b" and k: "dget (pending b) k = Some po"
    and "request po' = request po" and "po_id po' = po_id po" and "qty_ok rnd po'"
  shows "book_inv_x rnd {} (b\<lparr>pending := dset (pending b) k po'\<rparr>)"
proof (rule book_inv_xI)
  let ?b = "b\<lparr>pending := dset (pending b) k po'\<rparr>"
  note i = indexes_okD [OF book_inv_xD(1) [OF inv]]
  have iss: "issued ?b = issued b" by (rule issued_cong) simp
  have has: "has_key (dset (pending b) k po') = has_key (pending b)"
    using k by (auto simp: has_key_def fun_eq_iff)
  have "ids_match (dset (pending b) k po')" using i(2) k assms(4) by (auto simp: ids_match_def)
  with i(1,3-6) index_ok_replace [OF i(7) k _ i(1)] index_ok_replace [OF i(8) k _ i(1)] assms(3)
  show "indexes_ok ?b" unfolding indexes_ok_def iss by (simp add: has)
  have leg: "leg_ok ?b q p = leg_ok b q p" for q p by (simp add: leg_ok_def)
  have "leg_ok b po' p = leg_ok b po p" for p using assms(3) by (simp add: leg_ok_def)
  with book_inv_xD(2) [OF inv] k assms(3) show "brackets_ok {} ?b"
    unfolding brackets_ok_def leg by auto
  from book_inv_xD(3) [OF inv] assms(5) show "quantities_ok rnd ?b" by (simp add: quantities_ok_def)
qed

lemma remove_order_replaced:
  assumes "dget (pending b) k = Some po" and "request po' = request po"
  shows "snd (remove_order k filled (b\<lparr>pending := dset (pending b) k po'\<rparr>)) = snd (remove_order k filled b)"
proof -
  have len: "length (dset (pending b) k po') = length (pending b)"
    using assms(1) by (metis dset_keys_old length_map option.distinct(1))
  have del: "ddel (dset d k po') k = ddel d k"
    for d :: "(string, pending_order) pydict" by (induction d) (auto simp: ddel_filter)
  obtain n where "length (pending b) = Suc n" using assms(1) by (cases "pending b") auto
  with assms len del show ?thesis by (simp add: remove_order_def)
qed

lemma requeue_inv:
  assumes inv: "book_inv_x rnd {} b" and r: "requeue rnd oid nq ts slices filled b = Inr (po', b')"
  shows "book_inv_x rnd {} b'"
proof -
  from r obtain po q where po: "dget (pending b) oid = Some po" and q: "0 \<le> q" "q \<le> remaining_qty po"
    and po': "po' = requeue_result rnd ts q slices po"
    and b': "b' = (if q = 0 then snd (remove_order oid filled (b\<lparr>pending := dset (pending b) oid po'\<rparr>))
               else b\<lparr>pending := dset (pending b) oid po'\<rparr>)"
    by (rule requeue_Inr)
  show ?thesis
  proof (cases "q = 0")
    case True
    with b' remove_order_replaced [OF po, of po' filled] po' have "b' = snd (remove_order oid filled b)" by simp
    with remove_order_correct [OF inv] show ?thesis by blast
  next
    case False
    from book_inv_xD(3) [OF inv] po have "qty_ok rnd po" by (simp add: quantities_ok_def)
    with q False have "qty_ok rnd po'" by (simp add: po' qty_ok_def)
    with replace_inv [OF inv po, of po'] False b' po' show ?thesis by simp
  qed
qed

end
