(* ===== verification/OrderBookProps.thy ===== *)
theory OrderBookProps
  imports OrderBookInv
begin

text \<open>
  The order book as a machine of its public methods, its invariant in every reachable state, and
  what each method does there.
\<close>

section \<open>The loops\<close>

lemma removed_with_child:
  "dget (pending b) k = Some po \<Longrightarrow> parent_key po \<noteq> None \<Longrightarrow> removed_with k filled b = {k}"
  by (auto simp: removed_with_def)

definition sibling :: "string \<Rightarrow> string \<Rightarrow> string \<Rightarrow> order_book \<Rightarrow> string \<Rightarrow> bool" where
  "sibling oco parent keep b k \<longleftrightarrow>
     k \<noteq> keep \<and> (case dget (pending b) k of None \<Rightarrow> False | Some po \<Rightarrow> in_bracket oco parent po)"

lemma oco_loop_correct:
  "book_inv rnd b \<Longrightarrow> distinct oids \<Longrightarrow> \<forall>k \<in> set oids. has_key (pending b) k \<Longrightarrow>
   \<exists>b'. oco_loop oco keep parent oids b acc = Inr (acc @ filter (sibling oco parent keep b) oids, b') \<and>
     book_inv rnd b' \<and>
     (\<forall>k. dget (pending b') k =
        (if k \<in> set oids \<and> sibling oco parent keep b k then None else dget (pending b) k))"
proof (induction oids arbitrary: b acc)
  case (Cons k ks)
  from Cons.prems(3) obtain po where po: "dget (pending b) k = Some po" by (auto simp: has_key_def)
  show ?case
  proof (cases "sibling oco parent keep b k")
    case True
    let ?b = "snd (remove_order k False b)"
    from True po have br: "in_bracket oco parent po" "k \<noteq> keep" by (simp_all add: sibling_def)
    have rw: "removed_with k False b = {k}"
      using removed_with_child [OF po] br(1) by (simp add: in_bracket_def)
    from remove_order_correct [OF Cons.prems(1), of k False]
    have inv: "book_inv rnd ?b" and look: "\<And>j. dget (pending ?b) j = (if j = k then None else dget (pending b) j)"
      unfolding rw by auto
    have "\<forall>j \<in> set ks. has_key (pending ?b) j"
      using Cons.prems(2,3) by (auto simp: has_key_def look)
    from Cons.IH [OF inv _ this, of "acc @ [k]"] Cons.prems(2) obtain b' where
      b': "oco_loop oco keep parent ks ?b (acc @ [k]) =
          Inr ((acc @ [k]) @ filter (sibling oco parent keep ?b) ks, b')" "book_inv rnd b'"
        "\<And>j. dget (pending b') j = (if j \<in> set ks \<and> sibling oco parent keep ?b j then None else dget (pending ?b) j)"
      by auto
    have sib: "sibling oco parent keep ?b j = sibling oco parent keep b j" if "j \<noteq> k" for j
      using that by (simp add: sibling_def look)
    have ne: "j \<noteq> k" if "j \<in> set ks" for j using Cons.prems(2) that by auto
    have "filter (sibling oco parent keep ?b) ks = filter (sibling oco parent keep b) ks"
      by (rule filter_cong [OF refl]) (simp only: sib [OF ne])
    with b'(1) po br True have "oco_loop oco keep parent (k # ks) b acc =
        Inr (acc @ filter (sibling oco parent keep b) (k # ks), b')" by simp
    moreover have "dget (pending b') j =
        (if j \<in> set (k # ks) \<and> sibling oco parent keep b j then None else dget (pending b) j)" for j
      using b'(3) [of j] sib [of j] look [of j] True Cons.prems(2) by (cases "j = k") auto
    ultimately show ?thesis using b'(2) by blast
  next
    case False
    with po have "\<not> (in_bracket oco parent po \<and> k \<noteq> keep)" by (auto simp: sibling_def)
    then have "oco_loop oco keep parent (k # ks) b acc = oco_loop oco keep parent ks b acc"
      by (simp only: oco_loop.simps po option.case if_False)
    with Cons.IH [OF Cons.prems(1), of acc] Cons.prems(2,3) False show ?thesis by auto
  qed
qed simp

definition unfilled :: "pending_order \<Rightarrow> bool" where
  "unfilled po \<longleftrightarrow> \<not> 0 < cumulative_filled_qty po"

lemma removed_withD:
  "k \<in> removed_with oid filled b \<Longrightarrow> dget (pending b) k = Some po \<Longrightarrow>
     k = oid \<or> parent_key po = Some oid \<and> \<not> filled"
  by (auto simp: removed_with_def leg_ids_def split: option.splits if_splits)

lemma expire_loop_correct:
  "book_inv rnd b \<Longrightarrow> expire_loop today oids b acc = (ex, b') \<Longrightarrow>
   book_inv rnd b' \<and> (\<exists>new. ex = acc @ new \<and>
     (\<forall>po \<in> set new. expires today po \<and> dget (pending b) (po_id po) = Some po) \<and>
     (\<forall>k po. dget (pending b') k = Some po \<longrightarrow>
        dget (pending b) k = Some po \<and> (k \<in> set oids \<longrightarrow> \<not> expires today po)) \<and>
     (\<forall>k po. dget (pending b) k = Some po \<longrightarrow> dget (pending b') k = None \<longrightarrow>
        po \<in> set new \<or> (\<exists>q \<in> set new. parent_key po = Some (po_id q) \<and> unfilled q)))"
proof (induction oids arbitrary: b acc)
  case (Cons k ks)
  show ?case
  proof (cases "\<exists>po. dget (pending b) k = Some po \<and> expires today po")
    case False
    then have "expire_loop today ks b acc = (ex, b')"
      using Cons.prems(2) by (auto split: option.splits)
    from Cons.IH [OF Cons.prems(1) this] False show ?thesis by fastforce
  next
    case True
    then obtain po where po: "dget (pending b) k = Some po" "expires today po" by blast
    let ?f = "0 < cumulative_filled_qty po"
    let ?b = "snd (remove_order k ?f b)"
    from po Cons.prems(2) have loop: "expire_loop today ks ?b (acc @ [po]) = (ex, b')" by simp
    from remove_order_correct [OF Cons.prems(1), of k ?f]
    have inv: "book_inv rnd ?b"
      and look: "\<And>j. dget (pending ?b) j = (if j \<in> removed_with k ?f b then None else dget (pending b) j)"
      by auto
    from Cons.IH [OF inv loop] obtain new where
      n: "book_inv rnd b'" "ex = (acc @ [po]) @ new"
        "\<And>q. q \<in> set new \<Longrightarrow> expires today q \<and> dget (pending ?b) (po_id q) = Some q"
        "\<And>j q. dget (pending b') j = Some q \<Longrightarrow> dget (pending ?b) j = Some q \<and> (j \<in> set ks \<longrightarrow> \<not> expires today q)"
        "\<And>j q. dget (pending ?b) j = Some q \<Longrightarrow> dget (pending b') j = None \<Longrightarrow>
           q \<in> set new \<or> (\<exists>r \<in> set new. parent_key q = Some (po_id r) \<and> unfilled r)"
      by blast
    have id: "po_id po = k"
      using indexes_okD(2) [OF book_inv_xD(1) [OF Cons.prems(1)]] po by (simp add: ids_match_def)
    have k: "k \<in> removed_with k ?f b" using po by (simp add: removed_with_def)
    have "dget (pending b) j = Some q" if "dget (pending ?b) j = Some q" for j q
      using that by (simp add: look split: if_splits)
    note old = this
    have "expires today q \<and> dget (pending b) (po_id q) = Some q" if "q \<in> set (po # new)" for q
      using that po id n(3) old by auto
    moreover have "dget (pending b) j = Some q \<and> (j \<in> set (k # ks) \<longrightarrow> \<not> expires today q)"
      if "dget (pending b') j = Some q" for j q
    proof -
      from n(4) [OF that] have q: "dget (pending ?b) j = Some q" "j \<in> set ks \<longrightarrow> \<not> expires today q" by auto
      with k have "j \<noteq> k" by (auto simp: look)
      with q old show ?thesis by simp
    qed
    moreover have "q \<in> set (po # new) \<or> (\<exists>r \<in> set (po # new). parent_key q = Some (po_id r) \<and> unfilled r)"
      if "dget (pending b) j = Some q" "dget (pending b') j = None" for j q
    proof (cases "j \<in> removed_with k ?f b")
      case True
      from removed_withD [OF True that(1)] that(1) po id show ?thesis by (auto simp: unfilled_def)
    next
      case False
      with that n(5) [of j q] show ?thesis by (auto simp: look)
    qed
    ultimately show ?thesis using n(1,2) by (intro conjI exI [of _ "po # new"]) auto
  qed
qed simp

lemma fold_forget:
  fixes ks :: "string list" and b :: order_book
  defines "b' \<equiv> fold (\<lambda>oid b. b\<lparr>known_top_level := ddel (known_top_level b) oid, by_parent := ddel (by_parent b) oid\<rparr>) ks b"
  shows "pending b' = pending b \<and> next_id b' = next_id b \<and> by_symbol b' = by_symbol b \<and>
    (\<forall>k. dget (known_top_level b') k = (if k \<in> set ks then None else dget (known_top_level b) k)) \<and>
    (\<forall>k. bucket (by_parent b') k = (if k \<in> set ks then [] else bucket (by_parent b) k))"
  unfolding b'_def by (induction ks arbitrary: b) auto

lemma prune_correct:
  assumes inv: "book_inv rnd b"
  shows "book_inv rnd (snd (prune_known_top_level_order_ids b)) \<and>
    pending (snd (prune_known_top_level_order_ids b)) = pending b \<and>
    (\<forall>k. dget (known_top_level (snd (prune_known_top_level_order_ids b))) k =
       (if k \<in> set (active_parents b) then dget (known_top_level b) k else None))"
proof -
  let ?ks = "filter (\<lambda>oid. oid \<notin> set (active_parents b)) (dkeys (known_top_level b))"
  let ?b = "snd (prune_known_top_level_order_ids b)"
  have "?b = fold (\<lambda>oid b. b\<lparr>known_top_level := ddel (known_top_level b) oid, by_parent := ddel (by_parent b) oid\<rparr>) ?ks b"
    by (simp add: prune_known_top_level_order_ids_def Let_def)
  with fold_forget [of ?ks b]
  have f: "pending ?b = pending b" "next_id ?b = next_id b" "by_symbol ?b = by_symbol b"
    "\<And>k. dget (known_top_level ?b) k = (if k \<in> set ?ks then None else dget (known_top_level b) k)"
    "\<And>k. bucket (by_parent ?b) k = (if k \<in> set ?ks then [] else bucket (by_parent b) k)" by simp_all
  have known: "dget (known_top_level ?b) k =
      (if k \<in> set (active_parents b) then dget (known_top_level b) k else None)" for k
    using f(4) [of k] dget_None_iff [of "known_top_level b" k] by auto
  have active: "p \<in> set (active_parents b)" if "dget (pending b) k = Some po" "parent_key po = Some p" for k po p
    using dget_in_set [OF that(1)] that(2) by (force simp: active_parents_def)
  note i = indexes_okD [OF book_inv_xD(1) [OF inv]]
  have "issued ?b = issued b" by (rule issued_cong) (rule f(2))
  moreover have "index_ok (pending b) (by_parent ?b) parent_key"
    unfolding index_ok_def
  proof
    fix s show "filter (has_key (pending b)) (bucket (by_parent ?b) s) = live_keys (\<lambda>po. parent_key po = Some s) (pending b)"
    proof (cases "s \<in> set ?ks")
      case True
      then have "live_keys (\<lambda>po. parent_key po = Some s) (pending b) = []"
        using active wf_dict_dget [OF i(1)] by (fastforce simp: filter_empty_conv)
      with True f(5) show ?thesis by simp
    next
      case False
      then have "bucket (by_parent ?b) s = bucket (by_parent b) s" by (simp only: f(5) if_False)
      then show ?thesis by (simp only: index_okD [OF i(8)])
    qed
  qed
  ultimately have "indexes_ok ?b"
    using i f(1,3) unfolding indexes_ok_def by (auto simp: f(5) has_key_def known split: if_splits)
  moreover have "leg_ok ?b po p" if "dget (pending b) k = Some po" "parent_key po = Some p" "leg_ok b po p" for k po p
    using that active [OF that(1,2)] by (simp add: leg_ok_def known)
  then have "brackets_ok {} ?b"
    using book_inv_xD(2) [OF inv] unfolding brackets_ok_def f(1) by (auto simp: known split: if_splits)
  moreover have "quantities_ok rnd ?b"
    using book_inv_xD(3) [OF inv] by (simp add: quantities_ok_def f(1))
  ultimately show ?thesis using f(1) known by (auto intro: book_inv_xI)
qed

section \<open>The machine\<close>

datatype book_op =
    BSubmit order_request string rat bool
  | BAttach order_request string rat string string
  | BCancel string
  | BRemove string bool
  | BRequeue string pynum string "pynum option" bool
  | BOco string string string
  | BPrune
  | BExpire string
  | BPending string
  | BChildren string

fun keep_on_error :: "order_book \<Rightarrow> order_error + ('a \<times> order_book) \<Rightarrow> order_book" where
  "keep_on_error b (Inl e) = b"
| "keep_on_error b (Inr (x, b')) = b'"

fun book_run :: "(rat \<Rightarrow> rat) \<Rightarrow> book_op \<Rightarrow> order_book \<Rightarrow> order_book" where
  "book_run rnd (BSubmit r ts eq ex) b = keep_on_error b (submit r ts eq ex b)"
| "book_run rnd (BAttach r ts eq p oco) b = keep_on_error b (submit_attached r ts eq p oco b)"
| "book_run rnd (BCancel oid) b = snd (cancel_order oid b)"
| "book_run rnd (BRemove oid filled) b = snd (remove_order oid filled b)"
| "book_run rnd (BRequeue oid q ts sl filled) b = keep_on_error b (requeue rnd oid q ts sl filled b)"
| "book_run rnd (BOco oco keep p) b = keep_on_error b (oco_cancel_siblings oco keep p b)"
| "book_run rnd BPrune b = snd (prune_known_top_level_order_ids b)"
| "book_run rnd (BExpire today) b = snd (expire_day_orders today b)"
| "book_run rnd (BPending s) b = snd (pending_for_symbol s b)"
| "book_run rnd (BChildren p) b = keep_on_error b (children_of p b)"

text \<open>The request model's own field check: a positive quantity.\<close>

fun book_ok :: "book_op \<Rightarrow> order_book \<Rightarrow> bool" where
  "book_ok (BSubmit r ts eq ex) b \<longleftrightarrow> 0 < qty r"
| "book_ok (BAttach r ts eq p oco) b \<longleftrightarrow> 0 < qty r"
| "book_ok _ b \<longleftrightarrow> True"

abbreviation book_reachable :: "(rat \<Rightarrow> rat) \<Rightarrow> order_book \<Rightarrow> bool" where
  "book_reachable rnd \<equiv> reachable (\<lambda>b. b = empty_book) (op_step (book_run rnd) book_ok)"

definition rounds_zero :: "(rat \<Rightarrow> rat) \<Rightarrow> bool" where
  "rounds_zero rnd \<longleftrightarrow> rnd 0 = 0"

lemma empty_book_inv: "book_inv rnd empty_book"
  by (simp add: book_inv_x_def indexes_ok_def brackets_ok_def quantities_ok_def empty_book_def
      ids_match_def has_key_def bucket_def index_ok_def)

lemma pending_keys:
  assumes "book_inv rnd b"
  shows "distinct (dkeys (pending b))" "\<forall>k \<in> set (dkeys (pending b)). has_key (pending b) k"
  using indexes_okD(1) [OF book_inv_xD(1) [OF assms]] by (simp_all add: wf_dict_def has_key_iff)

lemma oco_cancel_Inr:
  assumes "oco_cancel_siblings oco keep parent b = Inr (gone, b')"
  shows "oco_loop oco keep parent (dkeys (pending b)) b [] = Inr (gone, b') \<and>
    (\<exists>po. dget (pending b) keep = Some po \<and> in_bracket oco parent po)"
  using assms by (auto simp: oco_cancel_siblings_def split: if_splits option.splits)

lemma oco_cancel_inv:
  assumes "book_inv rnd b" and "oco_cancel_siblings oco keep parent b = Inr (gone, b')"
  shows "book_inv rnd b'"
  using oco_loop_correct [OF assms(1) pending_keys [OF assms(1)], of oco keep parent "[]"]
    oco_cancel_Inr [OF assms(2)] by auto

lemma book_run_inv:
  assumes inv: "book_inv rnd b" and "book_ok l b" and "rounds_zero rnd"
  shows "book_inv rnd (book_run rnd l b)"
proof (cases l)
  case (BSubmit r ts eq ex)
  with assms submit_inv [OF inv, of r ts eq ex] show ?thesis
    by (cases "submit r ts eq ex b") (auto simp: rounds_zero_def)
next
  case (BAttach r ts eq p oco)
  with assms submit_attached_inv [OF inv, of r ts eq p oco] show ?thesis
    by (cases "submit_attached r ts eq p oco b") (auto simp: rounds_zero_def)
next
  case (BRequeue oid q ts sl filled)
  with requeue_inv [OF inv, of oid q ts sl filled] inv show ?thesis
    by (cases "requeue rnd oid q ts sl filled b") auto
next
  case (BOco oco keep p)
  with oco_cancel_inv [OF inv, of oco keep p] inv show ?thesis
    by (cases "oco_cancel_siblings oco keep p b") auto
next
  case (BExpire today)
  obtain ex b' where "expire_loop today (dkeys (pending b)) b [] = (ex, b')" by fastforce
  with expire_loop_correct [OF inv this] BExpire show ?thesis by (simp add: expire_day_orders_def)
next
  case (BChildren p)
  with scan_children_inv [OF inv, of p] inv show ?thesis
    by (cases "scan_children p b") (simp add: children_of_def)
qed (use cancel_order_correct [OF inv] remove_order_correct [OF inv] prune_correct [OF inv]
    pending_for_symbol_inv [OF inv] in simp_all)

lemma book_reachable_inv:
  assumes "rounds_zero rnd" and "book_reachable rnd b"
  shows "book_inv rnd b"
  using assms(2)
proof (induction rule: reachable.induct)
  case (reach_init b)
  then show ?case by (simp add: empty_book_inv)
next
  case (reach_step b b')
  then show ?case using assms(1) by (auto simp: op_step_def intro: book_run_inv)
qed

text \<open>With exact arithmetic the machine is an instance of the invariant contract.\<close>

interpretation exact_book:
  invariant_system "\<lambda>b. b = empty_book" "op_step (book_run id) book_ok" "book_inv id"
  by unfold_locales (auto simp: op_step_def empty_book_inv rounds_zero_def intro!: book_run_inv)

section \<open>Properties\<close>

text \<open>C9. In every reachable state the two indexes answer exactly: whatever tombstones their
  buckets carry, the orders read for a symbol are the pending orders on it, in submission order,
  and the children read for a parent are its pending children.\<close>

theorem index_reads_are_exact:
  assumes "rounds_zero rnd" and "book_reachable rnd b"
  shows "fst (pending_for_symbol s b) = filter (\<lambda>po. symbol (request po) = s) (all_pending b) \<and>
         (p \<noteq> [] \<longrightarrow> (\<exists>b'. children_of p b =
            Inr (filter (\<lambda>po. parent_order_id (request po) = Some p) (all_pending b), b')))"
proof -
  have inv: "book_inv rnd b" by (rule book_reachable_inv [OF assms])
  note i = indexes_okD [OF book_inv_xD(1) [OF inv]]
  from scan_live [OF i(7,1), of s] scan_children_live [OF inv, of p] show ?thesis
    by (simp add: pending_for_symbol_eq all_pending_def children_of_def scan_children_eq)
qed

text \<open>No orphan protective leg, ever: a pending bracket child's parent is registered, on the
  child's symbol and the opposite side, and a registered order that is pending is top-level, so
  brackets stay one level deep.\<close>

theorem no_orphan_legs:
  assumes "rounds_zero rnd" and "book_reachable rnd b" and "dget (pending b) k = Some po"
  shows "(case parent_order_id (request po) of
            None \<Rightarrow> True
          | Some p \<Rightarrow> (case dget (known_top_level b) p of
              None \<Rightarrow> False
            | Some m \<Rightarrow> meta_symbol m = symbol (request po) \<and> meta_side m \<noteq> side (request po)) \<and>
              (case dget (pending b) p of
                None \<Rightarrow> True | Some parent \<Rightarrow> parent_order_id (request parent) = None))"
proof -
  have br: "brackets_ok {} b" by (rule book_inv_xD(2) [OF book_reachable_inv [OF assms(1,2)]])
  show ?thesis
  proof (cases "parent_key po")
    case (Some p)
    with br assms(3) have "leg_ok b po p" unfolding brackets_ok_def by blast
    then obtain m where m: "dget (known_top_level b) p = Some m"
      "symbol (request po) = meta_symbol m" "side (request po) \<noteq> meta_side m"
      by (auto simp: leg_ok_def)
    with br have "parent_key q = None" if "dget (pending b) p = Some q" for q
      using that unfolding brackets_ok_def by blast
    with m Some show ?thesis by (auto split: option.split)
  qed simp
qed

text \<open>Cancelling succeeds exactly on a pending order and removes it, together with its pending
  legs when it is a top-level order, and nothing else.\<close>

theorem cancel_removes_order_and_legs:
  assumes "rounds_zero rnd" and "book_reachable rnd b"
  shows "fst (cancel_order oid b) = contains oid b \<and>
    dget (pending (snd (cancel_order oid b))) k =
      (case dget (pending b) oid of
         None \<Rightarrow> dget (pending b) k
       | Some po \<Rightarrow>
           if k = oid \<or> (parent_order_id (request po) = None \<and>
                (\<exists>c. dget (pending b) k = Some c \<and> parent_order_id (request c) = Some oid))
           then None else dget (pending b) k)"
proof -
  note c = cancel_order_correct [OF book_reachable_inv [OF assms], of oid]
  then have "dget (pending (snd (cancel_order oid b))) k =
      (if k \<in> removed_with oid False b then None else dget (pending b) k)" by blast
  moreover have "k \<in> removed_with oid False b \<longleftrightarrow> (case dget (pending b) oid of None \<Rightarrow> False
      | Some po \<Rightarrow> k = oid \<or> (parent_key po = None \<and> (\<exists>c. dget (pending b) k = Some c \<and> parent_key c = Some oid)))"
    by (auto simp: removed_with_def leg_ids_def split: option.split)
  ultimately show ?thesis using c by (auto simp: contains_def split: option.split)
qed

text \<open>A partial fill that is accepted only shrinks the remainder, never past zero, keeps filled
  plus remaining equal to the original up to one rounding, never moves the clock back, and drops
  the order from the book exactly when nothing remains.\<close>

theorem requeue_keeps_accounts:
  assumes "rounds_zero rnd" and "book_reachable rnd b"
    and "requeue rnd oid nq ts slices filled b = Inr (po', b')"
  shows "\<exists>po. dget (pending b) oid = Some po \<and> 0 \<le> remaining_qty po' \<and>
    remaining_qty po' \<le> remaining_qty po \<and> original_qty po' = original_qty po \<and>
    cumulative_filled_qty po' = rnd (original_qty po - remaining_qty po') \<and>
    submitted_at po' = ts \<and> \<not> ts_lt ts (submitted_at po) \<and>
    dget (pending b') oid = (if remaining_qty po' = 0 then None else Some po')"
proof -
  have inv: "book_inv rnd b" by (rule book_reachable_inv [OF assms(1,2)])
  from assms(3) obtain po q where po: "dget (pending b) oid = Some po" and q: "0 \<le> q" "q \<le> remaining_qty po"
    and ts: "\<not> ts_lt ts (submitted_at po)"
    and po': "po' = requeue_result rnd ts q slices po"
    and b': "b' = (if q = 0 then snd (remove_order oid filled (b\<lparr>pending := dset (pending b) oid po'\<rparr>))
               else b\<lparr>pending := dset (pending b) oid po'\<rparr>)"
    by (rule requeue_Inr)
  have "dget (pending b') oid = (if q = 0 then None else Some po')"
  proof (cases "q = 0")
    case True
    with b' remove_order_replaced [OF po, of po' filled] po' have "b' = snd (remove_order oid filled b)" by simp
    moreover have "oid \<in> removed_with oid filled b" using po by (simp add: removed_with_def)
    ultimately show ?thesis using True remove_order_correct [OF inv, of oid filled] by simp
  qed (simp add: b')
  with po q ts po' show ?thesis by (simp add: requeue_result_def)
qed

text \<open>Cancelling a leg's siblings never fails half-way: given a surviving pending leg of the
  bracket it removes exactly the other pending orders of the same group and parent, reports their
  ids in submission order, and keeps the survivor and every other order.\<close>

theorem oco_cancels_exactly_siblings:
  assumes "rounds_zero rnd" and "book_reachable rnd b"
    and "oco \<noteq> []" and "parent \<noteq> []" and "keep \<noteq> []"
    and "dget (pending b) keep = Some survivor" and "in_bracket oco parent survivor"
  shows "\<exists>b'. oco_cancel_siblings oco keep parent b =
      Inr (map fst (filter (\<lambda>(k, po). k \<noteq> keep \<and> in_bracket oco parent po) (pending b)), b') \<and>
    dget (pending b') = (\<lambda>k. case dget (pending b) k of
      None \<Rightarrow> None | Some po \<Rightarrow> if k \<noteq> keep \<and> in_bracket oco parent po then None else Some po)"
proof -
  have inv: "book_inv rnd b" by (rule book_reachable_inv [OF assms(1,2)])
  have loop: "oco_cancel_siblings oco keep parent b = oco_loop oco keep parent (dkeys (pending b)) b []"
    using assms(3-7) by (simp add: oco_cancel_siblings_def)
  from oco_loop_correct [OF inv pending_keys [OF inv], of oco keep parent "[]"] obtain b' where
    b': "oco_cancel_siblings oco keep parent b = Inr (filter (sibling oco parent keep b) (dkeys (pending b)), b')"
      "\<And>k. dget (pending b') k =
        (if k \<in> set (dkeys (pending b)) \<and> sibling oco parent keep b k then None else dget (pending b) k)"
    unfolding loop by auto
  have sib: "sibling oco parent keep b k = (k \<noteq> keep \<and> in_bracket oco parent po)"
    if "(k, po) \<in> set (pending b)" for k po
    using wf_dict_dget [OF indexes_okD(1) [OF book_inv_xD(1) [OF inv]] that] by (simp add: sibling_def)
  have "filter (sibling oco parent keep b) (dkeys (pending b)) =
      map fst (filter (\<lambda>kv. sibling oco parent keep b (fst kv)) (pending b))"
    by (simp add: filter_map comp_def)
  also have "filter (\<lambda>kv. sibling oco parent keep b (fst kv)) (pending b) =
      filter (\<lambda>(k, po). k \<noteq> keep \<and> in_bracket oco parent po) (pending b)"
    by (rule filter_cong) (use sib in auto)
  finally have "filter (sibling oco parent keep b) (dkeys (pending b)) =
      map fst (filter (\<lambda>(k, po). k \<noteq> keep \<and> in_bracket oco parent po) (pending b))" .
  moreover have "dget (pending b') k = (case dget (pending b) k of
      None \<Rightarrow> None | Some po \<Rightarrow> if k \<noteq> keep \<and> in_bracket oco parent po then None else Some po)" for k
    unfolding b'(2) in_dkeys_iff by (simp add: sibling_def split: option.split)
  ultimately show ?thesis using b'(1) by (intro exI [of _ b']) auto
qed

text \<open>The end-of-day sweep leaves no order that should have expired, reports only orders that
  did expire, and every other order it took with it was a leg of a reported order that had not
  filled at all.\<close>

theorem expiry_sweep_exact:
  assumes "rounds_zero rnd" and "book_reachable rnd b" and "expire_day_orders today b = (gone, b')"
  shows "(\<forall>po \<in> set gone. expires today po \<and> dget (pending b) (po_id po) = Some po) \<and>
    (\<forall>k po. dget (pending b) k = Some po \<longrightarrow>
       dget (pending b') k = Some po \<and> \<not> expires today po \<or>
       dget (pending b') k = None \<and>
         (po \<in> set gone \<or>
          (\<exists>q \<in> set gone. parent_order_id (request po) = Some (po_id q) \<and> \<not> 0 < cumulative_filled_qty q)))"
proof -
  have inv: "book_inv rnd b" by (rule book_reachable_inv [OF assms(1,2)])
  from assms(3) have loop: "expire_loop today (dkeys (pending b)) b [] = (gone, b')"
    by (simp add: expire_day_orders_def)
  from expire_loop_correct [OF inv loop]
  have gone: "\<And>po. po \<in> set gone \<Longrightarrow> expires today po \<and> dget (pending b) (po_id po) = Some po"
    and kept: "\<And>k po. dget (pending b') k = Some po \<Longrightarrow>
        dget (pending b) k = Some po \<and> (k \<in> set (dkeys (pending b)) \<longrightarrow> \<not> expires today po)"
    and lost: "\<And>k po. dget (pending b) k = Some po \<Longrightarrow> dget (pending b') k = None \<Longrightarrow>
        po \<in> set gone \<or> (\<exists>q \<in> set gone. parent_key po = Some (po_id q) \<and> unfilled q)"
    by auto
  have "dget (pending b') k = Some po \<and> \<not> expires today po \<or> dget (pending b') k = None \<and>
      (po \<in> set gone \<or> (\<exists>q \<in> set gone. parent_key po = Some (po_id q) \<and> \<not> 0 < cumulative_filled_qty q))"
    if k: "dget (pending b) k = Some po" for k po
  proof (cases "dget (pending b') k")
    case None
    with lost [OF k] show ?thesis by (simp add: unfilled_def)
  next
    case (Some po2)
    moreover have "k \<in> set (dkeys (pending b))" using k in_dkeys_iff by fast
    ultimately show ?thesis using kept [OF Some] k by simp
  qed
  with gone show ?thesis by blast
qed

text \<open>Pruning touches no pending order and forgets exactly the registrations nobody needs: a
  registration survives iff its order is pending or a pending child names it.\<close>

theorem prune_keeps_needed_registrations:
  assumes "rounds_zero rnd" and "book_reachable rnd b"
  shows "pending (snd (prune_known_top_level_order_ids b)) = pending b \<and>
    dget (known_top_level (snd (prune_known_top_level_order_ids b))) k =
      (if (\<exists>po. po \<in> set (all_pending b) \<and> (parent_order_id (request po) = Some k \<or>
            parent_order_id (request po) = None \<and> po_id po = k))
       then dget (known_top_level b) k else None)"
proof -
  have "k = (case parent_key po of None \<Rightarrow> po_id po | Some p \<Rightarrow> p) \<longleftrightarrow>
      parent_key po = Some k \<or> parent_key po = None \<and> po_id po = k" for po
    by (cases "parent_key po") auto
  then have "k \<in> set (active_parents b) \<longleftrightarrow> (\<exists>po. po \<in> set (all_pending b) \<and>
      (parent_key po = Some k \<or> parent_key po = None \<and> po_id po = k))"
    by (simp only: active_parents_def all_pending_def set_map image_iff Bex_def)
  with prune_correct [OF book_reachable_inv [OF assms]] show ?thesis by simp
qed

section \<open>Witnesses\<close>

text \<open>An entry that expects brackets, then its stop and its target.\<close>

definition demo_entry :: order_request where
  "demo_entry = market_request ''AAA'' LONG 10"

definition demo_stop :: order_request where
  "demo_stop = (market_request ''AAA'' SHORT 10)\<lparr>order_type := STOP, stop_price := Some 90, tif := GTC\<rparr>"

definition demo_target :: order_request where
  "demo_target = (market_request ''AAA'' SHORT 10)\<lparr>order_type := LIMIT, limit_price := Some 120, tif := GTC\<rparr>"

definition demo_book_ops :: "book_op list" where
  "demo_book_ops =
     [BSubmit demo_entry ''2024-01-02'' 1000 True,
      BAttach demo_stop ''2024-01-02'' 1000 ''o1'' ''g'',
      BAttach demo_target ''2024-01-02'' 1000 ''o1'' ''g'']"

definition demo_book :: order_book where
  "demo_book = run_ops (book_run id) demo_book_ops empty_book"

definition demo_leg :: "string \<Rightarrow> order_request \<Rightarrow> pending_order" where
  "demo_leg oid r = new_order oid (r\<lparr>parent_order_id := Some ''o1'', oco_group_id := Some ''g''\<rparr>)
     ''2024-01-02'' 1000 False"

definition demo_parent :: pending_order where
  "demo_parent = new_order ''o1'' demo_entry ''2024-01-02'' 1000 True"

lemma demo_names: "order_name (Suc 0) = ''o1''" "order_name (Suc (Suc 0)) = ''o2''"
  "order_name (Suc (Suc (Suc 0))) = ''o3''"
  by code_simp+

lemma demo_book_eq:
  "demo_book = \<lparr>next_id = 3,
     pending = [(''o1'', demo_parent), (''o2'', demo_leg ''o2'' demo_stop), (''o3'', demo_leg ''o3'' demo_target)],
     by_symbol = [(''AAA'', [''o1'', ''o2'', ''o3''])], by_parent = [(''o1'', [''o2'', ''o3''])],
     known_top_level = [(''o1'', \<lparr>meta_symbol = ''AAA'', meta_side = LONG\<rparr>)]\<rparr>"
  by (simp add: demo_book_def demo_book_ops_def empty_book_def submit_def submit_attached_def Let_def
      demo_names demo_entry_def demo_stop_def demo_target_def market_request_def demo_leg_def demo_parent_def
      push_def bucket_def has_key_def validate_prices_def stop_legs_def check_twap_def fail_if_def)

lemma demo_book_reachable: "book_reachable id demo_book"
proof -
  have "book_reachable id empty_book" by (rule reach_init) simp
  moreover have "ops_ok (book_run id) book_ok demo_book_ops empty_book"
    by (simp add: demo_book_ops_def demo_entry_def demo_stop_def demo_target_def market_request_def)
  ultimately show ?thesis unfolding demo_book_def by (rule reachable_run_ops)
qed

lemma rounds_zero_id: "rounds_zero id"
  by (simp add: rounds_zero_def)

lemmas demo_facts = rounds_zero_id demo_book_reachable
lemmas demo_defs = demo_book_eq demo_leg_def demo_parent_def demo_entry_def demo_stop_def demo_target_def
  market_request_def

theorem index_reads_are_exact_witness:
  "map po_id (fst (pending_for_symbol ''AAA'' demo_book)) = [''o1'', ''o2'', ''o3'']"
  using index_reads_are_exact [OF demo_facts, of "''AAA''" "''o1''"] by (simp add: demo_defs all_pending_def)

theorem no_orphan_legs_witness:
  "map_option meta_side (dget (known_top_level demo_book) ''o1'') = Some LONG"
proof -
  have "dget (pending demo_book) ''o2'' = Some (demo_leg ''o2'' demo_stop)" by (simp add: demo_book_eq)
  from no_orphan_legs [OF demo_facts this] show ?thesis by (simp add: demo_defs)
qed

theorem cancel_removes_order_and_legs_witness:
  "fst (cancel_order ''o1'' demo_book) \<and> dget (pending (snd (cancel_order ''o1'' demo_book))) ''o3'' = None"
  using cancel_removes_order_and_legs [OF demo_facts, of "''o1''" "''o3''"]
  by (simp add: demo_defs contains_def has_key_def)

definition demo_fill :: "order_error + (pending_order \<times> order_book)" where
  "demo_fill = requeue id ''o1'' (PyInt 4) ''2024-01-03'' None True demo_book"

lemma demo_times: "\<not> ts_lt ''2024-01-03'' ''2024-01-02''"
  by code_simp

lemma demo_fill_Inr:
  "\<exists>b'. demo_fill = Inr (requeue_result id ''2024-01-03'' 4 None demo_parent, b')"
  using demo_times
  by (simp add: demo_fill_def requeue_def demo_book_eq clamp_residual_def fill_qty_rel_tol_def demo_parent_def
      demo_entry_def market_request_def requeue_result_def Let_def)

theorem requeue_keeps_accounts_witness:
  "\<exists>po' b'. demo_fill = Inr (po', b') \<and> remaining_qty po' \<le> 10 \<and>
     cumulative_filled_qty po' = 10 - remaining_qty po'"
proof -
  from demo_fill_Inr obtain po' b' where r: "demo_fill = Inr (po', b')" by blast
  from requeue_keeps_accounts [OF demo_facts r [unfolded demo_fill_def]] r show ?thesis
    by (auto simp: demo_defs)
qed

theorem oco_cancels_exactly_siblings_witness:
  "\<exists>b'. oco_cancel_siblings ''g'' ''o2'' ''o1'' demo_book = Inr ([''o3''], b')"
proof -
  have "dget (pending demo_book) ''o2'' = Some (demo_leg ''o2'' demo_stop)" by (simp add: demo_book_eq)
  from oco_cancels_exactly_siblings [OF demo_facts _ _ _ this, of "''g''" "''o1''"] show ?thesis
    by (auto simp: demo_defs in_bracket_def)
qed

theorem expiry_sweep_exact_witness:
  "\<exists>gone b'. expire_day_orders ''2024-01-03'' demo_book = (gone, b') \<and> dget (pending b') ''o1'' = None"
proof -
  obtain gone b' where r: "expire_day_orders ''2024-01-03'' demo_book = (gone, b')" by fastforce
  have "expires ''2024-01-03'' demo_parent" by code_simp
  moreover have "dget (pending demo_book) ''o1'' = Some demo_parent" by (simp add: demo_book_eq)
  ultimately show ?thesis using expiry_sweep_exact [OF demo_facts r] r by blast
qed

theorem prune_keeps_needed_registrations_witness:
  "dget (known_top_level (snd (prune_known_top_level_order_ids demo_book))) ''o1'' =
     Some \<lparr>meta_symbol = ''AAA'', meta_side = LONG\<rparr>"
proof -
  have "dget (known_top_level demo_book) ''o1'' = Some \<lparr>meta_symbol = ''AAA'', meta_side = LONG\<rparr>"
    and p: "demo_parent \<in> set (all_pending demo_book)" "parent_key demo_parent = None" "po_id demo_parent = ''o1''"
    by (simp_all add: demo_defs all_pending_def)
  moreover from p have "\<exists>po. po \<in> set (all_pending demo_book) \<and>
      (parent_key po = Some ''o1'' \<or> parent_key po = None \<and> po_id po = ''o1'')" by blast
  ultimately show ?thesis
    using conjunct2 [OF prune_keeps_needed_registrations [OF demo_facts, of "''o1''"]]
    by (simp only: if_True)
qed

end
