(* ===== verification/JobDb.thy ===== *)
theory JobDb
  imports Json
begin

text \<open>
  The job service's persistence layer (\<^verbatim>\<open>backend/job_service/db.py\<close>) and its table
  (\<^verbatim>\<open>postgres.py\<close>). The table is keyed by (team, job id); each function is one transaction, so one
  atomic step, and a statement that raises leaves the table as it was. SQL is modelled as its
  statements read: \<open>data || x\<close> on objects, \<open>jsonb_set\<close>, array concatenation, text-to-boolean casts,
  NOT NULL. Three things stay open: the cast of a bound value to \<open>timestamptz\<close> (the parameter
  \<open>as_ts\<close>), the server clock (\<open>now\<close>), and row order without a total ORDER BY (table order).
\<close>

section \<open>The table\<close>

record job_row =
  row_status :: string
  row_data :: jdict
  row_created_at :: int
  row_updated_at :: int
  row_heartbeat_at :: int

type_synonym job_key = "string \<times> string"
type_synonym job_table = "(job_key, job_row) pydict"

datatype db_error =
    NotNullViolation string | BadColumnType string | BadCast string
  | NestedIntoScalar string | CancelThroughUpdate

text \<open>A value bound to the text column \<open>status\<close>.\<close>

fun status_column :: "json \<Rightarrow> db_error + string" where
  "status_column (JStr s) = Inr s"
| "status_column JNull = Inl (NotNullViolation ''status'')"
| "status_column _ = Inl (BadColumnType ''status'')"

definition ts_column :: "(json \<Rightarrow> int option) \<Rightarrow> string \<Rightarrow> json \<Rightarrow> db_error + int" where
  "ts_column as_ts col v =
     (if v = JNull then Inl (NotNullViolation col)
      else case as_ts v of None \<Rightarrow> Inl (BadColumnType col) | Some t \<Rightarrow> Inr t)"

fun dbind :: "'e + 'a \<Rightarrow> ('a \<Rightarrow> 'e + 'b) \<Rightarrow> 'e + 'b" where
  "dbind (Inl e) f = Inl e"
| "dbind (Inr x) f = f x"

definition ddels :: "('k, 'v) pydict \<Rightarrow> 'k list \<Rightarrow> ('k, 'v) pydict" where
  "ddels d ks = fold (\<lambda>k d. ddel d k) ks d"

text \<open>\<open>_row_to_dict\<close>: the data object with the columns laid over it.\<close>

definition row_to_dict :: "job_key \<Rightarrow> job_row \<Rightarrow> jdict" where
  "row_to_dict k r =
     (let d = dset (row_data r) ''job_id'' (JStr (snd k));
          d = dset d ''team'' (JStr (fst k));
          d = dset d ''status'' (JStr (row_status r));
          d = dset d ''created_at'' (JTime (row_created_at r));
          d = dset d ''updated_at'' (JTime (row_updated_at r))
      in dset d ''last_heartbeat_at'' (JTime (row_heartbeat_at r)))"

section \<open>Create, replace, read, delete\<close>

definition create_job ::
  "(json \<Rightarrow> int option) \<Rightarrow> int \<Rightarrow> job_key \<Rightarrow> string \<Rightarrow> jdict \<Rightarrow> job_table \<Rightarrow> db_error + job_table" where
  "create_job as_ts now k st flds tbl =
     dbind (ts_column as_ts ''created_at'' (jget_or flds ''created_at'' (JTime now))) (\<lambda>created.
     dbind (ts_column as_ts ''updated_at'' (jget_or flds ''updated_at'' (JTime now))) (\<lambda>updated.
     dbind (ts_column as_ts ''last_heartbeat_at'' (jget_or flds ''last_heartbeat_at'' (JTime now))) (\<lambda>hb.
       let data = ddels flds [''created_at'', ''updated_at'', ''last_heartbeat_at'', ''job_id'', ''team'', ''status''];
           data = (if has_key data ''last_activity_at'' then data
                   else dset data ''last_activity_at'' (JTime now));
           created = (case dget tbl k of None \<Rightarrow> created | Some old \<Rightarrow> row_created_at old)
       in Inr (dset tbl k \<lparr>row_status = st, row_data = data, row_created_at = created,
                          row_updated_at = updated, row_heartbeat_at = hb\<rparr>))))"

definition top_columns :: "string list" where
  "top_columns = [''job_id'', ''team'', ''status'', ''created_at'', ''updated_at'', ''last_heartbeat_at'']"

definition replace_job ::
  "(json \<Rightarrow> int option) \<Rightarrow> int \<Rightarrow> job_key \<Rightarrow> jdict \<Rightarrow> job_table \<Rightarrow> db_error + job_table" where
  "replace_job as_ts now k payload tbl =
     dbind (status_column (jget_or payload ''status'' (JStr ''pending''))) (\<lambda>st.
     dbind (ts_column as_ts ''created_at'' (jget_or payload ''created_at'' (JTime now))) (\<lambda>created.
     dbind (ts_column as_ts ''updated_at'' (jget_or payload ''updated_at'' (JTime now))) (\<lambda>updated.
     dbind (ts_column as_ts ''last_heartbeat_at'' (jget_or payload ''last_heartbeat_at'' (JTime now))) (\<lambda>hb.
       Inr (dset tbl k \<lparr>row_status = st, row_data = filter (\<lambda>kv. fst kv \<notin> set top_columns) payload,
                       row_created_at = created, row_updated_at = updated, row_heartbeat_at = hb\<rparr>)))))"

definition get_job :: "job_key \<Rightarrow> job_table \<Rightarrow> jdict option" where
  "get_job k tbl = map_option (row_to_dict k) (dget tbl k)"

definition delete_job :: "job_key \<Rightarrow> job_table \<Rightarrow> bool \<times> job_table" where
  "delete_job k tbl = (has_key tbl k, ddel tbl k)"

definition list_jobs :: "string \<Rightarrow> string list \<Rightarrow> job_table \<Rightarrow> jdict list" where
  "list_jobs team statuses tbl =
     map (\<lambda>(k, r). row_to_dict k r)
       (sort_key (\<lambda>(k, r). - row_created_at r)
         (filter (\<lambda>(k, r). fst k = team \<and> (statuses = [] \<or> row_status r \<in> set statuses)) tbl))"

section \<open>Updates\<close>

definition prepare_update_fields :: "int \<Rightarrow> jdict \<Rightarrow> json \<times> jdict" where
  "prepare_update_fields now flds =
     (let st = jget flds ''status''; d = ddels flds top_columns
      in (st, if jget d ''last_activity_at'' = JNull then dset d ''last_activity_at'' (JTime now) else d))"

text \<open>The \<open>UPDATE\<close> both update functions run: whether a row matched, and the table after it.\<close>

definition execute_status_update ::
  "job_key \<Rightarrow> jdict \<Rightarrow> json \<Rightarrow> int \<Rightarrow> bool \<Rightarrow> bool \<Rightarrow> job_table \<Rightarrow> db_error + (bool \<times> job_table)" where
  "execute_status_update k flds new_status now heartbeat guard_cancelled tbl =
     (case dget tbl k of
        None \<Rightarrow> Inr (\<not> guard_cancelled, tbl)
      | Some r \<Rightarrow>
          if guard_cancelled \<and> row_status r = ''cancelled'' then Inr (False, tbl)
          else
            dbind (if new_status = JNull then Inr (row_status r) else status_column new_status) (\<lambda>st.
              Inr (True, dset tbl k (r\<lparr>row_data := dupdate (row_data r) flds, row_status := st,
                     row_updated_at := now,
                     row_heartbeat_at := (if heartbeat then now else row_heartbeat_at r)\<rparr>))))"

definition update_job :: "int \<Rightarrow> bool \<Rightarrow> job_key \<Rightarrow> jdict \<Rightarrow> job_table \<Rightarrow> db_error + job_table" where
  "update_job now heartbeat k flds tbl =
     (let (st, flds) = prepare_update_fields now flds
      in map_sum (\<lambda>e. e) snd (execute_status_update k flds st now heartbeat False tbl))"

text \<open>\<open>True\<close>, \<open>False\<close> and \<open>None\<close> of the source are \<open>Some True\<close>, \<open>Some False\<close> and \<open>None\<close>.\<close>

definition update_job_if_not_cancelled ::
  "int \<Rightarrow> bool \<Rightarrow> job_key \<Rightarrow> jdict \<Rightarrow> job_table \<Rightarrow> db_error + (bool option \<times> job_table)" where
  "update_job_if_not_cancelled now heartbeat k flds tbl =
     (if jget flds ''status'' = JStr ''cancelled'' then Inl CancelThroughUpdate
      else
        let (st, flds) = prepare_update_fields now flds in
        dbind (execute_status_update k flds st now heartbeat True tbl) (\<lambda>(updated, tbl).
          if updated then Inr (Some True, tbl)
          else Inr (if has_key tbl k then Some False else None, tbl)))"

section \<open>Patches\<close>

fun split_on :: "char \<Rightarrow> string \<Rightarrow> string list" where
  "split_on c [] = [[]]"
| "split_on c (x # xs) =
     (if x = c then [] # split_on c xs
      else case split_on c xs of [] \<Rightarrow> [[x]] | p # ps \<Rightarrow> (x # p) # ps)"

text \<open>\<open>existing.update(value)\<close> when both are objects, otherwise a plain assignment.\<close>

definition merge_leaf :: "json \<Rightarrow> json \<Rightarrow> json" where
  "merge_leaf existing v =
     (case (existing, v) of (JDict d, JDict e) \<Rightarrow> JDict (dupdate d e) | _ \<Rightarrow> v)"

fun merge_path :: "string list \<Rightarrow> json \<Rightarrow> jdict \<Rightarrow> db_error + jdict" where
  "merge_path [] v d = Inr d"
| "merge_path [leaf] v d = Inr (dset d leaf (merge_leaf (jget_or d leaf (JDict [])) v))"
| "merge_path (part # parts) v d =
     (case jget_or d part (JDict []) of
        JDict sub \<Rightarrow> dbind (merge_path parts v sub) (\<lambda>sub'. Inr (dset d part (JDict sub')))
      | _ \<Rightarrow> Inl (NestedIntoScalar part))"

fun merge_paths :: "(string \<times> json) list \<Rightarrow> jdict \<Rightarrow> db_error + jdict" where
  "merge_paths [] d = Inr d"
| "merge_paths ((path, v) # rest) d = dbind (merge_path (split_on CHR ''.'' path) v d) (merge_paths rest)"

fun append_lists :: "(string \<times> json list) list \<Rightarrow> jdict \<Rightarrow> jdict" where
  "append_lists [] d = d"
| "append_lists ((f, items) # rest) d =
     append_lists rest (dset d f (JList (list_of (jget_or d f (JList [])) @ items)))"

fun as_number :: "json \<Rightarrow> int" where
  "as_number (JInt n) = n"
| "as_number (JBool b) = (if b then 1 else 0)"
| "as_number _ = 0"

fun increments :: "(string \<times> int) list \<Rightarrow> jdict \<Rightarrow> jdict" where
  "increments [] d = d"
| "increments ((f, delta) # rest) d =
     increments rest (dset d f (JInt (as_number (jget_or d f (JInt 0)) + delta)))"

definition apply_patch ::
  "int \<Rightarrow> job_key \<Rightarrow> jdict \<Rightarrow> (string \<times> json) list \<Rightarrow> (string \<times> json list) list \<Rightarrow>
   (string \<times> int) list \<Rightarrow> job_table \<Rightarrow> db_error + (jdict option \<times> job_table)" where
  "apply_patch now k merge_fields merge_nested append_to increment tbl =
     (case dget tbl k of
        None \<Rightarrow> Inr (None, tbl)
      | Some r \<Rightarrow>
          let new_status = (if has_key merge_fields ''status'' then jget merge_fields ''status''
                            else JStr (row_status r));
              flds = ddel merge_fields ''status'' in
          dbind (merge_paths merge_nested (dupdate (row_data r) flds)) (\<lambda>d.
          let d = increments increment (append_lists append_to d);
              d = (if jget flds ''last_activity_at'' \<noteq> JNull then d
                   else dset d ''last_activity_at'' (JTime now)) in
          dbind (status_column new_status) (\<lambda>st.
            let r' = r\<lparr>row_data := d, row_status := st, row_updated_at := now, row_heartbeat_at := now\<rparr>
            in Inr (Some (row_to_dict k r'), dset tbl k r'))))"

section \<open>Cancellation, events, liveness\<close>

definition active_status :: "string \<Rightarrow> bool" where
  "active_status s \<longleftrightarrow> s = ''pending'' \<or> s = ''running''"

definition cancel_active_job :: "int \<Rightarrow> job_key \<Rightarrow> job_table \<Rightarrow> bool \<times> job_table" where
  "cancel_active_job now k tbl =
     (case dget tbl k of
        None \<Rightarrow> (False, tbl)
      | Some r \<Rightarrow>
          if active_status (row_status r)
          then (True, dset tbl k (r\<lparr>row_status := ''cancelled'', row_updated_at := now,
                  row_heartbeat_at := now,
                  row_data := dset (row_data r) ''last_activity_at'' (JTime now)\<rparr>))
          else (False, tbl))"

text \<open>\<open>jsonb || jsonb\<close> with a one-element array on the right.\<close>

fun jsonb_append :: "json \<Rightarrow> json \<Rightarrow> json" where
  "jsonb_append (JList xs) x = JList (xs @ [x])"
| "jsonb_append v x = JList [v, x]"

definition append_event ::
  "int \<Rightarrow> job_key \<Rightarrow> string \<Rightarrow> string option \<Rightarrow> jdict \<Rightarrow> string option \<Rightarrow> job_table \<Rightarrow> job_table" where
  "append_event now k action outcome details st tbl =
     (case dget tbl k of
        None \<Rightarrow> tbl
      | Some r \<Rightarrow>
          let event = JDict [(''timestamp'', JTime now), (''action'', JStr action),
                (''outcome'', case outcome of None \<Rightarrow> JNull | Some x \<Rightarrow> JStr x), (''details'', JDict details)];
              d = dset (row_data r) ''events''
                    (jsonb_append (jget_or (row_data r) ''events'' (JList [])) event);
              d = dset d ''last_activity_at'' (JTime now)
          in dset tbl k (r\<lparr>row_data := d, row_updated_at := now, row_heartbeat_at := now,
                 row_status := (case st of None \<Rightarrow> row_status r | Some s \<Rightarrow> s)\<rparr>))"

definition heartbeat :: "int \<Rightarrow> job_key \<Rightarrow> job_table \<Rightarrow> bool \<times> job_table" where
  "heartbeat now k tbl =
     (case dget tbl k of
        None \<Rightarrow> (False, tbl)
      | Some r \<Rightarrow> (True, dset tbl k (r\<lparr>row_heartbeat_at := now, row_updated_at := now\<rparr>)))"

section \<open>Sweeps\<close>

text \<open>\<open>text::boolean\<close>: any unique prefix of true, false, yes, no; on, of, off; 1, 0.\<close>

definition text_bool :: "string \<Rightarrow> bool option" where
  "text_bool s =
     (let w = str_lower (str_strip s) in
      if w \<in> {''t'', ''tr'', ''tru'', ''true'', ''y'', ''ye'', ''yes'', ''on'', ''1''} then Some True
      else if w \<in> {''f'', ''fa'', ''fal'', ''fals'', ''false'', ''n'', ''no'', ''of'', ''off'', ''0''} then Some False
      else None)"

text \<open>\<open>COALESCE((data->>f)::boolean, false)\<close>, \<open>None\<close> when the cast raises.\<close>

fun flag_value :: "json \<Rightarrow> bool option" where
  "flag_value JNull = Some False"
| "flag_value (JBool b) = Some b"
| "flag_value (JStr s) = text_bool s"
| "flag_value (JInt n) = (if n = 1 then Some True else if n = 0 then Some False else None)"
| "flag_value _ = None"

definition waiting_flags :: "string \<Rightarrow> string list" where
  "waiting_flags first =
     [first, ''waiting_for_title_selection'', ''waiting_for_story_input'', ''waiting_for_draft_feedback'']"

definition flags_readable :: "string list \<Rightarrow> job_row \<Rightarrow> bool" where
  "flags_readable fs r \<longleftrightarrow> list_all (\<lambda>f. flag_value (jget (row_data r) f) \<noteq> None) fs"

definition waiting :: "string list \<Rightarrow> job_row \<Rightarrow> bool" where
  "waiting fs r \<longleftrightarrow> list_ex (\<lambda>f. flag_value (jget (row_data r) f) = Some True) fs"

text \<open>The statement the three sweeps share: the active rows of the team that wait on none of the
  flags (and pass \<open>extra\<close>) get the status, the reason and a cleared activity.\<close>

definition sweep ::
  "string \<Rightarrow> string list \<Rightarrow> (job_row \<Rightarrow> bool) \<Rightarrow> string \<Rightarrow> string \<Rightarrow> int \<Rightarrow> job_table \<Rightarrow>
   db_error + (string list \<times> job_table)" where
  "sweep team fs extra st why now tbl =
     (let hit = (\<lambda>(k, r). fst k = team \<and> active_status (row_status r));
          sel = (\<lambda>(k, r). hit (k, r) \<and> \<not> waiting fs r \<and> extra r)
      in if list_ex (\<lambda>(k, r). hit (k, r) \<and> \<not> flags_readable fs r) tbl then Inl (BadCast ''boolean'')
         else Inr (map (\<lambda>(k, r). snd k) (filter sel tbl),
                   map (\<lambda>(k, r). (k, if sel (k, r)
                      then r\<lparr>row_status := st,
                             row_data := dupdate (row_data r) [(''error'', JStr why), (''current_activity'', JNull)],
                             row_updated_at := now\<rparr>
                      else r)) tbl))"

definition mark_stale_active_jobs_failed ::
  "string \<Rightarrow> int \<Rightarrow> string \<Rightarrow> string \<Rightarrow> int \<Rightarrow> job_table \<Rightarrow> db_error + (string list \<times> job_table)" where
  "mark_stale_active_jobs_failed team stale_after why waiting_field now tbl =
     sweep team (waiting_flags waiting_field) (\<lambda>r. row_heartbeat_at r < now - stale_after)
       ''failed'' why now tbl"

definition mark_all_active_jobs_failed ::
  "string \<Rightarrow> string \<Rightarrow> int \<Rightarrow> job_table \<Rightarrow> db_error + (string list \<times> job_table)" where
  "mark_all_active_jobs_failed team why now tbl =
     sweep team (waiting_flags ''waiting_for_answers'') (\<lambda>r. True) ''failed'' why now tbl"

definition mark_all_active_jobs_interrupted ::
  "string \<Rightarrow> string \<Rightarrow> int \<Rightarrow> job_table \<Rightarrow> db_error + (string list \<times> job_table)" where
  "mark_all_active_jobs_interrupted team why now tbl =
     sweep team (waiting_flags ''waiting_for_answers'') (\<lambda>r. True) ''interrupted'' why now tbl"

end
