(* ===== verification/JobDbProps.thy ===== *)
theory JobDbProps
  imports JobDb
begin

text \<open>
  What the job table promises its callers: a cancelled job stays cancelled under every guarded
  write, the guarded update reports exactly what it did, patches accumulate, sweeps hit exactly
  the active jobs that wait for nobody. The locale \<open>job_store\<close> is the read/update contract the
  pause and checkpoint code relies on; \<open>job_rows\<close> interprets it on this table.
\<close>

section \<open>Merging objects\<close>

lemma dget_ddels: "dget (ddels d ks) k = (if k \<in> set ks then None else dget d k)"
  unfolding ddels_def by (induction ks arbitrary: d) auto

lemma wf_ddels: "wf_dict d \<Longrightarrow> wf_dict (ddels d ks)"
  unfolding ddels_def by (induction ks arbitrary: d) auto

lemma jget_ddels: "jget (ddels d ks) k = (if k \<in> set ks then JNull else jget d k)"
  by (simp add: jget_def dget_ddels)

definition is_column :: "string \<Rightarrow> bool" where
  "is_column f \<longleftrightarrow> f \<in> set top_columns"

lemma jget_row_to_dict:
  "jget (row_to_dict k r) f =
     (if f = ''job_id'' then JStr (snd k) else if f = ''team'' then JStr (fst k)
      else if f = ''status'' then JStr (row_status r) else if f = ''created_at'' then JTime (row_created_at r)
      else if f = ''updated_at'' then JTime (row_updated_at r)
      else if f = ''last_heartbeat_at'' then JTime (row_heartbeat_at r) else jget (row_data r) f)"
  by (simp add: row_to_dict_def Let_def)

lemma jget_row_data: "\<not> is_column f \<Longrightarrow> jget (row_to_dict k r) f = jget (row_data r) f"
  by (simp add: jget_row_to_dict is_column_def top_columns_def)

lemma prepared_fields:
  assumes "prepare_update_fields now flds = (st, d)"
  shows "st = jget flds ''status'' \<and> (wf_dict flds \<longrightarrow> wf_dict d) \<and>
    (\<forall>f. \<not> is_column f \<longrightarrow> f \<noteq> ''last_activity_at'' \<longrightarrow> has_key d f = has_key flds f \<and> jget d f = jget flds f)"
  using assms
  by (auto simp: prepare_update_fields_def Let_def is_column_def jget_ddels has_key_def dget_ddels wf_ddels
      split: if_splits)

section \<open>The store contract\<close>

locale job_store =
  fixes get :: "'k \<Rightarrow> 's \<Rightarrow> jdict option"
    and upd :: "int \<Rightarrow> 'k \<Rightarrow> jdict \<Rightarrow> 's \<Rightarrow> 's"
    and plain :: "string \<Rightarrow> bool"
  assumes upd_reads: "get k s = Some d \<Longrightarrow> wf_dict flds \<Longrightarrow> plain f \<Longrightarrow>
      \<exists>d'. get k (upd now k flds s) = Some d' \<and>
           jget d' f = (if has_key flds f then jget flds f else jget d f)"
    and upd_missing: "get k s = None \<Longrightarrow> upd now k flds s = s"
    and upd_other: "k' \<noteq> k \<Longrightarrow> get k' (upd now k flds s) = get k' s"
begin

definition field :: "'k \<Rightarrow> 's \<Rightarrow> string \<Rightarrow> json" where
  "field k s f = (case get k s of None \<Rightarrow> JNull | Some d \<Rightarrow> jget d f)"

lemma field_upd:
  assumes "get k s \<noteq> None" and "wf_dict flds" and "plain f"
  shows "field k (upd now k flds s) f = (if has_key flds f then jget flds f else field k s f)"
proof -
  from assms(1) obtain d where "get k s = Some d" by blast
  with upd_reads [OF this assms(2,3), of now] show ?thesis by (auto simp: field_def)
qed

lemma upd_keeps_present: "get k s \<noteq> None \<Longrightarrow> wf_dict flds \<Longrightarrow> plain f \<Longrightarrow> get k (upd now k flds s) \<noteq> None"
  using upd_reads by fastforce

end

text \<open>The client's view of \<open>update_job\<close>; a status that is not a string raises and writes nothing.\<close>

definition client_update :: "int \<Rightarrow> job_key \<Rightarrow> jdict \<Rightarrow> job_table \<Rightarrow> job_table" where
  "client_update now k flds tbl = (case update_job now True k flds tbl of Inl e \<Rightarrow> tbl | Inr t \<Rightarrow> t)"

definition plain_field :: "string \<Rightarrow> bool" where
  "plain_field f \<longleftrightarrow> \<not> is_column f \<and> f \<noteq> ''last_activity_at''"

definition string_status :: "jdict \<Rightarrow> bool" where
  "string_status flds \<longleftrightarrow> (case jget flds ''status'' of JNull \<Rightarrow> True | JStr s \<Rightarrow> True | _ \<Rightarrow> False)"

definition new_status :: "jdict \<Rightarrow> job_row \<Rightarrow> string" where
  "new_status flds r = (case jget flds ''status'' of JStr s \<Rightarrow> s | _ \<Rightarrow> row_status r)"

lemma status_write:
  "string_status flds \<Longrightarrow>
     (if jget flds ''status'' = JNull then Inr (row_status r) else status_column (jget flds ''status'')) =
     Inr (new_status flds r)"
  by (cases "jget flds ''status''") (simp_all add: string_status_def new_status_def)

definition updated_row :: "int \<Rightarrow> bool \<Rightarrow> jdict \<Rightarrow> job_row \<Rightarrow> job_row" where
  "updated_row now hb flds r =
     r\<lparr>row_data := dupdate (row_data r) (snd (prepare_update_fields now flds)), row_status := new_status flds r,
       row_updated_at := now, row_heartbeat_at := (if hb then now else row_heartbeat_at r)\<rparr>"

lemma fst_prepare [simp]: "fst (prepare_update_fields now flds) = jget flds ''status''"
  by (simp add: prepare_update_fields_def Let_def)

lemma update_job_eq:
  assumes "string_status flds"
  shows "update_job now hb k flds tbl =
    Inr (case dget tbl k of None \<Rightarrow> tbl | Some r \<Rightarrow> dset tbl k (updated_row now hb flds r))"
proof (cases "dget tbl k")
  case None
  then show ?thesis by (simp add: update_job_def execute_status_update_def case_prod_unfold Let_def)
next
  case (Some r)
  have "execute_status_update k (snd (prepare_update_fields now flds)) (jget flds ''status'') now hb False tbl =
      Inr (True, dset tbl k (updated_row now hb flds r))"
    using Some status_write [OF assms, of r]
    by (simp only: execute_status_update_def option.case simp_thms if_False dbind.simps updated_row_def)
  with Some show ?thesis by (simp add: update_job_def case_prod_unfold Let_def)
qed

lemma jget_updated_row:
  assumes "wf_dict flds" and "plain_field f"
  shows "jget (row_data (updated_row now hb flds r)) f = (if has_key flds f then jget flds f else jget (row_data r) f)"
proof -
  obtain st d where p: "prepare_update_fields now flds = (st, d)" by fastforce
  from prepared_fields [OF p] assms
  have "wf_dict d" "has_key d f = has_key flds f" "jget d f = jget flds f"
    by (auto simp: plain_field_def)
  with p show ?thesis by (simp add: updated_row_def jget_dupdate)
qed

lemma client_update_eq:
  "client_update now k flds tbl =
     (if string_status flds then (case dget tbl k of None \<Rightarrow> tbl | Some r \<Rightarrow> dset tbl k (updated_row now True flds r))
      else tbl)"
proof (cases "string_status flds")
  case True
  then show ?thesis by (simp add: client_update_def update_job_eq)
next
  case False
  then have "jget flds ''status'' \<noteq> JNull" "\<exists>e. status_column (jget flds ''status'') = Inl e"
    by (cases "jget flds ''status''"; simp add: string_status_def)+
  with False show ?thesis
    by (cases "dget tbl k")
      (auto simp: client_update_def update_job_def execute_status_update_def case_prod_unfold Let_def)
qed

text \<open>Updates that carry no status, or a string one, obey the contract.\<close>

definition client_write :: "int \<Rightarrow> job_key \<Rightarrow> jdict \<Rightarrow> job_table \<Rightarrow> job_table" where
  "client_write now k flds tbl =
     client_update now k (if string_status flds then flds else ddel flds ''status'') tbl"

interpretation job_rows: job_store get_job client_write plain_field
proof
  fix k :: job_key and s :: job_table and d flds :: jdict and f :: string and now :: int
  assume d: "get_job k s = Some d" and wfd: "wf_dict flds" and f: "plain_field f"
  from d obtain r where r: "dget s k = Some r" "d = row_to_dict k r" by (auto simp: get_job_def)
  let ?flds = "if string_status flds then flds else ddel flds ''status''"
  have ok: "string_status ?flds" "wf_dict ?flds" using wfd by (simp_all add: string_status_def)
  have f': "f \<noteq> ''status''" "\<not> is_column f"
    using f by (auto simp: plain_field_def is_column_def top_columns_def)
  from jget_updated_row [OF ok(2) f, of now True r] ok(1) r f'
  have "get_job k (client_write now k flds s) = Some (row_to_dict k (updated_row now True ?flds r))"
    and "jget (row_to_dict k (updated_row now True ?flds r)) f =
           (if has_key ?flds f then jget ?flds f else jget d f)"
    by (simp_all add: client_write_def client_update_eq get_job_def jget_row_data)
  moreover have "has_key ?flds f = has_key flds f" "jget ?flds f = jget flds f"
    using f' by (simp_all add: has_key_def)
  ultimately show "\<exists>d'. get_job k (client_write now k flds s) = Some d' \<and>
      jget d' f = (if has_key flds f then jget flds f else jget d f)" by auto
next
  fix k s now flds
  assume "get_job k s = None"
  then show "client_write now k flds s = s"
    by (simp add: client_write_def client_update_eq get_job_def)
next
  fix k' k :: job_key and now flds s
  assume "k' \<noteq> k"
  then show "get_job k' (client_write now k flds s) = get_job k' s"
    by (simp add: client_write_def client_update_eq get_job_def split: option.split)
qed

section \<open>Cancellation is final\<close>

datatype guarded_op =
    GCancel int job_key
  | GUpdate int bool job_key jdict
  | GPatch int job_key jdict "(string \<times> json) list" "(string \<times> json list) list" "(string \<times> int) list"
  | GEvent int job_key string "string option" jdict
  | GHeartbeat int job_key
  | GStale string int string string int
  | GFailAll string string int
  | GInterruptAll string string int

fun keep_table :: "job_table \<Rightarrow> db_error + ('a \<times> job_table) \<Rightarrow> job_table" where
  "keep_table tbl (Inl e) = tbl"
| "keep_table tbl (Inr (x, t)) = t"

fun guarded_run :: "guarded_op \<Rightarrow> job_table \<Rightarrow> job_table" where
  "guarded_run (GCancel now k) tbl = snd (cancel_active_job now k tbl)"
| "guarded_run (GUpdate now hb k flds) tbl = keep_table tbl (update_job_if_not_cancelled now hb k flds tbl)"
| "guarded_run (GPatch now k mf mn ap inc) tbl = keep_table tbl (apply_patch now k mf mn ap inc tbl)"
| "guarded_run (GEvent now k action outcome details) tbl = append_event now k action outcome details None tbl"
| "guarded_run (GHeartbeat now k) tbl = snd (heartbeat now k tbl)"
| "guarded_run (GStale team after why wfield now) tbl =
     keep_table tbl (mark_stale_active_jobs_failed team after why wfield now tbl)"
| "guarded_run (GFailAll team why now) tbl = keep_table tbl (mark_all_active_jobs_failed team why now tbl)"
| "guarded_run (GInterruptAll team why now) tbl = keep_table tbl (mark_all_active_jobs_interrupted team why now tbl)"

text \<open>The patch is unguarded: it is in the discipline only without a status of its own.\<close>

fun guarded_ok :: "guarded_op \<Rightarrow> job_table \<Rightarrow> bool" where
  "guarded_ok (GPatch now k mf mn ap inc) tbl \<longleftrightarrow> \<not> has_key mf ''status''"
| "guarded_ok _ tbl \<longleftrightarrow> True"

definition is_cancelled :: "job_key \<Rightarrow> job_table \<Rightarrow> bool" where
  "is_cancelled k tbl \<longleftrightarrow> (\<exists>r. dget tbl k = Some r \<and> row_status r = ''cancelled'')"

lemma not_active_cancelled: "\<not> active_status ''cancelled''"
  by (simp add: active_status_def)

lemma map_of_map_rows: "dget (map (\<lambda>(k, r). (k, F k r)) tbl) k = map_option (F k) (dget tbl k)"
  by (induction tbl) auto

lemma sweep_lookup:
  assumes "sweep team fs extra st why now tbl = Inr (ids, tbl')"
  shows "dget tbl' k = map_option (\<lambda>r.
      if fst k = team \<and> active_status (row_status r) \<and> \<not> waiting fs r \<and> extra r
      then r\<lparr>row_status := st,
             row_data := dupdate (row_data r) [(''error'', JStr why), (''current_activity'', JNull)],
             row_updated_at := now\<rparr>
      else r) (dget tbl k)"
  using assms map_of_map_rows [of "\<lambda>k r. if fst k = team \<and> active_status (row_status r) \<and> \<not> waiting fs r \<and> extra r
      then r\<lparr>row_status := st,
             row_data := dupdate (row_data r) [(''error'', JStr why), (''current_activity'', JNull)],
             row_updated_at := now\<rparr>
      else r" tbl k]
  by (auto simp: sweep_def Let_def case_prod_unfold conj_assoc split: if_splits)

lemma sweep_cancelled:
  "is_cancelled k tbl \<Longrightarrow> is_cancelled k (keep_table tbl (sweep team fs extra st why now tbl))"
  by (cases "sweep team fs extra st why now tbl")
    (auto simp: is_cancelled_def not_active_cancelled dest!: sweep_lookup [where k = k])

lemma patch_cancelled:
  assumes "is_cancelled k tbl" and "\<not> has_key mf ''status''"
  shows "is_cancelled k (keep_table tbl (apply_patch now j mf mn ap inc tbl))"
proof (cases "dget tbl j")
  case (Some r)
  show ?thesis
  proof (cases "merge_paths mn (dupdate (row_data r) (ddel mf ''status''))")
    case (Inl e)
    with Some assms show ?thesis by (simp add: apply_patch_def Let_def)
  next
    case (Inr d)
    with Some assms show ?thesis by (auto simp: apply_patch_def Let_def is_cancelled_def)
  qed
qed (use assms in \<open>simp add: apply_patch_def\<close>)

lemma guarded_update_cancelled:
  assumes "is_cancelled k tbl"
  shows "is_cancelled k (keep_table tbl (update_job_if_not_cancelled now hb j flds tbl))"
proof (cases "update_job_if_not_cancelled now hb j flds tbl")
  case (Inr res)
  then obtain u t where t: "res = (u, t)" by (cases res)
  have "t = tbl \<or> j \<noteq> k \<and> (\<forall>i. i \<noteq> j \<longrightarrow> dget t i = dget tbl i)"
  proof (cases "dget tbl j")
    case None
    with Inr t show ?thesis
      by (auto simp: update_job_if_not_cancelled_def execute_status_update_def Let_def case_prod_unfold
          split: if_splits)
  next
    case (Some r)
    with Inr t assms show ?thesis
      by (cases "if jget flds ''status'' = JNull then Inr (row_status r) else status_column (jget flds ''status'')")
        (auto simp: update_job_if_not_cancelled_def execute_status_update_def Let_def case_prod_unfold
          is_cancelled_def split: if_splits)
  qed
  then have "dget t k = dget tbl k" by metis
  with assms Inr t show ?thesis by (simp add: is_cancelled_def)
qed (use assms in simp)

lemma guarded_run_cancelled:
  assumes "is_cancelled k tbl" and "guarded_ok l tbl"
  shows "is_cancelled k (guarded_run l tbl)"
proof (cases l)
  case (GCancel now j)
  with assms show ?thesis
    by (auto simp: cancel_active_job_def is_cancelled_def active_status_def split: option.split)
next
  case (GEvent now j action outcome details)
  with assms show ?thesis by (auto simp: append_event_def is_cancelled_def Let_def split: option.split)
next
  case (GHeartbeat now j)
  with assms show ?thesis by (auto simp: heartbeat_def is_cancelled_def split: option.split)
qed (use assms in \<open>simp_all add: guarded_update_cancelled patch_cancelled sweep_cancelled
      mark_stale_active_jobs_failed_def mark_all_active_jobs_failed_def mark_all_active_jobs_interrupted_def\<close>)

interpretation cancelled_job: invariant_system "is_cancelled k" "op_step guarded_run guarded_ok" "is_cancelled k" for k
  by unfold_locales (auto simp: op_step_def guarded_run_cancelled)

section \<open>Properties\<close>

text \<open>C10. A cancelled job stays cancelled through any interleaving of cancellations, guarded
  updates, patches and events that carry no status, heartbeats and sweeps, on this or any other
  job.\<close>

theorem cancelled_is_final:
  assumes "is_cancelled k tbl" and "ops_ok guarded_run guarded_ok ls tbl"
  shows "is_cancelled k (run_ops guarded_run ls tbl)"
  by (rule cancelled_job.reachable_inv)
    (use reachable_run_ops [OF reach_init [where init = "is_cancelled k", OF assms(1)] assms(2)] in simp)

text \<open>The guarded update's answer tells what it did: true, and the fields are in and nothing
  else of the job's data changed; false, exactly for a cancelled job, and nothing was written;
  none, exactly for a missing job, and nothing was written.\<close>

theorem guarded_update_answer:
  assumes "wf_dict flds" and "string_status flds" and "jget flds ''status'' \<noteq> JStr ''cancelled''"
  shows "\<exists>ans tbl'. update_job_if_not_cancelled now hb k flds tbl = Inr (ans, tbl') \<and>
    (case dget tbl k of
       None \<Rightarrow> ans = None \<and> tbl' = tbl
     | Some r \<Rightarrow>
         if row_status r = ''cancelled'' then ans = Some False \<and> tbl' = tbl
         else ans = Some True \<and> (\<exists>r'. tbl' = dset tbl k r' \<and> row_status r' = new_status flds r \<and>
                row_updated_at r' = now \<and> row_created_at r' = row_created_at r \<and>
                (plain_field f \<longrightarrow>
                   jget (row_data r') f = (if has_key flds f then jget flds f else jget (row_data r) f))))"
proof (cases "dget tbl k")
  case None
  then show ?thesis
    using assms(3) by (simp add: update_job_if_not_cancelled_def execute_status_update_def Let_def
        case_prod_unfold has_key_def)
next
  case (Some r)
  show ?thesis
  proof (cases "row_status r = ''cancelled''")
    case True
    with Some assms(3) show ?thesis
      by (simp add: update_job_if_not_cancelled_def execute_status_update_def Let_def case_prod_unfold has_key_def)
  next
    case False
    have "execute_status_update k (snd (prepare_update_fields now flds)) (jget flds ''status'') now hb True tbl =
        Inr (True, dset tbl k (updated_row now hb flds r))"
      using Some status_write [OF assms(2), of r] False
      by (simp only: execute_status_update_def option.case simp_thms if_False dbind.simps updated_row_def)
    then have "update_job_if_not_cancelled now hb k flds tbl = Inr (Some True, dset tbl k (updated_row now hb flds r))"
      using assms(3) by (simp add: update_job_if_not_cancelled_def case_prod_unfold Let_def)
    moreover have "row_status (updated_row now hb flds r) = new_status flds r"
      "row_updated_at (updated_row now hb flds r) = now"
      "row_created_at (updated_row now hb flds r) = row_created_at r" by (simp_all add: updated_row_def)
    ultimately show ?thesis using Some False jget_updated_row [OF assms(1), of f now hb r] by auto
  qed
qed

text \<open>Cancelling succeeds exactly on a pending or running job, and then changes nothing but its
  status, its clocks and its activity stamp; in particular a job parked in another status, such as
  the checkpoint helpers' waiting, cannot be cancelled this way.\<close>

theorem cancel_active_exact:
  "cancel_active_job now k tbl =
     (case dget tbl k of
        None \<Rightarrow> (False, tbl)
      | Some r \<Rightarrow>
          if row_status r = ''pending'' \<or> row_status r = ''running''
          then (True, dset tbl k \<lparr>row_status = ''cancelled'',
                  row_data = dset (row_data r) ''last_activity_at'' (JTime now),
                  row_created_at = row_created_at r, row_updated_at = now, row_heartbeat_at = now\<rparr>)
          else (False, tbl))"
proof (cases "dget tbl k")
  case (Some r)
  then show ?thesis by (cases r) (simp add: cancel_active_job_def active_status_def)
qed (simp add: cancel_active_job_def)

text \<open>Patches accumulate: two increments of one counter by two patches leave the sum, each
  patch's returned record shows its own result, and a heartbeat between them is invisible to it.\<close>

lemma patch_increment:
  assumes "dget tbl k = Some r" and "plain_field f"
  shows "apply_patch now k [] [] [] [(f, n)] tbl =
    Inr (Some (row_to_dict k (r\<lparr>row_data := dset (dset (row_data r) f (JInt (as_number (jget_or (row_data r) f (JInt 0)) + n)))
            ''last_activity_at'' (JTime now), row_updated_at := now, row_heartbeat_at := now\<rparr>)),
         dset tbl k (r\<lparr>row_data := dset (dset (row_data r) f (JInt (as_number (jget_or (row_data r) f (JInt 0)) + n)))
            ''last_activity_at'' (JTime now), row_updated_at := now, row_heartbeat_at := now\<rparr>))"
  using assms by (simp add: apply_patch_def Let_def has_key_def)

theorem patches_accumulate:
  assumes "dget tbl k = Some r" and "plain_field f" and "dget (row_data r) f = Some (JInt n)"
  shows "\<exists>rec1 tbl1 rec2 tbl2.
    apply_patch now1 k [] [] [] [(f, a)] tbl = Inr (Some rec1, tbl1) \<and> jget rec1 f = JInt (n + a) \<and>
    apply_patch now2 k [] [] [] [(f, b)] (snd (heartbeat now3 k tbl1)) = Inr (Some rec2, tbl2) \<and>
    jget rec2 f = JInt (n + a + b)"
proof -
  have f: "\<not> is_column f" "f \<noteq> ''last_activity_at''" using assms(2) by (auto simp: plain_field_def)
  let ?r1 = "r\<lparr>row_data := dset (dset (row_data r) f (JInt (n + a))) ''last_activity_at'' (JTime now1),
      row_updated_at := now1, row_heartbeat_at := now1\<rparr>"
  have p1: "apply_patch now1 k [] [] [] [(f, a)] tbl = Inr (Some (row_to_dict k ?r1), dset tbl k ?r1)"
    using patch_increment [OF assms(1,2), of now1 a] assms(3) by (simp add: jget_or_def)
  let ?h = "?r1\<lparr>row_heartbeat_at := now3, row_updated_at := now3\<rparr>"
  have h: "dget (snd (heartbeat now3 k (dset tbl k ?r1))) k = Some ?h" by (simp add: heartbeat_def)
  let ?r2 = "?h\<lparr>row_data := dset (dset (row_data ?h) f (JInt (n + a + b))) ''last_activity_at'' (JTime now2),
      row_updated_at := now2, row_heartbeat_at := now2\<rparr>"
  have p2: "apply_patch now2 k [] [] [] [(f, b)] (snd (heartbeat now3 k (dset tbl k ?r1))) =
      Inr (Some (row_to_dict k ?r2), dset (snd (heartbeat now3 k (dset tbl k ?r1))) k ?r2)"
    using patch_increment [OF h assms(2), of now2 b] f by (simp add: jget_or_def)
  have "jget (row_to_dict k ?r1) f = JInt (n + a)" "jget (row_to_dict k ?r2) f = JInt (n + a + b)"
    using f by (simp_all add: jget_row_data)
  with p1 p2 show ?thesis by blast
qed

text \<open>The shutdown sweep fails exactly the team's active jobs that wait for nobody, keeps every
  other row as it was, and never fails a job on any of the four waiting flags.\<close>

theorem shutdown_sweep_exact:
  assumes "mark_all_active_jobs_failed team why now tbl = Inr (ids, tbl')" and "dget tbl k = Some r"
  shows "dget tbl' k = Some
    (if fst k = team \<and> active_status (row_status r) \<and>
        (\<forall>f \<in> {''waiting_for_answers'', ''waiting_for_title_selection'', ''waiting_for_story_input'',
             ''waiting_for_draft_feedback''}. flag_value (jget (row_data r) f) \<noteq> Some True)
     then r\<lparr>row_status := ''failed'',
            row_data := dset (dset (row_data r) ''error'' (JStr why)) ''current_activity'' JNull,
            row_updated_at := now\<rparr>
     else r)"
  using sweep_lookup [OF assms(1) [unfolded mark_all_active_jobs_failed_def], of k] assms(2)
  by (simp add: waiting_def waiting_flags_def)

text \<open>The stale-job sweep does not protect a job that waits for answers once the caller names
  another waiting field: a stale running job with only the answers flag up is failed.\<close>

theorem stale_sweep_ignores_answers_flag:
  assumes "mark_stale_active_jobs_failed team stale why wfield now tbl = Inr (ids, tbl')"
    and "wfield \<noteq> ''waiting_for_answers''" and "fst k = team" and "dget tbl k = Some r"
    and "active_status (row_status r)" and "row_data r = [(''waiting_for_answers'', JBool True)]"
    and "row_heartbeat_at r < now - stale"
  shows "map_option row_status (dget tbl' k) = Some ''failed''"
  using sweep_lookup [OF assms(1) [unfolded mark_stale_active_jobs_failed_def], of k] assms(2-7)
  by (simp add: waiting_def waiting_flags_def jget_Cons)

text \<open>Re-creating a job keeps its creation time, replacing it does not have to: create on an
  existing row takes the new status and data and leaves \<open>created_at\<close> as it was.\<close>

theorem create_keeps_created_at:
  assumes "dget tbl k = Some old" and "create_job as_ts now k st flds tbl = Inr tbl'"
  shows "\<exists>r. dget tbl' k = Some r \<and> row_created_at r = row_created_at old \<and> row_status r = st \<and>
    (plain_field f \<longrightarrow> jget (row_data r) f = jget flds f)"
proof -
  obtain u h where u: "ts_column as_ts ''updated_at'' (jget_or flds ''updated_at'' (JTime now)) = Inr u"
      "ts_column as_ts ''last_heartbeat_at'' (jget_or flds ''last_heartbeat_at'' (JTime now)) = Inr h"
    and c: "\<exists>c. ts_column as_ts ''created_at'' (jget_or flds ''created_at'' (JTime now)) = Inr c"
    using assms(2) unfolding create_job_def
    by (cases "ts_column as_ts ''created_at'' (jget_or flds ''created_at'' (JTime now))";
        cases "ts_column as_ts ''updated_at'' (jget_or flds ''updated_at'' (JTime now))";
        cases "ts_column as_ts ''last_heartbeat_at'' (jget_or flds ''last_heartbeat_at'' (JTime now))") auto
  from u c assms show ?thesis
    by (auto simp: create_job_def Let_def jget_ddels plain_field_def is_column_def top_columns_def)
qed

section \<open>Witnesses\<close>

definition demo_row :: "string \<Rightarrow> jdict \<Rightarrow> job_row" where
  "demo_row st d = \<lparr>row_status = st, row_data = d, row_created_at = 1, row_updated_at = 1, row_heartbeat_at = 1\<rparr>"

definition demo_key :: job_key where
  "demo_key = (''blog'', ''j1'')"

lemma demo_row_simps [simp]:
  "row_status (demo_row st d) = st" "row_data (demo_row st d) = d" "row_created_at (demo_row st d) = 1"
  "row_heartbeat_at (demo_row st d) = 1"
  by (simp_all add: demo_row_def)

theorem cancelled_is_final_witness:
  "is_cancelled demo_key (run_ops guarded_run
     [GUpdate 5 True demo_key [(''status'', JStr ''running'')], GHeartbeat 6 demo_key,
      GFailAll ''blog'' ''shutdown'' 7]
     [(demo_key, demo_row ''cancelled'' [])])"
  by (rule cancelled_is_final) (simp_all add: is_cancelled_def)

theorem guarded_update_answer_witness:
  "\<exists>tbl'. update_job_if_not_cancelled 5 True demo_key [(''status'', JStr ''running'')]
     [(demo_key, demo_row ''cancelled'' [])] = Inr (Some False, tbl')"
proof -
  have "wf_dict [(''status'', JStr ''running'')]" "string_status [(''status'', JStr ''running'')]"
    "jget [(''status'', JStr ''running'')] ''status'' \<noteq> JStr ''cancelled''"
    by (simp_all add: wf_dict_def string_status_def jget_Cons)
  from guarded_update_answer [OF this, of 5 True demo_key "[(demo_key, demo_row ''cancelled'' [])]"]
  show ?thesis by auto
qed

theorem patches_accumulate_witness:
  "\<exists>rec1 tbl1 rec2 tbl2.
    apply_patch 5 demo_key [] [] [] [(''claims'', 2)] [(demo_key, demo_row ''running'' [(''claims'', JInt 1)])] =
      Inr (Some rec1, tbl1) \<and> jget rec1 ''claims'' = JInt (1 + 2) \<and>
    apply_patch 6 demo_key [] [] [] [(''claims'', 3)] (snd (heartbeat 7 demo_key tbl1)) = Inr (Some rec2, tbl2) \<and>
    jget rec2 ''claims'' = JInt (1 + 2 + 3)"
  by (rule patches_accumulate [where r = "demo_row ''running'' [(''claims'', JInt 1)]"])
    (simp_all add: plain_field_def is_column_def top_columns_def)

definition waiting_row :: job_row where
  "waiting_row = demo_row ''running'' [(''waiting_for_answers'', JBool True)]"

theorem shutdown_sweep_exact_witness:
  "\<exists>ids tbl'. mark_all_active_jobs_failed ''blog'' ''shutdown'' 9 [(demo_key, waiting_row)] = Inr (ids, tbl') \<and>
     dget tbl' demo_key = Some waiting_row"
proof -
  have "\<not> list_ex (\<lambda>(k, r). fst k = ''blog'' \<and> active_status (row_status r) \<and>
      \<not> flags_readable (waiting_flags ''waiting_for_answers'') r) [(demo_key, waiting_row)]"
    by (simp add: waiting_row_def flags_readable_def waiting_flags_def jget_Cons)
  then obtain ids tbl' where
    r: "mark_all_active_jobs_failed ''blog'' ''shutdown'' 9 [(demo_key, waiting_row)] = Inr (ids, tbl')"
    by (auto simp: mark_all_active_jobs_failed_def sweep_def Let_def case_prod_unfold)
  have "dget [(demo_key, waiting_row)] demo_key = Some waiting_row" by simp
  from shutdown_sweep_exact [OF r this] r show ?thesis
    by (auto simp: waiting_row_def jget_Cons)
qed

theorem stale_sweep_ignores_answers_flag_witness:
  "\<exists>ids tbl'. mark_stale_active_jobs_failed ''blog'' 3 ''stale'' ''waiting_for_edit'' 9 [(demo_key, waiting_row)] =
       Inr (ids, tbl') \<and> map_option row_status (dget tbl' demo_key) = Some ''failed''"
proof -
  have "\<not> list_ex (\<lambda>(k, r). fst k = ''blog'' \<and> active_status (row_status r) \<and>
      \<not> flags_readable (waiting_flags ''waiting_for_edit'') r) [(demo_key, waiting_row)]"
    by (simp add: waiting_row_def flags_readable_def waiting_flags_def jget_Cons)
  then obtain ids tbl' where
    r: "mark_stale_active_jobs_failed ''blog'' 3 ''stale'' ''waiting_for_edit'' 9 [(demo_key, waiting_row)] = Inr (ids, tbl')"
    by (auto simp: mark_stale_active_jobs_failed_def sweep_def Let_def case_prod_unfold)
  have "map_option row_status (dget tbl' demo_key) = Some ''failed''"
    by (rule stale_sweep_ignores_answers_flag [OF r, of demo_key waiting_row])
      (simp_all add: demo_key_def waiting_row_def active_status_def)
  with r show ?thesis by blast
qed

fun iso_instant :: "json \<Rightarrow> int option" where
  "iso_instant (JTime t) = Some t"
| "iso_instant _ = None"

theorem create_keeps_created_at_witness:
  "\<exists>tbl' r. create_job iso_instant 5 demo_key ''pending'' [(''topic'', JStr ''x'')]
      [(demo_key, demo_row ''failed'' [])] = Inr tbl' \<and> dget tbl' demo_key = Some r \<and>
     row_created_at r = 1 \<and> jget (row_data r) ''topic'' = JStr ''x''"
proof -
  obtain tbl' where c: "create_job iso_instant 5 demo_key ''pending'' [(''topic'', JStr ''x'')]
      [(demo_key, demo_row ''failed'' [])] = Inr tbl'"
    by (simp add: create_job_def ts_column_def jget_or_Cons Let_def)
  have "dget [(demo_key, demo_row ''failed'' [])] demo_key = Some (demo_row ''failed'' [])" by simp
  from create_keeps_created_at [OF this c, of "''topic''"] c show ?thesis
    by (auto simp: plain_field_def is_column_def top_columns_def jget_Cons)
qed

end
