(* ===== verification/Checkpoints.thy ===== *)
theory Checkpoints
  imports JobDbProps
begin

text \<open>
  Checkpoints and thread-mode waits for input (\<^verbatim>\<open>backend/shared/temporal/checkpoints.py\<close>), over the
  store contract \<open>job_store\<close>: each helper reads the whole job record, edits one object of it and
  writes that object back, so the read and the write are two separate steps of the store.
\<close>

section \<open>The helpers\<close>

text \<open>\<open>dict(job.get(f) or {})\<close> with \<open>job = mgr.get_job(id) or {}\<close>; a truthy value that is no
  object makes \<open>dict(...)\<close> raise and is outside the model.\<close>

definition job_of :: "jdict option \<Rightarrow> jdict" where
  "job_of j = (case j of None \<Rightarrow> [] | Some d \<Rightarrow> d)"

definition object_field :: "jdict option \<Rightarrow> string \<Rightarrow> jdict" where
  "object_field j f = dict_of (jget (job_of j) f)"

definition checkpoint_fields :: "jdict option \<Rightarrow> int \<Rightarrow> string \<Rightarrow> json \<Rightarrow> jdict" where
  "checkpoint_fields j now phase payload =
     [(''checkpoints'', JDict (dset (object_field j ''checkpoints'') phase
         (JDict [(''payload'', payload), (''completed_at'', JTime now)]))),
      (''last_phase'', JStr phase)]"

definition save_checkpoint ::
  "('k \<Rightarrow> 's \<Rightarrow> jdict option) \<Rightarrow> (int \<Rightarrow> 'k \<Rightarrow> jdict \<Rightarrow> 's \<Rightarrow> 's) \<Rightarrow> int \<Rightarrow> 'k \<Rightarrow> string \<Rightarrow> json \<Rightarrow> 's \<Rightarrow> 's" where
  "save_checkpoint get upd now k phase payload s =
     upd now k (checkpoint_fields (get k s) now phase payload) s"

definition load_checkpoint ::
  "('k \<Rightarrow> 's \<Rightarrow> jdict option) \<Rightarrow> 'k \<Rightarrow> string \<Rightarrow> 's \<Rightarrow> json option" where
  "load_checkpoint get k phase s = dget (object_field (get k s) ''checkpoints'') phase"

definition waiting_fields :: "jdict option \<Rightarrow> int \<Rightarrow> string \<Rightarrow> json \<Rightarrow> jdict" where
  "waiting_fields j now key prompt =
     [(''waiting_for'', JDict (dset (object_field j ''waiting_for'') key
         (JDict [(''prompt'', prompt), (''since'', JTime now)]))),
      (''status'', JStr ''waiting'')]"

definition begin_wait ::
  "('k \<Rightarrow> 's \<Rightarrow> jdict option) \<Rightarrow> (int \<Rightarrow> 'k \<Rightarrow> jdict \<Rightarrow> 's \<Rightarrow> 's) \<Rightarrow> int \<Rightarrow> 'k \<Rightarrow> string \<Rightarrow> json \<Rightarrow> 's \<Rightarrow> 's" where
  "begin_wait get upd now k key prompt s = upd now k (waiting_fields (get k s) now key prompt) s"

text \<open>One turn of the polling loop: the answer and the store after it, a timeout, or another turn.\<close>

datatype 's poll = Answered json 's | TimedOut | Again

definition poll_input ::
  "('k \<Rightarrow> 's \<Rightarrow> jdict option) \<Rightarrow> (int \<Rightarrow> 'k \<Rightarrow> jdict \<Rightarrow> 's \<Rightarrow> 's) \<Rightarrow> int \<Rightarrow> int option \<Rightarrow> 'k \<Rightarrow> string \<Rightarrow> 's \<Rightarrow> 's poll" where
  "poll_input get upd now deadline k key s =
     (let j = get k s; submitted = jget (object_field j ''inputs'') key in
      if submitted \<noteq> JNull
      then Answered submitted
             (upd now k [(''waiting_for'', JDict (ddel (object_field j ''waiting_for'') key)),
                         (''status'', JStr ''running'')] s)
      else case deadline of None \<Rightarrow> Again | Some d \<Rightarrow> if d \<le> now then TimedOut else Again)"

text \<open>The whole wait against what the rest of the world does to the store before each poll; one
  element per poll, so the list is the fuel.\<close>

fun wait_polls ::
  "('k \<Rightarrow> 's \<Rightarrow> jdict option) \<Rightarrow> (int \<Rightarrow> 'k \<Rightarrow> jdict \<Rightarrow> 's \<Rightarrow> 's) \<Rightarrow> int option \<Rightarrow> 'k \<Rightarrow> string \<Rightarrow>
   (int \<times> ('s \<Rightarrow> 's)) list \<Rightarrow> 's \<Rightarrow> 's poll" where
  "wait_polls get upd deadline k key [] s = Again"
| "wait_polls get upd deadline k key ((now, env) # rest) s =
     (case poll_input get upd now deadline k key (env s) of
        Again \<Rightarrow> wait_polls get upd deadline k key rest (env s) | r \<Rightarrow> r)"

definition wait_for_input ::
  "('k \<Rightarrow> 's \<Rightarrow> jdict option) \<Rightarrow> (int \<Rightarrow> 'k \<Rightarrow> jdict \<Rightarrow> 's \<Rightarrow> 's) \<Rightarrow> int \<Rightarrow> int option \<Rightarrow> 'k \<Rightarrow> string \<Rightarrow> json \<Rightarrow>
   (int \<times> ('s \<Rightarrow> 's)) list \<Rightarrow> 's \<Rightarrow> 's poll" where
  "wait_for_input get upd now timeout k key prompt world s =
     wait_polls get upd (map_option (\<lambda>t. now + t) timeout) k key world (begin_wait get upd now k key prompt s)"

definition input_fields :: "jdict option \<Rightarrow> string \<Rightarrow> json \<Rightarrow> jdict" where
  "input_fields j key v =
     [(''inputs'', JDict (dset (object_field j ''inputs'') key v)),
      (''waiting_for'', JDict (ddel (object_field j ''waiting_for'') key))]"

definition submit_input ::
  "('k \<Rightarrow> 's \<Rightarrow> jdict option) \<Rightarrow> (int \<Rightarrow> 'k \<Rightarrow> jdict \<Rightarrow> 's \<Rightarrow> 's) \<Rightarrow> int \<Rightarrow> 'k \<Rightarrow> string \<Rightarrow> json \<Rightarrow> 's \<Rightarrow> 's" where
  "submit_input get upd now k key v s = upd now k (input_fields (get k s) key v) s"

section \<open>Over any store\<close>

lemma object_field_field: "object_field (Some d) f = dict_of (jget d f)"
  by (simp add: object_field_def job_of_def)

context job_store
begin

definition objects_plain :: bool where
  "objects_plain \<longleftrightarrow> plain ''checkpoints'' \<and> plain ''waiting_for'' \<and> plain ''inputs''"

lemma object_field_upd:
  assumes "get k s \<noteq> None" and "wf_dict flds" and "plain f"
  shows "object_field (get k (upd now k flds s)) f =
    (if has_key flds f then dict_of (jget flds f) else object_field (get k s) f)"
proof -
  from assms(1) obtain d where d: "get k s = Some d" by blast
  with upd_reads [OF d assms(2,3), of now] show ?thesis by (auto simp: object_field_field)
qed

lemma object_field_upd_set:
  assumes "get k s \<noteq> None" and "wf_dict flds" and "plain f" and "dget flds f = Some (JDict d)"
  shows "object_field (get k (upd now k flds s)) f = d"
  using object_field_upd [OF assms(1-3)] assms(4) by (simp add: has_key_def jget_def)

lemma load_save:
  assumes "get k s \<noteq> None" and "objects_plain"
  shows "load_checkpoint get k p (save_checkpoint get upd now k phase payload s) =
    (if p = phase then Some (JDict [(''payload'', payload), (''completed_at'', JTime now)])
     else load_checkpoint get k p s)"
proof -
  have "object_field (get k (upd now k (checkpoint_fields (get k s) now phase payload) s)) ''checkpoints'' =
      dset (object_field (get k s) ''checkpoints'') phase (JDict [(''payload'', payload), (''completed_at'', JTime now)])"
    by (rule object_field_upd_set [OF assms(1)])
      (use assms(2) in \<open>simp_all add: checkpoint_fields_def objects_plain_def wf_dict_def\<close>)
  then show ?thesis by (simp add: save_checkpoint_def load_checkpoint_def)
qed

lemma poll_submitted:
  assumes "get k s \<noteq> None" and "objects_plain" and "v \<noteq> JNull"
  shows "\<exists>s'. poll_input get upd now deadline k key (submit_input get upd now0 k key v s) = Answered v s'"
proof -
  have "object_field (get k (submit_input get upd now0 k key v s)) ''inputs'' =
      dset (object_field (get k s) ''inputs'') key v"
    unfolding submit_input_def
    by (rule object_field_upd_set [OF assms(1)])
      (use assms(2) in \<open>simp_all add: input_fields_def objects_plain_def wf_dict_def\<close>)
  with assms(3) show ?thesis by (simp add: poll_input_def)
qed

text \<open>Two submissions whose reads both come before either write: the second write wins.\<close>

lemma raced_inputs:
  assumes "get k s \<noteq> None" and "objects_plain"
  shows "object_field (get k (upd n2 k (input_fields (get k s) key2 v2)
      (upd n1 k (input_fields (get k s) key1 v1) s))) ''inputs'' =
    dset (object_field (get k s) ''inputs'') key2 v2"
  by (rule object_field_upd_set [OF upd_keeps_present [OF assms(1)]])
    (use assms(2) in \<open>auto simp: input_fields_def objects_plain_def wf_dict_def\<close>)

end

section \<open>Over the job table\<close>

abbreviation db_save where "db_save \<equiv> save_checkpoint get_job client_write"
abbreviation db_load where "db_load \<equiv> load_checkpoint get_job"
abbreviation db_submit where "db_submit \<equiv> submit_input get_job client_write"
abbreviation db_poll where "db_poll \<equiv> poll_input get_job client_write"

lemma objects_plain_job_rows: "job_rows.objects_plain"
  by (simp add: job_rows.objects_plain_def plain_field_def is_column_def top_columns_def)

lemma get_job_present: "get_job k tbl \<noteq> None \<longleftrightarrow> dget tbl k \<noteq> None"
  by (simp add: get_job_def)

text \<open>A saved checkpoint is what the next load of its phase returns, payload and time, and saving
  it leaves every other phase's checkpoint as it was; on a missing job nothing is stored.\<close>

theorem checkpoint_roundtrip:
  "db_load k p (db_save now k phase payload tbl) =
     (if dget tbl k = None then None
      else if p = phase then Some (JDict [(''payload'', payload), (''completed_at'', JTime now)])
      else db_load k p tbl)"
proof (cases "dget tbl k = None")
  case True
  then have "get_job k tbl = None" by (simp add: get_job_def)
  moreover from job_rows.upd_missing [OF this]
  have "db_save now k phase payload tbl = tbl" by (simp add: save_checkpoint_def)
  ultimately show ?thesis using True by (simp add: load_checkpoint_def object_field_def job_of_def)
next
  case False
  then have "get_job k tbl \<noteq> None" by (simp add: get_job_def)
  from job_rows.load_save [OF this objects_plain_job_rows, of p now phase payload]
  show ?thesis unfolding if_not_P [OF False] .
qed

text \<open>An input submitted for a key is what the next poll of that key returns, and the waiter
  stops there.\<close>

theorem submitted_input_is_seen:
  assumes "dget tbl k \<noteq> None" and "v \<noteq> JNull"
  shows "\<exists>tbl'. db_poll now deadline k key (db_submit now0 k key v tbl) = Answered v tbl'"
  by (rule job_rows.poll_submitted [OF _ objects_plain_job_rows assms(2)])
    (use assms(1) get_job_present in blast)

text \<open>Two submissions can lose one: when both requests read the record before either writes, the
  second write puts back the inputs as it read them, and the first answer is gone although its
  submission returned normally.\<close>

theorem concurrent_submissions_lose_an_input:
  assumes "dget tbl k \<noteq> None" and "key1 \<noteq> key2"
    and "dget (object_field (get_job k tbl) ''inputs'') key1 = None"
  shows "dget (object_field (get_job k (client_write n2 k (input_fields (get_job k tbl) key2 v2)
             (client_write n1 k (input_fields (get_job k tbl) key1 v1) tbl))) ''inputs'') key1 = None"
proof -
  have "get_job k tbl \<noteq> None" using assms(1) get_job_present by blast
  from job_rows.raced_inputs [OF this objects_plain_job_rows, of n2 key2 v2 n1 key1 v1] assms(2,3)
  show ?thesis by simp
qed

text \<open>A job paused this way is out of reach of the cancel call: after \<open>wait_for_input\<close> has
  parked it, \<open>cancel_active_job\<close> refuses and changes nothing.\<close>

theorem parked_job_cannot_be_cancelled:
  assumes "dget tbl k = Some r"
  shows "cancel_active_job now2 k (begin_wait get_job client_write now k key prompt tbl) =
    (False, begin_wait get_job client_write now k key prompt tbl)"
proof -
  have "string_status (waiting_fields j now key prompt)" and "jget (waiting_fields j now key prompt) ''status'' = JStr ''waiting''" for j
    by (simp_all add: waiting_fields_def string_status_def jget_Cons)
  with assms show ?thesis
    by (simp add: begin_wait_def client_write_def client_update_eq cancel_active_job_def updated_row_def
        new_status_def active_status_def)
qed

section \<open>Witnesses\<close>

theorem submitted_input_is_seen_witness:
  "\<exists>tbl'. db_poll 9 None demo_key ''title'' (db_submit 5 demo_key ''title'' (JStr ''A'') [(demo_key, demo_row ''waiting'' [])]) =
     Answered (JStr ''A'') tbl'"
  by (rule submitted_input_is_seen) simp_all

theorem concurrent_submissions_lose_an_input_witness:
  "let tbl = [(demo_key, demo_row ''waiting'' [])]; j = get_job demo_key tbl in
   dget (object_field (get_job demo_key (client_write 6 demo_key (input_fields j ''b'' (JStr ''B''))
             (client_write 5 demo_key (input_fields j ''a'' (JStr ''A'')) tbl))) ''inputs'') ''a'' = None"
  unfolding Let_def
  by (rule concurrent_submissions_lose_an_input)
    (simp_all add: object_field_def job_of_def get_job_def jget_row_to_dict)

theorem parked_job_cannot_be_cancelled_witness:
  "fst (cancel_active_job 6 demo_key (begin_wait get_job client_write 5 demo_key ''a'' JNull
      [(demo_key, demo_row ''running'' [])])) = False"
  using parked_job_cannot_be_cancelled [of "[(demo_key, demo_row ''running'' [])]" demo_key "demo_row ''running'' []"]
  by simp

end
