(* ===== verification/Hitl.thy ===== *)
theory Hitl
  imports TaskModels
begin

text \<open>
  The human-in-the-loop gate helpers (\<^verbatim>\<open>backend/agents/software_engineering_team/hitl.py\<close>): cleaning
  an agent's questions and options, deciding which questions are still unanswered, matching
  answers to questions, and the loop that waits for answers. A function whose source can raise on
  malformed values returns an option, \<open>None\<close> being the uncaught exception. \<open>str()\<close> of a container
  or timestamp is the parameter \<open>rep\<close>; a fresh \<open>uuid\<close> suffix is the parameter \<open>fresh\<close>.
\<close>

section \<open>Options\<close>

record question_option =
  opt_id :: string
  opt_label :: string
  opt_default :: bool

definition option_json :: "question_option \<Rightarrow> json" where
  "option_json opn = JDict [(''id'', JStr (opt_id opn)), (''label'', JStr (opt_label opn)),
                          (''is_default'', JBool (opt_default opn))]"

definition generic_option_ids :: "string list" where
  "generic_option_ids = [''yes'', ''no'', ''not_sure'']"

definition generic_option_labels :: "string list" where
  "generic_option_labels =
     [''yes'', ''no'', ''not sure'', ''not_sure'', ''not sure / need more info'', ''other'',
      ''other (specify)'', ''other (please specify)'', ''other (free text)'']"

fun normalize_loop :: "(json \<Rightarrow> string) \<Rightarrow> json list \<Rightarrow> string list \<Rightarrow> question_option list" where
  "normalize_loop rep [] seen = []"
| "normalize_loop rep (JDict d # rest) seen =
     (if \<not> truthy (jget d ''id'') then normalize_loop rep rest seen
      else
        let oid = str_strip (py_str rep (jget d ''id'')) in
        if oid = [] \<or> str_lower oid = ''other'' \<or> str_lower oid \<in> set seen
        then normalize_loop rep rest seen
        else \<lparr>opt_id = oid, opt_label = str_strip (py_str rep (jor (jget d ''label'') (JStr oid))),
              opt_default = truthy (jget_or d ''is_default'' (JBool False))\<rparr>
             # normalize_loop rep rest (str_lower oid # seen))"
| "normalize_loop rep (v # rest) seen = normalize_loop rep rest seen"

definition normalize_options :: "(json \<Rightarrow> string) \<Rightarrow> json \<Rightarrow> question_option list option" where
  "normalize_options rep raw = map_option (\<lambda>xs. normalize_loop rep xs []) (iterate raw)"

definition generic_option :: "question_option \<Rightarrow> bool" where
  "generic_option opn \<longleftrightarrow>
     str_lower (opt_id opn) \<in> set generic_option_ids \<or> str_lower (opt_label opn) \<in> set generic_option_labels"

definition filter_generic_options :: "question_option list \<Rightarrow> question_option list" where
  "filter_generic_options opts = filter (\<lambda>opn. \<not> generic_option opn) opts"

section \<open>Questions\<close>

definition question_text :: "(json \<Rightarrow> string) \<Rightarrow> json \<Rightarrow> string" where
  "question_text rep q =
     (case q of
        JDict d \<Rightarrow> py_str rep (jor (jget d ''question_text'') (jor (jget d ''text'') (jor (jget d ''question'') (JStr []))))
      | _ \<Rightarrow> py_str rep q)"

definition structured_question :: "string \<Rightarrow> string \<Rightarrow> json \<Rightarrow> question_option list \<Rightarrow> string \<Rightarrow> json" where
  "structured_question qid text context opts source =
     JDict [(''id'', JStr qid), (''question_text'', JStr text), (''context'', context),
            (''options'', JList (map option_json opts)), (''required'', JBool True), (''source'', JStr source)]"

fun convert_loop ::
  "(json \<Rightarrow> string) \<Rightarrow> (nat \<Rightarrow> string) \<Rightarrow> string \<Rightarrow> nat \<Rightarrow> json list \<Rightarrow> json list option" where
  "convert_loop rep fresh source idx [] = Some []"
| "convert_loop rep fresh source idx (q # qs) =
     (let text = str_strip (question_text rep q);
          minted = source @ ''_'' @ nat_str idx @ ''_'' @ fresh idx in
      if text = [] then convert_loop rep fresh source (idx + 1) qs
      else
        case (case q of
                JDict d \<Rightarrow>
                  map_option (\<lambda>opts. structured_question (py_str rep (jor (jget d ''id'') (JStr minted))) text
                      (jget d ''context'') (filter_generic_options opts) source)
                    (normalize_options rep (jget d ''options''))
              | _ \<Rightarrow> Some (structured_question minted text JNull [] source)) of
          None \<Rightarrow> None
        | Some s \<Rightarrow> map_option (\<lambda>ss. s # ss) (convert_loop rep fresh source (idx + 1) qs))"

definition convert_to_structured_questions ::
  "(json \<Rightarrow> string) \<Rightarrow> (nat \<Rightarrow> string) \<Rightarrow> json list \<Rightarrow> string \<Rightarrow> json list option" where
  "convert_to_structured_questions rep fresh questions source = convert_loop rep fresh source 0 questions"

fun open_loop :: "(json \<Rightarrow> string) \<Rightarrow> json list \<Rightarrow> json list option" where
  "open_loop rep [] = Some []"
| "open_loop rep (q # qs) =
     (let text = str_strip (question_text rep q) in
      if text = [] then open_loop rep qs
      else
        case (case q of
                JDict d \<Rightarrow>
                  map_option (\<lambda>opts. let kept = filter_generic_options opts in
                      JDict ([(''question_text'', JStr text)] @
                        (if truthy (jget d ''context'') then [(''context'', JStr (py_str rep (jget d ''context'')))] else []) @
                        [(''options'', JList (if 2 \<le> length kept then map option_json kept else []))]))
                    (normalize_options rep (jget d ''options''))
              | _ \<Rightarrow> Some (JDict [(''question_text'', JStr text), (''options'', JList [])])) of
          None \<Rightarrow> None
        | Some e \<Rightarrow> map_option (\<lambda>es. e # es) (open_loop rep qs))"

definition normalize_open_questions :: "(json \<Rightarrow> string) \<Rightarrow> json \<Rightarrow> json list option" where
  "normalize_open_questions rep raw = (case raw of JList qs \<Rightarrow> open_loop rep qs | _ \<Rightarrow> Some [])"

section \<open>Coverage\<close>

definition normalize_key :: "string \<Rightarrow> string" where
  "normalize_key text = str_join '' '' (str_split (str_lower text))"

text \<open>The keys of the resolved records that carry a question text.\<close>

fun answered_keys :: "json list \<Rightarrow> string list option" where
  "answered_keys [] = Some []"
| "answered_keys (JDict r # rest) =
     (if truthy (jget r ''question_text'')
      then case str_or_empty (jget r ''question_text'') of
             None \<Rightarrow> None
           | Some t \<Rightarrow> map_option (\<lambda>ks. normalize_key t # ks) (answered_keys rest)
      else answered_keys rest)"
| "answered_keys (v # rest) = answered_keys rest"

definition unanswered_questions ::
  "(json \<Rightarrow> string) \<Rightarrow> json list \<Rightarrow> json list \<Rightarrow> json list option" where
  "unanswered_questions rep questions resolved =
     (if questions = [] then Some []
      else map_option (\<lambda>ks. filter (\<lambda>q. normalize_key (question_text rep q) \<notin> set ks) questions)
             (answered_keys resolved))"

fun by_id :: "json list \<Rightarrow> (json, jdict) pydict \<Rightarrow> (json, jdict) pydict" where
  "by_id [] acc = acc"
| "by_id (JDict q # rest) acc = by_id rest (dset acc (jget q ''id'') q)"
| "by_id (v # rest) acc = by_id rest acc"

text \<open>The label of the first option whose id matches, \<open>None\<close> when a lookup raises.\<close>

fun option_label :: "string \<Rightarrow> json list \<Rightarrow> json option" where
  "option_label selected [] = Some (JStr [])"
| "option_label selected (JDict opn # rest) =
     (case str_or_empty (jget opn ''id'') of
        None \<Rightarrow> None
      | Some i \<Rightarrow>
          if str_lower i = str_lower selected then Some (jor (jget opn ''label'') (JStr selected))
          else option_label selected rest)"
| "option_label selected (v # rest) = None"

definition resolve_answer :: "jdict \<Rightarrow> json \<Rightarrow> jdict \<Rightarrow> json option" where
  "resolve_answer a qid q =
     (case (str_or_empty (jor (jget a ''selected_option_id'') (jget a ''selected_answer'')), iterate (jget q ''options'')) of
        (Some sel, Some opts) \<Rightarrow>
          (let selected = str_strip sel; other = jor (jget a ''other_text'') (JStr []) in
           case option_label selected opts of
             None \<Rightarrow> None
           | Some label \<Rightarrow>
               Some (JDict
                 [(''question_id'', qid), (''question_text'', jget_or q ''question_text'' (JStr [])),
                  (''answer'', if (str_lower selected = ''other'' \<or> \<not> truthy label) \<and> truthy other
                               then other else jor label (JStr selected)),
                  (''selected_option_id'', JStr selected), (''other_text'', other)]))
      | _ \<Rightarrow> None)"

fun resolve_loop :: "(json, jdict) pydict \<Rightarrow> json list \<Rightarrow> json list option" where
  "resolve_loop ids [] = Some []"
| "resolve_loop ids (JDict a # rest) =
     (let qid = jor (jget a ''question_id'') (jget a ''id'') in
      if \<not> hashable qid then None
      else case dget ids qid of
        None \<Rightarrow> resolve_loop ids rest
      | Some q \<Rightarrow>
          (case resolve_answer a qid q of
             None \<Rightarrow> None
           | Some r \<Rightarrow> map_option (\<lambda>rs. r # rs) (resolve_loop ids rest)))"
| "resolve_loop ids (v # rest) = resolve_loop ids rest"

definition answers_to_resolved :: "json list \<Rightarrow> json list \<Rightarrow> json list option" where
  "answers_to_resolved submitted pending =
     (if list_all (\<lambda>q. is_dict q \<longrightarrow> hashable (jget (dict_of q) ''id'')) pending
      then resolve_loop (by_id pending []) submitted else None)"

section \<open>Rendering\<close>

definition decision_qa :: "(json \<Rightarrow> string) \<Rightarrow> jdict \<Rightarrow> string \<times> string" where
  "decision_qa rep e =
     (py_str rep (jor (jget e ''question_text'') (jor (jget e ''question'') (jor (jget e ''question_id'') (JStr [])))),
      py_str rep (jor (jget e ''answer'') (jor (jget e ''selected_answer'')
        (jor (jget e ''other_text'') (jor (jget e ''selected_option_id'') (JStr []))))))"

text \<open>The arrow in UTF-8.\<close>

definition arrow :: string where
  "arrow = [CHR '' '', CHR 0xE2, CHR 0x86, CHR 0x92, CHR '' '']"

definition render_decision_line :: "(json \<Rightarrow> string) \<Rightarrow> jdict \<Rightarrow> string" where
  "render_decision_line rep e =
     (let (q, a) = decision_qa rep e in if q \<noteq> [] then q @ arrow @ a else a)"

fun decision_lines_loop :: "(json \<Rightarrow> string) \<Rightarrow> json list \<Rightarrow> string list" where
  "decision_lines_loop rep [] = []"
| "decision_lines_loop rep (JDict r # rest) =
     (let line = render_decision_line rep r in
      if line \<noteq> [] then line # decision_lines_loop rep rest else decision_lines_loop rep rest)"
| "decision_lines_loop rep (v # rest) = decision_lines_loop rep rest"

definition resolved_decision_lines :: "(json \<Rightarrow> string) \<Rightarrow> json \<Rightarrow> string list option" where
  "resolved_decision_lines rep records = map_option (decision_lines_loop rep) (iterate records)"

section \<open>Waiting\<close>

definition terminal_success_statuses :: "string list" where
  "terminal_success_statuses =
     map job_status_value [JS_COMPLETED, JS_COMPLETED_WITH_FAILURES, JS_ALREADY_COMPLETE]"

definition terminal_statuses :: "string list" where
  "terminal_statuses = terminal_success_statuses @ map job_status_value [JS_FAILED, JS_CANCELLED]"

definition is_terminal :: "jdict \<Rightarrow> bool" where
  "is_terminal job \<longleftrightarrow>
     job \<noteq> [] \<and>
     (truthy (jget job ''cancel_requested'') \<or> jget job ''status'' = JStr ''cancelled'' \<or>
      jget job ''status'' \<in> set (map JStr terminal_statuses))"

definition answer_wait_timeout_s :: "int \<Rightarrow> int" where
  "answer_wait_timeout_s parsed = (if parsed > 0 then parsed else 3600)"

text \<open>What one poll of the job store gives: a record (or nothing), one of the transient transport
  errors, or any other exception. The list of polls, with the clock at each loop test, is what
  the world does; the last clock ends the wait by timeout.\<close>

datatype poll_read = ReadJob "jdict option" | TransientError | OtherError

datatype wait_result = Resumed nat | Stopped nat | Expired nat | Raised nat | StillWaiting nat

text \<open>The number counts the heartbeats written.\<close>

fun answer_wait_loop :: "int \<Rightarrow> int \<Rightarrow> (int \<times> poll_read) list \<Rightarrow> nat \<Rightarrow> wait_result" where
  "answer_wait_loop start timeout [] beats = StillWaiting beats"
| "answer_wait_loop start timeout ((clock, read) # rest) beats =
     (if \<not> clock - start < timeout then Expired beats
      else case read of
        TransientError \<Rightarrow> answer_wait_loop start timeout rest (beats + 1)
      | OtherError \<Rightarrow> Raised beats
      | ReadJob j \<Rightarrow>
          let job = (case j of None \<Rightarrow> [] | Some d \<Rightarrow> d) in
          if \<not> truthy (jget_or job ''waiting_for_answers'' (JBool False)) then Resumed beats
          else if is_terminal job then Stopped beats
          else answer_wait_loop start timeout rest (beats + 1))"

definition wait_for_answers :: "int \<Rightarrow> int \<Rightarrow> (int \<times> poll_read) list \<Rightarrow> wait_result" where
  "wait_for_answers start timeout polls = answer_wait_loop start timeout polls 0"

end
