(* ===== verification/PauseCycle.thy ===== *)
theory PauseCycle
  imports Hitl
begin

text \<open>
  The pause and resume cycle of a human decision
  (\<^verbatim>\<open>backend/agents/software_engineering_team/pause_cycle.py\<close>). The cycle talks to the job store
  through two callables: what \<open>get_job_fn\<close> answers and what the clock and \<open>uuid4\<close> give are the fields
  of a \<open>pause_world\<close>, the calls of \<open>update_fn\<close> and \<open>on_pause\<close> are the list of effects, in their order.
  A call of \<open>update_fn\<close> is taken to return; the merge it performs on the record is
  \<open>apply_effects\<close>. The properties: one atomic pause envelope, a paused run that re-enters with the same
  payload, a settled record after every block-mode pause, and a planning loop that fails closed.
\<close>

section \<open>Tokens, kinds and contexts\<close>

text \<open>\<open>None\<close> is \<open>ValueError\<close>; \<open>hex\<close> is the fresh \<open>uuid4().hex\<close>.\<close>

definition mint_resume_token :: "string \<Rightarrow> string \<Rightarrow> string option" where
  "mint_resume_token hex job_id = (if job_id = [] then None else Some (job_id @ '':'' @ take 12 hex))"

definition starts_with :: "string \<Rightarrow> string \<Rightarrow> bool" where
  "starts_with s p \<longleftrightarrow> take (length p) s = p"

definition pause_kind_for_source :: "string \<Rightarrow> string option" where
  "pause_kind_for_source source =
     (if source = ''plan_input'' then Some ''entry''
      else if source = ''tech_lead'' then Some ''tech_lead_clarify''
      else if starts_with source ''engineer:'' then Some ''worker_escalation''
      else None)"

definition pause_context_for_source :: "string \<Rightarrow> string \<Rightarrow> json option" where
  "pause_context_for_source source kind =
     (if pause_kind_for_source source \<noteq> Some kind then None
      else if kind \<noteq> ''worker_escalation'' then Some JNull
      else let task_id = drop (length ''engineer:'') source in
        if task_id = [] then None
        else Some (JDict [(''task_ids'', JList [JStr task_id])]))"

section \<open>Re-entry\<close>

text \<open>The acknowledged token is \<open>JNull\<close> or a \<open>JStr\<close>.\<close>

definition check_pending_pause_reentry :: "jdict \<Rightarrow> json \<Rightarrow> jdict option" where
  "check_pending_pause_reentry job ack =
     (if \<not> truthy (jget job ''waiting_for_answers'') then None
      else let token = jget job ''resume_token'' in
        if \<not> truthy token then None
        else Some [(''consume'', JBool (ack = token)), (''resume_token'', token),
                   (''pause_kind'', jget job ''pause_kind''), (''pause_context'', jget job ''pause_context''),
                   (''pending_questions'', jor (jget job ''pending_questions'') (JList []))])"

section \<open>Decisions\<close>

definition decisions_preamble :: string where
  "decisions_preamble = ''The user answered the open question(s) you raised. Implement these decisions exactly; '' @
     ''do not ask again:'' @ [CHR 0x0A]"

definition format_decisions :: "(json \<Rightarrow> string) \<Rightarrow> json list \<Rightarrow> string" where
  "format_decisions rep resolved =
     (let body = str_join [CHR 0x0A] (map (\<lambda>ln. ''- '' @ ln) (decision_lines_loop rep resolved)) in
      if body = [] then [] else decisions_preamble @ body)"

text \<open>The fields of \<open>CodingTeamPlanInput\<close> the cycle reads and writes; the others are the record's rest.\<close>

record plan_input =
  resolved_questions :: "json list option"
  open_questions :: "string list"

definition resolved_list :: "'p plan_input_scheme \<Rightarrow> json list" where
  "resolved_list p = (case resolved_questions p of None \<Rightarrow> [] | Some rs \<Rightarrow> rs)"

definition persisted_record :: "jdict \<Rightarrow> json" where
  "persisted_record a =
     JDict [(''question_id'', jget a ''question_id''),
            (''question_text'', jget_or a ''question_text'' (JStr [])),
            (''answer'', jor (jget a ''other_text'') (jor (jget a ''selected_option_id'') (JStr []))),
            (''selected_option_id'', jget_or a ''selected_option_id'' (JStr [])),
            (''other_text'', jget_or a ''other_text'' (JStr []))]"

text \<open>\<open>None\<close> is the \<open>TypeError\<close> of an id that cannot be a set member.\<close>

fun hydrate_loop :: "json set \<Rightarrow> json list \<Rightarrow> json list option" where
  "hydrate_loop ids [] = Some []"
| "hydrate_loop ids (JDict a # rest) =
     (let qid = jget a ''question_id'' in
      if \<not> hashable qid then None
      else if qid \<in> ids then hydrate_loop ids rest
      else map_option (\<lambda>rs. persisted_record a # rs) (hydrate_loop ids rest))"
| "hydrate_loop ids (v # rest) = hydrate_loop ids rest"

definition record_ids :: "json list \<Rightarrow> json list" where
  "record_ids rs = map (\<lambda>r. jget (dict_of r) ''question_id'') (filter is_dict rs)"

definition hydrate_resolved_from_record :: "'p plan_input_scheme \<Rightarrow> jdict \<Rightarrow> 'p plan_input_scheme option" where
  "hydrate_resolved_from_record p job =
     (let submitted = jget job ''submitted_answers'' in
      if \<not> truthy submitted then Some p
      else let existing = resolved_list p; ids = record_ids existing in
        if \<not> list_all hashable ids then None
        else case iterate submitted of
          None \<Rightarrow> None
        | Some as \<Rightarrow> map_option (\<lambda>added. p\<lparr>resolved_questions := Some (existing @ added)\<rparr>)
                       (hydrate_loop (set ids) as))"

section \<open>One pause\<close>

datatype pause_effect = JobUpdate jdict | PauseNotice "json list"

datatype pause_outcome =
    PauseDone "json list" bool
  | PauseSignal jdict
  | PauseValueError
  | PauseRaised
  | PauseBlocked

text \<open>What the world does during one pause: the fresh ids and the token's hex digits, the readings of
  \<open>heartbeat_timestamp\<close> (the first one goes with the pause itself), the read that pins
  \<open>last_activity_at\<close>, how often the lease is renewed while \<open>on_pause\<close> runs, the polls of the wait loop, and
  the one read after it.\<close>

record pause_world =
  pw_fresh :: "nat \<Rightarrow> string"
  pw_hex :: string
  pw_clock :: "nat \<Rightarrow> json"
  pw_pin :: poll_read
  pw_renewals :: nat
  pw_start :: int
  pw_timeout :: int
  pw_polls :: "(int \<times> poll_read) list"
  pw_after :: poll_read

definition last_activity_kw :: "json \<Rightarrow> jdict" where
  "last_activity_kw pinned = (if pinned \<noteq> JNull then [(''last_activity_at'', pinned)] else [])"

definition read_record :: "poll_read \<Rightarrow> jdict" where
  "read_record r = (case r of ReadJob (Some d) \<Rightarrow> d | _ \<Rightarrow> [])"

definition pin_last_activity_at :: "poll_read \<Rightarrow> json" where
  "pin_last_activity_at r = jget (read_record r) ''last_activity_at''"

definition heartbeat_update :: "json \<Rightarrow> json \<Rightarrow> pause_effect" where
  "heartbeat_update pinned ts = JobUpdate ((''answer_wait_heartbeat_at'', ts) # last_activity_kw pinned)"

definition heartbeats :: "pause_world \<Rightarrow> json \<Rightarrow> nat \<Rightarrow> nat \<Rightarrow> pause_effect list" where
  "heartbeats w pinned from n = map (\<lambda>i. heartbeat_update pinned (pw_clock w i)) [from..<from + n]"

text \<open>The callback is entered before the first renewal is due; its exceptions are swallowed, and a renewer
  that could not be started renews zero times.\<close>

definition run_on_pause_with_lease_renewal :: "pause_world \<Rightarrow> json list \<Rightarrow> json \<Rightarrow> pause_effect list" where
  "run_on_pause_with_lease_renewal w structured pinned =
     PauseNotice structured # heartbeats w pinned 1 (pw_renewals w)"

definition timed_out_update :: jdict where
  "timed_out_update =
     [(''status'', JStr ''failed''), (''phase'', JStr ''completed''),
      (''status_text'', JStr ''Timed out waiting for user answers''),
      (''error'', JStr ''Timed out waiting for user answers''), (''waiting_for_answers'', JBool False)]"

definition resume_update :: jdict where
  "resume_update =
     [(''status'', JStr ''running''), (''phase'', JStr ''coding''),
      (''status_text'', JStr ''Resuming after user answers''), (''waiting_for_answers'', JBool False),
      (''pending_questions'', JList [])]"

definition give_up :: "pause_world \<Rightarrow> pause_effect list \<times> pause_outcome" where
  "give_up w = ((if is_terminal (read_record (pw_after w)) then [] else [JobUpdate timed_out_update]), PauseDone [] False)"

definition collect_answers :: "pause_world \<Rightarrow> json list \<Rightarrow> pause_effect list \<times> pause_outcome" where
  "collect_answers w structured =
     (case Option.bind (iterate (jget (read_record (pw_after w)) ''submitted_answers''))
             (\<lambda>submitted. answers_to_resolved submitted structured) of
        None \<Rightarrow> ([], PauseRaised)
      | Some resolved \<Rightarrow> ([JobUpdate resume_update], PauseDone resolved True))"

text \<open>\<open>from\<close> is the number of clock readings taken before.\<close>

definition wait_and_collect_answers ::
  "pause_world \<Rightarrow> json list \<Rightarrow> json \<Rightarrow> nat \<Rightarrow> pause_effect list \<times> pause_outcome" where
  "wait_and_collect_answers w structured pinned from =
     (case wait_for_answers (pw_start w) (pw_timeout w) (pw_polls w) of
        Resumed n \<Rightarrow> apfst (\<lambda>es. heartbeats w pinned from n @ es) (collect_answers w structured)
      | Stopped n \<Rightarrow> apfst (\<lambda>es. heartbeats w pinned from n @ es) (give_up w)
      | Expired n \<Rightarrow> apfst (\<lambda>es. heartbeats w pinned from n @ es) (give_up w)
      | Raised n \<Rightarrow> (heartbeats w pinned from n, PauseRaised)
      | StillWaiting n \<Rightarrow> (heartbeats w pinned from n, PauseBlocked))"

definition waiting_status :: string where
  "waiting_status = job_status_value JS_WAITING_FOR_USER"

definition pause_envelope :: "pause_world \<Rightarrow> json list \<Rightarrow> jdict" where
  "pause_envelope w structured =
     [(''status'', JStr waiting_status), (''phase'', JStr ''paused''),
      (''status_text'', JStr (''Waiting for '' @ nat_str (length structured) @ '' decision(s) from the user'')),
      (''waiting_for_answers'', JBool True), (''pending_questions'', JList structured),
      (''answer_wait_heartbeat_at'', pw_clock w 0)]"

text \<open>The fields only return mode adds, \<open>None\<close> for a \<open>ValueError\<close> of one of the three helpers.\<close>

definition resume_fields :: "pause_world \<Rightarrow> string \<Rightarrow> string \<Rightarrow> jdict option" where
  "resume_fields w job_id source =
     Option.bind (pause_kind_for_source source) (\<lambda>kind.
     Option.bind (pause_context_for_source source kind) (\<lambda>context.
     map_option (\<lambda>token. [(''resume_token'', JStr token), (''pause_kind'', JStr kind), (''pause_context'', context)])
       (mint_resume_token (pw_hex w) job_id)))"

definition run_pause_cycle ::
  "(json \<Rightarrow> string) \<Rightarrow> pause_world \<Rightarrow> string \<Rightarrow> json \<Rightarrow> string \<Rightarrow> bool \<Rightarrow> string \<Rightarrow> pause_effect list \<times> pause_outcome" where
  "run_pause_cycle rep w job_id questions source notify strategy =
     (if strategy \<noteq> ''block'' \<and> strategy \<noteq> ''return'' then ([], PauseValueError)
      else case Option.bind (iterate questions) (\<lambda>qs. convert_to_structured_questions rep (pw_fresh w) qs source) of
        None \<Rightarrow> ([], PauseRaised)
      | Some structured \<Rightarrow>
          if structured = [] then ([], PauseDone [] True)
          else if strategy = ''return'' then
            (case resume_fields w job_id source of
               None \<Rightarrow> ([], PauseValueError)
             | Some fs \<Rightarrow> ([JobUpdate (dupdate (pause_envelope w structured) fs)],
                           PauseSignal (fs @ [(''pending_questions'', JList structured)])))
          else
            let pinned = pin_last_activity_at (pw_pin w);
                notice = (if notify then run_on_pause_with_lease_renewal w structured pinned else []);
                from = (if notify then 1 + pw_renewals w else 1)
            in apfst (\<lambda>es. JobUpdate (pause_envelope w structured) # notice @ es)
                 (wait_and_collect_answers w structured pinned from))"

section \<open>Planning\<close>

definition max_tech_lead_question_rounds :: int where
  "max_tech_lead_question_rounds = 5"

datatype plan_outcome = Planned jdict | NotPlanned | PlanStopped pause_outcome

text \<open>The tech lead and the pause cycle are called once per round: their answers are functions of the round,
  the tech lead's also of the plan it is shown.\<close>

fun plan_rounds ::
  "(nat \<Rightarrow> 'p plan_input_scheme \<Rightarrow> jdict) \<Rightarrow> (nat \<Rightarrow> json \<Rightarrow> string \<Rightarrow> pause_outcome) \<Rightarrow> nat \<Rightarrow> nat \<Rightarrow>
   'p plan_input_scheme \<Rightarrow> 'p plan_input_scheme \<times> plan_outcome" where
  "plan_rounds lead pause i 0 p = (p, NotPlanned)"
| "plan_rounds lead pause i (Suc n) p =
     (let out = lead i p; questions = jor (jget out ''open_questions'') (JList []) in
      if \<not> truthy questions then (p, Planned out)
      else case pause i questions ''tech_lead'' of
        PauseDone resolved ok \<Rightarrow>
          if \<not> ok then (p, NotPlanned)
          else plan_rounds lead pause (i + 1) n
                 (p\<lparr>resolved_questions := Some (resolved_list p @ resolved), open_questions := []\<rparr>)
      | stop \<Rightarrow> (p, PlanStopped stop))"

definition plan_with_hitl ::
  "(nat \<Rightarrow> 'p plan_input_scheme \<Rightarrow> jdict) \<Rightarrow> (nat \<Rightarrow> json \<Rightarrow> string \<Rightarrow> pause_outcome) \<Rightarrow> int option \<Rightarrow>
   'p plan_input_scheme \<Rightarrow> 'p plan_input_scheme \<times> plan_outcome" where
  "plan_with_hitl lead pause max_rounds p =
     (let rounds = (case max_rounds of None \<Rightarrow> max_tech_lead_question_rounds | Some m \<Rightarrow> m) in
      plan_rounds lead pause 0 (nat rounds) p)"

end
