(* ===== verification/HitlValidation.thy ===== *)
theory HitlValidation
  imports Hitl
begin

text \<open>
  Validation of a submitted batch of answers (\<^verbatim>\<open>backend/shared/hitl/validation.py\<close>) and the gate's
  properties: option cleaning, fail-closed coverage, the wait loop, and end to end, that a batch the
  validator accepts leaves no required question open.
\<close>

section \<open>Validation\<close>

record answer_submission =
  ans_question_id :: string
  ans_selected :: "string option"
  ans_other :: "string option"

datatype validation_error =
    NotWaiting | NoPending | CorruptedRecord | DuplicateAnswers "string list"
  | MissingAnswers "json list" | UnknownQuestions "string list"
  | OtherWithoutText string | UnknownOption string string | NoDecision string | Uncaught

definition has_id :: "json \<Rightarrow> bool" where
  "has_id q \<longleftrightarrow> (case q of JDict d \<Rightarrow> has_key d ''id'' | _ \<Rightarrow> False)"

definition qid_of :: "json \<Rightarrow> json" where
  "qid_of q = jget (dict_of q) ''id''"

definition is_required :: "json \<Rightarrow> bool" where
  "is_required q \<longleftrightarrow> truthy (jget_or (dict_of q) ''required'' (JBool True))"

fun duplicates :: "string list \<Rightarrow> string list \<Rightarrow> string list" where
  "duplicates seen [] = []"
| "duplicates seen (x # xs) = (if x \<in> set seen then x # duplicates seen xs else duplicates (x # seen) xs)"

text \<open>\<open>{o.get("id") for o in (q.get("options") or [])}\<close>; an option that is no object raises.\<close>

definition option_ids :: "json \<Rightarrow> json list option" where
  "option_ids q =
     (case iterate (jget (dict_of q) ''options'') of
        None \<Rightarrow> None
      | Some os \<Rightarrow> if list_all (\<lambda>opn. is_dict opn \<and> hashable (jget (dict_of opn) ''id'')) os then Some (map (\<lambda>opn. jget (dict_of opn) ''id'') os) else None)"

text \<open>\<open>{q["id"]: ... for q in pending}\<close>: the last question with an id wins.\<close>

fun index_by_id :: "(json \<Rightarrow> 'a option) \<Rightarrow> json list \<Rightarrow> (json, 'a) pydict \<Rightarrow> (json, 'a) pydict option" where
  "index_by_id f [] acc = Some acc"
| "index_by_id f (q # qs) acc =
     (case f q of None \<Rightarrow> None | Some v \<Rightarrow> index_by_id f qs (dset acc (qid_of q) v))"

definition text_of_opt :: "string option \<Rightarrow> string" where
  "text_of_opt x = (case x of None \<Rightarrow> [] | Some s \<Rightarrow> s)"

definition check_answer :: "(json, json list) pydict \<Rightarrow> answer_submission \<Rightarrow> validation_error option" where
  "check_answer opts a =
     (let qid = ans_question_id a; other = str_strip (text_of_opt (ans_other a)) in
      if ans_selected a = Some ''other''
      then (if other = [] then Some (OtherWithoutText qid) else None)
      else if str_truthy (ans_selected a)
      then (let sel = text_of_opt (ans_selected a);
                offered = (case dget opts (JStr qid) of None \<Rightarrow> [] | Some ids \<Rightarrow> ids)
            in if JStr sel \<notin> set offered then Some (UnknownOption qid sel) else None)
      else if other = [] then Some (NoDecision qid) else None)"

fun first_bad :: "(json, json list) pydict \<Rightarrow> answer_submission list \<Rightarrow> validation_error option" where
  "first_bad opts [] = None"
| "first_bad opts (a # as) = (case check_answer opts a of Some e \<Rightarrow> Some e | None \<Rightarrow> first_bad opts as)"

definition answer_record :: "(json, json) pydict \<Rightarrow> answer_submission \<Rightarrow> json" where
  "answer_record texts a =
     (let qid = JStr (ans_question_id a) in
      JDict [(''question_id'', qid),
             (''question_text'', case dget texts qid of None \<Rightarrow> JStr [] | Some t \<Rightarrow> t),
             (''selected_option_id'', case ans_selected a of None \<Rightarrow> JNull | Some s \<Rightarrow> JStr s),
             (''other_text'', case ans_other a of None \<Rightarrow> JNull | Some s \<Rightarrow> JStr s)])"

definition text_index :: "json list \<Rightarrow> (json, json) pydict option" where
  "text_index pending = index_by_id (\<lambda>q. Some (jget_or (dict_of q) ''question_text'' (JStr []))) pending []"

text \<open>The checks in their order. Sorting the ids in a message is left out of the error value.\<close>

definition validate_answers :: "jdict \<Rightarrow> answer_submission list \<Rightarrow> validation_error + json list" where
  "validate_answers data answers =
     (if \<not> truthy (jget data ''waiting_for_answers'') then Inl NotWaiting
      else if \<not> truthy (jget_or data ''pending_questions'' (JList [])) then Inl NoPending
      else case iterate (jget data ''pending_questions'') of
        None \<Rightarrow> Inl Uncaught
      | Some pending \<Rightarrow>
          let answered = map ans_question_id answers;
              dupes = duplicates [] answered;
              missing = filter (\<lambda>i. i \<notin> set (map JStr answered)) (map qid_of (filter is_required pending));
              unknown = filter (\<lambda>i. JStr i \<notin> set (map qid_of pending)) answered in
          if \<not> list_all has_id pending then Inl CorruptedRecord
          else if \<not> list_all (\<lambda>q. hashable (qid_of q)) pending then Inl Uncaught
          else if dupes \<noteq> [] then Inl (DuplicateAnswers dupes)
          else if missing \<noteq> [] then Inl (MissingAnswers missing)
          else if unknown \<noteq> [] then Inl (UnknownQuestions unknown)
          else case index_by_id option_ids pending [] of
            None \<Rightarrow> Inl Uncaught
          | Some opts \<Rightarrow>
              (case first_bad opts answers of
                 Some e \<Rightarrow> Inl e
               | None \<Rightarrow>
                   (case text_index pending of
                      None \<Rightarrow> Inl Uncaught | Some texts \<Rightarrow> Inr (map (answer_record texts) answers))))"

section \<open>Option cleaning\<close>

lemma normalize_loop_clean:
  "distinct (map (\<lambda>c. str_lower (opt_id c)) (normalize_loop rep xs seen)) \<and>
   (\<forall>c \<in> set (normalize_loop rep xs seen).
      opt_id c \<noteq> [] \<and> str_lower (opt_id c) \<noteq> ''other'' \<and> str_lower (opt_id c) \<notin> set seen)"
proof (induction rep xs seen rule: normalize_loop.induct)
  case (2 rep d rest seen)
  let ?o = "str_strip (py_str rep (jget d ''id''))"
  show ?case
  proof (cases "truthy (jget d ''id'')")
    case True
    show ?thesis
    proof (cases "?o = [] \<or> str_lower ?o = ''other'' \<or> str_lower ?o \<in> set seen")
      case keep: False
      have step: "normalize_loop rep (JDict d # rest) seen =
          \<lparr>opt_id = ?o, opt_label = str_strip (py_str rep (jor (jget d ''label'') (JStr ?o))),
           opt_default = truthy (jget_or d ''is_default'' (JBool False))\<rparr>
          # normalize_loop rep rest (str_lower ?o # seen)"
        using True keep by (simp add: Let_def)
      from "2.IH"(3) [of ?o] True keep show ?thesis unfolding step by auto
    next
      case drop: True
      then have "normalize_loop rep (JDict d # rest) seen = normalize_loop rep rest seen"
        using True by (simp add: Let_def)
      with "2.IH"(2) [of ?o] True drop show ?thesis by simp
    qed
  next
    case False
    with "2.IH"(1) show ?thesis by simp
  qed
qed simp_all

text \<open>Cleaned options carry pairwise different ids, even up to case, none empty, and never the
  reserved id "other"; what the generic filter leaves of them is no yes/no/not-sure/other choice.\<close>

theorem normalized_options_clean:
  assumes "normalize_options rep raw = Some opts"
  shows "distinct (map (\<lambda>c. str_lower (opt_id c)) opts) \<and>
    (\<forall>c \<in> set opts. opt_id c \<noteq> [] \<and> str_lower (opt_id c) \<noteq> ''other'') \<and>
    (\<forall>c \<in> set (filter_generic_options opts). c \<in> set opts \<and>
       str_lower (opt_id c) \<notin> {''yes'', ''no'', ''not_sure''} \<and>
       str_lower (opt_label c) \<notin> {''yes'', ''no'', ''not sure'', ''not_sure'', ''other''})"
proof -
  from assms obtain xs where "opts = normalize_loop rep xs []" by (auto simp: normalize_options_def)
  with normalize_loop_clean [of rep xs "[]"] show ?thesis
    by (auto simp: filter_generic_options_def generic_option_def generic_option_ids_def generic_option_labels_def)
qed

theorem normalized_options_clean_witness:
  "\<exists>opts. normalize_options (\<lambda>v. []) (JList [JDict [(''id'', JStr '' A '')], JDict [(''id'', JStr ''a'')],
      JDict [(''id'', JStr ''Other'')], JDict [(''id'', JStr ''no'')]]) = Some opts \<and>
     map opt_id opts = [''A'', ''no''] \<and> distinct (map (\<lambda>c. str_lower (opt_id c)) opts)"
proof -
  let ?raw = "JList [JDict [(''id'', JStr '' A '')], JDict [(''id'', JStr ''a'')],
      JDict [(''id'', JStr ''Other'')], JDict [(''id'', JStr ''no'')]]"
  obtain opts where o: "normalize_options (\<lambda>v. []) ?raw = Some opts" by (simp add: normalize_options_def)
  have "map_option (map opt_id) (normalize_options (\<lambda>v. []) ?raw) = Some [''A'', ''no'']" by code_simp
  with o normalized_options_clean [OF o] show ?thesis by simp
qed

text \<open>Every question an agent's output is turned into keeps either no options, so the user
  answers in free text, or at least two, none of them generic; and no question is empty.\<close>

definition open_question_ok :: "json \<Rightarrow> bool" where
  "open_question_ok e \<longleftrightarrow>
     (\<exists>t opts. jget (dict_of e) ''question_text'' = JStr t \<and> t \<noteq> [] \<and>
        jget (dict_of e) ''options'' = JList (map option_json opts) \<and>
        length opts \<noteq> 1 \<and> (\<forall>c \<in> set opts. \<not> generic_option c))"

lemma open_question_plain: "t \<noteq> [] \<Longrightarrow> open_question_ok (JDict [(''question_text'', JStr t), (''options'', JList [])])"
  unfolding open_question_ok_def by (intro exI [of _ t] exI [of _ "[]"]) (simp add: jget_Cons)

lemma open_question_built:
  assumes "t \<noteq> []"
  shows "open_question_ok (JDict ([(''question_text'', JStr t)] @ (if b then [(''context'', c)] else []) @
     [(''options'', JList (if 2 \<le> length (filter_generic_options opts)
        then map option_json (filter_generic_options opts) else []))]))"
  unfolding open_question_ok_def
  using assms
  by (intro exI [of _ t] exI [of _ "if 2 \<le> length (filter_generic_options opts) then filter_generic_options opts else []"])
    (auto simp: jget_Cons filter_generic_options_def)

lemma open_loop_ok: "open_loop rep qs = Some out \<Longrightarrow> e \<in> set out \<Longrightarrow> open_question_ok e"
proof (induction qs arbitrary: out)
  case (Cons q qs)
  let ?t = "str_strip (question_text rep q)"
  show ?case
  proof (cases "?t = []")
    case True
    with Cons show ?thesis by (simp add: Let_def)
  next
    case False
    show ?thesis
    proof (cases q)
      case (JDict d)
      with False Cons.prems obtain opts rest where
        r: "normalize_options rep (jget d ''options'') = Some opts" "open_loop rep qs = Some rest"
        and out: "out = JDict ([(''question_text'', JStr ?t)] @
            (if truthy (jget d ''context'') then [(''context'', JStr (py_str rep (jget d ''context'')))] else []) @
            [(''options'', JList (if 2 \<le> length (filter_generic_options opts)
               then map option_json (filter_generic_options opts) else []))]) # rest"
        by (auto simp: Let_def split: option.splits)
      with Cons.IH [OF r(2)] Cons.prems(2) open_question_built [OF False] show ?thesis by auto
    qed (use False Cons open_question_plain in \<open>auto simp: Let_def split: option.splits\<close>)
  qed
qed simp

theorem open_questions_have_no_token_choice:
  assumes "normalize_open_questions rep raw = Some out" and "e \<in> set out"
  shows "open_question_ok e"
  using assms by (auto simp: normalize_open_questions_def intro: open_loop_ok split: json.splits)

theorem open_questions_have_no_token_choice_witness:
  "open_question_ok (JDict [(''question_text'', JStr ''Which db?''), (''options'', JList [])])"
proof (rule open_questions_have_no_token_choice [of "\<lambda>v. []"])
  show "normalize_open_questions (\<lambda>v. []) (JList [JStr '' Which db? '']) =
      Some [JDict [(''question_text'', JStr ''Which db?''), (''options'', JList [])]]" by code_simp
qed simp

section \<open>Coverage\<close>

lemma is_word_lower [simp]: "is_word (str_lower w) = is_word w"
  by (auto simp: is_word_def str_lower_def)

lemma str_lower_join: "str_lower (str_join '' '' ws) = str_join '' '' (map str_lower ws)"
  by (induction "'' ''" ws rule: str_join.induct) (auto simp: str_lower_append, simp_all add: str_lower_def lower_char_def)

lemma normalize_key_words: "normalize_key s = str_join '' '' (map str_lower (str_split s))"
  by (simp add: normalize_key_def str_split_lower)

text \<open>Two texts have the same comparison key exactly when they are the same words up to case;
  taking the key again changes nothing.\<close>

theorem normalize_key_exact:
  "(normalize_key s = normalize_key t \<longleftrightarrow> map str_lower (str_split s) = map str_lower (str_split t)) \<and>
   normalize_key (normalize_key s) = normalize_key s"
proof -
  have split: "str_split (normalize_key s) = map str_lower (str_split s)" for s
    unfolding normalize_key_words by (rule split_join) (auto dest: str_split_words)
  have "normalize_key (normalize_key s) = normalize_key s"
    unfolding normalize_key_words [of "normalize_key s"] split
    by (simp add: normalize_key_words comp_def)
  moreover have "map str_lower (str_split s) = map str_lower (str_split t)"
    if "normalize_key s = normalize_key t" using split [of s] split [of t] that by simp
  ultimately show ?thesis by (auto simp: normalize_key_words)
qed

definition covers :: "json \<Rightarrow> string \<Rightarrow> bool" where
  "covers r text \<longleftrightarrow>
     (\<exists>d t. r = JDict d \<and> truthy (jget d ''question_text'') \<and> jget d ''question_text'' = JStr t \<and>
            normalize_key t = normalize_key text)"

lemma answered_keys_covers:
  "answered_keys rs = Some ks \<Longrightarrow> normalize_key text \<in> set ks \<longleftrightarrow> (\<exists>r \<in> set rs. covers r text)"
proof (induction rs arbitrary: ks rule: answered_keys.induct)
  case (2 r rest)
  show ?case
  proof (cases "truthy (jget r ''question_text'')")
    case True
    with "2.prems" obtain t ks' where "str_or_empty (jget r ''question_text'') = Some t"
      "answered_keys rest = Some ks'" "ks = normalize_key t # ks'" by (auto split: option.splits)
    moreover from True calculation have "jget r ''question_text'' = JStr t"
      by (cases "jget r ''question_text''") auto
    ultimately show ?thesis using True "2.IH"(1) [OF True] by (auto simp: covers_def)
  next
    case False
    with 2 show ?thesis by (auto simp: covers_def)
  qed
qed (auto simp: covers_def)

text \<open>The gate fails closed: a question is reported open exactly when no resolved record carries
  a text that says the same words, never by counting answers; and the order is kept.\<close>

theorem unanswered_iff_no_matching_text:
  assumes "unanswered_questions rep questions resolved = Some left"
  shows "left = filter (\<lambda>q. \<not> (\<exists>r \<in> set resolved. covers r (question_text rep q))) questions"
proof (cases "questions = []")
  case False
  with assms obtain ks where k: "answered_keys resolved = Some ks"
    and l: "left = filter (\<lambda>q. normalize_key (question_text rep q) \<notin> set ks) questions"
    by (auto simp: unanswered_questions_def)
  show ?thesis unfolding l by (rule filter_cong) (simp_all add: answered_keys_covers [OF k])
qed (use assms in \<open>simp add: unanswered_questions_def\<close>)

theorem unanswered_iff_no_matching_text_witness:
  "\<not> covers (JDict [(''question_id'', JStr ''q1''), (''answer'', JStr ''yes'')]) (question_text (\<lambda>v. []) (JStr ''Why?''))"
proof -
  have "unanswered_questions (\<lambda>v. []) [JStr ''Why?''] [JDict [(''question_id'', JStr ''q1''), (''answer'', JStr ''yes'')]] =
      Some [JStr ''Why?'']" by code_simp
  from unanswered_iff_no_matching_text [OF this] show ?thesis by (auto split: if_splits)
qed

section \<open>The wait loop\<close>

definition poll_waits :: "int \<Rightarrow> int \<Rightarrow> int \<times> poll_read \<Rightarrow> bool" where
  "poll_waits start timeout p \<longleftrightarrow> fst p - start < timeout \<and>
     (snd p = TransientError \<or> (\<exists>j. snd p = ReadJob (Some j) \<and> truthy (jget j ''waiting_for_answers'') \<and> \<not> is_terminal j))"

lemma jget_or_false: "truthy (jget_or d k (JBool False)) = truthy (jget d k)"
  by (simp add: jget_or_def jget_def split: option.split)

lemma loop_step:
  "poll_waits start timeout p \<Longrightarrow>
     answer_wait_loop start timeout (p # ps) beats = answer_wait_loop start timeout ps (beats + 1)"
  by (cases p) (auto simp: poll_waits_def jget_or_false)

lemma answer_wait_loop_resumed:
  "answer_wait_loop start timeout polls beats = Resumed n \<longleftrightarrow>
     (\<exists>before clock j after. polls = before @ (clock, ReadJob j) # after \<and> n = beats + length before \<and>
        list_all (poll_waits start timeout) before \<and> clock - start < timeout \<and>
        \<not> truthy (jget (case j of None \<Rightarrow> [] | Some d \<Rightarrow> d) ''waiting_for_answers''))"
proof (induction polls arbitrary: beats)
  case (Cons p ps)
  obtain clock read where p: "p = (clock, read)" by fastforce
  show ?case
  proof (cases "poll_waits start timeout p")
    case True
    then have no: "\<not> (read = ReadJob j \<and> clock - start < timeout \<and>
        \<not> truthy (jget (case j of None \<Rightarrow> [] | Some d \<Rightarrow> d) ''waiting_for_answers''))" for j
      by (auto simp: poll_waits_def p)
    show ?thesis
      unfolding loop_step [OF True] Cons.IH
    proof (intro iffI; elim exE conjE)
      fix before c j after
      assume "ps = before @ (c, ReadJob j) # after" "n = beats + 1 + length before"
        "list_all (poll_waits start timeout) before" "c - start < timeout"
        "\<not> truthy (jget (case j of None \<Rightarrow> [] | Some d \<Rightarrow> d) ''waiting_for_answers'')"
      with True show "\<exists>before clock j after. p # ps = before @ (clock, ReadJob j) # after \<and>
          n = beats + length before \<and> list_all (poll_waits start timeout) before \<and>
          clock - start < timeout \<and> \<not> truthy (jget (case j of None \<Rightarrow> [] | Some d \<Rightarrow> d) ''waiting_for_answers'')"
        by (intro exI [of _ "p # before"] exI [of _ c] exI [of _ j] exI [of _ after]) simp
    next
      fix before c j after
      assume a: "p # ps = before @ (c, ReadJob j) # after" "n = beats + length before"
        "list_all (poll_waits start timeout) before" "c - start < timeout"
        "\<not> truthy (jget (case j of None \<Rightarrow> [] | Some d \<Rightarrow> d) ''waiting_for_answers'')"
      with no p obtain before' where "before = p # before'" by (cases before) auto
      with a show "\<exists>before clock j after. ps = before @ (clock, ReadJob j) # after \<and>
          n = beats + 1 + length before \<and> list_all (poll_waits start timeout) before \<and>
          clock - start < timeout \<and> \<not> truthy (jget (case j of None \<Rightarrow> [] | Some d \<Rightarrow> d) ''waiting_for_answers'')"
        by (intro exI [of _ before'] exI [of _ c] exI [of _ j] exI [of _ after]) simp
    qed
  next
    case False
    have "answer_wait_loop start timeout (p # ps) beats = Resumed n \<longleftrightarrow>
        (\<exists>j. read = ReadJob j \<and> n = beats \<and> clock - start < timeout \<and>
           \<not> truthy (jget (case j of None \<Rightarrow> [] | Some d \<Rightarrow> d) ''waiting_for_answers''))"
      using False unfolding p
      by (auto simp: poll_waits_def jget_or_false Let_def split: poll_read.split option.splits)
    also have "\<dots> \<longleftrightarrow> (\<exists>before c j after. p # ps = before @ (c, ReadJob j) # after \<and>
          n = beats + length before \<and> list_all (poll_waits start timeout) before \<and>
          c - start < timeout \<and> \<not> truthy (jget (case j of None \<Rightarrow> [] | Some d \<Rightarrow> d) ''waiting_for_answers''))"
      using False p by (auto simp: Cons_eq_append_conv)
    finally show ?thesis .
  qed
qed simp

text \<open>The wait resumes only on a read that shows the waiting flag down, in time, after polls that
  were all waiting or transient failures, with one heartbeat written for each of them; it never
  resumes on its own.\<close>

theorem resume_needs_cleared_flag:
  "wait_for_answers start timeout polls = Resumed n \<longleftrightarrow>
     (\<exists>before clock j after. polls = before @ (clock, ReadJob j) # after \<and> n = length before \<and>
        list_all (poll_waits start timeout) before \<and> clock - start < timeout \<and>
        \<not> truthy (jget (case j of None \<Rightarrow> [] | Some d \<Rightarrow> d) ''waiting_for_answers''))"
  by (simp add: wait_for_answers_def answer_wait_loop_resumed)

text \<open>The wait is bounded: once the clock has passed the timeout at some loop test, it has
  returned, whatever the job store did.\<close>

theorem wait_is_bounded:
  assumes "(clock, read) \<in> set polls" and "timeout \<le> clock - start"
  shows "\<forall>n. wait_for_answers start timeout polls \<noteq> StillWaiting n"
proof -
  have "answer_wait_loop start timeout polls beats \<noteq> StillWaiting n" for beats n
    using assms
    by (induction start timeout polls beats rule: answer_wait_loop.induct)
      (auto simp: Let_def split: poll_read.split)
  then show ?thesis by (simp add: wait_for_answers_def)
qed

theorem wait_is_bounded_witness:
  "\<forall>n. wait_for_answers 0 10 [(0, TransientError), (5, TransientError), (10, TransientError)] \<noteq> StillWaiting n"
  by (rule wait_is_bounded [of 10 TransientError]) simp_all

section \<open>From submission to coverage\<close>

lemma duplicates_Nil: "duplicates seen xs = [] \<longleftrightarrow> distinct xs \<and> set xs \<inter> set seen = {}"
  by (induction seen xs rule: duplicates.induct) auto

lemma first_bad_None: "first_bad opts as = None \<longleftrightarrow> (\<forall>a \<in> set as. check_answer opts a = None)"
  by (induction as) (auto split: option.splits)

lemma index_by_id_lookup:
  assumes "distinct (map qid_of qs)"
  shows "index_by_id f qs acc = Some idx \<Longrightarrow>
    (\<forall>q \<in> set qs. dget idx (qid_of q) = f q \<and> f q \<noteq> None) \<and>
    (\<forall>i. i \<notin> qid_of ` set qs \<longrightarrow> dget idx i = dget acc i)"
  using assms
proof (induction qs arbitrary: acc)
  case (Cons q qs)
  from Cons.prems obtain v where v: "f q = Some v" "index_by_id f qs (dset acc (qid_of q) v) = Some idx"
    by (auto split: option.splits)
  from Cons.IH [OF v(2)] Cons.prems(2) v(1) show ?case by auto
qed simp

text \<open>What an accepted batch is, spelled out on the checks.\<close>

lemma validate_Inr:
  assumes "validate_answers data answers = Inr recs"
  obtains pending opts texts where
    "iterate (jget data ''pending_questions'') = Some pending" "list_all has_id pending"
    "distinct (map ans_question_id answers)"
    "\<forall>q \<in> set pending. is_required q \<longrightarrow> qid_of q \<in> set (map (\<lambda>a. JStr (ans_question_id a)) answers)"
    "\<forall>a \<in> set answers. JStr (ans_question_id a) \<in> set (map qid_of pending)"
    "index_by_id option_ids pending [] = Some opts" "\<forall>a \<in> set answers. check_answer opts a = None"
    "text_index pending = Some texts" "recs = map (answer_record texts) answers"
proof -
  from assms obtain pending where p: "iterate (jget data ''pending_questions'') = Some pending"
    by (auto simp: validate_answers_def split: if_splits option.splits)
  with assms have ok: "list_all has_id pending" "duplicates [] (map ans_question_id answers) = []"
    "filter (\<lambda>i. i \<notin> set (map JStr (map ans_question_id answers))) (map qid_of (filter is_required pending)) = []"
    "filter (\<lambda>i. JStr i \<notin> set (map qid_of pending)) (map ans_question_id answers) = []"
    by (auto simp: validate_answers_def Let_def image_image split: if_splits)
  from assms p ok have "list_all (\<lambda>q. hashable (qid_of q)) pending"
    by (auto simp: validate_answers_def Let_def split: if_splits)
  note ok = ok this
  from assms p ok obtain opts where o: "index_by_id option_ids pending [] = Some opts" "first_bad opts answers = None"
    by (auto simp: validate_answers_def Let_def split: if_splits option.splits)
  from assms p ok o obtain texts where t: "text_index pending = Some texts" "recs = map (answer_record texts) answers"
    by (auto simp: validate_answers_def Let_def split: if_splits option.splits)
  have "\<forall>q \<in> set pending. is_required q \<longrightarrow> qid_of q \<in> set (map (\<lambda>a. JStr (ans_question_id a)) answers)"
    using ok(3) by (auto simp: filter_empty_conv image_iff)
  moreover have "\<forall>a \<in> set answers. JStr (ans_question_id a) \<in> set (map qid_of pending)"
    using ok(4) by (auto simp: filter_empty_conv)
  ultimately show thesis
    using that p ok(1,2) o t by (simp add: duplicates_Nil first_bad_None)
qed

text \<open>A batch the validator accepts answers every required question, answers none twice and none
  unknown, and every answer is a decision: non-blank text, or an option that question offered.\<close>

theorem accepted_batch_is_decisive:
  assumes "validate_answers data answers = Inr recs"
    and "iterate (jget data ''pending_questions'') = Some pending" and "distinct (map qid_of pending)"
  shows "distinct (map ans_question_id answers) \<and> length recs = length answers \<and>
    (\<forall>q \<in> set pending. is_required q \<longrightarrow> (\<exists>a \<in> set answers. JStr (ans_question_id a) = qid_of q)) \<and>
    (\<forall>a \<in> set answers. \<exists>q \<in> set pending. JStr (ans_question_id a) = qid_of q \<and>
       (str_strip (text_of_opt (ans_other a)) \<noteq> [] \<or>
        (\<exists>sel ids. ans_selected a = Some sel \<and> option_ids q = Some ids \<and> JStr sel \<in> set ids)))"
  using assms(1)
proof (rule validate_Inr)
  fix pending' opts texts
  assume p: "iterate (jget data ''pending_questions'') = Some pending'"
    and d: "distinct (map ans_question_id answers)"
    and req: "\<forall>q \<in> set pending'. is_required q \<longrightarrow> qid_of q \<in> set (map (\<lambda>a. JStr (ans_question_id a)) answers)"
    and known: "\<forall>a \<in> set answers. JStr (ans_question_id a) \<in> set (map qid_of pending')"
    and opts: "index_by_id option_ids pending' [] = Some opts"
    and ok: "\<forall>a \<in> set answers. check_answer opts a = None"
    and recs: "recs = map (answer_record texts) answers"
  from p assms(2) have pe: "pending' = pending" by simp
  note look = index_by_id_lookup [OF assms(3) opts [unfolded pe]]
  have "\<exists>q \<in> set pending. JStr (ans_question_id a) = qid_of q \<and>
      (str_strip (text_of_opt (ans_other a)) \<noteq> [] \<or>
       (\<exists>sel ids. ans_selected a = Some sel \<and> option_ids q = Some ids \<and> JStr sel \<in> set ids))"
    if "a \<in> set answers" for a
  proof -
    from known that pe obtain q where q: "q \<in> set pending" "JStr (ans_question_id a) = qid_of q" by auto
    with look obtain ids where ids: "option_ids q = Some ids" "dget opts (JStr (ans_question_id a)) = Some ids"
      by auto
    from ok that have c: "check_answer opts a = None" by blast
    show ?thesis
    proof (cases "str_strip (text_of_opt (ans_other a)) = []")
      case True
      with c have "ans_selected a \<noteq> Some ''other''" "str_truthy (ans_selected a)"
        by (auto simp: check_answer_def Let_def split: if_splits)
      then obtain sel where "ans_selected a = Some sel" "sel \<noteq> ''other''" "sel \<noteq> []"
        by (cases "ans_selected a") auto
      with c ids q show ?thesis
        by (intro bexI [of _ q]) (auto simp: check_answer_def Let_def text_of_opt_def split: if_splits)
    qed (use q in blast)
  qed
  with d req pe recs show ?thesis by fastforce
qed

definition pending_wf :: "json \<Rightarrow> bool" where
  "pending_wf q \<longleftrightarrow> (\<exists>d i t os. q = JDict d \<and> dget d ''id'' = Some (JStr i) \<and> i \<noteq> [] \<and>
     dget d ''question_text'' = Some (JStr t) \<and> t \<noteq> [] \<and> dget d ''options'' = Some (JList os) \<and>
     (\<forall>opn \<in> set os. \<exists>m j. opn = JDict m \<and> dget m ''id'' = Some (JStr j)))"

lemma option_label_total:
  "\<forall>opn \<in> set os. \<exists>m j. opn = JDict m \<and> dget m ''id'' = Some (JStr j) \<Longrightarrow> \<exists>l. option_label sel os = Some l"
proof (induction os)
  case (Cons opn os)
  then obtain m j where m: "opn = JDict m" "dget m ''id'' = Some (JStr j)" by auto
  with Cons show ?case by (simp add: jget_def)
qed simp

lemma resolve_answer_total:
  assumes "str_or_empty (jor (jget a ''selected_option_id'') (jget a ''selected_answer'')) = Some s"
    and "dget q ''options'' = Some (JList os)"
    and "\<forall>opn \<in> set os. \<exists>m j. opn = JDict m \<and> dget m ''id'' = Some (JStr j)"
  shows "\<exists>r. resolve_answer a qid q = Some (JDict r) \<and> jget r ''question_text'' = jget_or q ''question_text'' (JStr [])"
proof -
  obtain l where "option_label (str_strip s) os = Some l" using option_label_total [OF assms(3)] by blast
  moreover have "iterate (jget q ''options'') = Some os" using assms(2) by (simp add: jget_def)
  ultimately show ?thesis by (simp add: resolve_answer_def assms(1) Let_def jget_Cons)
qed

lemma by_id_lookup:
  "distinct (map qid_of qs) \<Longrightarrow> JDict d \<in> set qs \<Longrightarrow> dget (by_id qs acc) (jget d ''id'') = Some d"
proof (induction qs acc rule: by_id.induct)
  case (2 q rest acc)
  have other: "dget (by_id qs acc) i = dget acc i" if "i \<notin> qid_of ` set qs" for i qs acc
    using that by (induction qs acc rule: by_id.induct) (auto simp: qid_of_def)
  show ?case
  proof (cases "JDict d \<in> set rest")
    case False
    with 2 have "d = q" "jget d ''id'' \<notin> qid_of ` set rest" by (auto simp: qid_of_def)
    then show ?thesis by (simp add: other)
  qed (use 2 in simp)
qed auto

lemma resolve_covers:
  assumes "\<forall>a \<in> set answers. \<exists>d. JDict d \<in> set pending \<and> JStr (ans_question_id a) = jget d ''id''"
    and wfp: "\<forall>q \<in> set pending. pending_wf q" and dis: "distinct (map qid_of pending)"
  shows "\<exists>res. resolve_loop (by_id pending []) (map (answer_record texts) answers) = Some res \<and>
    (\<forall>a \<in> set answers. \<forall>d. JDict d \<in> set pending \<longrightarrow> JStr (ans_question_id a) = jget d ''id'' \<longrightarrow>
       (\<exists>r \<in> set res. jget (dict_of r) ''question_text'' = jget d ''question_text'' \<and> is_dict r))"
  using assms(1)
proof (induction answers)
  case (Cons a answers)
  then obtain res where res: "resolve_loop (by_id pending []) (map (answer_record texts) answers) = Some res"
    "\<forall>a \<in> set answers. \<forall>d. JDict d \<in> set pending \<longrightarrow> JStr (ans_question_id a) = jget d ''id'' \<longrightarrow>
       (\<exists>r \<in> set res. jget (dict_of r) ''question_text'' = jget d ''question_text'' \<and> is_dict r)" by auto
  from Cons.prems obtain d where d: "JDict d \<in> set pending" "JStr (ans_question_id a) = jget d ''id''" by auto
  from wfp d(1) have "pending_wf (JDict d)" by blast
  then obtain i t os where wf: "dget d ''id'' = Some (JStr i)" "i \<noteq> []" "dget d ''question_text'' = Some (JStr t)"
    "dget d ''options'' = Some (JList os)" "\<forall>opn \<in> set os. \<exists>m j. opn = JDict m \<and> dget m ''id'' = Some (JStr j)"
    by (auto simp: pending_wf_def)
  from d(2) wf(1) have i: "ans_question_id a = i" by (simp add: jget_def)
  obtain rec where rec: "answer_record texts a = JDict rec" "jget rec ''question_id'' = JStr i"
    "\<exists>s. str_or_empty (jor (jget rec ''selected_option_id'') (jget rec ''selected_answer'')) = Some s"
    by (cases "ans_selected a") (auto simp: answer_record_def Let_def jget_Cons i jor_def)
  from rec(3) obtain s where "str_or_empty (jor (jget rec ''selected_option_id'') (jget rec ''selected_answer'')) = Some s" ..
  from resolve_answer_total [OF this wf(4,5), of "JStr i"] obtain e where
    e: "resolve_answer rec (JStr i) d = Some (JDict e)" "jget e ''question_text'' = jget_or d ''question_text'' (JStr [])"
    by blast
  then obtain r where r: "resolve_answer rec (JStr i) d = Some r" "is_dict r"
    "jget (dict_of r) ''question_text'' = jget d ''question_text''"
    using wf(3) by (simp add: jget_or_def jget_def)
  have "dget (by_id pending []) (JStr i) = Some d"
    using by_id_lookup [OF dis d(1), of "[]"] wf(1) by (simp add: jget_def)
  with rec r wf(2) res(1) have "resolve_loop (by_id pending []) (map (answer_record texts) (a # answers)) = Some (r # res)"
    by (simp add: jor_def)
  moreover have "d' = d" if "JDict d' \<in> set pending" "JStr (ans_question_id a) = jget d' ''id''" for d'
  proof -
    have "qid_of (JDict d') = qid_of (JDict d)" using that(2) d(2) by (simp add: qid_of_def)
    with dis that(1) d(1) show ?thesis by (metis distinct_map inj_onD json.inject(6))
  qed
  ultimately show ?case using res(2) r(2,3) by auto
qed simp

lemma record_covers:
  assumes "pending_wf (JDict d)" and "jget (dict_of r) ''question_text'' = jget d ''question_text''" and "is_dict r"
  shows "covers r (question_text rep (JDict d))"
proof -
  from assms(1) obtain t where "dget d ''question_text'' = Some (JStr t)" "t \<noteq> []" by (auto simp: pending_wf_def)
  moreover from assms(3) obtain e where "r = JDict e" by (cases r) auto
  ultimately show ?thesis using assms(2) by (simp add: covers_def question_text_def jget_def jor_def)
qed

lemma all_covered_none_left:
  assumes "\<And>q. q \<in> set qs \<Longrightarrow> \<exists>r \<in> set res. covers r (question_text rep q)"
    and "unanswered_questions rep qs res = Some left"
  shows "left = []"
proof (cases "qs = []")
  case False
  with assms(2) obtain ks where "answered_keys res = Some ks"
    "left = filter (\<lambda>q. normalize_key (question_text rep q) \<notin> set ks) qs"
    by (auto simp: unanswered_questions_def)
  with assms(1) show ?thesis by (auto simp: filter_empty_conv answered_keys_covers)
qed (use assms(2) in \<open>simp add: unanswered_questions_def\<close>)

text \<open>C11. End to end: once the validator has accepted a batch over well-formed pending questions with
  different ids, resolving the stored answers succeeds and the gate reports none of the required
  questions open any more.\<close>

theorem accepted_answers_cover_required:
  assumes "validate_answers data answers = Inr recs"
    and "iterate (jget data ''pending_questions'') = Some pending"
    and "\<forall>q \<in> set pending. pending_wf q" and "distinct (map qid_of pending)"
  shows "\<exists>res. answers_to_resolved recs pending = Some res \<and>
    (\<forall>left. unanswered_questions rep (filter is_required pending) res = Some left \<longrightarrow> left = [])"
  using assms(1)
proof (rule validate_Inr)
  fix pending' opts texts
  assume p: "iterate (jget data ''pending_questions'') = Some pending'"
    and req: "\<forall>q \<in> set pending'. is_required q \<longrightarrow> qid_of q \<in> set (map (\<lambda>a. JStr (ans_question_id a)) answers)"
    and known: "\<forall>a \<in> set answers. JStr (ans_question_id a) \<in> set (map qid_of pending')"
    and recs: "recs = map (answer_record texts) answers"
  from p assms(2) have pe: "pending' = pending" by simp
  have dict: "\<exists>d. q = JDict d" if "q \<in> set pending" for q using assms(3) that by (auto simp: pending_wf_def)
  have "\<exists>d. JDict d \<in> set pending \<and> JStr (ans_question_id a) = jget d ''id''" if "a \<in> set answers" for a
  proof -
    from known that pe obtain q where "q \<in> set pending" "JStr (ans_question_id a) = qid_of q" by auto
    with dict [of q] show ?thesis by (auto simp: qid_of_def)
  qed
  moreover from assms(3) have "list_all (\<lambda>q. is_dict q \<longrightarrow> hashable (jget (dict_of q) ''id'')) pending"
    by (auto simp: pending_wf_def list_all_iff jget_def)
  ultimately obtain res where
    res: "answers_to_resolved recs pending = Some res"
    and cov: "\<And>a d. a \<in> set answers \<Longrightarrow> JDict d \<in> set pending \<Longrightarrow> JStr (ans_question_id a) = jget d ''id'' \<Longrightarrow>
       \<exists>r \<in> set res. jget (dict_of r) ''question_text'' = jget d ''question_text'' \<and> is_dict r"
    using resolve_covers [OF _ assms(3,4), of answers texts] by (auto simp: answers_to_resolved_def recs)
  have "\<exists>r \<in> set res. covers r (question_text rep q)" if q: "q \<in> set (filter is_required pending)" for q
  proof -
    from q dict [of q] obtain d where d: "q = JDict d" by auto
    from req q pe d obtain a where a: "a \<in> set answers" "JStr (ans_question_id a) = jget d ''id''"
      by (auto simp: qid_of_def)
    from cov [OF a(1) _ a(2)] q d obtain r where
      "r \<in> set res" "jget (dict_of r) ''question_text'' = jget d ''question_text''" "is_dict r" by auto
    with record_covers [of d r rep] assms(3) q d show ?thesis by auto
  qed
  with res all_covered_none_left [of "filter is_required pending" res rep] show ?thesis by blast
qed

section \<open>Witnesses\<close>

definition demo_question :: json where
  "demo_question = JDict [(''id'', JStr ''q1''), (''question_text'', JStr ''Which db?''),
     (''options'', JList [JDict [(''id'', JStr ''pg''), (''label'', JStr ''Postgres'')]]), (''required'', JBool True)]"

definition demo_job :: jdict where
  "demo_job = [(''waiting_for_answers'', JBool True), (''pending_questions'', JList [demo_question])]"

definition demo_answer :: answer_submission where
  "demo_answer = \<lparr>ans_question_id = ''q1'', ans_selected = Some ''pg'', ans_other = None\<rparr>"

lemma demo_valid: "\<exists>recs. validate_answers demo_job [demo_answer] = Inr recs"
  by (simp add: validate_answers_def demo_job_def demo_question_def demo_answer_def jget_lits Let_def has_id_def
      has_key_def is_required_def qid_of_def option_ids_def check_answer_def text_of_opt_def text_index_def)

lemma demo_pending: "iterate (jget demo_job ''pending_questions'') = Some [demo_question]"
  by (simp add: demo_job_def jget_Cons)

theorem accepted_batch_is_decisive_witness:
  "\<exists>recs. validate_answers demo_job [demo_answer] = Inr recs \<and> length recs = 1"
proof -
  from demo_valid obtain recs where r: "validate_answers demo_job [demo_answer] = Inr recs" ..
  from accepted_batch_is_decisive [OF r demo_pending] r show ?thesis by simp
qed

theorem accepted_answers_cover_required_witness:
  "\<exists>recs res. validate_answers demo_job [demo_answer] = Inr recs \<and>
     answers_to_resolved recs [demo_question] = Some res"
proof -
  from demo_valid obtain recs where r: "validate_answers demo_job [demo_answer] = Inr recs" ..
  have "\<forall>q \<in> set [demo_question]. pending_wf q" by (simp add: pending_wf_def demo_question_def)
  from accepted_answers_cover_required [OF r demo_pending this] r show ?thesis by auto
qed

end
