(* ===== verification/PauseProps.thy ===== *)
theory PauseProps
  imports PauseCycle HitlValidation
begin

text \<open>
  Properties of the pause cycle: the payload a paused run carries is what a retry of it re-emits, the
  flag and its context are one write, a block-mode pause leaves the record settled, hydration adds each
  persisted answer once, and planning never proceeds with an undecided question.
\<close>

text \<open>The record after the updates, as the store merges them.\<close>

fun apply_effects :: "jdict \<Rightarrow> pause_effect list \<Rightarrow> jdict" where
  "apply_effects rec [] = rec"
| "apply_effects rec (JobUpdate kw # es) = apply_effects (dupdate rec kw) es"
| "apply_effects rec (PauseNotice q # es) = apply_effects rec es"

lemma apply_effects_append: "apply_effects rec (es @ fs) = apply_effects (apply_effects rec es) fs"
  by (induction rec es rule: apply_effects.induct) simp_all

text \<open>The keys the effects leave alone keep their values.\<close>

lemma jget_dupdate_other: "k \<notin> set (dkeys kw) \<Longrightarrow> jget (dupdate d kw) k = jget d k"
  by (induction d kw rule: dupdate.induct) simp_all

definition writes :: "pause_effect \<Rightarrow> string list" where
  "writes e = (case e of JobUpdate kw \<Rightarrow> dkeys kw | PauseNotice qs \<Rightarrow> [])"

lemma apply_effects_other:
  "(\<And>e. e \<in> set es \<Longrightarrow> k \<notin> set (writes e)) \<Longrightarrow> jget (apply_effects rec es) k = jget rec k"
proof (induction rec es rule: apply_effects.induct)
  case (2 rec kw es)
  from 2(2) [of "JobUpdate kw"] have "k \<notin> set (dkeys kw)" by (simp add: writes_def)
  with 2 show ?case by (simp add: jget_dupdate_other)
qed simp_all

lemma heartbeats_write: "e \<in> set (heartbeats w pinned from n) \<Longrightarrow>
    set (writes e) \<subseteq> {''answer_wait_heartbeat_at'', ''last_activity_at''}"
  by (auto simp: heartbeats_def heartbeat_update_def writes_def last_activity_kw_def split: if_splits)

lemma apply_heartbeats:
  "k \<noteq> ''answer_wait_heartbeat_at'' \<Longrightarrow> k \<noteq> ''last_activity_at'' \<Longrightarrow>
     jget (apply_effects rec (heartbeats w pinned from n)) k = jget rec k"
  by (rule apply_effects_other) (use heartbeats_write in fastforce)

section \<open>Return mode\<close>

lemma resume_fields_Some:
  assumes "resume_fields w job_id source = Some fs"
  obtains kind ctx where
    "fs = [(''resume_token'', JStr (job_id @ '':'' @ take 12 (pw_hex w))), (''pause_kind'', JStr kind),
           (''pause_context'', ctx)]"
    "pause_kind_for_source source = Some kind" "pause_context_for_source source kind = Some ctx" "job_id \<noteq> []"
  using assms by (auto simp: resume_fields_def mint_resume_token_def bind_eq_Some_conv split: if_splits)

lemma return_mode_run:
  assumes "run_pause_cycle rep w job_id questions source notify ''return'' = (effs, PauseSignal sig)"
  obtains structured fs where "structured \<noteq> []" "resume_fields w job_id source = Some fs"
    "effs = [JobUpdate (dupdate (pause_envelope w structured) fs)]"
    "sig = fs @ [(''pending_questions'', JList structured)]"
  using assms by (auto simp: run_pause_cycle_def split: option.splits if_splits)

text \<open>C12. A run that pauses by returning has written one update, and re-entering with the record that
  update gives re-emits exactly the payload of the pause, consumed iff the acknowledged token is the one
  minted for it.\<close>

theorem paused_run_reenters_with_same_payload:
  assumes "run_pause_cycle rep w job_id questions source notify ''return'' = (effs, PauseSignal sig)"
  shows "length effs = 1 \<and>
    check_pending_pause_reentry (apply_effects rec effs) ack =
      Some ((''consume'', JBool (ack = jget sig ''resume_token'')) # sig)"
proof -
  from assms obtain structured fs where s: "structured \<noteq> []" "resume_fields w job_id source = Some fs"
    "effs = [JobUpdate (dupdate (pause_envelope w structured) fs)]"
    "sig = fs @ [(''pending_questions'', JList structured)]" by (rule return_mode_run)
  from s(2) obtain kind ctx where
    "fs = [(''resume_token'', JStr (job_id @ '':'' @ take 12 (pw_hex w))), (''pause_kind'', JStr kind),
           (''pause_context'', ctx)]" by (rule resume_fields_Some)
  with s show ?thesis
    by (simp add: pause_envelope_def check_pending_pause_reentry_def jget_Cons jor_def Let_def)
qed

lemma starts_with_iff: "starts_with s p \<longleftrightarrow> (\<exists>t. s = p @ t)"
  unfolding starts_with_def by (metis append_eq_conv_conj append_take_drop_id)

definition pausable_source :: "string \<Rightarrow> bool" where
  "pausable_source source \<longleftrightarrow> source = ''plan_input'' \<or> source = ''tech_lead'' \<or>
     (\<exists>task. task \<noteq> [] \<and> source = ''engineer:'' @ task)"

lemma resume_fields_None: "resume_fields w job_id source = None \<longleftrightarrow> \<not> (job_id \<noteq> [] \<and> pausable_source source)"
proof -
  consider "source = ''plan_input''" | "source = ''tech_lead''" | task where "source = ''engineer:'' @ task"
    | "pause_kind_for_source source = None" "\<not> pausable_source source"
    by (cases "source = ''plan_input''"; cases "source = ''tech_lead''"; cases "starts_with source ''engineer:''")
      (auto simp: pause_kind_for_source_def starts_with_iff pausable_source_def)
  then show ?thesis
  proof cases
    case (3 task)
    then have "pausable_source source \<longleftrightarrow> task \<noteq> []" by (auto simp: pausable_source_def)
    with 3 show ?thesis
      by (simp add: resume_fields_def pause_kind_for_source_def pause_context_for_source_def mint_resume_token_def
          starts_with_def)
  qed (simp_all add: resume_fields_def pause_kind_for_source_def pause_context_for_source_def mint_resume_token_def
      pausable_source_def)
qed

text \<open>Return mode refuses a source it does not know, a worker escalation without a task id and an empty
  job id before it writes anything; every other pause with a question to ask ends in the signal.\<close>

theorem return_mode_fails_closed:
  assumes "run_pause_cycle rep w job_id questions source notify ''return'' = (effs, out)"
    and "out \<noteq> PauseRaised" and "out \<noteq> PauseDone [] True"
  shows "if job_id \<noteq> [] \<and> pausable_source source
         then \<exists>sig. out = PauseSignal sig else effs = [] \<and> out = PauseValueError"
proof -
  from assms resume_fields_None [of w job_id source] show ?thesis
    by (auto simp: run_pause_cycle_def split: option.splits if_splits)
qed

section \<open>Block mode\<close>

lemma block_mode_run:
  assumes "run_pause_cycle rep w job_id questions source notify ''block'' = (effs, PauseDone resolved ok)"
    and "effs \<noteq> []"
  obtains structured beats last where "structured \<noteq> []"
    "effs = JobUpdate (pause_envelope w structured) # beats @ last"
    "(last, PauseDone resolved ok) = (if ok then collect_answers w structured else give_up w)"
    "\<And>e. e \<in> set beats \<Longrightarrow> set (writes e) \<subseteq> {''answer_wait_heartbeat_at'', ''last_activity_at''}"
    "\<And>v. JobUpdate v \<in> set beats \<Longrightarrow>
       \<exists>ts. v = (''answer_wait_heartbeat_at'', ts) # last_activity_kw (pin_last_activity_at (pw_pin w))"
proof -
  let ?pin = "pin_last_activity_at (pw_pin w)"
  let ?from = "if notify then 1 + pw_renewals w else 1"
  from assms obtain structured es where s: "structured \<noteq> []"
    "effs = JobUpdate (pause_envelope w structured) #
       (if notify then run_on_pause_with_lease_renewal w structured ?pin else []) @ es"
    "wait_and_collect_answers w structured ?pin ?from = (es, PauseDone resolved ok)"
    by (auto simp: run_pause_cycle_def Let_def apfst_def map_prod_def split: option.splits if_splits prod.splits)
  from s(3) obtain n last where l: "es = heartbeats w ?pin ?from n @ last"
    "(last, PauseDone resolved ok) = (if ok then collect_answers w structured else give_up w)"
    unfolding wait_and_collect_answers_def
    by (auto simp: collect_answers_def give_up_def apfst_def map_prod_def split: wait_result.splits option.splits prod.splits if_splits)
  show thesis
  proof (rule that [OF s(1) _ l(2)])
    show "effs = JobUpdate (pause_envelope w structured) #
       ((if notify then run_on_pause_with_lease_renewal w structured ?pin else []) @ heartbeats w ?pin ?from n) @ last"
      using s(2) l(1) by simp
  next
    fix e
    assume "e \<in> set ((if notify then run_on_pause_with_lease_renewal w structured ?pin else []) @ heartbeats w ?pin ?from n)"
    then consider "e = PauseNotice structured" | m n where "e \<in> set (heartbeats w ?pin m n)"
      by (auto simp: run_on_pause_with_lease_renewal_def split: if_splits)
    then show "set (writes e) \<subseteq> {''answer_wait_heartbeat_at'', ''last_activity_at''}"
      by cases (use heartbeats_write in \<open>auto simp: writes_def\<close>)
  next
    fix v
    assume "JobUpdate v \<in> set ((if notify then run_on_pause_with_lease_renewal w structured ?pin else []) @
        heartbeats w ?pin ?from n)"
    then show "\<exists>ts. v = (''answer_wait_heartbeat_at'', ts) # last_activity_kw ?pin"
      by (auto simp: run_on_pause_with_lease_renewal_def heartbeats_def heartbeat_update_def split: if_splits)
  qed
qed

text \<open>A block-mode pause publishes the waiting flag, the questions and the first lease heartbeat in its
  first update, never writes a resume token, and no later heartbeat moves \<open>last_activity_at\<close> away from
  the value it had when the pause was published.\<close>

lemma last_update_writes:
  "e \<in> set final \<Longrightarrow> (final, PauseDone resolved ok) = (if ok then collect_answers w structured else give_up w) \<Longrightarrow>
     set (writes e) \<subseteq> {''status'', ''phase'', ''status_text'', ''error'', ''waiting_for_answers'', ''pending_questions''}"
  by (auto simp: collect_answers_def give_up_def writes_def resume_update_def timed_out_update_def
      split: option.splits if_splits)

theorem block_pause_is_atomic:
  assumes "run_pause_cycle rep w job_id questions source notify ''block'' = (effs, PauseDone resolved ok)"
    and "effs \<noteq> []"
    and "jget rec ''last_activity_at'' = pin_last_activity_at (pw_pin w)"
  shows "(\<exists>kw rest. effs = JobUpdate kw # rest \<and> jget kw ''waiting_for_answers'' = JBool True \<and>
      truthy (jget kw ''pending_questions'') \<and> jget kw ''answer_wait_heartbeat_at'' = pw_clock w 0) \<and>
    (\<forall>e \<in> set effs. ''resume_token'' \<notin> set (writes e)) \<and>
    jget (apply_effects rec effs) ''last_activity_at'' = jget rec ''last_activity_at''"
  using assms(1,2)
proof (rule block_mode_run)
  fix structured beats last
  assume ne: "structured \<noteq> []" and effs: "effs = JobUpdate (pause_envelope w structured) # beats @ last"
    and l: "(last, PauseDone resolved ok) = (if ok then collect_answers w structured else give_up w)"
    and b: "\<And>e. e \<in> set beats \<Longrightarrow> set (writes e) \<subseteq> {''answer_wait_heartbeat_at'', ''last_activity_at''}"
    and pin: "\<And>v. JobUpdate v \<in> set beats \<Longrightarrow>
       \<exists>ts. v = (''answer_wait_heartbeat_at'', ts) # last_activity_kw (pin_last_activity_at (pw_pin w))"
  note lw = last_update_writes [OF _ l]
  have tok: "''resume_token'' \<notin> set (writes e)" if "e \<in> set effs" for e
    using that b [of e] lw [of e] unfolding effs by (auto simp: writes_def pause_envelope_def)
  have keep: "jget (apply_effects r es) ''last_activity_at'' = pin_last_activity_at (pw_pin w)"
    if "set es \<subseteq> set beats" "jget r ''last_activity_at'' = pin_last_activity_at (pw_pin w)" for r es
    using that
  proof (induction r es rule: apply_effects.induct)
    case (2 r kw es)
    from 2(2) have "JobUpdate kw \<in> set beats" by simp
    from pin [OF this] have "jget (dupdate r kw) ''last_activity_at'' = pin_last_activity_at (pw_pin w)"
      using 2(3) by (auto simp: last_activity_kw_def)
    with 2 show ?case by simp
  qed simp_all
  have "jget (apply_effects (apply_effects (dupdate rec (pause_envelope w structured)) beats) last) ''last_activity_at'' =
      jget (apply_effects (dupdate rec (pause_envelope w structured)) beats) ''last_activity_at''"
    by (rule apply_effects_other) (use lw in fastforce)
  also have "\<dots> = pin_last_activity_at (pw_pin w)"
    by (rule keep) (simp_all add: pause_envelope_def assms(3))
  finally have "jget (apply_effects rec effs) ''last_activity_at'' = pin_last_activity_at (pw_pin w)"
    by (simp add: effs apply_effects_append)
  with assms(3) tok ne effs show ?thesis by (simp add: pause_envelope_def jget_Cons)
qed

text \<open>After a block-mode pause the record is settled: on answers the job is running, the flag and the
  questions are cleared, and the decisions returned are exactly the submitted answers resolved against the
  questions that were asked; on a timeout the job is failed with the flag down and nothing is decided;
  when the job had ended meanwhile, the pause wrote no status after its own.\<close>

theorem block_pause_settles_record:
  assumes "run_pause_cycle rep w job_id questions source notify ''block'' = (effs, PauseDone resolved ok)"
    and "effs \<noteq> []" and "rec' = apply_effects rec effs"
  shows "if ok then jget rec' ''status'' = JStr ''running'' \<and> \<not> truthy (jget rec' ''waiting_for_answers'') \<and>
      jget rec' ''pending_questions'' = JList [] \<and>
      (\<exists>structured submitted. JobUpdate (pause_envelope w structured) \<in> set effs \<and>
         iterate (jget (read_record (pw_after w)) ''submitted_answers'') = Some submitted \<and>
         answers_to_resolved submitted structured = Some resolved)
    else resolved = [] \<and>
      jget rec' ''status'' = JStr (if is_terminal (read_record (pw_after w)) then ''waiting_for_user'' else ''failed'') \<and>
      truthy (jget rec' ''waiting_for_answers'') = is_terminal (read_record (pw_after w))"
  using assms(1,2)
proof (rule block_mode_run)
  fix structured beats last
  assume effs: "effs = JobUpdate (pause_envelope w structured) # beats @ last"
    and l: "(last, PauseDone resolved ok) = (if ok then collect_answers w structured else give_up w)"
    and b: "\<And>e. e \<in> set beats \<Longrightarrow> set (writes e) \<subseteq> {''answer_wait_heartbeat_at'', ''last_activity_at''}"
  define mid where "mid = apply_effects (dupdate rec (pause_envelope w structured)) beats"
  have beat: "jget mid k = jget (dupdate rec (pause_envelope w structured)) k"
    if "k \<noteq> ''answer_wait_heartbeat_at''" "k \<noteq> ''last_activity_at''" for k
    unfolding mid_def by (rule apply_effects_other) (use b that in blast)
  have mid: "jget mid ''status'' = JStr ''waiting_for_user''" "jget mid ''waiting_for_answers'' = JBool True"
    by (simp_all add: beat) (simp_all add: pause_envelope_def waiting_status_def)
  have rec': "rec' = apply_effects mid last"
    using assms(3) by (simp add: effs mid_def apply_effects_append)
  show ?thesis
  proof (cases ok)
    case True
    with l obtain submitted where
      "iterate (jget (read_record (pw_after w)) ''submitted_answers'') = Some submitted"
      "answers_to_resolved submitted structured = Some resolved" "last = [JobUpdate resume_update]"
      by (auto simp: collect_answers_def bind_eq_Some_conv split: option.splits)
    with True effs rec' show ?thesis by (auto simp: resume_update_def)
  next
    case False
    with l rec' mid show ?thesis by (auto simp: give_up_def timed_out_update_def)
  qed
qed

lemma dget_jget: "dget d k = Some v \<Longrightarrow> jget d k = v"
  by (simp add: jget_def)

text \<open>The wait takes a lowered flag for answers even when the job was cancelled: a cancelled record
  whose flag is down makes the pause report success and write the status running over the
  cancellation.\<close>

theorem cancel_with_flag_down_is_overwritten:
  assumes "pw_polls w = [(clock, ReadJob (Some job))]" and "clock - pw_start w < pw_timeout w"
    and "jget job ''status'' = JStr ''cancelled''" and "\<not> truthy (jget job ''waiting_for_answers'')"
    and "pw_after w = ReadJob (Some job)" and "\<not> truthy (jget job ''submitted_answers'')"
    and "run_pause_cycle rep w job_id (JList [JStr (CHR ''?'' # q)]) source notify ''block'' = (effs, out)"
  shows "out = PauseDone [] True \<and> jget (apply_effects job effs) ''status'' = JStr ''running''"
proof -
  have wait: "wait_for_answers (pw_start w) (pw_timeout w) (pw_polls w) = Resumed 0"
    using assms(1,2,4) by (simp add: wait_for_answers_def jget_or_false Let_def)
  have it: "iterate (jget job ''submitted_answers'') = Some []"
    using assms(6) by (cases "jget job ''submitted_answers''") auto
  have "str_strip (CHR ''?'' # q) \<noteq> []"
  proof -
    have "rev (CHR ''?'' # q) = rev q @ [CHR ''?'']" "\<not> is_space CHR ''?''" by (simp_all add: is_space_def)
    then show ?thesis by (auto simp: str_strip_def dropWhile_eq_Nil_conv)
  qed
  then obtain s where "convert_to_structured_questions rep (pw_fresh w) [JStr (CHR ''?'' # q)] source = Some [s]"
    "is_dict s" "hashable (jget (dict_of s) ''id'')"
    by (auto simp: convert_to_structured_questions_def question_text_def structured_question_def jget_Cons)
  with assms(7) wait it assms(5) show ?thesis
    by (auto simp: run_pause_cycle_def wait_and_collect_answers_def collect_answers_def Let_def apfst_def map_prod_def
        heartbeats_def read_record_def answers_to_resolved_def apply_effects_append resume_update_def
        split: if_splits)
qed

section \<open>Hydration\<close>

lemma hydrate_loop_Some:
  "hydrate_loop ids as = Some added \<Longrightarrow>
     (\<forall>r \<in> set added. is_dict r \<and> hashable (jget (dict_of r) ''question_id'') \<and> jget (dict_of r) ''question_id'' \<notin> ids) \<and>
     (\<forall>a. JDict a \<in> set as \<longrightarrow> hashable (jget a ''question_id'') \<and>
        (jget a ''question_id'' \<in> ids \<or> jget a ''question_id'' \<in> set (record_ids added)))"
proof (induction ids as arbitrary: added rule: hydrate_loop.induct)
  case (2 ids a rest)
  show ?case
  proof (cases "jget a ''question_id'' \<in> ids")
    case True
    with "2.prems" have r: "hashable (jget a ''question_id'')" "hydrate_loop ids rest = Some added"
      by (simp_all add: Let_def split: if_splits)
    from "2.IH"(1) [OF refl _ True r(2)] r(1) True show ?thesis by simp
  next
    case False
    with "2.prems" obtain rs where r: "hashable (jget a ''question_id'')" "hydrate_loop ids rest = Some rs"
      "added = persisted_record a # rs" by (auto simp: Let_def split: if_splits)
    have pr: "is_dict (persisted_record a)" "jget (dict_of (persisted_record a)) ''question_id'' = jget a ''question_id''"
      by (simp_all add: persisted_record_def jget_Cons)
    then have ids: "record_ids added = jget a ''question_id'' # record_ids rs" by (simp add: r(3) record_ids_def)
    have "\<not> \<not> hashable (jget a ''question_id'')" using r(1) by simp
    note ih = "2.IH"(2) [OF refl this False r(2)]
    show ?thesis
    proof (intro conjI ballI allI impI)
      fix x assume "x \<in> set added"
      then consider "x = persisted_record a" | "x \<in> set rs" unfolding r(3) by auto
      then have "is_dict x \<and> hashable (jget (dict_of x) ''question_id'') \<and> jget (dict_of x) ''question_id'' \<notin> ids"
      proof cases
        case 1
        with pr r(1) False show ?thesis by simp
      qed (use ih in blast)
      then show "is_dict x" "hashable (jget (dict_of x) ''question_id'')" "jget (dict_of x) ''question_id'' \<notin> ids"
        by blast+
    next
      fix x assume "JDict x \<in> set (JDict a # rest)"
      then consider "x = a" | "JDict x \<in> set rest" by auto
      then have "hashable (jget x ''question_id'') \<and> (jget x ''question_id'' \<in> ids \<or> jget x ''question_id'' \<in> set (record_ids added))"
      proof cases
        case 1
        with r(1) show ?thesis by (simp add: ids)
      next
        case 2
        with conjunct2 [OF ih, rule_format, of x] show ?thesis unfolding ids by auto
      qed
      then show "hashable (jget x ''question_id'')" "jget x ''question_id'' \<in> ids \<or> jget x ''question_id'' \<in> set (record_ids added)"
        by blast+
    qed
  qed
qed (auto simp: record_ids_def)

lemma hydrate_loop_skip:
  "(\<forall>a. JDict a \<in> set as \<longrightarrow> hashable (jget a ''question_id'') \<and> jget a ''question_id'' \<in> ids) \<Longrightarrow> hydrate_loop ids as = Some []"
  by (induction ids as rule: hydrate_loop.induct) auto

text \<open>Hydration keeps the resolved records, adds only answers to questions not among them, leaves
  every persisted answer represented, and doing it twice is doing it once.\<close>

theorem hydration_adds_each_answer_once:
  assumes "hydrate_resolved_from_record p job = Some p'"
  shows "(\<exists>added. resolved_list p' = resolved_list p @ added \<and>
      (\<forall>r \<in> set added. jget (dict_of r) ''question_id'' \<notin> set (record_ids (resolved_list p)))) \<and>
    (\<forall>as a. iterate (jget job ''submitted_answers'') = Some as \<longrightarrow> JDict a \<in> set as \<longrightarrow>
       jget a ''question_id'' \<in> set (record_ids (resolved_list p'))) \<and>
    hydrate_resolved_from_record p' job = Some p'"
proof (cases "truthy (jget job ''submitted_answers'')")
  case False
  then have "iterate (jget job ''submitted_answers'') = Some []"
    by (cases "jget job ''submitted_answers''") auto
  with False assms show ?thesis by (auto simp: hydrate_resolved_from_record_def)
next
  case True
  with assms obtain as added where h: "list_all hashable (record_ids (resolved_list p))"
    "iterate (jget job ''submitted_answers'') = Some as" "hydrate_loop (set (record_ids (resolved_list p))) as = Some added"
    "p' = p\<lparr>resolved_questions := Some (resolved_list p @ added)\<rparr>"
    by (auto simp: hydrate_resolved_from_record_def Let_def split: if_splits option.splits)
  note added = hydrate_loop_Some [OF h(3)]
  have p': "resolved_list p' = resolved_list p @ added" by (simp add: h(4) resolved_list_def)
  have ids: "record_ids (resolved_list p') = record_ids (resolved_list p) @ record_ids added"
    by (simp add: p' record_ids_def)
  have ok: "\<forall>a. JDict a \<in> set as \<longrightarrow> hashable (jget a ''question_id'') \<and>
      jget a ''question_id'' \<in> set (record_ids (resolved_list p'))"
    unfolding ids using added by auto
  have "list_all hashable (record_ids added)"
    using added by (auto simp: record_ids_def list_all_iff)
  then have "list_all hashable (record_ids (resolved_list p'))" using h(1) by (simp add: ids)
  with True h(2) hydrate_loop_skip [OF ok] have "hydrate_resolved_from_record p' job = Some p'"
    by (simp add: hydrate_resolved_from_record_def Let_def) (simp add: h(4) resolved_list_def)
  moreover have "\<forall>r \<in> set added. jget (dict_of r) ''question_id'' \<notin> set (record_ids (resolved_list p))"
    using added by blast
  ultimately show ?thesis using p' ok h(2) by auto
qed

section \<open>Planning\<close>

lemma truthy_jor_empty [simp]: "truthy (jor v (JList [])) = truthy v"
  by (simp add: jor_def)

lemma plan_rounds_Planned:
  "plan_rounds lead pause i n p = (p', Planned out) \<Longrightarrow>
     \<exists>ress. length ress < n \<and> out = lead (i + length ress) p' \<and> \<not> truthy (jget out ''open_questions'') \<and>
       resolved_list p' = resolved_list p @ concat ress \<and>
       (\<forall>j < length ress. \<exists>q. truthy q \<and> pause (i + j) q ''tech_lead'' = PauseDone (ress ! j) True)"
proof (induction lead pause i n p rule: plan_rounds.induct)
  case (2 lead pause i n p)
  let ?q = "jor (jget (lead i p) ''open_questions'') (JList [])"
  show ?case
  proof (cases "truthy ?q")
    case False
    with "2.prems" have "p' = p" "out = lead i p" by (auto simp: Let_def)
    with False show ?thesis by (intro exI [of _ "[]"]) simp
  next
    case True
    with "2.prems" obtain resolved where r: "pause i ?q ''tech_lead'' = PauseDone resolved True"
      by (auto simp: Let_def split: pause_outcome.splits if_splits)
    let ?p = "p\<lparr>resolved_questions := Some (resolved_list p @ resolved), open_questions := []\<rparr>"
    have "plan_rounds lead pause (i + 1) n ?p = (p', Planned out)"
      using "2.prems" True r by (simp add: Let_def)
    from "2.IH" [OF refl refl _ r _ this] True obtain ress where
      i: "length ress < n" "out = lead (i + 1 + length ress) p'" "\<not> truthy (jget out ''open_questions'')"
      "resolved_list p' = resolved_list ?p @ concat ress"
      "\<forall>j < length ress. \<exists>q. truthy q \<and> pause (i + 1 + j) q ''tech_lead'' = PauseDone (ress ! j) True"
      by auto
    have "\<exists>q. truthy q \<and> pause (i + j) q ''tech_lead'' = PauseDone ((resolved # ress) ! j) True"
      if "j < length (resolved # ress)" for j
    proof (cases j)
      case 0
      then show ?thesis using r True by (intro exI [of _ ?q]) simp
    next
      case (Suc m)
      then show ?thesis using that i(5) by simp
    qed
    with i show ?thesis
      by (intro exI [of _ "resolved # ress"]) (simp add: resolved_list_def)
  qed
qed simp

text \<open>Planning hands out a task graph only when the tech lead, shown every decision taken so far, raises no
  open question any more; each earlier round asked something and was answered, and there were fewer
  rounds than the cap. Otherwise there is no plan.\<close>

theorem planning_fails_closed:
  assumes "plan_with_hitl lead pause max_rounds p = (p', Planned out)"
  shows "\<exists>ress. int (length ress) < (case max_rounds of None \<Rightarrow> 5 | Some m \<Rightarrow> m) \<and>
    out = lead (length ress) p' \<and> \<not> truthy (jget out ''open_questions'') \<and>
    resolved_list p' = resolved_list p @ concat ress \<and>
    (\<forall>j < length ress. \<exists>q. truthy q \<and> pause j q ''tech_lead'' = PauseDone (ress ! j) True)"
proof -
  from assms have "plan_rounds lead pause 0 (nat (case max_rounds of None \<Rightarrow> 5 | Some m \<Rightarrow> m)) p = (p', Planned out)"
    by (cases max_rounds) (simp_all add: plan_with_hitl_def max_tech_lead_question_rounds_def)
  from plan_rounds_Planned [OF this] show ?thesis
    by (auto simp: zless_nat_eq_int_zless split: option.splits)
qed

section \<open>Witnesses\<close>

definition demo_world :: pause_world where
  "demo_world = \<lparr>pw_fresh = (\<lambda>i. ''0a''), pw_hex = ''0123456789abcdef'', pw_clock = (\<lambda>i. JTime (int i)),
     pw_pin = ReadJob (Some [(''last_activity_at'', JTime 7)]), pw_renewals = 1, pw_start = 0, pw_timeout = 10,
     pw_polls = [(0, ReadJob (Some [(''waiting_for_answers'', JBool True)])), (5, ReadJob (Some []))],
     pw_after = ReadJob (Some [(''submitted_answers'', JList [JDict [(''question_id'', JStr ''tech_lead_0_0a''),
        (''other_text'', JStr ''Postgres'')]])])\<rparr>"

abbreviation demo_pause :: "string \<Rightarrow> string \<Rightarrow> pause_effect list \<times> pause_outcome" where
  "demo_pause source strategy \<equiv>
     run_pause_cycle (\<lambda>v. []) demo_world ''j1'' (JList [JStr ''Which db?'']) source True strategy"

theorem paused_run_reenters_with_same_payload_witness:
  "\<exists>effs sig. demo_pause ''engineer:t1'' ''return'' = (effs, PauseSignal sig) \<and>
     check_pending_pause_reentry (apply_effects [] effs) (JStr ''j1:0123456789ab'') =
       Some ((''consume'', JBool True) # sig)"
proof -
  have "(case snd (demo_pause ''engineer:t1'' ''return'') of
      PauseSignal sig \<Rightarrow> jget sig ''resume_token'' = JStr ''j1:0123456789ab'' | _ \<Rightarrow> False)" by code_simp
  then obtain effs sig where r: "demo_pause ''engineer:t1'' ''return'' = (effs, PauseSignal sig)"
    and t: "jget sig ''resume_token'' = JStr ''j1:0123456789ab''"
    by (cases "demo_pause ''engineer:t1'' ''return''") (auto split: pause_outcome.splits)
  from paused_run_reenters_with_same_payload [OF r, of "[]" "JStr ''j1:0123456789ab''"] r t show ?thesis by simp
qed

theorem return_mode_fails_closed_witness:
  "fst (demo_pause ''engineer:'' ''return'') = []"
proof -
  obtain effs out where r: "demo_pause ''engineer:'' ''return'' = (effs, out)" by fastforce
  have "(case snd (demo_pause ''engineer:'' ''return'') of PauseValueError \<Rightarrow> True | _ \<Rightarrow> False)" by code_simp
  then have o: "out = PauseValueError" by (simp add: r split: pause_outcome.splits)
  from return_mode_fails_closed [OF r] o have "effs = []" by (auto split: if_splits)
  with r show ?thesis by simp
qed

definition pause_answered :: "pause_effect list \<times> pause_outcome \<Rightarrow> bool" where
  "pause_answered r \<longleftrightarrow> fst r \<noteq> [] \<and> (case snd r of PauseDone resolved ok \<Rightarrow> ok \<and> resolved \<noteq> [] | _ \<Rightarrow> False)"

lemma demo_block:
  obtains effs resolved where "demo_pause ''tech_lead'' ''block'' = (effs, PauseDone resolved True)" "effs \<noteq> []" "resolved \<noteq> []"
proof -
  have "pause_answered (demo_pause ''tech_lead'' ''block'')" by code_simp
  then show thesis
    using that by (cases "demo_pause ''tech_lead'' ''block''") (auto simp: pause_answered_def split: pause_outcome.splits)
qed

theorem block_pause_is_atomic_witness:
  "\<exists>effs kw rest. fst (demo_pause ''tech_lead'' ''block'') = effs \<and> effs = JobUpdate kw # rest \<and>
     jget kw ''waiting_for_answers'' = JBool True"
proof (rule demo_block)
  fix effs resolved
  assume r: "demo_pause ''tech_lead'' ''block'' = (effs, PauseDone resolved True)" "effs \<noteq> []"
  have "jget [(''last_activity_at'', JTime 7)] ''last_activity_at'' = pin_last_activity_at (pw_pin demo_world)"
    by (simp add: demo_world_def pin_last_activity_at_def read_record_def jget_Cons)
  from block_pause_is_atomic [OF r this] r show ?thesis by auto
qed

theorem block_pause_settles_record_witness:
  "\<exists>effs resolved. demo_pause ''tech_lead'' ''block'' = (effs, PauseDone resolved True) \<and>
     jget (apply_effects [] effs) ''status'' = JStr ''running''"
proof (rule demo_block)
  fix effs resolved
  assume r: "demo_pause ''tech_lead'' ''block'' = (effs, PauseDone resolved True)" "effs \<noteq> []"
  from block_pause_settles_record [OF r refl, of "[]"] r show ?thesis by simp
qed

definition cancelled_job_record :: jdict where
  "cancelled_job_record = [(''status'', JStr ''cancelled''), (''waiting_for_answers'', JBool False)]"

definition cancel_world :: pause_world where
  "cancel_world = demo_world\<lparr>pw_polls := [(0, ReadJob (Some cancelled_job_record))], pw_after := ReadJob (Some cancelled_job_record)\<rparr>"

theorem cancel_with_flag_down_is_overwritten_witness:
  "\<exists>effs. run_pause_cycle (\<lambda>v. []) cancel_world ''j1'' (JList [JStr ''?'']) ''tech_lead'' False ''block'' = (effs, PauseDone [] True) \<and>
     jget (apply_effects cancelled_job_record effs) ''status'' = JStr ''running''"
proof -
  obtain effs out where r: "run_pause_cycle (\<lambda>v. []) cancel_world ''j1'' (JList [JStr ''?'']) ''tech_lead'' False ''block'' = (effs, out)"
    by fastforce
  have "out = PauseDone [] True \<and> jget (apply_effects cancelled_job_record effs) ''status'' = JStr ''running''"
    by (rule cancel_with_flag_down_is_overwritten [OF _ _ _ _ _ _ r, of 0])
      (simp_all add: cancel_world_def demo_world_def cancelled_job_record_def jget_Cons)
  with r show ?thesis by simp
qed

theorem hydration_adds_each_answer_once_witness:
  "\<exists>p'. hydrate_resolved_from_record \<lparr>resolved_questions = None, open_questions = []\<rparr>
      [(''submitted_answers'', JList [JDict [(''question_id'', JStr ''q1'')]])] = Some p' \<and>
    hydrate_resolved_from_record p' [(''submitted_answers'', JList [JDict [(''question_id'', JStr ''q1'')]])] = Some p' \<and>
    record_ids (resolved_list p') = [JStr ''q1'']"
proof -
  let ?p = "\<lparr>resolved_questions = None, open_questions = []\<rparr>"
  let ?job = "[(''submitted_answers'', JList [JDict [(''question_id'', JStr ''q1'')]])]"
  obtain p' where p': "hydrate_resolved_from_record ?p ?job = Some p'" "record_ids (resolved_list p') = [JStr ''q1'']"
    by (simp add: hydrate_resolved_from_record_def resolved_list_def record_ids_def jget_Cons persisted_record_def Let_def)
  from hydration_adds_each_answer_once [OF p'(1)] p' show ?thesis by blast
qed

definition demo_lead :: "nat \<Rightarrow> plan_input \<Rightarrow> jdict" where
  "demo_lead i p = (if i = 0 then [(''open_questions'', JList [JStr ''Which db?''])] else [(''tasks'', JList [])])"

theorem planning_fails_closed_witness:
  "\<exists>p'. plan_with_hitl demo_lead (\<lambda>i q s. PauseDone [JStr s] True) None \<lparr>resolved_questions = None, open_questions = []\<rparr> =
      (p', Planned [(''tasks'', JList [])]) \<and> \<not> truthy (jget [(''tasks'', JList [])] ''open_questions'')"
proof -
  obtain p' where r: "plan_with_hitl demo_lead (\<lambda>i q s. PauseDone [JStr s] True) None \<lparr>resolved_questions = None, open_questions = []\<rparr> =
      (p', Planned [(''tasks'', JList [])])"
    by (simp add: plan_with_hitl_def max_tech_lead_question_rounds_def demo_lead_def jget_Cons eval_nat_numeral Let_def jor_def)
  from planning_fails_closed [OF r] r show ?thesis by blast
qed

end
