(* ===== verification/AgentLock.thy ===== *)
theory AgentLock
  imports Json
begin

text \<open>
  Ownership of an agent's pipeline (\<^verbatim>\<open>backend/agents/agent_team_studio/agent_provisioning_team/shared/\<close>):
  the filename guard of \<^verbatim>\<open>path_safety.py\<close>, the fencing check of \<^verbatim>\<open>backend/shared/fencing.py\<close> and the
  lease store of \<^verbatim>\<open>agent_lock.py\<close>. A lock record is what the code distinguishes in the JSON file: a
  field that is absent or of the wrong type is \<open>None\<close>. Times are microseconds. Every operation runs under
  an exclusive file lock and publishes its record atomically, so an operation is one step of the store.
\<close>

section \<open>Path safety\<close>

definition max_component_len :: nat where
  "max_component_len = 255 - 20"

definition safe_char :: "char \<Rightarrow> bool" where
  "safe_char c \<longleftrightarrow> (let n = of_char c :: nat in
     (48 \<le> n \<and> n \<le> 57) \<or> (65 \<le> n \<and> n \<le> 90) \<or> (97 \<le> n \<and> n \<le> 122) \<or> c \<in> set ''._-'')"

text \<open>\<open>None\<close> is \<open>ValueError\<close>.\<close>

definition safe_path_component :: "string \<Rightarrow> string option" where
  "safe_path_component value =
     (if max_component_len < length value then None
      else if \<not> (value \<noteq> [] \<and> list_all safe_char value) \<or> value \<in> set [''.'', ''..''] then None
      else Some value)"

section \<open>Fencing tokens\<close>

datatype store_error =
    StaleFencingToken string int int
  | LockBusy string "string option"
  | LockUnreadable
  | UnsafePath
  | BadArgument
  | RaisedTypeError

definition check_fencing_token :: "string \<Rightarrow> int \<Rightarrow> int option \<Rightarrow> store_error + unit" where
  "check_fencing_token resource provided current =
     (case current of
        None \<Rightarrow> Inr ()
      | Some c \<Rightarrow> if provided < c then Inl (StaleFencingToken resource provided c) else Inr ())"

section \<open>The lock store\<close>

record lock_record =
  lk_owner :: "string option"
  lk_acquired_at :: "int option"
  lk_expires_at :: "int option"
  lk_token :: "int option"

text \<open>A record file that exists parses (\<open>Some\<close>) or cannot be read (\<open>None\<close>).\<close>

record lock_store =
  lock_files :: "(string, lock_record option) pydict"
  lock_ttl :: int

definition microseconds :: "int \<Rightarrow> int" where
  "microseconds s = 1000000 * s"

definition default_lock_ttl_seconds :: int where
  "default_lock_ttl_seconds = 7200"

text \<open>The constructor over an existing directory; \<open>None\<close> is the failed assertion.\<close>

definition open_lock_store :: "(string, lock_record option) pydict \<Rightarrow> int option \<Rightarrow> lock_store option" where
  "open_lock_store dir ttl =
     (let t = (case ttl of None \<Rightarrow> default_lock_ttl_seconds | Some t \<Rightarrow> t) in
      if t > 0 then Some \<lparr>lock_files = dir, lock_ttl = t\<rparr> else None)"

definition read_lock :: "lock_store \<Rightarrow> string \<Rightarrow> store_error + lock_record option" where
  "read_lock st aid =
     (case safe_path_component aid of
        None \<Rightarrow> Inl UnsafePath
      | Some name \<Rightarrow>
          (case dget (lock_files st) name of
             None \<Rightarrow> Inr None
           | Some None \<Rightarrow> Inl LockUnreadable
           | Some (Some r) \<Rightarrow> Inr (Some r)))"

definition write_lock :: "lock_store \<Rightarrow> string \<Rightarrow> lock_record \<Rightarrow> lock_store" where
  "write_lock st aid r = st\<lparr>lock_files := dset (lock_files st) aid (Some r)\<rparr>"

definition lock_expired :: "lock_record \<Rightarrow> int \<Rightarrow> bool" where
  "lock_expired r now = (case lk_expires_at r of None \<Rightarrow> True | Some e \<Rightarrow> e < now)"

definition acquire :: "string \<Rightarrow> string \<Rightarrow> int \<Rightarrow> lock_store \<Rightarrow> store_error + int \<times> lock_store" where
  "acquire aid owner now st =
     (if aid = [] \<or> owner = [] then Inl BadArgument
      else case read_lock st aid of
        Inl e \<Rightarrow> Inl e
      | Inr rec \<Rightarrow>
          let held = (case rec of None \<Rightarrow> False | Some r \<Rightarrow> lk_owner r \<noteq> Some owner \<and> \<not> lock_expired r now);
              renewal = (case rec of None \<Rightarrow> False | Some r \<Rightarrow> lk_owner r = Some owner \<and> \<not> lock_expired r now);
              prior = Option.bind rec lk_token;
              token = (case prior of None \<Rightarrow> 1 | Some p \<Rightarrow> if renewal then p else p + 1)
          in if held then Inl (LockBusy aid (Option.bind rec lk_owner))
             else Inr (token, write_lock st aid
                    \<lparr>lk_owner = Some owner, lk_acquired_at = Some now,
                     lk_expires_at = Some (now + microseconds (lock_ttl st)), lk_token = Some token\<rparr>))"

definition release ::
  "string \<Rightarrow> string \<Rightarrow> int \<Rightarrow> int option \<Rightarrow> lock_store \<Rightarrow> store_error + lock_store" where
  "release aid owner now given st =
     (if aid = [] \<or> owner = [] then Inl BadArgument
      else case read_lock st aid of
        Inl e \<Rightarrow> Inl e
      | Inr None \<Rightarrow> Inr st
      | Inr (Some r) \<Rightarrow>
          if lk_owner r \<noteq> Some owner then Inr st
          else if (case (given, lk_token r) of (Some t, Some c) \<Rightarrow> t < c | _ \<Rightarrow> False) then Inr st
          else Inr (write_lock st aid
                 \<lparr>lk_owner = Some owner,
                  lk_acquired_at = Some (case lk_acquired_at r of None \<Rightarrow> now | Some a \<Rightarrow> a),
                  lk_expires_at = Some (now - microseconds 1),
                  lk_token = Some (case lk_token r of None \<Rightarrow> 1 | Some c \<Rightarrow> c)\<rparr>))"

definition get_owner :: "string \<Rightarrow> int \<Rightarrow> lock_store \<Rightarrow> store_error + string option" where
  "get_owner aid now st =
     (if aid = [] then Inl BadArgument
      else case read_lock st aid of
        Inl e \<Rightarrow> Inl e
      | Inr None \<Rightarrow> Inr None
      | Inr (Some r) \<Rightarrow> Inr (if lock_expired r now then None else lk_owner r))"

definition check_lock_token :: "string \<Rightarrow> int \<Rightarrow> lock_store \<Rightarrow> store_error + unit" where
  "check_lock_token aid token st =
     (if aid = [] then Inl BadArgument
      else case read_lock st aid of
        Inl e \<Rightarrow> Inl e
      | Inr None \<Rightarrow> Inr ()
      | Inr (Some r) \<Rightarrow> check_fencing_token ''agent_lock'' token (lk_token r))"

section \<open>The contract of a fenced resource\<close>

text \<open>A resource that records the highest token it accepted: an operation presenting an older token
  changes nothing, and no operation but a reset lowers the mark. The clients' guarantee, proved once: from
  the moment a newer owner has written, an older one never changes the resource again.\<close>

locale fenced_resource =
  fixes next_state :: "'o \<Rightarrow> 's \<Rightarrow> 's"
    and mark :: "'s \<Rightarrow> int option"
    and presents :: "'o \<Rightarrow> int option"
    and resets :: "'o \<Rightarrow> bool"
  assumes stale_is_inert: "presents l = Some t \<Longrightarrow> mark s = Some m \<Longrightarrow> t < m \<Longrightarrow> next_state l s = s"
    and mark_kept: "\<not> resets l \<Longrightarrow> mark s = Some m \<Longrightarrow> \<exists>m'. mark (next_state l s) = Some m' \<and> m \<le> m'"
begin

lemma mark_run:
  "(\<And>l. l \<in> set ls \<Longrightarrow> \<not> resets l) \<Longrightarrow> mark s = Some m \<Longrightarrow>
     \<exists>m'. mark (run_ops next_state ls s) = Some m' \<and> m \<le> m'"
proof (induction ls arbitrary: s m)
  case (Cons l ls)
  from mark_kept [of l, OF _ Cons.prems(2)] Cons.prems(1) obtain m1 where
    "mark (next_state l s) = Some m1" "m \<le> m1" by auto
  with Cons.IH [of "next_state l s" m1] Cons.prems(1) show ?case by auto
qed simp

lemma stale_forever:
  assumes "\<And>l. l \<in> set ls \<Longrightarrow> \<not> resets l" and "mark s = Some m"
    and "presents l = Some t" and "t < m"
  shows "next_state l (run_ops next_state ls s) = run_ops next_state ls s"
proof -
  from mark_run [OF assms(1,2)] obtain m' where "mark (run_ops next_state ls s) = Some m'" "m \<le> m'" by blast
  with stale_is_inert [OF assms(3)] assms(4) show ?thesis by simp
qed

end

end
