(* ===== verification/EnvStore.thy ===== *)
theory EnvStore
  imports AgentLock
begin

text \<open>
  The registry of provisioned environments
  (\<^verbatim>\<open>backend/agents/agent_team_studio/agent_provisioning_team/shared/environment_store.py\<close>): one JSON file
  per agent in the primary directory, with read fallback to the legacy directories, guarded by fencing
  tokens. A file that cannot be read or parsed is \<open>Garbled\<close>. Every operation runs under the module lock
  and replaces files atomically, so it is one step of the directories; \<open>now\<close> is the time it reads. An ISO
  timestamp is \<open>JTime\<close>.
\<close>

section \<open>Records\<close>

record env_info =
  env_agent_id :: string
  env_container_id :: string
  env_container_name :: string
  env_ssh_host :: json
  env_ssh_port :: json
  env_workspace :: json
  env_status :: json
  env_tools :: json
  env_created_at :: json
  env_updated_at :: json

text \<open>\<open>isinstance(v, int)\<close> and the number it stands for; \<open>bool\<close> is a subclass of \<open>int\<close>.\<close>

fun int_value :: "json \<Rightarrow> int option" where
  "int_value (JInt n) = Some n"
| "int_value (JBool b) = Some (if b then 1 else 0)"
| "int_value _ = None"

fun nonempty_str :: "json \<Rightarrow> string option" where
  "nonempty_str (JStr s) = (if s = [] then None else Some s)"
| "nonempty_str _ = None"

text \<open>The constructor; \<open>None\<close> is \<open>ValueError\<close>.\<close>

definition make_env ::
  "int \<Rightarrow> json \<Rightarrow> json \<Rightarrow> json \<Rightarrow> json \<Rightarrow> json \<Rightarrow> json \<Rightarrow> json \<Rightarrow> json \<Rightarrow> json \<Rightarrow> json \<Rightarrow> env_info option" where
  "make_env now aid cid cname host port workspace status tools created updated =
     (case (nonempty_str aid, nonempty_str cid, nonempty_str cname, int_value port) of
        (Some a, Some c, Some n, Some p) \<Rightarrow>
          if 1 \<le> p \<and> p \<le> 65535
          then let at_create = (if created \<noteq> JNull then created else JTime now) in
            Some \<lparr>env_agent_id = a, env_container_id = c, env_container_name = n, env_ssh_host = host,
                  env_ssh_port = port, env_workspace = workspace, env_status = status,
                  env_tools = jor tools (JList []), env_created_at = at_create,
                  env_updated_at = (if updated \<noteq> JNull then updated else at_create)\<rparr>
          else None
      | _ \<Rightarrow> None)"

definition env_to_dict :: "env_info \<Rightarrow> jdict" where
  "env_to_dict e =
     [(''agent_id'', JStr (env_agent_id e)), (''container_id'', JStr (env_container_id e)),
      (''container_name'', JStr (env_container_name e)), (''ssh_host'', env_ssh_host e),
      (''ssh_port'', env_ssh_port e), (''workspace_path'', env_workspace e), (''status'', env_status e),
      (''tools_provisioned'', env_tools e), (''created_at'', env_created_at e), (''updated_at'', env_updated_at e)]"

definition required_keys :: "string list" where
  "required_keys = [''agent_id'', ''container_id'', ''container_name'']"

text \<open>\<open>None\<close> is \<open>KeyError\<close> or \<open>ValueError\<close>, which every caller treats alike.\<close>

definition env_from_dict :: "int \<Rightarrow> jdict \<Rightarrow> env_info option" where
  "env_from_dict now d =
     (if \<not> list_all (has_key d) required_keys then None
      else make_env now (jget d ''agent_id'') (jget d ''container_id'') (jget d ''container_name'')
             (jget_or d ''ssh_host'' (JStr ''localhost'')) (jget_or d ''ssh_port'' (JInt 22))
             (jget_or d ''workspace_path'' (JStr ''/workspace'')) (jget_or d ''status'' (JStr ''running''))
             (jget_or d ''tools_provisioned'' (JList [])) (jget d ''created_at'') (jget d ''updated_at''))"

section \<open>Files\<close>

datatype env_file = Garbled | Parsed json

type_synonym env_dir = "(string, env_file) pydict"

text \<open>Files are named by their stem. The legacy directories are distinct.\<close>

record env_store =
  primary_dir :: env_dir
  legacy_dirs :: "env_dir list"

definition env_candidates :: "env_store \<Rightarrow> string \<Rightarrow> (nat \<times> env_file option) list" where
  "env_candidates st name = enumerate 0 (map (\<lambda>d. dget d name) (primary_dir st # legacy_dirs st))"

fun first_record :: "(nat \<times> env_file option) list \<Rightarrow> (jdict \<times> nat) option" where
  "first_record [] = None"
| "first_record ((i, Some (Parsed (JDict d))) # rest) =
     (if list_all (has_key d) required_keys then Some (d, i) else first_record rest)"
| "first_record (c # rest) = first_record rest"

text \<open>\<open>_read_env_data\<close>: the record and the index of the directory it came from.\<close>

definition read_env_data :: "env_store \<Rightarrow> string \<Rightarrow> (jdict \<times> nat) option" where
  "read_env_data st name = first_record (env_candidates st name)"

definition token_json :: "json \<Rightarrow> json" where
  "token_json v = (if int_value v = None then JNull else v)"

fun first_token :: "(nat \<times> env_file option) list \<Rightarrow> json" where
  "first_token [] = JNull"
| "first_token ((i, Some (Parsed v)) # rest) = token_json (jget (dict_of v) ''fencing_token'')"
| "first_token (c # rest) = first_token rest"

definition read_raw_fencing_token :: "env_store \<Rightarrow> string \<Rightarrow> json" where
  "read_raw_fencing_token st name = first_token (env_candidates st name)"

text \<open>The write to the primary directory; a legacy source is unlinked after it.\<close>

definition write_env_data :: "env_store \<Rightarrow> string \<Rightarrow> jdict \<Rightarrow> nat option \<Rightarrow> env_store" where
  "write_env_data st name data source =
     (let st' = st\<lparr>primary_dir := dset (primary_dir st) name (Parsed (JDict data))\<rparr> in
      case source of
        Some (Suc i) \<Rightarrow> if i < length (legacy_dirs st)
                       then st'\<lparr>legacy_dirs := (legacy_dirs st)[i := ddel (legacy_dirs st ! i) name]\<rparr> else st'
      | _ \<Rightarrow> st')"

definition prior_token :: "env_store \<Rightarrow> string \<Rightarrow> json" where
  "prior_token st name =
     (case read_env_data st name of
        Some (d, src) \<Rightarrow> token_json (jget d ''fencing_token'')
      | None \<Rightarrow> read_raw_fencing_token st name)"

definition check_presented :: "int option \<Rightarrow> json \<Rightarrow> store_error + unit" where
  "check_presented given prior =
     (case given of None \<Rightarrow> Inr () | Some t \<Rightarrow> check_fencing_token ''environment_store'' t (int_value prior))"

definition with_token :: "jdict \<Rightarrow> int option \<Rightarrow> json \<Rightarrow> jdict" where
  "with_token d given prior = dset d ''fencing_token'' (case given of Some t \<Rightarrow> JInt t | None \<Rightarrow> prior)"

section \<open>Operations\<close>

definition env_register :: "env_info \<Rightarrow> int option \<Rightarrow> env_store \<Rightarrow> store_error + env_store" where
  "env_register info given st =
     (if env_agent_id info = [] then Inl BadArgument
      else case safe_path_component (env_agent_id info) of
        None \<Rightarrow> Inl UnsafePath
      | Some name \<Rightarrow>
          let prior = prior_token st name in
          case check_presented given prior of
            Inl e \<Rightarrow> Inl e
          | Inr u \<Rightarrow> Inr (write_env_data st name (with_token (env_to_dict info) given prior) None))"

text \<open>A candidate that is absent, or holds what \<open>get\<close> would accept.\<close>

fun usable_file :: "int \<Rightarrow> env_file option \<Rightarrow> bool" where
  "usable_file now None = True"
| "usable_file now (Some (Parsed (JDict d))) = (env_from_dict now d \<noteq> None)"
| "usable_file now (Some f) = False"

definition env_readable :: "int \<Rightarrow> string \<Rightarrow> env_store \<Rightarrow> store_error + bool" where
  "env_readable now aid st =
     (if aid = [] then Inl BadArgument
      else case safe_path_component aid of
        None \<Rightarrow> Inl UnsafePath
      | Some name \<Rightarrow>
          Inr (list_all (\<lambda>c. usable_file now (snd c)) (env_candidates st name)))"

definition env_get :: "int \<Rightarrow> string \<Rightarrow> env_store \<Rightarrow> store_error + env_info option" where
  "env_get now aid st =
     (case safe_path_component aid of
        None \<Rightarrow> Inl UnsafePath
      | Some name \<Rightarrow>
          (case read_env_data st name of
             None \<Rightarrow> Inr None
           | Some (d, src) \<Rightarrow> Inr (env_from_dict now d)))"

definition update_status ::
  "int \<Rightarrow> string \<Rightarrow> json \<Rightarrow> int option \<Rightarrow> env_store \<Rightarrow> store_error + bool \<times> env_store" where
  "update_status now aid status given st =
     (case safe_path_component aid of
        None \<Rightarrow> Inl UnsafePath
      | Some name \<Rightarrow>
          (case read_env_data st name of
             None \<Rightarrow> Inr (False, st)
           | Some (d, src) \<Rightarrow>
               let prior = token_json (jget d ''fencing_token'') in
               case check_presented given prior of
                 Inl e \<Rightarrow> Inl e
               | Inr u \<Rightarrow>
                   (case env_from_dict now d of
                      None \<Rightarrow> Inr (False, st)
                    | Some info \<Rightarrow>
                        Inr (True, write_env_data st name
                               (with_token (env_to_dict (info\<lparr>env_status := status, env_updated_at := JTime now\<rparr>)) given prior)
                               (Some src)))))"

fun add_new_tools :: "string list \<Rightarrow> json list \<Rightarrow> json list" where
  "add_new_tools [] tools = tools"
| "add_new_tools (t # ts) tools =
     add_new_tools ts (if t \<noteq> [] \<and> JStr t \<notin> set tools then tools @ [JStr t] else tools)"

definition add_tools ::
  "int \<Rightarrow> string \<Rightarrow> string list \<Rightarrow> int option \<Rightarrow> env_store \<Rightarrow> store_error + bool \<times> env_store" where
  "add_tools now aid names given st =
     (case safe_path_component aid of
        None \<Rightarrow> Inl UnsafePath
      | Some name \<Rightarrow>
          (case read_env_data st name of
             None \<Rightarrow> Inr (False, st)
           | Some (d, src) \<Rightarrow>
               let prior = token_json (jget d ''fencing_token'') in
               case check_presented given prior of
                 Inl e \<Rightarrow> Inl e
               | Inr u \<Rightarrow>
                   (case env_from_dict now d of
                      None \<Rightarrow> Inr (False, st)
                    | Some info \<Rightarrow>
                        (case iterate (env_tools info) of
                           None \<Rightarrow> Inl RaisedTypeError
                         | Some tools \<Rightarrow>
                             Inr (True, write_env_data st name
                               (with_token (env_to_dict (info\<lparr>env_tools := JList (add_new_tools names tools),
                                                              env_updated_at := JTime now\<rparr>)) given prior)
                               (Some src))))))"

definition add_tool ::
  "int \<Rightarrow> string \<Rightarrow> string \<Rightarrow> int option \<Rightarrow> env_store \<Rightarrow> store_error + bool \<times> env_store" where
  "add_tool now aid tool given st = add_tools now aid [tool] given st"

definition unlink_all :: "string \<Rightarrow> env_store \<Rightarrow> env_store" where
  "unlink_all name st = st\<lparr>primary_dir := ddel (primary_dir st) name, legacy_dirs := map (\<lambda>d. ddel d name) (legacy_dirs st)\<rparr>"

definition env_remove :: "string \<Rightarrow> int option \<Rightarrow> env_store \<Rightarrow> store_error + bool \<times> env_store" where
  "env_remove aid given st =
     (case safe_path_component aid of
        None \<Rightarrow> Inl UnsafePath
      | Some name \<Rightarrow>
          (case check_presented given (prior_token st name) of
             Inl e \<Rightarrow> Inl e
           | Inr u \<Rightarrow>
               let removed = list_ex (\<lambda>(i, f). f \<noteq> None) (env_candidates st name);
                   gone = unlink_all name st
               in Inr (removed, case given of
                         None \<Rightarrow> gone
                       | Some t \<Rightarrow> write_env_data gone name [(''fencing_token'', JInt t)] None)))"

fun file_env :: "int \<Rightarrow> env_file \<Rightarrow> env_info option" where
  "file_env now (Parsed (JDict d)) = env_from_dict now d"
| "file_env now f = None"

text \<open>One scan over the directories in turn; \<open>seen\<close> holds the agent ids met so far. The order of a
  directory's files is the order \<open>glob\<close> gives.\<close>

fun list_scan :: "int \<Rightarrow> json option \<Rightarrow> (string \<times> env_file) list \<Rightarrow> string list \<Rightarrow> env_info list" where
  "list_scan now want [] seen = []"
| "list_scan now want ((stem, f) # rest) seen =
     (case file_env now f of
        None \<Rightarrow> list_scan now want rest seen
      | Some env \<Rightarrow>
          if safe_path_component (env_agent_id env) = None \<or> env_agent_id env \<in> set seen
          then list_scan now want rest seen
          else if want = None \<or> want = Some (env_status env)
          then env # list_scan now want rest (env_agent_id env # seen)
          else list_scan now want rest (env_agent_id env # seen))"

text \<open>\<open>rank\<close> is the order of \<open>e.created_at or ""\<close> among the values present; a descending stable sort is an
  ascending one between two reversals.\<close>

definition list_all_envs :: "(json \<Rightarrow> int) \<Rightarrow> int \<Rightarrow> json option \<Rightarrow> env_store \<Rightarrow> env_info list" where
  "list_all_envs rank now want st =
     (let found = list_scan now want (concat (primary_dir st # legacy_dirs st)) [] in
      rev (sort_key (\<lambda>e. rank (jor (env_created_at e) (JStr []))) (rev found)))"

definition env_exists :: "string \<Rightarrow> env_store \<Rightarrow> store_error + bool" where
  "env_exists aid st =
     (case safe_path_component aid of
        None \<Rightarrow> Inl UnsafePath
      | Some name \<Rightarrow> Inr (read_env_data st name \<noteq> None))"

end
