(* ===== verification/AgentLockProps.thy ===== *)
theory AgentLockProps
  imports AgentLock
begin

text \<open>
  Properties of the lease store: a lease excludes every other owner until it expires, tokens only grow and
  grow at every change of hands, a superseded lease is recognised forever, and a release frees the agent
  without forgetting its token.
\<close>

section \<open>Runs\<close>

datatype lock_op = AcquireOp string string int | ReleaseOp string string int "int option"

fun lock_next :: "lock_op \<Rightarrow> lock_store \<Rightarrow> lock_store" where
  "lock_next (AcquireOp aid owner now) st = (case acquire aid owner now st of Inl e \<Rightarrow> st | Inr (t, st') \<Rightarrow> st')"
| "lock_next (ReleaseOp aid owner now given) st = (case release aid owner now given st of Inl e \<Rightarrow> st | Inr st' \<Rightarrow> st')"

fun op_agent :: "lock_op \<Rightarrow> string" where
  "op_agent (AcquireOp aid owner now) = aid"
| "op_agent (ReleaseOp aid owner now given) = aid"

fun op_owner :: "lock_op \<Rightarrow> string" where
  "op_owner (AcquireOp aid owner now) = owner"
| "op_owner (ReleaseOp aid owner now given) = owner"

fun op_time :: "lock_op \<Rightarrow> int" where
  "op_time (AcquireOp aid owner now) = now"
| "op_time (ReleaseOp aid owner now given) = now"

fun op_token :: "lock_op \<Rightarrow> int option" where
  "op_token (AcquireOp aid owner now) = None"
| "op_token (ReleaseOp aid owner now given) = given"

definition lock_of :: "lock_store \<Rightarrow> string \<Rightarrow> lock_record option" where
  "lock_of st aid = (case dget (lock_files st) aid of None \<Rightarrow> None | Some r \<Rightarrow> r)"

definition lock_mark :: "string \<Rightarrow> lock_store \<Rightarrow> int option" where
  "lock_mark aid st = Option.bind (lock_of st aid) lk_token"

lemma safe_component_same: "safe_path_component v = Some n \<Longrightarrow> n = v"
  by (simp add: safe_path_component_def split: if_splits)

lemma read_lock_lock_of: "read_lock st aid = Inr rec \<Longrightarrow> rec = lock_of st aid"
  by (auto simp: read_lock_def lock_of_def split: option.splits dest: safe_component_same)

lemma lock_of_write [simp]: "lock_of (write_lock st aid r) a = (if a = aid then Some r else lock_of st a)"
  by (simp add: write_lock_def lock_of_def)

lemma write_lock_ttl [simp]: "lock_ttl (write_lock st aid r) = lock_ttl st"
  by (simp add: write_lock_def)

lemma read_lock_write: "read_lock st aid = Inr rec \<Longrightarrow> read_lock (write_lock st aid r) aid = Inr (Some r)"
  by (auto simp: read_lock_def write_lock_def split: option.splits dest: safe_component_same)

definition fresh_lease :: "string \<Rightarrow> int \<Rightarrow> int \<Rightarrow> int \<Rightarrow> lock_record" where
  "fresh_lease owner now ttl t = \<lparr>lk_owner = Some owner, lk_acquired_at = Some now,
     lk_expires_at = Some (now + microseconds ttl), lk_token = Some t\<rparr>"

lemma acquire_Inr:
  assumes "acquire aid owner now st = Inr (t, st')"
  obtains rec where "aid \<noteq> []" "owner \<noteq> []" "read_lock st aid = Inr rec" "lock_of st aid = rec"
    "st' = write_lock st aid (fresh_lease owner now (lock_ttl st) t)"
    "rec = None \<and> t = 1 \<or>
     (\<exists>r. rec = Some r \<and> (lk_owner r = Some owner \<or> lock_expired r now) \<and>
        t = (case lk_token r of None \<Rightarrow> 1
             | Some p \<Rightarrow> if lk_owner r = Some owner \<and> \<not> lock_expired r now then p else p + 1))"
proof -
  from assms obtain rec where r: "aid \<noteq> []" "owner \<noteq> []" "read_lock st aid = Inr rec"
    by (auto simp: acquire_def split: if_splits sum.splits)
  note rec = read_lock_lock_of [OF r(3)]
  have st': "st' = write_lock st aid (fresh_lease owner now (lock_ttl st) t)"
    using assms r by (auto simp: acquire_def fresh_lease_def Let_def split: if_splits)
  show thesis
  proof (rule that [OF r rec [symmetric] st'])
    show "rec = None \<and> t = 1 \<or>
     (\<exists>r. rec = Some r \<and> (lk_owner r = Some owner \<or> lock_expired r now) \<and>
        t = (case lk_token r of None \<Rightarrow> 1
             | Some p \<Rightarrow> if lk_owner r = Some owner \<and> \<not> lock_expired r now then p else p + 1))"
      using assms r by (cases rec) (auto simp: acquire_def Let_def split: if_splits option.splits)
  qed
qed

definition released_lease :: "int \<Rightarrow> lock_record \<Rightarrow> lock_record" where
  "released_lease now r = r\<lparr>lk_acquired_at := Some (case lk_acquired_at r of None \<Rightarrow> now | Some a \<Rightarrow> a),
     lk_expires_at := Some (now - microseconds 1), lk_token := Some (case lk_token r of None \<Rightarrow> 1 | Some c \<Rightarrow> c)\<rparr>"

lemma release_Inr:
  assumes "release aid owner now given st = Inr st'"
  shows "st' = st \<or> (\<exists>r. lock_of st aid = Some r \<and> lk_owner r = Some owner \<and>
     st' = write_lock st aid (released_lease now r) \<and>
     (\<forall>t c. given = Some t \<longrightarrow> lk_token r = Some c \<longrightarrow> c \<le> t))"
proof -
  from assms obtain rec where rec: "aid \<noteq> []" "owner \<noteq> []" "read_lock st aid = Inr rec"
    by (auto simp: release_def split: if_splits sum.splits)
  note l = read_lock_lock_of [OF rec(3)]
  show ?thesis
  proof (cases rec)
    case None
    with assms rec show ?thesis by (auto simp: release_def split: if_splits)
  next
    case (Some r)
    let ?stale = "case (given, lk_token r) of (Some t, Some c) \<Rightarrow> t < c | _ \<Rightarrow> False"
    from assms rec Some have s: "st' = (if lk_owner r \<noteq> Some owner \<or> ?stale then st
        else write_lock st aid
          \<lparr>lk_owner = Some owner, lk_acquired_at = Some (case lk_acquired_at r of None \<Rightarrow> now | Some a \<Rightarrow> a),
           lk_expires_at = Some (now - microseconds 1), lk_token = Some (case lk_token r of None \<Rightarrow> 1 | Some c \<Rightarrow> c)\<rparr>)"
      by (auto simp: release_def split: if_splits)
    show ?thesis
    proof (cases "lk_owner r \<noteq> Some owner \<or> ?stale")
      case False
      then have "released_lease now r =
          \<lparr>lk_owner = Some owner, lk_acquired_at = Some (case lk_acquired_at r of None \<Rightarrow> now | Some a \<Rightarrow> a),
           lk_expires_at = Some (now - microseconds 1), lk_token = Some (case lk_token r of None \<Rightarrow> 1 | Some c \<Rightarrow> c)\<rparr>"
        by (cases r) (simp add: released_lease_def)
      with False s l Some have "lock_of st aid = Some r" "lk_owner r = Some owner"
        "st' = write_lock st aid (released_lease now r)" by simp_all
      moreover have "\<forall>t c. given = Some t \<longrightarrow> lk_token r = Some c \<longrightarrow> c \<le> t"
        using False by auto
      ultimately show ?thesis by blast
    qed (use s in simp)
  qed
qed

lemma lock_next_other: "op_agent l \<noteq> aid \<Longrightarrow> lock_of (lock_next l st) aid = lock_of st aid"
proof (cases l)
  case (AcquireOp a owner now)
  assume "op_agent l \<noteq> aid"
  then show ?thesis using AcquireOp by (auto split: sum.splits elim!: acquire_Inr)
next
  case (ReleaseOp a owner now given)
  assume "op_agent l \<noteq> aid"
  then show ?thesis using ReleaseOp release_Inr [of a owner now given st] by (auto split: sum.splits)
qed

lemma lock_next_ttl [simp]: "lock_ttl (lock_next l st) = lock_ttl st"
proof (cases l)
  case (AcquireOp a owner now)
  then show ?thesis by (auto split: sum.splits elim!: acquire_Inr)
next
  case (ReleaseOp a owner now given)
  then show ?thesis using release_Inr [of a owner now given st] by (auto split: sum.splits)
qed

text \<open>What one operation does to a lock whose token is an integer.\<close>

lemma lock_next_record:
  assumes "lock_of st aid = Some r" and "lk_token r = Some c"
  shows "\<exists>r' c'. lock_of (lock_next l st) aid = Some r' \<and> lk_token r' = Some c' \<and> c \<le> c' \<and>
    (lk_owner r' \<noteq> lk_owner r \<longrightarrow> c < c')"
proof (cases "op_agent l = aid")
  case False
  with assms show ?thesis by (simp add: lock_next_other)
next
  case True
  show ?thesis
  proof (cases l)
    case (AcquireOp a owner now)
    show ?thesis
    proof (cases "acquire aid owner now st")
      case (Inr p)
      obtain t st' where p: "p = (t, st')" by fastforce
      from Inr [unfolded p] have "lock_next l st = st'" using AcquireOp True by simp
      with Inr [unfolded p] assms show ?thesis
        by (auto elim!: acquire_Inr simp: fresh_lease_def split: if_splits)
    qed (use True AcquireOp assms in simp)
  next
    case (ReleaseOp a owner now given)
    show ?thesis
    proof (cases "release aid owner now given st")
      case (Inr st')
      then have "lock_next l st = st'" using ReleaseOp True by simp
      with release_Inr [OF Inr] assms show ?thesis by (auto simp: released_lease_def)
    qed (use True ReleaseOp assms in simp)
  qed
qed

interpretation lease: fenced_resource lock_next "lock_mark aid"
  "\<lambda>l. if op_agent l = aid then op_token l else None" "\<lambda>l. False"
  for aid
proof
  fix l t s m
  assume p: "(if op_agent l = aid then op_token l else None) = Some t" and m: "lock_mark aid s = Some m" and "t < m"
  then obtain owner now where l: "l = ReleaseOp aid owner now (Some t)" by (cases l) (auto split: if_splits)
  from m obtain r where "lock_of s aid = Some r" "lk_token r = Some m" by (auto simp: lock_mark_def bind_eq_Some_conv)
  with l \<open>t < m\<close> show "lock_next l s = s"
    by (auto simp: release_def split: sum.splits option.splits dest!: read_lock_lock_of)
next
  fix l s m
  assume "lock_mark aid s = Some m"
  then obtain r where "lock_of s aid = Some r" "lk_token r = Some m" by (auto simp: lock_mark_def bind_eq_Some_conv)
  from lock_next_record [OF this, of l] show "\<exists>m'. lock_mark aid (lock_next l s) = Some m' \<and> m \<le> m'"
    by (auto simp: lock_mark_def)
qed

section \<open>Exclusion\<close>

lemma others_keep_lease:
  assumes "\<And>l. l \<in> set ls \<Longrightarrow> op_agent l = aid \<Longrightarrow> op_owner l \<noteq> owner \<and> op_time l \<le> e"
    and "lock_of st aid = Some r" and "lk_owner r = Some owner" and "lk_expires_at r = Some e"
  shows "lock_of (run_ops lock_next ls st) aid = Some r"
  using assms(1,2)
proof (induction ls arbitrary: st)
  case (Cons l ls)
  have "lock_of (lock_next l st) aid = Some r"
  proof (cases "op_agent l = aid")
    case True
    with Cons.prems(1) have o: "op_owner l \<noteq> owner" "op_time l \<le> e" by auto
    show ?thesis
    proof (cases l)
      case (AcquireOp a own now)
      have "acquire aid own now st \<noteq> Inr p" for p
      proof
        assume "acquire aid own now st = Inr p"
        then obtain t st' where "acquire aid own now st = Inr (t, st')" by (cases p) simp
        then show False
          using o AcquireOp assms(3,4) Cons.prems(2) by (auto elim!: acquire_Inr simp: lock_expired_def)
      qed
      then show ?thesis using AcquireOp True Cons.prems(2) by (auto split: sum.split)
    next
      case (ReleaseOp a own now given)
      then show ?thesis
        using True o assms(3) Cons.prems(2) release_Inr [of aid own now given st] by (auto split: sum.split)
    qed
  qed (use Cons.prems(2) in \<open>simp add: lock_next_other\<close>)
  with Cons show ?case by simp
qed simp

lemma read_lock_run:
  "read_lock st aid = Inr (Some r) \<Longrightarrow> \<exists>r'. read_lock (lock_next l st) aid = Inr (Some r')"
proof -
  assume r: "read_lock st aid = Inr (Some r)"
  have w: "\<exists>r'. read_lock (write_lock st b r1) aid = Inr (Some r')" for b r1
    using r by (cases "b = aid") (auto simp: read_lock_def write_lock_def split: option.splits dest: safe_component_same)
  show ?thesis
  proof (cases l)
    case (AcquireOp a own now)
    then show ?thesis using r w by (auto split: sum.split elim!: acquire_Inr)
  next
    case (ReleaseOp a own now given)
    then show ?thesis using r w release_Inr [of a own now given st] by (auto split: sum.split)
  qed
qed

lemma read_lock_runs:
  "read_lock st aid = Inr (Some r) \<Longrightarrow> \<exists>r'. read_lock (run_ops lock_next ls st) aid = Inr (Some r')"
proof (induction ls arbitrary: st r)
  case (Cons l ls)
  from read_lock_run [OF Cons.prems, of l] obtain r' where "read_lock (lock_next l st) aid = Inr (Some r')" ..
  from Cons.IH [OF this] show ?case by simp
qed simp

lemma read_after_acquire:
  assumes "acquire aid owner now st = Inr (t, st1)"
  shows "read_lock st1 aid = Inr (Some (fresh_lease owner now (lock_ttl st) t))"
  using assms by (auto elim!: acquire_Inr simp: read_lock_write)

text \<open>C13. While a lease runs, its owner is the only one: whatever other owners do to the agent until the lease
  expires, the owner stays recorded and every other acquisition is refused, naming the holder.\<close>

theorem lease_is_exclusive:
  assumes "acquire aid owner now st = Inr (t, st1)"
    and "\<And>l. l \<in> set ls \<Longrightarrow> op_agent l = aid \<Longrightarrow>
      op_owner l \<noteq> owner \<and> op_time l \<le> now + microseconds (lock_ttl st)"
    and "now' \<le> now + microseconds (lock_ttl st)" and "other \<noteq> owner" and "other \<noteq> []"
  shows "get_owner aid now' (run_ops lock_next ls st1) = Inr (Some owner) \<and>
    acquire aid other now' (run_ops lock_next ls st1) = Inl (LockBusy aid (Some owner))"
proof -
  let ?r = "fresh_lease owner now (lock_ttl st) t"
  note rd = read_after_acquire [OF assms(1)]
  from rd have "lock_of st1 aid = Some ?r" by (rule read_lock_lock_of [symmetric])
  then have l: "lock_of (run_ops lock_next ls st1) aid = Some ?r"
    using assms(2) by (intro others_keep_lease [where e = "now + microseconds (lock_ttl st)" and owner = owner])
      (auto simp: fresh_lease_def)
  obtain r' where "read_lock (run_ops lock_next ls st1) aid = Inr (Some r')" using read_lock_runs [OF rd] by blast
  with l have "read_lock (run_ops lock_next ls st1) aid = Inr (Some ?r)" using read_lock_lock_of by fastforce
  with assms(1,3,4,5) show ?thesis
    by (auto simp: get_owner_def acquire_def fresh_lease_def lock_expired_def elim: acquire_Inr)
qed

section \<open>Tokens\<close>

lemma lock_record_run:
  "lock_of st aid = Some r \<Longrightarrow> lk_token r = Some c \<Longrightarrow>
     \<exists>r' c'. lock_of (run_ops lock_next ls st) aid = Some r' \<and> lk_token r' = Some c' \<and> c \<le> c' \<and>
       (lk_owner r' \<noteq> lk_owner r \<longrightarrow> c < c')"
proof (induction ls arbitrary: st r c)
  case (Cons l ls)
  from lock_next_record [OF Cons.prems, of l] obtain r1 c1 where
    r1: "lock_of (lock_next l st) aid = Some r1" "lk_token r1 = Some c1" "c \<le> c1"
      "lk_owner r1 \<noteq> lk_owner r \<longrightarrow> c < c1" by blast
  from Cons.IH [OF r1(1,2)] obtain r' c' where
    "lock_of (run_ops lock_next ls (lock_next l st)) aid = Some r'" "lk_token r' = Some c'" "c1 \<le> c'"
      "lk_owner r' \<noteq> lk_owner r1 \<longrightarrow> c1 < c'" by blast
  with r1 show ?case by (intro exI [of _ r'] exI [of _ c']) auto
qed simp

lemma lock_of_fresh: "acquire aid owner now st = Inr (t, st1) \<Longrightarrow> lock_of st1 aid = Some (fresh_lease owner now (lock_ttl st) t)"
  using read_after_acquire [THEN read_lock_lock_of] by simp

lemma stale_check:
  assumes "read_lock st aid = Inr (Some r)" and "aid \<noteq> []" and "lk_token r = Some c" and "t < c"
  shows "check_lock_token aid t st = Inl (StaleFencingToken ''agent_lock'' t c)"
  using assms by (simp add: check_lock_token_def check_fencing_token_def)

text \<open>A lease that changed hands is superseded for good: the new owner's token is larger, and from then on,
  whatever happens to the agent, checking the old token fails and a release presenting it does nothing.\<close>

theorem superseded_lease_is_stale:
  assumes "acquire aid owner now st = Inr (t, st1)"
    and "acquire aid other now' (run_ops lock_next ls st1) = Inr (t', st2)" and "other \<noteq> owner"
  shows "t < t' \<and> (\<exists>c. t' \<le> c \<and>
    check_lock_token aid t (run_ops lock_next ls' st2) = Inl (StaleFencingToken ''agent_lock'' t c)) \<and>
    lock_next (ReleaseOp aid who now'' (Some t)) (run_ops lock_next ls' st2) = run_ops lock_next ls' st2"
proof -
  have "lk_token (fresh_lease owner now (lock_ttl st) t) = Some t" by (simp add: fresh_lease_def)
  from lock_record_run [OF lock_of_fresh [OF assms(1)] this, of ls] obtain r c where
    r: "lock_of (run_ops lock_next ls st1) aid = Some r" "lk_token r = Some c" "t \<le> c"
      "lk_owner r \<noteq> Some owner \<longrightarrow> t < c" by (auto simp: fresh_lease_def)
  from assms(2) r(1,2) have "t' = (if lk_owner r = Some other \<and> \<not> lock_expired r now' then c else c + 1)"
    by (auto elim!: acquire_Inr)
  with r(3,4) assms(3) have less: "t < t'" by (auto split: if_splits)
  note rd = read_after_acquire [OF assms(2)]
  obtain rf where rf: "read_lock (run_ops lock_next ls' st2) aid = Inr (Some rf)" using read_lock_runs [OF rd] by blast
  have mark: "lock_mark aid st2 = Some t'"
    by (simp add: lock_mark_def lock_of_fresh [OF assms(2)]) (simp add: fresh_lease_def)
  from lease.mark_run [OF _ this, of ls'] obtain c' where
    c': "lock_mark aid (run_ops lock_next ls' st2) = Some c'" "t' \<le> c'" by blast
  then have "lk_token rf = Some c'" using read_lock_lock_of [OF rf, symmetric] by (simp add: lock_mark_def)
  with less c'(2) rf assms(1) have "check_lock_token aid t (run_ops lock_next ls' st2) =
      Inl (StaleFencingToken ''agent_lock'' t c')" by (intro stale_check) (auto elim: acquire_Inr)
  moreover have "lock_next (ReleaseOp aid who now'' (Some t)) (run_ops lock_next ls' st2) = run_ops lock_next ls' st2"
    by (rule lease.stale_forever [OF _ mark]) (use less in simp_all)
  ultimately show ?thesis using less c'(2) by blast
qed

text \<open>A lease renewed only after it expired is a new lease even for the same owner: the token grows by one,
  so the owner's own earlier token is stale, although no other owner ever held the lock.\<close>

theorem expired_reclaim_by_same_owner_mints:
  assumes "acquire aid owner now st = Inr (t, st1)"
    and "acquire aid owner now' st1 = Inr (t', st2)"
  shows "if now + microseconds (lock_ttl st) < now' then
      t' = t + 1 \<and> check_lock_token aid t st2 = Inl (StaleFencingToken ''agent_lock'' t (t + 1))
    else t' = t \<and> check_lock_token aid t st2 = Inr ()"
proof -
  from assms(2) lock_of_fresh [OF assms(1)] have
    t': "t' = (if now + microseconds (lock_ttl st) < now' then t + 1 else t)"
    by (auto elim!: acquire_Inr simp: fresh_lease_def lock_expired_def)
  from assms(1) have "aid \<noteq> []" by (auto elim: acquire_Inr)
  with read_after_acquire [OF assms(2)] t' show ?thesis
    by (simp add: check_lock_token_def check_fencing_token_def fresh_lease_def)
qed

text \<open>The owner's release frees the agent at once, for everyone, and keeps the token as the mark the next
  acquisition grows from; a release by anyone else changes nothing.\<close>

theorem release_frees_and_keeps_token:
  assumes "acquire aid owner now st = Inr (t, st1)"
    and "release aid who now' given st1 = Inr st2" and "now' \<le> later" and "next \<noteq> []"
    and "given = None \<or> given = Some t"
  shows "if who = owner
    then get_owner aid later st2 = Inr None \<and> (\<exists>st3. acquire aid next later st2 = Inr (t + 1, st3))
    else st2 = st1"
proof (cases "who = owner")
  case True
  let ?r = "released_lease now' (fresh_lease owner now (lock_ttl st) t)"
  note rd = read_after_acquire [OF assms(1)]
  from assms(1) have ne: "aid \<noteq> []" "owner \<noteq> []" by (auto elim: acquire_Inr)
  have eq: "st2 = write_lock st1 aid ?r"
    using assms(2,5) rd ne True
    by (auto simp: release_def fresh_lease_def released_lease_def split: if_splits)
  have "read_lock st2 aid = Inr (Some ?r)" unfolding eq by (rule read_lock_write [OF rd])
  moreover have "lock_expired ?r later" "lk_token ?r = Some t"
    using assms(3) by (simp_all add: released_lease_def lock_expired_def microseconds_def fresh_lease_def)
  ultimately show ?thesis using True ne assms(4) by (simp add: get_owner_def acquire_def Let_def)
next
  case False
  with release_Inr [OF assms(2)] lock_of_fresh [OF assms(1)] show ?thesis by (auto simp: fresh_lease_def)
qed

section \<open>Witnesses\<close>

definition demo_locks :: lock_store where
  "demo_locks = \<lparr>lock_files = [], lock_ttl = 10\<rparr>"

definition after_op :: "store_error + int \<times> lock_store \<Rightarrow> int \<times> lock_store" where
  "after_op r = (case r of Inr p \<Rightarrow> p | Inl e \<Rightarrow> (0, demo_locks))"

lemmas demo_simps = acquire_def release_def read_lock_def write_lock_def safe_path_component_def safe_char_def
  max_component_len_def lock_expired_def microseconds_def demo_locks_def Let_def

lemma demo_acquire:
  "\<exists>st1. acquire ''a1'' ''job1'' 0 demo_locks = Inr (1, st1) \<and> lock_files st1 =
     [(''a1'', Some \<lparr>lk_owner = Some ''job1'', lk_acquired_at = Some 0, lk_expires_at = Some 10000000, lk_token = Some 1\<rparr>)] \<and>
     lock_ttl st1 = 10"
  by (simp add: demo_simps)

theorem lease_is_exclusive_witness:
  "\<exists>st1. acquire ''a1'' ''job1'' 0 demo_locks = Inr (1, st1) \<and>
     acquire ''a1'' ''job2'' 7 (run_ops lock_next [ReleaseOp ''a1'' ''job2'' 5 None] st1) = Inl (LockBusy ''a1'' (Some ''job1''))"
proof -
  from demo_acquire obtain st1 where a: "acquire ''a1'' ''job1'' 0 demo_locks = Inr (1, st1)" by blast
  have "acquire ''a1'' ''job2'' 7 (run_ops lock_next [ReleaseOp ''a1'' ''job2'' 5 None] st1) = Inl (LockBusy ''a1'' (Some ''job1''))"
    by (rule conjunct2 [OF lease_is_exclusive [OF a]]) (auto simp: demo_locks_def microseconds_def)
  with a show ?thesis by blast
qed

lemma demo_reacquire:
  assumes "acquire ''a1'' ''job1'' 0 demo_locks = Inr (1, st1)" and "owner \<noteq> []"
  shows "\<exists>st2. acquire ''a1'' owner 20000000 st1 = Inr (2, st2)"
  using assms by (auto simp: demo_simps)

theorem superseded_lease_is_stale_witness:
  "\<exists>st1 st2. acquire ''a1'' ''job1'' 0 demo_locks = Inr (1, st1) \<and>
     acquire ''a1'' ''job2'' 20000000 st1 = Inr (2, st2) \<and> (1::int) < 2 \<and>
     lock_next (ReleaseOp ''a1'' ''job1'' 0 (Some 1)) st2 = st2"
proof -
  from demo_acquire obtain st1 where a: "acquire ''a1'' ''job1'' 0 demo_locks = Inr (1, st1)" by blast
  from demo_reacquire [OF a, of "''job2''"] obtain st2 where b: "acquire ''a1'' ''job2'' 20000000 (run_ops lock_next [] st1) = Inr (2, st2)"
    by auto
  from superseded_lease_is_stale [OF a b, of "[]" "''job1''" 0] a b show ?thesis by auto
qed

theorem expired_reclaim_by_same_owner_mints_witness:
  "\<exists>st1 st2. acquire ''a1'' ''job1'' 0 demo_locks = Inr (1, st1) \<and> acquire ''a1'' ''job1'' 20000000 st1 = Inr (2, st2) \<and>
     check_lock_token ''a1'' 1 st2 = Inl (StaleFencingToken ''agent_lock'' 1 2)"
proof -
  from demo_acquire obtain st1 where a: "acquire ''a1'' ''job1'' 0 demo_locks = Inr (1, st1)" by blast
  from demo_reacquire [OF a, of "''job1''"] obtain st2 where b: "acquire ''a1'' ''job1'' 20000000 st1 = Inr (2, st2)" by auto
  from expired_reclaim_by_same_owner_mints [OF a b] a b show ?thesis by (simp add: demo_locks_def microseconds_def)
qed

theorem release_frees_and_keeps_token_witness:
  "\<exists>st1 st2 st3. acquire ''a1'' ''job1'' 0 demo_locks = Inr (1, st1) \<and> release ''a1'' ''job1'' 5 (Some 1) st1 = Inr st2 \<and>
     acquire ''a1'' ''job2'' 5 st2 = Inr (2, st3)"
proof -
  from demo_acquire obtain st1 where a: "acquire ''a1'' ''job1'' 0 demo_locks = Inr (1, st1)" by blast
  then obtain st2 where b: "release ''a1'' ''job1'' 5 (Some 1) st1 = Inr st2" by (auto simp: demo_simps)
  from release_frees_and_keeps_token [OF a b, of 5 "''job2''"] a b show ?thesis by auto
qed

end
