(* ===== verification/EnvStoreProps.thy ===== *)
theory EnvStoreProps
  imports EnvStore AgentLockProps "HOL-Library.Multiset"
begin

text \<open>
  Properties of the environment registry: it is a fenced resource, so together with the agent lock a
  superseded owner never changes an environment again; a registration reads back; a removal leaves
  nothing to find but a mark; listing shows each agent once.
\<close>

section \<open>Reading after writing\<close>

lemma candidates_Cons:
  "env_candidates st name = (0, dget (primary_dir st) name) # enumerate 1 (map (\<lambda>d. dget d name) (legacy_dirs st))"
  by (simp add: env_candidates_def)

lemma write_primary [simp]: "primary_dir (write_env_data st name d src) = dset (primary_dir st) name (Parsed (JDict d))"
  by (simp add: write_env_data_def Let_def split: option.split nat.split)

lemma write_legacy_other:
  "n \<noteq> name \<Longrightarrow> map (\<lambda>d. dget d n) (legacy_dirs (write_env_data st name d src)) = map (\<lambda>d. dget d n) (legacy_dirs st)"
  by (auto simp: write_env_data_def Let_def list_eq_iff_nth_eq nth_list_update split: option.split nat.split)

lemma candidates_write_other: "n \<noteq> name \<Longrightarrow> env_candidates (write_env_data st name d src) n = env_candidates st n"
  by (simp add: candidates_Cons write_legacy_other)

lemma candidates_unlink_other: "n \<noteq> name \<Longrightarrow> env_candidates (unlink_all name st) n = env_candidates st n"
  by (simp add: candidates_Cons unlink_all_def comp_def)

lemma read_write:
  "list_all (has_key d) required_keys \<Longrightarrow> read_env_data (write_env_data st name d src) name = Some (d, 0)"
  by (simp add: read_env_data_def candidates_Cons)

lemma required_to_dict: "list_all (has_key (with_token (env_to_dict e) given prior)) required_keys"
  by (simp add: required_keys_def with_token_def has_key_def env_to_dict_def)

lemma token_json_idem [simp]: "token_json (token_json v) = token_json v"
  by (simp add: token_json_def)

lemma int_value_token_json [simp]: "int_value (token_json v) = int_value v"
  by (simp add: token_json_def)

lemma token_json_first [simp]: "token_json (first_token cs) = first_token cs"
  by (induction cs rule: first_token.induct) (simp_all add: token_json_def)

lemma token_json_prior [simp]: "token_json (prior_token st name) = prior_token st name"
  by (auto simp: prior_token_def read_raw_fencing_token_def split: option.split)

lemma prior_after_write:
  "prior_token (write_env_data st name (with_token (env_to_dict e) given prior) src) name =
     token_json (case given of Some t \<Rightarrow> JInt t | None \<Rightarrow> prior)"
proof -
  have "jget (with_token (env_to_dict e) given prior) ''fencing_token'' = (case given of Some t \<Rightarrow> JInt t | None \<Rightarrow> prior)"
    by (simp add: with_token_def)
  then show ?thesis by (simp add: prior_token_def read_write [OF required_to_dict])
qed

text \<open>No candidate has a file.\<close>

definition no_files :: "(nat \<times> env_file option) list \<Rightarrow> bool" where
  "no_files cs \<longleftrightarrow> (\<forall>c \<in> set cs. snd c = None)"

lemma no_files_Cons: "no_files (c # cs) \<longleftrightarrow> snd c = None \<and> no_files cs"
  by (simp add: no_files_def)

lemma first_record_None: "no_files cs \<Longrightarrow> first_record cs = None"
  by (induction cs rule: first_record.induct) (simp_all add: no_files_Cons)

lemma first_token_None: "no_files cs \<Longrightarrow> first_token cs = JNull"
  by (induction cs rule: first_token.induct) (simp_all add: no_files_Cons)

definition tombstoned :: "string \<Rightarrow> int \<Rightarrow> env_store \<Rightarrow> env_store" where
  "tombstoned name t st = write_env_data (unlink_all name st) name [(''fencing_token'', JInt t)] None"

lemma legacy_after_unlink: "no_files (enumerate 1 (map (\<lambda>d. dget d name) (legacy_dirs (unlink_all name st))))"
  by (auto simp: no_files_def unlink_all_def in_set_enumerate_eq)

lemma candidates_unlink_None: "no_files (env_candidates (unlink_all name st) name)"
  using legacy_after_unlink by (simp add: candidates_Cons no_files_Cons) (simp add: unlink_all_def)

lemma candidates_tombstoned:
  "env_candidates (tombstoned name t st) name =
     (0, Some (Parsed (JDict [(''fencing_token'', JInt t)]))) #
     enumerate 1 (map (\<lambda>d. dget d name) (legacy_dirs (unlink_all name st)))"
  by (simp add: tombstoned_def candidates_Cons) (simp add: write_env_data_def)

lemma read_tombstoned: "read_env_data (tombstoned name t st) name = None"
  using first_record_None [OF legacy_after_unlink]
  by (simp add: read_env_data_def candidates_tombstoned required_keys_def has_key_def)

lemma prior_tombstoned: "prior_token (tombstoned name t st) name = JInt t"
  by (simp add: prior_token_def read_tombstoned read_raw_fencing_token_def candidates_tombstoned token_json_def jget_Cons)

section \<open>The registry as a fenced resource\<close>

datatype env_op =
    Register env_info "int option"
  | UpdateStatus int string json "int option"
  | AddTools int string "string list" "int option"
  | RemoveEnv string "int option"

fun env_op_agent :: "env_op \<Rightarrow> string" where
  "env_op_agent (Register info given) = env_agent_id info"
| "env_op_agent (UpdateStatus now aid st given) = aid"
| "env_op_agent (AddTools now aid names given) = aid"
| "env_op_agent (RemoveEnv aid given) = aid"

fun env_op_token :: "env_op \<Rightarrow> int option" where
  "env_op_token (Register info given) = given"
| "env_op_token (UpdateStatus now aid st given) = given"
| "env_op_token (AddTools now aid names given) = given"
| "env_op_token (RemoveEnv aid given) = given"

fun env_op_run :: "env_op \<Rightarrow> env_store \<Rightarrow> store_error + env_store" where
  "env_op_run (Register info given) st = env_register info given st"
| "env_op_run (UpdateStatus now aid s given) st = map_sum id snd (update_status now aid s given st)"
| "env_op_run (AddTools now aid names given) st = map_sum id snd (add_tools now aid names given st)"
| "env_op_run (RemoveEnv aid given) st = map_sum id snd (env_remove aid given st)"

definition env_next :: "env_op \<Rightarrow> env_store \<Rightarrow> env_store" where
  "env_next l st = (case env_op_run l st of Inl e \<Rightarrow> st | Inr st' \<Rightarrow> st')"

definition env_resets :: "string \<Rightarrow> env_op \<Rightarrow> bool" where
  "env_resets aid l \<longleftrightarrow> l = RemoveEnv aid None"

definition env_mark :: "string \<Rightarrow> env_store \<Rightarrow> int option" where
  "env_mark aid st = int_value (prior_token st aid)"

text \<open>What a successful operation has done: nothing, one guarded write, or a removal.\<close>

lemma check_presented_Inr:
  "check_presented given prior = Inr u \<Longrightarrow> given = Some t \<Longrightarrow> int_value prior = Some m \<Longrightarrow> m \<le> t"
  by (auto simp: check_presented_def check_fencing_token_def split: if_splits)

lemma env_op_run_cases:
  assumes "env_op_run l st = Inr st'"
  obtains (same) "st' = st"
  | (written) e src u where
      "st' = write_env_data st (env_op_agent l) (with_token (env_to_dict e) (env_op_token l) (prior_token st (env_op_agent l))) src"
      "check_presented (env_op_token l) (prior_token st (env_op_agent l)) = Inr u"
  | (removed) u where "l = RemoveEnv (env_op_agent l) (env_op_token l)"
      "check_presented (env_op_token l) (prior_token st (env_op_agent l)) = Inr u"
      "st' = (case env_op_token l of None \<Rightarrow> unlink_all (env_op_agent l) st
              | Some t \<Rightarrow> tombstoned (env_op_agent l) t st)"
proof (cases l)
  case (Register info given)
  with assms obtain name u where "safe_path_component (env_agent_id info) = Some name"
    "check_presented given (prior_token st name) = Inr u"
    "st' = write_env_data st name (with_token (env_to_dict info) given (prior_token st name)) None"
    by (auto simp: env_register_def Let_def split: if_splits option.splits sum.splits)
  with safe_component_same Register that(2) show ?thesis by fastforce
next
  case (UpdateStatus now aid s given)
  show ?thesis
  proof (cases "st' = st")
    case False
    with assms UpdateStatus obtain name d src info u where w: "safe_path_component aid = Some name"
      "read_env_data st name = Some (d, src)" "check_presented given (token_json (jget d ''fencing_token'')) = Inr u"
      "st' = write_env_data st name (with_token (env_to_dict (info\<lparr>env_status := s, env_updated_at := JTime now\<rparr>))
         given (token_json (jget d ''fencing_token''))) (Some src)"
      by (auto simp: update_status_def Let_def split: option.splits sum.splits)
    from w(2) have "prior_token st name = token_json (jget d ''fencing_token'')" by (simp add: prior_token_def)
    with w safe_component_same [OF w(1)] UpdateStatus that(2) show ?thesis by simp
  qed (use that(1) in simp)
next
  case (AddTools now aid names given)
  show ?thesis
  proof (cases "st' = st")
    case False
    with assms AddTools obtain name d src info tools u where w: "safe_path_component aid = Some name"
      "read_env_data st name = Some (d, src)" "check_presented given (token_json (jget d ''fencing_token'')) = Inr u"
      "st' = write_env_data st name (with_token (env_to_dict (info\<lparr>env_tools := JList (add_new_tools names tools), env_updated_at := JTime now\<rparr>))
         given (token_json (jget d ''fencing_token''))) (Some src)"
      by (auto simp: add_tools_def Let_def split: option.splits sum.splits)
    from w(2) have "prior_token st name = token_json (jget d ''fencing_token'')" by (simp add: prior_token_def)
    with w safe_component_same [OF w(1)] AddTools that(2) show ?thesis by simp
  qed (use that(1) in simp)
next
  case (RemoveEnv aid given)
  with assms obtain name u where w: "safe_path_component aid = Some name"
    "check_presented given (prior_token st name) = Inr u"
    "st' = (case given of None \<Rightarrow> unlink_all name st | Some t \<Rightarrow> tombstoned name t st)"
    by (auto simp: env_remove_def Let_def tombstoned_def split: option.splits sum.splits)
  from safe_component_same [OF w(1)] have "name = aid" .
  from w(2,3) [unfolded this] RemoveEnv show ?thesis by (intro that(3) [of u]) (simp_all split: option.split)
qed

lemma prior_other:
  assumes "env_op_agent l \<noteq> aid" shows "prior_token (env_next l st) aid = prior_token st aid"
proof (cases "env_op_run l st")
  case (Inr st')
  then have "env_candidates st' aid = env_candidates st aid"
    using assms by (cases rule: env_op_run_cases)
      (auto simp: candidates_write_other candidates_unlink_other tombstoned_def split: option.split)
  then show ?thesis
    by (simp only: env_next_def Inr prior_token_def read_env_data_def read_raw_fencing_token_def sum.case)
qed (simp add: env_next_def)

interpretation registry: fenced_resource env_next "env_mark aid"
  "\<lambda>l. if env_op_agent l = aid then env_op_token l else None" "env_resets aid"
  for aid
proof
  fix l t s m
  assume p: "(if env_op_agent l = aid then env_op_token l else None) = Some t"
    and m: "env_mark aid s = Some m" and less: "t < m"
  then have l: "env_op_agent l = aid" "env_op_token l = Some t" by (simp_all split: if_splits)
  show "env_next l s = s"
  proof (cases "env_op_run l s")
    case (Inr s')
    then show ?thesis
    proof (cases rule: env_op_run_cases)
      case (written e src u)
      with check_presented_Inr [OF written(2) l(2), of m] m less l show ?thesis by (simp add: env_mark_def)
    next
      case (removed u)
      with check_presented_Inr [OF removed(2) l(2), of m] m less l show ?thesis by (simp add: env_mark_def)
    qed (simp add: env_next_def Inr)
  qed (simp add: env_next_def)
next
  fix l s m
  assume r: "\<not> env_resets aid l" and m: "env_mark aid s = Some m"
  show "\<exists>m'. env_mark aid (env_next l s) = Some m' \<and> m \<le> m'"
  proof (cases "env_op_agent l = aid")
    case False
    with m show ?thesis by (simp add: env_mark_def prior_other)
  next
    case True
    show ?thesis
    proof (cases "env_op_run l s")
      case (Inr s')
      then show ?thesis
      proof (cases rule: env_op_run_cases)
        case (written e src u)
        then have "env_mark aid (env_next l s) = int_value (case env_op_token l of Some t \<Rightarrow> JInt t | None \<Rightarrow> prior_token s aid)"
          using True by (simp add: env_next_def Inr env_mark_def prior_after_write)
        with check_presented_Inr [OF written(2) _, of _ m] m True show ?thesis
          by (auto simp: env_mark_def split: option.split)
      next
        case (removed u)
        with r True obtain t where t: "env_op_token l = Some t" by (cases "env_op_token l") (auto simp: env_resets_def)
        with removed True Inr have "env_mark aid (env_next l s) = Some t"
          by (simp add: env_next_def env_mark_def prior_tombstoned)
        with check_presented_Inr [OF removed(2) t, of m] m True show ?thesis by (simp add: env_mark_def)
      qed (use m in \<open>simp add: env_next_def Inr\<close>)
    qed (use m in \<open>simp add: env_next_def\<close>)
  qed
qed

section \<open>Owners and environments\<close>

lemma tokens_grow:
  assumes "acquire aid owner now st = Inr (t, st1)"
    and "acquire aid other now' (run_ops lock_next ls st1) = Inr (t', st2)" and "other \<noteq> owner"
  shows "t < t'"
proof -
  have "lk_token (fresh_lease owner now (lock_ttl st) t) = Some t" by (simp add: fresh_lease_def)
  from lock_record_run [OF lock_of_fresh [OF assms(1)] this, of ls] obtain r c where
    "lock_of (run_ops lock_next ls st1) aid = Some r" "lk_token r = Some c" "t \<le> c"
      "lk_owner r \<noteq> Some owner \<longrightarrow> t < c" by (auto simp: fresh_lease_def)
  with assms(2,3) show ?thesis by (auto elim!: acquire_Inr split: if_splits)
qed

lemma mark_after_register:
  assumes "env_register info given st = Inr st'"
  shows "env_mark (env_agent_id info) st' = (case given of Some t \<Rightarrow> Some t | None \<Rightarrow> env_mark (env_agent_id info) st)"
proof -
  from assms obtain name where "safe_path_component (env_agent_id info) = Some name"
    "st' = write_env_data st name (with_token (env_to_dict info) given (prior_token st name)) None"
    by (auto simp: env_register_def Let_def split: if_splits option.splits sum.splits)
  with safe_component_same [OF this(1)] show ?thesis
    by (simp add: env_mark_def prior_after_write split: option.split)
qed

text \<open>An unfenced removal forgets the mark: after it, a registration presenting any token at all is accepted
  again, also one that was superseded before.\<close>

theorem unfenced_remove_forgets_mark:
  assumes "env_remove aid None st = Inr (r, st')" and "env_agent_id info = aid" and "aid \<noteq> []"
  shows "env_mark aid st' = None \<and> (\<exists>st''. env_register info (Some t) st' = Inr st'')"
proof -
  from assms(1) obtain name where n: "safe_path_component aid = Some name" "st' = unlink_all name st"
    by (auto simp: env_remove_def check_presented_def Let_def split: option.splits)
  with safe_component_same [OF n(1)] have st': "st' = unlink_all aid st" by simp
  note nf = candidates_unlink_None [of aid st]
  from nf have p: "prior_token st' aid = JNull"
    by (simp add: prior_token_def read_env_data_def read_raw_fencing_token_def st' first_record_None first_token_None)
  with n assms safe_component_same [OF n(1)] show ?thesis
    by (simp add: env_mark_def env_register_def check_presented_def check_fencing_token_def)
qed

text \<open>C8. From the moment a newer lease holder has registered the environment, no operation of the superseded
  holder changes it any more, whatever others do to it in between, until a removal without a token: such a
  removal forgets the mark, and from then on a registration with the superseded token is accepted again.\<close>

theorem superseded_owner_cannot_touch_environment:
  assumes "acquire aid owner now locks = Inr (t, locks1)"
    and "acquire aid other now' (run_ops lock_next ls locks1) = Inr (t', locks2)" and "other \<noteq> owner"
    and "env_register info (Some t') envs = Inr envs1" and "env_agent_id info = aid"
    and "\<And>l. l \<in> set ops \<Longrightarrow> \<not> env_resets aid l"
  defines "envs2 \<equiv> run_ops env_next ops envs1"
  shows "(\<forall>late. env_op_agent late = aid \<longrightarrow> env_op_token late = Some t \<longrightarrow> env_next late envs2 = envs2) \<and>
    (\<forall>r envs3. env_remove aid None envs2 = Inr (r, envs3) \<longrightarrow> aid \<noteq> [] \<longrightarrow> (\<exists>envs4. env_register info (Some t) envs3 = Inr envs4))"
proof (intro conjI allI impI)
  show "env_next late envs2 = envs2" if "env_op_agent late = aid" "env_op_token late = Some t" for late
    unfolding envs2_def
  proof (rule registry.stale_forever)
    show "env_mark aid envs1 = Some t'" using mark_after_register [OF assms(4)] assms(5) by simp
    show "(if env_op_agent late = aid then env_op_token late else None) = Some t" using that by simp
    show "t < t'" by (rule tokens_grow [OF assms(1-3)])
  qed (rule assms(6))
  show "\<exists>envs4. env_register info (Some t) envs3 = Inr envs4"
    if "env_remove aid None envs2 = Inr (r, envs3)" "aid \<noteq> []" for r envs3
    using unfenced_remove_forgets_mark [OF that(1) assms(5) that(2)] by blast
qed

section \<open>Reading back\<close>

text \<open>What every constructed record satisfies, with a non-empty tool list or an empty one written as \<open>[]\<close>.\<close>

definition env_wf :: "env_info \<Rightarrow> bool" where
  "env_wf e \<longleftrightarrow> env_agent_id e \<noteq> [] \<and> env_container_id e \<noteq> [] \<and> env_container_name e \<noteq> [] \<and>
     (\<exists>p. int_value (env_ssh_port e) = Some p \<and> 1 \<le> p \<and> p \<le> 65535) \<and>
     (truthy (env_tools e) \<or> env_tools e = JList []) \<and> env_created_at e \<noteq> JNull \<and> env_updated_at e \<noteq> JNull"

lemma env_from_to:
  assumes "env_wf e" shows "env_from_dict now (with_token (env_to_dict e) given prior) = Some e"
proof -
  obtain p where "int_value (env_ssh_port e) = Some p" "1 \<le> p" "p \<le> 65535" using assms by (auto simp: env_wf_def)
  with assms show ?thesis
    unfolding env_from_dict_def
    by (cases e) (auto simp: required_keys_def with_token_def has_key_def env_to_dict_def jget_lits make_env_def env_wf_def
        jor_def neq_Nil_conv)
qed

lemma env_from_wf: "env_from_dict now d = Some e \<Longrightarrow> env_wf e"
  by (auto simp: env_from_dict_def make_env_def env_wf_def jor_def Let_def split: option.splits if_splits
      elim!: nonempty_str.elims)

text \<open>A registration that is accepted reads back as it was given, also after any operations on other
  agents.\<close>

theorem registration_reads_back:
  assumes "env_register info given st = Inr st'" and "env_wf info"
    and "\<And>l. l \<in> set ops \<Longrightarrow> env_op_agent l \<noteq> env_agent_id info"
  shows "env_get now (env_agent_id info) (run_ops env_next ops st') = Inr (Some info) \<and>
    env_exists (env_agent_id info) (run_ops env_next ops st') = Inr True"
proof -
  let ?aid = "env_agent_id info"
  from assms(1) obtain name where n: "safe_path_component ?aid = Some name"
    "st' = write_env_data st name (with_token (env_to_dict info) given (prior_token st name)) None"
    by (auto simp: env_register_def Let_def split: if_splits option.splits sum.splits)
  note name = safe_component_same [OF n(1)]
  have keep: "env_candidates (run_ops env_next ops s) ?aid = env_candidates s ?aid"
    if "\<And>l. l \<in> set ops \<Longrightarrow> env_op_agent l \<noteq> ?aid" for s
    using that
  proof (induction ops arbitrary: s)
    case (Cons l ops)
    have "env_candidates (env_next l s) ?aid = env_candidates s ?aid"
    proof (cases "env_op_run l s")
      case (Inr s')
      then show ?thesis
        using Cons.prems [of l] by (cases rule: env_op_run_cases)
          (auto simp: env_next_def Inr candidates_write_other candidates_unlink_other tombstoned_def split: option.split)
    qed (simp add: env_next_def)
    with Cons show ?case by simp
  qed simp
  have "read_env_data st' ?aid = Some (with_token (env_to_dict info) given (prior_token st name), 0)"
    using n(2) name read_write [OF required_to_dict] by simp
  then have "read_env_data (run_ops env_next ops st') ?aid = Some (with_token (env_to_dict info) given (prior_token st name), 0)"
    using keep [of st'] assms(3) by (simp add: read_env_data_def)
  with n(1) name show ?thesis by (simp add: env_get_def env_exists_def env_from_to [OF assms(2)])
qed

lemma readable_candidates:
  "list_all (\<lambda>c. usable_file now (snd c)) cs \<Longrightarrow>
     no_files cs \<or> (\<exists>d i. first_record cs = Some (d, i) \<and> env_from_dict now d \<noteq> None)"
proof (induction cs rule: first_record.induct)
  case (2 i d rest)
  then have "list_all (has_key d) required_keys" by (auto simp: env_from_dict_def split: if_splits)
  with 2 show ?case by simp
qed (auto simp: no_files_Cons, simp add: no_files_def)

text \<open>A lookup that finds nothing proves absence exactly when the registry reports the agent readable:
  then no directory holds a file for it.\<close>

theorem readable_absence_is_absence:
  assumes "safe_path_component aid = Some aid"
  shows "env_readable now aid st = Inr True \<and> env_get now aid st = Inr None \<longleftrightarrow> no_files (env_candidates st aid)"
proof -
  from assms have ne: "aid \<noteq> []" by (auto simp: safe_path_component_def split: if_splits)
  have read: "env_readable now aid st = Inr (list_all (\<lambda>c. usable_file now (snd c)) (env_candidates st aid))"
    using ne assms by (simp add: env_readable_def)
  have get: "env_get now aid st = Inr None \<longleftrightarrow>
      (\<forall>d i. first_record (env_candidates st aid) = Some (d, i) \<longrightarrow> env_from_dict now d = None)"
    using assms by (auto simp: env_get_def read_env_data_def split: option.split)
  have "list_all (\<lambda>c. usable_file now (snd c)) (env_candidates st aid)" if "no_files (env_candidates st aid)"
    using that by (simp add: no_files_def list_all_iff)
  then show ?thesis unfolding read get using readable_candidates first_record_None by fastforce
qed

text \<open>A fenced removal leaves nothing to look up, but its tombstone makes the registry report the agent as
  unreadable from then on, so the removal can never be confirmed as an absence.\<close>

theorem fenced_removal_looks_unreadable:
  assumes "env_remove aid (Some t) st = Inr (r, st')" and "aid \<noteq> []"
  shows "env_get now aid st' = Inr None \<and> env_exists aid st' = Inr False \<and> env_readable now aid st' = Inr False"
proof -
  from assms(1) obtain name where n: "safe_path_component aid = Some name" "st' = tombstoned name t st"
    by (auto simp: env_remove_def tombstoned_def Let_def split: option.splits sum.splits)
  with safe_component_same [OF n(1)] have st': "st' = tombstoned aid t st" "name = aid" by simp_all
  have "env_from_dict now [(''fencing_token'', JInt t)] = None"
    by (simp add: env_from_dict_def required_keys_def has_key_def)
  with n(1) st' assms(2) show ?thesis
    by (simp add: env_get_def env_exists_def env_readable_def read_tombstoned candidates_tombstoned)
qed

text \<open>Updating the status of a registered environment changes that field and the update time of what a
  lookup gives, nothing else, moves the record to the primary directory, and drops the legacy copy it came
  from.\<close>

theorem status_update_changes_only_status:
  assumes "update_status now aid s given st = Inr (True, st')"
  shows "\<exists>info src. env_get now aid st = Inr (Some info) \<and>
    env_get later aid st' = Inr (Some (info\<lparr>env_status := s, env_updated_at := JTime now\<rparr>)) \<and>
    read_env_data st aid = Some (src) \<and>
    (\<forall>i. snd src = Suc i \<longrightarrow> i < length (legacy_dirs st') \<longrightarrow> dget (legacy_dirs st' ! i) aid = None)"
proof -
  from assms obtain name d src info where w: "safe_path_component aid = Some name"
    "read_env_data st name = Some (d, src)" "env_from_dict now d = Some info"
    "st' = write_env_data st name (with_token (env_to_dict (info\<lparr>env_status := s, env_updated_at := JTime now\<rparr>))
       given (token_json (jget d ''fencing_token''))) (Some src)"
    by (auto simp: update_status_def Let_def split: option.splits sum.splits)
  note n = safe_component_same [OF w(1)]
  have "env_wf (info\<lparr>env_status := s, env_updated_at := JTime now\<rparr>)"
    using env_from_wf [OF w(3)] by (simp add: env_wf_def)
  then have "env_get later aid st' = Inr (Some (info\<lparr>env_status := s, env_updated_at := JTime now\<rparr>))"
    using w n by (simp add: env_get_def read_write [OF required_to_dict] env_from_to)
  moreover have "env_get now aid st = Inr (Some info)" using w n by (simp add: env_get_def)
  moreover have "dget (legacy_dirs st' ! i) aid = None" if "src = Suc i" "i < length (legacy_dirs st')" for i
    using that n unfolding w(4) by (auto simp: write_env_data_def Let_def split: if_splits)
  ultimately show ?thesis using w(2) n by (intro exI [of _ info] exI [of _ "(d, src)"]) simp
qed

section \<open>Listing\<close>

lemma list_scan_step:
  "list_scan now want ((stem, f) # rest) seen = list_scan now want rest seen \<or>
   (\<exists>env. file_env now f = Some env \<and> safe_path_component (env_agent_id env) = Some (env_agent_id env) \<and>
      env_agent_id env \<notin> set seen \<and>
      list_scan now want ((stem, f) # rest) seen =
        (if want = None \<or> want = Some (env_status env) then [env] else []) @ list_scan now want rest (env_agent_id env # seen))"
  by (auto split: option.split dest: safe_component_same)

lemma list_scan_sound:
  "distinct (map env_agent_id (list_scan now want fs seen)) \<and>
   (\<forall>e \<in> set (list_scan now want fs seen). env_agent_id e \<notin> set seen \<and>
      safe_path_component (env_agent_id e) = Some (env_agent_id e) \<and> (want = None \<or> want = Some (env_status e)) \<and>
      (\<exists>p \<in> set fs. file_env now (snd p) = Some e))"
proof (induction fs arbitrary: seen)
  case (Cons p fs)
  obtain stem f where p: "p = (stem, f)" by fastforce
  from list_scan_step [of now want stem f fs seen] show ?case
  proof (elim disjE exE conjE)
    assume "list_scan now want ((stem, f) # fs) seen = list_scan now want fs seen"
    with Cons.IH [of seen] show ?thesis by (auto simp: p simp del: list_scan.simps)
  next
    fix env
    assume "file_env now f = Some env" "safe_path_component (env_agent_id env) = Some (env_agent_id env)"
      "env_agent_id env \<notin> set seen" "list_scan now want ((stem, f) # fs) seen =
        (if want = None \<or> want = Some (env_status env) then [env] else []) @ list_scan now want fs (env_agent_id env # seen)"
    with Cons.IH [of "env_agent_id env # seen"] show ?thesis by (auto simp: p simp del: list_scan.simps)
  qed
qed simp

lemma list_scan_complete:
  "p \<in> set fs \<Longrightarrow> file_env now (snd p) = Some e \<Longrightarrow> safe_path_component (env_agent_id e) \<noteq> None \<Longrightarrow>
     env_agent_id e \<notin> set seen \<Longrightarrow> env_agent_id e \<in> set (map env_agent_id (list_scan now None fs seen))"
proof (induction fs arbitrary: seen)
  case (Cons q fs)
  obtain stem f where q: "q = (stem, f)" by fastforce
  show ?case
  proof (cases "file_env now f")
    case None
    with Cons q show ?thesis by auto
  next
    case (Some env)
    show ?thesis
    proof (cases "env_agent_id env = env_agent_id e")
      case True
      with Cons.prems Some q show ?thesis by auto
    next
      case False
      with Cons.prems Some q have "p \<in> set fs" by auto
      with Cons.IH [of seen] Cons.IH [of "env_agent_id env # seen"] Cons.prems Some False q show ?thesis by auto
    qed
  qed
qed simp

text \<open>The listing shows every agent with a usable record once, only records whose id is a safe file name
  and whose status is the one asked for, newest first.\<close>

lemma set_list_all_envs: "set (list_all_envs rank now want st) = set (list_scan now want (concat (primary_dir st # legacy_dirs st)) [])"
  by (simp add: list_all_envs_def Let_def)

theorem listing_is_exact:
  "distinct (map env_agent_id (list_all_envs rank now want st)) \<and>
   sorted (rev (map (\<lambda>e. rank (jor (env_created_at e) (JStr []))) (list_all_envs rank now want st))) \<and>
   (\<forall>e. e \<in> set (list_all_envs rank now want st) \<longrightarrow>
      safe_path_component (env_agent_id e) = Some (env_agent_id e) \<and> (want = None \<or> want = Some (env_status e)) \<and>
      (\<exists>dir \<in> set (primary_dir st # legacy_dirs st). \<exists>p \<in> set dir. file_env now (snd p) = Some e)) \<and>
   (\<forall>dir p e. dir \<in> set (primary_dir st # legacy_dirs st) \<longrightarrow> p \<in> set dir \<longrightarrow>
      file_env now (snd p) = Some e \<longrightarrow> safe_path_component (env_agent_id e) \<noteq> None \<longrightarrow>
      env_agent_id e \<in> set (map env_agent_id (list_all_envs rank now None st)))"
proof (intro conjI allI impI)
  let ?fs = "concat (primary_dir st # legacy_dirs st)"
  note sound = list_scan_sound [of now want ?fs "[]"]
  have "mset (list_all_envs rank now want st) = mset (list_scan now want ?fs [])"
    by (simp add: list_all_envs_def Let_def)
  then have "mset (map env_agent_id (list_all_envs rank now want st)) = mset (map env_agent_id (list_scan now want ?fs []))"
    by simp
  then show "distinct (map env_agent_id (list_all_envs rank now want st))"
    using sound mset_eq_imp_distinct_iff by blast
  show "sorted (rev (map (\<lambda>e. rank (jor (env_created_at e) (JStr []))) (list_all_envs rank now want st)))"
    by (simp add: list_all_envs_def Let_def rev_map)
  fix e assume "e \<in> set (list_all_envs rank now want st)"
  then show "safe_path_component (env_agent_id e) = Some (env_agent_id e)" "want = None \<or> want = Some (env_status e)"
    using sound set_list_all_envs by blast+
  from \<open>e \<in> _\<close> sound obtain p where "p \<in> set ?fs" "file_env now (snd p) = Some e"
    using set_list_all_envs by blast
  then show "\<exists>dir \<in> set (primary_dir st # legacy_dirs st). \<exists>p \<in> set dir. file_env now (snd p) = Some e"
    unfolding set_concat by blast
next
  fix dir p e
  assume "dir \<in> set (primary_dir st # legacy_dirs st)" "p \<in> set dir"
    "file_env now (snd p) = Some e" "safe_path_component (env_agent_id e) \<noteq> None"
  then show "env_agent_id e \<in> set (map env_agent_id (list_all_envs rank now None st))"
    using list_scan_complete [of p "concat (primary_dir st # legacy_dirs st)" now e "[]"]
    by (auto simp: set_list_all_envs)
qed

section \<open>Witnesses\<close>

definition demo_env :: env_info where
  "demo_env = \<lparr>env_agent_id = ''a1'', env_container_id = ''c1'', env_container_name = ''box'', env_ssh_host = JStr ''localhost'',
     env_ssh_port = JInt 22, env_workspace = JStr ''/workspace'', env_status = JStr ''running'', env_tools = JList [],
     env_created_at = JTime 0, env_updated_at = JTime 0\<rparr>"

definition empty_envs :: env_store where
  "empty_envs = \<lparr>primary_dir = [], legacy_dirs = []\<rparr>"

lemma a1_safe: "safe_path_component ''a1'' = Some ''a1''"
  by (simp add: safe_path_component_def safe_char_def max_component_len_def)

lemma demo_wf: "env_wf demo_env"
  by (simp add: env_wf_def demo_env_def)

lemma register_demo: "\<exists>st'. env_register demo_env given empty_envs = Inr st'"
proof -
  have "env_agent_id demo_env = ''a1''" by (simp add: demo_env_def)
  moreover have "prior_token empty_envs ''a1'' = JNull"
    by (simp add: prior_token_def read_env_data_def read_raw_fencing_token_def candidates_Cons empty_envs_def)
  ultimately show ?thesis
    by (cases given) (simp_all add: env_register_def a1_safe check_presented_def check_fencing_token_def)
qed

theorem superseded_owner_cannot_touch_environment_witness:
  "\<exists>envs1. env_register demo_env (Some 2) empty_envs = Inr envs1 \<and> env_next (RemoveEnv ''a1'' (Some 1)) envs1 = envs1"
proof -
  from demo_acquire obtain st1 where a: "acquire ''a1'' ''job1'' 0 demo_locks = Inr (1, st1)" by blast
  from demo_reacquire [OF a, of "''job2''"] obtain st2 where b: "acquire ''a1'' ''job2'' 20000000 (run_ops lock_next [] st1) = Inr (2, st2)"
    by auto
  from register_demo obtain envs1 where r: "env_register demo_env (Some 2) empty_envs = Inr envs1" by blast
  have "env_agent_id demo_env = ''a1''" by (simp add: demo_env_def)
  from superseded_owner_cannot_touch_environment [OF a b _ r this, of "[]"]
  have "env_next (RemoveEnv ''a1'' (Some 1)) envs1 = envs1" by simp
  with r show ?thesis by blast
qed

lemma remove_demo:
  assumes "env_register demo_env (Some 2) empty_envs = Inr envs1" and "given = None \<or> given = Some 3"
  shows "\<exists>r st'. env_remove ''a1'' given envs1 = Inr (r, st')"
proof -
  have "int_value (prior_token envs1 ''a1'') = Some 2"
    using mark_after_register [OF assms(1)] by (simp add: env_mark_def demo_env_def)
  with assms(2) show ?thesis
    by (auto simp: env_remove_def a1_safe check_presented_def check_fencing_token_def Let_def)
qed

theorem unfenced_remove_forgets_mark_witness:
  "\<exists>envs1 r envs2 envs3. env_register demo_env (Some 2) empty_envs = Inr envs1 \<and>
     env_remove ''a1'' None envs1 = Inr (r, envs2) \<and> env_register demo_env (Some 1) envs2 = Inr envs3"
proof -
  from register_demo obtain envs1 where r: "env_register demo_env (Some 2) empty_envs = Inr envs1" by blast
  from remove_demo [OF r] obtain x envs2 where m: "env_remove ''a1'' None envs1 = Inr (x, envs2)" by blast
  from unfenced_remove_forgets_mark [OF m, of demo_env 1] r m show ?thesis by (auto simp: demo_env_def)
qed

theorem registration_reads_back_witness:
  "\<exists>envs1. env_register demo_env None empty_envs = Inr envs1 \<and> env_get 5 ''a1'' envs1 = Inr (Some demo_env)"
proof -
  from register_demo obtain envs1 where r: "env_register demo_env None empty_envs = Inr envs1" by blast
  from registration_reads_back [OF r demo_wf, of "[]" 5] r show ?thesis by (simp add: demo_env_def)
qed

theorem readable_absence_is_absence_witness:
  "env_readable 5 ''a1'' empty_envs = Inr True \<and> env_get 5 ''a1'' empty_envs = Inr None"
  using readable_absence_is_absence [OF a1_safe, of 5 empty_envs]
  by (simp add: no_files_def candidates_Cons empty_envs_def)

theorem fenced_removal_looks_unreadable_witness:
  "\<exists>envs1 r envs2. env_register demo_env (Some 2) empty_envs = Inr envs1 \<and>
     env_remove ''a1'' (Some 3) envs1 = Inr (r, envs2) \<and> env_readable 5 ''a1'' envs2 = Inr False"
proof -
  from register_demo obtain envs1 where r: "env_register demo_env (Some 2) empty_envs = Inr envs1" by blast
  from remove_demo [OF r] obtain x envs2 where m: "env_remove ''a1'' (Some 3) envs1 = Inr (x, envs2)" by blast
  from fenced_removal_looks_unreadable [OF m, of 5] r m show ?thesis by auto
qed

definition legacy_envs :: env_store where
  "legacy_envs = \<lparr>primary_dir = [], legacy_dirs = [[(''a1'', Parsed (JDict (env_to_dict demo_env)))]]\<rparr>"

theorem status_update_changes_only_status_witness:
  "\<exists>st'. update_status 9 ''a1'' (JStr ''ready'') None legacy_envs = Inr (True, st') \<and>
     env_get 10 ''a1'' st' = Inr (Some (demo_env\<lparr>env_status := JStr ''ready'', env_updated_at := JTime 9\<rparr>))"
proof -
  have e: "env_from_dict 9 (env_to_dict demo_env) = Some demo_env"
    by (simp add: demo_env_def env_to_dict_def env_from_dict_def required_keys_def has_key_def jget_lits make_env_def jor_def)
  have k: "list_all (has_key (env_to_dict demo_env)) required_keys"
    by (simp add: env_to_dict_def required_keys_def has_key_def)
  have d: "read_env_data legacy_envs ''a1'' = Some (env_to_dict demo_env, 1)"
    by (simp add: read_env_data_def candidates_Cons legacy_envs_def k)
  then obtain st' where u: "update_status 9 ''a1'' (JStr ''ready'') None legacy_envs = Inr (True, st')"
    by (simp add: update_status_def a1_safe e check_presented_def Let_def)
  have "env_get 9 ''a1'' legacy_envs = Inr (Some demo_env)" by (simp add: env_get_def a1_safe d e)
  with status_update_changes_only_status [OF u, of 10] u show ?thesis by auto
qed

theorem listing_is_exact_witness:
  "distinct (map env_agent_id (list_all_envs (\<lambda>v. 0) 9 None legacy_envs))"
  using listing_is_exact [of "\<lambda>v. 0" 9 None legacy_envs] by blast

end
