(* ===== verification/SwarmRouting.thy ===== *)
theory SwarmRouting
  imports TaskModels
begin

text \<open>
  Team labels of the coding swarm (\<^verbatim>\<open>backend/agents/software_engineering_team/team_routing.py\<close>): the
  normal form of a label, which worker may run which task, and the stacks a roster needs. The
  regular expressions \<open>[^a-z0-9]+\<close> and \<open>[a-z0-9]+\<close> are \<open>collapse\<close> and \<open>alnum_words\<close>. The environment
  flag that opens the DevOps route is the argument \<open>devops\<close>.
\<close>

section \<open>Text helpers\<close>

definition is_alnum :: "char \<Rightarrow> bool" where
  "is_alnum c \<longleftrightarrow> (let n = of_char c :: nat in (48 \<le> n \<and> n \<le> 57) \<or> (97 \<le> n \<and> n \<le> 122))"

text \<open>\<open>re.sub(r"[^a-z0-9]+", "_", s)\<close>.\<close>

function collapse :: "string \<Rightarrow> string" where
  "collapse [] = []"
| "collapse (c # s) =
     (if is_alnum c then c # collapse s
      else CHR ''_'' # collapse (dropWhile (\<lambda>c. \<not> is_alnum c) s))"
  by pat_completeness auto
termination by (relation "measure length") (auto simp: length_dropWhile_le le_imp_less_Suc)

text \<open>\<open>s.strip("_")\<close>.\<close>

definition strip_underscores :: "string \<Rightarrow> string" where
  "strip_underscores s =
     rev (dropWhile (\<lambda>c. c = CHR ''_'') (rev (dropWhile (\<lambda>c. c = CHR ''_'') s)))"

text \<open>\<open>re.findall(r"[a-z0-9]+", s)\<close>: the maximal runs.\<close>

function alnum_words :: "string \<Rightarrow> string list" where
  "alnum_words s =
     (let t = dropWhile (\<lambda>c. \<not> is_alnum c) s in
      if t = [] then [] else takeWhile is_alnum t # alnum_words (dropWhile is_alnum t))"
  by pat_completeness auto
termination
proof (relation "measure length", goal_cases)
  case (2 s t)
  from 2(2) obtain c cs where t: "t = c # cs" by (cases t) simp_all
  then have "is_alnum c" using 2(1) dropWhile_eq_Cons_conv [of "\<lambda>c. \<not> is_alnum c" s c cs] by simp
  then have "length (dropWhile is_alnum t) < length t"
    using t by (simp add: length_dropWhile_le le_imp_less_Suc)
  also have "length t \<le> length s"
    using 2(1) by (simp add: length_dropWhile_le)
  finally show ?case by simp
qed simp

declare alnum_words.simps [simp del]

text \<open>\<open>s.split("_")\<close>.\<close>

fun split_underscores :: "string \<Rightarrow> string list" where
  "split_underscores [] = [[]]"
| "split_underscores (c # s) =
     (if c = CHR ''_'' then [] # split_underscores s
      else (case split_underscores s of w # ws \<Rightarrow> (c # w) # ws | [] \<Rightarrow> [[c]]))"

section \<open>Labels\<close>

definition frontend_v2_explicit :: "string list" where
  "frontend_v2_explicit =
     [''frontend_v2'', ''frontend-v2'', ''frontend v2'',
      ''frontend_code_v2'', ''frontend-code-v2'', ''frontend code v2'']"

definition backend_v2_explicit :: "string list" where
  "backend_v2_explicit =
     [''backend_v2'', ''backend-v2'', ''backend v2'',
      ''backend_code_v2'', ''backend-code-v2'', ''backend code v2'']"

definition frontend_hints :: "string list" where
  "frontend_hints =
     [''angular'', ''react'', ''vue'', ''typescript'', ''javascript'', ''html'', ''css'', ''scss'',
      ''ui'', ''ux'', ''frontend'']"

definition backend_hints :: "string list" where
  "backend_hints =
     [''api'', ''apis'', ''backend'', ''build'', ''ci'', ''ci_cd'', ''cicd'', ''database'',
      ''databases'', ''devops'', ''django'', ''express'', ''fastapi'', ''flask'',
      ''infrastructure'', ''java'', ''node'', ''postgres'', ''python'', ''server'', ''servers'',
      ''service'', ''services'', ''spring'']"

definition backend_team_aliases :: "string list" where
  "backend_team_aliases =
     [''backendv2'', ''api'', ''apis'', ''backend_api'', ''database'', ''databases'', ''data'',
      ''db'', ''node'', ''platform'', ''server'', ''servers'', ''service'', ''services'',
      ''python'', ''java'', ''nodejs'', ''node_js'', ''golang'', ''rust'', ''ruby'', ''php'',
      ''dotnet'', ''net'', ''netcore'', ''net_core'', ''aspnet'', ''asp_net'', ''django'',
      ''flask'', ''fastapi'', ''spring'', ''springboot'', ''spring_boot'', ''express'',
      ''express_js'', ''postgres'', ''postgresql'', ''mysql'', ''mongodb'']"

definition frontend_team_aliases :: "string list" where
  "frontend_team_aliases =
     [''frontendv2'', ''ui'', ''ux'', ''ui_ux'', ''ux_ui'', ''web'', ''webapp'', ''web_app'',
      ''client'', ''angular'', ''angularjs'', ''angular_js'', ''react'', ''reactjs'', ''react_js'',
      ''vue'', ''vuejs'', ''vue_js'', ''svelte'', ''html'', ''css'', ''scss'', ''sass'',
      ''tailwind'', ''nextjs'', ''next_js'']"

definition devops_team_aliases :: "string list" where
  "devops_team_aliases =
     [''devops'', ''dev_ops'', ''infra'', ''infrastructure'', ''ci'', ''ci_cd'', ''cicd'']"

text \<open>The decision on a normalised label: \<open>stripped\<close> has no separators at all.\<close>

definition route_label :: "bool \<Rightarrow> string \<Rightarrow> string \<Rightarrow> string" where
  "route_label devops label stripped =
     (if stripped = ''frontend'' then ''frontend_v2''
      else if stripped = ''backend'' then ''backend_v2''
      else if ''frontend'' \<in> set (split_underscores label) then ''frontend_v2''
      else if ''backend'' \<in> set (split_underscores label) then ''backend_v2''
      else if label \<in> set frontend_team_aliases then ''frontend_v2''
      else if label \<in> set devops_team_aliases then (if devops then ''devops'' else ''backend_v2'')
      else if label \<in> set backend_team_aliases then ''backend_v2''
      else label)"

definition normal_label :: "string \<Rightarrow> string" where
  "normal_label raw = strip_underscores (collapse raw)"

definition text_or_empty :: "string option \<Rightarrow> string" where
  "text_or_empty v = (case v of None \<Rightarrow> [] | Some s \<Rightarrow> s)"

definition team_key :: "bool \<Rightarrow> string option \<Rightarrow> string" where
  "team_key devops v =
     (let raw = str_lower (str_strip (text_or_empty v))
      in route_label devops (normal_label raw) (filter is_alnum raw))"

text \<open>Whether an agent (its team key) may run a task with the given target.\<close>

definition target_matches_agent :: "bool \<Rightarrow> string option \<Rightarrow> string \<Rightarrow> bool" where
  "target_matches_agent devops target agent =
     (let k = team_key devops target in k = [] \<or> k = team_key devops (Some agent))"

section \<open>Stacks\<close>

record stack_spec =
  spec_tools :: "string list"
  spec_name :: "string option"

text \<open>\<open>s.replace("_", " ").replace("-", " ")\<close>.\<close>

definition spaced :: "string \<Rightarrow> string" where
  "spaced s = map (\<lambda>c. if c = CHR ''_'' \<or> c = CHR ''-'' then CHR '' '' else c) s"

definition hint_tokens_of :: "string \<Rightarrow> string list" where
  "hint_tokens_of raw_part =
     (let part = str_lower (str_strip raw_part) in
      if part = [] then []
      else (let n = normal_label part in
            (if n \<noteq> [] then [n] else []) @
            concat (map (\<lambda>w. w # (if last w = CHR ''s'' \<and> length w > 3 then [butlast w] else []))
                      (alnum_words part))))"

definition stack_hint_tokens :: "stack_spec \<Rightarrow> string list" where
  "stack_hint_tokens spec =
     concat (map hint_tokens_of (text_or_empty (spec_name spec) # spec_tools spec))"

definition v2_team_kind_for_stack :: "bool \<Rightarrow> stack_spec \<Rightarrow> string option" where
  "v2_team_kind_for_stack devops spec =
     (let raw = str_lower (str_strip (text_or_empty (spec_name spec)));
          exactish = {raw, spaced raw};
          hints = set (stack_hint_tokens spec);
          key = team_key devops (spec_name spec)
      in if exactish \<inter> set frontend_v2_explicit \<noteq> {} then Some ''frontend''
         else if exactish \<inter> set backend_v2_explicit \<noteq> {} then Some ''backend''
         else if key = ''frontend_v2'' then Some ''frontend''
         else if key = ''backend_v2'' then Some ''backend''
         else if key = ''devops'' then Some ''devops''
         else if hints \<inter> set frontend_hints \<noteq> {} then Some ''frontend''
         else if hints \<inter> set backend_hints \<noteq> {} then Some ''backend''
         else None)"

definition quality_gate_agent_type :: "bool \<Rightarrow> string option \<Rightarrow> string" where
  "quality_gate_agent_type devops name =
     (let key = team_key devops name;
          inferred = v2_team_kind_for_stack devops
            \<lparr>spec_tools = [], spec_name = Some (str_strip (text_or_empty name))\<rparr>;
          fallback = str_strip (if text_or_empty name \<noteq> [] then text_or_empty name else ''backend'')
      in if key = ''frontend_v2'' then ''frontend''
         else if key = ''backend_v2'' then ''backend''
         else if inferred = Some ''frontend'' then ''frontend''
         else if inferred = Some ''backend'' then ''backend''
         else if fallback \<noteq> [] then fallback else ''backend'')"

text \<open>A worker: its declared kind, if it has one, and its stack.\<close>

record worker =
  agent_id :: string
  team_kind :: "string option"
  worker_stack :: "stack_spec option"

definition worker_team_key :: "worker \<Rightarrow> string" where
  "worker_team_key w =
     (if team_kind w = Some ''frontend'' then ''frontend_v2''
      else if team_kind w = Some ''backend'' then ''backend_v2''
      else if team_kind w = Some ''devops'' then ''devops''
      else
        let raw = str_lower (str_strip (case worker_stack w of None \<Rightarrow> [] | Some sp \<Rightarrow> text_or_empty (spec_name sp)));
            exactish = {raw, spaced raw}
        in if exactish \<inter> set frontend_v2_explicit \<noteq> {} then ''frontend_v2''
           else if exactish \<inter> set backend_v2_explicit \<noteq> {} then ''backend_v2''
           else map (\<lambda>c. if c = CHR ''-'' \<or> c = CHR '' '' then CHR ''_'' else c) raw)"

section \<open>Rosters\<close>

text \<open>A stack entry as it was persisted. The model class validates the tools: an entry that is not
  text raises.\<close>

fun string_list :: "json list \<Rightarrow> string list option" where
  "string_list [] = Some []"
| "string_list (JStr s # vs) = map_option ((#) s) (string_list vs)"
| "string_list (v # vs) = None"

definition stack_spec_from_raw :: "(json \<Rightarrow> string) \<Rightarrow> json \<Rightarrow> stack_spec option" where
  "stack_spec_from_raw rep entry =
     (let spec = dict_of entry;
          name = py_str rep (jor (jget spec ''name'') (JStr []))
      in case jget spec ''tools_services'' of
           JList tools \<Rightarrow> map_option (\<lambda>ts. \<lparr>spec_tools = ts, spec_name = Some name\<rparr>) (string_list tools)
         | _ \<Rightarrow> Some \<lparr>spec_tools = [], spec_name = Some name\<rparr>)"

text \<open>The kinds present in the roster; \<open>None\<close> when some entry raises.\<close>

fun present_kinds :: "(json \<Rightarrow> string) \<Rightarrow> bool \<Rightarrow> json list \<Rightarrow> string option list option" where
  "present_kinds rep devops [] = Some []"
| "present_kinds rep devops (e # es) =
     (case stack_spec_from_raw rep e of
        None \<Rightarrow> None
      | Some sp \<Rightarrow> map_option ((#) (v2_team_kind_for_stack devops sp)) (present_kinds rep devops es))"

definition stack_entry :: "string \<Rightarrow> string list \<Rightarrow> json" where
  "stack_entry name tools =
     JDict [(''name'', JStr name), (''tools_services'', JList (map JStr tools))]"

definition frontend_stack :: json where
  "frontend_stack = stack_entry ''frontend_v2'' [''Angular'', ''TypeScript'', ''React'', ''CSS'', ''HTML'']"

definition backend_v2_stack_spec :: json where
  "backend_v2_stack_spec =
     stack_entry ''backend_v2'' [''Java'', ''Python'', ''Node.js'', ''Databases'', ''APIs'', ''DevOps'']"

definition devops_stack_spec :: json where
  "devops_stack_spec =
     stack_entry ''devops'' [''Terraform'', ''Docker'', ''Kubernetes'', ''Helm'', ''GitHub Actions'']"

definition target_keys :: "bool \<Rightarrow> task list \<Rightarrow> string list" where
  "target_keys devops ts =
     map (\<lambda>t. team_key devops (target_team t)) (filter (\<lambda>t. str_truthy (target_team t)) ts)"

definition ensure_target_team_stack_specs ::
  "(json \<Rightarrow> string) \<Rightarrow> bool \<Rightarrow> json \<Rightarrow> task list \<Rightarrow> json list option" where
  "ensure_target_team_stack_specs rep devops stacks_raw ts =
     (let stacks = list_of stacks_raw; keys = set (target_keys devops ts)
      in case present_kinds rep devops stacks of
           None \<Rightarrow> None
         | Some present \<Rightarrow> Some (stacks
             @ (if ''frontend_v2'' \<in> keys \<and> Some ''frontend'' \<notin> set present then [frontend_stack] else [])
             @ (if ''backend_v2'' \<in> keys \<and> Some ''backend'' \<notin> set present then [backend_v2_stack_spec] else [])
             @ (if ''devops'' \<in> keys \<and> Some ''devops'' \<notin> set present then [devops_stack_spec] else [])))"

section \<open>The normal form of a label\<close>

text \<open>A run of letters and digits.\<close>

definition alnum_word :: "string \<Rightarrow> bool" where
  "alnum_word w \<longleftrightarrow> w \<noteq> [] \<and> (\<forall>c \<in> set w. is_alnum c)"

lemma not_alnum_underscore [simp]: "\<not> is_alnum CHR ''_''"
  by (simp add: is_alnum_def)

lemma collapse_word_append: "\<forall>c \<in> set w. is_alnum c \<Longrightarrow> collapse (w @ r) = w @ collapse r"
  by (induction w) auto

lemma alnum_words_none: "dropWhile (\<lambda>c. \<not> is_alnum c) s = [] \<Longrightarrow> alnum_words s = []"
  by (subst alnum_words.simps) (simp add: Let_def del: dropWhile_eq_Nil_conv)

lemma alnum_words_some:
  "dropWhile (\<lambda>c. \<not> is_alnum c) s \<noteq> [] \<Longrightarrow>
     alnum_words s = takeWhile is_alnum (dropWhile (\<lambda>c. \<not> is_alnum c) s)
       # alnum_words (dropWhile is_alnum (dropWhile (\<lambda>c. \<not> is_alnum c) s))"
  by (subst alnum_words.simps) (simp add: Let_def del: dropWhile_eq_Nil_conv)

lemma alnum_words_are_words: "w \<in> set (alnum_words s) \<Longrightarrow> alnum_word w"
proof (induction s rule: alnum_words.induct)
  case (1 s)
  let ?t = "dropWhile (\<lambda>c. \<not> is_alnum c) s"
  from "1.prems" have t: "?t \<noteq> []" using alnum_words_none [of s] by fastforce
  then have c: "is_alnum (hd ?t)" using hd_dropWhile [of "\<lambda>c. \<not> is_alnum c" s] by simp
  from "1.prems" t have "w = takeWhile is_alnum ?t \<or> w \<in> set (alnum_words (dropWhile is_alnum ?t))"
    using alnum_words_some [OF t] by simp
  then show ?case
  proof
    assume "w = takeWhile is_alnum ?t"
    with t c show ?thesis
      by (cases ?t) (auto simp: alnum_word_def dest: set_takeWhileD)
  qed (use "1.IH" [OF refl t] in blast)
qed

lemma collapse_leading:
  "collapse s = (if s \<noteq> [] \<and> \<not> is_alnum (hd s) then ''_'' else []) @
     collapse (dropWhile (\<lambda>c. \<not> is_alnum c) s)"
  by (cases s) (auto simp: dropWhile_eq_self_iff)

lemma collapse_words:
  "\<exists>ending. (ending = [] \<or> ending = ''_'') \<and> (alnum_words s = [] \<longrightarrow> ending = []) \<and>
     collapse s = (if s \<noteq> [] \<and> \<not> is_alnum (hd s) then ''_'' else []) @ str_join ''_'' (alnum_words s) @ ending"
proof (induction s rule: alnum_words.induct)
  case (1 s)
  let ?t = "dropWhile (\<lambda>c. \<not> is_alnum c) s"
  show ?case
  proof (cases "?t = []")
    case True
    have "collapse s = (if s \<noteq> [] \<and> \<not> is_alnum (hd s) then ''_'' else [])"
      using collapse_leading [of s] unfolding True by simp
    with alnum_words_none [OF True] show ?thesis by simp
  next
    case False
    define w r where "w = takeWhile is_alnum ?t" and "r = dropWhile is_alnum ?t"
    note wr = w_def [symmetric] r_def [symmetric]
    have words: "alnum_words s = w # alnum_words r"
      using alnum_words_some [OF False] unfolding wr .
    have "?t = w @ r" unfolding w_def r_def by simp
    moreover have "collapse (w @ r) = w @ collapse r"
      by (rule collapse_word_append) (auto simp: w_def dest: set_takeWhileD)
    ultimately have c: "collapse s = (if s \<noteq> [] \<and> \<not> is_alnum (hd s) then ''_'' else []) @ w @ collapse r"
      using collapse_leading [of s] by metis
    have junk: "r \<noteq> [] \<Longrightarrow> \<not> is_alnum (hd r)" using hd_dropWhile [of is_alnum ?t] unfolding wr by blast
    from "1.IH" [OF refl False, folded r_def] obtain ending where ending: "ending = [] \<or> ending = ''_''"
      and e: "alnum_words r = [] \<longrightarrow> ending = []"
      and ir: "collapse r = (if r \<noteq> [] \<and> \<not> is_alnum (hd r) then ''_'' else []) @ str_join ''_'' (alnum_words r) @ ending"
      by blast
    show ?thesis
    proof (cases "alnum_words r")
      case Nil
      with e ir junk have "collapse r = [] \<or> collapse r = ''_''" by auto
      with c words Nil show ?thesis by auto
    next
      case (Cons v vs)
      then have "r \<noteq> []" by (auto simp: alnum_words_none)
      with ir junk have "collapse r = ''_'' @ str_join ''_'' (alnum_words r) @ ending" by simp
      with c words Cons ending show ?thesis by auto
    qed
  qed
qed

lemma strip_underscores_clean:
  assumes "m \<noteq> [] \<Longrightarrow> hd m \<noteq> CHR ''_'' \<and> last m \<noteq> CHR ''_''"
    and "pre = [] \<or> pre = ''_''" and "ending = [] \<or> ending = ''_''" and "m = [] \<Longrightarrow> ending = []"
  shows "strip_underscores (pre @ m @ ending) = m"
proof (cases m rule: rev_cases)
  case Nil
  with assms show ?thesis by (auto simp: strip_underscores_def)
next
  case (snoc m' c)
  with assms(1) have c: "c \<noteq> CHR ''_''" and h: "hd (m' @ [c]) \<noteq> CHR ''_''" by auto
  have "dropWhile (\<lambda>c. c = CHR ''_'') (pre @ m @ ending) = m @ ending"
    using assms(2) h snoc by (cases m') auto
  moreover have "dropWhile (\<lambda>c. c = CHR ''_'') (rev (m @ ending)) = rev m"
    using assms(3) c snoc by auto
  ultimately show ?thesis by (simp add: strip_underscores_def)
qed

lemma join_words_ends:
  assumes "\<And>w. w \<in> set ws \<Longrightarrow> alnum_word w" and "ws \<noteq> []"
  shows "str_join ''_'' ws \<noteq> [] \<and> is_alnum (hd (str_join ''_'' ws)) \<and> is_alnum (last (str_join ''_'' ws))"
  using assms
proof (induction "''_''" ws rule: str_join.induct)
  case (3 s t ss)
  from 3(2) [of s] have "s \<noteq> []" "\<forall>c \<in> set s. is_alnum c" by (auto simp: alnum_word_def)
  with 3 show ?case by simp
qed (auto simp: alnum_word_def)

text \<open>The regular expressions and the stripping together: the words of the text joined by underscores.\<close>

lemma normal_label_words: "normal_label s = str_join ''_'' (alnum_words s)"
proof -
  obtain ending where "ending = [] \<or> ending = ''_''" "alnum_words s = [] \<longrightarrow> ending = []"
    and c: "collapse s = (if s \<noteq> [] \<and> \<not> is_alnum (hd s) then ''_'' else []) @ str_join ''_'' (alnum_words s) @ ending"
    using collapse_words by blast
  moreover have "str_join ''_'' (alnum_words s) \<noteq> [] \<Longrightarrow> alnum_words s \<noteq> []" by auto
  ultimately show ?thesis
    unfolding normal_label_def c
    using join_words_ends [of "alnum_words s"] alnum_words_are_words [of _ s]
    by (intro strip_underscores_clean) (auto simp: is_alnum_def)
qed

lemma alnum_words_append:
  assumes "alnum_word w" and "r = [] \<or> \<not> is_alnum (hd r)"
  shows "alnum_words (w @ r) = w # alnum_words r"
proof -
  from assms(1) have d: "dropWhile (\<lambda>c. \<not> is_alnum c) (w @ r) = w @ r"
    by (cases w) (auto simp: alnum_word_def)
  have t: "takeWhile is_alnum (w @ r) = w"
    using assms by (cases r) (auto simp: alnum_word_def takeWhile_append)
  have e: "dropWhile is_alnum (w @ r) = r"
    using assms by (cases r) (auto simp: alnum_word_def dropWhile_append)
  from assms(1) show ?thesis
    by (subst alnum_words.simps) (simp add: d t e alnum_word_def Let_def)
qed

lemma alnum_words_simps [simp]:
  "alnum_words [] = []"
  "\<not> is_alnum c \<Longrightarrow> alnum_words (c # s) = alnum_words s"
  by (simp add: alnum_words_none) (subst (1 2) alnum_words.simps, simp)

lemma alnum_words_join:
  "(\<And>w. w \<in> set ws \<Longrightarrow> alnum_word w) \<Longrightarrow> alnum_words (str_join ''_'' ws) = ws"
proof (induction "''_''" ws rule: str_join.induct)
  case (2 s)
  then show ?case using alnum_words_append [of s "[]"] by simp
next
  case (3 s t ss)
  then show ?case using alnum_words_append [of s "''_'' @ str_join ''_'' (t # ss)"] by simp
qed simp

lemma normal_label_idem [simp]: "normal_label (normal_label s) = normal_label s"
  unfolding normal_label_words using alnum_words_join [of "alnum_words s"] alnum_words_are_words by simp

lemma concat_alnum_words: "concat (alnum_words s) = filter is_alnum s"
proof (induction s rule: alnum_words.induct)
  case (1 s)
  let ?t = "dropWhile (\<lambda>c. \<not> is_alnum c) s"
  have f: "filter is_alnum s = filter is_alnum ?t"
    by (metis (no_types, lifting) append_Nil filter_False filter_append set_takeWhileD takeWhile_dropWhile_id)
  have g: "filter is_alnum ?t = takeWhile is_alnum ?t @ filter is_alnum (dropWhile is_alnum ?t)"
    by (metis (no_types, lifting) filter_True filter_append set_takeWhileD takeWhile_dropWhile_id)
  show ?case
  proof (cases "?t = []")
    case True
    with f alnum_words_none [OF True] show ?thesis by (metis concat.simps(1) filter.simps(1))
  next
    case False
    with "1.IH" [OF refl False] f g alnum_words_some [OF False] show ?thesis by simp
  qed
qed

lemma filter_normal_label [simp]: "filter is_alnum (normal_label s) = filter is_alnum s"
  unfolding normal_label_words
  using concat_alnum_words [of "str_join ''_'' (alnum_words s)"] alnum_words_join [of "alnum_words s"]
    alnum_words_are_words concat_alnum_words [of s] by simp

lemma set_join: "set (str_join sep ws) \<subseteq> set sep \<union> \<Union> (set ` set ws)"
  by (induction sep ws rule: str_join.induct) auto

lemma label_chars: "c \<in> set (normal_label s) \<Longrightarrow> is_alnum c \<or> c = CHR ''_''"
  using set_join [of "''_''" "alnum_words s"] alnum_words_are_words [of _ s]
  unfolding normal_label_words alnum_word_def by fastforce

lemma label_char_plain: "is_alnum c \<or> c = CHR ''_'' \<Longrightarrow> lower_char c = c \<and> \<not> is_space c"
  by (auto simp: is_alnum_def lower_char_def is_space_def Let_def)

lemma dropWhile_none: "(\<And>c. c \<in> set s \<Longrightarrow> \<not> P c) \<Longrightarrow> dropWhile P s = s"
  by (cases s) auto

lemma strip_id: "(\<And>c. c \<in> set s \<Longrightarrow> \<not> is_space c) \<Longrightarrow> str_strip s = s"
  using dropWhile_none [of s is_space] dropWhile_none [of "rev s" is_space] by (simp add: str_strip_def)

lemma label_plain [simp]: "str_lower (str_strip (normal_label s)) = normal_label s"
proof -
  have "str_strip (normal_label s) = normal_label s"
    using label_chars label_char_plain by (intro strip_id) blast
  then show ?thesis
    using label_chars label_char_plain by (auto simp: str_lower_def intro: map_idI)
qed

lemma route_fixed:
  "team_key devops (Some ''frontend_v2'') = ''frontend_v2''"
  "team_key devops (Some ''backend_v2'') = ''backend_v2''"
  "team_key True (Some ''devops'') = ''devops''"
  by ((cases devops)?, code_simp+)+

text \<open>Two labels that spell the same words have the same key.\<close>

lemma team_key_spelling:
  "alnum_words (str_lower (str_strip a)) = alnum_words (str_lower (str_strip b)) \<Longrightarrow>
     team_key devops (Some a) = team_key devops (Some b)"
  using concat_alnum_words [of "str_lower (str_strip a)"] concat_alnum_words [of "str_lower (str_strip b)"]
  by (simp add: team_key_def text_or_empty_def normal_label_words)

lemma team_key_normal: "team_key devops (Some (team_key devops v)) = team_key devops v"
proof -
  let ?raw = "str_lower (str_strip (text_or_empty v))"
  have "team_key devops v \<in> {''frontend_v2'', ''backend_v2''} \<or>
      (team_key devops v = ''devops'' \<and> devops) \<or>
      (team_key devops v = normal_label ?raw \<and>
       route_label devops (normal_label ?raw) (filter is_alnum ?raw) = normal_label ?raw)"
    by (simp add: team_key_def route_label_def Let_def)
  then show ?thesis
    by (auto simp: route_fixed) (auto simp: team_key_def text_or_empty_def Let_def)
qed

lemma team_key_closed: "team_key False v \<noteq> ''devops''"
proof -
  have "''devops'' \<in> set devops_team_aliases" by (simp add: devops_team_aliases_def)
  then show ?thesis by (auto simp: team_key_def route_label_def Let_def)
qed

text \<open>The routing key is its own key, and the DevOps key only arises with the route open.\<close>

theorem team_key_is_a_normal_form:
  "team_key devops (Some (team_key devops v)) = team_key devops v \<and> team_key False v \<noteq> ''devops''"
  using team_key_normal team_key_closed by simp

end
