(* ===== verification/SwarmRoster.thy ===== *)
theory SwarmRoster
  imports SwarmRouting
begin

text \<open>
  The swarm's roster: worker ids derived from the stack specs
  (\<^verbatim>\<open>software_engineering_team/agent_status.py\<close>, \<open>derive_stack_roster\<close>) and the workers built for
  them (\<^verbatim>\<open>worker_factory.py\<close>). The number of workers per stack comes from the environment and is an
  argument. A name may be any JSON value of the persisted record; one that cannot be a member of a
  set raises, which is \<open>None\<close>.
\<close>

section \<open>Unique ids\<close>

text \<open>\<open>f"{candidate}_{count}"\<close>.\<close>

definition suffixed :: "(json \<Rightarrow> string) \<Rightarrow> json \<Rightarrow> nat \<Rightarrow> json" where
  "suffixed rep candidate count = JStr (py_str rep candidate @ ''_'' @ nat_str count)"

lemma suffixed_inject [simp]: "suffixed rep c m = suffixed rep c n \<longleftrightarrow> m = n"
  by (simp add: suffixed_def)

lemma finite_taken: "finite {n. m \<le> n \<and> suffixed rep c n \<in> set used}"
proof (rule finite_subset)
  show "{n. m \<le> n \<and> suffixed rep c n \<in> set used} \<subseteq> suffixed rep c -` set used" by auto
  show "finite (suffixed rep c -` set used)"
    by (rule finite_vimageI) (auto simp: inj_def)
qed

text \<open>The loop that bumps the suffix: it ends because every bump that is taken uses up one of the
  finitely many used ids.\<close>

function unique_loop :: "(json \<Rightarrow> string) \<Rightarrow> json \<Rightarrow> json list \<Rightarrow> nat \<Rightarrow> json" where
  "unique_loop rep candidate used count =
     (if suffixed rep candidate count \<in> set used then unique_loop rep candidate used (Suc count)
      else suffixed rep candidate count)"
  by pat_completeness auto
termination
proof (relation "measure (\<lambda>(rep, c, used, m). card {n. m \<le> n \<and> suffixed rep c n \<in> set used})", goal_cases)
  case (2 rep c used m)
  let ?taken = "\<lambda>m. {n. m \<le> n \<and> suffixed rep c n \<in> set used}"
  from 2 have "m \<in> ?taken m" "m \<notin> ?taken (Suc m)" "?taken (Suc m) \<subseteq> ?taken m" by auto
  then have "?taken (Suc m) \<subset> ?taken m" by blast
  then show ?case by (simp add: psubset_card_mono [OF finite_taken])
qed simp

declare unique_loop.simps [simp del]

definition unique_id :: "(json \<Rightarrow> string) \<Rightarrow> json \<Rightarrow> json list \<Rightarrow> (json \<times> json list) option" where
  "unique_id rep candidate used =
     (if \<not> hashable candidate then None
      else let u = (if candidate \<in> set used then unique_loop rep candidate used 2 else candidate)
           in Some (u, used @ [u]))"

section \<open>The roster\<close>

record roster_entry =
  ro_agent_id :: json
  ro_display_name :: json
  ro_tools :: "json list"

text \<open>The inner loop: workers \<open>m\<close>, \<open>m + 1\<close>, ... of one stack.\<close>

fun stack_workers ::
  "(json \<Rightarrow> string) \<Rightarrow> json \<Rightarrow> json \<Rightarrow> json list \<Rightarrow> nat list \<Rightarrow> json list \<Rightarrow>
   (roster_entry list \<times> json list) option" where
  "stack_workers rep base name tools [] used = Some ([], used)"
| "stack_workers rep base name tools (m # ms) used =
     (case unique_id rep (JStr (py_str rep base @ ''-'' @ nat_str m)) used of
        None \<Rightarrow> None
      | Some (u, used') \<Rightarrow>
          map_option (\<lambda>(es, used''). (\<lparr>ro_agent_id = u, ro_display_name = name, ro_tools = tools\<rparr> # es, used''))
            (stack_workers rep base name tools ms used'))"

definition stack_name :: "nat \<Rightarrow> json \<Rightarrow> json" where
  "stack_name i entry = jor (jget (dict_of entry) ''name'') (JStr (''stack_'' @ nat_str i))"

fun roster_loop ::
  "(json \<Rightarrow> string) \<Rightarrow> int \<Rightarrow> nat \<Rightarrow> json list \<Rightarrow> json list \<Rightarrow> roster_entry list option" where
  "roster_loop rep n i [] used = Some []"
| "roster_loop rep n i (entry # es) used =
     (let name = stack_name i entry;
          tools = list_of (jget (dict_of entry) ''tools_services'')
      in case unique_id rep name used of
           None \<Rightarrow> None
         | Some (base, used') \<Rightarrow>
             if n \<le> 1
             then map_option (\<lambda>rs. \<lparr>ro_agent_id = base, ro_display_name = name, ro_tools = tools\<rparr> # rs)
                    (roster_loop rep n (Suc i) es used')
             else (case stack_workers rep base name tools [1..<nat n + 1] used' of
                     None \<Rightarrow> None
                   | Some (ws, used'') \<Rightarrow>
                       map_option (\<lambda>rs. ws @ rs) (roster_loop rep n (Suc i) es used'')))"

definition derive_stack_roster :: "(json \<Rightarrow> string) \<Rightarrow> int \<Rightarrow> json \<Rightarrow> roster_entry list option" where
  "derive_stack_roster rep n stacks_raw =
     (case stacks_raw of JList es \<Rightarrow> roster_loop rep n 0 es [] | _ \<Rightarrow> Some [])"

section \<open>Workers\<close>

text \<open>\<open>StackSpec(name=name, tools_services=tools)\<close>, then the kind check of the factory. What the engine
  provider and the team leads do is outside the model; \<open>has_provider\<close> says whether one is injected.\<close>

definition roster_spec :: "roster_entry \<Rightarrow> stack_spec option" where
  "roster_spec r =
     (case (ro_display_name r, string_list (ro_tools r)) of
        (JStr s, Some ts) \<Rightarrow> Some \<lparr>spec_tools = ts, spec_name = Some s\<rparr>
      | _ \<Rightarrow> None)"

datatype factory_error = UnsupportedStack "string option" | NoProvider

definition build_implementation_worker ::
  "bool \<Rightarrow> bool \<Rightarrow> string \<Rightarrow> stack_spec \<Rightarrow> factory_error + worker" where
  "build_implementation_worker devops has_provider aid spec =
     (case v2_team_kind_for_stack devops spec of
        None \<Rightarrow> Inl (UnsupportedStack (spec_name spec))
      | Some kind \<Rightarrow>
          if kind \<noteq> ''devops'' \<and> \<not> has_provider then Inl NoProvider
          else Inr \<lparr>agent_id = aid, team_kind = Some kind, worker_stack = Some spec\<rparr>)"

text \<open>The worker-build loop of the plan phase: the first failure fails the job.\<close>

fun build_workers :: "bool \<Rightarrow> bool \<Rightarrow> (string \<times> stack_spec) list \<Rightarrow> factory_error + worker list" where
  "build_workers devops p [] = Inr []"
| "build_workers devops p ((aid, spec) # rs) =
     (case build_implementation_worker devops p aid spec of
        Inl e \<Rightarrow> Inl e
      | Inr w \<Rightarrow> (case build_workers devops p rs of Inl e \<Rightarrow> Inl e | Inr ws \<Rightarrow> Inr (w # ws)))"

text \<open>The plan phase from persisted stacks to workers. An id is text once its stack's name is.\<close>

datatype plan_error = PlanRaises | PlanFactory factory_error

fun roster_specs :: "(json \<Rightarrow> string) \<Rightarrow> roster_entry list \<Rightarrow> (string \<times> stack_spec) list option" where
  "roster_specs rep [] = Some []"
| "roster_specs rep (r # rs) =
     (case roster_spec r of
        None \<Rightarrow> None
      | Some sp \<Rightarrow> map_option ((#) (py_str rep (ro_agent_id r), sp)) (roster_specs rep rs))"

definition swarm_workers ::
  "(json \<Rightarrow> string) \<Rightarrow> bool \<Rightarrow> bool \<Rightarrow> int \<Rightarrow> json \<Rightarrow> task list \<Rightarrow> plan_error + worker list" where
  "swarm_workers rep devops p n stacks_raw ts =
     (case ensure_target_team_stack_specs rep devops stacks_raw ts of
        None \<Rightarrow> Inl PlanRaises
      | Some stacks \<Rightarrow>
          (case Option.bind (derive_stack_roster rep n (JList stacks)) (roster_specs rep) of
             None \<Rightarrow> Inl PlanRaises
           | Some specs \<Rightarrow>
               (case build_workers devops p specs of
                  Inl e \<Rightarrow> Inl (PlanFactory e)
                | Inr ws \<Rightarrow> Inr ws)))"

section \<open>The ids of a roster\<close>

lemma unique_loop_fresh: "unique_loop rep c used n \<notin> set used"
  by (induction rep c used n rule: unique_loop.induct) (subst unique_loop.simps, simp)

lemma unique_id_fresh:
  "unique_id rep c used = Some (u, used') \<Longrightarrow> u \<notin> set used \<and> used' = used @ [u]"
  using unique_loop_fresh [of rep c used 2] by (auto simp: unique_id_def Let_def split: if_splits)

lemma unique_id_str: "unique_id rep (JStr s) used \<noteq> None"
  by (simp add: unique_id_def Let_def)

lemma stack_workers_total: "stack_workers rep base name tools ms used \<noteq> None"
proof (induction ms arbitrary: used)
  case (Cons m ms)
  obtain u used' where "unique_id rep (JStr (py_str rep base @ ''-'' @ nat_str m)) used = Some (u, used')"
    using unique_id_str by fastforce
  with Cons.IH [of used'] show ?case by simp
qed simp

lemma stack_workers_ids:
  "stack_workers rep base name tools ms used = Some (es, used') \<Longrightarrow>
     used' = used @ map ro_agent_id es \<and> (distinct used \<longrightarrow> distinct used') \<and> length es = length ms \<and>
     (\<forall>e \<in> set es. ro_display_name e = name \<and> ro_tools e = tools)"
proof (induction ms arbitrary: used es)
  case (Cons m ms)
  then obtain u used1 es' where u: "unique_id rep (JStr (py_str rep base @ ''-'' @ nat_str m)) used = Some (u, used1)"
    and w: "stack_workers rep base name tools ms used1 = Some (es', used')"
    and es: "es = \<lparr>ro_agent_id = u, ro_display_name = name, ro_tools = tools\<rparr> # es'"
    by (auto split: option.splits)
  from unique_id_fresh [OF u] have used1: "used1 = used @ [u]" "distinct used \<longrightarrow> distinct used1" by auto
  from Cons.IH [OF w] have "distinct used1 \<longrightarrow> distinct used'" by blast
  moreover from Cons.IH [OF w] used1 es have "used' = used @ map ro_agent_id es" "length es = length (m # ms)"
    "\<forall>e \<in> set es. ro_display_name e = name \<and> ro_tools e = tools" by simp_all
  ultimately show ?case using used1(2) by blast
qed simp

text \<open>The base id of a stack is reserved too, so the ids of the roster extend the used ones but for the
  reserved bases.\<close>

lemma roster_loop_ids:
  "roster_loop rep n i es used = Some rs \<Longrightarrow> distinct used \<Longrightarrow>
     distinct (map ro_agent_id rs) \<and> set (map ro_agent_id rs) \<inter> set used = {} \<and>
     length rs = nat (max 1 n) * length es"
proof (induction es arbitrary: i used rs)
  case (Cons e es)
  let ?name = "stack_name i e" and ?tools = "list_of (jget (dict_of e) ''tools_services'')"
  from Cons.prems(1) obtain base used1 where b: "unique_id rep ?name used = Some (base, used1)"
    by (auto simp: Let_def split: option.splits)
  from unique_id_fresh [OF b] Cons.prems(2) have used1: "used1 = used @ [base]" "distinct used1" "base \<notin> set used"
    by auto
  show ?case
  proof (cases "n \<le> 1")
    case True
    with Cons.prems(1) b obtain rs' where r: "roster_loop rep n (Suc i) es used1 = Some rs'"
      "rs = \<lparr>ro_agent_id = base, ro_display_name = ?name, ro_tools = ?tools\<rparr> # rs'"
      by (auto simp: Let_def)
    with Cons.IH [OF r(1) used1(2)] used1 True show ?thesis by auto
  next
    case False
    obtain ws used2 where w: "stack_workers rep base ?name ?tools [1..<nat n + 1] used1 = Some (ws, used2)"
      using stack_workers_total [of rep base ?name ?tools "[1..<nat n + 1]" used1] by fastforce
    with False Cons.prems(1) b obtain rs' where r: "roster_loop rep n (Suc i) es used2 = Some rs'"
      "rs = ws @ rs'"
      by (auto simp: Let_def)
    from stack_workers_ids [OF w] used1(2) have u2: "used2 = used1 @ map ro_agent_id ws" "distinct used2"
      and "length ws = length [1..<nat n + 1]" by blast+
    then have len: "length ws = nat n" by (simp only: length_upt diff_add_inverse2)
    from u2(1,2) have ws: "distinct (map ro_agent_id ws)" "set (map ro_agent_id ws) \<inter> set used1 = {}"
      by (simp_all only: distinct_append Int_commute)
    from Cons.IH [OF r(1) u2(2)] have ih: "distinct (map ro_agent_id rs')"
      "set (map ro_agent_id rs') \<inter> set used2 = {}" "length rs' = nat (max 1 n) * length es" by auto
    show ?thesis
    proof (intro conjI)
      from ih(2) have r': "set (map ro_agent_id rs') \<inter> set (map ro_agent_id ws) = {}"
        "set (map ro_agent_id rs') \<inter> set used1 = {}" unfolding u2(1) set_append by blast+
      with ih(1) ws(1) show "distinct (map ro_agent_id rs)"
        unfolding r(2) map_append distinct_append by blast
      from r' ws(2) show "set (map ro_agent_id rs) \<inter> set used = {}"
        unfolding r(2) used1(1) map_append set_append by blast
      from ih r(2) len False show "length rs = nat (max 1 n) * length (e # es)" by simp
    qed
  qed
qed simp

text \<open>Every worker has an id of its own, and there are as many workers per stack as asked for.\<close>

theorem roster_ids_unique:
  assumes "derive_stack_roster rep n (JList es) = Some rs"
  shows "distinct (map ro_agent_id rs) \<and> length rs = nat (max 1 n) * length es"
  using roster_loop_ids [of rep n 0 es "[]" rs] assms by (simp add: derive_stack_roster_def)

theorem roster_ids_unique_witness:
  "\<exists>rs. derive_stack_roster (\<lambda>_. []) 1
      (JList [JDict [(''name'', JStr ''backend'')], JDict [(''name'', JStr ''backend'')]]) = Some rs \<and>
    map ro_agent_id rs = [JStr ''backend'', JStr ''backend_2''] \<and> distinct (map ro_agent_id rs)"
proof -
  have "char_of (50 :: nat) = CHR ''2''" by code_simp
  then have two: "nat_str 2 = ''2''" by (simp add: nat_str.simps)
  then have bump: "unique_loop (\<lambda>_. []) (JStr ''backend'') [JStr ''backend''] 2 = JStr ''backend_2''"
    by (subst unique_loop.simps) (simp add: suffixed_def)
  let ?e = "\<lambda>a. \<lparr>ro_agent_id = JStr a, ro_display_name = JStr ''backend'', ro_tools = []\<rparr>"
  have rs: "derive_stack_roster (\<lambda>_. []) 1
      (JList [JDict [(''name'', JStr ''backend'')], JDict [(''name'', JStr ''backend'')]]) =
    Some [?e ''backend'', ?e ''backend_2'']"
    by (simp add: derive_stack_roster_def Let_def stack_name_def jor_def jget_def unique_id_def bump)
  from roster_ids_unique [OF rs] rs show ?thesis by (intro exI [of _ "[?e ''backend'', ?e ''backend_2'']"]) simp
qed

lemma roster_loop_raises:
  "roster_loop rep n i es used = None \<longleftrightarrow> (\<exists>k < length es. \<not> hashable (stack_name (i + k) (es ! k)))"
proof (induction es arbitrary: i used)
  case (Cons e es)
  have u: "unique_id rep c used = None \<longleftrightarrow> \<not> hashable c" for c
    by (simp add: unique_id_def Let_def)
  have "(\<exists>k < length (e # es). \<not> hashable (stack_name (i + k) ((e # es) ! k))) \<longleftrightarrow>
      \<not> hashable (stack_name i e) \<or> (\<exists>k < length es. \<not> hashable (stack_name (Suc i + k) (es ! k)))"
    by (auto simp: less_Suc_eq_0_disj)
  then have goal: "(\<exists>k < length (e # es). \<not> hashable (stack_name (i + k) ((e # es) ! k))) \<longleftrightarrow>
      \<not> hashable (stack_name i e) \<or> roster_loop rep n (Suc i) es used' = None" for used'
    by (simp only: Cons.IH)
  show ?case
  proof (cases "unique_id rep (stack_name i e) used")
    case None
    with u have "\<not> hashable (stack_name i e)" by blast
    with None goal show ?thesis by (simp add: Let_def)
  next
    case (Some p)
    obtain base used1 where b: "p = (base, used1)" by fastforce
    obtain ws used2 where w: "stack_workers rep base (stack_name i e)
        (list_of (jget (dict_of e) ''tools_services'')) [1..<nat n + 1] used1 = Some (ws, used2)"
      using stack_workers_total by fastforce
    have "hashable (stack_name i e)" using u [of "stack_name i e"] Some by simp
    with Some b w show ?thesis
      unfolding goal [of "if n \<le> 1 then used1 else used2"] by (simp add: Let_def del: upt_Suc)
  qed
qed simp

text \<open>The roster raises exactly when a stack's name is a container, although it promises never to.\<close>

theorem roster_raises_iff:
  "derive_stack_roster rep n (JList es) = None \<longleftrightarrow>
     (\<exists>k < length es. \<not> hashable (jget (dict_of (es ! k)) ''name'') \<and>
                      truthy (jget (dict_of (es ! k)) ''name''))"
  by (auto simp: derive_stack_roster_def roster_loop_raises stack_name_def jor_def split: if_splits)

section \<open>Every target has a worker\<close>

text \<open>The kind of stack that serves a routing key.\<close>

definition key_kind :: "string \<Rightarrow> string option" where
  "key_kind k =
     (if k = ''frontend_v2'' then Some ''frontend'' else if k = ''backend_v2'' then Some ''backend''
      else if k = ''devops'' then Some ''devops'' else None)"

lemma worker_serves_key:
  assumes "team_kind w = key_kind (team_key devops target)" and "key_kind (team_key devops target) \<noteq> None"
  shows "target_matches_agent devops target (worker_team_key w)"
proof -
  from assms have "worker_team_key w = team_key devops target"
    by (auto simp: worker_team_key_def key_kind_def split: if_splits)
  then show ?thesis
    using team_key_normal [of devops target] by (simp add: target_matches_agent_def Let_def)
qed

lemma kind_of_canonical_name:
  "spec_name sp = Some ''frontend_v2'' \<Longrightarrow> v2_team_kind_for_stack devops sp = Some ''frontend''"
  "spec_name sp = Some ''backend_v2'' \<Longrightarrow> v2_team_kind_for_stack devops sp = Some ''backend''"
  "spec_name sp = Some ''devops'' \<Longrightarrow> v2_team_kind_for_stack True sp = Some ''devops''"
proof -
  have "str_lower (str_strip ''frontend_v2'') = ''frontend_v2''"
    "str_lower (str_strip ''backend_v2'') = ''backend_v2''"
    "str_lower (str_strip ''devops'') = ''devops''" "spaced ''devops'' = ''devops''"
    "spaced ''backend_v2'' = ''backend v2''"
    by code_simp+
  note raw = this
  show "spec_name sp = Some ''frontend_v2'' \<Longrightarrow> v2_team_kind_for_stack devops sp = Some ''frontend''"
    unfolding v2_team_kind_for_stack_def Let_def text_or_empty_def
    by (simp add: raw frontend_v2_explicit_def)
  show "spec_name sp = Some ''backend_v2'' \<Longrightarrow> v2_team_kind_for_stack devops sp = Some ''backend''"
    unfolding v2_team_kind_for_stack_def Let_def text_or_empty_def
    by (simp add: raw frontend_v2_explicit_def backend_v2_explicit_def)
  show "spec_name sp = Some ''devops'' \<Longrightarrow> v2_team_kind_for_stack True sp = Some ''devops''"
    unfolding v2_team_kind_for_stack_def Let_def
    by (simp add: raw text_or_empty_def frontend_v2_explicit_def backend_v2_explicit_def route_fixed)
qed

lemma appended_parse:
  "\<exists>sp. stack_spec_from_raw rep frontend_stack = Some sp \<and> spec_name sp = Some ''frontend_v2''"
  "\<exists>sp. stack_spec_from_raw rep backend_v2_stack_spec = Some sp \<and> spec_name sp = Some ''backend_v2''"
  "\<exists>sp. stack_spec_from_raw rep devops_stack_spec = Some sp \<and> spec_name sp = Some ''devops''"
  by (simp_all add: stack_spec_from_raw_def frontend_stack_def backend_v2_stack_spec_def
      devops_stack_spec_def stack_entry_def jget_def jor_def Let_def)

lemma present_kinds_sound:
  "present_kinds rep devops es = Some ks \<Longrightarrow> k \<in> set ks \<Longrightarrow>
     \<exists>e \<in> set es. \<exists>sp. stack_spec_from_raw rep e = Some sp \<and> v2_team_kind_for_stack devops sp = k"
  by (induction es arbitrary: ks) (auto split: option.splits)

lemma present_kinds_parse:
  "present_kinds rep devops es = Some ks \<Longrightarrow> e \<in> set es \<Longrightarrow> \<exists>sp. stack_spec_from_raw rep e = Some sp"
  by (induction es arbitrary: ks) (auto split: option.splits)

lemma ensured_stack:
  assumes "ensure_target_team_stack_specs rep devops stacks_raw ts = Some stacks"
    and "t \<in> set ts" and "str_truthy (target_team t)"
    and "key_kind (team_key devops (target_team t)) = Some k"
  shows "\<exists>e \<in> set stacks. \<exists>sp. stack_spec_from_raw rep e = Some sp \<and> v2_team_kind_for_stack devops sp = Some k"
proof -
  let ?key = "team_key devops (target_team t)"
  have key: "?key \<in> set (target_keys devops ts)" using assms(2,3) by (auto simp: target_keys_def)
  from assms(1) obtain present where present: "present_kinds rep devops (list_of stacks_raw) = Some present"
    by (auto simp: ensure_target_team_stack_specs_def Let_def split: option.splits)
  show ?thesis
  proof (cases "Some k \<in> set present")
    case True
    from present_kinds_sound [OF present this] assms(1) present show ?thesis
      by (fastforce simp: ensure_target_team_stack_specs_def Let_def)
  next
    case False
    have devops: "?key = ''devops'' \<Longrightarrow> devops"
      using team_key_closed [of "target_team t"] by (cases devops) auto
    from False assms(1,4) present key consider
        "?key = ''frontend_v2''" "k = ''frontend''" "frontend_stack \<in> set stacks"
      | "?key = ''backend_v2''" "k = ''backend''" "backend_v2_stack_spec \<in> set stacks"
      | "?key = ''devops''" "k = ''devops''" "devops_stack_spec \<in> set stacks"
      by (auto simp: ensure_target_team_stack_specs_def Let_def key_kind_def split: if_splits)
    then show ?thesis
    proof cases
      case 1
      with appended_parse(1) [of rep] kind_of_canonical_name(1) show ?thesis by blast
    next
      case 2
      with appended_parse(2) [of rep] kind_of_canonical_name(2) show ?thesis by blast
    next
      case 3
      with devops have "devops = True" by simp
      with 3 appended_parse(3) [of rep] kind_of_canonical_name(3) show ?thesis by blast
    qed
  qed
qed

text \<open>A stack without a name is called \<open>stack_i\<close> in the roster, which does not change its kind.\<close>

lemma nat_str_digit: "c \<in> set (nat_str n) \<Longrightarrow> (of_char c :: nat) \<in> {48..57}"
proof (induction n rule: nat_str.induct)
  case (1 n)
  then show ?case
    by (subst (asm) (2) nat_str.simps) (auto split: if_splits)
qed

lemma nat_str_plain:
  "c \<in> set (nat_str n) \<Longrightarrow> is_alnum c \<and> lower_char c = c \<and> \<not> is_space c \<and> c \<notin> set ''_-s''"
  using nat_str_digit [of c n] by (auto simp: is_alnum_def lower_char_def is_space_def Let_def)

lemma nat_str_word: "alnum_word (nat_str n)"
proof -
  have "nat_str n \<noteq> []" by (subst nat_str.simps) simp
  then show ?thesis using nat_str_plain by (auto simp: alnum_word_def)
qed

lemma default_name_text:
  "str_lower (str_strip (''stack_'' @ nat_str i)) = ''stack_'' @ nat_str i"
  "alnum_words (''stack_'' @ nat_str i) = [''stack'', nat_str i]"
proof -
  have "str_strip (''stack_'' @ nat_str i) = ''stack_'' @ nat_str i"
    using nat_str_plain by (intro strip_id) (auto simp: is_space_def)
  then show "str_lower (str_strip (''stack_'' @ nat_str i)) = ''stack_'' @ nat_str i"
    using nat_str_plain [of _ i] by (auto simp: str_lower_def lower_char_def intro: map_idI)
  have "alnum_words (str_join ''_'' [''stack'', nat_str i]) = [''stack'', nat_str i]"
    using nat_str_word by (intro alnum_words_join) (auto simp: alnum_word_def is_alnum_def)
  then show "alnum_words (''stack_'' @ nat_str i) = [''stack'', nat_str i]" by simp
qed

lemma digits_not_label:
  "nat_str i \<notin> set frontend_hints" "nat_str i \<notin> set backend_hints"
  "nat_str i \<noteq> ''frontend''" "nat_str i \<noteq> ''backend''"
proof -
  have "\<not> (97 \<le> (of_char (hd (nat_str i)) :: nat))"
    using nat_str_digit [of "hd (nat_str i)" i] nat_str_word [of i] by (simp add: alnum_word_def)
  then show "nat_str i \<notin> set frontend_hints" "nat_str i \<notin> set backend_hints"
    "nat_str i \<noteq> ''frontend''" "nat_str i \<noteq> ''backend''"
    by (auto simp: frontend_hints_def backend_hints_def)
qed

lemma default_name_label: "normal_label (''stack_'' @ nat_str i) = ''stack_'' @ nat_str i"
  using default_name_text(2) [of i] by (simp add: normal_label_words)

lemma default_name_unlisted:
  "''stack_'' @ nat_str i \<notin> set frontend_team_aliases"
  "''stack_'' @ nat_str i \<notin> set devops_team_aliases"
  "''stack_'' @ nat_str i \<notin> set backend_team_aliases"
  "''stack_'' @ nat_str i \<notin> set frontend_hints"
  "''stack_'' @ nat_str i \<notin> set backend_hints"
  "{''stack_'' @ nat_str i, spaced (''stack_'' @ nat_str i)} \<inter> set frontend_v2_explicit = {}"
  "{''stack_'' @ nat_str i, spaced (''stack_'' @ nat_str i)} \<inter> set backend_v2_explicit = {}"
  by (simp_all add: frontend_team_aliases_def devops_team_aliases_def backend_team_aliases_def
      frontend_hints_def backend_hints_def frontend_v2_explicit_def backend_v2_explicit_def spaced_def)

lemma default_name_key: "team_key devops (Some (''stack_'' @ nat_str i)) = ''stack_'' @ nat_str i"
proof -
  have f: "filter is_alnum (''stack_'' @ nat_str i) = ''stack'' @ nat_str i"
    using nat_str_plain [of _ i] by (auto simp: is_alnum_def intro: filter_True)
  have "(\<And>c. c \<in> set w \<Longrightarrow> c \<noteq> CHR ''_'') \<Longrightarrow> split_underscores w = [w]" for w
    by (induction w) auto
  then have "split_underscores (nat_str i) = [nat_str i]"
    using nat_str_plain [of _ i] by auto
  then have tokens: "set (split_underscores (''stack_'' @ nat_str i)) = {''stack'', nat_str i}"
    by simp
  have no: "''stack'' @ nat_str i \<noteq> ''frontend''" "''stack'' @ nat_str i \<noteq> ''backend''"
    "''frontend'' \<notin> {''stack'', nat_str i}" "''backend'' \<notin> {''stack'', nat_str i}"
    using digits_not_label(3,4) [of i] by auto
  show ?thesis
    unfolding team_key_def text_or_empty_def option.case Let_def default_name_text(1)
      default_name_label f route_label_def tokens
    by (simp only: no default_name_unlisted if_False)
qed

lemma default_name_hints:
  "set (hint_tokens_of (''stack_'' @ nat_str i)) = {''stack_'' @ nat_str i, ''stack'', nat_str i}"
proof -
  have "nat_str i \<noteq> []" "last (nat_str i) \<noteq> CHR ''s''"
    using nat_str_word [of i] nat_str_plain [of "last (nat_str i)" i] by (auto simp: alnum_word_def)
  then show ?thesis
    unfolding hint_tokens_of_def default_name_text(1) Let_def default_name_label default_name_text(2)
    by simp
qed

lemma disjoint_insert3:
  "x \<notin> F \<Longrightarrow> y \<notin> F \<Longrightarrow> z \<notin> F \<Longrightarrow> (({x, y, z} \<union> T) \<inter> F = {}) = (T \<inter> F = {})"
  by blast

lemma default_name_kind:
  "v2_team_kind_for_stack devops \<lparr>spec_tools = ts, spec_name = Some (''stack_'' @ nat_str i)\<rparr> =
   v2_team_kind_for_stack devops \<lparr>spec_tools = ts, spec_name = Some []\<rparr>"
proof -
  let ?a = "\<lparr>spec_tools = ts, spec_name = Some (''stack_'' @ nat_str i)\<rparr>"
    and ?b = "\<lparr>spec_tools = ts, spec_name = Some []\<rparr>"
  let ?tools = "\<Union> (set ` hint_tokens_of ` set ts)"
  have ha: "set (stack_hint_tokens ?a) = {''stack_'' @ nat_str i, ''stack'', nat_str i} \<union> ?tools"
    by (simp add: stack_hint_tokens_def text_or_empty_def default_name_hints del: append.simps)
  have "hint_tokens_of [] = []" by code_simp
  then have hb: "set (stack_hint_tokens ?b) = ?tools"
    by (simp add: stack_hint_tokens_def text_or_empty_def)
  have plain: "''stack'' \<notin> set frontend_hints" "''stack'' \<notin> set backend_hints"
    by (simp_all add: frontend_hints_def backend_hints_def)
  have hints: "(set (stack_hint_tokens ?a) \<inter> set frontend_hints = {}) = (set (stack_hint_tokens ?b) \<inter> set frontend_hints = {})"
    "(set (stack_hint_tokens ?a) \<inter> set backend_hints = {}) = (set (stack_hint_tokens ?b) \<inter> set backend_hints = {})"
    unfolding ha hb
    by (rule disjoint_insert3 [OF default_name_unlisted(4) plain(1) digits_not_label(1)],
        rule disjoint_insert3 [OF default_name_unlisted(5) plain(2) digits_not_label(2)])
  have ka: "team_key devops (spec_name ?a) = ''stack_'' @ nat_str i" by (simp only: stack_spec.select_convs default_name_key)
  have kb: "team_key devops (spec_name ?b) = []"
    by (cases devops; simp; code_simp)
  have raw: "str_lower (str_strip (text_or_empty (spec_name ?a))) = ''stack_'' @ nat_str i"
    by (simp only: stack_spec.select_convs text_or_empty_def option.case default_name_text(1))
  have empty: "str_lower (str_strip (text_or_empty (spec_name ?b))) = []" by simp code_simp
  have none: "{[], spaced []} \<inter> set frontend_v2_explicit = {}" "{[], spaced []} \<inter> set backend_v2_explicit = {}"
    by (simp_all add: spaced_def frontend_v2_explicit_def backend_v2_explicit_def)
  have not_keys: "''stack_'' @ nat_str i \<noteq> ''frontend_v2''" "''stack_'' @ nat_str i \<noteq> ''backend_v2''"
    "''stack_'' @ nat_str i \<noteq> ''devops''" by simp_all
  show ?thesis
    unfolding v2_team_kind_for_stack_def Let_def raw empty ka kb hints
    by (simp only: none default_name_unlisted not_keys) simp
qed

section \<open>From the plan to the workers\<close>

lemma roster_entry_of:
  "roster_loop rep n i es used = Some rs \<Longrightarrow> k < length es \<Longrightarrow>
     \<exists>r \<in> set rs. ro_display_name r = stack_name (i + k) (es ! k) \<and>
       ro_tools r = list_of (jget (dict_of (es ! k)) ''tools_services'')"
proof (induction es arbitrary: i used rs k)
  case (Cons e es)
  let ?name = "stack_name i e" and ?tools = "list_of (jget (dict_of e) ''tools_services'')"
  from Cons.prems(1) obtain base used1 where b: "unique_id rep ?name used = Some (base, used1)"
    by (auto simp: Let_def split: option.splits)
  obtain ws used2 where w: "stack_workers rep base ?name ?tools [1..<nat n + 1] used1 = Some (ws, used2)"
    using stack_workers_total [of rep base ?name ?tools "[1..<nat n + 1]" used1] by fastforce
  define used' mine where "used' = (if n \<le> 1 then used1 else used2)"
    and "mine = (if n \<le> 1 then [\<lparr>ro_agent_id = base, ro_display_name = ?name, ro_tools = ?tools\<rparr>] else ws)"
  from Cons.prems(1) b w obtain rs' where r: "roster_loop rep n (Suc i) es used' = Some rs'" "rs = mine @ rs'"
    by (auto simp: Let_def used'_def mine_def simp del: upt_Suc split: if_splits)
  have mine: "mine \<noteq> []" "\<forall>r \<in> set mine. ro_display_name r = ?name \<and> ro_tools r = ?tools"
  proof -
    from stack_workers_ids [OF w] have "length ws = nat n" by (simp only: length_upt diff_add_inverse2)
    then show "mine \<noteq> []" by (auto simp: mine_def)
    from stack_workers_ids [OF w] show "\<forall>r \<in> set mine. ro_display_name r = ?name \<and> ro_tools r = ?tools"
      by (simp add: mine_def)
  qed
  show ?case
  proof (cases k)
    case 0
    with mine r(2) show ?thesis by (cases mine) auto
  next
    case (Suc k')
    with Cons.IH [OF r(1), of k'] Cons.prems(2) r(2) show ?thesis by auto
  qed
qed simp

lemma roster_specs_of:
  "roster_specs rep rs = Some specs \<Longrightarrow> r \<in> set rs \<Longrightarrow>
     \<exists>aid sp. (aid, sp) \<in> set specs \<and> roster_spec r = Some sp"
  by (induction rs arbitrary: specs) (auto split: option.splits, blast)

lemma build_workers_of:
  "build_workers devops p specs = Inr ws \<Longrightarrow> (aid, sp) \<in> set specs \<Longrightarrow>
     \<exists>w \<in> set ws. team_kind w = v2_team_kind_for_stack devops sp \<and> team_kind w \<noteq> None"
proof (induction specs arbitrary: ws)
  case (Cons s specs)
  obtain a sp' where s: "s = (a, sp')" by fastforce
  with Cons.prems(1) obtain w ws' where w: "build_implementation_worker devops p a sp' = Inr w"
    "build_workers devops p specs = Inr ws'" "ws = w # ws'"
    by (auto split: sum.splits)
  then have "team_kind w = v2_team_kind_for_stack devops sp' \<and> team_kind w \<noteq> None"
    by (auto simp: build_implementation_worker_def split: option.splits if_splits)
  with Cons.IH [OF w(2)] Cons.prems(2) s w(3) show ?case by auto
qed simp

lemma roster_keeps_kind:
  assumes "stack_spec_from_raw rep e = Some sp" and "ro_display_name r = stack_name i e"
    and "ro_tools r = list_of (jget (dict_of e) ''tools_services'')" and "roster_spec r = Some sp'"
  shows "v2_team_kind_for_stack devops sp' = v2_team_kind_for_stack devops sp"
proof -
  let ?n = "jget (dict_of e) ''name''"
  obtain s ts where sp': "sp' = \<lparr>spec_tools = ts, spec_name = Some s\<rparr>"
    and s: "stack_name i e = JStr s" and ts: "string_list (list_of (jget (dict_of e) ''tools_services'')) = Some ts"
    using assms(2-4) by (auto simp: roster_spec_def split: json.splits option.splits)
  have sp: "sp = \<lparr>spec_tools = ts, spec_name = Some (py_str rep (jor ?n (JStr [])))\<rparr>"
    using assms(1) ts by (auto simp: stack_spec_from_raw_def Let_def split: json.splits)
  show ?thesis
  proof (cases "truthy ?n")
    case True
    with s have "?n = JStr s" by (simp add: stack_name_def jor_def)
    with True sp sp' show ?thesis by (simp add: jor_def)
  next
    case False
    with s have "s = ''stack_'' @ nat_str i" by (simp add: stack_name_def jor_def)
    with False sp sp' default_name_kind [of devops ts i] show ?thesis by (simp add: jor_def)
  qed
qed

text \<open>Whatever stacks were persisted: when the plan phase ends with a set of workers, every task whose
  target is a supported team has a worker that may run it.\<close>

theorem targets_have_workers:
  assumes "swarm_workers rep devops p n stacks_raw ts = Inr ws"
    and "t \<in> set ts" and "str_truthy (target_team t)"
    and "team_key devops (target_team t) \<in> {''frontend_v2'', ''backend_v2'', ''devops''}"
  shows "\<exists>w \<in> set ws. target_matches_agent devops (target_team t) (worker_team_key w)"
proof -
  from assms(1) obtain stacks roster specs
    where stacks: "ensure_target_team_stack_specs rep devops stacks_raw ts = Some stacks"
      and roster: "derive_stack_roster rep n (JList stacks) = Some roster"
      and specs: "roster_specs rep roster = Some specs"
      and ws: "build_workers devops p specs = Inr ws"
    by (auto simp: swarm_workers_def bind_eq_Some_conv split: option.splits sum.splits)
  from assms(4) obtain k where k: "key_kind (team_key devops (target_team t)) = Some k"
    by (auto simp: key_kind_def)
  from ensured_stack [OF stacks assms(2,3) k] obtain i sp
    where i: "i < length stacks" and sp: "stack_spec_from_raw rep (stacks ! i) = Some sp"
      "v2_team_kind_for_stack devops sp = Some k"
    by (auto simp: in_set_conv_nth)
  from roster_entry_of [of rep n 0 stacks "[]" roster i] roster i obtain r
    where r: "r \<in> set roster" "ro_display_name r = stack_name i (stacks ! i)"
      "ro_tools r = list_of (jget (dict_of (stacks ! i)) ''tools_services'')"
    by (auto simp: derive_stack_roster_def)
  from roster_specs_of [OF specs r(1)] obtain aid sp' where sp': "(aid, sp') \<in> set specs" "roster_spec r = Some sp'"
    by blast
  from build_workers_of [OF ws sp'(1)] obtain w where w: "w \<in> set ws"
    "team_kind w = v2_team_kind_for_stack devops sp'" by blast
  with roster_keeps_kind [OF sp(1) r(2,3) sp'(2), of devops] sp(2)
  have "team_kind w = Some k" by simp
  with k w(1) worker_serves_key [of w devops "target_team t"] show ?thesis by auto
qed

theorem targets_have_workers_witness:
  "\<exists>w. swarm_workers (\<lambda>_. []) False True 1 JNull [(default_task ''t'')\<lparr>target_team := Some ''React''\<rparr>] = Inr [w] \<and>
     target_matches_agent False (Some ''React'') (worker_team_key w)"
proof -
  let ?w = "\<lparr>agent_id = ''frontend_v2'', team_kind = Some ''frontend'', worker_stack = Some
      \<lparr>spec_tools = [''Angular'', ''TypeScript'', ''React'', ''CSS'', ''HTML''], spec_name = Some ''frontend_v2''\<rparr>\<rparr>"
  have run: "swarm_workers (\<lambda>_. []) False True 1 JNull
      [(default_task ''t'')\<lparr>target_team := Some ''React''\<rparr>] = Inr [?w]"
    by code_simp
  have "str_truthy (target_team ((default_task ''t'')\<lparr>target_team := Some ''React''\<rparr>)) \<and>
    team_key False (target_team ((default_task ''t'')\<lparr>target_team := Some ''React''\<rparr>)) \<in>
      {''frontend_v2'', ''backend_v2'', ''devops''}"
    by code_simp
  with targets_have_workers [OF run, of "(default_task ''t'')\<lparr>target_team := Some ''React''\<rparr>"] run
  show ?thesis by auto
qed

end
