(* ===== verification/SwarmAssign.thy ===== *)
theory SwarmAssign
  imports TaskGraphInv SwarmRoster
begin

text \<open>
  One assignment round of the coding swarm (\<^verbatim>\<open>software_engineering_team/swarm_assignment.py\<close>), on top
  of the task graph and the routing keys: ready tasks, free agents, the reservation of pinned tasks,
  the two deterministic paths, the Tech Lead's proposals, the guardrail pass and the failing of
  tasks no worker can serve.

  What the Tech Lead's model answers is the argument \<open>answer\<close>, any JSON value. A dictionary keyed by
  something that cannot be a key raises, so the round returns whether it raised beside the state it
  left. \<open>quoted\<close> is \<open>repr\<close> of a string. The sets \<open>used_agents\<close> and \<open>assigned_tasks\<close> are lists here, and
  only their members matter.
\<close>

section \<open>State\<close>

record swarm =
  sw_graph :: task_graph
  sw_agent_ids :: "string list"
  agent_team_keys :: "(string, string) pydict"
  agent_last_placed :: "(string, int) pydict"
  placement_ordinal :: int

definition new_swarm :: "task_graph \<Rightarrow> worker list \<Rightarrow> string list \<Rightarrow> swarm" where
  "new_swarm g ws ids =
     \<lparr>sw_graph = g, sw_agent_ids = ids,
      agent_team_keys = fold (\<lambda>w d. dset d (agent_id w) (worker_team_key w)) ws [],
      agent_last_placed = [], placement_ordinal = 0\<rparr>"

definition agent_matches :: "bool \<Rightarrow> swarm \<Rightarrow> string option \<Rightarrow> string \<Rightarrow> bool" where
  "agent_matches devops s target aid =
     target_matches_agent devops target
       (case dget (agent_team_keys s) aid of Some k \<Rightarrow> k | None \<Rightarrow> aid)"

section \<open>Discovery\<close>

definition find_ready_tasks :: "swarm \<Rightarrow> task list" where
  "find_ready_tasks s =
     filter (\<lambda>t. status t = TO_DO \<and> dependencies_satisfied (task_id t) (sw_graph s)) (get_tasks (sw_graph s))"

text \<open>Asking for an agent's task drops a stale entry, so the graph is threaded through.\<close>

fun free_loop :: "string list \<Rightarrow> task_graph \<Rightarrow> string list \<times> task_graph" where
  "free_loop [] g = ([], g)"
| "free_loop (a # as) g =
     (let (held, g') = get_task_for_agent a g; (free, g'') = free_loop as g'
      in (if held = None then a # free else free, g''))"

definition find_free_agents :: "swarm \<Rightarrow> string list \<times> swarm" where
  "find_free_agents s =
     (let (free, g) = free_loop (sw_agent_ids s) (sw_graph s) in (free, s\<lparr>sw_graph := g\<rparr>))"

definition has_worker_for_target :: "bool \<Rightarrow> swarm \<Rightarrow> string option \<Rightarrow> bool" where
  "has_worker_for_target devops s target =
     (\<not> str_truthy target \<or> list_ex (agent_matches devops s target) (sw_agent_ids s))"

section \<open>One placement\<close>

definition try_assign :: "string \<Rightarrow> string \<Rightarrow> swarm \<Rightarrow> bool \<times> swarm" where
  "try_assign tid aid s =
     (let (placed, g) = assign_task_to_agent tid aid (sw_graph s); s = s\<lparr>sw_graph := g\<rparr>
      in if placed
         then (True, s\<lparr>agent_last_placed := dset (agent_last_placed s) aid (placement_ordinal s),
                       placement_ordinal := placement_ordinal s + 1\<rparr>)
         else (False, s))"

definition pinned_agent_for :: "swarm \<Rightarrow> task \<Rightarrow> string option" where
  "pinned_agent_for s t =
     (case feature_branch_agent_id t of
        None \<Rightarrow> None
      | Some a \<Rightarrow> if a \<noteq> [] \<and> a \<in> set (sw_agent_ids s) then Some a else None)"

record round_state =
  rd_swarm :: swarm
  used_agents :: "string list"
  assigned_tasks :: "string list"

text \<open>The body every pass shares: \<open>if self._try_assign(...)\<close>, then the bookkeeping.\<close>

definition place :: "task \<Rightarrow> string \<Rightarrow> round_state \<Rightarrow> bool \<times> round_state" where
  "place t aid r =
     (let (ok, s) = try_assign (task_id t) aid (rd_swarm r)
      in (ok, if ok then r\<lparr>rd_swarm := s, used_agents := used_agents r @ [aid],
                          assigned_tasks := assigned_tasks r @ [task_id t]\<rparr>
              else r\<lparr>rd_swarm := s\<rparr>))"

section \<open>The passes\<close>

fun reserve_pinned_tasks :: "bool \<Rightarrow> string list \<Rightarrow> task list \<Rightarrow> round_state \<Rightarrow> round_state" where
  "reserve_pinned_tasks devops free [] r = r"
| "reserve_pinned_tasks devops free (t # ts) r =
     reserve_pinned_tasks devops free ts
       (case pinned_agent_for (rd_swarm r) t of
          None \<Rightarrow> r
        | Some a \<Rightarrow>
            if a \<notin> set free \<or> a \<in> set (used_agents r) then r
            else if \<not> agent_matches devops (rd_swarm r) (target_team t) a then r
            else snd (place t a r))"

definition matching_free_agents :: "bool \<Rightarrow> swarm \<Rightarrow> string option \<Rightarrow> string list \<Rightarrow> string list" where
  "matching_free_agents devops s target candidates = filter (agent_matches devops s target) candidates"

definition last_rank :: "swarm \<Rightarrow> string \<Rightarrow> int" where
  "last_rank s aid = (case dget (agent_last_placed s) aid of Some n \<Rightarrow> n | None \<Rightarrow> -1)"

fun place_all :: "(task \<times> string) list \<Rightarrow> round_state \<Rightarrow> round_state" where
  "place_all [] r = r"
| "place_all ((t, a) # ps) r = place_all ps (snd (place t a r))"

definition try_homogeneous_target_assign ::
  "bool \<Rightarrow> task list \<Rightarrow> string list \<Rightarrow> round_state \<Rightarrow> bool \<times> round_state" where
  "try_homogeneous_target_assign devops ready free r =
     (let s = rd_swarm r;
          matching = matching_free_agents devops s (target_team (hd ready)) free
      in if \<not> list_all (\<lambda>t. team_key devops (target_team t) \<noteq> []) ready then (False, r)
         else if length matching < length ready then (False, r)
         else if list_ex (\<lambda>t. set (matching_free_agents devops s (target_team t) free) \<noteq> set matching) (tl ready)
         then (False, r)
         else (True, place_all (zip ready (sort_key (last_rank s) matching)) r))"

text \<open>The per-task mapping of the fallback; \<open>None\<close> when some task has not exactly one candidate.\<close>

fun sole_candidates ::
  "bool \<Rightarrow> swarm \<Rightarrow> string list \<Rightarrow> task list \<Rightarrow> (string, string) pydict \<Rightarrow> (string, string) pydict option" where
  "sole_candidates devops s free [] d = Some d"
| "sole_candidates devops s free (t # ts) d =
     (case matching_free_agents devops s (target_team t) free of
        [a] \<Rightarrow> sole_candidates devops s free ts (dset d (task_id t) a)
      | _ \<Rightarrow> None)"

definition try_deterministic_assign ::
  "bool \<Rightarrow> task list \<Rightarrow> string list \<Rightarrow> round_state \<Rightarrow> bool \<times> round_state" where
  "try_deterministic_assign devops ready free r =
     (let todo = filter (\<lambda>t. task_id t \<notin> set (assigned_tasks r) \<and> pinned_agent_for (rd_swarm r) t = None) ready;
          open_agents = filter (\<lambda>a. a \<notin> set (used_agents r)) free
      in if todo = [] \<or> open_agents = [] then (False, r)
         else
           let (homogeneous, r') = try_homogeneous_target_assign devops todo open_agents r
           in if homogeneous then (True, r')
              else (case sole_candidates devops (rd_swarm r) open_agents todo [] of
                      None \<Rightarrow> (False, r)
                    | Some d \<Rightarrow>
                        if length (remdups (dvals d)) \<noteq> length d then (False, r)
                        else (True, place_all (map (\<lambda>t. (t, the (dget d (task_id t)))) todo) r)))"

text \<open>The Tech Lead keeps the dictionaries that carry both ids; \<open>None\<close> is the \<open>TypeError\<close> of iterating a
  value that is no collection.\<close>

definition valid_proposal :: "json \<Rightarrow> bool" where
  "valid_proposal a \<longleftrightarrow> is_dict a \<and> truthy (jget (dict_of a) ''agent_id'') \<and> truthy (jget (dict_of a) ''task_id'')"

definition run_assignments :: "json \<Rightarrow> jdict list option" where
  "run_assignments answer = map_option (\<lambda>xs. map dict_of (filter valid_proposal xs)) (iterate answer)"

definition ready_by_id :: "task list \<Rightarrow> (string, task) pydict" where
  "ready_by_id ready = dupdate [] (map (\<lambda>t. (task_id t, t)) ready)"

definition proposed_task :: "task list \<Rightarrow> json \<Rightarrow> task option" where
  "proposed_task ready tid = (case tid of JStr i \<Rightarrow> dget (ready_by_id ready) i | _ \<Rightarrow> None)"

text \<open>The proposals in order; the result says whether one raised.\<close>

fun proposal_loop ::
  "bool \<Rightarrow> task list \<Rightarrow> string list \<Rightarrow> jdict list \<Rightarrow> round_state \<Rightarrow> bool \<times> round_state" where
  "proposal_loop devops ready free [] r = (False, r)"
| "proposal_loop devops ready free (p # ps) r =
     (if \<not> hashable (jget p ''task_id'') then (True, r)
      else proposal_loop devops ready free ps
        (case (jget p ''agent_id'', proposed_task ready (jget p ''task_id'')) of
           (JStr a, Some t) \<Rightarrow>
             if a = [] \<or> a \<notin> set free \<or> a \<in> set (used_agents r) then r
             else if (case pinned_agent_for (rd_swarm r) t of None \<Rightarrow> False | Some b \<Rightarrow> a \<noteq> b) then r
             else if \<not> agent_matches devops (rd_swarm r) (target_team t) a then r
             else snd (place t a r)
         | _ \<Rightarrow> r))"

fun try_candidates :: "bool \<Rightarrow> string list \<Rightarrow> task \<Rightarrow> string list \<Rightarrow> round_state \<Rightarrow> round_state" where
  "try_candidates devops free t [] r = r"
| "try_candidates devops free t (a # as) r =
     (if a \<notin> set free \<or> a \<in> set (used_agents r) \<or> \<not> agent_matches devops (rd_swarm r) (target_team t) a
      then try_candidates devops free t as r
      else (let (ok, r') = place t a r in if ok then r' else try_candidates devops free t as r'))"

fun guardrail_loop :: "bool \<Rightarrow> string list \<Rightarrow> task list \<Rightarrow> round_state \<Rightarrow> round_state" where
  "guardrail_loop devops free [] r = r"
| "guardrail_loop devops free (t # ts) r =
     guardrail_loop devops free ts
       (let pinned = pinned_agent_for (rd_swarm r) t in
        if task_id t \<in> set (assigned_tasks r) then r
        else if \<not> str_truthy (target_team t) \<and> pinned = None then r
        else try_candidates devops free t (case pinned of Some a \<Rightarrow> [a] | None \<Rightarrow> free) r)"

section \<open>Tasks no worker can serve\<close>

definition unservable_reason :: "(string \<Rightarrow> string) \<Rightarrow> task \<Rightarrow> string" where
  "unservable_reason quoted t =
     ''No implementation worker is available for target_team '' @ quoted (text_or_empty (target_team t)) @ ''.''"

text \<open>The task objects are shared with the graph, so the feedback that is extended is the one the graph
  holds by now.\<close>

definition fail_unservable :: "(string \<Rightarrow> string) \<Rightarrow> task \<Rightarrow> task_graph \<Rightarrow> task_graph" where
  "fail_unservable quoted t g =
     (let reason = unservable_reason quoted t;
          live = (case dget (tasks g) (task_id t) of Some u \<Rightarrow> u | None \<Rightarrow> t);
          entry = JDict [(''source'', JStr ''system''), (''reason'', JStr reason)];
          g' = snd (update_task (task_id t) (Some FAILED) Unset None None
                 [AChangesSummary (Some reason), ARevisionFeedback (revision_feedback live @ [entry])] g)
      in snd (mark_dependents_failed (task_id t) g'))"

fun fail_loop :: "bool \<Rightarrow> (string \<Rightarrow> string) \<Rightarrow> string list \<Rightarrow> task list \<Rightarrow> swarm \<Rightarrow> swarm" where
  "fail_loop devops quoted assigned [] s = s"
| "fail_loop devops quoted assigned (t # ts) s =
     fail_loop devops quoted assigned ts
       (if task_id t \<in> set assigned \<or> \<not> str_truthy (target_team t) \<or> has_worker_for_target devops s (target_team t)
        then s
        else s\<lparr>sw_graph := fail_unservable quoted t (sw_graph s)\<rparr>)"

section \<open>The round\<close>

definition assignment_passes ::
  "bool \<Rightarrow> json \<Rightarrow> task list \<Rightarrow> string list \<Rightarrow> swarm \<Rightarrow> bool \<times> round_state" where
  "assignment_passes devops answer ready free s =
     (let r = reserve_pinned_tasks devops free ready \<lparr>rd_swarm = s, used_agents = [], assigned_tasks = []\<rparr>;
          (direct, r) = try_deterministic_assign devops ready free r
      in if direct then (False, r)
         else (case run_assignments answer of
                 None \<Rightarrow> (True, r)
               | Some ps \<Rightarrow> proposal_loop devops ready free ps r))"

definition assign_tasks ::
  "bool \<Rightarrow> (string \<Rightarrow> string) \<Rightarrow> json \<Rightarrow> task list \<Rightarrow> string list \<Rightarrow> swarm \<Rightarrow> bool \<times> swarm" where
  "assign_tasks devops quoted answer ready free s =
     (if free = [] \<or> ready = [] then (False, s)
      else
        let (raised, r) = assignment_passes devops answer ready free s
        in if raised then (True, rd_swarm r)
           else let r = guardrail_loop devops free ready r
                in (False, fail_loop devops quoted (assigned_tasks r) ready (rd_swarm r)))"

definition assign_round :: "bool \<Rightarrow> (string \<Rightarrow> string) \<Rightarrow> json \<Rightarrow> swarm \<Rightarrow> bool \<times> swarm" where
  "assign_round devops quoted answer s =
     (let ready = find_ready_tasks s; (free, s) = find_free_agents s
      in assign_tasks devops quoted answer ready free s)"

text \<open>Whether the round's work is drained.\<close>

definition is_complete :: "swarm \<Rightarrow> bool \<times> swarm" where
  "is_complete s =
     (let ts = get_tasks (sw_graph s); (free, s') = find_free_agents s
      in (list_all (\<lambda>t. status t \<noteq> TO_DO) ts \<and> length free = length (sw_agent_ids s) \<and>
          list_all (\<lambda>t. status t \<noteq> IN_REVIEW) ts, s'))"

end
