(* ===== verification/SwarmAssignProps.thy ===== *)
theory SwarmAssignProps
  imports SwarmAssign
begin

text \<open>
  Properties of an assignment round. Every pass is a sequence of guarded placements (\<open>placing\<close>), so
  one invariant of the round state (\<open>round_inv\<close>) serves all of them: it records which tasks were
  placed where, and that everything else is as the round found it. On top of it: what a round may
  assign, that it leaves no eligible task beside an idle matching agent, that it fails the tasks no
  worker can serve, and how the same-stack path ranks agents.
\<close>

section \<open>Guarded placements\<close>

definition guarded :: "bool \<Rightarrow> task list \<Rightarrow> string list \<Rightarrow> task \<Rightarrow> string \<Rightarrow> round_state \<Rightarrow> bool" where
  "guarded devops ready free t a r \<longleftrightarrow>
     t \<in> set ready \<and> a \<in> set free \<and> a \<notin> set (used_agents r) \<and>
     agent_matches devops (rd_swarm r) (target_team t) a \<and>
     (\<forall>b. pinned_agent_for (rd_swarm r) t = Some b \<longrightarrow> a = b)"

inductive placing :: "bool \<Rightarrow> task list \<Rightarrow> string list \<Rightarrow> round_state \<Rightarrow> round_state \<Rightarrow> bool"
  for devops ready free where
  place_step: "guarded devops ready free t a r \<Longrightarrow> placing devops ready free r (snd (place t a r))"

inductive_cases placingE: "placing devops ready free r r'"

lemma place_one: "guarded devops ready free t a r \<Longrightarrow> (placing devops ready free)\<^sup>*\<^sup>* r (snd (place t a r))"
  by (blast intro: place_step)

lemma try_assign_frame [simp]:
  "sw_agent_ids (snd (try_assign tid a s)) = sw_agent_ids s"
  "agent_team_keys (snd (try_assign tid a s)) = agent_team_keys s"
  by (simp_all add: try_assign_def Let_def split: prod.split)

lemma place_frame [simp]:
  "sw_agent_ids (rd_swarm (snd (place t a r))) = sw_agent_ids (rd_swarm r)"
  "agent_team_keys (rd_swarm (snd (place t a r))) = agent_team_keys (rd_swarm r)"
  using try_assign_frame [of "task_id t" a "rd_swarm r"]
  by (auto simp: place_def Let_def case_prod_unfold)

lemma place_used: "set (used_agents (snd (place t a r))) \<subseteq> insert a (set (used_agents r))"
  by (auto simp: place_def Let_def split: prod.split)

lemma agent_matches_cong:
  "agent_team_keys s = agent_team_keys s' \<Longrightarrow> agent_matches devops s = agent_matches devops s'"
  by (intro ext) (simp add: agent_matches_def)

lemma pinned_cong: "sw_agent_ids s = sw_agent_ids s' \<Longrightarrow> pinned_agent_for s = pinned_agent_for s'"
  by (intro ext) (simp add: pinned_agent_for_def split: option.split)

lemma matches_place [simp]: "agent_matches devops (rd_swarm (snd (place t a r))) = agent_matches devops (rd_swarm r)"
  by (rule agent_matches_cong) simp

lemma pinned_place [simp]: "pinned_agent_for (rd_swarm (snd (place t a r))) = pinned_agent_for (rd_swarm r)"
  by (rule pinned_cong) simp

section \<open>Every pass is a sequence of guarded placements\<close>

lemma reserve_placing:
  "set ts \<subseteq> set ready \<Longrightarrow> (placing devops ready free)\<^sup>*\<^sup>* r (reserve_pinned_tasks devops free ts r)"
proof (induction ts arbitrary: r)
  case (Cons t ts)
  let ?r = "case pinned_agent_for (rd_swarm r) t of None \<Rightarrow> r
    | Some a \<Rightarrow> if a \<notin> set free \<or> a \<in> set (used_agents r) then r
        else if \<not> agent_matches devops (rd_swarm r) (target_team t) a then r else snd (place t a r)"
  have "(placing devops ready free)\<^sup>*\<^sup>* r ?r"
    using Cons.prems by (auto simp: guarded_def intro!: place_one split: option.split)
  with Cons.IH [of ?r] Cons.prems show ?case by simp
qed simp

lemma place_all_placing:
  assumes "\<And>t a. (t, a) \<in> set ps \<Longrightarrow> guarded devops ready free t a r" and "distinct (map snd ps)"
  shows "(placing devops ready free)\<^sup>*\<^sup>* r (place_all ps r)"
  using assms
proof (induction ps arbitrary: r)
  case (Cons p ps)
  obtain t a where p: "p = (t, a)" by fastforce
  have "guarded devops ready free t a r" using Cons.prems(1) p by simp
  moreover have "(placing devops ready free)\<^sup>*\<^sup>* (snd (place t a r)) (place_all ps (snd (place t a r)))"
  proof (rule Cons.IH)
    fix u b assume "(u, b) \<in> set ps"
    with Cons.prems(2) p have "b \<noteq> a" by force
    with Cons.prems(1) [of u b] \<open>(u, b) \<in> set ps\<close> place_used [of t a r]
    show "guarded devops ready free u b (snd (place t a r))" by (auto simp: guarded_def)
  qed (use Cons.prems(2) in simp)
  ultimately show ?case unfolding p by (auto intro: place_one rtranclp_trans)
qed simp

text \<open>The pool of the deterministic paths.\<close>

definition pool :: "round_state \<Rightarrow> task list \<Rightarrow> task list" where
  "pool r ready = filter (\<lambda>t. task_id t \<notin> set (assigned_tasks r) \<and> pinned_agent_for (rd_swarm r) t = None) ready"

definition open_agents :: "round_state \<Rightarrow> string list \<Rightarrow> string list" where
  "open_agents r free = filter (\<lambda>a. a \<notin> set (used_agents r)) free"

lemma pool_guarded:
  assumes "t \<in> set (pool r ready)" and "a \<in> set (open_agents r free)"
    and "agent_matches devops (rd_swarm r) (target_team t) a"
  shows "guarded devops ready free t a r"
  using assms by (auto simp: guarded_def pool_def open_agents_def)

lemma homogeneous_pairs:
  assumes "try_homogeneous_target_assign devops ts as r = (True, r')" and "ts \<noteq> []"
    and "distinct as"
  obtains ps where "r' = place_all ps r" and "distinct (map snd ps)" and "map fst ps = ts"
    and "\<And>t a. (t, a) \<in> set ps \<Longrightarrow>
      t \<in> set ts \<and> a \<in> set as \<and> agent_matches devops (rd_swarm r) (target_team t) a"
    and "map snd ps = take (length ts) (sort_key (last_rank (rd_swarm r))
      (matching_free_agents devops (rd_swarm r) (target_team (hd ts)) as))"
proof -
  let ?m = "\<lambda>t. matching_free_agents devops (rd_swarm r) (target_team t) as"
  let ?order = "sort_key (last_rank (rd_swarm r)) (?m (hd ts))"
  from assms(1) have len: "length ts \<le> length (?m (hd ts))"
    and same: "\<And>t. t \<in> set (tl ts) \<Longrightarrow> set (?m t) = set (?m (hd ts))"
    and r': "r' = place_all (zip ts ?order) r"
    by (auto simp: try_homogeneous_target_assign_def Let_def list_ex_iff not_less split: if_splits)
  have same': "set (?m t) = set (?m (hd ts))" if "t \<in> set ts" for t
    using that same [of t] assms(2) by (cases ts) auto
  have firsts: "map fst (zip ts ?order) = ts" using len by (simp add: map_fst_zip_take)
  have seconds: "map snd (zip ts ?order) = take (length ts) ?order" using len by (simp add: map_snd_zip_take)
  moreover have "distinct ?order" using assms(3) by (simp add: matching_free_agents_def)
  ultimately have "distinct (map snd (zip ts ?order))" by simp
  moreover have "t \<in> set ts \<and> a \<in> set as \<and> agent_matches devops (rd_swarm r) (target_team t) a"
    if p: "(t, a) \<in> set (zip ts ?order)" for t a
  proof -
    from p have t: "t \<in> set ts" by (rule set_zip_leftD)
    from p have "a \<in> set ?order" by (rule set_zip_rightD)
    then have "a \<in> set (?m t)" using same' [OF t] by simp
    with t show ?thesis by (simp add: matching_free_agents_def)
  qed
  ultimately show thesis using r' firsts seconds that by blast
qed

lemma sole_candidates_sound:
  "sole_candidates devops s as ts d0 = Some d \<Longrightarrow>
     (\<forall>t \<in> set ts. dget d (task_id t) \<noteq> None) \<and>
     (\<forall>k. k \<notin> task_id ` set ts \<longrightarrow> dget d k = dget d0 k) \<and>
     (\<forall>t \<in> set ts. \<forall>a. distinct (map task_id ts) \<longrightarrow> dget d (task_id t) = Some a \<longrightarrow>
        a \<in> set as \<and> agent_matches devops s (target_team t) a) \<and>
     (wf_dict d0 \<longrightarrow> wf_dict d)"
proof (induction ts arbitrary: d0)
  case (Cons t ts)
  from Cons.prems obtain a where a: "matching_free_agents devops s (target_team t) as = [a]"
    and d: "sole_candidates devops s as ts (dset d0 (task_id t) a) = Some d"
    by (auto split: list.splits)
  have "a \<in> set (matching_free_agents devops s (target_team t) as)" using a by simp
  then have ok: "a \<in> set as" "agent_matches devops s (target_team t) a"
    by (simp_all add: matching_free_agents_def)
  note ih = Cons.IH [OF d]
  show ?case
  proof (cases "task_id t \<in> task_id ` set ts")
    case True
    with ih show ?thesis by auto
  next
    case False
    with ih have "dget d (task_id t) = Some a" by simp
    with ih ok False show ?thesis by auto
  qed
qed simp

lemma place_again_keys:
  assumes "wf_dict d" and "length (remdups (dvals d)) = length d"
    and "dget d j = Some a" and "dget d k = Some a"
  shows "j = k"
proof -
  have "distinct (dvals d)"
    using assms(2) length_remdups_eq [of "dvals d"] by (metis distinct_remdups length_map remdups_id_iff_distinct)
  moreover have "(j, a) \<in> set d" "(k, a) \<in> set d" using assms(3,4) by (auto dest: map_of_SomeD)
  ultimately show ?thesis by (fastforce simp: distinct_map inj_on_def)
qed

lemma fallback_placing:
  assumes sole: "sole_candidates devops (rd_swarm r) (open_agents r free) (pool r ready) [] = Some d"
    and once: "length (remdups (dvals d)) = length d" and ready: "distinct (map task_id ready)"
  shows "(placing devops ready free)\<^sup>*\<^sup>* r
    (place_all (map (\<lambda>t. (t, the (dget d (task_id t)))) (pool r ready)) r)"
proof -
  let ?todo = "pool r ready" and ?open = "open_agents r free"
  have dt: "distinct (map task_id ?todo)" using ready by (simp add: pool_def distinct_map_filter)
  note sound = sole_candidates_sound [OF sole]
  have pick: "\<exists>a. dget d (task_id t) = Some a \<and> a \<in> set ?open \<and>
      agent_matches devops (rd_swarm r) (target_team t) a" if "t \<in> set ?todo" for t
    using sound that dt by blast
  have "inj_on (\<lambda>t. the (dget d (task_id t))) (set ?todo)"
  proof (rule inj_onI)
    fix t u assume t: "t \<in> set ?todo" and u: "u \<in> set ?todo"
      and e: "the (dget d (task_id t)) = the (dget d (task_id u))"
    with pick [OF t] pick [OF u] have "task_id t = task_id u"
      using place_again_keys [OF _ once] sound by auto
    with dt t u show "t = u" by (auto simp: distinct_map inj_on_def)
  qed
  moreover have "distinct ?todo" using dt by (simp add: distinct_map)
  ultimately have "distinct (map snd (map (\<lambda>t. (t, the (dget d (task_id t)))) ?todo))"
    by (simp add: comp_def distinct_map)
  moreover have "the (dget d (task_id t)) \<in> set ?open \<and>
      agent_matches devops (rd_swarm r) (target_team t) (the (dget d (task_id t)))" if "t \<in> set ?todo" for t
    using pick [OF that] by force
  ultimately show ?thesis by (intro place_all_placing) (auto intro!: pool_guarded)
qed

lemma homogeneous_placing:
  assumes "try_homogeneous_target_assign devops (pool r ready) (open_agents r free) r = (True, r')"
    and "pool r ready \<noteq> []" and "distinct free"
  shows "(placing devops ready free)\<^sup>*\<^sup>* r r'"
proof -
  have "distinct (open_agents r free)" using assms(3) by (simp add: open_agents_def)
  from homogeneous_pairs [OF assms(1,2) this] obtain ps where "r' = place_all ps r" "distinct (map snd ps)"
    "\<And>t a. (t, a) \<in> set ps \<Longrightarrow> t \<in> set (pool r ready) \<and> a \<in> set (open_agents r free) \<and>
      agent_matches devops (rd_swarm r) (target_team t) a" by metis
  then show ?thesis by (auto intro!: place_all_placing pool_guarded)
qed

lemma deterministic_placing:
  assumes res: "try_deterministic_assign devops ready free r = (done, r')"
    and ready: "distinct (map task_id ready)" and free: "distinct free"
  shows "(placing devops ready free)\<^sup>*\<^sup>* r r'"
proof -
  note def = try_deterministic_assign_def [of devops ready free r, folded pool_def open_agents_def]
  obtain homog r1 where h: "try_homogeneous_target_assign devops (pool r ready) (open_agents r free) r = (homog, r1)"
    by fastforce
  show ?thesis
  proof (cases "pool r ready = [] \<or> open_agents r free = []")
    case True
    with res show ?thesis by (auto simp: def Let_def)
  next
    case False
    show ?thesis
    proof (cases homog)
      case True
      with False res h have "r' = r1" by (simp add: def Let_def)
      with False True h free show ?thesis by (auto intro: homogeneous_placing)
    next
      case nh: False
      show ?thesis
      proof (cases "sole_candidates devops (rd_swarm r) (open_agents r free) (pool r ready) []")
        case None
        with False nh res h show ?thesis by (simp add: def Let_def)
      next
        case (Some d)
        with False nh res h fallback_placing [OF Some _ ready] show ?thesis
          by (cases "length (remdups (dvals d)) = length d") (simp_all add: def Let_def)
      qed
    qed
  qed
qed

lemma proposed_task_ready: "proposed_task ready tid = Some t \<Longrightarrow> t \<in> set ready"
proof -
  have "dget (dupdate d (map (\<lambda>t. (task_id t, t)) ts)) k = Some u \<Longrightarrow> dget d k = Some u \<or> u \<in> set ts" for d ts k u
  proof (induction ts arbitrary: d)
    case (Cons t ts)
    from Cons.IH [of "dset d (task_id t) t"] Cons.prems show ?case by (auto split: if_splits)
  qed simp
  from this [of "[]" ready] show "proposed_task ready tid = Some t \<Longrightarrow> t \<in> set ready"
    by (auto simp: proposed_task_def ready_by_id_def split: json.splits)
qed

lemma proposals_placing:
  "proposal_loop devops ready free ps r = (raised, r') \<Longrightarrow> (placing devops ready free)\<^sup>*\<^sup>* r r'"
proof (induction ps arbitrary: r)
  case (Cons p ps)
  let ?r = "case (jget p ''agent_id'', proposed_task ready (jget p ''task_id'')) of
     (JStr a, Some t) \<Rightarrow>
       if a = [] \<or> a \<notin> set free \<or> a \<in> set (used_agents r) then r
       else if (case pinned_agent_for (rd_swarm r) t of None \<Rightarrow> False | Some b \<Rightarrow> a \<noteq> b) then r
       else if \<not> agent_matches devops (rd_swarm r) (target_team t) a then r
       else snd (place t a r)
   | _ \<Rightarrow> r"
  show ?case
  proof (cases "hashable (jget p ''task_id'')")
    case True
    have "(placing devops ready free)\<^sup>*\<^sup>* r ?r"
      by (auto simp: guarded_def intro!: place_one proposed_task_ready split: json.split option.split)
    moreover from True Cons.prems have "(placing devops ready free)\<^sup>*\<^sup>* ?r r'" by (intro Cons.IH) simp
    ultimately show ?thesis by (rule rtranclp_trans)
  qed (use Cons.prems in simp)
qed simp

lemma candidates_placing:
  assumes "t \<in> set ready" and "\<And>b. pinned_agent_for (rd_swarm r) t = Some b \<Longrightarrow> set cs \<subseteq> {b}"
  shows "(placing devops ready free)\<^sup>*\<^sup>* r (try_candidates devops free t cs r)"
  using assms(2)
proof (induction cs arbitrary: r)
  case (Cons a cs)
  show ?case
  proof (cases "a \<notin> set free \<or> a \<in> set (used_agents r) \<or> \<not> agent_matches devops (rd_swarm r) (target_team t) a")
    case True
    with Cons show ?thesis by auto
  next
    case False
    with assms(1) Cons.prems have g: "guarded devops ready free t a r" by (auto simp: guarded_def)
    have ih: "(placing devops ready free)\<^sup>*\<^sup>* (snd (place t a r)) (try_candidates devops free t cs (snd (place t a r)))"
      using Cons.prems by (intro Cons.IH) auto
    have "try_candidates devops free t (a # cs) r =
        (if fst (place t a r) then snd (place t a r) else try_candidates devops free t cs (snd (place t a r)))"
      using False by (simp add: Let_def case_prod_unfold)
    with place_one [OF g] rtranclp_trans [OF place_one [OF g] ih] show ?thesis by simp
  qed
qed simp

lemma guardrail_placing:
  "set ts \<subseteq> set ready \<Longrightarrow> (placing devops ready free)\<^sup>*\<^sup>* r (guardrail_loop devops free ts r)"
proof (induction ts arbitrary: r)
  case (Cons t ts)
  let ?r = "let pinned = pinned_agent_for (rd_swarm r) t in
        if task_id t \<in> set (assigned_tasks r) then r
        else if \<not> str_truthy (target_team t) \<and> pinned = None then r
        else try_candidates devops free t (case pinned of Some a \<Rightarrow> [a] | None \<Rightarrow> free) r"
  have "(placing devops ready free)\<^sup>*\<^sup>* r ?r"
    using Cons.prems candidates_placing [of t ready r _ devops free] by (auto simp: Let_def split: option.split)
  with Cons.IH [of ?r] Cons.prems show ?case by (simp add: rtranclp_trans)
qed simp

lemma passes_placing:
  assumes "assignment_passes devops answer ready free s = (raised, r)"
    and "distinct (map task_id ready)" and "distinct free"
  shows "(placing devops ready free)\<^sup>*\<^sup>* \<lparr>rd_swarm = s, used_agents = [], assigned_tasks = []\<rparr> r"
proof -
  let ?r0 = "\<lparr>rd_swarm = s, used_agents = [], assigned_tasks = []\<rparr>"
  let ?r1 = "reserve_pinned_tasks devops free ready ?r0"
  obtain direct r2 where d: "try_deterministic_assign devops ready free ?r1 = (direct, r2)" by fastforce
  have 1: "(placing devops ready free)\<^sup>*\<^sup>* ?r0 ?r1" by (rule reserve_placing) simp
  have 2: "(placing devops ready free)\<^sup>*\<^sup>* ?r1 r2" by (rule deterministic_placing [OF d assms(2,3)])
  have 3: "(placing devops ready free)\<^sup>*\<^sup>* r2 r"
    using assms(1) d by (auto simp: assignment_passes_def Let_def dest: proposals_placing split: if_splits option.splits)
  from 1 2 3 show ?thesis by (meson rtranclp_trans)
qed

section \<open>The invariant of a round\<close>

text \<open>What a round starts from: the agents it may use hold nothing, the tasks it may place are ready.\<close>

definition round_start :: "swarm \<Rightarrow> task list \<Rightarrow> string list \<Rightarrow> bool" where
  "round_start s ready free \<longleftrightarrow>
     graph_inv (sw_graph s) \<and> dget (tasks (sw_graph s)) [] = None \<and>
     [] \<notin> set free \<and> distinct free \<and> (\<forall>a \<in> set free. dget (agent_to_task (sw_graph s)) a = None) \<and>
     distinct (map task_id ready) \<and>
     (\<forall>a n. dget (agent_last_placed s) a = Some n \<longrightarrow> n < placement_ordinal s) \<and>
     (\<forall>t \<in> set ready. dget (tasks (sw_graph s)) (task_id t) = Some t \<and> status t = TO_DO \<and>
                       dependencies_satisfied (task_id t) (sw_graph s))"

text \<open>A task, and an agent it may be given to.\<close>

definition eligible :: "bool \<Rightarrow> swarm \<Rightarrow> task \<Rightarrow> string \<Rightarrow> bool" where
  "eligible devops s t a \<longleftrightarrow>
     agent_matches devops s (target_team t) a \<and> (\<forall>b. pinned_agent_for s t = Some b \<longrightarrow> a = b)"

definition placed_version :: "task \<Rightarrow> string \<Rightarrow> task" where
  "placed_version t a = t\<lparr>status := IN_PROGRESS, assigned_agent_id := Some a\<rparr>"

definition placed_in :: "bool \<Rightarrow> swarm \<Rightarrow> task list \<Rightarrow> string list \<Rightarrow> round_state \<Rightarrow> string \<Rightarrow> bool" where
  "placed_in devops s ready free r k \<longleftrightarrow>
     (\<exists>t a. t \<in> set ready \<and> task_id t = k \<and> a \<in> set free \<and> a \<in> set (used_agents r) \<and> eligible devops s t a \<and>
            dget (tasks (sw_graph (rd_swarm r))) k = Some (placed_version t a))"

definition round_inv :: "bool \<Rightarrow> swarm \<Rightarrow> task list \<Rightarrow> string list \<Rightarrow> round_state \<Rightarrow> bool" where
  "round_inv devops s ready free r \<longleftrightarrow>
     (let g = sw_graph (rd_swarm r); g0 = sw_graph s; u = rd_swarm r in
      graph_inv g \<and> sw_agent_ids u = sw_agent_ids s \<and> agent_team_keys u = agent_team_keys s \<and>
      (\<forall>k. k \<notin> set (assigned_tasks r) \<longrightarrow> dget (tasks g) k = dget (tasks g0) k) \<and>
      (\<forall>k \<in> set (assigned_tasks r). placed_in devops s ready free r k) \<and>
      (\<forall>a. a \<notin> set (used_agents r) \<longrightarrow> dget (agent_to_task g) a = dget (agent_to_task g0) a) \<and>
      placement_ordinal s \<le> placement_ordinal u \<and>
      (\<forall>a n. dget (agent_last_placed u) a = Some n \<longrightarrow> n < placement_ordinal u) \<and>
      (\<forall>a \<in> set (used_agents r). \<exists>n. dget (agent_last_placed u) a = Some n \<and> placement_ordinal s \<le> n))"

lemma round_invD:
  assumes "round_inv devops s ready free r"
  shows "graph_inv (sw_graph (rd_swarm r))"
    "sw_agent_ids (rd_swarm r) = sw_agent_ids s" "agent_team_keys (rd_swarm r) = agent_team_keys s"
    "k \<notin> set (assigned_tasks r) \<Longrightarrow> dget (tasks (sw_graph (rd_swarm r))) k = dget (tasks (sw_graph s)) k"
    "k \<in> set (assigned_tasks r) \<Longrightarrow> placed_in devops s ready free r k"
    "a \<notin> set (used_agents r) \<Longrightarrow>
       dget (agent_to_task (sw_graph (rd_swarm r))) a = dget (agent_to_task (sw_graph s)) a"
    "placement_ordinal s \<le> placement_ordinal (rd_swarm r)"
    "a \<in> set (used_agents r) \<Longrightarrow>
       \<exists>n. dget (agent_last_placed (rd_swarm r)) a = Some n \<and> placement_ordinal s \<le> n"
    "dget (agent_last_placed (rd_swarm r)) a = Some n \<Longrightarrow> n < placement_ordinal (rd_swarm r)"
  using assms unfolding round_inv_def Let_def by blast+

lemma round_inv_start:
  "round_start s ready free \<Longrightarrow>
     round_inv devops s ready free \<lparr>rd_swarm = s, used_agents = [], assigned_tasks = []\<rparr>"
  by (simp add: round_inv_def round_start_def)

lemma guarded_eligible:
  assumes "round_inv devops s ready free r"
  shows "guarded devops ready free t a r \<longleftrightarrow>
    t \<in> set ready \<and> a \<in> set free \<and> a \<notin> set (used_agents r) \<and> eligible devops s t a"
  using agent_matches_cong [of "rd_swarm r" s devops] pinned_cong [of "rd_swarm r" s] round_invD(2,3) [OF assms]
  by (auto simp: guarded_def eligible_def)

text \<open>A dependency of a ready task is merged, so no placement touches it.\<close>

lemma ready_dependencies_kept:
  assumes start: "round_start s ready free" and inv: "round_inv devops s ready free r" and t: "t \<in> set ready"
    and k: "task_id t \<notin> set (assigned_tasks r)"
  shows "dependencies_satisfied (task_id t) (sw_graph (rd_swarm r))"
proof -
  let ?start = "sw_graph s" and ?g = "sw_graph (rd_swarm r)"
  from start t have t0: "dget (tasks ?start) (task_id t) = Some t" "dependencies_satisfied (task_id t) ?start"
    by (auto simp: round_start_def)
  with round_invD(4) [OF inv k] have tg: "dget (tasks ?g) (task_id t) = Some t" by simp
  have "dget (tasks ?g) d = Some u" if u: "dget (tasks ?start) d = Some u" "status u = MERGED" for d u
  proof (cases "d \<in> set (assigned_tasks r)")
    case True
    from round_invD(5) [OF inv this] obtain v where "v \<in> set ready" "task_id v = d"
      by (auto simp: placed_in_def)
    with start u show ?thesis by (auto simp: round_start_def)
  next
    case False
    with round_invD(4) [OF inv this] u show ?thesis by simp
  qed
  with t0 tg show ?thesis
    by (fastforce simp: dependencies_satisfied_def list_all_iff split: option.splits)
qed

lemma place_fresh:
  assumes start: "round_start s ready free" and inv: "round_inv devops s ready free r"
    and g: "guarded devops ready free t a r" and k: "task_id t \<notin> set (assigned_tasks r)"
  shows "place t a r = (True, r
    \<lparr>rd_swarm := (rd_swarm r)
       \<lparr>sw_graph := commit_assignment (task_id t) a t (sw_graph (rd_swarm r)),
        agent_last_placed := dset (agent_last_placed (rd_swarm r)) a (placement_ordinal (rd_swarm r)),
        placement_ordinal := placement_ordinal (rd_swarm r) + 1\<rparr>,
     used_agents := used_agents r @ [a], assigned_tasks := assigned_tasks r @ [task_id t]\<rparr>)"
proof -
  let ?g = "sw_graph (rd_swarm r)"
  from g have t: "t \<in> set ready" and a: "a \<in> set free" "a \<notin> set (used_agents r)" by (auto simp: guarded_def)
  with start round_invD(4) [OF inv k] have tg: "dget (tasks ?g) (task_id t) = Some t" "status t = TO_DO"
    by (auto simp: round_start_def)
  from start a round_invD(6) [OF inv a(2)] have "dget (agent_to_task ?g) a = None"
    by (simp add: round_start_def)
  then have "\<not> agent_busy a ?g" "drop_stale a ?g = ?g" by (simp_all add: agent_busy_def drop_stale_def)
  with tg ready_dependencies_kept [OF start inv t k]
  have "assign_task_to_agent (task_id t) a ?g = (True, commit_assignment (task_id t) a t ?g)"
    by (simp add: assign_eq)
  then show ?thesis by (simp add: place_def try_assign_def Let_def)
qed

text \<open>Proposing a task twice in a round is harmless.\<close>

lemma place_again:
  assumes start: "round_start s ready free" and inv: "round_inv devops s ready free r"
    and k: "task_id t \<in> set (assigned_tasks r)"
  shows "place t a r = (False, r)"
proof -
  from round_invD(5) [OF inv k] obtain u where
    "dget (tasks (sw_graph (rd_swarm r))) (task_id t) = Some u" "status u \<noteq> TO_DO"
    by (auto simp: placed_in_def placed_version_def)
  then show ?thesis by (simp add: place_def try_assign_def assign_eq)
qed

lemma round_inv_place:
  assumes start: "round_start s ready free" and inv: "round_inv devops s ready free r"
    and g: "guarded devops ready free t a r"
  shows "round_inv devops s ready free (snd (place t a r))"
proof (cases "task_id t \<in> set (assigned_tasks r)")
  case True
  with place_again [OF start inv True] inv show ?thesis by simp
next
  case False
  let ?g = "sw_graph (rd_swarm r)" and ?k = "task_id t"
  let ?h = "commit_assignment ?k a t ?g"
  from g inv have t: "t \<in> set ready" and a: "a \<in> set free" "a \<notin> set (used_agents r)" and e: "eligible devops s t a"
    by (auto simp: guarded_eligible)
  with start round_invD(4) [OF inv False] have tg: "dget (tasks ?g) ?k = Some t" "status t = TO_DO"
    "?k \<noteq> []" "a \<noteq> []"
    by (auto simp: round_start_def)
  have gi: "graph_inv ?h" by (rule commit_assignment_inv [OF round_invD(1) [OF inv] tg(1,2,4,3)]) simp
  have th: "dget (tasks ?h) k = (if k = ?k then Some (placed_version t a) else dget (tasks ?g) k)" for k
    by (simp add: commit_assignment_def placed_version_def)
  have ah: "dget (agent_to_task ?h) b = (if b = a then Some ?k else dget (agent_to_task ?g) b)" for b
    by (simp add: commit_assignment_def)
  have old: "placed_in devops s ready free (snd (place t a r)) k" if k: "k \<in> set (assigned_tasks r)" for k
    using round_invD(5) [OF inv k] False k place_fresh [OF start inv g False]
    by (auto simp: placed_in_def th)
  have new: "placed_in devops s ready free (snd (place t a r)) ?k"
    using t a e place_fresh [OF start inv g False] by (auto simp: placed_in_def th)
  show ?thesis
    using gi old new round_invD(2-4,6-9) [OF inv] place_fresh [OF start inv g False]
    by (fastforce simp: round_inv_def Let_def th ah)
qed

lemma placing_inv:
  assumes start: "round_start s ready free" and "(placing devops ready free)\<^sup>*\<^sup>* r r'"
    and inv: "round_inv devops s ready free r"
  shows "round_inv devops s ready free r'"
  using assms(2) inv
  by (induction rule: rtranclp_induct) (auto elim!: placingE intro: round_inv_place [OF start])

lemma place_grows:
  "set (used_agents r) \<subseteq> set (used_agents (snd (place t a r)))"
  "set (assigned_tasks r) \<subseteq> set (assigned_tasks (snd (place t a r)))"
  by (auto simp: place_def Let_def case_prod_unfold)

lemma placing_grows:
  "(placing devops ready free)\<^sup>*\<^sup>* r r' \<Longrightarrow>
     set (used_agents r) \<subseteq> set (used_agents r') \<and> set (assigned_tasks r) \<subseteq> set (assigned_tasks r')"
  by (induction rule: rtranclp_induct) (use place_grows in \<open>fastforce elim!: placingE\<close>)+

section \<open>The guardrail pass leaves nothing idle\<close>

lemma candidates_complete:
  assumes start: "round_start s ready free" and inv: "round_inv devops s ready free r"
    and t: "t \<in> set ready" "task_id t \<notin> set (assigned_tasks r)"
    and cs: "\<And>b. pinned_agent_for s t = Some b \<Longrightarrow> set cs \<subseteq> {b}"
  shows "task_id t \<in> set (assigned_tasks (try_candidates devops free t cs r)) \<or>
    (\<forall>a \<in> set cs. a \<in> set free \<longrightarrow> eligible devops s t a \<longrightarrow> a \<in> set (used_agents r))"
  using cs
proof (induction cs)
  case (Cons a cs)
  show ?case
  proof (cases "guarded devops ready free t a r")
    case True
    with place_fresh [OF start inv True t(2)] show ?thesis by (simp add: guarded_def)
  next
    case False
    have m: "agent_matches devops (rd_swarm r) = agent_matches devops s"
      by (rule agent_matches_cong [OF round_invD(3) [OF inv]])
    have "eligible devops s t a \<longleftrightarrow> agent_matches devops s (target_team t) a"
      using Cons.prems by (auto simp: eligible_def)
    with False t(1) have skip: "a \<notin> set free \<or> a \<in> set (used_agents r) \<or>
        \<not> agent_matches devops (rd_swarm r) (target_team t) a"
      by (auto simp: guarded_eligible [OF inv] m)
    with Cons m show ?thesis by (auto simp: eligible_def)
  qed
qed simp

text \<open>A task the guardrail pass looks at: it names a team or is pinned.\<close>

definition directed :: "swarm \<Rightarrow> task \<Rightarrow> bool" where
  "directed s t \<longleftrightarrow> str_truthy (target_team t) \<or> pinned_agent_for s t \<noteq> None"

lemma guardrail_complete:
  assumes start: "round_start s ready free" and "set ts \<subseteq> set ready"
    and "round_inv devops s ready free r" and "t \<in> set ts" and dir: "directed s t"
    and a: "a \<in> set free" "eligible devops s t a"
  shows "task_id t \<in> set (assigned_tasks (guardrail_loop devops free ts r)) \<or>
    a \<in> set (used_agents (guardrail_loop devops free ts r))"
  using assms(2-4)
proof (induction ts arbitrary: r)
  case (Cons u ts)
  let ?cs = "case pinned_agent_for (rd_swarm r) u of Some b \<Rightarrow> [b] | None \<Rightarrow> free"
  let ?r = "let pinned = pinned_agent_for (rd_swarm r) u in
        if task_id u \<in> set (assigned_tasks r) then r
        else if \<not> str_truthy (target_team u) \<and> pinned = None then r
        else try_candidates devops free u ?cs r"
  have step: "guardrail_loop devops free (u # ts) r = guardrail_loop devops free ts ?r" by (simp only: guardrail_loop.simps Let_def)
  have pin: "pinned_agent_for (rd_swarm r) = pinned_agent_for s"
    by (rule pinned_cong [OF round_invD(2) [OF Cons.prems(2)]])
  have to: "(placing devops ready free)\<^sup>*\<^sup>* r ?r"
    using Cons.prems(1) candidates_placing [of u ready r _ devops free] by (auto simp: Let_def split: option.split)
  note inv' = placing_inv [OF start to Cons.prems(2)]
  have grow: "set (used_agents ?r) \<subseteq> set (used_agents (guardrail_loop devops free (u # ts) r)) \<and>
      set (assigned_tasks ?r) \<subseteq> set (assigned_tasks (guardrail_loop devops free (u # ts) r))"
    unfolding step by (rule placing_grows [OF guardrail_placing [of ts ready]]) (use Cons.prems(1) in simp)
  show ?case
  proof (cases "t = u")
    case True
    have "task_id t \<in> set (assigned_tasks ?r) \<or> a \<in> set (used_agents ?r)"
    proof (cases "task_id u \<in> set (assigned_tasks r)")
      case False
      have "?r = try_candidates devops free u ?cs r"
        using False dir True by (auto simp: directed_def pin)
      moreover have "a \<in> set ?cs" using a True by (auto simp: pin eligible_def split: option.split)
      moreover have "a \<in> set (used_agents r) \<Longrightarrow> a \<in> set (used_agents ?r)"
        using placing_grows [OF to] by blast
      ultimately show ?thesis
        using candidates_complete [OF start Cons.prems(2) _ False, of ?cs] Cons.prems(1) a True
        by (auto simp: pin)
    qed (simp add: True)
    with grow show ?thesis by blast
  next
    case False
    with Cons.prems have "t \<in> set ts" "set ts \<subseteq> set ready" by auto
    from Cons.IH [OF this(2) inv' this(1)] show ?thesis unfolding step .
  qed
qed simp

section \<open>Failing what no worker can serve\<close>

text \<open>A graph step that only fails tasks: what is not failed afterwards was there before, and what was
  failed stays failed.\<close>

definition only_fails :: "task_graph \<Rightarrow> task_graph \<Rightarrow> bool" where
  "only_fails g h \<longleftrightarrow>
     (\<forall>k u. dget (tasks h) k = Some u \<longrightarrow> status u \<noteq> FAILED \<longrightarrow> dget (tasks g) k = Some u) \<and>
     (\<forall>k u. dget (tasks g) k = Some u \<longrightarrow> status u = FAILED \<longrightarrow>
            (\<exists>v. dget (tasks h) k = Some v \<and> status v = FAILED)) \<and>
     (\<forall>k. dget (tasks g) k = None \<longleftrightarrow> dget (tasks h) k = None)"

lemma only_failsD:
  assumes "only_fails g h"
  shows "dget (tasks h) k = Some u \<Longrightarrow> status u \<noteq> FAILED \<Longrightarrow> dget (tasks g) k = Some u"
    "dget (tasks g) k = Some u \<Longrightarrow> status u = FAILED \<Longrightarrow> \<exists>v. dget (tasks h) k = Some v \<and> status v = FAILED"
    "dget (tasks g) k = None \<longleftrightarrow> dget (tasks h) k = None"
  using assms unfolding only_fails_def by blast+

lemma only_fails_refl: "only_fails g g"
  by (simp add: only_fails_def)

lemma only_fails_trans: "only_fails g h \<Longrightarrow> only_fails h i \<Longrightarrow> only_fails g i"
  unfolding only_fails_def by blast

lemma only_fails_put:
  "status t = FAILED \<Longrightarrow> dget (tasks g) k = Some u \<Longrightarrow> tasks h = dset (tasks g) k t \<Longrightarrow> only_fails g h"
  by (auto simp: only_fails_def)

lemma only_fails_pass: "only_fails g (fst (cascade_pass ks g new))"
proof (induction ks g new rule: cascade_pass.induct)
  case (2 k ks g new)
  have "dget (tasks g) k = Some t \<Longrightarrow> only_fails g (fail_blocked k t g)" for t
    by (rule only_fails_put [of "failed_version t"]) simp_all
  with 2 show ?case by (auto split: option.split intro: only_fails_trans)
qed (simp add: only_fails_refl)

lemma only_fails_cascade: "only_fails g (fst (cascade_loop g failed))"
proof (induction g failed rule: cascade_loop.induct)
  case (1 g failed)
  obtain g1 new where p: "cascade_pass (dkeys (tasks g)) g [] = (g1, new)" by fastforce
  with only_fails_pass [of g "dkeys (tasks g)" "[]"] have "only_fails g g1" by simp
  with p "1.IH" [OF p [symmetric] refl] show ?case
    by (cases "new = []") (auto simp: cascade_loop.simps [of g failed] intro: only_fails_trans)
qed

lemma only_fails_mark: "only_fails g (snd (mark_dependents_failed k g))"
  using only_fails_cascade [of g "[]"]
  by (auto simp: mark_dependents_failed_def only_fails_def split: prod.split)

lemma fail_unservable_step:
  assumes "graph_inv g"
  shows "graph_inv (fail_unservable q t g)" "only_fails g (fail_unservable q t g)"
    "\<exists>u. dget (tasks g) (task_id t) = Some u \<Longrightarrow>
       \<exists>v. dget (tasks (fail_unservable q t g)) (task_id t) = Some v \<and> status v = FAILED"
proof -
  define kws where "kws = [AChangesSummary (Some (unservable_reason q t)),
    ARevisionFeedback (revision_feedback (case dget (tasks g) (task_id t) of Some u \<Rightarrow> u | None \<Rightarrow> t) @
      [JDict [(''source'', JStr ''system''), (''reason'', JStr (unservable_reason q t))]])]"
  define h where "h = snd (update_task (task_id t) (Some FAILED) Unset None None kws g)"
  have eq: "fail_unservable q t g = snd (mark_dependents_failed (task_id t) h)"
    by (simp add: fail_unservable_def h_def kws_def Let_def)
  have "update_ok Unset kws" by (simp add: update_ok_def keeps_identity_def kws_def)
  from update_task_inv [OF assms this, of "task_id t" "Some FAILED" None None] have "graph_inv h"
    by (simp only: h_def loose_after_failing)
  then show "graph_inv (fail_unservable q t g)" unfolding eq by (rule mark_dependents_failed_inv)
  have h: "only_fails g h \<and> (dget (tasks g) (task_id t) \<noteq> None \<longrightarrow>
      (\<exists>v. dget (tasks h) (task_id t) = Some v \<and> status v = FAILED))"
  proof (cases "dget (tasks g) (task_id t)")
    case None
    then show ?thesis by (simp add: h_def update_task_def only_fails_refl)
  next
    case (Some u)
    then have "tasks h = dset (tasks g) (task_id t) (fold set_attr kws (u\<lparr>status := FAILED\<rparr>))"
      by (simp add: h_def update_task_def Let_def)
    moreover have "status (fold set_attr kws (u\<lparr>status := FAILED\<rparr>)) = FAILED" by (simp add: kws_def)
    ultimately show ?thesis using only_fails_put Some by simp
  qed
  with only_fails_mark [of h "task_id t"] show "only_fails g (fail_unservable q t g)"
    unfolding eq by (blast intro: only_fails_trans)
  assume "\<exists>u. dget (tasks g) (task_id t) = Some u"
  with h only_fails_mark [of h "task_id t"]
  show "\<exists>v. dget (tasks (fail_unservable q t g)) (task_id t) = Some v \<and> status v = FAILED"
    unfolding eq only_fails_def by auto
qed

lemma fail_loop_step:
  assumes "graph_inv (sw_graph s)"
  shows "graph_inv (sw_graph (fail_loop devops q done ts s)) \<and>
    only_fails (sw_graph s) (sw_graph (fail_loop devops q done ts s)) \<and>
    (\<exists>g. fail_loop devops q done ts s = s\<lparr>sw_graph := g\<rparr>)"
  using assms
proof (induction ts arbitrary: s)
  case (Cons t ts)
  show ?case
  proof (cases "task_id t \<in> set done \<or> \<not> str_truthy (target_team t) \<or> has_worker_for_target devops s (target_team t)")
    case True
    with Cons show ?thesis by simp
  next
    case False
    let ?s = "s\<lparr>sw_graph := fail_unservable q t (sw_graph s)\<rparr>"
    from Cons.IH [of ?s] fail_unservable_step(1,2) [OF Cons.prems, of q t] False
    show ?thesis by (auto intro: only_fails_trans)
  qed
next
  case Nil
  have "s = s\<lparr>sw_graph := sw_graph s\<rparr>" by simp
  then show ?case using Nil only_fails_refl by (metis fail_loop.simps(1))
qed

lemma has_worker_cong:
  "has_worker_for_target devops (s\<lparr>sw_graph := g\<rparr>) = has_worker_for_target devops s"
  by (intro ext) (simp add: has_worker_for_target_def agent_matches_cong [of "s\<lparr>sw_graph := g\<rparr>" s])

lemma fail_loop_fails:
  assumes "graph_inv (sw_graph s)" and "t \<in> set ts" and "task_id t \<notin> set done"
    and "str_truthy (target_team t)" and "\<not> has_worker_for_target devops s (target_team t)"
    and "dget (tasks (sw_graph s)) (task_id t) \<noteq> None"
  shows "\<exists>v. dget (tasks (sw_graph (fail_loop devops q done ts s))) (task_id t) = Some v \<and> status v = FAILED"
  using assms
proof (induction ts arbitrary: s)
  case (Cons u ts)
  let ?skip = "task_id u \<in> set done \<or> \<not> str_truthy (target_team u) \<or> has_worker_for_target devops s (target_team u)"
  define g where "g = (if ?skip then sw_graph s else fail_unservable q u (sw_graph s))"
  have loop: "fail_loop devops q done (u # ts) s = fail_loop devops q done ts (s\<lparr>sw_graph := g\<rparr>)"
    by (simp add: g_def)
  have inv: "graph_inv g" and of: "only_fails (sw_graph s) g"
    using Cons.prems(1) fail_unservable_step(1,2) [OF Cons.prems(1)] by (simp_all add: g_def only_fails_refl)
  show ?case
  proof (cases "t = u")
    case True
    with Cons.prems have "\<exists>v. dget (tasks g) (task_id t) = Some v \<and> status v = FAILED"
      using fail_unservable_step(3) [OF Cons.prems(1), of u q] by (auto simp: g_def)
    with fail_loop_step [of "s\<lparr>sw_graph := g\<rparr>" devops q "done" ts] inv show ?thesis
      unfolding loop only_fails_def by auto
  next
    case False
    from only_failsD(3) [OF of] Cons.prems(6) have "dget (tasks g) (task_id t) \<noteq> None" by metis
    with Cons.IH [of "s\<lparr>sw_graph := g\<rparr>"] Cons.prems(2-5) False inv show ?thesis
      unfolding loop has_worker_cong by simp
  qed
qed simp

section \<open>The start of a round\<close>

text \<open>What holds of a swarm between rounds.\<close>

definition swarm_ok :: "swarm \<Rightarrow> bool" where
  "swarm_ok s \<longleftrightarrow> graph_inv (sw_graph s) \<and> dget (tasks (sw_graph s)) [] = None \<and>
     [] \<notin> set (sw_agent_ids s) \<and> distinct (sw_agent_ids s) \<and>
     (\<forall>a n. dget (agent_last_placed s) a = Some n \<longrightarrow> n < placement_ordinal s)"

lemma free_loop_exact:
  "graph_inv g \<Longrightarrow> free_loop as g = (filter (\<lambda>a. dget (agent_to_task g) a = None) as, g)"
proof (induction as)
  case (Cons a as)
  have "get_task_for_agent a g = (case dget (agent_to_task g) a of None \<Rightarrow> None | Some k \<Rightarrow> dget (tasks g) k, g)"
    using held_back_reference [OF Cons.prems, of a]
    by (fastforce simp: get_task_for_agent_def in_flight_def split: option.split)
  moreover have "dget (agent_to_task g) a = Some k \<Longrightarrow> dget (tasks g) k \<noteq> None" for k
    using held_back_reference [OF Cons.prems, of a k] by auto
  ultimately show ?case using Cons by (auto split: option.split)
qed simp

lemma find_free_exact:
  "swarm_ok s \<Longrightarrow> find_free_agents s =
     (filter (\<lambda>a. dget (agent_to_task (sw_graph s)) a = None) (sw_agent_ids s), s)"
  by (simp add: find_free_agents_def swarm_ok_def free_loop_exact)

lemma find_ready_in:
  assumes "swarm_ok s"
  shows "t \<in> set (find_ready_tasks s) \<longleftrightarrow> dget (tasks (sw_graph s)) (task_id t) = Some t \<and> status t = TO_DO \<and>
    dependencies_satisfied (task_id t) (sw_graph s)"
proof -
  have inv: "graph_inv (sw_graph s)" using assms by (simp add: swarm_ok_def)
  have "t \<in> snd ` set (tasks (sw_graph s)) \<longleftrightarrow> dget (tasks (sw_graph s)) (task_id t) = Some t"
  proof
    assume "t \<in> snd ` set (tasks (sw_graph s))"
    then obtain k where "(k, t) \<in> set (tasks (sw_graph s))" by force
    with wf_dict_dget [OF graph_invD(3) [OF inv]] have "dget (tasks (sw_graph s)) k = Some t" by blast
    with keyedD [OF graph_invD(1) [OF inv]] show "dget (tasks (sw_graph s)) (task_id t) = Some t" by blast
  qed (force dest: map_of_SomeD)
  then show ?thesis by (auto simp: find_ready_tasks_def get_tasks_def)
qed

lemma round_starts:
  assumes "swarm_ok s"
  shows "round_start s (find_ready_tasks s) (fst (find_free_agents s))"
proof -
  let ?d = "tasks (sw_graph s)"
  have inv: "graph_inv (sw_graph s)" using assms by (simp add: swarm_ok_def)
  have "map task_id (dvals d) = dkeys d" if "\<And>k t. (k, t) \<in> set d \<Longrightarrow> task_id t = k" for d
    using that by (induction d) auto
  then have ids: "map task_id (dvals ?d) = dkeys ?d"
    using wf_dict_dget [OF graph_invD(3) [OF inv]] keyedD [OF graph_invD(1) [OF inv]] by blast
  have "distinct (map task_id (dvals ?d))"
    unfolding ids using graph_invD(3) [OF inv] by (simp only: wf_dict_def)
  then have "distinct (map task_id (find_ready_tasks s))"
    by (simp add: find_ready_tasks_def get_tasks_def distinct_map_filter)
  then show ?thesis
    using assms find_ready_in [OF assms] by (auto simp: round_start_def swarm_ok_def find_free_exact)
qed

section \<open>The whole round\<close>

text \<open>Either nothing was to be done, or there is a state after the placements from which the round's
  result is reached by failing tasks only.\<close>

lemma round_parts:
  assumes ok: "swarm_ok s" and run: "assign_round devops q answer s = (raised, s')"
  obtains (idle) "s' = s" "\<not> raised" "find_ready_tasks s = [] \<or> fst (find_free_agents s) = []"
  | (placed) r where "round_inv devops s (find_ready_tasks s) (fst (find_free_agents s)) r"
      and "only_fails (sw_graph (rd_swarm r)) (sw_graph s')" and "graph_inv (sw_graph s')"
      and "s' = (rd_swarm r)\<lparr>sw_graph := sw_graph s'\<rparr>"
      and "\<not> raised \<Longrightarrow> s' = fail_loop devops q (assigned_tasks r) (find_ready_tasks s) (rd_swarm r)"
      and "\<And>t a. \<not> raised \<Longrightarrow> t \<in> set (find_ready_tasks s) \<Longrightarrow> directed s t \<Longrightarrow>
        a \<in> set (fst (find_free_agents s)) \<Longrightarrow> eligible devops s t a \<Longrightarrow>
        task_id t \<in> set (assigned_tasks r) \<or> a \<in> set (used_agents r)"
proof -
  let ?ready = "find_ready_tasks s" and ?free = "fst (find_free_agents s)"
  note start = round_starts [OF ok]
  have run': "assign_tasks devops q answer ?ready ?free s = (raised, s')"
    using run find_free_exact [OF ok] by (simp add: assign_round_def Let_def)
  show thesis
  proof (cases "?free = [] \<or> ?ready = []")
    case True
    with run' show thesis by (intro idle) (auto simp: assign_tasks_def)
  next
    case False
    obtain up r where p: "assignment_passes devops answer ?ready ?free s = (up, r)" by fastforce
    have "(placing devops ?ready ?free)\<^sup>*\<^sup>* \<lparr>rd_swarm = s, used_agents = [], assigned_tasks = []\<rparr> r"
      using passes_placing [OF p] start by (simp add: round_start_def)
    note inv = placing_inv [OF start this round_inv_start [OF start]]
    show thesis
    proof (cases up)
      case True
      with p False run' have "raised" "s' = rd_swarm r" by (simp_all add: assign_tasks_def)
      with inv round_invD(1) [OF inv] show thesis using only_fails_refl by (intro placed [OF inv]) auto
    next
      case up: False
      let ?r = "guardrail_loop devops ?free ?ready r"
      have "(placing devops ?ready ?free)\<^sup>*\<^sup>* r ?r" by (rule guardrail_placing) simp
      note inv' = placing_inv [OF start this inv]
      from p False run' up have s': "\<not> raised" "s' = fail_loop devops q (assigned_tasks ?r) ?ready (rd_swarm ?r)"
        by (simp_all add: assign_tasks_def Let_def)
      note fl = fail_loop_step [OF round_invD(1) [OF inv'], of devops q "assigned_tasks ?r" ?ready]
      then have "s' = (rd_swarm ?r)\<lparr>sw_graph := sw_graph s'\<rparr>" unfolding s'(2) by fastforce
      with inv' fl s' guardrail_complete [OF start subset_refl inv] show thesis by (intro placed) auto
    qed
  qed
qed

section \<open>Properties\<close>

lemma new_swarm_ok:
  "graph_inv g \<Longrightarrow> dget (tasks g) [] = None \<Longrightarrow> [] \<notin> set ids \<Longrightarrow> distinct ids \<Longrightarrow> swarm_ok (new_swarm g ws ids)"
  by (simp add: swarm_ok_def new_swarm_def)

lemma round_keeps_swarm_ok:
  assumes ok: "swarm_ok s" and run: "assign_round devops q answer s = (raised, s')"
  shows "swarm_ok s'"
  using ok run
proof (cases rule: round_parts)
  case (placed r)
  have "dget (tasks (sw_graph (rd_swarm r))) [] = None"
  proof (cases "[] \<in> set (assigned_tasks r)")
    case True
    from round_invD(5) [OF placed(1) this] ok show ?thesis
      by (auto simp: placed_in_def find_ready_in [OF ok] swarm_ok_def)
  next
    case False
    with round_invD(4) [OF placed(1) this] ok show ?thesis by (simp add: swarm_ok_def)
  qed
  with only_failsD(3) [OF placed(2)] have "dget (tasks (sw_graph s')) [] = None" by metis
  moreover have "sw_agent_ids s' = sw_agent_ids s" "agent_last_placed s' = agent_last_placed (rd_swarm r)"
    "placement_ordinal s' = placement_ordinal (rd_swarm r)"
    using arg_cong [OF placed(4), of sw_agent_ids] arg_cong [OF placed(4), of agent_last_placed]
      arg_cong [OF placed(4), of placement_ordinal] round_invD(2) [OF placed(1)] by simp_all
  ultimately show ?thesis
    using ok placed(3) round_invD(9) [OF placed(1)] by (auto simp: swarm_ok_def)
qed (use ok in simp)

text \<open>A swarm with one frontend worker and one task, aimed at \<open>target\<close>.\<close>

definition demo_task :: "string \<Rightarrow> task" where
  "demo_task target = (default_task ''t'')\<lparr>title := ''t'', target_team := Some target\<rparr>"

definition demo_swarm :: "string \<Rightarrow> swarm" where
  "demo_swarm target =
     \<lparr>sw_graph = \<lparr>job_id = ''j'', tasks = [(''t'', demo_task target)], agent_to_task = [],
                  has_persist = False, revision = 1, persisted = []\<rparr>,
      sw_agent_ids = [''w''], agent_team_keys = [(''w'', ''frontend_v2'')],
      agent_last_placed = [], placement_ordinal = 0\<rparr>"

lemma demo_swarm_ok: "swarm_ok (demo_swarm target)"
proof -
  have "add_task ''t'' [] [] [] [] [] ''medium'' [] (Some target) (create_task_graph ''j'' False) =
      Inr (demo_task target, sw_graph (demo_swarm target))"
    by (simp add: add_task_def has_key_def create_task_graph_def maybe_persist_def put_task_def
        demo_task_def demo_swarm_def default_task_def Let_def)
  from add_task_inv [OF this create_graph_inv] have "graph_inv (sw_graph (demo_swarm target))" .
  then show ?thesis by (simp add: swarm_ok_def) (simp add: demo_swarm_def)
qed

lemma demo_ready: "demo_task target \<in> set (find_ready_tasks (demo_swarm target))"
  by (simp add: find_ready_in [OF demo_swarm_ok])
    (simp add: demo_swarm_def demo_task_def default_task_def dependencies_satisfied_def)

lemma demo_round:
  "assign_round False (\<lambda>s. s) JNull (demo_swarm ''ui'') = (False, snd (assign_round False (\<lambda>s. s) JNull (demo_swarm ''ui'')))"
  "dget (tasks (sw_graph (snd (assign_round False (\<lambda>s. s) JNull (demo_swarm ''ui''))))) ''t'' =
     Some (placed_version (demo_task ''ui'') ''w'')"
  "assign_round False (\<lambda>s. s) JNull (demo_swarm ''ops'') = (False, snd (assign_round False (\<lambda>s. s) JNull (demo_swarm ''ops'')))"
  by code_simp+

text \<open>C14. What a round may start: a task it finds in progress that was not so before was ready, and its
  agent was idle, serves the task's team, and is the one the task's branch is pinned to, if any.\<close>

theorem assignments_are_sound:
  assumes "swarm_ok s" and "assign_round devops q answer s = (raised, s')"
    and "dget (tasks (sw_graph s')) k = Some t'" and "status t' = IN_PROGRESS"
    and "dget (tasks (sw_graph s)) k \<noteq> Some t'"
  shows "\<exists>t a. dget (tasks (sw_graph s)) k = Some t \<and> status t = TO_DO \<and>
    dependencies_satisfied k (sw_graph s) \<and> t' = placed_version t a \<and>
    a \<in> set (sw_agent_ids s) \<and> dget (agent_to_task (sw_graph s)) a = None \<and>
    agent_matches devops s (target_team t) a \<and> (\<forall>b. pinned_agent_for s t = Some b \<longrightarrow> a = b)"
  using assms(1,2)
proof (cases rule: round_parts)
  case idle
  with assms(3,5) show ?thesis by simp
next
  case (placed r)
  from only_failsD(1) [OF placed(2) assms(3)] assms(4)
  have t': "dget (tasks (sw_graph (rd_swarm r))) k = Some t'" by simp
  with round_invD(4) [OF placed(1), of k] assms(5) have "k \<in> set (assigned_tasks r)" by auto
  from round_invD(5) [OF placed(1) this] t' show ?thesis
    using find_free_exact [OF assms(1)]
    by (auto simp: placed_in_def find_ready_in [OF assms(1)] eligible_def)
qed

theorem assignments_are_sound_witness:
  "\<exists>t a. dget (tasks (sw_graph (demo_swarm ''ui''))) ''t'' = Some t \<and> placed_version t a = placed_version (demo_task ''ui'') ''w''
     \<and> agent_matches False (demo_swarm ''ui'') (target_team t) a"
proof -
  have "dget (tasks (sw_graph (demo_swarm ''ui''))) ''t'' \<noteq> Some (placed_version (demo_task ''ui'') ''w'')"
    by code_simp
  moreover have "status (placed_version (demo_task ''ui'') ''w'') = IN_PROGRESS" by code_simp
  ultimately show ?thesis
    using assignments_are_sound [OF demo_swarm_ok demo_round(1,2)] by auto
qed

text \<open>No eligible task waits beside an idle agent: after a round that did not raise, a directed ready task
  was taken up, or every idle agent it could have gone to was placed during the round.\<close>

theorem no_task_waits_beside_idle_agent:
  assumes "swarm_ok s" and "assign_round devops q answer s = (False, s')"
    and "t \<in> set (find_ready_tasks s)" and "directed s t"
    and "a \<in> set (sw_agent_ids s)" and "dget (agent_to_task (sw_graph s)) a = None"
    and "eligible devops s t a"
  shows "(\<exists>u. dget (tasks (sw_graph s')) (task_id t) = Some u \<and> status u \<noteq> TO_DO) \<or>
    (\<exists>n. dget (agent_last_placed s') a = Some n \<and> placement_ordinal s \<le> n)"
proof -
  have free: "a \<in> set (fst (find_free_agents s))"
    using assms(5,6) find_free_exact [OF assms(1)] by simp
  show ?thesis
    using assms(1,2)
  proof (cases rule: round_parts)
    case idle
    with assms(3) free show ?thesis by auto
  next
    case (placed r)
    note last = arg_cong [OF placed(4), of agent_last_placed]
    from placed(6) [OF _ assms(3,4) free assms(7)]
    consider "task_id t \<in> set (assigned_tasks r)" | "a \<in> set (used_agents r)" by blast
    then show ?thesis
    proof cases
      case 1
      from round_invD(5) [OF placed(1) 1] obtain v where v:
        "dget (tasks (sw_graph (rd_swarm r))) (task_id t) = Some v" "status v = IN_PROGRESS"
        by (auto simp: placed_in_def placed_version_def)
      with only_failsD(3) [OF placed(2), of "task_id t"] obtain u
        where u: "dget (tasks (sw_graph s')) (task_id t) = Some u" by fastforce
      with v only_failsD(1) [OF placed(2) u] have "status u \<noteq> TO_DO" by (cases "status u = FAILED") auto
      with u show ?thesis by blast
    next
      case 2
      with round_invD(8) [OF placed(1) 2] last show ?thesis by simp
    qed
  qed
qed

theorem no_task_waits_beside_idle_agent_witness:
  "(\<exists>u. dget (tasks (sw_graph (snd (assign_round False (\<lambda>s. s) JNull (demo_swarm ''ui''))))) ''t'' = Some u \<and>
      status u \<noteq> TO_DO) \<or>
    (\<exists>n. dget (agent_last_placed (snd (assign_round False (\<lambda>s. s) JNull (demo_swarm ''ui'')))) ''w'' = Some n \<and> 0 \<le> n)"
proof -
  have "task_id (demo_task ''ui'') = ''t''" "placement_ordinal (demo_swarm ''ui'') = 0" by code_simp+
  moreover have "directed (demo_swarm ''ui'') (demo_task ''ui'')" "eligible False (demo_swarm ''ui'') (demo_task ''ui'') ''w''"
    by (simp add: directed_def demo_task_def)
      (simp add: eligible_def pinned_agent_for_def demo_task_def default_task_def, code_simp)
  moreover have "''w'' \<in> set (sw_agent_ids (demo_swarm ''ui''))"
    "dget (agent_to_task (sw_graph (demo_swarm ''ui''))) ''w'' = None"
    by (simp_all add: demo_swarm_def)
  ultimately show ?thesis
    using no_task_waits_beside_idle_agent [OF demo_swarm_ok demo_round(1) demo_ready] by simp
qed

text \<open>A ready task whose team no worker of the swarm serves is failed by the round, not left waiting.\<close>

theorem unservable_task_fails:
  assumes "swarm_ok s" and "assign_round devops q answer s = (False, s')"
    and "t \<in> set (find_ready_tasks s)" and "str_truthy (target_team t)"
    and "\<not> has_worker_for_target devops s (target_team t)" and "fst (find_free_agents s) \<noteq> []"
  shows "\<exists>u. dget (tasks (sw_graph s')) (task_id t) = Some u \<and> status u = FAILED"
  using assms(1,2)
proof (cases rule: round_parts)
  case idle
  with assms(3,6) show ?thesis by auto
next
  case (placed r)
  have none: "task_id t \<notin> set (assigned_tasks r)"
  proof
    assume "task_id t \<in> set (assigned_tasks r)"
    from round_invD(5) [OF placed(1) this] obtain u a where u: "u \<in> set (find_ready_tasks s)"
      "task_id u = task_id t" "a \<in> set (fst (find_free_agents s))" "eligible devops s u a"
      by (auto simp: placed_in_def)
    with assms(3) have "u = t" by (auto simp: find_ready_in [OF assms(1)])
    with u assms(4,5) show False
      using find_free_exact [OF assms(1)] by (auto simp: has_worker_for_target_def eligible_def list_ex_iff)
  qed
  from assms(3) have "dget (tasks (sw_graph s)) (task_id t) = Some t" by (simp add: find_ready_in [OF assms(1)])
  with round_invD(4) [OF placed(1) none] have here: "dget (tasks (sw_graph (rd_swarm r))) (task_id t) \<noteq> None"
    by simp
  have "agent_matches devops (rd_swarm r) = agent_matches devops s"
    by (rule agent_matches_cong [OF round_invD(3) [OF placed(1)]])
  with assms(5) round_invD(2) [OF placed(1)]
  have "\<not> has_worker_for_target devops (rd_swarm r) (target_team t)"
    by (simp add: has_worker_for_target_def)
  from fail_loop_fails [OF round_invD(1) [OF placed(1)] assms(3) none assms(4) this here, of q] placed(5)
  show ?thesis by simp
qed

theorem unservable_task_fails_witness:
  "\<exists>u. dget (tasks (sw_graph (snd (assign_round False (\<lambda>s. s) JNull (demo_swarm ''ops''))))) ''t'' = Some u \<and>
     status u = FAILED"
proof -
  have "task_id (demo_task ''ops'') = ''t''" "str_truthy (target_team (demo_task ''ops''))"
    "\<not> has_worker_for_target False (demo_swarm ''ops'') (target_team (demo_task ''ops''))"
    "fst (find_free_agents (demo_swarm ''ops'')) \<noteq> []"
    by code_simp+
  with unservable_task_fails [OF demo_swarm_ok demo_round(3) demo_ready] show ?thesis by simp
qed

text \<open>The same-stack path takes the least recently placed agents: no agent it passes over was placed
  longer ago than one it takes.\<close>

theorem homogeneous_takes_least_recent:
  assumes "try_homogeneous_target_assign devops ts as r = (True, r')" and "ts \<noteq> []" and "distinct as"
  shows "\<exists>chosen. r' = place_all (zip ts chosen) r \<and> length chosen = length ts \<and> distinct chosen \<and>
    set chosen \<subseteq> set as \<and>
    (\<forall>a \<in> set chosen. \<forall>b \<in> set as. agent_matches devops (rd_swarm r) (target_team (hd ts)) b \<longrightarrow>
       b \<notin> set chosen \<longrightarrow> last_rank (rd_swarm r) a \<le> last_rank (rd_swarm r) b)"
proof -
  let ?m = "matching_free_agents devops (rd_swarm r) (target_team (hd ts)) as"
  let ?order = "sort_key (last_rank (rd_swarm r)) ?m" and ?n = "length ts"
  from homogeneous_pairs [OF assms] obtain ps where ps: "r' = place_all ps r" "distinct (map snd ps)"
    "map fst ps = ts" "map snd ps = take ?n ?order" by metis
  then have zip: "ps = zip ts (take ?n ?order)" by (metis zip_map_fst_snd)
  have len: "length (take ?n ?order) = ?n" using ps(3,4) by (metis length_map)
  have "last_rank (rd_swarm r) a \<le> last_rank (rd_swarm r) b"
    if "a \<in> set (take ?n ?order)" and b: "b \<in> set ?m" "b \<notin> set (take ?n ?order)" for a b
  proof -
    from b have "b \<in> set (drop ?n ?order)"
      by (metis Un_iff append_take_drop_id set_append set_sort)
    moreover have "sorted (map (last_rank (rd_swarm r)) (take ?n ?order @ drop ?n ?order))" by simp
    ultimately show ?thesis using that(1) unfolding map_append sorted_append by auto
  qed
  moreover have "set (take ?n ?order) \<subseteq> set as"
    using set_take_subset [of ?n ?order] by (auto simp: matching_free_agents_def)
  moreover have "b \<in> set ?m" if "b \<in> set as" "agent_matches devops (rd_swarm r) (target_team (hd ts)) b" for b
    using that by (simp add: matching_free_agents_def)
  moreover have "distinct (take ?n ?order)" using ps(2,4) by simp
  moreover have "r' = place_all (zip ts (take ?n ?order)) r" using ps(1) zip by simp
  ultimately show ?thesis using len by (intro exI [of _ "take ?n ?order"]) blast
qed

theorem homogeneous_takes_least_recent_witness:
  "\<exists>chosen. snd (try_homogeneous_target_assign False [demo_task ''ui''] [''w'']
      \<lparr>rd_swarm = demo_swarm ''ui'', used_agents = [], assigned_tasks = []\<rparr>) =
    place_all (zip [demo_task ''ui''] chosen)
      \<lparr>rd_swarm = demo_swarm ''ui'', used_agents = [], assigned_tasks = []\<rparr> \<and> chosen = [''w'']"
proof -
  let ?h = "try_homogeneous_target_assign False [demo_task ''ui''] [''w'']
      \<lparr>rd_swarm = demo_swarm ''ui'', used_agents = [], assigned_tasks = []\<rparr>"
  have "fst ?h" by code_simp
  then have "?h = (True, snd ?h)" by (simp add: prod_eq_iff)
  from homogeneous_takes_least_recent [OF this] obtain chosen where
    c: "snd ?h = place_all (zip [demo_task ''ui''] chosen)
      \<lparr>rd_swarm = demo_swarm ''ui'', used_agents = [], assigned_tasks = []\<rparr>"
      "length chosen = 1" "set chosen \<subseteq> {''w''}" by auto
  from c(2,3) have "chosen = [''w'']" by (cases chosen) auto
  with c(1) show ?thesis by blast
qed

lemma proposal_loop_raises:
  "fst (proposal_loop devops ready free ps r) \<longleftrightarrow> (\<exists>p \<in> set ps. \<not> hashable (jget p ''task_id''))"
  by (induction ps arbitrary: r) auto

text \<open>When a round raises: the deterministic paths did not apply, and the Tech Lead's answer is no
  collection or holds a proposal whose task id is a list or a dictionary.\<close>

theorem round_raises_iff:
  "fst (assignment_passes devops answer ready free s) \<longleftrightarrow>
     \<not> fst (try_deterministic_assign devops ready free
              (reserve_pinned_tasks devops free ready \<lparr>rd_swarm = s, used_agents = [], assigned_tasks = []\<rparr>)) \<and>
     (run_assignments answer = None \<or>
      (\<exists>ps p. run_assignments answer = Some ps \<and> p \<in> set ps \<and> \<not> hashable (jget p ''task_id'')))"
  by (auto simp: assignment_passes_def Let_def case_prod_unfold proposal_loop_raises split: option.split)

end
