(* ===== verification/KeyedLocks.thy ===== *)
theory KeyedLocks
  imports Prelude
begin

text \<open>
  Per-key locks (\<^verbatim>\<open>backend/shared/concurrency/keyed_lock_manager.py\<close>): a call of \<open>lock(keys)\<close> orders its
  keys by the index each got when it was first seen and acquires them one by one, so that callers
  with overlapping keys cannot wait for each other in a circle.

  Any number of threads run against one manager. A step is what a thread does atomically: the
  reentrancy check, the resolution of one key under the registry lock, the order check, the
  acquisition of one key, entering the body, leaving it, releasing one key, returning. Taking a
  lock and noting its owner are one step, as are dropping both: only the owning thread reads its own
  entry. The calls a thread is inside are its stack of \<open>frame\<close>s, innermost first.
\<close>

section \<open>State\<close>

datatype 'k phase = Resolving "'k list" | Acquiring "'k list" | Body | Releasing "'k list"

record 'k frame =
  fr_keys :: "'k list"
  fr_prev :: int
  fr_acquired :: "'k list"
  fr_phase :: "'k phase"

record ('k, 't) manager =
  key_order :: "('k, int) pydict"
  next_order :: int
  lock_holder :: "('k, 't) pydict"
  lock_owners :: "('k, 't) pydict"
  max_order :: "('t, int) pydict"
  frames :: "'t \<Rightarrow> 'k frame list"

definition new_manager :: "('k, 't) manager" where
  "new_manager = \<lparr>key_order = [], next_order = 0, lock_holder = [], lock_owners = [], max_order = [],
                  frames = (\<lambda>_. [])\<rparr>"

datatype 'k lock_error = Reentrant 'k | OrderViolation 'k int int

text \<open>\<open>getattr(self._thread_state, "max_order", -1)\<close>.\<close>

definition thread_max :: "('k, 't) manager \<Rightarrow> 't \<Rightarrow> int" where
  "thread_max m t = (case dget (max_order m) t of Some n \<Rightarrow> n | None \<Rightarrow> -1)"

definition order_of :: "('k, 't) manager \<Rightarrow> 'k \<Rightarrow> int" where
  "order_of m k = (case dget (key_order m) k of Some n \<Rightarrow> n | None \<Rightarrow> -1)"

section \<open>The steps\<close>

text \<open>\<open>list(dict.fromkeys(keys))\<close>.\<close>

definition unique_keys :: "'k list \<Rightarrow> 'k list" where
  "unique_keys keys = rev (remdups (rev keys))"

definition resolve :: "'k \<Rightarrow> ('k, 't) manager \<Rightarrow> ('k, 't) manager" where
  "resolve k m =
     (case dget (key_order m) k of
        Some n \<Rightarrow> m
      | None \<Rightarrow> m\<lparr>key_order := dset (key_order m) k (next_order m), next_order := next_order m + 1\<rparr>)"

definition put_frames :: "'t \<Rightarrow> 'k frame list \<Rightarrow> ('k, 't) manager \<Rightarrow> ('k, 't) manager" where
  "put_frames t fs m = m\<lparr>frames := (frames m)(t := fs)\<rparr>"

text \<open>A thread may call \<open>lock\<close> outside any call or in the body of one.\<close>

definition in_user_code :: "'t \<Rightarrow> ('k, 't) manager \<Rightarrow> bool" where
  "in_user_code t m = (case frames m t of [] \<Rightarrow> True | f # fs \<Rightarrow> fr_phase f = Body)"

definition begin_lock :: "'t \<Rightarrow> 'k list \<Rightarrow> ('k, 't) manager \<Rightarrow> 'k lock_error + ('k, 't) manager" where
  "begin_lock t keys m =
     (case find (\<lambda>k. dget (lock_owners m) k = Some t) (unique_keys keys) of
        Some k \<Rightarrow> Inl (Reentrant k)
      | None \<Rightarrow> Inr (put_frames t
          (\<lparr>fr_keys = unique_keys keys, fr_prev = -1, fr_acquired = [], fr_phase = Resolving (unique_keys keys)\<rparr>
             # frames m t) m))"

text \<open>The order check. The frame of a call that raises is gone.\<close>

definition check_order ::
  "'t \<Rightarrow> 'k frame \<Rightarrow> 'k frame list \<Rightarrow> ('k, 't) manager \<Rightarrow> 'k lock_error option \<times> ('k, 't) manager" where
  "check_order t f fs m =
     (let prev = thread_max m t in
      case find (\<lambda>k. order_of m k \<le> prev) (fr_keys f) of
        Some k \<Rightarrow> (Some (OrderViolation k (order_of m k) prev), put_frames t fs m)
      | None \<Rightarrow> (None, put_frames t
          (f\<lparr>fr_prev := prev, fr_phase := Acquiring (sort_key (order_of m) (fr_keys f))\<rparr> # fs) m))"

definition take_lock :: "'t \<Rightarrow> 'k \<Rightarrow> ('k, 't) manager \<Rightarrow> ('k, 't) manager" where
  "take_lock t k m = m\<lparr>lock_holder := dset (lock_holder m) k t, lock_owners := dset (lock_owners m) k t\<rparr>"

definition drop_lock :: "'k \<Rightarrow> ('k, 't) manager \<Rightarrow> ('k, 't) manager" where
  "drop_lock k m = m\<lparr>lock_owners := ddel (lock_owners m) k, lock_holder := ddel (lock_holder m) k\<rparr>"

definition set_max :: "'t \<Rightarrow> int \<Rightarrow> ('k, 't) manager \<Rightarrow> ('k, 't) manager" where
  "set_max t n m = m\<lparr>max_order := dset (max_order m) t n\<rparr>"

text \<open>The next step of a thread inside \<open>lock\<close>: \<open>None\<close> when it has to wait for a lock, or is not inside.\<close>

definition advance :: "'t \<Rightarrow> ('k, 't) manager \<Rightarrow> ('k lock_error option \<times> ('k, 't) manager) option" where
  "advance t m =
     (case frames m t of
        [] \<Rightarrow> None
      | f # fs \<Rightarrow>
          (case fr_phase f of
             Resolving [] \<Rightarrow> Some (check_order t f fs m)
           | Resolving (k # ks) \<Rightarrow>
               Some (None, put_frames t (f\<lparr>fr_phase := Resolving ks\<rparr> # fs) (resolve k m))
           | Acquiring (k # ks) \<Rightarrow>
               if dget (lock_holder m) k \<noteq> None then None
               else Some (None, put_frames t
                      (f\<lparr>fr_acquired := fr_acquired f @ [k], fr_phase := Acquiring ks\<rparr> # fs) (take_lock t k m))
           | Acquiring [] \<Rightarrow>
               Some (None, put_frames t (f\<lparr>fr_phase := Body\<rparr> # fs)
                 (if fr_keys f = [] then m else set_max t (order_of m (last (fr_acquired f))) m))
           | Body \<Rightarrow> None
           | Releasing (k # ks) \<Rightarrow>
               Some (None, put_frames t (f\<lparr>fr_phase := Releasing ks\<rparr> # fs) (drop_lock k m))
           | Releasing [] \<Rightarrow> Some (None, put_frames t fs m)))"

text \<open>The \<open>finally\<close> clause, entered from the body or by an exception while acquiring.\<close>

definition leave_lock :: "'t \<Rightarrow> ('k, 't) manager \<Rightarrow> ('k, 't) manager" where
  "leave_lock t m =
     (case frames m t of
        [] \<Rightarrow> m
      | f # fs \<Rightarrow> put_frames t (f\<lparr>fr_phase := Releasing (rev (fr_acquired f))\<rparr> # fs) (set_max t (fr_prev f) m))"

definition may_leave :: "'t \<Rightarrow> ('k, 't) manager \<Rightarrow> bool" where
  "may_leave t m =
     (case frames m t of
        [] \<Rightarrow> False
      | f # fs \<Rightarrow> (case fr_phase f of Body \<Rightarrow> True | Acquiring ks \<Rightarrow> True | _ \<Rightarrow> False))"

inductive lock_step :: "'t \<Rightarrow> ('k, 't) manager \<Rightarrow> ('k, 't) manager \<Rightarrow> bool" where
  step_call: "in_user_code t m \<Longrightarrow> begin_lock t keys m = Inr m' \<Longrightarrow> lock_step t m m'"
| step_advance: "advance t m = Some (e, m') \<Longrightarrow> lock_step t m m'"
| step_leave: "may_leave t m \<Longrightarrow> lock_step t m (leave_lock t m)"

inductive_cases lock_stepE: "lock_step t m m'"

abbreviation lock_reachable :: "('k, 't) manager \<Rightarrow> bool" where
  "lock_reachable \<equiv> reachable (\<lambda>m. m = new_manager) (\<lambda>m m'. \<exists>t. lock_step t m m')"

section \<open>The invariant\<close>

definition known :: "('k, 't) manager \<Rightarrow> 'k set \<Rightarrow> bool" where
  "known m ks \<longleftrightarrow> (\<forall>k \<in> ks. dget (key_order m) k \<noteq> None)"

text \<open>Strictly ascending orders, all above \<open>lo\<close>.\<close>

definition rising :: "('k, 't) manager \<Rightarrow> int \<Rightarrow> 'k list \<Rightarrow> bool" where
  "rising m lo ks \<longleftrightarrow> sorted_wrt (<) (lo # map (order_of m) ks)"

text \<open>The highest order the bodies of a stack hold.\<close>

fun level :: "('k, 't) manager \<Rightarrow> 'k frame list \<Rightarrow> int" where
  "level m [] = -1"
| "level m (f # fs) = (if fr_acquired f = [] then level m fs else order_of m (last (fr_acquired f)))"

definition frame_ok :: "('k, 't) manager \<Rightarrow> int \<Rightarrow> 'k frame \<Rightarrow> bool" where
  "frame_ok m lo f \<longleftrightarrow>
     (case fr_phase f of
        Resolving ks \<Rightarrow> fr_acquired f = [] \<and> known m (set (fr_keys f) - set ks) \<and> distinct (fr_keys f)
      | Acquiring ks \<Rightarrow> fr_prev f = lo \<and> rising m lo (fr_acquired f @ ks) \<and>
          set (fr_acquired f @ ks) = set (fr_keys f) \<and> known m (set (fr_keys f))
      | Body \<Rightarrow> fr_prev f = lo \<and> rising m lo (fr_acquired f) \<and>
          set (fr_acquired f) = set (fr_keys f) \<and> known m (set (fr_keys f))
      | Releasing ks \<Rightarrow> fr_prev f = lo \<and> rising m lo (rev ks) \<and> known m (set ks))"

fun stack_ok :: "('k, 't) manager \<Rightarrow> 'k frame list \<Rightarrow> bool" where
  "stack_ok m [] = True"
| "stack_ok m (f # fs) = (stack_ok m fs \<and> (\<forall>g \<in> set fs. fr_phase g = Body) \<and> frame_ok m (level m fs) f)"

definition stack_max :: "('k, 't) manager \<Rightarrow> 'k frame list \<Rightarrow> int" where
  "stack_max m fs = (case fs of [] \<Rightarrow> -1 | f # gs \<Rightarrow> if fr_phase f = Body then level m fs else level m gs)"

text \<open>The keys a call holds.\<close>

definition held :: "'k frame \<Rightarrow> 'k set" where
  "held f = (case fr_phase f of Releasing ks \<Rightarrow> set ks | _ \<Rightarrow> set (fr_acquired f))"

definition holds :: "('k, 't) manager \<Rightarrow> 't \<Rightarrow> 'k set" where
  "holds m t = (\<Union>f \<in> set (frames m t). held f)"

definition manager_inv :: "('k, 't) manager \<Rightarrow> bool" where
  "manager_inv m \<longleftrightarrow>
     (\<forall>k n. dget (key_order m) k = Some n \<longrightarrow> 0 \<le> n \<and> n < next_order m) \<and> 0 \<le> next_order m \<and>
     (\<forall>j k n. dget (key_order m) j = Some n \<longrightarrow> dget (key_order m) k = Some n \<longrightarrow> j = k) \<and>
     (\<forall>t. stack_ok m (frames m t) \<and> thread_max m t = stack_max m (frames m t)) \<and>
     (\<forall>k t. dget (lock_holder m) k = Some t \<longleftrightarrow> k \<in> holds m t) \<and>
     (\<forall>k. dget (lock_owners m) k = dget (lock_holder m) k)"

end
