(* ===== verification/KeyedLockProps.thy ===== *)
theory KeyedLockProps
  imports KeyedLocks
begin

text \<open>
  Safety and liveness of the keyed locks, for any number of threads and any interleaving: the
  invariant of the manager, mutual exclusion of the bodies, what a thread holds outside every call,
  and that threads never wait for each other in a circle.
\<close>

section \<open>Frame lemmas\<close>

lemma order_of_cong: "key_order m = key_order m' \<Longrightarrow> order_of m = order_of m'"
  by (intro ext) (simp add: order_of_def)

lemma put_frames_simps [simp]:
  "key_order (put_frames t fs m) = key_order m" "next_order (put_frames t fs m) = next_order m"
  "lock_holder (put_frames t fs m) = lock_holder m" "lock_owners (put_frames t fs m) = lock_owners m"
  "max_order (put_frames t fs m) = max_order m" "frames (put_frames t fs m) = (frames m)(t := fs)"
  by (simp_all add: put_frames_def)

lemma lock_simps [simp]:
  "key_order (take_lock t k m) = key_order m" "next_order (take_lock t k m) = next_order m"
  "max_order (take_lock t k m) = max_order m" "frames (take_lock t k m) = frames m"
  "key_order (drop_lock k m) = key_order m" "next_order (drop_lock k m) = next_order m"
  "max_order (drop_lock k m) = max_order m" "frames (drop_lock k m) = frames m"
  "key_order (set_max t n m) = key_order m" "next_order (set_max t n m) = next_order m"
  "lock_holder (set_max t n m) = lock_holder m" "lock_owners (set_max t n m) = lock_owners m"
  "frames (set_max t n m) = frames m"
  by (simp_all add: take_lock_def drop_lock_def set_max_def)

lemma lock_table_simps [simp]:
  "dget (lock_holder (take_lock t k m)) j = (if j = k then Some t else dget (lock_holder m) j)"
  "dget (lock_owners (take_lock t k m)) j = (if j = k then Some t else dget (lock_owners m) j)"
  "dget (lock_holder (drop_lock k m)) j = (if j = k then None else dget (lock_holder m) j)"
  "dget (lock_owners (drop_lock k m)) j = (if j = k then None else dget (lock_owners m) j)"
  by (simp_all add: take_lock_def drop_lock_def)

lemma resolve_simps [simp]:
  "lock_holder (resolve k m) = lock_holder m" "lock_owners (resolve k m) = lock_owners m"
  "max_order (resolve k m) = max_order m" "frames (resolve k m) = frames m"
  by (simp_all add: resolve_def split: option.split)

lemma thread_max_simps [simp]:
  "thread_max (put_frames t fs m) = thread_max m" "thread_max (take_lock t k m) = thread_max m"
  "thread_max (drop_lock k m) = thread_max m" "thread_max (resolve k m) = thread_max m"
  "thread_max (set_max t n m) u = (if u = t then n else thread_max m u)"
  by (auto simp: thread_max_def set_max_def)

section \<open>Orders\<close>

text \<open>The order table only grows.\<close>

definition extends :: "('k, 't) manager \<Rightarrow> ('k, 't) manager \<Rightarrow> bool" where
  "extends m m' \<longleftrightarrow> (\<forall>k n. dget (key_order m) k = Some n \<longrightarrow> dget (key_order m') k = Some n)"

lemma extends_same: "key_order m = key_order m' \<Longrightarrow> extends m m'"
  by (simp add: extends_def)

lemma extends_known: "extends m m' \<Longrightarrow> known m ks \<Longrightarrow> known m' ks"
  by (fastforce simp: extends_def known_def)

lemma extends_order: "extends m m' \<Longrightarrow> known m ks \<Longrightarrow> k \<in> ks \<Longrightarrow> order_of m' k = order_of m k"
  by (fastforce simp: extends_def known_def order_of_def)

lemma known_mono: "known m ks \<Longrightarrow> js \<subseteq> ks \<Longrightarrow> known m js"
  by (auto simp: known_def)

lemma rising_Cons: "rising m lo (k # ks) \<longleftrightarrow> lo < order_of m k \<and> rising m (order_of m k) ks"
  by (auto simp: rising_def)

lemma rising_lower: "rising m lo ks \<Longrightarrow> k \<in> set ks \<Longrightarrow> lo < order_of m k"
  by (auto simp: rising_def)

lemma rising_append:
  "rising m lo (xs @ ys) \<longleftrightarrow> rising m lo xs \<and> rising m lo ys \<and>
     (\<forall>x \<in> set xs. \<forall>y \<in> set ys. order_of m x < order_of m y)"
  by (auto simp: rising_def sorted_wrt_append)

lemma rising_last: "rising m lo ks \<Longrightarrow> k \<in> set ks \<Longrightarrow> order_of m k \<le> order_of m (last ks)"
  by (cases ks rule: rev_cases) (auto simp: rising_append)

lemma rising_extends:
  assumes "extends m m'" and "known m (set ks)"
  shows "rising m' lo ks = rising m lo ks"
proof -
  have "map (order_of m') ks = map (order_of m) ks" using extends_order [OF assms] by simp
  then show ?thesis by (simp only: rising_def)
qed

lemma body_known: "frame_ok m lo f \<Longrightarrow> fr_phase f = Body \<Longrightarrow> known m (set (fr_acquired f))"
  by (auto simp: frame_ok_def)

lemma level_extends:
  assumes "extends m m'"
  shows "stack_ok m fs \<Longrightarrow> \<forall>g \<in> set fs. fr_phase g = Body \<Longrightarrow> level m' fs = level m fs"
proof (induction fs)
  case (Cons f fs)
  then have "known m (set (fr_acquired f))" using body_known by auto
  with Cons extends_order [OF assms] show ?case by auto
qed simp

lemma frame_ok_extends:
  assumes "extends m m'" and "frame_ok m lo f"
  shows "frame_ok m' lo f"
  using assms extends_known [OF assms(1)] rising_extends [OF assms(1)] known_mono [of m "set (fr_keys f)"]
  by (cases "fr_phase f") (auto simp: frame_ok_def)

lemma stack_ok_extends: "extends m m' \<Longrightarrow> stack_ok m fs \<Longrightarrow> stack_ok m' fs"
  by (induction fs) (auto simp: level_extends frame_ok_extends)

lemma stack_max_extends:
  assumes "extends m m'" and "stack_ok m fs"
  shows "stack_max m' fs = stack_max m fs"
proof (cases fs)
  case (Cons f gs)
  with assms have "level m' gs = level m gs" by (auto intro: level_extends)
  moreover have "fr_phase f = Body \<Longrightarrow> level m' fs = level m fs"
    using assms Cons by (intro level_extends) auto
  ultimately show ?thesis using Cons by (simp add: stack_max_def del: level.simps)
qed (simp add: stack_max_def)

lemma stack_max_bodies: "\<forall>g \<in> set fs. fr_phase g = Body \<Longrightarrow> stack_max m fs = level m fs"
  by (cases fs) (auto simp: stack_max_def)

text \<open>Everything a stack of bodies holds lies at or below its level.\<close>

lemma held_below_level:
  "stack_ok m fs \<Longrightarrow> \<forall>g \<in> set fs. fr_phase g = Body \<Longrightarrow> f \<in> set fs \<Longrightarrow> k \<in> held f \<Longrightarrow> order_of m k \<le> level m fs"
proof (induction fs)
  case (Cons g fs)
  from Cons.prems have g: "frame_ok m (level m fs) g" "fr_phase g = Body" by auto
  then have r: "rising m (level m fs) (fr_acquired g)" by (simp add: frame_ok_def)
  show ?case
  proof (cases "f = g")
    case True
    with g Cons.prems(4) have "k \<in> set (fr_acquired g)" by (simp add: held_def)
    with rising_last [OF r this] show ?thesis by auto
  next
    case False
    with Cons have le: "order_of m k \<le> level m fs" by auto
    moreover have "level m fs < order_of m (last (fr_acquired g))" if "fr_acquired g \<noteq> []"
      using rising_lower [OF r] last_in_set [OF that] by blast
    ultimately show ?thesis by auto
  qed
qed simp

section \<open>Every step keeps the invariant\<close>

lemma manager_invD:
  assumes "manager_inv m"
  shows "dget (key_order m) k = Some n \<Longrightarrow> 0 \<le> n \<and> n < next_order m"
    "0 \<le> next_order m"
    "dget (key_order m) j = Some n \<Longrightarrow> dget (key_order m) k = Some n \<Longrightarrow> j = k"
    "stack_ok m (frames m t)" "thread_max m t = stack_max m (frames m t)"
    "dget (lock_holder m) k = Some t \<longleftrightarrow> k \<in> holds m t"
    "dget (lock_owners m) k = dget (lock_holder m) k"
  using assms unfolding manager_inv_def by blast+

text \<open>A step of one thread: the others' stacks and locks are as they were.\<close>

lemma manager_inv_step:
  assumes inv: "manager_inv m" and ex: "extends m m'"
    and tab: "\<And>k n. dget (key_order m') k = Some n \<Longrightarrow> 0 \<le> n \<and> n < next_order m'" "0 \<le> next_order m'"
      "\<And>j k n. dget (key_order m') j = Some n \<Longrightarrow> dget (key_order m') k = Some n \<Longrightarrow> j = k"
    and fr: "frames m' = (frames m)(t := fs)" and ok: "stack_ok m' fs"
    and mx: "thread_max m' t = stack_max m' fs" "\<And>u. u \<noteq> t \<Longrightarrow> thread_max m' u = thread_max m u"
    and lk: "\<And>k. dget (lock_holder m') k = Some t \<longleftrightarrow> k \<in> (\<Union>f \<in> set fs. held f)"
      "\<And>k u. u \<noteq> t \<Longrightarrow> dget (lock_holder m') k = Some u \<longleftrightarrow> dget (lock_holder m) k = Some u"
      "\<And>k. dget (lock_owners m') k = dget (lock_holder m') k"
  shows "manager_inv m'"
proof -
  have "stack_ok m' (frames m' u) \<and> thread_max m' u = stack_max m' (frames m' u)" for u
  proof (cases "u = t")
    case True
    with fr ok mx(1) show ?thesis by simp
  next
    case False
    with fr mx(2) [OF False] manager_invD(4,5) [OF inv, of u] stack_ok_extends [OF ex] stack_max_extends [OF ex]
    show ?thesis by simp
  qed
  moreover have "dget (lock_holder m') k = Some u \<longleftrightarrow> k \<in> holds m' u" for k u
    using lk(1) lk(2) [of u k] manager_invD(6) [OF inv, of k u] fr by (cases "u = t") (auto simp: holds_def)
  ultimately show ?thesis
    unfolding manager_inv_def using tab lk(3) by blast
qed

text \<open>The common case: the order table stays.\<close>

lemma manager_inv_local:
  assumes "manager_inv m" and "key_order m' = key_order m" and "next_order m' = next_order m"
    and "frames m' = (frames m)(t := fs)" and "stack_ok m fs"
    and "thread_max m' t = stack_max m fs" and "\<And>u. u \<noteq> t \<Longrightarrow> thread_max m' u = thread_max m u"
    and "\<And>k. dget (lock_holder m') k = Some t \<longleftrightarrow> k \<in> (\<Union>f \<in> set fs. held f)"
    and "\<And>k u. u \<noteq> t \<Longrightarrow> dget (lock_holder m') k = Some u \<longleftrightarrow> dget (lock_holder m) k = Some u"
    and "\<And>k. dget (lock_owners m') k = dget (lock_holder m') k"
  shows "manager_inv m'"
proof -
  have ex: "extends m m'" using assms(2) by (simp add: extends_same)
  show ?thesis
    by (rule manager_inv_step [OF assms(1) ex _ _ _ assms(4) stack_ok_extends [OF ex assms(5)] _ assms(7-10)])
      (use assms(2,3,6) manager_invD(1-3) [OF assms(1)] stack_max_extends [OF ex assms(5)] in auto)
qed

lemma holds_top:
  "frames m t = f # fs \<Longrightarrow> manager_inv m \<Longrightarrow>
     dget (lock_holder m) k = Some t \<longleftrightarrow> k \<in> held f \<or> k \<in> (\<Union>g \<in> set fs. held g)"
  using manager_invD(6) [of m k t] by (simp add: holds_def)

lemma top_frame:
  assumes "manager_inv m" and "frames m t = f # fs"
  shows "stack_ok m fs" "\<forall>g \<in> set fs. fr_phase g = Body" "frame_ok m (level m fs) f"
    "thread_max m t = (if fr_phase f = Body then level m (f # fs) else level m fs)"
    "stack_max m fs = level m fs"
  using manager_invD(4,5) [OF assms(1), of t] assms(2) stack_max_bodies [of fs m]
  by (simp_all add: stack_max_def)

lemma begin_lock_inv:
  assumes inv: "manager_inv m" and user: "in_user_code t m" and b: "begin_lock t keys m = Inr m'"
  shows "manager_inv m'"
proof -
  let ?u = "unique_keys keys"
  let ?f = "\<lparr>fr_keys = ?u, fr_prev = -1, fr_acquired = [], fr_phase = Resolving ?u\<rparr>"
  from b have m': "m' = put_frames t (?f # frames m t) m" by (auto simp: begin_lock_def split: option.splits)
  have bodies: "\<forall>g \<in> set (frames m t). fr_phase g = Body"
    using user manager_invD(4) [OF inv, of t] by (auto simp: in_user_code_def split: list.splits)
  have "distinct ?u" by (simp add: unique_keys_def)
  with bodies manager_invD(4) [OF inv, of t] have ok: "stack_ok m (?f # frames m t)"
    by (simp add: frame_ok_def known_def)
  have "thread_max m t = level m (frames m t)"
    using manager_invD(5) [OF inv, of t] stack_max_bodies [OF bodies] by simp
  then have mx: "thread_max m' t = stack_max m (?f # frames m t)" by (simp add: m' stack_max_def)
  have lk: "dget (lock_holder m') k = Some t \<longleftrightarrow> k \<in> (\<Union>f \<in> set (?f # frames m t). held f)" for k
    using manager_invD(6) [OF inv, of k t] by (simp add: m' holds_def held_def)
  show ?thesis
    by (rule manager_inv_local [OF inv _ _ _ ok mx _ lk]) (simp_all add: m' manager_invD(7) [OF inv])
qed

lemma order_of_inj:
  assumes inv: "manager_inv m" and kn: "known m ks"
  shows "inj_on (order_of m) ks"
proof (rule inj_onI)
  fix j k assume "j \<in> ks" "k \<in> ks" and e: "order_of m j = order_of m k"
  with kn obtain a b where "dget (key_order m) j = Some a" "dget (key_order m) k = Some b"
    unfolding known_def by blast
  with e manager_invD(3) [OF inv, of j a k] show "j = k" by (simp add: order_of_def)
qed

lemma check_order_inv:
  assumes inv: "manager_inv m" and fr: "frames m t = f # fs" and ph: "fr_phase f = Resolving []"
  shows "manager_inv (snd (check_order t f fs m))"
proof -
  note top = top_frame [OF inv fr]
  have mx: "thread_max m t = level m fs" using top(4) ph by simp
  have f: "fr_acquired f = []" "known m (set (fr_keys f))" "distinct (fr_keys f)"
    using top(3) ph by (auto simp: frame_ok_def)
  have lk: "dget (lock_holder m) k = Some t \<longleftrightarrow> k \<in> (\<Union>g \<in> set fs. held g)" for k
    using holds_top [OF fr inv, of k] f(1) ph by (simp add: held_def)
  show ?thesis
  proof (cases "find (\<lambda>k. order_of m k \<le> thread_max m t) (fr_keys f)")
    case (Some k)
    then show ?thesis
      using lk top manager_invD(7) [OF inv] mx
      by (intro manager_inv_local [OF inv, of _ t fs]) (auto simp: check_order_def)
  next
    case None
    let ?f = "f\<lparr>fr_prev := thread_max m t, fr_phase := Acquiring (sort_key (order_of m) (fr_keys f))\<rparr>"
    from None have above: "\<forall>k \<in> set (fr_keys f). level m fs < order_of m k"
      by (auto simp: find_None_iff mx)
    have "inj_on (order_of m) (set (fr_keys f))"
      by (rule order_of_inj [OF inv f(2)])
    then have "distinct (map (order_of m) (sort_key (order_of m) (fr_keys f)))"
      using f(3) by (simp add: distinct_map)
    then have "sorted_wrt (<) (map (order_of m) (sort_key (order_of m) (fr_keys f)))"
      by (simp add: strict_sorted_iff)
    with above have "rising m (level m fs) (sort_key (order_of m) (fr_keys f))" by (simp add: rising_def)
    with f top mx have "stack_ok m (?f # fs)" by (simp add: frame_ok_def)
    then show ?thesis
      using lk top manager_invD(7) [OF inv] mx f(1) None
      by (intro manager_inv_local [OF inv, of _ t "?f # fs"])
        (auto simp: check_order_def stack_max_def held_def)
  qed
qed

lemma resolve_extends: "extends m (resolve k m)"
  by (auto simp: extends_def resolve_def split: option.split)

lemma resolve_known: "known (resolve k m) {k}"
  by (auto simp: known_def resolve_def split: option.split)

lemma resolve_inv:
  assumes inv: "manager_inv m" and fr: "frames m t = f # fs" and ph: "fr_phase f = Resolving (k # ks)"
  shows "manager_inv (put_frames t (f\<lparr>fr_phase := Resolving ks\<rparr> # fs) (resolve k m))"
proof -
  let ?f = "f\<lparr>fr_phase := Resolving ks\<rparr>" and ?m = "put_frames t (f\<lparr>fr_phase := Resolving ks\<rparr> # fs) (resolve k m)"
  note top = top_frame [OF inv fr]
  have ex: "extends m ?m" using resolve_extends [of m k] by (simp add: extends_def)
  have "known ?m (set (fr_keys f) - set (k # ks))"
    using extends_known [OF ex] top(3) ph by (simp add: frame_ok_def)
  moreover have "known ?m {k}" using resolve_known [of k m] by (simp add: known_def)
  ultimately have "known ?m (set (fr_keys f) - set ks)" by (auto simp: known_def)
  with top ph stack_ok_extends [OF ex top(1)] have ok: "stack_ok ?m (?f # fs)"
    by (simp add: frame_ok_def)
  show ?thesis
  proof (rule manager_inv_step [OF inv ex _ _ _ _ ok])
    show "dget (key_order ?m) j = Some n \<Longrightarrow> 0 \<le> n \<and> n < next_order ?m" for j n
      using manager_invD(1,2) [OF inv] by (fastforce simp: resolve_def split: option.splits if_splits)
    show "0 \<le> next_order ?m" using manager_invD(2) [OF inv] by (simp add: resolve_def split: option.split)
    show "dget (key_order ?m) i = Some n \<Longrightarrow> dget (key_order ?m) j = Some n \<Longrightarrow> i = j" for i j n
      using manager_invD(1,3) [OF inv] by (fastforce simp: resolve_def split: option.splits if_splits)
    show "thread_max ?m t = stack_max ?m (?f # fs)"
      using top ph level_extends [OF ex top(1,2)] by (simp add: stack_max_def)
    show "dget (lock_holder ?m) j = Some t \<longleftrightarrow> j \<in> (\<Union>g \<in> set (?f # fs). held g)" for j
      using holds_top [OF fr inv, of j] ph by (simp add: held_def)
  qed (simp_all add: manager_invD(7) [OF inv])
qed

lemma take_lock_inv:
  assumes inv: "manager_inv m" and fr: "frames m t = f # fs" and ph: "fr_phase f = Acquiring (k # ks)"
    and free: "dget (lock_holder m) k = None"
  shows "manager_inv (put_frames t (f\<lparr>fr_acquired := fr_acquired f @ [k], fr_phase := Acquiring ks\<rparr> # fs)
    (take_lock t k m))"
proof -
  let ?f = "f\<lparr>fr_acquired := fr_acquired f @ [k], fr_phase := Acquiring ks\<rparr>"
  note top = top_frame [OF inv fr]
  have "stack_ok m (?f # fs)" using top ph by (simp add: frame_ok_def)
  then show ?thesis
    using holds_top [OF fr inv] manager_invD(7) [OF inv] top ph free
    by (intro manager_inv_local [OF inv, of _ t "?f # fs"])
      (auto simp: stack_max_def held_def)
qed

lemma enter_inv:
  assumes inv: "manager_inv m" and fr: "frames m t = f # fs" and ph: "fr_phase f = Acquiring []"
  shows "manager_inv (put_frames t (f\<lparr>fr_phase := Body\<rparr> # fs)
    (if fr_keys f = [] then m else set_max t (order_of m (last (fr_acquired f))) m))"
proof -
  let ?f = "f\<lparr>fr_phase := Body\<rparr>"
  note top = top_frame [OF inv fr]
  have "set (fr_acquired f) = set (fr_keys f)" using top(3) ph by (simp add: frame_ok_def)
  then have e: "fr_acquired f = [] \<longleftrightarrow> fr_keys f = []" by auto
  have "stack_ok m (?f # fs)" using top ph by (simp add: frame_ok_def)
  then show ?thesis
    using holds_top [OF fr inv] manager_invD(7) [OF inv] top(4) ph e
    by (intro manager_inv_local [OF inv, of _ t "?f # fs"])
      (auto simp: stack_max_def held_def)
qed

lemma drop_lock_inv:
  assumes inv: "manager_inv m" and fr: "frames m t = f # fs" and ph: "fr_phase f = Releasing (k # ks)"
  shows "manager_inv (put_frames t (f\<lparr>fr_phase := Releasing ks\<rparr> # fs) (drop_lock k m))"
proof -
  let ?f = "f\<lparr>fr_phase := Releasing ks\<rparr>"
  note top = top_frame [OF inv fr]
  have r: "rising m (level m fs) (rev ks @ [k])" "known m (set (k # ks))" "fr_prev f = level m fs"
    using top(3) ph by (simp_all add: frame_ok_def)
  then have k: "level m fs < order_of m k" "k \<notin> set ks"
    by (auto simp: rising_append rising_Cons)
  have below: "k \<notin> (\<Union>g \<in> set fs. held g)"
    using held_below_level [OF top(1,2)] k(1) by fastforce
  have mine: "dget (lock_holder m) k = Some t" using holds_top [OF fr inv, of k] ph by (simp add: held_def)
  then have other: "u \<noteq> t \<Longrightarrow> dget (lock_holder m) k \<noteq> Some u" for u by simp
  have "stack_ok m (?f # fs)" using top r known_mono [of m "set (k # ks)" "set ks"]
    by (auto simp: frame_ok_def rising_append)
  then show ?thesis
    using holds_top [OF fr inv] manager_invD(7) [OF inv] top(4) ph k(2) below other
    by (intro manager_inv_local [OF inv, of _ t "?f # fs"])
      (auto simp: stack_max_def held_def)
qed

lemma leave_lock_inv:
  assumes inv: "manager_inv m" and may: "may_leave t m"
  shows "manager_inv (leave_lock t m)"
proof -
  from may obtain f fs where fr: "frames m t = f # fs"
    and ph: "fr_phase f = Body \<or> (\<exists>ks. fr_phase f = Acquiring ks)"
    by (auto simp: may_leave_def split: list.splits phase.splits)
  let ?f = "f\<lparr>fr_phase := Releasing (rev (fr_acquired f))\<rparr>"
  note top = top_frame [OF inv fr]
  have f: "fr_prev f = level m fs" "rising m (level m fs) (fr_acquired f)"
    "set (fr_acquired f) \<subseteq> set (fr_keys f)" "known m (set (fr_keys f))"
    using top(3) ph by (auto simp: frame_ok_def rising_append)
  then have "stack_ok m (?f # fs)" using top known_mono [OF f(4,3)] by (simp add: frame_ok_def)
  then show ?thesis
    using holds_top [OF fr inv] manager_invD(7) [OF inv] f(1) ph top(1,2)
    by (intro manager_inv_local [OF inv, of _ t "?f # fs"])
      (auto simp: stack_max_def held_def leave_lock_def fr)
qed

lemma return_inv:
  assumes inv: "manager_inv m" and fr: "frames m t = f # fs" and ph: "fr_phase f = Releasing []"
  shows "manager_inv (put_frames t fs m)"
  using holds_top [OF fr inv] manager_invD(7) [OF inv] top_frame [OF inv fr] ph
  by (intro manager_inv_local [OF inv, of _ t fs]) (auto simp: held_def)

lemma advance_inv:
  assumes inv: "manager_inv m" and adv: "advance t m = Some (e, m')"
  shows "manager_inv m'"
proof -
  from adv obtain f fs where fr: "frames m t = f # fs" by (auto simp: advance_def split: list.splits)
  show ?thesis
  proof (cases "fr_phase f")
    case (Resolving ks)
    with adv fr check_order_inv [OF inv fr] resolve_inv [OF inv fr] show ?thesis
      by (cases ks) (auto simp: advance_def)
  next
    case (Acquiring ks)
    with adv fr enter_inv [OF inv fr] take_lock_inv [OF inv fr] show ?thesis
      by (cases ks) (auto simp: advance_def split: if_splits)
  next
    case Body
    with adv fr show ?thesis by (simp add: advance_def)
  next
    case (Releasing ks)
    with adv fr drop_lock_inv [OF inv fr] return_inv [OF inv fr] show ?thesis
      by (cases ks) (auto simp: advance_def)
  qed
qed

lemma new_manager_inv: "manager_inv new_manager"
  by (simp add: manager_inv_def new_manager_def thread_max_def stack_max_def holds_def)

interpretation locks: invariant_system
  "\<lambda>m. m = (new_manager :: ('k, 't) manager)" "\<lambda>m m'. \<exists>t. lock_step t m m'" manager_inv
  by unfold_locales
    (auto simp: new_manager_inv elim!: lock_stepE intro: begin_lock_inv advance_inv leave_lock_inv)

section \<open>Properties\<close>

text \<open>A thread in the body of a call for some key.\<close>

definition in_body_for :: "('k, 't) manager \<Rightarrow> 't \<Rightarrow> 'k \<Rightarrow> bool" where
  "in_body_for m t k \<longleftrightarrow> (\<exists>f \<in> set (frames m t). fr_phase f = Body \<and> k \<in> set (fr_keys f))"

lemma frame_in_stack:
  "stack_ok m fs \<Longrightarrow> f \<in> set fs \<Longrightarrow> \<exists>lo. frame_ok m lo f"
  by (induction fs) auto

lemma body_holds:
  assumes "manager_inv m" and "in_body_for m t k"
  shows "dget (lock_holder m) k = Some t"
proof -
  from assms(2) obtain f where f: "f \<in> set (frames m t)" "fr_phase f = Body" "k \<in> set (fr_keys f)"
    by (auto simp: in_body_for_def)
  with frame_in_stack [OF manager_invD(4) [OF assms(1)] f(1)] have "k \<in> held f"
    by (auto simp: frame_ok_def held_def)
  with f(1) have "k \<in> holds m t" by (auto simp: holds_def)
  with manager_invD(6) [OF assms(1)] show ?thesis by blast
qed

text \<open>C16. No two threads are in bodies of calls that share a key, and a thread outside every call holds
  nothing and has its order bound back at the start.\<close>

theorem bodies_exclude_each_other:
  assumes "lock_reachable m"
  shows "(in_body_for m t k \<and> in_body_for m u k \<longrightarrow> t = u) \<and>
    (frames m t = [] \<longrightarrow> holds m t = {} \<and> thread_max m t = -1)"
proof -
  have inv: "manager_inv m" by (rule locks.reachable_inv [OF assms])
  have "t = u" if "in_body_for m t k" "in_body_for m u k"
    using body_holds [OF inv that(1)] body_holds [OF inv that(2)] by simp
  moreover have "holds m t = {} \<and> thread_max m t = -1" if "frames m t = []"
    using manager_invD(5) [OF inv, of t] that by (simp add: holds_def stack_max_def)
  ultimately show ?thesis by blast
qed

text \<open>Waiting: the next lock a thread needs is held by another.\<close>

definition waits_for :: "('k, 't) manager \<Rightarrow> 't \<Rightarrow> 'k \<Rightarrow> 't \<Rightarrow> bool" where
  "waits_for m t k u \<longleftrightarrow>
     (\<exists>f fs ks. frames m t = f # fs \<and> fr_phase f = Acquiring (k # ks) \<and> dget (lock_holder m) k = Some u)"

lemma waiting_above_held:
  assumes inv: "manager_inv m" and w: "waits_for m t k u" and h: "j \<in> holds m t"
  shows "order_of m j < order_of m k"
proof -
  from w obtain f fs ks where fr: "frames m t = f # fs" and ph: "fr_phase f = Acquiring (k # ks)"
    by (auto simp: waits_for_def)
  note top = top_frame [OF inv fr]
  from top(3) ph have r: "rising m (level m fs) (fr_acquired f @ k # ks)" by (simp add: frame_ok_def)
  from h fr ph consider "j \<in> set (fr_acquired f)" | g where "g \<in> set fs" "j \<in> held g"
    by (auto simp: holds_def held_def)
  then show ?thesis
  proof cases
    case 1
    with r show ?thesis by (simp add: rising_append)
  next
    case 2
    have "order_of m j \<le> level m fs" by (rule held_below_level [OF top(1,2) 2])
    moreover have "level m fs < order_of m k" using rising_lower [OF r, of k] by simp
    ultimately show ?thesis by simp
  qed
qed

lemma waiting_known:
  assumes inv: "manager_inv m" and w: "waits_for m t k u"
  shows "0 \<le> order_of m k \<and> order_of m k < next_order m"
proof -
  from w obtain f fs ks where fr: "frames m t = f # fs" and ph: "fr_phase f = Acquiring (k # ks)"
    by (auto simp: waits_for_def)
  from top_frame(3) [OF inv fr] ph have "known m (set (fr_keys f))" "k \<in> set (fr_keys f)"
    by (auto simp: frame_ok_def)
  then obtain n where "dget (key_order m) k = Some n" by (auto simp: known_def)
  with manager_invD(1) [OF inv this] show ?thesis by (simp add: order_of_def)
qed

text \<open>A thread inside a call that can take its next step, without being interrupted.\<close>

definition proceeds :: "('k, 't) manager \<Rightarrow> 't \<Rightarrow> bool" where
  "proceeds m t \<longleftrightarrow> advance t m \<noteq> None \<or> (frames m t \<noteq> [] \<and> in_user_code t m)"

definition wait_graph :: "('k, 't) manager \<Rightarrow> ('t \<times> 't) set" where
  "wait_graph m = {(t, u). \<exists>k. waits_for m t k u}"

lemma not_waiting_proceeds:
  assumes "\<nexists>k u. waits_for m t k u" and "frames m t \<noteq> []"
  shows "proceeds m t"
proof -
  from assms(2) obtain f fs where fr: "frames m t = f # fs" by (cases "frames m t") auto
  show ?thesis
  proof (cases "fr_phase f")
    case (Resolving ks)
    with fr show ?thesis by (cases ks) (simp_all add: proceeds_def advance_def)
  next
    case (Acquiring ks)
    with fr assms(1) show ?thesis by (cases ks) (auto simp: proceeds_def advance_def waits_for_def)
  next
    case Body
    with fr show ?thesis by (simp add: proceeds_def in_user_code_def)
  next
    case (Releasing ks)
    with fr show ?thesis by (cases ks) (simp_all add: proceeds_def advance_def)
  qed
qed

lemma holder_holds: "manager_inv m \<Longrightarrow> waits_for m t k u \<Longrightarrow> k \<in> holds m u"
  using manager_invD(6) [of m k u] by (auto simp: waits_for_def)

lemma chain_ends:
  assumes inv: "manager_inv m" and "waits_for m t k u"
  shows "\<exists>v. (t, v) \<in> (wait_graph m)\<^sup>+ \<and> proceeds m v"
  using assms(2)
proof (induction "nat (next_order m - order_of m k)" arbitrary: t k u rule: less_induct)
  case less
  have h: "k \<in> holds m u" by (rule holder_holds [OF inv less.prems])
  have edge: "(t, u) \<in> (wait_graph m)\<^sup>+" using less.prems by (auto simp: wait_graph_def)
  show ?case
  proof (cases "\<exists>k' v. waits_for m u k' v")
    case True
    then obtain k' v where w: "waits_for m u k' v" by blast
    have "nat (next_order m - order_of m k') < nat (next_order m - order_of m k)"
      using waiting_above_held [OF inv w h] waiting_known [OF inv w] by simp
    from less.hyps [OF this w] edge show ?thesis by (meson trancl_trans)
  next
    case False
    have "frames m u \<noteq> []" using h by (auto simp: holds_def)
    with not_waiting_proceeds [of m u] False edge show ?thesis by blast
  qed
qed

lemma chain_rises:
  assumes inv: "manager_inv m" and "(t, v) \<in> (wait_graph m)\<^sup>+"
  shows "\<exists>k u j. waits_for m t k u \<and> j \<in> holds m v \<and> order_of m k \<le> order_of m j"
  using assms(2)
proof (induction rule: trancl_induct)
  case (base u)
  then show ?case using holder_holds [OF inv] by (fastforce simp: wait_graph_def)
next
  case (step v w)
  then obtain k u j k' where "waits_for m t k u" "order_of m k \<le> order_of m j"
    and v: "j \<in> holds m v" "waits_for m v k' w"
    by (auto simp: wait_graph_def)
  moreover have "order_of m j < order_of m k'" by (rule waiting_above_held [OF inv v(2,1)])
  ultimately show ?case using holder_holds [OF inv v(2)] by (metis order_trans less_imp_le)
qed

text \<open>C15. Threads never wait in a circle. A thread inside \<open>lock\<close> can take its next step, or is in its body, or
  waits for a lock, and then the chain of holders it waits for ends in a thread that can take its next step
  or is in its body. (What the bodies do is not the manager's: a body that never ends blocks its waiters.)\<close>

theorem no_circular_wait:
  assumes "lock_reachable m"
  shows "(t, t) \<notin> (wait_graph m)\<^sup>+ \<and> (waits_for m t k u \<longrightarrow> (\<exists>v. (t, v) \<in> (wait_graph m)\<^sup>+ \<and> proceeds m v)) \<and>
    (frames m t \<noteq> [] \<longrightarrow> proceeds m t \<or> (\<exists>k u. waits_for m t k u))"
proof -
  have inv: "manager_inv m" by (rule locks.reachable_inv [OF assms])
  have "(t, t) \<notin> (wait_graph m)\<^sup>+"
    using chain_rises [OF inv, of t t] waiting_above_held [OF inv] by (metis not_le)
  with chain_ends [OF inv] not_waiting_proceeds [of m t] show ?thesis by blast
qed

fun run_advance :: "'t \<Rightarrow> nat \<Rightarrow> ('k, 't) manager \<Rightarrow> ('k, 't) manager option" where
  "run_advance t 0 m = Some m"
| "run_advance t (Suc n) m = (case advance t m of None \<Rightarrow> None | Some (e, m') \<Rightarrow> run_advance t n m')"

lemma run_release:
  "frames m t = f # fs \<Longrightarrow> fr_phase f = Releasing ks \<Longrightarrow>
     \<exists>m'. run_advance t (length ks + 1) m = Some m' \<and> frames m' t = fs \<and> thread_max m' = thread_max m \<and>
       (\<forall>k. dget (lock_holder m') k = (if k \<in> set ks then None else dget (lock_holder m) k))"
proof (induction ks arbitrary: m f)
  case Nil
  then show ?case by (simp add: advance_def)
next
  case (Cons k ks)
  let ?m = "put_frames t (f\<lparr>fr_phase := Releasing ks\<rparr> # fs) (drop_lock k m)"
  have "advance t m = Some (None, ?m)" using Cons.prems by (simp add: advance_def)
  with Cons.IH [of ?m "f\<lparr>fr_phase := Releasing ks\<rparr>"] show ?case by auto
qed

text \<open>The release of a call: its keys, and nothing else, are free again, after one step per key.\<close>

theorem leaving_releases_exactly:
  assumes "lock_reachable m" and "frames m t = f # fs" and "may_leave t m"
  shows "\<exists>m'. run_advance t (length (fr_acquired f) + 1) (leave_lock t m) = Some m' \<and>
    frames m' t = fs \<and> thread_max m' t = level m fs \<and>
    (\<forall>k. dget (lock_holder m') k = (if k \<in> set (fr_acquired f) then None else dget (lock_holder m) k))"
proof -
  have inv: "manager_inv m" by (rule locks.reachable_inv [OF assms(1)])
  have "fr_phase f = Body \<or> (\<exists>ks. fr_phase f = Acquiring ks)"
    using assms(2,3) by (auto simp: may_leave_def split: phase.splits)
  with top_frame(3) [OF inv assms(2)] have prev: "fr_prev f = level m fs" by (auto simp: frame_ok_def)
  let ?f = "f\<lparr>fr_phase := Releasing (rev (fr_acquired f))\<rparr>"
  have "frames (leave_lock t m) t = ?f # fs" using assms(2) by (simp add: leave_lock_def)
  from run_release [OF this] obtain m' where
    "run_advance t (length (fr_acquired f) + 1) (leave_lock t m) = Some m'" "frames m' t = fs"
    "thread_max m' = thread_max (leave_lock t m)"
    "\<forall>k. dget (lock_holder m') k = (if k \<in> set (fr_acquired f) then None else dget (lock_holder (leave_lock t m)) k)"
    by (auto simp del: run_advance.simps add_2_eq_Suc' One_nat_def add_Suc_right)
  then show ?thesis using assms(2) prev by (simp add: leave_lock_def)
qed

section \<open>Two threads, two keys\<close>

text \<open>Thread 1 in the body of \<open>lock(["a", "b"])\<close>, thread 2 waiting inside \<open>lock(["b", "a"])\<close>.\<close>

definition after_call :: "nat \<Rightarrow> string list \<Rightarrow> nat \<Rightarrow> (string, nat) manager \<Rightarrow> (string, nat) manager" where
  "after_call t keys n m = (case begin_lock t keys m of Inl e \<Rightarrow> m | Inr m' \<Rightarrow> the (run_advance t n m'))"

definition contended :: "(string, nat) manager" where
  "contended = after_call 2 [''b'', ''a''] 3 (after_call 1 [''a'', ''b''] 6 new_manager)"

lemma run_advance_reachable:
  "lock_reachable m \<Longrightarrow> run_advance t n m = Some m' \<Longrightarrow> lock_reachable m'"
proof (induction n arbitrary: m)
  case (Suc n)
  then obtain e m1 where "advance t m = Some (e, m1)" "run_advance t n m1 = Some m'"
    by (auto split: option.splits)
  with Suc.IH [OF reach_step [OF Suc.prems(1)]] show ?case by (blast intro: step_advance)
qed simp

lemma after_call_reachable:
  assumes "lock_reachable m" and "in_user_code t m" 
    and "case begin_lock t keys m of Inl e \<Rightarrow> False | Inr m' \<Rightarrow> \<not> Option.is_none (run_advance t n m')"
  shows "lock_reachable (after_call t keys n m)"
proof -
  from assms(3) obtain m1 m2 where b: "begin_lock t keys m = Inr m1" and r: "run_advance t n m1 = Some m2"
    by (auto simp: Option.is_none_def split: sum.splits)
  have "lock_reachable m1" using assms(1,2) b by (blast intro: reach_step step_call)
  with b r run_advance_reachable [of m1 t n] show ?thesis by (simp add: after_call_def)
qed

lemma contended_reachable: "lock_reachable contended"
proof -
  have "lock_reachable (new_manager :: (string, nat) manager)" by (rule reach_init) simp
  then have "lock_reachable (after_call 1 [''a'', ''b''] 6 new_manager)"
    by (rule after_call_reachable) code_simp+
  then show ?thesis unfolding contended_def by (rule after_call_reachable) code_simp+
qed

theorem bodies_exclude_each_other_witness:
  "in_body_for contended 1 ''a'' \<and> \<not> in_body_for contended 2 ''a'' \<and>
    frames contended 3 = [] \<and> holds contended 3 = {} \<and> thread_max contended 3 = -1"
proof -
  have 1: "in_body_for contended 1 ''a''"
  proof -
    have "map fr_phase (frames contended 1) = [Body]" "map fr_keys (frames contended 1) = [[''a'', ''b'']]"
      by code_simp+
    then show ?thesis by (auto simp: in_body_for_def)
  qed
  have 3: "frames contended 3 = []" by code_simp
  from 1 3 bodies_exclude_each_other [OF contended_reachable, of 1 "''a''" 2]
    bodies_exclude_each_other [OF contended_reachable, of 3] show ?thesis by auto
qed

theorem no_circular_wait_witness:
  "waits_for contended 2 ''a'' 1 \<and> (\<exists>v. (2, v) \<in> (wait_graph contended)\<^sup>+ \<and> proceeds contended v)"
proof -
  have "map fr_phase (frames contended 2) = [Acquiring [''a'', ''b'']]" "dget (lock_holder contended) ''a'' = Some 1"
    by code_simp+
  then have "waits_for contended 2 ''a'' 1" by (auto simp: waits_for_def)
  with no_circular_wait [OF contended_reachable] show ?thesis by blast
qed

theorem leaving_releases_exactly_witness:
  "\<exists>f m'. frames contended 1 = [f] \<and> fr_acquired f = [''a'', ''b''] \<and>
     run_advance 1 3 (leave_lock 1 contended) = Some m' \<and> frames m' 1 = [] \<and>
     dget (lock_holder m') ''a'' = None"
proof -
  have a: "map fr_acquired (frames contended 1) = [[''a'', ''b'']]" by code_simp
  then obtain f where f: "frames contended 1 = [f]" "fr_acquired f = [''a'', ''b'']" by auto
  have "may_leave 1 contended" by code_simp
  from leaving_releases_exactly [OF contended_reachable f(1) this] f show ?thesis
    by (auto simp: numeral_3_eq_3 simp del: run_advance.simps)
qed

end
