(* ===== verification/StepOrdering.thy ===== *)
theory StepOrdering
  imports Prelude
begin

text \<open>
  The order of a process's steps
  (\<^verbatim>\<open>backend/agents/agent_team_studio/agentic_team_provisioning/step_ordering.py\<close>): a breadth-first walk
  of the \<open>next_steps\<close> edges from the entry points, then the steps it did not reach. Ids are strings;
  the theory does not depend on it. A missing \<open>next_steps\<close> list is the empty list.
\<close>

section \<open>The walk\<close>

type_synonym steps = "(string \<times> string list) list"

definition entry_ids :: "steps \<Rightarrow> string list" where
  "entry_ids steps =
     (let ids = map fst steps;
          entries = filter (\<lambda>s. s \<notin> set (concat (map snd steps))) ids
      in if entries = [] then [hd ids] else entries)"

text \<open>\<open>{sid: nexts for ...}\<close>: the last declaration of an id counts.\<close>

definition next_map :: "steps \<Rightarrow> (string, string list) pydict" where
  "next_map steps = dupdate [] steps"

definition next_steps_of :: "(string, string list) pydict \<Rightarrow> string \<Rightarrow> string list" where
  "next_steps_of d s = (case dget d s of Some ns \<Rightarrow> ns | None \<Rightarrow> [])"

text \<open>The \<open>while queue\<close> loop: an iteration that does not shorten the queue visits one more of the known
  ids, so the loop ends.\<close>

function walk :: "string list \<Rightarrow> (string, string list) pydict \<Rightarrow> string list \<Rightarrow> string list \<Rightarrow> string list" where
  "walk ids d [] ordered = ordered"
| "walk ids d (s # queue) ordered =
     (if s \<in> set ordered \<or> s \<notin> set ids then walk ids d queue ordered
      else walk ids d (queue @ next_steps_of d s) (ordered @ [s]))"
  by pat_completeness auto
termination
proof (relation "measures [\<lambda>(ids, d, q, ordered). card (set ids - set ordered), \<lambda>(ids, d, q, ordered). length q]",
    goal_cases)
  case (3 ids d s queue ordered)
  then have "set ids - set (ordered @ [s]) \<subset> set ids - set ordered" by auto
  then show ?case by (simp add: psubset_card_mono del: set_append)
qed auto

definition order_step_ids :: "steps \<Rightarrow> string list" where
  "order_step_ids steps =
     (if steps = [] then []
      else let ids = map fst steps; ordered = walk ids (next_map steps) (entry_ids steps) []
           in ordered @ filter (\<lambda>s. s \<notin> set ordered) ids)"

section \<open>What the walk reaches\<close>

text \<open>An edge between declared steps, as the walk reads it.\<close>

definition step_edge :: "steps \<Rightarrow> string \<Rightarrow> string \<Rightarrow> bool" where
  "step_edge steps s t \<longleftrightarrow> s \<in> set (map fst steps) \<and> t \<in> set (map fst steps) \<and>
     t \<in> set (next_steps_of (next_map steps) s)"

definition reached :: "steps \<Rightarrow> string \<Rightarrow> bool" where
  "reached steps t \<longleftrightarrow>
     (\<exists>s. s \<in> set (entry_ids steps) \<and> s \<in> set (map fst steps) \<and> (step_edge steps)\<^sup>*\<^sup>* s t)"

lemma walk_extends: "\<exists>xs. walk ids d q ordered = ordered @ xs"
  by (induction ids d q ordered rule: walk.induct) auto

lemma walk_distinct:
  "distinct ordered \<Longrightarrow> set ordered \<subseteq> set ids \<Longrightarrow>
     distinct (walk ids d q ordered) \<and> set (walk ids d q ordered) \<subseteq> set ids"
  by (induction ids d q ordered rule: walk.induct) auto

text \<open>Nothing outside what the queue leads to is visited.\<close>

lemma walk_sound:
  assumes "\<And>s t. P s \<Longrightarrow> s \<in> set ids \<Longrightarrow> t \<in> set (next_steps_of d s) \<Longrightarrow> t \<in> set ids \<Longrightarrow> P t"
  shows "(\<And>s. s \<in> set q \<Longrightarrow> s \<in> set ids \<Longrightarrow> P s) \<Longrightarrow> (\<And>s. s \<in> set ordered \<Longrightarrow> P s) \<Longrightarrow>
    s \<in> set (walk ids d q ordered) \<Longrightarrow> P s"
  using assms
proof (induction ids d q ordered arbitrary: s rule: walk.induct)
  case (2 ids d u queue ordered)
  show ?case
  proof (cases "u \<in> set ordered \<or> u \<notin> set ids")
    case True
    with 2 show ?thesis by auto
  next
    case False
    then have u: "P u" using 2(3) by simp
    show ?thesis
    proof (rule 2(2) [OF False])
      show "s \<in> set (walk ids d (queue @ next_steps_of d u) (ordered @ [u]))" using 2(5) False by simp
    qed (use 2(3,4,6) u False in auto)
  qed
qed auto

text \<open>The queue and the successors of what is visited end up visited.\<close>

lemma walk_complete:
  "(\<And>s t. s \<in> set ordered \<Longrightarrow> t \<in> set (next_steps_of d s) \<Longrightarrow> t \<in> set ids \<Longrightarrow> t \<in> set ordered \<or> t \<in> set q) \<Longrightarrow>
     (\<forall>s \<in> set q. s \<in> set ids \<longrightarrow> s \<in> set (walk ids d q ordered)) \<and>
     (\<forall>s \<in> set (walk ids d q ordered). \<forall>t \<in> set (next_steps_of d s). t \<in> set ids \<longrightarrow>
        t \<in> set (walk ids d q ordered))"
proof (induction ids d q ordered rule: walk.induct)
  case (2 ids d u queue ordered)
  show ?case
  proof (cases "u \<in> set ordered \<or> u \<notin> set ids")
    case True
    have "\<And>s t. s \<in> set ordered \<Longrightarrow> t \<in> set (next_steps_of d s) \<Longrightarrow> t \<in> set ids \<Longrightarrow> t \<in> set ordered \<or> t \<in> set queue"
      using "2.prems" True by fastforce
    note ih = "2.IH"(1) [OF True this]
    moreover have "u \<in> set ids \<longrightarrow> u \<in> set (walk ids d queue ordered)"
      using True walk_extends [of ids d queue ordered] by auto
    ultimately show ?thesis using True by simp
  next
    case False
    have "\<And>s t. s \<in> set (ordered @ [u]) \<Longrightarrow> t \<in> set (next_steps_of d s) \<Longrightarrow> t \<in> set ids \<Longrightarrow>
        t \<in> set (ordered @ [u]) \<or> t \<in> set (queue @ next_steps_of d u)"
      using "2.prems" by fastforce
    note ih = "2.IH"(2) [OF False this]
    moreover have "u \<in> set (walk ids d (queue @ next_steps_of d u) (ordered @ [u]))"
      using walk_extends [of ids d "queue @ next_steps_of d u" "ordered @ [u]"] by auto
    ultimately show ?thesis using False by simp
  qed
qed simp

lemma reached_entry: "s \<in> set (entry_ids steps) \<Longrightarrow> s \<in> set (map fst steps) \<Longrightarrow> reached steps s"
  unfolding reached_def by blast

lemma reached_step:
  assumes "reached steps s" and "s \<in> set (map fst steps)" and "t \<in> set (next_steps_of (next_map steps) s)"
    and "t \<in> set (map fst steps)"
  shows "reached steps t"
proof -
  have "step_edge steps s t" using assms(2-4) by (simp add: step_edge_def)
  with assms(1) show ?thesis unfolding reached_def by (meson rtranclp.rtrancl_into_rtrancl)
qed

lemma walk_reaches:
  assumes "steps \<noteq> []"
  shows "t \<in> set (walk (map fst steps) (next_map steps) (entry_ids steps) []) \<longleftrightarrow> reached steps t"
proof
  assume "t \<in> set (walk (map fst steps) (next_map steps) (entry_ids steps) [])"
  then show "reached steps t"
    by (rule walk_sound [rotated 3]) (use reached_step reached_entry in auto)
next
  let ?w = "set (walk (map fst steps) (next_map steps) (entry_ids steps) [])"
  note c = walk_complete [of "[]" "next_map steps" "map fst steps" "entry_ids steps"]
  assume "reached steps t"
  then obtain s where s: "s \<in> set (entry_ids steps)" "s \<in> set (map fst steps)" "(step_edge steps)\<^sup>*\<^sup>* s t"
    by (auto simp: reached_def)
  from s(3) show "t \<in> ?w"
  proof (induction rule: rtranclp_induct)
    case base
    with c s(1,2) show ?case by simp
  next
    case (step t u)
    with c show ?case by (auto simp: step_edge_def)
  qed
qed

section \<open>Properties\<close>

text \<open>The order is what the walk reaches from the entry points, each step once, followed by the steps it
  does not reach as they were declared; with unique ids it is a permutation of the steps.\<close>

theorem order_step_ids_exact:
  assumes "steps \<noteq> []"
  shows "\<exists>front. order_step_ids steps = front @ filter (\<lambda>s. \<not> reached steps s) (map fst steps) \<and>
    distinct front \<and> set front = {s. reached steps s} \<and>
    set (order_step_ids steps) = set (map fst steps) \<and>
    (distinct (map fst steps) \<longrightarrow> distinct (order_step_ids steps))"
proof -
  let ?front = "walk (map fst steps) (next_map steps) (entry_ids steps) []"
  have r: "s \<in> set ?front \<longleftrightarrow> reached steps s" for s by (rule walk_reaches [OF assms])
  have d: "distinct ?front" "set ?front \<subseteq> set (map fst steps)"
    using walk_distinct [of "[]" "map fst steps"] by simp_all
  have o: "order_step_ids steps = ?front @ filter (\<lambda>s. \<not> reached steps s) (map fst steps)"
    using assms r by (simp add: order_step_ids_def Let_def)
  moreover have "set (order_step_ids steps) = set (map fst steps)" unfolding o using d(2) r by auto
  moreover have "set ?front = {s. reached steps s}" using r by blast
  moreover have "distinct (order_step_ids steps)" if "distinct (map fst steps)"
    unfolding o using d(1) that r by auto
  ultimately show ?thesis using d(1) by blast
qed

text \<open>Steps \<open>a \<rightarrow> c\<close>, \<open>b\<close> and a loop \<open>x\<close> that nothing else leads to.\<close>

theorem order_step_ids_exact_witness:
  "\<exists>front. order_step_ids [(''a'', [''c'', ''gone'']), (''x'', [''x'']), (''b'', []), (''c'', [])] = front @ [''x''] \<and>
     front = [''a'', ''b'', ''c''] \<and> distinct front"
proof -
  let ?s = "[(''a'', [''c'', ''gone'']), (''x'', [''x'']), (''b'', []), (''c'', [])] :: steps"
  have "order_step_ids ?s = [''a'', ''b'', ''c'', ''x'']" by code_simp
  moreover obtain front where "order_step_ids ?s = front @ filter (\<lambda>s. \<not> reached ?s s) (map fst ?s)"
    "distinct front" using order_step_ids_exact [of ?s] by blast
  ultimately show ?thesis by auto
qed

text \<open>An id declared twice is returned twice when the walk does not reach it, although each id is promised
  once.\<close>

theorem repeated_id_is_returned_twice:
  "order_step_ids [(''e'', []), (''x'', [''x'']), (''x'', [''x''])] = [''e'', ''x'', ''x'']"
  by code_simp

end
