(* ===== verification/Portfolio.thy ===== *)
theory Portfolio
  imports OrderBook
begin

text \<open>
  Cash, open positions and equity (\<^verbatim>\<open>backend/agents/investment_team/trading_service/engine/portfolio.py\<close>).
  \<open>Position\<close> and \<open>Portfolio\<close> are records of their fields; a position changed in place is stored back
  under its symbol. Amounts are exact rationals, \<open>round(x, n)\<close> rounds half to even. What the engine
  raises is an \<open>engine_error\<close>.
\<close>

section \<open>Rounding\<close>

definition round_half_even :: "rat \<Rightarrow> int" where
  "round_half_even x =
     (let f = \<lfloor>x\<rfloor>; d = x - of_int f
      in if d < 1 / 2 then f else if 1 / 2 < d then f + 1 else if even f then f else f + 1)"

definition py_round :: "nat \<Rightarrow> rat \<Rightarrow> rat" where
  "py_round dp x = of_int (round_half_even (x * 10 ^ dp)) / 10 ^ dp"

lemma round_half_even_error: "\<bar>of_int (round_half_even x) - x\<bar> \<le> 1 / 2"
proof -
  have "0 \<le> x - of_int \<lfloor>x\<rfloor>" "x - of_int \<lfloor>x\<rfloor> < 1" by linarith+
  then show ?thesis unfolding round_half_even_def Let_def abs_if
    by (simp split: if_splits) linarith
qed

lemma py_round_error: "\<bar>py_round dp x - x\<bar> \<le> 1 / (2 * 10 ^ dp)"
proof -
  let ?t = "10 ^ dp :: rat"
  have "py_round dp x - x = (of_int (round_half_even (x * ?t)) - x * ?t) / ?t"
    by (simp add: py_round_def field_simps)
  then have "\<bar>py_round dp x - x\<bar> = \<bar>of_int (round_half_even (x * ?t)) - x * ?t\<bar> / ?t"
    by (simp add: abs_divide)
  also have "\<dots> \<le> (1 / 2) / ?t"
    by (rule divide_right_mono [OF round_half_even_error]) simp
  finally show ?thesis by simp
qed

lemma round_half_even_int [simp]: "round_half_even (of_int n) = n"
  by (simp add: round_half_even_def)

lemma py_round_zero [simp]: "py_round dp 0 = 0"
  using round_half_even_int [of 0] by (simp add: py_round_def)

lemma round_half_even_mono: "x \<le> y \<Longrightarrow> round_half_even x \<le> round_half_even y"
proof -
  assume xy: "x \<le> y"
  then have f: "\<lfloor>x\<rfloor> \<le> \<lfloor>y\<rfloor>" by (rule floor_mono)
  show ?thesis
  proof (cases "\<lfloor>x\<rfloor> = \<lfloor>y\<rfloor>")
    case True
    with xy show ?thesis by (simp add: round_half_even_def Let_def)
  next
    case False
    with f have "\<lfloor>x\<rfloor> + 1 \<le> \<lfloor>y\<rfloor>" by simp
    then show ?thesis by (simp add: round_half_even_def Let_def)
  qed
qed

lemma py_round_mono: "x \<le> y \<Longrightarrow> py_round dp x \<le> py_round dp y"
  unfolding py_round_def by (intro divide_right_mono of_int_le_iff [THEN iffD2] round_half_even_mono) simp_all

lemma py_round_nonneg: "0 \<le> x \<Longrightarrow> 0 \<le> py_round dp x"
  using py_round_mono [of 0 x dp] by simp

section \<open>State\<close>

datatype engine_error =
  OrderErr order_error | MissingKey string | ZeroDivision | AssertionFailed | TypeErrNone |
  InvalidRequest | LookAhead string string string

record position =
  pos_symbol :: string
  pos_side :: order_side
  pos_qty :: rat
  entry_price :: rat
  entry_bid_price :: rat
  entry_timestamp :: string
  entry_order_id :: string
  entry_client_order_id :: string
  entry_order_type :: order_type
  entry_reason :: string
  pos_original_qty :: rat
  cumulative_exit_qty :: rat
  weighted_exit_price_sum :: rat
  weighted_exit_bid_sum :: rat
  partial_fill_count :: int
  participation_clipped :: bool
  total_unfilled_qty :: rat

definition position_value :: "position \<Rightarrow> rat" where
  "position_value p = entry_price p * pos_qty p"

definition reduce_position :: "rat \<Rightarrow> rat \<Rightarrow> rat \<Rightarrow> position \<Rightarrow> position" where
  "reduce_position q price bid p =
     p\<lparr>cumulative_exit_qty := cumulative_exit_qty p + q,
       weighted_exit_price_sum := weighted_exit_price_sum p + q * price,
       weighted_exit_bid_sum := weighted_exit_bid_sum p + q * bid,
       pos_qty := pos_qty p - q\<rparr>"

definition is_closed :: "position \<Rightarrow> bool" where
  "is_closed p \<longleftrightarrow>
     0 < pos_original_qty p \<and>
     pos_original_qty p \<le> cumulative_exit_qty p + pos_original_qty p * fill_qty_rel_tol"

definition weighted_avg_exit_price :: "position \<Rightarrow> rat" where
  "weighted_avg_exit_price p =
     (if cumulative_exit_qty p \<le> 0 then 0 else weighted_exit_price_sum p / cumulative_exit_qty p)"

definition weighted_avg_exit_bid_price :: "position \<Rightarrow> rat" where
  "weighted_avg_exit_bid_price p =
     (if cumulative_exit_qty p \<le> 0 then 0 else weighted_exit_bid_sum p / cumulative_exit_qty p)"

record portfolio =
  initial_capital :: rat
  capital :: rat
  peak_equity :: rat
  cumulative_pnl :: rat
  positions :: "(string, position) pydict"
  last_price :: "(string, rat) pydict"

text \<open>The constructor with the defaults of the other fields, then \<open>__post_init__\<close>.\<close>

definition new_portfolio :: "rat \<Rightarrow> portfolio" where
  "new_portfolio c =
     \<lparr>initial_capital = c, capital = c, peak_equity = c, cumulative_pnl = 0, positions = [], last_price = []\<rparr>"

section \<open>Position lifecycle\<close>

definition open_position :: "position \<Rightarrow> portfolio \<Rightarrow> engine_error + portfolio" where
  "open_position p pf =
     (if has_key (positions pf) (pos_symbol p)
      then Inl (OrderErr (ValueErr ''position already open''))
      else
        let p = (if pos_original_qty p = 0 then p\<lparr>pos_original_qty := pos_qty p\<rparr> else p)
        in Inr (pf\<lparr>capital := capital pf - position_value p,
                   positions := dset (positions pf) (pos_symbol p) p\<rparr>))"

definition extend_by :: "rat \<Rightarrow> rat \<Rightarrow> rat option \<Rightarrow> position \<Rightarrow> position" where
  "extend_by q price bid p =
     (let n = pos_qty p + q
      in p\<lparr>entry_price := (entry_price p * pos_qty p + q * price) / n,
           entry_bid_price := (case bid of None \<Rightarrow> entry_bid_price p
             | Some b \<Rightarrow> (entry_bid_price p * pos_qty p + q * b) / n),
           pos_qty := n\<rparr>)"

definition extend_position ::
  "string \<Rightarrow> rat \<Rightarrow> rat \<Rightarrow> rat option \<Rightarrow> portfolio \<Rightarrow> engine_error + (position \<times> portfolio)" where
  "extend_position sy q price bid pf =
     (case dget (positions pf) sy of
        None \<Rightarrow> Inl (MissingKey sy)
      | Some p \<Rightarrow>
          if pos_qty p + q = 0 then Inl ZeroDivision
          else let p = extend_by q price bid p
               in Inr (p, pf\<lparr>positions := dset (positions pf) sy p, capital := capital pf - q * price\<rparr>))"

definition partial_close :: "string \<Rightarrow> rat \<Rightarrow> rat \<Rightarrow> rat \<Rightarrow> portfolio \<Rightarrow> position option \<times> portfolio" where
  "partial_close sy q price bid pf =
     (case dget (positions pf) sy of
        None \<Rightarrow> (None, pf)
      | Some p \<Rightarrow>
          let p = reduce_position q price bid p
          in (Some p, pf\<lparr>positions := dset (positions pf) sy p, capital := capital pf + q * price\<rparr>))"

definition close_position :: "string \<Rightarrow> rat \<Rightarrow> portfolio \<Rightarrow> position option \<times> portfolio" where
  "close_position sy price pf =
     (case dget (positions pf) sy of
        None \<Rightarrow> (None, pf)
      | Some p \<Rightarrow> (Some p, pf\<lparr>positions := ddel (positions pf) sy,
                            capital := capital pf + py_round 2 (pos_qty p * price)\<rparr>))"

definition record_pnl :: "rat \<Rightarrow> portfolio \<Rightarrow> portfolio" where
  "record_pnl net pf = pf\<lparr>cumulative_pnl := py_round 2 (cumulative_pnl pf + net)\<rparr>"

section \<open>Prices and equity\<close>

definition update_last_price :: "string \<Rightarrow> rat \<Rightarrow> portfolio \<Rightarrow> portfolio" where
  "update_last_price sy price pf = pf\<lparr>last_price := dset (last_price pf) sy price\<rparr>"

definition marked_value :: "(string, rat) pydict \<Rightarrow> string \<times> position \<Rightarrow> rat" where
  "marked_value prices sp =
     (let (sy, p) = sp; now = (case dget prices sy of Some v \<Rightarrow> v | None \<Rightarrow> entry_price p)
      in if pos_side p = LONG then pos_qty p * now else pos_qty p * (2 * entry_price p - now))"

definition equity_of :: "portfolio \<Rightarrow> rat" where
  "equity_of pf = capital pf + sum_list (map (marked_value (last_price pf)) (positions pf))"

definition mark_to_market :: "portfolio \<Rightarrow> rat \<times> portfolio" where
  "mark_to_market pf =
     (let equity = equity_of pf
      in (equity, if peak_equity pf < equity then pf\<lparr>peak_equity := equity\<rparr> else pf))"

record snapshot_row =
  sn_symbol :: string
  sn_side :: order_side
  sn_qty :: rat
  sn_entry_price :: rat
  sn_entry_timestamp :: string

definition position_snapshots :: "portfolio \<Rightarrow> snapshot_row list" where
  "position_snapshots pf =
     map (\<lambda>p. \<lparr>sn_symbol = pos_symbol p, sn_side = pos_side p, sn_qty = pos_qty p,
               sn_entry_price = entry_price p, sn_entry_timestamp = entry_timestamp p\<rparr>)
       (dvals (positions pf))"

end
