(* ===== verification/ExecutionModel.thy ===== *)
theory ExecutionModel
  imports Portfolio
begin

text \<open>
  Fill terms (\<^verbatim>\<open>backend/agents/investment_team/trading_service/engine/execution_model.py\<close>): whether an order
  triggers on a bar, at which reference price, for which fraction of its quantity and with how much
  extra slippage, under the optimistic and the realistic model. Comparing a missing price raises
  (\<open>TypeErrNone\<close>), and so do the assertions of the stop-limit helpers.
\<close>

section \<open>Bars and terms\<close>

record bar =
  bar_symbol :: string
  bar_timestamp :: string
  bar_timeframe :: string
  bar_open :: rat
  bar_high :: rat
  bar_low :: rat
  bar_close :: rat
  bar_volume :: rat

record fill_terms =
  reference_price :: rat
  qty_fraction :: rat
  extra_slip_bps :: rat

definition plain_terms :: "rat \<Rightarrow> fill_terms" where
  "plain_terms p = \<lparr>reference_price = p, qty_fraction = 1, extra_slip_bps = 0\<rparr>"

type_synonym 'a outcome = "engine_error + 'a"

text \<open>\<open>price\<close> compared with the bar: raises when the request has none.\<close>

definition with_price :: "rat option \<Rightarrow> (rat \<Rightarrow> 'a) \<Rightarrow> 'a outcome" where
  "with_price p f = (case p of None \<Rightarrow> Inl TypeErrNone | Some v \<Rightarrow> Inr (f v))"

section \<open>Stop-limit geometry\<close>

definition stop_limit_triggered :: "order_request \<Rightarrow> bar \<Rightarrow> bool outcome" where
  "stop_limit_triggered r b =
     (case stop_price r of
        None \<Rightarrow> Inl AssertionFailed
      | Some s \<Rightarrow> Inr (if side r = LONG then s \<le> bar_high b else bar_low b \<le> s))"

definition stop_limit_reference_price :: "order_request \<Rightarrow> bar \<Rightarrow> rat option outcome" where
  "stop_limit_reference_price r b =
     (case (stop_price r, limit_price r) of
        (Some s, Some l) \<Rightarrow>
          Inr (if \<not> (if side r = LONG then s \<le> bar_high b else bar_low b \<le> s) then None
               else if side r = LONG then (if bar_low b \<le> l then Some l else None)
               else (if l \<le> bar_high b then Some l else None))
      | _ \<Rightarrow> Inl AssertionFailed)"

lemma stop_limit_triggered_stage:
  "stop_price r = Some s \<Longrightarrow> limit_price r = Some l \<Longrightarrow>
     stop_limit_reference_price r b =
       (case stop_limit_triggered r b of Inl e \<Rightarrow> Inl e
        | Inr t \<Rightarrow> Inr (if t \<and> (if side r = LONG then bar_low b \<le> l else l \<le> bar_high b) then Some l else None))"
  by (simp add: stop_limit_reference_price_def stop_limit_triggered_def)

text \<open>A stop fills at the stop or at the open beyond it, in both models.\<close>

definition stop_reference_price :: "order_request \<Rightarrow> bar \<Rightarrow> rat option outcome" where
  "stop_reference_price r b =
     with_price (stop_price r) (\<lambda>s.
       if side r = LONG then (if s \<le> bar_high b then Some (max (bar_open b) s) else None)
       else (if bar_low b \<le> s then Some (min (bar_open b) s) else None))"

section \<open>The optimistic model\<close>

definition optimistic_limit_price :: "order_request \<Rightarrow> bar \<Rightarrow> rat option outcome" where
  "optimistic_limit_price r b =
     with_price (limit_price r) (\<lambda>l.
       if side r = LONG then (if bar_low b \<le> l then Some (min (bar_open b) l) else None)
       else (if l \<le> bar_high b then Some (max (bar_open b) l) else None))"

definition optimistic_reference :: "order_request \<Rightarrow> bar \<Rightarrow> rat option outcome" where
  "optimistic_reference r b =
     (case order_type r of
        MARKET \<Rightarrow> Inr (Some (bar_open b))
      | LIMIT \<Rightarrow> optimistic_limit_price r b
      | STOP \<Rightarrow> stop_reference_price r b
      | STOP_LIMIT \<Rightarrow> stop_limit_reference_price r b
      | TRAILING_STOP \<Rightarrow> Inr None)"

definition optimistic_terms :: "order_request \<Rightarrow> bar \<Rightarrow> bar option \<Rightarrow> fill_terms option outcome" where
  "optimistic_terms r b nb = map_sum id (map_option plain_terms) (optimistic_reference r b)"

section \<open>The realistic model\<close>

definition limit_reference_price :: "order_request \<Rightarrow> bar \<Rightarrow> rat option outcome" where
  "limit_reference_price r b =
     with_price (limit_price r) (\<lambda>l.
       if side r = LONG then (if bar_low b \<le> l then Some l else None)
       else (if l \<le> bar_high b then Some l else None))"

definition realistic_reference :: "order_request \<Rightarrow> bar \<Rightarrow> rat option outcome" where
  "realistic_reference r b =
     (case order_type r of
        MARKET \<Rightarrow> Inr (Some (bar_open b))
      | LIMIT \<Rightarrow> limit_reference_price r b
      | STOP \<Rightarrow> stop_reference_price r b
      | STOP_LIMIT \<Rightarrow> stop_limit_reference_price r b
      | TRAILING_STOP \<Rightarrow> Inr None)"

definition bar_dollar_volume :: "bar \<Rightarrow> rat" where
  "bar_dollar_volume b = (if bar_volume b \<le> 0 then 0 else bar_volume b * bar_close b)"

definition raw_participation :: "order_request \<Rightarrow> bar \<Rightarrow> rat \<Rightarrow> rat" where
  "raw_participation r b ref =
     (if bar_dollar_volume b \<le> 0 then 0
      else if qty r * ref \<le> 0 then 0
      else qty r * ref / bar_dollar_volume b)"

definition qty_fraction_from_participation :: "rat \<Rightarrow> rat \<Rightarrow> rat" where
  "qty_fraction_from_participation cap raw =
     (if raw \<le> 0 then 1 else if raw \<le> cap then 1 else cap / raw)"

definition adverse_selection_bps :: "rat \<Rightarrow> order_request \<Rightarrow> bar \<Rightarrow> bar \<Rightarrow> rat \<Rightarrow> rat" where
  "adverse_selection_bps max_bps r b nb rate =
     (if bar_close b \<le> 0 then 0
      else
        let move = (bar_close nb - bar_close b) / bar_close b;
            adverse = (if side r = LONG then max 0 (- move) else max 0 move)
        in min (adverse * 10000 * rate) max_bps)"

definition realistic_terms ::
  "rat \<Rightarrow> rat \<Rightarrow> order_request \<Rightarrow> bar \<Rightarrow> bar option \<Rightarrow> fill_terms option outcome" where
  "realistic_terms cap max_bps r b nb =
     (case realistic_reference r b of
        Inl e \<Rightarrow> Inl e
      | Inr None \<Rightarrow> Inr None
      | Inr (Some ref) \<Rightarrow>
          let raw = raw_participation r b ref; frac = qty_fraction_from_participation cap raw
          in if frac \<le> 0 then Inr None
             else
               let effective = min raw cap;
                   slip = (case nb of
                       Some n \<Rightarrow> if (order_type r = LIMIT \<or> order_type r = STOP_LIMIT) \<and> 0 < effective
                         then adverse_selection_bps max_bps r b n effective else 0
                     | None \<Rightarrow> 0)
               in Inr (Some \<lparr>reference_price = ref, qty_fraction = frac, extra_slip_bps = slip\<rparr>))"

section \<open>The factory\<close>

datatype exec_model = Optimistic | Realistic rat rat

definition realistic_model :: "rat \<Rightarrow> rat \<Rightarrow> exec_model outcome" where
  "realistic_model cap max_bps =
     (if \<not> (0 < cap \<and> cap \<le> 1) then Inl (OrderErr (ValueErr ''participation_cap must be in (0, 1]''))
      else if max_bps < 0 then Inl (OrderErr (ValueErr ''adverse_selection_max_bps must be non-negative''))
      else Inr (Realistic cap max_bps))"

definition build_execution_model :: "string option \<Rightarrow> rat \<Rightarrow> exec_model outcome" where
  "build_execution_model name cap =
     (let n = str_lower (str_strip (case name of None \<Rightarrow> [] | Some s \<Rightarrow> s))
      in if n = ''optimistic'' then Inr Optimistic
         else if n = [] \<or> n = ''realistic'' then realistic_model cap 50
         else Inl (OrderErr (ValueErr ''unknown execution_model'')))"

definition compute_fill_terms :: "exec_model \<Rightarrow> order_request \<Rightarrow> bar \<Rightarrow> bar option \<Rightarrow> fill_terms option outcome" where
  "compute_fill_terms m r b nb =
     (case m of Optimistic \<Rightarrow> optimistic_terms r b nb
      | Realistic cap max_bps \<Rightarrow> realistic_terms cap max_bps r b nb)"

end
