(* ===== verification/RiskFilter.thy ===== *)
theory RiskFilter
  imports Portfolio
begin

text \<open>
  Risk limits (\<^verbatim>\<open>backend/agents/investment_team/execution/risk_filter.py\<close>): position sizing and the
  gate every entry passes. The reason of a refusal keeps the numbers its message prints. The
  realized volatility (logarithms and a square root) is the argument \<open>vol\<close>.
\<close>

section \<open>Limits\<close>

record risk_limits =
  max_gross_leverage :: rat
  max_position_pct :: rat
  max_symbol_concentration_pct :: rat
  max_open_positions :: int
  target_annual_vol :: "rat option"
  vol_lookback_days :: int

definition default_limits :: risk_limits where
  "default_limits =
     \<lparr>max_gross_leverage = 1, max_position_pct = 6, max_symbol_concentration_pct = 20,
      max_open_positions = 10, target_annual_vol = None, vol_lookback_days = 20\<rparr>"

text \<open>The constraints of the schema's fields.\<close>

definition limits_wf :: "risk_limits \<Rightarrow> bool" where
  "limits_wf l \<longleftrightarrow>
     0 \<le> max_gross_leverage l \<and> 0 \<le> max_position_pct l \<and> max_position_pct l \<le> 100 \<and>
     0 \<le> max_symbol_concentration_pct l \<and> max_symbol_concentration_pct l \<le> 100 \<and>
     1 \<le> max_open_positions l \<and> (case target_annual_vol l of None \<Rightarrow> True | Some v \<Rightarrow> 0 \<le> v) \<and>
     2 \<le> vol_lookback_days l"

section \<open>Sizing\<close>

datatype sizing_reason = NonPositive | VolTarget rat | FlatPct rat

definition price_decimals :: "rat \<Rightarrow> nat" where
  "price_decimals p = (if p < 10 then 4 else 2)"

definition sized_notional :: "(rat list \<Rightarrow> int \<Rightarrow> rat) \<Rightarrow> risk_limits \<Rightarrow> rat \<Rightarrow> rat list \<Rightarrow> rat" where
  "sized_notional vol l equity closes =
     (let max_notional = equity * max_position_pct l / 100;
          n = (case target_annual_vol l of
                 Some target \<Rightarrow>
                   if vol_lookback_days l \<le> int (length closes)
                   then min (max_notional * (target / max (vol closes (vol_lookback_days l)) (1 / 100))) (max_notional * 3)
                   else max_notional
               | None \<Rightarrow> max_notional)
      in min n equity)"

definition size_position ::
  "(rat list \<Rightarrow> int \<Rightarrow> rat) \<Rightarrow> risk_limits \<Rightarrow> rat \<Rightarrow> rat \<Rightarrow> rat list \<Rightarrow> rat \<times> sizing_reason" where
  "size_position vol l price equity closes =
     (if price \<le> 0 \<or> equity \<le> 0 then (0, NonPositive)
      else (py_round (price_decimals price) (sized_notional vol l equity closes / price),
            case target_annual_vol l of
              Some v \<Rightarrow> if v \<noteq> 0 then VolTarget v else FlatPct (max_position_pct l)
            | None \<Rightarrow> FlatPct (max_position_pct l)))"

section \<open>The gate\<close>

datatype risk_reason =
  WithinLimits | MaxOpenPositions int | NonPositiveEquity rat | GrossLeverage rat rat |
  PositionPct rat rat rat rat | Concentration rat rat rat rat

definition position_cap_rel_eps :: rat where
  "position_cap_rel_eps = 1 / 10 ^ 9"

definition gross_notional :: "(string, position) pydict \<Rightarrow> rat" where
  "gross_notional ps = sum_list (map position_value (dvals ps))"

definition can_enter ::
  "risk_limits \<Rightarrow> rat \<Rightarrow> rat \<Rightarrow> (string, position) pydict \<Rightarrow> bool \<Rightarrow> bool \<times> risk_reason" where
  "can_enter l notional equity ps enforce_cap =
     (if max_open_positions l \<le> int (length ps) then (False, MaxOpenPositions (max_open_positions l))
      else if equity \<le> 0 then (False, NonPositiveEquity equity)
      else
        let leverage = (gross_notional ps + notional) / equity; pct = notional / equity * 100
        in if max_gross_leverage l < leverage then (False, GrossLeverage leverage (max_gross_leverage l))
           else if enforce_cap \<and> max_position_pct l * (1 + position_cap_rel_eps) < pct
           then (False, PositionPct pct (max_position_pct l) notional equity)
           else if max_symbol_concentration_pct l < pct
           then (False, Concentration pct (max_symbol_concentration_pct l) notional equity)
           else (True, WithinLimits))"

section \<open>What the gate admits\<close>

text \<open>The limits as one statement about the account that would result.\<close>

definition admits :: "risk_limits \<Rightarrow> rat \<Rightarrow> rat \<Rightarrow> (string, position) pydict \<Rightarrow> bool \<Rightarrow> bool" where
  "admits l notional equity ps enforce_cap \<longleftrightarrow>
     int (length ps) + 1 \<le> max_open_positions l \<and> 0 < equity \<and>
     gross_notional ps + notional \<le> max_gross_leverage l * equity \<and>
     100 * notional \<le> max_symbol_concentration_pct l * equity \<and>
     (enforce_cap \<longrightarrow> 100 * notional \<le> max_position_pct l * (1 + position_cap_rel_eps) * equity)"

lemma can_enter_iff: "fst (can_enter l n e ps c) \<longleftrightarrow> admits l n e ps c"
proof (cases "0 < e")
  case True
  have le: "(gross_notional ps + n) / e \<le> k \<longleftrightarrow> gross_notional ps + n \<le> k * e"
    "n / e * 100 \<le> k \<longleftrightarrow> 100 * n \<le> k * e" for k
    using True by (simp_all add: pos_divide_le_eq field_simps)
  show ?thesis
    unfolding can_enter_def admits_def le [symmetric] Let_def using True by (auto simp: not_le not_less)
next
  case False
  then show ?thesis by (simp add: can_enter_def admits_def)
qed

end
