(* ===== verification/FillLegs.thy ===== *)
theory FillLegs
  imports ExecutionModel RiskFilter
begin

text \<open>
  The parts of \<^verbatim>\<open>backend/agents/investment_team/trading_service/engine/fill_simulator.py\<close> that only touch the
  order book: the remainder of a partial fill, TWAP slices, the trailing ratchet and the protective
  legs submitted when an entry is done; with the look-ahead guard of \<^verbatim>\<open>execution/bar_safety.py\<close> and the
  price helpers of \<^verbatim>\<open>strategy_lab/spec_dsl.py\<close>. Arithmetic is exact, so the book rounds by identity.
\<close>

section \<open>The look-ahead guard\<close>

definition ts_le :: "string \<Rightarrow> string \<Rightarrow> bool" where
  "ts_le a b =
     (case (try_parse_ts a, try_parse_ts b) of
        (Some (tz, x), Some (tz', y)) \<Rightarrow>
          if tz = tz' then x \<le> y else \<not> str_less (normalize_ts b) (normalize_ts a)
      | _ \<Rightarrow> \<not> str_less (normalize_ts b) (normalize_ts a))"

definition check_fill :: "bool \<Rightarrow> string \<Rightarrow> string \<Rightarrow> string \<Rightarrow> unit outcome" where
  "check_fill enabled oid submitted fill_ts =
     (if \<not> enabled \<or> submitted = [] \<or> fill_ts = [] then Inr ()
      else if ts_le fill_ts submitted then Inl (LookAhead oid submitted fill_ts)
      else Inr ())"

section \<open>Fills and events\<close>

datatype fill_kind = FULL | PARTIAL | REJECTED

fun fill_kind_value :: "fill_kind \<Rightarrow> string" where
  "fill_kind_value FULL = ''full''"
| "fill_kind_value PARTIAL = ''partial''"
| "fill_kind_value REJECTED = ''rejected''"

fun tif_value :: "time_in_force \<Rightarrow> string" where
  "tif_value DAY = ''day''"
| "tif_value GTC = ''gtc''"
| "tif_value IOC = ''ioc''"
| "tif_value FOK = ''fok''"

record fill =
  fill_order_id :: string
  fill_client_order_id :: string
  fill_symbol :: string
  fill_side :: order_side
  fill_qty :: rat
  fill_price :: rat
  fill_timestamp :: string
  fill_reason :: string
  kind_of_fill :: fill_kind
  unfilled_qty :: rat
  fill_cumulative_qty :: rat

datatype event_kind =
  EntryFilled | ExitFilled | Rejected | StopLimitUnfilled | EngineExitFilled | EngineExitAttached

text \<open>A reason is text, or the risk gate's refusal (\<open>f"risk_gate:{...}"\<close>).\<close>

datatype event_reason = ReasonText string | RiskGate risk_reason

record diagnostic_event =
  ev_kind :: event_kind
  ev_order_id :: string
  ev_timestamp :: string
  ev_symbol :: string
  ev_side :: order_side
  ev_order_type :: order_type
  ev_reason :: event_reason

definition event_for :: "event_kind \<Rightarrow> event_reason \<Rightarrow> pending_order \<Rightarrow> string \<Rightarrow> diagnostic_event" where
  "event_for k why po ts =
     \<lparr>ev_kind = k, ev_order_id = po_id po, ev_timestamp = ts, ev_symbol = symbol (request po),
      ev_side = side (request po), ev_order_type = order_type (request po), ev_reason = why\<rparr>"

definition engine_exit_prefix :: string where
  "engine_exit_prefix = ''engine_exit:''"

section \<open>Order-level helpers\<close>

text \<open>An in-place change of an order that is in the book.\<close>

definition store_order :: "pending_order \<Rightarrow> order_book \<Rightarrow> order_book" where
  "store_order po b = b\<lparr>pending := dset (pending b) (po_id po) po\<rparr>"

definition drop_order :: "pending_order \<Rightarrow> bool \<Rightarrow> order_book \<Rightarrow> order_book" where
  "drop_order po was_filled b = snd (remove_order (po_id po) was_filled b)"

abbreviation requeue_order ::
  "pending_order \<Rightarrow> rat \<Rightarrow> string \<Rightarrow> int option \<Rightarrow> bool \<Rightarrow> order_book \<Rightarrow> (pending_order \<times> order_book) outcome" where
  "requeue_order po q ts slices was_filled b \<equiv>
     map_sum OrderErr id
       (requeue id (po_id po) (PyFloat q) ts (map_option PyInt slices) was_filled b)"

definition twap_slice_target :: "pending_order \<Rightarrow> rat" where
  "twap_slice_target po =
     (if unfilled_policy (request po) \<noteq> Some TWAP_N then remaining_qty po
      else case twap_slices_remaining po of
        None \<Rightarrow> remaining_qty po
      | Some n \<Rightarrow> if n \<le> 1 then remaining_qty po else remaining_qty po / of_int n)"

definition next_slices :: "pending_order \<Rightarrow> int" where
  "next_slices po =
     (case twap_slices_remaining po of
        None \<Rightarrow> (case twap_slices (request po) of None \<Rightarrow> 0 | Some n \<Rightarrow> n) - 1
      | Some n \<Rightarrow> n - 1)"

text \<open>Requeue or remove; the order as its callers see it afterwards comes first.\<close>

definition handle_entry_remainder ::
  "pending_order \<Rightarrow> string \<Rightarrow> rat \<Rightarrow> bool \<Rightarrow> order_book \<Rightarrow> (pending_order \<times> order_book) outcome" where
  "handle_entry_remainder po ts unfilled was_filled b =
     (let r = request po; policy = (case unfilled_policy r of None \<Rightarrow> DROP | Some p \<Rightarrow> p)
      in if tif r = IOC \<and> 0 < unfilled then Inr (po, drop_order po was_filled b)
         else if 0 < unfilled \<and> policy = REQUEUE_NEXT_BAR then requeue_order po unfilled ts None was_filled b
         else if 0 < unfilled \<and> policy = TWAP_N then
           (if next_slices po \<le> 0 then Inr (po, drop_order po was_filled b)
            else requeue_order po unfilled ts (Some (next_slices po)) was_filled b)
         else Inr (po, drop_order po was_filled b))"

text \<open>The exit side takes the same decisions, and an exit never keeps a parent registered.\<close>

definition handle_exit_remainder ::
  "pending_order \<Rightarrow> string \<Rightarrow> rat \<Rightarrow> order_book \<Rightarrow> (pending_order \<times> order_book) outcome" where
  "handle_exit_remainder po ts unfilled b = handle_entry_remainder po ts unfilled False b"

section \<open>The trailing ratchet\<close>

definition apply_bps_offset :: "rat \<Rightarrow> rat \<Rightarrow> rat" where
  "apply_bps_offset base bps = base * (bps / 10000)"

definition offset_from :: "offset_kind \<Rightarrow> rat \<Rightarrow> rat \<Rightarrow> rat" where
  "offset_from k base off = (case k of ABS \<Rightarrow> off | BPS \<Rightarrow> apply_bps_offset base off)"

definition trailing_seed :: "pending_order \<Rightarrow> rat \<Rightarrow> rat" where
  "trailing_seed po extreme =
     (case trailing_water po of
        Some w \<Rightarrow> w
      | None \<Rightarrow> (case stop_price (request po) of Some s \<Rightarrow> s | None \<Rightarrow> extreme))"

definition update_trailing :: "bar \<Rightarrow> pending_order \<Rightarrow> pending_order" where
  "update_trailing b po =
     (let r = request po
      in if order_type r \<noteq> TRAILING_STOP then po
         else case trail_offset r of
           None \<Rightarrow> po
         | Some off \<Rightarrow>
             let water = (if side r = SHORT then max (trailing_seed po (bar_high b)) (bar_high b)
                          else min (trailing_seed po (bar_low b)) (bar_low b));
                 dist = offset_from (trail_offset_kind r) water off
             in po\<lparr>trailing_water := Some water,
                   effective_stop_price := Some (if side r = SHORT then water - dist else water + dist)\<rparr>)"

section \<open>Protective legs\<close>

definition protective_stop_price :: "rat \<Rightarrow> rat \<Rightarrow> bool \<Rightarrow> rat" where
  "protective_stop_price ref pct is_long = (if is_long then ref * (1 - pct) else ref * (1 + pct))"

definition protective_limit_price :: "rat \<Rightarrow> rat \<Rightarrow> bool \<Rightarrow> rat outcome" where
  "protective_limit_price stop off closing_long =
     (if \<not> 0 < stop \<or> \<not> 0 \<le> off then Inl AssertionFailed
      else Inr (if closing_long then stop - off else stop + off))"

definition opposite :: "order_side \<Rightarrow> order_side" where
  "opposite s = (if s = LONG then SHORT else LONG)"

definition oco_name :: "pending_order \<Rightarrow> string" where
  "oco_name po = ''oco_'' @ po_id po"

text \<open>\<open>a or b or c\<close> on optional strings.\<close>

definition str_or :: "string option \<Rightarrow> string \<Rightarrow> string" where
  "str_or x d = (if str_truthy x then the x else d)"

text \<open>The request of a leg: good till cancelled, requeued when partially filled. A quantity that is not
  positive fails the model's validation.\<close>

definition leg_request ::
  "string \<Rightarrow> pending_order \<Rightarrow> rat \<Rightarrow> order_type \<Rightarrow> rat option \<Rightarrow> rat option \<Rightarrow> string \<Rightarrow> order_request" where
  "leg_request cid po q ty stop lp why =
     (market_request (symbol (request po)) (opposite (side (request po))) q)
       \<lparr>client_order_id := cid, order_type := ty, stop_price := stop, limit_price := lp, tif := GTC,
        unfilled_policy := Some REQUEUE_NEXT_BAR, reason := why\<rparr>"

definition submit_leg ::
  "order_request \<Rightarrow> pending_order \<Rightarrow> string \<Rightarrow> order_book \<Rightarrow> (pending_order \<times> order_book) outcome" where
  "submit_leg r po ts b =
     (if \<not> 0 < qty r then Inl InvalidRequest
      else map_sum OrderErr id
        (submit_attached r ts (submitted_equity po) (po_id po) (oco_name po) b))"

definition stop_level :: "order_request \<Rightarrow> rat option \<Rightarrow> stop_attachment \<Rightarrow> rat" where
  "stop_level r entry sl =
     (case (sa_entry_price_pct sl, entry) of
        (Some pct, Some e) \<Rightarrow> protective_stop_price e pct (side r = LONG)
      | _ \<Rightarrow> sa_stop_price sl)"

definition leg_limit :: "order_request \<Rightarrow> rat option \<Rightarrow> stop_attachment \<Rightarrow> rat option outcome" where
  "leg_limit r entry sl =
     (case sa_limit_offset sl of
        None \<Rightarrow> Inr None
      | Some off \<Rightarrow>
          map_sum id Some (protective_limit_price (stop_level r entry sl)
            (offset_from (sa_limit_offset_kind sl) (stop_level r entry sl) off) (side r = LONG)))"

definition leg_type :: "stop_attachment \<Rightarrow> order_type" where
  "leg_type sl =
     (if sa_limit_offset sl \<noteq> None then STOP_LIMIT else if sa_trail_offset sl \<noteq> None then TRAILING_STOP else STOP)"

text \<open>The child's level before the first bar: trailed from the fill price.\<close>

definition seed_trailing :: "order_request \<Rightarrow> rat option \<Rightarrow> stop_attachment \<Rightarrow> pending_order \<Rightarrow> pending_order" where
  "seed_trailing r entry sl child =
     (case (sa_trail_offset sl, entry) of
        (Some off, Some e) \<Rightarrow>
          let dist = offset_from (sa_trail_offset_kind sl) e off
          in child\<lparr>trailing_water := Some e,
                   effective_stop_price := Some (if side r = LONG then e - dist else e + dist)\<rparr>
      | _ \<Rightarrow> child)"

definition materialize_stop_child ::
  "pending_order \<Rightarrow> string \<Rightarrow> rat \<Rightarrow> rat option \<Rightarrow> string \<Rightarrow> string \<Rightarrow> bool \<Rightarrow> stop_attachment \<Rightarrow>
   diagnostic_event list \<times> order_book \<Rightarrow> (diagnostic_event list \<times> order_book) outcome" where
  "materialize_stop_child po ts filled entry why cid with_events sl s =
     (let (evs, b) = s; r = request po
      in case leg_limit r entry sl of
           Inl e \<Rightarrow> Inl e
         | Inr lp \<Rightarrow>
             let lr = (leg_request (str_or (sa_client_order_id sl) cid) po filled (leg_type sl)
                       (Some (stop_level r entry sl)) lp why)
                        \<lparr>trail_offset := sa_trail_offset sl, trail_offset_kind := sa_trail_offset_kind sl\<rparr>
             in (case submit_leg lr po ts b of
                   Inl e \<Rightarrow> Inl e
                 | Inr (child, b) \<Rightarrow>
                     let child = seed_trailing r entry sl (child\<lparr>working_against := Some (po_id po)\<rparr>);
                         marked = with_events \<and> sa_entry_price_pct sl \<noteq> None
                     in Inr (if marked then evs @ [event_for EngineExitAttached (ReasonText why) child ts] else evs,
                             store_order child b)))"

definition materialize_limit_child ::
  "pending_order \<Rightarrow> string \<Rightarrow> rat \<Rightarrow> string \<Rightarrow> string \<Rightarrow> limit_attachment \<Rightarrow>
   diagnostic_event list \<times> order_book \<Rightarrow> (diagnostic_event list \<times> order_book) outcome" where
  "materialize_limit_child po ts filled why cid tp s =
     (let (evs, b) = s;
          lr = leg_request (str_or (la_client_order_id tp) cid) po filled LIMIT None (Some (la_limit_price tp)) why
      in case submit_leg lr po ts b of
           Inl e \<Rightarrow> Inl e
         | Inr (child, b) \<Rightarrow> Inr (evs, store_order (child\<lparr>working_against := Some (po_id po)\<rparr>) b))"

text \<open>The legs in the order they are submitted, each with the reason and the default client id it gets.\<close>

definition numbered_leg :: "order_request \<Rightarrow> nat \<Rightarrow> exit_leg \<Rightarrow> exit_leg \<times> string \<times> string" where
  "numbered_leg r i l =
     (l, (case l of
            StopLeg sl \<Rightarrow> str_or (sa_reason sl) (engine_exit_prefix @ ''exit_leg_'' @ nat_str i)
          | LimitLeg _ \<Rightarrow> engine_exit_prefix @ ''exit_leg_'' @ nat_str i),
      client_order_id r @ ''_exit'' @ nat_str i)"

definition attached_legs :: "order_request \<Rightarrow> (exit_leg \<times> string \<times> string) list" where
  "attached_legs r =
     (case attached_stop_loss r of None \<Rightarrow> []
      | Some sl \<Rightarrow> [(StopLeg sl, engine_exit_prefix @ ''bracket_sl'', client_order_id r @ ''_sl'')]) @
     (case attached_take_profit r of None \<Rightarrow> []
      | Some tp \<Rightarrow> [(LimitLeg tp, engine_exit_prefix @ ''bracket_tp'', client_order_id r @ ''_tp'')]) @
     map (\<lambda>(i, l). numbered_leg r i l) (enumerate 0 (attached_exits r))"

fun materialize_legs ::
  "pending_order \<Rightarrow> string \<Rightarrow> rat \<Rightarrow> rat option \<Rightarrow> bool \<Rightarrow> (exit_leg \<times> string \<times> string) list \<Rightarrow>
   diagnostic_event list \<times> order_book \<Rightarrow> (diagnostic_event list \<times> order_book) outcome" where
  "materialize_legs po ts filled entry ev [] s = Inr s"
| "materialize_legs po ts filled entry ev ((l, why, cid) # ls) s =
     (case (case l of
              StopLeg sl \<Rightarrow> materialize_stop_child po ts filled entry why cid ev sl s
            | LimitLeg tp \<Rightarrow> materialize_limit_child po ts filled why cid tp s) of
        Inl e \<Rightarrow> Inl e
      | Inr s \<Rightarrow> materialize_legs po ts filled entry ev ls s)"

definition materialize_attached_exit_children ::
  "position option \<Rightarrow> pending_order \<Rightarrow> string \<Rightarrow> rat \<Rightarrow> bool \<Rightarrow> order_book \<Rightarrow>
   (diagnostic_event list \<times> order_book) outcome" where
  "materialize_attached_exit_children pos po ts filled with_events b =
     materialize_legs po ts filled (map_option entry_price pos) with_events (attached_legs (request po)) ([], b)"

text \<open>An entry given up after its first slice: the legs cover what was opened, and no events are kept.\<close>

definition materialize_on_abandon ::
  "portfolio \<Rightarrow> pending_order \<Rightarrow> string \<Rightarrow> order_book \<Rightarrow> order_book outcome" where
  "materialize_on_abandon pf po ts b =
     (if \<not> has_attached_exits (request po) then Inr b
      else case dget (positions pf) (symbol (request po)) of
        None \<Rightarrow> Inr b
      | Some pos \<Rightarrow>
          map_sum id snd
            (materialize_attached_exit_children (Some pos) po ts (pos_original_qty pos) False b))"

text \<open>The end-of-day sweep of the book, then the legs of each partially filled parent it expired.\<close>

fun protect_expired :: "portfolio \<Rightarrow> string \<Rightarrow> pending_order list \<Rightarrow> order_book \<Rightarrow> order_book outcome" where
  "protect_expired pf ts [] b = Inr b"
| "protect_expired pf ts (po # pos) b =
     (case (if 0 < cumulative_filled_qty po then materialize_on_abandon pf po ts b else Inr b) of
        Inl e \<Rightarrow> Inl e
      | Inr b \<Rightarrow> protect_expired pf ts pos b)"

definition expire_day_and_protect ::
  "portfolio \<Rightarrow> bar \<Rightarrow> order_book \<Rightarrow> (pending_order list \<times> order_book) outcome" where
  "expire_day_and_protect pf b bk =
     (let (expired, bk) = expire_day_orders (bar_timestamp b) bk
      in map_sum id (\<lambda>bk. (expired, bk)) (protect_expired pf (bar_timestamp b) expired bk))"

end
