(* ===== verification/FillSim.thy ===== *)
theory FillSim
  imports FillLegs
begin

text \<open>
  One fill tick (\<^verbatim>\<open>backend/agents/investment_team/trading_service/engine/fill_simulator.py\<close>): entry,
  continuation and exit money math, and \<open>process_bar\<close> over the pending orders of a symbol. The
  engine's state is the order book, the portfolio and the trade counter; what a tick reports
  (\<open>FillOutcome\<close>) is threaded beside it. An exception ends the tick with its error.
\<close>

section \<open>State\<close>

text \<open>What a simulator is built with. The execution model is the function it calls; the exit reconciler
  answers for a symbol, side, entry price and quantity (an exception in it counts as no answer).\<close>

record simulator =
  sim_limits :: risk_limits
  slippage_bps :: rat
  transaction_cost_bps :: rat
  bar_safety_enabled :: bool
  sim_terms :: "order_request \<Rightarrow> bar \<Rightarrow> bar option \<Rightarrow> fill_terms option outcome"
  exit_reconciler :: "(string \<Rightarrow> order_side \<Rightarrow> rat \<Rightarrow> rat \<Rightarrow> string option) option"

record engine =
  en_book :: order_book
  en_portfolio :: portfolio
  en_trade_num :: int

record trade_record =
  tr_trade_num :: int
  tr_entry_date :: string
  tr_exit_date :: string
  tr_symbol :: string
  tr_side :: order_side
  tr_entry_price :: rat
  tr_exit_price :: rat
  tr_shares :: rat
  tr_position_value :: rat
  tr_gross_pnl :: rat
  tr_net_pnl :: rat
  tr_return_pct :: rat
  tr_hold_days :: int
  tr_win :: bool
  tr_cumulative_pnl :: rat
  tr_entry_bid_price :: rat
  tr_exit_bid_price :: rat
  tr_entry_order_type :: order_type
  tr_exit_order_type :: order_type
  tr_participation_clipped :: bool
  tr_partial_fill_count :: int
  tr_total_unfilled_qty :: rat
  tr_entry_reason :: "string option"
  tr_exit_reason :: "string option"

record fill_outcome =
  entry_fills :: "fill list"
  exit_fills :: "fill list"
  closed_trades :: "trade_record list"
  diagnostic_events :: "diagnostic_event list"

definition no_fills :: fill_outcome where
  "no_fills = \<lparr>entry_fills = [], exit_fills = [], closed_trades = [], diagnostic_events = []\<rparr>"

definition add_event :: "diagnostic_event \<Rightarrow> fill_outcome \<Rightarrow> fill_outcome" where
  "add_event ev oc = oc\<lparr>diagnostic_events := diagnostic_events oc @ [ev]\<rparr>"

definition add_fill :: "bool \<Rightarrow> fill \<Rightarrow> fill_outcome \<Rightarrow> fill_outcome" where
  "add_fill entry_side f oc =
     (if entry_side then oc\<lparr>entry_fills := entry_fills oc @ [f]\<rparr> else oc\<lparr>exit_fills := exit_fills oc @ [f]\<rparr>)"

section \<open>Prices\<close>

text \<open>Long entry and short exit pay \<open>1 + s\<close>, long exit and short entry receive \<open>1 - s\<close>.\<close>

definition slip :: "simulator \<Rightarrow> rat \<Rightarrow> rat" where
  "slip sim extra = (slippage_bps sim + max 0 extra) / 10000"

definition slipped_price :: "simulator \<Rightarrow> fill_terms \<Rightarrow> bool \<Rightarrow> rat" where
  "slipped_price sim tm pays =
     py_round (price_decimals (reference_price tm))
       (reference_price tm * (if pays then 1 + slip sim (extra_slip_bps tm) else 1 - slip sim (extra_slip_bps tm)))"

definition clamped_fraction :: "fill_terms \<Rightarrow> rat" where
  "clamped_fraction tm = max 0 (min 1 (qty_fraction tm))"

definition rejected_fill :: "pending_order \<Rightarrow> rat \<Rightarrow> string \<Rightarrow> string \<Rightarrow> rat \<Rightarrow> fill" where
  "rejected_fill po price ts why unf =
     \<lparr>fill_order_id = po_id po, fill_client_order_id = client_order_id (request po),
      fill_symbol = symbol (request po), fill_side = side (request po), fill_qty = 0,
      fill_price = py_round (price_decimals price) price, fill_timestamp = ts, fill_reason = why,
      kind_of_fill = REJECTED, unfilled_qty = unf, fill_cumulative_qty = cumulative_filled_qty po\<rparr>"

definition real_fill :: "pending_order \<Rightarrow> string \<Rightarrow> order_side \<Rightarrow> rat \<Rightarrow> rat \<Rightarrow> string \<Rightarrow> string \<Rightarrow> rat \<Rightarrow> rat \<Rightarrow> fill" where
  "real_fill po sy sd q price ts why unf cum =
     \<lparr>fill_order_id = po_id po, fill_client_order_id = client_order_id (request po),
      fill_symbol = sy, fill_side = sd, fill_qty = q, fill_price = price,
      fill_timestamp = ts, fill_reason = why,
      kind_of_fill = (if 0 < unf then PARTIAL else FULL), unfilled_qty = unf, fill_cumulative_qty = cum\<rparr>"

section \<open>Entries\<close>

text \<open>What an entry attempt gives: the fill, the reason it was rejected, the events of the legs.\<close>

type_synonym entry_result = "fill option \<times> event_reason option \<times> diagnostic_event list \<times> engine"

definition no_liquidity :: "pending_order \<Rightarrow> string \<Rightarrow> rat \<Rightarrow> bool \<Rightarrow> engine \<Rightarrow> entry_result outcome" where
  "no_liquidity po ts ref was_filled en =
     (case handle_entry_remainder po ts (remaining_qty po) was_filled (en_book en) of
        Inl e \<Rightarrow> Inl e
      | Inr (po, bk) \<Rightarrow>
          Inr (Some (rejected_fill po ref ts ''rejected_no_liquidity'' (remaining_qty po)),
               Some (ReasonText ''zero_fill_qty''), [], en\<lparr>en_book := bk\<rparr>))"

text \<open>The remainder, then the protective legs when this fill was the entry's last.\<close>

definition settle_entry ::
  "pending_order \<Rightarrow> string \<Rightarrow> rat \<Rightarrow> (portfolio \<Rightarrow> rat) \<Rightarrow> fill \<Rightarrow> engine \<Rightarrow> entry_result outcome" where
  "settle_entry po ts unfilled covered f en =
     (case handle_entry_remainder po ts unfilled True (en_book en) of
        Inl e \<Rightarrow> Inl e
      | Inr (_, bk) \<Rightarrow>
          if has_attached_exits (request po) \<and> \<not> contains (po_id po) bk
          then (case materialize_attached_exit_children (dget (positions (en_portfolio en)) (symbol (request po)))
                       po ts (covered (en_portfolio en)) True bk of
                  Inl e \<Rightarrow> Inl e
                | Inr (evs, bk) \<Rightarrow> Inr (Some f, None, evs, en\<lparr>en_book := bk\<rparr>))
          else Inr (Some f, None, [], en\<lparr>en_book := bk\<rparr>))"

definition new_position :: "pending_order \<Rightarrow> string \<Rightarrow> fill_terms \<Rightarrow> rat \<Rightarrow> rat \<Rightarrow> rat \<Rightarrow> position" where
  "new_position po ts tm filled price clipped =
     (let r = request po
      in \<lparr>pos_symbol = symbol r, pos_side = side r, pos_qty = filled, entry_price = price,
          entry_bid_price = py_round (price_decimals (reference_price tm)) (reference_price tm),
          entry_timestamp = ts, entry_order_id = po_id po, entry_client_order_id = client_order_id r,
          entry_order_type = order_type r, entry_reason = reason r, pos_original_qty = filled,
          cumulative_exit_qty = 0, weighted_exit_price_sum = 0, weighted_exit_bid_sum = 0,
          partial_fill_count = 1, participation_clipped = 0 < clipped, total_unfilled_qty = clipped\<rparr>)"

definition fill_entry ::
  "simulator \<Rightarrow> pending_order \<Rightarrow> string \<Rightarrow> fill_terms \<Rightarrow> engine \<Rightarrow> entry_result outcome" where
  "fill_entry sim po ts tm en =
     (let r = request po; ref = reference_price tm; target = twap_slice_target po;
          filled = target * clamped_fraction tm; unfilled = remaining_qty po - filled;
          clipped = target - filled
      in if filled \<le> 0 then no_liquidity po ts ref False en
         else
           let notional = filled * ref;
               (equity, pf) = mark_to_market (en_portfolio en);
               en = en\<lparr>en_portfolio := pf\<rparr>;
               (allowed, why) = can_enter (sim_limits sim) notional equity (positions pf) (\<not> risk_presized r)
           in if \<not> allowed then Inr (None, Some (RiskGate why), [], en\<lparr>en_book := drop_order po False (en_book en)\<rparr>)
              else if capital pf < notional
              then Inr (None, Some (ReasonText ''insufficient_capital''), [],
                        en\<lparr>en_book := drop_order po False (en_book en)\<rparr>)
              else
                let price = slipped_price sim tm (side r = LONG)
                in case open_position (new_position po ts tm filled price clipped) pf of
                     Inl e \<Rightarrow> Inl e
                   | Inr pf \<Rightarrow>
                       let po = po\<lparr>working_against := Some (po_id po)\<rparr>
                       in settle_entry po ts unfilled (\<lambda>_. filled)
                            (real_fill po (symbol r) (side r) filled price ts ''entry'' unfilled filled)
                            (en\<lparr>en_portfolio := pf, en_book := store_order po (en_book en)\<rparr>))"

text \<open>The bookkeeping of a follow-on slice on the position it extends.\<close>

definition count_slice :: "rat \<Rightarrow> rat \<Rightarrow> position \<Rightarrow> position" where
  "count_slice filled clipped p =
     p\<lparr>pos_original_qty := pos_original_qty p + filled,
       participation_clipped := (participation_clipped p \<or> 0 < clipped),
       total_unfilled_qty := total_unfilled_qty p + clipped,
       partial_fill_count := partial_fill_count p + 1\<rparr>"

definition put_position :: "string \<Rightarrow> position \<Rightarrow> portfolio \<Rightarrow> portfolio" where
  "put_position sy p pf = pf\<lparr>positions := dset (positions pf) sy p\<rparr>"

definition grow_position ::
  "string \<Rightarrow> rat \<Rightarrow> rat \<Rightarrow> rat \<Rightarrow> rat \<Rightarrow> portfolio \<Rightarrow> portfolio outcome" where
  "grow_position sy filled price ref clipped pf =
     (case extend_position sy filled price (Some ref) pf of
        Inl e \<Rightarrow> Inl e
      | Inr (p, pf) \<Rightarrow> Inr (put_position sy (count_slice filled clipped p) pf))"

text \<open>A refused slice: the order goes, its parent stays registered, and the legs cover what is open.\<close>

definition abandon_entry ::
  "pending_order \<Rightarrow> string \<Rightarrow> event_reason \<Rightarrow> engine \<Rightarrow> entry_result outcome" where
  "abandon_entry po ts why en =
     map_sum id (\<lambda>bk. (None, Some why, [], en\<lparr>en_book := bk\<rparr>))
       (materialize_on_abandon (en_portfolio en) po ts (drop_order po True (en_book en)))"

definition held_original :: "string \<Rightarrow> portfolio \<Rightarrow> rat" where
  "held_original sy pf = (case dget (positions pf) sy of None \<Rightarrow> 0 | Some p \<Rightarrow> pos_original_qty p)"

definition continue_entry ::
  "simulator \<Rightarrow> pending_order \<Rightarrow> string \<Rightarrow> fill_terms \<Rightarrow> engine \<Rightarrow> entry_result outcome" where
  "continue_entry sim po ts tm en =
     (let r = request po; ref = reference_price tm; target = twap_slice_target po;
          filled = target * clamped_fraction tm; unfilled = remaining_qty po - filled;
          clipped = target - filled
      in if filled \<le> 0 then no_liquidity po ts ref True en
         else
           let price = slipped_price sim tm (side r = LONG)
           in case dget (positions (en_portfolio en)) (symbol r) of
                None \<Rightarrow> Inl (MissingKey (symbol r))
              | Some pos \<Rightarrow>
                  let (equity, pf) = mark_to_market (en_portfolio en);
                      en = en\<lparr>en_portfolio := pf\<rparr>;
                      others = filter (\<lambda>(s, p). s \<noteq> symbol r) (positions pf);
                      (allowed, why) = can_enter (sim_limits sim) ((pos_qty pos + filled) * price) equity others
                        (\<not> risk_presized r)
                  in if \<not> allowed then abandon_entry po ts (RiskGate why) en
                     else if capital pf < filled * price
                     then abandon_entry po ts (ReasonText ''insufficient_capital'') en
                     else case grow_position (symbol r) filled price ref clipped pf of
                       Inl e \<Rightarrow> Inl e
                     | Inr pf \<Rightarrow>
                         settle_entry po ts unfilled (held_original (symbol r))
                           (real_fill po (pos_symbol pos) (pos_side pos) filled price ts ''entry'' unfilled
                              (cumulative_filled_qty po + filled))
                           (en\<lparr>en_portfolio := pf\<rparr>))"

section \<open>Exits\<close>

definition date_diff :: "string \<Rightarrow> string \<Rightarrow> int" where
  "date_diff a b =
     (case (parse_date (take 10 a), parse_date (take 10 b)) of
        (Some (x, []), Some (y, [])) \<Rightarrow> \<bar>y - x\<bar>
      | _ \<Rightarrow> 0)"

definition has_prefix :: "string \<Rightarrow> string \<Rightarrow> bool" where
  "has_prefix s p \<longleftrightarrow> take (length p) s = p"

definition text_or_none :: "string \<Rightarrow> string option" where
  "text_or_none s = (if s = [] then None else Some s)"

definition exit_label :: "simulator \<Rightarrow> position \<Rightarrow> string \<Rightarrow> string option" where
  "exit_label sim pos why =
     (case exit_reconciler sim of
        None \<Rightarrow> text_or_none why
      | Some reconcile \<Rightarrow>
          if has_prefix (str_strip why) engine_exit_prefix then text_or_none why
          else (case reconcile (pos_symbol pos) (pos_side pos) (entry_price pos) (pos_original_qty pos) of
                  Some l \<Rightarrow> if l \<noteq> [] then Some l else text_or_none why
                | None \<Rightarrow> text_or_none why))"

definition gross_pnl :: "position \<Rightarrow> rat" where
  "gross_pnl pos =
     (if pos_side pos = LONG then (weighted_avg_exit_price pos - entry_price pos) * pos_original_qty pos
      else (entry_price pos - weighted_avg_exit_price pos) * pos_original_qty pos)"

definition net_pnl :: "simulator \<Rightarrow> position \<Rightarrow> rat" where
  "net_pnl sim pos =
     py_round 2 (gross_pnl pos -
       (entry_price pos * pos_original_qty pos + weighted_avg_exit_price pos * pos_original_qty pos) *
         (transaction_cost_bps sim / 10000))"

definition trade_of ::
  "simulator \<Rightarrow> position \<Rightarrow> order_request \<Rightarrow> string \<Rightarrow> nat \<Rightarrow> int \<Rightarrow> rat \<Rightarrow> trade_record" where
  "trade_of sim pos r ts dp num cum =
     (let net = net_pnl sim pos; basis = entry_price pos * pos_original_qty pos
      in \<lparr>tr_trade_num = num, tr_entry_date = take 10 (entry_timestamp pos), tr_exit_date = take 10 ts,
          tr_symbol = pos_symbol pos, tr_side = pos_side pos, tr_entry_price = entry_price pos,
          tr_exit_price = weighted_avg_exit_price pos, tr_shares = pos_original_qty pos,
          tr_position_value = py_round 2 basis, tr_gross_pnl = py_round 2 (gross_pnl pos), tr_net_pnl = net,
          tr_return_pct = py_round 2 (if 0 < basis then net / basis * 100 else 0),
          tr_hold_days = date_diff (entry_timestamp pos) ts, tr_win = 0 < net, tr_cumulative_pnl = cum,
          tr_entry_bid_price = entry_bid_price pos,
          tr_exit_bid_price = py_round dp (weighted_avg_exit_bid_price pos),
          tr_entry_order_type = entry_order_type pos, tr_exit_order_type = order_type r,
          tr_participation_clipped = participation_clipped pos,
          tr_partial_fill_count = partial_fill_count pos, tr_total_unfilled_qty = total_unfilled_qty pos,
          tr_entry_reason = text_or_none (entry_reason pos), tr_exit_reason = exit_label sim pos (reason r)\<rparr>)"

text \<open>The terminal part of an exit: book the result, drop the position and the order.\<close>

definition finish_trade ::
  "simulator \<Rightarrow> string \<Rightarrow> pending_order \<Rightarrow> position \<Rightarrow> string \<Rightarrow> nat \<Rightarrow> engine \<Rightarrow> trade_record \<times> engine" where
  "finish_trade sim sy po pos ts dp en =
     (let num = en_trade_num en + 1;
          pf = snd (close_position sy (weighted_avg_exit_price pos)
                 (record_pnl (net_pnl sim pos) (en_portfolio en)))
      in (trade_of sim pos (request po) ts dp num (cumulative_pnl pf),
          \<lparr>en_book = drop_order po False (en_book en), en_portfolio = pf, en_trade_num = num\<rparr>))"

text \<open>The first fill of a protective leg cancels its siblings.\<close>

definition cancel_siblings :: "pending_order \<Rightarrow> order_book \<Rightarrow> order_book outcome" where
  "cancel_siblings po b =
     (case (parent_order_id (request po), oco_group_id (request po)) of
        (Some parent, Some oco) \<Rightarrow>
          if cumulative_filled_qty po = 0
          then map_sum OrderErr snd (oco_cancel_siblings oco (po_id po) parent b)
          else Inr b
      | _ \<Rightarrow> Inr b)"

definition note_clip :: "rat \<Rightarrow> position \<Rightarrow> position" where
  "note_clip clipped p =
     (if 0 < clipped then p\<lparr>participation_clipped := True, total_unfilled_qty := total_unfilled_qty p + clipped\<rparr>
      else p)"

definition bind_to :: "position \<Rightarrow> pending_order \<Rightarrow> pending_order" where
  "bind_to pos po = (if working_against po = None then po\<lparr>working_against := Some (entry_order_id pos)\<rparr> else po)"

text \<open>After a slice: the order's remainder while the position is open, the trade once it is closed.\<close>

definition settle_exit ::
  "simulator \<Rightarrow> string \<Rightarrow> pending_order \<Rightarrow> position \<Rightarrow> string \<Rightarrow> nat \<Rightarrow> rat \<Rightarrow> fill \<Rightarrow> engine \<Rightarrow>
   (fill \<times> trade_record option \<times> engine) outcome" where
  "settle_exit sim sy po pos ts dp unfilled f en =
     (if \<not> is_closed pos
      then (case handle_exit_remainder po ts unfilled (en_book en) of
              Inl e \<Rightarrow> Inl e
            | Inr (_, bk) \<Rightarrow> Inr (f, None, en\<lparr>en_book := bk\<rparr>))
      else (let (t, en) = finish_trade sim sy po pos ts dp en in Inr (f, Some t, en)))"

definition fill_exit ::
  "simulator \<Rightarrow> string \<Rightarrow> pending_order \<Rightarrow> position \<Rightarrow> string \<Rightarrow> fill_terms \<Rightarrow> engine \<Rightarrow>
   (fill \<times> trade_record option \<times> engine) outcome" where
  "fill_exit sim sy po0 pos0 ts tm en0 =
     (let po = bind_to pos0 po0; en = en0\<lparr>en_book := store_order po (en_book en0)\<rparr>;
          ref = reference_price tm;
          price = slipped_price sim tm (pos_side pos0 \<noteq> LONG);
          fillable = min (twap_slice_target po) (pos_qty pos0);
          filled = fillable * clamped_fraction tm; unfilled = remaining_qty po - filled
      in if filled \<le> 0 then
           (case handle_exit_remainder po ts unfilled (en_book en) of
              Inl e \<Rightarrow> Inl e
            | Inr (po, bk) \<Rightarrow>
                Inr ((rejected_fill po ref ts ''rejected_no_liquidity'' (remaining_qty po))\<lparr>fill_symbol := pos_symbol pos0\<rparr>,
                     None, en\<lparr>en_book := bk\<rparr>))
         else
           (case cancel_siblings po (en_book en) of
              Inl e \<Rightarrow> Inl e
            | Inr bk \<Rightarrow>
                let pos = note_clip (fillable - filled) (reduce_position filled price ref pos0);
                    pf = put_position sy pos (snd (partial_close sy filled price ref (en_portfolio en)));
                    en = en\<lparr>en_book := bk, en_portfolio := pf\<rparr>;
                    f = real_fill po (pos_symbol pos0) (side (request po)) filled price ts ''exit'' unfilled
                          (cumulative_filled_qty po + filled)
                in settle_exit sim sy po pos ts (price_decimals ref) unfilled f en))"

section \<open>Events\<close>

definition record_entry_event ::
  "pending_order \<Rightarrow> string \<Rightarrow> fill option \<Rightarrow> event_reason option \<Rightarrow> fill_outcome \<Rightarrow> fill_outcome" where
  "record_entry_event po ts f rejection oc =
     (case rejection of
        Some why \<Rightarrow> add_event (event_for Rejected why po ts) oc
      | None \<Rightarrow> (case f of
          None \<Rightarrow> oc
        | Some fl \<Rightarrow> if kind_of_fill fl = REJECTED then oc
            else add_event (event_for EntryFilled (ReasonText (fill_kind_value (kind_of_fill fl))) po ts) oc))"

definition record_exit_event :: "pending_order \<Rightarrow> string \<Rightarrow> fill \<Rightarrow> fill_outcome \<Rightarrow> fill_outcome" where
  "record_exit_event po ts f oc =
     (if kind_of_fill f = REJECTED then add_event (event_for Rejected (ReasonText ''zero_fill_qty'') po ts) oc
      else add_event (event_for ExitFilled (ReasonText (fill_kind_value (kind_of_fill f))) po ts) oc)"

section \<open>One order against one bar\<close>

text \<open>Orders the tick leaves alone: not armed yet, or bound by the engine on this bar or later.\<close>

definition deferred :: "bar \<Rightarrow> pending_order \<Rightarrow> bool" where
  "deferred b po \<longleftrightarrow>
     \<not> armed po \<or> (working_against po \<noteq> None \<and> ts_le (bar_timestamp b) (submitted_at po))"

definition stale :: "position option \<Rightarrow> pending_order \<Rightarrow> bool" where
  "stale existing po \<longleftrightarrow>
     (0 < cumulative_filled_qty po \<or> working_against po \<noteq> None) \<and>
     (case existing of None \<Rightarrow> True
      | Some pos \<Rightarrow> working_against po \<noteq> None \<and> working_against po \<noteq> Some (entry_order_id pos))"

definition continues_entry :: "position option \<Rightarrow> pending_order \<Rightarrow> bool" where
  "continues_entry existing po \<longleftrightarrow>
     (case existing of None \<Rightarrow> False
      | Some pos \<Rightarrow> entry_order_id pos = po_id po \<and> 0 < cumulative_filled_qty po)"

definition same_side_addon :: "position option \<Rightarrow> pending_order \<Rightarrow> bool" where
  "same_side_addon existing po \<longleftrightarrow>
     (case existing of None \<Rightarrow> False
      | Some pos \<Rightarrow> \<not> continues_entry existing po \<and> side (request po) = pos_side pos)"

text \<open>Arming of a stop-limit: only on a bar after its submission, binding an exit to its position.\<close>

definition arm_stop_limit ::
  "bar \<Rightarrow> position option \<Rightarrow> pending_order \<Rightarrow> (bool \<times> pending_order) outcome" where
  "arm_stop_limit b existing po =
     (if ts_le (bar_timestamp b) (submitted_at po) \<or> stop_limit_armed po then Inr (False, po)
      else case stop_limit_triggered (request po) b of
        Inl e \<Rightarrow> Inl e
      | Inr False \<Rightarrow> Inr (False, po)
      | Inr True \<Rightarrow>
          let po = po\<lparr>stop_limit_armed := True\<rparr>
          in Inr (True,
               case existing of
                 Some pos \<Rightarrow> if side (request po) \<noteq> pos_side pos then bind_to pos po else po
               | None \<Rightarrow> po))"

definition effective_request :: "bar \<Rightarrow> pending_order \<Rightarrow> order_request" where
  "effective_request b po =
     (let r = request po
      in if order_type r = TRAILING_STOP \<and> effective_stop_price po \<noteq> None
         then r\<lparr>order_type := STOP, stop_price := effective_stop_price po\<rparr>
         else if order_type r = STOP_LIMIT \<and> stop_limit_armed po
         then r\<lparr>stop_price := Some (if side r = SHORT then bar_high b else bar_low b)\<rparr>
         else r)"

text \<open>The order ready to be offered to the execution model, and whether this bar armed it.\<close>

definition prepare :: "bar \<Rightarrow> position option \<Rightarrow> pending_order \<Rightarrow> (bool \<times> pending_order) outcome" where
  "prepare b existing po =
     (let po = update_trailing b po
      in if order_type (request po) = STOP_LIMIT then arm_stop_limit b existing po else Inr (False, po))"

definition untriggered_twap :: "pending_order \<Rightarrow> string \<Rightarrow> engine \<Rightarrow> engine outcome" where
  "untriggered_twap po ts en =
     (case twap_slices_remaining po of
        None \<Rightarrow> Inr en
      | Some n \<Rightarrow>
          if unfilled_policy (request po) \<noteq> Some TWAP_N then Inr en
          else
            let was_filled = 0 < cumulative_filled_qty po
            in if n - 1 \<le> 0 then
                 (let bk = drop_order po was_filled (en_book en)
                  in if was_filled
                     then map_sum id (\<lambda>bk. en\<lparr>en_book := bk\<rparr>) (materialize_on_abandon (en_portfolio en) po ts bk)
                     else Inr (en\<lparr>en_book := bk\<rparr>))
               else map_sum id (\<lambda>(_, bk). en\<lparr>en_book := bk\<rparr>)
                      (requeue_order po (remaining_qty po) ts (Some (n - 1)) was_filled (en_book en)))"

text \<open>The order did not trigger.\<close>

definition no_trigger ::
  "bar \<Rightarrow> position option \<Rightarrow> bool \<Rightarrow> bool \<Rightarrow> pending_order \<Rightarrow> engine \<times> fill_outcome \<Rightarrow>
   (engine \<times> fill_outcome) outcome" where
  "no_trigger b existing entry_side just_armed po s =
     (let (en, oc) = s; r = request po; ts = bar_timestamp b;
          oc = (if just_armed then add_event (event_for StopLimitUnfilled (ReasonText ''stop_limit_gap_through'') po ts) oc
                else oc);
          gone = en\<lparr>en_book := drop_order po False (en_book en)\<rparr>
      in if tif r = IOC \<or> tif r = FOK then
           (if same_side_addon existing po
            then Inr (gone, add_event (event_for Rejected (ReasonText ''same_side_order_ignored'') po ts) oc)
            else Inr (gone,
              add_event (event_for Rejected (ReasonText (tif_value (tif r) @ ''_no_trigger'')) po ts)
                (add_fill entry_side
                  (rejected_fill po (bar_close b) ts (''rejected_'' @ tif_value (tif r) @ ''_no_trigger'')
                    (remaining_qty po)) oc)))
         else map_sum id (\<lambda>en. (en, oc)) (untriggered_twap po ts en))"

definition fok_unfillable :: "position option \<Rightarrow> bool \<Rightarrow> fill_terms \<Rightarrow> pending_order \<Rightarrow> bool" where
  "fok_unfillable existing entry_side tm po \<longleftrightarrow>
     tif (request po) = FOK \<and> \<not> same_side_addon existing po \<and>
     (qty_fraction tm < 1 \<or>
      (\<not> entry_side \<and> (case existing of None \<Rightarrow> False
         | Some pos \<Rightarrow> side (request po) \<noteq> pos_side pos \<and> pos_qty pos < remaining_qty po)))"

definition entry_attempt ::
  "simulator \<Rightarrow> bool \<Rightarrow> pending_order \<Rightarrow> string \<Rightarrow> fill_terms \<Rightarrow> engine \<times> fill_outcome \<Rightarrow>
   (engine \<times> fill_outcome) outcome" where
  "entry_attempt sim continuing po ts tm s =
     (let (en, oc) = s
      in case (if continuing then continue_entry sim po ts tm en else fill_entry sim po ts tm en) of
           Inl e \<Rightarrow> Inl e
         | Inr (f, rejection, evs, en) \<Rightarrow>
             let oc = oc\<lparr>diagnostic_events := diagnostic_events oc @ evs\<rparr>;
                 oc = (case f of None \<Rightarrow> oc | Some fl \<Rightarrow> add_fill True fl oc)
             in Inr (en, record_entry_event po ts f rejection oc))"

definition exit_attempt ::
  "simulator \<Rightarrow> string \<Rightarrow> position \<Rightarrow> pending_order \<Rightarrow> string \<Rightarrow> fill_terms \<Rightarrow> engine \<times> fill_outcome \<Rightarrow>
   (engine \<times> fill_outcome) outcome" where
  "exit_attempt sim sy pos po ts tm s =
     (let (en, oc) = s
      in if side (request po) = pos_side pos
         then Inr (en\<lparr>en_book := drop_order po False (en_book en)\<rparr>,
                   add_event (event_for Rejected (ReasonText ''same_side_order_ignored'') po ts) oc)
         else (case fill_exit sim sy po pos ts tm en of
                 Inl e \<Rightarrow> Inl e
               | Inr (f, t, en) \<Rightarrow>
                   let oc = record_exit_event po ts f (add_fill False f oc)
                   in Inr (en, case t of None \<Rightarrow> oc
                     | Some tr \<Rightarrow>
                         let oc = oc\<lparr>closed_trades := closed_trades oc @ [tr]\<rparr>
                         in if has_prefix (reason (request po)) engine_exit_prefix
                            then add_event (event_for EngineExitFilled (ReasonText (reason (request po))) po ts) oc
                            else oc)))"

text \<open>The order triggered with these terms.\<close>

definition triggered ::
  "simulator \<Rightarrow> bar \<Rightarrow> position option \<Rightarrow> bool \<Rightarrow> fill_terms \<Rightarrow> pending_order \<Rightarrow> engine \<times> fill_outcome \<Rightarrow>
   (engine \<times> fill_outcome) outcome" where
  "triggered sim b existing entry_side tm po s =
     (let (en, oc) = s; ts = bar_timestamp b
      in case check_fill (bar_safety_enabled sim) (po_id po) (submitted_at po) ts of
           Inl e \<Rightarrow> Inl e
         | Inr _ \<Rightarrow>
             if fok_unfillable existing entry_side tm po
             then Inr (en\<lparr>en_book := drop_order po False (en_book en)\<rparr>,
                       add_event (event_for Rejected (ReasonText ''fok_partial'') po ts)
                         (add_fill entry_side
                           (rejected_fill po (reference_price tm) ts ''rejected_fok_partial'' (qty (request po))) oc))
             else (case existing of
                     None \<Rightarrow> entry_attempt sim False po ts tm s
                   | Some pos \<Rightarrow>
                       if continues_entry existing po then entry_attempt sim True po ts tm s
                       else exit_attempt sim (bar_symbol b) pos po ts tm s))"

definition process_order ::
  "simulator \<Rightarrow> bar \<Rightarrow> bar option \<Rightarrow> string \<Rightarrow> engine \<times> fill_outcome \<Rightarrow> (engine \<times> fill_outcome) outcome" where
  "process_order sim b nb oid s =
     (let (en, oc) = s
      in case dget (pending (en_book en)) oid of
           None \<Rightarrow> Inr s
         | Some po \<Rightarrow>
             if deferred b po then Inr s
             else
               let existing = dget (positions (en_portfolio en)) (bar_symbol b)
               in if stale existing po then Inr (en\<lparr>en_book := drop_order po False (en_book en)\<rparr>, oc)
                  else (case prepare b existing po of
                          Inl e \<Rightarrow> Inl e
                        | Inr (just_armed, po) \<Rightarrow>
                            let en = en\<lparr>en_book := store_order po (en_book en)\<rparr>;
                                entry_side = (existing = None \<or> continues_entry existing po)
                            in (case sim_terms sim (effective_request b po) b nb of
                                  Inl e \<Rightarrow> Inl e
                                | Inr None \<Rightarrow> no_trigger b existing entry_side just_armed po (en, oc)
                                | Inr (Some tm) \<Rightarrow> triggered sim b existing entry_side tm po (en, oc))))"

section \<open>One bar\<close>

fun process_orders ::
  "simulator \<Rightarrow> bar \<Rightarrow> bar option \<Rightarrow> string list \<Rightarrow> engine \<times> fill_outcome \<Rightarrow> (engine \<times> fill_outcome) outcome" where
  "process_orders sim b nb [] s = Inr s"
| "process_orders sim b nb (oid # oids) s =
     (case process_order sim b nb oid s of
        Inl e \<Rightarrow> Inl e
      | Inr s \<Rightarrow> process_orders sim b nb oids s)"

definition process_bar :: "simulator \<Rightarrow> bar \<Rightarrow> bar option \<Rightarrow> engine \<Rightarrow> (engine \<times> fill_outcome) outcome" where
  "process_bar sim b nb en =
     (let (live, bk) = pending_for_symbol (bar_symbol b) (en_book en)
      in process_orders sim b nb (map po_id live) (en\<lparr>en_book := bk\<rparr>, no_fills))"

end
