(* ===== verification/FillInv.thy ===== *)
theory FillInv
  imports FillSim OrderBookProps
begin

text \<open>
  What one order may change in the order book during a fill tick, and the invariant of positions. The
  relation \<open>touches\<close> is shared by every book operation of the tick: the book's invariant is kept, and of
  the orders issued before only \<open>oid\<close> may have changed; any other is as it was or gone.
\<close>

section \<open>Touching one order\<close>

definition touches :: "string \<Rightarrow> order_book \<Rightarrow> order_book \<Rightarrow> bool" where
  "touches oid b b' \<longleftrightarrow>
     book_inv id b' \<and> next_id b \<le> next_id b' \<and>
     (\<forall>k po. k \<noteq> oid \<longrightarrow> issued b k \<longrightarrow> dget (pending b') k = Some po \<longrightarrow> dget (pending b) k = Some po)"

lemma touchesI:
  "book_inv id b' \<Longrightarrow> next_id b \<le> next_id b' \<Longrightarrow>
   (\<And>k po. k \<noteq> oid \<Longrightarrow> issued b k \<Longrightarrow> dget (pending b') k = Some po \<Longrightarrow> dget (pending b) k = Some po) \<Longrightarrow>
   touches oid b b'"
  by (simp add: touches_def)

lemma touchesD:
  assumes "touches oid b b'"
  shows "book_inv id b'" "next_id b \<le> next_id b'"
    "k \<noteq> oid \<Longrightarrow> issued b k \<Longrightarrow> dget (pending b') k = Some po \<Longrightarrow> dget (pending b) k = Some po"
  using assms unfolding touches_def by blast+

lemma touches_refl [intro]: "book_inv id b \<Longrightarrow> touches oid b b"
  by (simp add: touches_def)

lemma issued_mono: "issued b k \<Longrightarrow> next_id b \<le> next_id b' \<Longrightarrow> issued b' k"
  by (auto simp: issued_def intro: le_trans)

lemma touches_trans [trans]:
  assumes "touches oid a b" and "touches oid b c"
  shows "touches oid a c"
proof (rule touchesI)
  show "book_inv id c" by (rule touchesD(1) [OF assms(2)])
  show "next_id a \<le> next_id c" using touchesD(2) [OF assms(1)] touchesD(2) [OF assms(2)] by simp
next
  fix k po
  assume k: "k \<noteq> oid" "issued a k" "dget (pending c) k = Some po"
  have "issued b k" by (rule issued_mono [OF k(2) touchesD(2) [OF assms(1)]])
  from touchesD(3) [OF assms(1) k(1,2) touchesD(3) [OF assms(2) k(1) this k(3)]]
  show "dget (pending a) k = Some po" .
qed

lemma pending_id:
  assumes "book_inv id b" and "dget (pending b) k = Some po"
  shows "po_id po = k" "issued b k" "qty_ok id po"
proof -
  note i = indexes_okD [OF book_inv_xD(1) [OF assms(1)]]
  show "po_id po = k" using i(2) assms(2) by (simp add: ids_match_def)
  show "issued b k" by (rule i(3)) (simp add: has_key_def assms(2))
  show "qty_ok id po" using book_inv_xD(3) [OF assms(1)] assms(2) by (auto simp: quantities_ok_def)
qed

lemma next_id_fold:
  "(\<And>c b. next_id (f c b) = next_id b) \<Longrightarrow> next_id (fold f cs b) = next_id b"
  by (induction cs arbitrary: b) auto

lemma next_id_remove_fuel [simp]: "next_id (remove_fuel n filled oid b) = next_id b"
proof (induction n arbitrary: filled oid b)
  case (Suc n)
  show ?case
    by (auto simp: scan_children_eq Let_def next_id_fold [OF Suc.IH] split: option.split)
qed simp

lemma next_id_remove [simp]: "next_id (snd (remove_order oid filled b)) = next_id b"
  by (simp add: remove_order_def)

lemma drop_touches:
  assumes "book_inv id b"
  shows "touches oid b (drop_order po filled b)"
  using remove_order_correct [OF assms, of "po_id po" filled]
  by (auto simp: touches_def drop_order_def split: if_splits)

lemma drop_gone:
  assumes "book_inv id b"
  shows "dget (pending (drop_order po filled b)) (po_id po) = None"
  using remove_order_correct [OF assms, of "po_id po" filled]
  by (auto simp: drop_order_def removed_with_def split: if_splits option.splits)

lemma store_touches:
  assumes "book_inv id b" and "dget (pending b) (po_id po) = Some po0" and "request po = request po0"
    and "qty_ok id po"
  shows "touches (po_id po) b (store_order po b)"
proof (rule touchesI)
  show "book_inv id (store_order po b)"
    unfolding store_order_def using replace_inv [OF assms(1,2,3) _ assms(4)] pending_id(1) [OF assms(1,2)] by simp
qed (auto simp: store_order_def)

lemma requeue_touches:
  assumes "book_inv id b" and "requeue id oid q ts sl filled b = Inr (po', b')"
  shows "touches oid b b'"
proof (rule touchesI)
  show "book_inv id b'" by (rule requeue_inv [OF assms])
  from assms(2) show "next_id b \<le> next_id b'" by (rule requeue_Inr) auto
next
  fix k po
  assume k: "k \<noteq> oid" "issued b k" "dget (pending b') k = Some po"
  from assms(2) show "dget (pending b) k = Some po"
  proof (rule requeue_Inr)
    fix po0 q0 q1
    assume po: "dget (pending b) oid = Some po0" and po': "po' = requeue_result id ts q1 sl po0"
      and b': "b' = (if q1 = 0 then snd (remove_order oid filled (b\<lparr>pending := dset (pending b) oid po'\<rparr>))
           else b\<lparr>pending := dset (pending b) oid po'\<rparr>)"
    show ?thesis
    proof (cases "q1 = 0")
      case True
      have "b' = snd (remove_order oid filled b)"
        using b' True remove_order_replaced [OF po, of po' filled] po' by simp
      with remove_order_correct [OF assms(1), of oid filled] k(3) show ?thesis by (auto split: if_splits)
    next
      case False
      with b' k show ?thesis by simp
    qed
  qed
qed

lemma requeue_same:
  assumes "requeue id oid q ts sl filled b = Inr (po', b')"
  shows "\<exists>po. dget (pending b) oid = Some po \<and> request po' = request po \<and> po_id po' = po_id po \<and>
    original_qty po' = original_qty po"
  using assms by (rule requeue_Inr) (auto simp: requeue_result_def)

lemma remainder_touches:
  assumes "book_inv id b" and "handle_entry_remainder po ts q filled b = Inr (po', b')"
  shows "touches (po_id po) b b'"
  using assms drop_touches [OF assms(1)] requeue_touches [OF assms(1)]
  by (auto simp: handle_entry_remainder_def Let_def map_sum_eq_Inr split: if_splits)

lemma remainder_same:
  assumes "book_inv id b" and "handle_entry_remainder po ts q filled b = Inr (po', b')"
    and "dget (pending b) (po_id po) = Some po0" and "request po0 = request po"
  shows "request po' = request po \<and> po_id po' = po_id po"
  using assms pending_id(1) [OF assms(1,3)]
  by (auto simp: handle_entry_remainder_def Let_def map_sum_eq_Inr split: if_splits dest!: requeue_same)

lemma submit_attached_Inr:
  assumes "submit_attached r ts eq parent oco b = Inr (po, b')"
  shows "po = new_order (order_name (next_id b + 1)) (r\<lparr>parent_order_id := Some parent, oco_group_id := Some oco\<rparr>)
      ts eq (\<not> has_key (pending b) parent)"
    "pending b' = dset (pending b) (order_name (next_id b + 1)) po" "next_id b' = next_id b + 1"
    "known_top_level b' = known_top_level b"
  using assms by (auto simp: submit_attached_def Let_def split: if_splits option.splits)

lemma leg_touches:
  assumes inv: "book_inv id b" and leg: "submit_leg r po ts b = Inr (child, bk)"
    and same: "request child' = request child" "po_id child' = po_id child"
      "remaining_qty child' = remaining_qty child" "original_qty child' = original_qty child"
      "cumulative_filled_qty child' = cumulative_filled_qty child"
  shows "touches oid b (store_order child' bk)"
proof -
  from leg have q: "0 < qty r"
    and s: "submit_attached r ts (submitted_equity po) (po_id po) (oco_name po) b = Inr (child, bk)"
    by (auto simp: submit_leg_def map_sum_eq_Inr split: if_splits)
  have inv': "book_inv id bk" by (rule submit_attached_inv [OF inv q _ s]) simp
  note c = submit_attached_Inr [OF s]
  have "dget (pending bk) (po_id child') = Some child" using c(1,2) same(2) by simp
  moreover have "qty_ok id child'" using q c(1) same by (simp add: qty_ok_def)
  ultimately have t: "touches (po_id child') bk (store_order child' bk)"
    using store_touches [OF inv' _ same(1)] by blast
  show ?thesis
  proof (rule touchesI)
    show "book_inv id (store_order child' bk)" by (rule touchesD(1) [OF t])
    show "next_id b \<le> next_id (store_order child' bk)" using c(3) by (simp add: store_order_def)
  next
    fix k p
    assume k: "issued b k" "dget (pending (store_order child' bk)) k = Some p"
    have "k \<noteq> order_name (next_id b + 1)" using k(1) fresh_name by blast
    with k c same(2) show "dget (pending b) k = Some p" by (simp add: store_order_def)
  qed
qed

lemma seed_trailing_same [simp]:
  "request (seed_trailing r e sl c) = request c" "po_id (seed_trailing r e sl c) = po_id c"
  "remaining_qty (seed_trailing r e sl c) = remaining_qty c" "original_qty (seed_trailing r e sl c) = original_qty c"
  "cumulative_filled_qty (seed_trailing r e sl c) = cumulative_filled_qty c"
  "submitted_at (seed_trailing r e sl c) = submitted_at c" "armed (seed_trailing r e sl c) = armed c"
  "working_against (seed_trailing r e sl c) = working_against c"
  by (simp_all add: seed_trailing_def Let_def split: option.splits)

lemma stop_child_touches:
  assumes "book_inv id (snd s)" and "materialize_stop_child po ts q e why cid ev sl s = Inr s'"
  shows "touches oid (snd s) (snd s')"
  using assms
  by (auto simp: materialize_stop_child_def Let_def case_prod_unfold split: sum.splits prod.splits intro!: leg_touches)

lemma limit_child_touches:
  assumes "book_inv id (snd s)" and "materialize_limit_child po ts q why cid tp s = Inr s'"
  shows "touches oid (snd s) (snd s')"
  using assms
  by (auto simp: materialize_limit_child_def Let_def case_prod_unfold split: sum.splits prod.splits intro!: leg_touches)

lemma legs_touch:
  "materialize_legs po ts q e ev ls s = Inr s' \<Longrightarrow> book_inv id (snd s) \<Longrightarrow> touches oid (snd s) (snd s')"
proof (induction po ts q e ev ls s arbitrary: s' rule: materialize_legs.induct)
  case (2 po ts q e ev l why cid ls s)
  from "2.prems"(1) obtain s1 where one: "(case l of
      StopLeg sl \<Rightarrow> materialize_stop_child po ts q e why cid ev sl s
    | LimitLeg tp \<Rightarrow> materialize_limit_child po ts q why cid tp s) = Inr s1"
    and rest: "materialize_legs po ts q e ev ls s1 = Inr s'"
    by (auto split: sum.splits)
  have t: "touches oid (snd s) (snd s1)"
    using one stop_child_touches [OF "2.prems"(2)] limit_child_touches [OF "2.prems"(2)]
    by (auto split: exit_leg.splits)
  from "2.IH" [OF one rest touchesD(1) [OF t]] t show ?case by (rule touches_trans [rotated])
qed auto

lemma children_touch:
  "materialize_attached_exit_children pos po ts q ev b = Inr (evs, b') \<Longrightarrow> book_inv id b \<Longrightarrow> touches oid b b'"
  unfolding materialize_attached_exit_children_def using legs_touch [where s = "([], b)"] by fastforce

lemma abandon_touches:
  "materialize_on_abandon pf po ts b = Inr b' \<Longrightarrow> book_inv id b \<Longrightarrow> touches oid b b'"
  by (auto simp: materialize_on_abandon_def map_sum_eq_Inr split: if_splits option.splits intro: children_touch)

lemma next_id_oco:
  "oco_loop oco keep parent oids b acc = Inr (gone, b') \<Longrightarrow> next_id b' = next_id b"
  by (induction oco keep parent oids b acc rule: oco_loop.induct) (auto split: option.splits if_splits)

lemma siblings_touch:
  assumes "book_inv id b" and "cancel_siblings po b = Inr b'"
  shows "touches (po_id po) b b' \<and> dget (pending b') (po_id po) = dget (pending b) (po_id po)"
proof (cases "b' = b")
  case True
  with assms(1) show ?thesis by auto
next
  case False
  with assms(2) obtain parent oco gone where
    c: "oco_cancel_siblings oco (po_id po) parent b = Inr (gone, b')"
    by (auto simp: cancel_siblings_def map_sum_eq_Inr split: option.splits if_splits)
  have oc: "oco_loop oco (po_id po) parent (dkeys (pending b)) b [] = Inr (gone, b')"
    using oco_cancel_Inr [OF c] by blast
  from oco_loop_correct [OF assms(1) pending_keys [OF assms(1)], of oco "po_id po" parent "[]"] oc
  have p: "dget (pending b') k = (if k \<in> set (dkeys (pending b)) \<and> sibling oco parent (po_id po) b k
      then None else dget (pending b) k)" for k by simp
  have "touches (po_id po) b b'"
    using p next_id_oco [OF oc] oco_cancel_inv [OF assms(1) c] by (auto simp: touches_def split: if_splits)
  moreover have "dget (pending b') (po_id po) = dget (pending b) (po_id po)"
    unfolding p by (simp add: sibling_def)
  ultimately show ?thesis ..
qed

end
