(* ===== verification/FillEffect.thy ===== *)
theory FillEffect
  imports FillInv
begin

text \<open>
  The contract of one order against one bar (\<open>order_effect\<close>): it does nothing to the account, opens a
  position, grows the one it opened, or takes a slice off a position, closing it when nothing is left.
  \<open>process_order\<close> refines it, and keeps the invariant of the engine.
\<close>

section \<open>The invariant\<close>

definition position_ok :: "position \<Rightarrow> bool" where
  "position_ok p \<longleftrightarrow>
     0 < pos_qty p \<and> 0 \<le> cumulative_exit_qty p \<and> pos_qty p + cumulative_exit_qty p = pos_original_qty p \<and>
     \<not> is_closed p"

definition positions_ok :: "(string, position) pydict \<Rightarrow> bool" where
  "positions_ok ps \<longleftrightarrow> wf_dict ps \<and> (\<forall>sy p. dget ps sy = Some p \<longrightarrow> pos_symbol p = sy \<and> position_ok p)"

definition engine_inv :: "engine \<Rightarrow> bool" where
  "engine_inv en \<longleftrightarrow> book_inv id (en_book en) \<and> positions_ok (positions (en_portfolio en))"

lemma positions_okD:
  "positions_ok ps \<Longrightarrow> dget ps sy = Some p \<Longrightarrow> pos_symbol p = sy \<and> position_ok p"
  "positions_ok ps \<Longrightarrow> wf_dict ps"
  by (simp_all add: positions_ok_def)

lemma positions_ok_put:
  "positions_ok ps \<Longrightarrow> pos_symbol p = sy \<Longrightarrow> position_ok p \<Longrightarrow> positions_ok (dset ps sy p)"
  by (simp add: positions_ok_def)

lemma positions_ok_del: "positions_ok ps \<Longrightarrow> positions_ok (ddel ps sy)"
  by (simp add: positions_ok_def)

lemma mark_to_market_frame [simp]:
  "positions (snd (mark_to_market pf)) = positions pf" "capital (snd (mark_to_market pf)) = capital pf"
  "cumulative_pnl (snd (mark_to_market pf)) = cumulative_pnl pf"
  "last_price (snd (mark_to_market pf)) = last_price pf" "fst (mark_to_market pf) = equity_of pf"
  by (simp_all add: mark_to_market_def Let_def)

lemma record_pnl_frame [simp]:
  "positions (record_pnl n pf) = positions pf" "capital (record_pnl n pf) = capital pf"
  by (simp_all add: record_pnl_def)

lemma put_position_frame [simp]:
  "positions (put_position sy p pf) = dset (positions pf) sy p" "capital (put_position sy p pf) = capital pf"
  "cumulative_pnl (put_position sy p pf) = cumulative_pnl pf"
  by (simp_all add: put_position_def)

section \<open>The contract\<close>

text \<open>A fill of a slice of \<open>po\<close>: its share of the order, with the accounts of the order adding up.\<close>

definition slice_of :: "pending_order \<Rightarrow> fill \<Rightarrow> bool" where
  "slice_of po f \<longleftrightarrow>
     fill_order_id f = po_id po \<and> 0 < fill_qty f \<and> fill_qty f \<le> remaining_qty po \<and>
     fill_cumulative_qty f = cumulative_filled_qty po + fill_qty f \<and>
     fill_cumulative_qty f + unfilled_qty f = original_qty po \<and>
     kind_of_fill f = (if unfilled_qty f = 0 then FULL else PARTIAL)"

definition refusal_of :: "pending_order \<Rightarrow> fill \<Rightarrow> bool" where
  "refusal_of po f \<longleftrightarrow> fill_order_id f = po_id po \<and> fill_qty f = 0 \<and> kind_of_fill f = REJECTED"

text \<open>A closed position pays back its residual, which is at most the tolerance, rounded to cents.\<close>

definition dust_of :: "trade_record \<Rightarrow> rat \<Rightarrow> rat \<Rightarrow> bool" where
  "dust_of t rest d \<longleftrightarrow>
     0 \<le> rest \<and> rest \<le> tr_shares t * fill_qty_rel_tol \<and> d = py_round 2 (rest * tr_exit_price t)"

inductive order_effect ::
  "simulator \<Rightarrow> bar \<Rightarrow> pending_order \<Rightarrow> portfolio \<Rightarrow> portfolio \<Rightarrow> fill list \<Rightarrow> fill list \<Rightarrow> trade_record list \<Rightarrow> bool"
  for sim :: simulator and b :: bar and po :: pending_order and pf :: portfolio where
  effect_none:
    "positions pf' = positions pf \<Longrightarrow> capital pf' = capital pf \<Longrightarrow> cumulative_pnl pf' = cumulative_pnl pf \<Longrightarrow>
     \<forall>f \<in> set (ef @ xf). refusal_of po f \<Longrightarrow>
     order_effect sim b po pf pf' ef xf []"
| effect_open:
    "check_fill (bar_safety_enabled sim) (po_id po) (submitted_at po) (bar_timestamp b) = Inr () \<Longrightarrow>
     slice_of po f \<Longrightarrow> dget (positions pf) (bar_symbol b) = None \<Longrightarrow>
     positions pf' = dset (positions pf) (bar_symbol b) p \<Longrightarrow>
     pos_qty p = fill_qty f \<Longrightarrow> entry_price p = fill_price f \<Longrightarrow> pos_side p = side (request po) \<Longrightarrow>
     entry_order_id p = po_id po \<Longrightarrow>
     capital pf' = capital pf - fill_qty f * fill_price f \<Longrightarrow> cumulative_pnl pf' = cumulative_pnl pf \<Longrightarrow>
     order_effect sim b po pf pf' [f] [] []"
| effect_grow:
    "check_fill (bar_safety_enabled sim) (po_id po) (submitted_at po) (bar_timestamp b) = Inr () \<Longrightarrow>
     slice_of po f \<Longrightarrow> dget (positions pf) (bar_symbol b) = Some p \<Longrightarrow> entry_order_id p = po_id po \<Longrightarrow>
     positions pf' = dset (positions pf) (bar_symbol b) p' \<Longrightarrow>
     pos_qty p' = pos_qty p + fill_qty f \<Longrightarrow> entry_order_id p' = po_id po \<Longrightarrow> pos_side p' = pos_side p \<Longrightarrow>
     fill_qty f * fill_price f \<le> capital pf \<Longrightarrow>
     capital pf' = capital pf - fill_qty f * fill_price f \<Longrightarrow> cumulative_pnl pf' = cumulative_pnl pf \<Longrightarrow>
     order_effect sim b po pf pf' [f] [] []"
| effect_reduce:
    "check_fill (bar_safety_enabled sim) (po_id po) (submitted_at po) (bar_timestamp b) = Inr () \<Longrightarrow>
     slice_of po f \<Longrightarrow> dget (positions pf) (bar_symbol b) = Some p \<Longrightarrow> side (request po) \<noteq> pos_side p \<Longrightarrow>
     positions pf' = dset (positions pf) (bar_symbol b) p' \<Longrightarrow>
     pos_qty p' = pos_qty p - fill_qty f \<Longrightarrow> entry_order_id p' = entry_order_id p \<Longrightarrow> pos_side p' = pos_side p \<Longrightarrow>
     capital pf' = capital pf + fill_qty f * fill_price f \<Longrightarrow> cumulative_pnl pf' = cumulative_pnl pf \<Longrightarrow>
     order_effect sim b po pf pf' [] [f] []"
| effect_close:
    "check_fill (bar_safety_enabled sim) (po_id po) (submitted_at po) (bar_timestamp b) = Inr () \<Longrightarrow>
     slice_of po f \<Longrightarrow> dget (positions pf) (bar_symbol b) = Some p \<Longrightarrow> side (request po) \<noteq> pos_side p \<Longrightarrow>
     positions pf' = ddel (positions pf) (bar_symbol b) \<Longrightarrow>
     tr_symbol t = bar_symbol b \<Longrightarrow> tr_side t = pos_side p \<Longrightarrow> tr_shares t = pos_original_qty p \<Longrightarrow>
     tr_entry_price t = entry_price p \<Longrightarrow> dust_of t (pos_qty p - fill_qty f) d \<Longrightarrow>
     capital pf' = capital pf + fill_qty f * fill_price f + d \<Longrightarrow>
     cumulative_pnl pf' = py_round 2 (cumulative_pnl pf + tr_net_pnl t) \<Longrightarrow>
     tr_cumulative_pnl t = cumulative_pnl pf' \<Longrightarrow>
     order_effect sim b po pf pf' [] [f] [t]"

section \<open>Slices\<close>

lemma clamped_fraction_bounds: "0 \<le> clamped_fraction tm" "clamped_fraction tm \<le> 1"
  by (simp_all add: clamped_fraction_def)

lemma twap_slice_bounds:
  assumes "qty_ok id po"
  shows "0 < twap_slice_target po" "twap_slice_target po \<le> remaining_qty po"
proof -
  from assms have r: "0 < remaining_qty po" by (simp add: qty_ok_def)
  have "remaining_qty po / of_int n \<le> remaining_qty po" if "1 < n" for n :: int
    using r that by (simp add: divide_le_eq)
  with r show "0 < twap_slice_target po" "twap_slice_target po \<le> remaining_qty po"
    by (auto simp: twap_slice_target_def not_le split: option.split)
qed

lemma scaled_le: "0 \<le> t \<Longrightarrow> t * clamped_fraction tm \<le> t"
  using mult_left_mono [OF clamped_fraction_bounds(2), of t tm] by simp

lemma slice_real_fill:
  assumes "qty_ok id po" and "0 < q" and "q \<le> remaining_qty po"
  shows "slice_of po (real_fill po sy sd q price ts why (remaining_qty po - q) (cumulative_filled_qty po + q))"
  using assms by (auto simp: slice_of_def real_fill_def qty_ok_def)

definition same_accounts :: "pending_order \<Rightarrow> pending_order \<Rightarrow> bool" where
  "same_accounts po po' \<longleftrightarrow>
     po_id po' = po_id po \<and> request po' = request po \<and> remaining_qty po' = remaining_qty po \<and>
     original_qty po' = original_qty po \<and> cumulative_filled_qty po' = cumulative_filled_qty po \<and>
     submitted_at po' = submitted_at po \<and> twap_slices_remaining po' = twap_slices_remaining po"

lemma same_accountsD:
  assumes "same_accounts po po'"
  shows "po_id po' = po_id po" "request po' = request po" "remaining_qty po' = remaining_qty po"
    "original_qty po' = original_qty po" "cumulative_filled_qty po' = cumulative_filled_qty po"
    "submitted_at po' = submitted_at po" "qty_ok id po' = qty_ok id po" "slice_of po' = slice_of po"
    "refusal_of po' = refusal_of po"
  using assms by (simp_all add: same_accounts_def qty_ok_def slice_of_def refusal_of_def fun_eq_iff)

lemma refusal_rejected [simp]: "refusal_of po (rejected_fill po p ts why u)"
  "refusal_of po ((rejected_fill po p ts why u)\<lparr>fill_symbol := sy\<rparr>)"
  by (simp_all add: refusal_of_def rejected_fill_def)

lemma order_effect_cong:
  assumes same: "same_accounts po po'" and "order_effect sim b po' pf pf' ef xf ts"
  shows "order_effect sim b po pf pf' ef xf ts"
  using assms(2)
proof cases
  case effect_none
  note facts = effect_none [unfolded same_accountsD [OF same]]
  show ?thesis unfolding facts(1) by (rule order_effect.effect_none) (fact facts)+
next
  case (effect_open f p)
  note facts = effect_open [unfolded same_accountsD [OF same]]
  show ?thesis unfolding facts(1-3) by (rule order_effect.effect_open) (fact facts)+
next
  case (effect_grow f p p')
  note facts = effect_grow [unfolded same_accountsD [OF same]]
  show ?thesis unfolding facts(1-3) by (rule order_effect.effect_grow) (fact facts)+
next
  case (effect_reduce f p p')
  note facts = effect_reduce [unfolded same_accountsD [OF same]]
  show ?thesis unfolding facts(1-3) by (rule order_effect.effect_reduce) (fact facts)+
next
  case (effect_close f p t d)
  note facts = effect_close [unfolded same_accountsD [OF same]]
  show ?thesis unfolding facts(1-3) by (rule order_effect.effect_close) (fact facts)+
qed

end
