(* ===== verification/FillRefine.thy ===== *)
theory FillRefine
  imports FillEffect
begin

text \<open>
  The handlers of the fill simulator refine \<open>order_effect\<close>, one after the other up to \<open>process_order\<close>,
  and \<open>process_bar\<close> is a run of such effects over the orders of the symbol.
\<close>

section \<open>Entries\<close>

lemma real_fill_simps [simp]:
  "fill_order_id (real_fill po sy sd q price ts why unf cum) = po_id po"
  "fill_qty (real_fill po sy sd q price ts why unf cum) = q"
  "fill_price (real_fill po sy sd q price ts why unf cum) = price"
  "fill_cumulative_qty (real_fill po sy sd q price ts why unf cum) = cum"
  "unfilled_qty (real_fill po sy sd q price ts why unf cum) = unf"
  by (simp_all add: real_fill_def)

lemma new_position_simps [simp]:
  "pos_symbol (new_position po ts tm q price c) = symbol (request po)"
  "pos_side (new_position po ts tm q price c) = side (request po)"
  "pos_qty (new_position po ts tm q price c) = q" "entry_price (new_position po ts tm q price c) = price"
  "entry_order_id (new_position po ts tm q price c) = po_id po"
  "pos_original_qty (new_position po ts tm q price c) = q"
  "cumulative_exit_qty (new_position po ts tm q price c) = 0"
  "weighted_exit_price_sum (new_position po ts tm q price c) = 0"
  by (simp_all add: new_position_def Let_def)

fun opt_list :: "'a option \<Rightarrow> 'a list" where
  "opt_list None = []"
| "opt_list (Some x) = [x]"

lemma refusal_cong: "po_id po' = po_id po \<Longrightarrow> refusal_of po' = refusal_of po"
  by (simp add: refusal_of_def fun_eq_iff)

lemma no_liquidity_refines:
  assumes inv: "engine_inv en" and po: "dget (pending (en_book en)) (po_id po) = Some po0" "request po0 = request po"
    and run: "no_liquidity po ts ref filled en = Inr (f, rej, evs, en')"
  shows "order_effect sim b po (en_portfolio en) (en_portfolio en') (opt_list f) [] [] \<and>
    engine_inv en' \<and> touches (po_id po) (en_book en) (en_book en')"
proof -
  from inv have bk: "book_inv id (en_book en)" by (simp add: engine_inv_def)
  from run obtain po1 bk1 where
    h: "handle_entry_remainder po ts (remaining_qty po) filled (en_book en) = Inr (po1, bk1)"
    and f: "f = Some (rejected_fill po1 ref ts ''rejected_no_liquidity'' (remaining_qty po1))"
    and en': "en' = en\<lparr>en_book := bk1\<rparr>"
    by (auto simp: no_liquidity_def split: sum.splits)
  have t: "touches (po_id po) (en_book en) bk1" by (rule remainder_touches [OF bk h])
  have "refusal_of po1 = refusal_of po"
    using remainder_same [OF bk h po] by (intro refusal_cong) simp
  then have "order_effect sim b po (en_portfolio en) (en_portfolio en') (opt_list f) [] []"
    using refusal_rejected(1) [of po1] by (intro effect_none) (simp_all add: f en')
  with t inv show ?thesis by (simp add: en' engine_inv_def touchesD(1))
qed

lemma settle_entry_frame:
  assumes "book_inv id (en_book en)" and "settle_entry po ts q cov fl en = Inr (f, rej, evs, en')"
  shows "f = Some fl \<and> en_portfolio en' = en_portfolio en \<and> touches (po_id po) (en_book en) (en_book en')"
proof -
  from assms(2) obtain po1 bk1 where h: "handle_entry_remainder po ts q True (en_book en) = Inr (po1, bk1)"
    by (auto simp: settle_entry_def split: sum.splits)
  have t: "touches (po_id po) (en_book en) bk1" by (rule remainder_touches [OF assms(1) h])
  from assms(2) h show ?thesis
    using t children_touch [OF _ touchesD(1) [OF t], where oid = "po_id po"]
    by (auto simp: settle_entry_def split: if_splits sum.splits prod.splits intro: touches_trans)
qed

lemma effect_nothing:
  "positions pf' = positions pf \<Longrightarrow> capital pf' = capital pf \<Longrightarrow> cumulative_pnl pf' = cumulative_pnl pf \<Longrightarrow>
   order_effect sim b po pf pf' [] [] []"
  by (rule effect_none) simp_all

lemma engine_inv_book:
  "engine_inv en \<Longrightarrow> touches oid (en_book en) bk \<Longrightarrow> positions pf = positions (en_portfolio en) \<Longrightarrow>
   engine_inv (en\<lparr>en_portfolio := pf, en_book := bk\<rparr>)"
  by (simp add: engine_inv_def touchesD(1))

lemma drop_entry_refines:
  assumes inv: "engine_inv en" and en': "en' = en\<lparr>en_portfolio := pf, en_book := drop_order po filled (en_book en)\<rparr>"
    and pf: "positions pf = positions (en_portfolio en)" "capital pf = capital (en_portfolio en)"
      "cumulative_pnl pf = cumulative_pnl (en_portfolio en)"
  shows "order_effect sim b po (en_portfolio en) (en_portfolio en') [] [] [] \<and>
    engine_inv en' \<and> touches (po_id po) (en_book en) (en_book en')"
proof -
  have "touches (po_id po) (en_book en) (drop_order po filled (en_book en))"
    using inv by (intro drop_touches) (simp add: engine_inv_def)
  with inv pf show ?thesis by (auto simp: en' intro: effect_nothing engine_inv_book)
qed

lemma tolerance_small: "0 < fill_qty_rel_tol" "fill_qty_rel_tol < 1"
  by (simp_all add: fill_qty_rel_tol_def)

lemma slice_le:
  assumes "qty_ok id po"
  shows "twap_slice_target po * clamped_fraction tm \<le> remaining_qty po"
  by (rule order_trans [OF scaled_le twap_slice_bounds(2) [OF assms]])
    (rule less_imp_le [OF twap_slice_bounds(1) [OF assms]])

lemma fresh_position_ok:
  "0 < q \<Longrightarrow> position_ok (new_position po ts tm q price c)"
  using tolerance_small by (auto simp: position_ok_def is_closed_def new_position_def Let_def not_le)

lemma fill_entry_refines:
  assumes inv: "engine_inv en" and po: "dget (pending (en_book en)) (po_id po) = Some po0" "request po0 = request po"
    and q: "qty_ok id po" and none: "dget (positions (en_portfolio en)) (bar_symbol b) = None" and sy: "symbol (request po) = bar_symbol b"
    and cum: "cumulative_filled_qty po = 0"
    and safe: "check_fill (bar_safety_enabled sim) (po_id po) (submitted_at po) (bar_timestamp b) = Inr ()"
    and run: "fill_entry sim po ts tm en = Inr (f, rej, evs, en')"
  shows "order_effect sim b po (en_portfolio en) (en_portfolio en') (opt_list f) [] [] \<and>
    engine_inv en' \<and> touches (po_id po) (en_book en) (en_book en')"
proof -
  let ?t = "twap_slice_target po" and ?pf = "snd (mark_to_market (en_portfolio en))"
  define filled where "filled = ?t * clamped_fraction tm"
  define price where "price = slipped_price sim tm (side (request po) = LONG)"
  have le: "filled \<le> remaining_qty po"
    unfolding filled_def by (rule slice_le [OF q])
  show ?thesis
  proof (cases "filled \<le> 0")
    case True
    with run have "no_liquidity po ts (reference_price tm) False en = Inr (f, rej, evs, en')"
      by (simp add: fill_entry_def Let_def filled_def)
    then show ?thesis by (rule no_liquidity_refines [OF inv po])
  next
    case pos: False
    define gate where "gate = can_enter (sim_limits sim) (filled * reference_price tm) (equity_of (en_portfolio en))
      (positions (en_portfolio en)) (\<not> risk_presized (request po))"
    show ?thesis
    proof (cases "fst gate \<and> filled * reference_price tm \<le> capital (en_portfolio en)")
      case False
      then have "f = None \<and> en' = en\<lparr>en_portfolio := ?pf, en_book := drop_order po False (en_book en)\<rparr>"
        using run pos by (auto simp: fill_entry_def Let_def filled_def gate_def case_prod_unfold not_le split: if_splits)
      then show ?thesis using drop_entry_refines [OF inv, where en' = en' and pf = ?pf and po = po and filled = False] by simp
    next
      case True
      let ?p = "new_position po ts tm filled price (?t - filled)"
      let ?po = "po\<lparr>working_against := Some (po_id po)\<rparr>"
      let ?pf' = "?pf\<lparr>capital := capital ?pf - position_value ?p, positions := dset (positions ?pf) (symbol (request po)) ?p\<rparr>"
      let ?en = "en\<lparr>en_portfolio := ?pf', en_book := store_order ?po (en_book en)\<rparr>"
      let ?f = "real_fill ?po (symbol (request po)) (side (request po)) filled price ts ''entry''
        (remaining_qty po - filled) filled"
      have op: "open_position ?p ?pf = Inr ?pf'"
        using none sy pos by (simp add: open_position_def has_key_def new_position_def Let_def)
      have run': "settle_entry ?po ts (remaining_qty po - filled) (\<lambda>_. filled) ?f ?en = Inr (f, rej, evs, en')"
        using run pos True op
        by (simp add: fill_entry_def Let_def filled_def [symmetric] gate_def [symmetric] price_def [symmetric] case_prod_unfold)
      have bk: "book_inv id (en_book en)" using inv by (simp add: engine_inv_def)
      have st: "touches (po_id po) (en_book en) (store_order ?po (en_book en))"
        using store_touches [OF bk, of ?po po0] po q by (simp add: qty_ok_def)
      have "book_inv id (en_book ?en)" using touchesD(1) [OF st] by simp
      from settle_entry_frame [OF this run'] have f: "f = Some ?f" and pf': "en_portfolio en' = ?pf'"
        and t: "touches (po_id po) (en_book ?en) (en_book en')" by simp_all
      have ok: "position_ok ?p" using pos by (intro fresh_position_ok) simp
      have sl: "slice_of po ?f"
        using slice_real_fill [OF q, of filled] pos le cum by (simp add: slice_of_def real_fill_def)
      have "order_effect sim b po (en_portfolio en) (en_portfolio en') [?f] [] []"
        by (rule effect_open [OF safe sl none, where p = ?p])
          (simp_all add: pf' sy position_value_def)
      moreover have "engine_inv en'"
        using inv touchesD(1) [OF t] ok by (simp add: engine_inv_def pf' positions_ok_put)
      moreover have "touches (po_id po) (en_book en) (en_book en')"
        using st t by (simp add: touches_trans)
      ultimately show ?thesis by (simp add: f)
    qed
  qed
qed

lemma is_closed_iff:
  "pos_qty p + cumulative_exit_qty p = pos_original_qty p \<Longrightarrow> 0 < pos_original_qty p \<Longrightarrow>
   is_closed p \<longleftrightarrow> pos_qty p \<le> pos_original_qty p * fill_qty_rel_tol"
  by (auto simp: is_closed_def)

lemma grown_position_ok:
  assumes p: "position_ok p" and q: "0 < q"
  shows "position_ok (count_slice q c (extend_by q price bid p))"
proof -
  have open_p: "pos_original_qty p * fill_qty_rel_tol < pos_qty p"
    using p is_closed_iff [of p] by (auto simp: position_ok_def)
  have "q * fill_qty_rel_tol < q" using q tolerance_small by simp
  with open_p have "(pos_original_qty p + q) * fill_qty_rel_tol < pos_qty p + q" by (simp add: distrib_right)
  then show ?thesis
    using p q is_closed_iff [of "count_slice q c (extend_by q price bid p)"]
    by (auto simp: position_ok_def count_slice_def extend_by_def Let_def)
qed

lemma abandon_refines:
  assumes inv: "engine_inv en" and pf: "positions pf = positions (en_portfolio en)"
      "capital pf = capital (en_portfolio en)" "cumulative_pnl pf = cumulative_pnl (en_portfolio en)"
    and run: "abandon_entry po ts why (en\<lparr>en_portfolio := pf\<rparr>) = Inr (f, rej, evs, en')"
  shows "order_effect sim b po (en_portfolio en) (en_portfolio en') (opt_list f) [] [] \<and>
    engine_inv en' \<and> touches (po_id po) (en_book en) (en_book en')"
proof -
  from run obtain bk where m: "materialize_on_abandon pf po ts (drop_order po True (en_book en)) = Inr bk"
    and r: "f = None" "en' = en\<lparr>en_portfolio := pf, en_book := bk\<rparr>"
    by (auto simp: abandon_entry_def map_sum_eq_Inr)
  have d: "touches (po_id po) (en_book en) (drop_order po True (en_book en))"
    using inv by (intro drop_touches) (simp add: engine_inv_def)
  with abandon_touches [OF m touchesD(1) [OF d]] have "touches (po_id po) (en_book en) bk"
    by (blast intro: touches_trans)
  with inv pf show ?thesis by (auto simp: r intro: effect_nothing engine_inv_book)
qed

lemma continue_entry_refines:
  assumes inv: "engine_inv en" and po: "dget (pending (en_book en)) (po_id po) = Some po0" "request po0 = request po"
    and q: "qty_ok id po" and held: "dget (positions (en_portfolio en)) (bar_symbol b) = Some p" "entry_order_id p = po_id po"
    and sy: "symbol (request po) = bar_symbol b"
    and safe: "check_fill (bar_safety_enabled sim) (po_id po) (submitted_at po) (bar_timestamp b) = Inr ()"
    and run: "continue_entry sim po ts tm en = Inr (f, rej, evs, en')"
  shows "order_effect sim b po (en_portfolio en) (en_portfolio en') (opt_list f) [] [] \<and>
    engine_inv en' \<and> touches (po_id po) (en_book en) (en_book en')"
proof -
  let ?t = "twap_slice_target po" and ?pf = "snd (mark_to_market (en_portfolio en))"
  define filled where "filled = ?t * clamped_fraction tm"
  define price where "price = slipped_price sim tm (side (request po) = LONG)"
  have le: "filled \<le> remaining_qty po" unfolding filled_def by (rule slice_le [OF q])
  from inv held(1) have ok: "pos_symbol p = bar_symbol b" "position_ok p"
    using positions_okD(1) by (auto simp: engine_inv_def)
  show ?thesis
  proof (cases "filled \<le> 0")
    case True
    with run have "no_liquidity po ts (reference_price tm) True en = Inr (f, rej, evs, en')"
      by (simp add: continue_entry_def Let_def filled_def)
    then show ?thesis by (rule no_liquidity_refines [OF inv po])
  next
    case pos: False
    define gate where "gate = can_enter (sim_limits sim) ((pos_qty p + filled) * price) (equity_of (en_portfolio en))
      (filter (\<lambda>sp. fst sp \<noteq> symbol (request po)) (positions (en_portfolio en))) (\<not> risk_presized (request po))"
    have held': "dget (positions (en_portfolio en)) (symbol (request po)) = Some p" using held(1) sy by simp
    show ?thesis
    proof (cases "fst gate \<and> filled * price \<le> capital (en_portfolio en)")
      case False
      then obtain why where "abandon_entry po ts why (en\<lparr>en_portfolio := ?pf\<rparr>) = Inr (f, rej, evs, en')"
        using run pos held'
        by (auto simp: continue_entry_def Let_def filled_def [symmetric] price_def [symmetric] gate_def [symmetric]
            case_prod_unfold not_le split: if_splits)
      then show ?thesis by (rule abandon_refines [OF inv, rotated 3]) simp_all
    next
      case True
      let ?p = "count_slice filled (?t - filled) (extend_by filled price (Some (reference_price tm)) p)"
      let ?pf1 = "?pf\<lparr>positions := dset (positions ?pf) (symbol (request po))
          (extend_by filled price (Some (reference_price tm)) p), capital := capital ?pf - filled * price\<rparr>"
      let ?pf' = "put_position (symbol (request po)) ?p ?pf1" and ?r = "remaining_qty po - filled"
      let ?f = "real_fill po (pos_symbol p) (pos_side p) filled price ts ''entry'' ?r (cumulative_filled_qty po + filled)"
      have "pos_qty p + filled \<noteq> 0" using ok(2) pos by (simp add: position_ok_def)
      then have grow: "grow_position (symbol (request po)) filled price (reference_price tm) (?t - filled) ?pf = Inr ?pf'"
        using held' by (simp add: grow_position_def extend_position_def Let_def)
      have run': "settle_entry po ts ?r (held_original (symbol (request po))) ?f (en\<lparr>en_portfolio := ?pf'\<rparr>) =
          Inr (f, rej, evs, en')"
        using run pos True held' grow
        by (simp add: continue_entry_def Let_def filled_def [symmetric] price_def [symmetric] gate_def [symmetric]
            case_prod_unfold)
      have bk: "book_inv id (en_book (en\<lparr>en_portfolio := ?pf'\<rparr>))" using inv by (simp add: engine_inv_def)
      from settle_entry_frame [OF bk run'] have f: "f = Some ?f" and pf': "en_portfolio en' = ?pf'"
        and t: "touches (po_id po) (en_book en) (en_book en')" by simp_all
      have g: "position_ok ?p" using ok(2) pos by (intro grown_position_ok) simp_all
      have sl: "slice_of po ?f" using slice_real_fill [OF q _ le] pos by simp
      have "order_effect sim b po (en_portfolio en) (en_portfolio en') [?f] [] []"
        by (rule effect_grow [OF safe sl held, where p' = ?p])
          (use True in \<open>simp_all add: pf' sy count_slice_def extend_by_def Let_def held(2)\<close>)
      moreover have "engine_inv en'"
        using inv touchesD(1) [OF t] g ok(1) sy
        by (simp add: engine_inv_def pf' positions_ok_def count_slice_def extend_by_def Let_def)
      ultimately show ?thesis using t by (simp add: f)
    qed
  qed
qed

section \<open>Exits\<close>

lemma bind_to_same: "same_accounts po (bind_to pos po)"
  by (simp add: bind_to_def same_accounts_def)

definition sliced :: "rat \<Rightarrow> rat \<Rightarrow> rat \<Rightarrow> rat \<Rightarrow> position \<Rightarrow> position" where
  "sliced q price ref clipped p = note_clip clipped (reduce_position q price ref p)"

lemma sliced_simps [simp]:
  "pos_symbol (sliced q price ref c p) = pos_symbol p" "pos_side (sliced q price ref c p) = pos_side p"
  "pos_qty (sliced q price ref c p) = pos_qty p - q" "entry_price (sliced q price ref c p) = entry_price p"
  "entry_order_id (sliced q price ref c p) = entry_order_id p"
  "pos_original_qty (sliced q price ref c p) = pos_original_qty p"
  "cumulative_exit_qty (sliced q price ref c p) = cumulative_exit_qty p + q"
  "weighted_exit_price_sum (sliced q price ref c p) = weighted_exit_price_sum p + q * price"
  by (simp_all add: sliced_def note_clip_def reduce_position_def)

lemma sliced_position_ok:
  assumes "position_ok p" and "0 \<le> q" and "\<not> is_closed (sliced q price ref c p)"
  shows "position_ok (sliced q price ref c p)"
proof -
  have "0 < pos_original_qty p" using assms(1) by (simp add: position_ok_def)
  then have "pos_original_qty p * fill_qty_rel_tol < pos_qty p - q"
    using is_closed_iff [of "sliced q price ref c p"] assms by (simp add: position_ok_def)
  moreover have "0 < pos_original_qty p * fill_qty_rel_tol"
    using \<open>0 < pos_original_qty p\<close> tolerance_small(1) by simp
  ultimately show ?thesis using assms by (simp add: position_ok_def)
qed

lemma exit_pays:
  assumes "dget (positions pf) sy = Some p"
  shows "dset (positions (snd (partial_close sy q price ref pf))) sy x = dset (positions pf) sy x"
    "capital (snd (partial_close sy q price ref pf)) = capital pf + q * price"
    "cumulative_pnl (snd (partial_close sy q price ref pf)) = cumulative_pnl pf"
  using assms by (simp_all add: partial_close_def Let_def)

lemma delete_update: "ddel (dset d k v) k = ddel d k"
  by (induction d) (auto simp: ddel_filter)

lemma finish_trade_frame:
  assumes "finish_trade sim sy po pos ts dp en = (t, en')" and "dget (positions (en_portfolio en)) sy = Some pos"
  shows "positions (en_portfolio en') = ddel (positions (en_portfolio en)) sy"
    "capital (en_portfolio en') = capital (en_portfolio en) + py_round 2 (pos_qty pos * weighted_avg_exit_price pos)"
    "cumulative_pnl (en_portfolio en') = py_round 2 (cumulative_pnl (en_portfolio en) + tr_net_pnl t)"
    "tr_cumulative_pnl t = cumulative_pnl (en_portfolio en')"
    "en_book en' = drop_order po False (en_book en)"
    "tr_symbol t = pos_symbol pos" "tr_side t = pos_side pos" "tr_shares t = pos_original_qty pos"
    "tr_entry_price t = entry_price pos" "tr_exit_price t = weighted_avg_exit_price pos"
  using assms
  by (auto simp: finish_trade_def Let_def close_position_def trade_of_def record_pnl_def)

lemma fill_exit_refines:
  assumes inv: "engine_inv en" and po: "dget (pending (en_book en)) (po_id po0) = Some pz" "request pz = request po0"
    and q: "qty_ok id po0" and held: "dget (positions (en_portfolio en)) (bar_symbol b) = Some p"
    and sd: "side (request po0) \<noteq> pos_side p"
    and safe: "check_fill (bar_safety_enabled sim) (po_id po0) (submitted_at po0) (bar_timestamp b) = Inr ()"
    and run: "fill_exit sim (bar_symbol b) po0 p ts tm en = Inr (f, t, en')"
  shows "order_effect sim b po0 (en_portfolio en) (en_portfolio en') [] [f] (opt_list t) \<and>
    engine_inv en' \<and> touches (po_id po0) (en_book en) (en_book en')"
proof -
  let ?po = "bind_to p po0" and ?pf = "en_portfolio en"
  let ?bk = "store_order ?po (en_book en)"
  note sa = same_accountsD [OF bind_to_same [of po0 p]]
  define price where "price = slipped_price sim tm (pos_side p \<noteq> LONG)"
  define fillable where "fillable = min (twap_slice_target ?po) (pos_qty p)"
  define filled where "filled = fillable * clamped_fraction tm"
  define rest where "rest = remaining_qty po0 - filled"
  have bk: "book_inv id (en_book en)" using inv by (simp add: engine_inv_def)
  from inv held have ok: "pos_symbol p = bar_symbol b" "position_ok p"
    using positions_okD(1) by (auto simp: engine_inv_def)
  have st: "touches (po_id po0) (en_book en) ?bk"
    using store_touches [OF bk, of ?po pz] po sa q by simp
  note bk' = touchesD(1) [OF st]
  have fb: "0 \<le> fillable" "fillable \<le> twap_slice_target ?po" "fillable \<le> pos_qty p"
    using twap_slice_bounds [of ?po] q sa ok(2) by (auto simp: fillable_def position_ok_def)
  have le: "0 \<le> filled" "filled \<le> pos_qty p" "filled \<le> remaining_qty po0"
    using fb scaled_le [OF fb(1), of tm] twap_slice_bounds(2) [of ?po] q sa clamped_fraction_bounds(1) [of tm]
    by (simp_all add: filled_def)
  show ?thesis
  proof (cases "filled \<le> 0")
    case True
    with run obtain po1 bk1 where h: "handle_exit_remainder ?po ts rest ?bk = Inr (po1, bk1)"
      and r: "f = (rejected_fill po1 (reference_price tm) ts ''rejected_no_liquidity'' (remaining_qty po1))\<lparr>fill_symbol := pos_symbol p\<rparr>"
        "t = None" "en' = en\<lparr>en_book := bk1\<rparr>"
      by (auto simp: fill_exit_def Let_def filled_def fillable_def rest_def sa split: sum.splits)
    have g: "dget (pending ?bk) (po_id ?po) = Some ?po" by (simp add: store_order_def)
    have tt: "touches (po_id po0) (en_book en) bk1"
      using remainder_touches [OF bk' h [unfolded handle_exit_remainder_def]] st sa(1) by (simp add: touches_trans)
    have "refusal_of po1 = refusal_of po0"
      using remainder_same [OF bk' h [unfolded handle_exit_remainder_def] g] sa by (intro refusal_cong) simp
    then have "order_effect sim b po0 ?pf (en_portfolio en') [] [f] (opt_list t)"
      using refusal_rejected(2) [of po1] by (simp add: r effect_none)
    with tt inv show ?thesis by (simp add: r engine_inv_def touchesD(1))
  next
    case False
    let ?ref = "reference_price tm" and ?c = "fillable - filled"
    let ?p = "sliced filled price ?ref ?c p"
    let ?pf1 = "put_position (bar_symbol b) ?p (snd (partial_close (bar_symbol b) filled price ?ref ?pf))"
    let ?f = "real_fill ?po (pos_symbol p) (side (request po0)) filled price ts ''exit'' rest (cumulative_filled_qty po0 + filled)"
    note pays = exit_pays [OF held, where q = filled and price = price and ref = ?ref]
    from run False obtain bk1 where c: "cancel_siblings ?po ?bk = Inr bk1"
      by (auto simp: fill_exit_def Let_def filled_def fillable_def split: sum.splits)
    note ct = siblings_touch [OF bk' c]
    have t1: "touches (po_id po0) (en_book en) bk1" using ct st sa(1) by (auto intro: touches_trans)
    have sl: "slice_of po0 ?f"
      using slice_real_fill [OF q _ le(3)] False sa by (simp add: slice_of_def real_fill_def rest_def)
    let ?e = "en\<lparr>en_book := bk1, en_portfolio := ?pf1\<rparr>"
    have body: "settle_exit sim (bar_symbol b) ?po ?p ts (price_decimals ?ref) rest ?f ?e = Inr (f, t, en')"
      using run False c
      by (simp add: fill_exit_def Let_def filled_def [symmetric] fillable_def [symmetric] price_def [symmetric]
          rest_def [symmetric] sa sliced_def [symmetric])
    show ?thesis
    proof (cases "is_closed ?p")
      case False
      with body obtain po2 bk2 where h: "handle_exit_remainder ?po ts rest bk1 = Inr (po2, bk2)"
        and r: "f = ?f" "t = None" "en' = en\<lparr>en_book := bk2, en_portfolio := ?pf1\<rparr>"
        by (auto simp: settle_exit_def split: sum.splits)
      have t2: "touches (po_id po0) (en_book en) bk2"
        using remainder_touches [OF touchesD(1) [OF t1] h [unfolded handle_exit_remainder_def]] t1 sa(1)
        by (simp add: touches_trans)
      have "position_ok ?p" using ok(2) le(1) False by (rule sliced_position_ok)
      then have "engine_inv en'"
        using inv touchesD(1) [OF t2] ok(1) by (simp add: engine_inv_def r pays(1) positions_ok_put)
      moreover have "order_effect sim b po0 ?pf (en_portfolio en') [] [?f] []"
        by (rule effect_reduce [OF safe sl held sd, where p' = ?p])
          (simp_all add: r pays)
      ultimately show ?thesis using t2 by (simp add: r)
    next
      case True
      from body True obtain tr where ft: "finish_trade sim (bar_symbol b) ?po ?p ts (price_decimals ?ref) ?e = (tr, en')"
        and r: "f = ?f" "t = Some tr"
        by (auto simp: settle_exit_def case_prod_unfold Let_def intro: prod.collapse [symmetric])
      note fin = finish_trade_frame [OF ft, simplified pays, simplified, simplified pays]
      have t2: "touches (po_id po0) (en_book en) (en_book en')"
        using drop_touches [OF touchesD(1) [OF t1], where po = ?po and filled = False] t1 fin(5) sa(1) by (auto intro: touches_trans)
      have "0 < pos_original_qty p" using ok(2) by (simp add: position_ok_def)
      then have "pos_qty p - filled \<le> pos_original_qty p * fill_qty_rel_tol"
        using True is_closed_iff [of ?p] ok(2) by (simp add: position_ok_def)
      with fin have dust: "dust_of tr (pos_qty p - fill_qty ?f) (py_round 2 ((pos_qty p - filled) * weighted_avg_exit_price ?p))"
        using le(2) by (simp add: dust_of_def real_fill_def)
      have "order_effect sim b po0 ?pf (en_portfolio en') [] [?f] [tr]"
        by (rule effect_close [OF safe sl held sd _ _ _ _ _ dust]) (use fin le in \<open>simp_all add: pays ok(1) delete_update\<close>)
      moreover have "engine_inv en'"
        using inv touchesD(1) [OF t2] fin(1) by (simp add: engine_inv_def pays delete_update positions_ok_del)
      ultimately show ?thesis using t2 by (simp add: r)
    qed
  qed
qed

section \<open>One order\<close>

definition outcome_adds ::
  "fill_outcome \<Rightarrow> fill list \<Rightarrow> fill list \<Rightarrow> trade_record list \<Rightarrow> fill_outcome \<Rightarrow> bool" where
  "outcome_adds oc ef xf ts oc' \<longleftrightarrow>
     entry_fills oc' = entry_fills oc @ ef \<and> exit_fills oc' = exit_fills oc @ xf \<and>
     closed_trades oc' = closed_trades oc @ ts"

lemma outcome_adds_simps [simp]:
  "entry_fills (add_event ev oc) = entry_fills oc" "exit_fills (add_event ev oc) = exit_fills oc"
  "closed_trades (add_event ev oc) = closed_trades oc" "closed_trades (add_fill es f oc) = closed_trades oc"
  "entry_fills (add_fill es f oc) = entry_fills oc @ (if es then [f] else [])"
  "exit_fills (add_fill es f oc) = exit_fills oc @ (if es then [] else [f])"
  "entry_fills (record_entry_event po ts fo rej oc) = entry_fills oc"
  "exit_fills (record_entry_event po ts fo rej oc) = exit_fills oc"
  "closed_trades (record_entry_event po ts fo rej oc) = closed_trades oc"
  "entry_fills (record_exit_event po ts f oc) = entry_fills oc"
  "exit_fills (record_exit_event po ts f oc) = exit_fills oc"
  "closed_trades (record_exit_event po ts f oc) = closed_trades oc"
  by (simp_all add: add_event_def add_fill_def record_entry_event_def record_exit_event_def split: option.split)

definition step_ok ::
  "simulator \<Rightarrow> bar \<Rightarrow> pending_order \<Rightarrow> engine \<times> fill_outcome \<Rightarrow> engine \<times> fill_outcome \<Rightarrow> bool" where
  "step_ok sim b po s s' \<longleftrightarrow>
     (\<exists>ef xf ts. outcome_adds (snd s) ef xf ts (snd s') \<and>
        order_effect sim b po (en_portfolio (fst s)) (en_portfolio (fst s')) ef xf ts) \<and>
     engine_inv (fst s') \<and> touches (po_id po) (en_book (fst s)) (en_book (fst s'))"

lemma step_okI:
  "outcome_adds oc ef xf ts oc' \<Longrightarrow>
   order_effect sim b po (en_portfolio en) (en_portfolio en') ef xf ts \<and> engine_inv en' \<and>
     touches (po_id po) (en_book en) (en_book en') \<Longrightarrow>
   step_ok sim b po (en, oc) (en', oc')"
  by (auto simp: step_ok_def)

lemma step_ok_same: "engine_inv en \<Longrightarrow> step_ok sim b po (en, oc) (en, oc)"
  by (rule step_okI [of _ "[]" "[]" "[]"]) (auto simp: outcome_adds_def engine_inv_def intro: effect_nothing)

lemma step_ok_drop:
  assumes "engine_inv en" and "outcome_adds oc ef xf [] oc'" and "\<forall>f \<in> set (ef @ xf). refusal_of po f"
    and "po_id po' = po_id po"
  shows "step_ok sim b po (en, oc) (en\<lparr>en_book := drop_order po' filled (en_book en)\<rparr>, oc')"
proof (rule step_okI [OF assms(2)])
  have t: "touches (po_id po) (en_book en) (drop_order po' filled (en_book en))"
    using assms(1) by (intro drop_touches) (simp add: engine_inv_def)
  show "order_effect sim b po (en_portfolio en) (en_portfolio (en\<lparr>en_book := drop_order po' filled (en_book en)\<rparr>)) ef xf [] \<and>
    engine_inv (en\<lparr>en_book := drop_order po' filled (en_book en)\<rparr>) \<and>
    touches (po_id po) (en_book en) (en_book (en\<lparr>en_book := drop_order po' filled (en_book en)\<rparr>))"
    using t touchesD(1) [OF t] assms(1,3) by (simp add: engine_inv_def effect_none)
qed

lemma step_ok_book:
  assumes "engine_inv en" and "touches (po_id po) (en_book en) bk" and "outcome_adds oc [] [] [] oc'"
  shows "step_ok sim b po (en, oc) (en\<lparr>en_book := bk\<rparr>, oc')"
  using assms by (intro step_okI [OF assms(3)]) (auto simp: engine_inv_def touchesD(1) intro: effect_nothing)

lemma update_trailing_same: "same_accounts po (update_trailing b po)"
  by (simp add: update_trailing_def Let_def same_accounts_def split: option.split)

lemma same_accounts_trans: "same_accounts a b \<Longrightarrow> same_accounts b c \<Longrightarrow> same_accounts a c"
  by (simp add: same_accounts_def)

lemma arm_stop_limit_same: "arm_stop_limit b ex po = Inr (ja, po') \<Longrightarrow> same_accounts po po'"
  by (auto simp: arm_stop_limit_def Let_def bind_to_def same_accounts_def
      split: if_splits sum.splits bool.splits option.splits)

lemma prepare_same:
  assumes "prepare b ex po = Inr (ja, po')"
  shows "same_accounts po po'"
proof (cases "order_type (request (update_trailing b po)) = STOP_LIMIT")
  case True
  with assms have "arm_stop_limit b ex (update_trailing b po) = Inr (ja, po')" by (simp add: prepare_def Let_def)
  from arm_stop_limit_same [OF this] show ?thesis by (rule same_accounts_trans [OF update_trailing_same])
next
  case False
  with assms have "po' = update_trailing b po" by (simp add: prepare_def Let_def)
  then show ?thesis by (simp add: update_trailing_same)
qed

lemma step_ok_cong:
  assumes "same_accounts po po'" and "step_ok sim b po' s s'"
  shows "step_ok sim b po s s'"
  using assms order_effect_cong [OF assms(1)] same_accountsD(1) [OF assms(1)] unfolding step_ok_def by metis

text \<open>The order as it stands in the book, and the accounts it may act on.\<close>

definition ready_order :: "bar \<Rightarrow> pending_order \<Rightarrow> engine \<Rightarrow> bool" where
  "ready_order b po en \<longleftrightarrow>
     engine_inv en \<and> dget (pending (en_book en)) (po_id po) = Some po \<and> symbol (request po) = bar_symbol b \<and>
     \<not> stale (dget (positions (en_portfolio en)) (bar_symbol b)) po"

lemma ready_qty: "ready_order b po en \<Longrightarrow> qty_ok id po"
  using pending_id(3) by (auto simp: ready_order_def engine_inv_def)

lemma untriggered_twap_ok:
  assumes r: "ready_order b po en" and "untriggered_twap po ts en = Inr en'"
  shows "step_ok sim b po (en, oc) (en', oc)"
proof -
  from r have inv: "engine_inv en" and bk: "book_inv id (en_book en)" by (auto simp: ready_order_def engine_inv_def)
  have adds: "outcome_adds oc [] [] [] oc" by (simp add: outcome_adds_def)
  let ?d = "drop_order po (0 < cumulative_filled_qty po) (en_book en)"
  have d: "touches (po_id po) (en_book en) ?d" by (rule drop_touches [OF bk])
  show ?thesis
  proof (cases "twap_slices_remaining po = None \<or> unfilled_policy (request po) \<noteq> Some TWAP_N")
    case True
    with assms(2) have "en' = en" by (auto simp: untriggered_twap_def split: option.splits)
    with inv show ?thesis by (simp add: step_ok_same)
  next
    case False
    then obtain n where n: "twap_slices_remaining po = Some n" "unfilled_policy (request po) = Some TWAP_N" by auto
    have "\<exists>bk. en' = en\<lparr>en_book := bk\<rparr> \<and> touches (po_id po) (en_book en) bk"
    proof (cases "n - 1 \<le> 0")
      case True
      with assms(2) n d show ?thesis
        using abandon_touches [OF _ touchesD(1) [OF d]]
        by (force simp: untriggered_twap_def Let_def map_sum_eq_Inr split: if_splits intro: touches_trans)
    next
      case False
      with assms(2) n obtain po1 bk1 where "requeue_order po (remaining_qty po) ts (Some (n - 1))
          (0 < cumulative_filled_qty po) (en_book en) = Inr (po1, bk1)" "en' = en\<lparr>en_book := bk1\<rparr>"
        by (auto simp: untriggered_twap_def Let_def map_sum_eq_Inr)
      then show ?thesis using requeue_touches [OF bk] by (auto simp: map_sum_eq_Inr)
    qed
    with inv adds show ?thesis by (auto intro: step_ok_book)
  qed
qed

lemma no_trigger_ok:
  assumes r: "ready_order b po en" and run: "no_trigger b ex es ja po (en, oc) = Inr s'"
  shows "step_ok sim b po (en, oc) s'"
proof -
  define oc1 where "oc1 = (if ja then add_event (event_for StopLimitUnfilled (ReasonText ''stop_limit_gap_through'') po (bar_timestamp b)) oc else oc)"
  have same: "outcome_adds oc = outcome_adds oc1" by (simp add: outcome_adds_def fun_eq_iff oc1_def)
  have inv: "engine_inv en" using r by (simp add: ready_order_def)
  show ?thesis
  proof (cases "tif (request po) = IOC \<or> tif (request po) = FOK")
    case True
    let ?en = "en\<lparr>en_book := drop_order po False (en_book en)\<rparr>"
    let ?rej = "rejected_fill po (bar_close b) (bar_timestamp b)
      (''rejected_'' @ tif_value (tif (request po)) @ ''_no_trigger'') (remaining_qty po)"
    have "\<exists>ef xf oc'. s' = (?en, oc') \<and> outcome_adds oc ef xf [] oc' \<and> (\<forall>f \<in> set (ef @ xf). refusal_of po f)"
    proof (cases "same_side_addon ex po")
      case True
      with run \<open>tif (request po) = IOC \<or> _\<close> show ?thesis unfolding same
        by (intro exI [of _ "[]"] exI [of _ "snd s'"]) (auto simp: no_trigger_def Let_def outcome_adds_def oc1_def)
    next
      case False
      with run \<open>tif (request po) = IOC \<or> _\<close> show ?thesis unfolding same
        by (intro exI [of _ "if es then [?rej] else []"] exI [of _ "if es then [] else [?rej]"] exI [of _ "snd s'"])
          (auto simp: no_trigger_def Let_def outcome_adds_def oc1_def)
    qed
    then show ?thesis using step_ok_drop [OF inv] by blast
  next
    case False
    with run obtain en' where "untriggered_twap po (bar_timestamp b) en = Inr en'" "s' = (en', oc1)"
      by (auto simp: no_trigger_def Let_def map_sum_eq_Inr oc1_def)
    with untriggered_twap_ok [OF r, of "bar_timestamp b" en' sim oc1] show ?thesis
      by (simp add: step_ok_def same)
  qed
qed

lemma entry_attempt_ok:
  assumes r: "ready_order b po en"
    and safe: "check_fill (bar_safety_enabled sim) (po_id po) (submitted_at po) (bar_timestamp b) = Inr ()"
    and ex: "case dget (positions (en_portfolio en)) (bar_symbol b) of None \<Rightarrow> \<not> continuing
      | Some p \<Rightarrow> continuing \<and> entry_order_id p = po_id po"
    and run: "entry_attempt sim continuing po (bar_timestamp b) tm (en, oc) = Inr s'"
  shows "step_ok sim b po (en, oc) s'"
proof -
  from r have inv: "engine_inv en" and po: "dget (pending (en_book en)) (po_id po) = Some po"
    and sy: "symbol (request po) = bar_symbol b" by (simp_all add: ready_order_def)
  note q = ready_qty [OF r]
  from run obtain f rej evs en' where
    a: "(if continuing then continue_entry sim po (bar_timestamp b) tm en
         else fill_entry sim po (bar_timestamp b) tm en) = Inr (f, rej, evs, en')"
    and s': "s' = (en', record_entry_event po (bar_timestamp b) f rej
       (case f of None \<Rightarrow> oc\<lparr>diagnostic_events := diagnostic_events oc @ evs\<rparr>
        | Some fl \<Rightarrow> add_fill True fl (oc\<lparr>diagnostic_events := diagnostic_events oc @ evs\<rparr>)))"
    by (auto simp: entry_attempt_def Let_def split: sum.splits)
  have eff: "order_effect sim b po (en_portfolio en) (en_portfolio en') (opt_list f) [] [] \<and>
      engine_inv en' \<and> touches (po_id po) (en_book en) (en_book en')"
  proof (cases "dget (positions (en_portfolio en)) (bar_symbol b)")
    case None
    have "cumulative_filled_qty po = 0"
      using r q None by (auto simp: ready_order_def stale_def qty_ok_def)
    with fill_entry_refines [OF inv po refl q None sy _ safe] a ex None show ?thesis by simp
  next
    case (Some p)
    with ex have "entry_order_id p = po_id po" continuing by simp_all
    with continue_entry_refines [OF inv po refl q Some _ sy safe] a show ?thesis by simp
  qed
  show ?thesis unfolding s'
    by (rule step_okI [OF _ eff]) (simp add: outcome_adds_def split: option.split)
qed

lemma exit_attempt_ok:
  assumes r: "ready_order b po en"
    and safe: "check_fill (bar_safety_enabled sim) (po_id po) (submitted_at po) (bar_timestamp b) = Inr ()"
    and ex: "dget (positions (en_portfolio en)) (bar_symbol b) = Some p"
    and run: "exit_attempt sim (bar_symbol b) p po (bar_timestamp b) tm (en, oc) = Inr s'"
  shows "step_ok sim b po (en, oc) s'"
proof (cases "side (request po) = pos_side p")
  case True
  with run r show ?thesis
    by (auto simp: exit_attempt_def Let_def ready_order_def outcome_adds_def
        intro!: step_ok_drop [where ef = "[]" and xf = "[]"])
next
  case False
  from r have inv: "engine_inv en" and po: "dget (pending (en_book en)) (po_id po) = Some po"
    by (simp_all add: ready_order_def)
  from run False obtain f t en' oc' where a: "fill_exit sim (bar_symbol b) po p (bar_timestamp b) tm en = Inr (f, t, en')"
    and s': "s' = (en', oc')" and oc': "outcome_adds oc [] [f] (opt_list t) oc'"
    by (auto simp: exit_attempt_def Let_def outcome_adds_def split: sum.splits option.splits)
  show ?thesis unfolding s'
    by (rule step_okI [OF oc' fill_exit_refines [OF inv po refl ready_qty [OF r] ex False safe a]])
qed

lemma triggered_ok:
  assumes r: "ready_order b po en" and ex: "ex = dget (positions (en_portfolio en)) (bar_symbol b)"
    and run: "triggered sim b ex es tm po (en, oc) = Inr s'"
  shows "step_ok sim b po (en, oc) s'"
proof -
  have inv: "engine_inv en" using r by (simp add: ready_order_def)
  have safe: "check_fill (bar_safety_enabled sim) (po_id po) (submitted_at po) (bar_timestamp b) = Inr ()"
    using run by (auto simp: triggered_def Let_def split: sum.splits)
  show ?thesis
  proof (cases "fok_unfillable ex es tm po")
    case True
    let ?rej = "rejected_fill po (reference_price tm) (bar_timestamp b) ''rejected_fok_partial'' (qty (request po))"
    obtain oc' where "s' = (en\<lparr>en_book := drop_order po False (en_book en)\<rparr>, oc')"
      "outcome_adds oc (if es then [?rej] else []) (if es then [] else [?rej]) [] oc'"
      using run True safe by (auto simp: triggered_def Let_def outcome_adds_def)
    then show ?thesis using step_ok_drop [OF inv, of oc _ _ oc' po po] by simp
  next
    case False
    show ?thesis
    proof (cases ex)
      case None
      with run False safe have "entry_attempt sim False po (bar_timestamp b) tm (en, oc) = Inr s'"
        by (simp add: triggered_def Let_def)
      then show ?thesis using None ex by (intro entry_attempt_ok [OF r safe]) auto
    next
      case (Some p)
      show ?thesis
      proof (cases "continues_entry ex po")
        case True
        with run False safe Some have "entry_attempt sim True po (bar_timestamp b) tm (en, oc) = Inr s'"
          by (simp add: triggered_def Let_def)
        moreover have "entry_order_id p = po_id po" using True Some by (simp add: continues_entry_def)
        ultimately show ?thesis using Some ex by (intro entry_attempt_ok [OF r safe, where continuing = True]) auto
      next
        case c: False
        with run False safe Some have "exit_attempt sim (bar_symbol b) p po (bar_timestamp b) tm (en, oc) = Inr s'"
          by (simp add: triggered_def Let_def)
        then show ?thesis using Some ex by (intro exit_attempt_ok [OF r safe]) auto
      qed
    qed
  qed
qed

lemma prepare_not_stale:
  assumes "prepare b ex po = Inr (ja, po')" and "\<not> stale ex po"
  shows "\<not> stale ex po'"
proof -
  have w: "working_against (update_trailing b po) = working_against po"
    by (simp add: update_trailing_def Let_def split: option.split)
  have "working_against po' = working_against po \<or> (\<exists>p. ex = Some p \<and> working_against po' = Some (entry_order_id p))"
    using assms(1) w
    by (auto simp: prepare_def arm_stop_limit_def Let_def bind_to_def
        split: if_splits sum.splits bool.splits option.splits)
  moreover have "cumulative_filled_qty po' = cumulative_filled_qty po"
    using prepare_same [OF assms(1)] by (simp add: same_accounts_def)
  ultimately show ?thesis using assms(2) by (auto simp: stale_def split: option.splits)
qed

lemma step_ok_stored:
  assumes "touches (po_id po) (en_book en) bk" and "step_ok sim b po (en\<lparr>en_book := bk\<rparr>, oc) s'"
  shows "step_ok sim b po (en, oc) s'"
  using assms by (auto simp: step_ok_def intro: touches_trans)

lemma process_order_ok:
  assumes inv: "engine_inv en" and po: "dget (pending (en_book en)) oid = Some po"
    and sy: "symbol (request po) = bar_symbol b" and run: "process_order sim b nb oid (en, oc) = Inr s'"
  shows "step_ok sim b po (en, oc) s'"
proof -
  let ?ex = "dget (positions (en_portfolio en)) (bar_symbol b)"
  have bk: "book_inv id (en_book en)" using inv by (simp add: engine_inv_def)
  note p = pending_id [OF bk po]
  consider (deferred) "deferred b po" | (stale) "\<not> deferred b po" "stale ?ex po"
    | (live) "\<not> deferred b po" "\<not> stale ?ex po" by blast
  then show ?thesis
  proof cases
    case deferred
    with run po inv show ?thesis by (auto simp: process_order_def intro: step_ok_same)
  next
    case stale
    with run po inv show ?thesis
      by (auto simp: process_order_def Let_def outcome_adds_def intro!: step_ok_drop [where ef = "[]" and xf = "[]"])
  next
    case live
    with run po obtain ja po1 where prep: "prepare b ?ex po = Inr (ja, po1)"
      by (auto simp: process_order_def Let_def split: sum.splits)
    have same: "same_accounts po po1" by (rule prepare_same [OF prep])
    note sa = same_accountsD [OF same]
    let ?en = "en\<lparr>en_book := store_order po1 (en_book en)\<rparr>"
    have st: "touches (po_id po) (en_book en) (store_order po1 (en_book en))"
      using store_touches [OF bk, of po1 po] po p sa by simp
    have inv': "engine_inv ?en" using inv touchesD(1) [OF st] by (simp add: engine_inv_def)
    have "\<not> stale ?ex po1" by (rule prepare_not_stale [OF prep live(2)])
    then have r: "ready_order b po1 ?en"
      using inv' sy sa by (simp add: ready_order_def store_order_def)
    have "step_ok sim b po1 (?en, oc) s'"
    proof (cases "sim_terms sim (effective_request b po1) b nb")
      case (Inr tmo)
      with run po live prep show ?thesis
        by (cases tmo) (auto simp: process_order_def Let_def intro: no_trigger_ok [OF r] triggered_ok [OF r])
    qed (use run po live prep in \<open>simp add: process_order_def Let_def\<close>)
    then show ?thesis by (intro step_ok_stored [OF st] step_ok_cong [OF same])
  qed
qed

section \<open>One bar\<close>

text \<open>The orders of a tick, one after the other, each as it was in the book when the tick began.\<close>

inductive tick_run ::
  "simulator \<Rightarrow> bar \<Rightarrow> pending_order list \<Rightarrow> portfolio \<Rightarrow> portfolio \<Rightarrow> fill list \<Rightarrow> fill list \<Rightarrow> trade_record list \<Rightarrow> bool"
  for sim :: simulator and b :: bar where
  tick_done: "tick_run sim b [] pf pf [] [] []"
| tick_skip: "tick_run sim b pos pf pf' ef xf ts \<Longrightarrow> tick_run sim b (po # pos) pf pf' ef xf ts"
| tick_order: "order_effect sim b po pf pf1 ef xf ts \<Longrightarrow> tick_run sim b pos pf1 pf' ef' xf' ts' \<Longrightarrow>
    tick_run sim b (po # pos) pf pf' (ef @ ef') (xf @ xf') (ts @ ts')"

text \<open>The orders still to come are untouched: as they were when the tick began, or gone.\<close>

definition as_started :: "bar \<Rightarrow> pending_order list \<Rightarrow> order_book \<Rightarrow> bool" where
  "as_started b pos bk \<longleftrightarrow> distinct (map po_id pos) \<and>
     (\<forall>po \<in> set pos. symbol (request po) = bar_symbol b \<and> issued bk (po_id po) \<and>
        (\<forall>q. dget (pending bk) (po_id po) = Some q \<longrightarrow> q = po))"

lemma as_started_step:
  assumes "as_started b (po # pos) bk" and "touches (po_id po) bk bk'"
  shows "as_started b pos bk'"
  using assms touchesD(2,3) [OF assms(2)] issued_mono [of bk _ bk']
  unfolding as_started_def by (auto simp: image_iff)

lemma process_orders_ok:
  "engine_inv en \<Longrightarrow> as_started b pos (en_book en) \<Longrightarrow>
   process_orders sim b nb (map po_id pos) (en, oc) = Inr (en', oc') \<Longrightarrow>
   engine_inv en' \<and> (\<exists>ef xf ts. outcome_adds oc ef xf ts oc' \<and>
     tick_run sim b pos (en_portfolio en) (en_portfolio en') ef xf ts)"
proof (induction pos arbitrary: en oc)
  case Nil
  then show ?case by (auto simp: outcome_adds_def intro: tick_done)
next
  case (Cons po pos)
  from Cons.prems(3) obtain en1 oc1 where one: "process_order sim b nb (po_id po) (en, oc) = Inr (en1, oc1)"
    and rest: "process_orders sim b nb (map po_id pos) (en1, oc1) = Inr (en', oc')"
    by (auto split: sum.splits)
  show ?case
  proof (cases "dget (pending (en_book en)) (po_id po)")
    case None
    with one have e: "en1 = en" "oc1 = oc" by (simp_all add: process_order_def)
    have "as_started b pos (en_book en)" using Cons.prems(2) by (simp add: as_started_def)
    from Cons.IH [OF Cons.prems(1) this rest [unfolded e]] show ?thesis by (blast intro: tick_skip)
  next
    case (Some q)
    with Cons.prems(2) have q: "q = po" "symbol (request po) = bar_symbol b" by (auto simp: as_started_def)
    from process_order_ok [OF Cons.prems(1) Some [unfolded q(1)] q(2) one]
    obtain ef xf ts where s: "outcome_adds oc ef xf ts oc1" "engine_inv en1"
      "order_effect sim b po (en_portfolio en) (en_portfolio en1) ef xf ts"
      "touches (po_id po) (en_book en) (en_book en1)" by (auto simp: step_ok_def)
    from Cons.IH [OF s(2) as_started_step [OF Cons.prems(2) s(4)] rest] obtain ef' xf' ts' where r:
      "engine_inv en'" "outcome_adds oc1 ef' xf' ts' oc'"
      "tick_run sim b pos (en_portfolio en1) (en_portfolio en') ef' xf' ts'" by blast
    have "outcome_adds oc (ef @ ef') (xf @ xf') (ts @ ts') oc'"
      using s(1) r(2) by (simp add: outcome_adds_def)
    with tick_order [OF s(3) r(3)] r(1) show ?thesis by blast
  qed
qed

text \<open>The pending orders of the bar's symbol, in submission order.\<close>

definition orders_on :: "bar \<Rightarrow> engine \<Rightarrow> pending_order list" where
  "orders_on b en = filter (\<lambda>po. symbol (request po) = bar_symbol b) (all_pending (en_book en))"

lemma orders_on_pending:
  assumes "engine_inv en"
  shows "po \<in> set (orders_on b en) \<longleftrightarrow>
    dget (pending (en_book en)) (po_id po) = Some po \<and> symbol (request po) = bar_symbol b"
proof -
  from assms have bk: "book_inv id (en_book en)" by (simp add: engine_inv_def)
  note i = indexes_okD [OF book_inv_xD(1) [OF bk]]
  have "po \<in> set (dvals (pending (en_book en))) \<longleftrightarrow> dget (pending (en_book en)) (po_id po) = Some po"
  proof
    assume "po \<in> set (dvals (pending (en_book en)))"
    then obtain k where k: "(k, po) \<in> set (pending (en_book en))" by auto
    from wf_dict_dget [OF i(1) k] have d: "dget (pending (en_book en)) k = Some po" .
    with pending_id(1) [OF bk d] show "dget (pending (en_book en)) (po_id po) = Some po" by simp
  next
    assume "dget (pending (en_book en)) (po_id po) = Some po"
    from dget_in_set [OF this] show "po \<in> set (dvals (pending (en_book en)))" by force
  qed
  then show ?thesis by (auto simp: orders_on_def all_pending_def)
qed

lemma process_bar_ok:
  assumes inv: "engine_inv en" and run: "process_bar sim b nb en = Inr (en', oc)"
  shows "engine_inv en' \<and>
    tick_run sim b (orders_on b en) (en_portfolio en) (en_portfolio en') (entry_fills oc) (exit_fills oc) (closed_trades oc)"
proof -
  let ?scan = "pending_for_symbol (bar_symbol b) (en_book en)"
  let ?en = "en\<lparr>en_book := snd ?scan\<rparr>"
  from inv have bk: "book_inv id (en_book en)" by (simp add: engine_inv_def)
  note i = indexes_okD [OF book_inv_xD(1) [OF bk]]
  have live: "fst ?scan = orders_on b en"
    using scan_live [OF i(7,1)] by (simp add: pending_for_symbol_eq orders_on_def all_pending_def)
  have same: "pending (snd ?scan) = pending (en_book en)" "next_id (snd ?scan) = next_id (en_book en)"
    by (simp_all add: pending_for_symbol_eq)
  have inv': "engine_inv ?en"
    using inv pending_for_symbol_inv [OF bk] by (simp add: engine_inv_def)
  have "distinct (map po_id (orders_on b en))"
  proof -
    have "map po_id (dvals (pending (en_book en))) = dkeys (pending (en_book en))"
      using pending_id(1) [OF bk wf_dict_dget [OF i(1)]] by auto
    with i(1) have "distinct (map po_id (dvals (pending (en_book en))))" unfolding wf_dict_def by metis
    from distinct_map_filter [OF this] show ?thesis unfolding orders_on_def all_pending_def .
  qed
  then have st: "as_started b (orders_on b en) (en_book ?en)"
    using orders_on_pending [OF inv] pending_id(2) [OF bk] issued_cong [OF same(2)]
    by (auto simp: as_started_def same)
  from run have "process_orders sim b nb (map po_id (orders_on b en)) (?en, no_fills) = Inr (en', oc)"
    by (simp add: process_bar_def case_prod_unfold Let_def live)
  from process_orders_ok [OF inv' st this] show ?thesis
    by (auto simp: outcome_adds_def no_fills_def)
qed

end
