(* ===== verification/FillMachine.thy ===== *)
theory FillMachine
  imports FillRefine
begin

text \<open>
  The trading engine as a machine: between ticks the session submits and cancels orders, marks prices,
  prunes and sweeps the book; a tick processes a bar. A step that raises ends the run, so only steps that
  return are steps. The session also binds resting exit orders to a position in place
  (\<^verbatim>\<open>working_against_entry_order_id\<close> in \<^verbatim>\<open>service.py\<close>); that assignment is not among the steps. The invariant of \<open>FillEffect\<close> is kept by every step; a tick leaves the summary
  \<open>tick_run\<close>, whose consequences for cash, positions and fills are collected here.
\<close>

section \<open>The machine\<close>

inductive engine_step :: "simulator \<Rightarrow> engine \<Rightarrow> engine \<Rightarrow> bool" for sim :: simulator where
  step_book: "book_ok l (en_book en) \<Longrightarrow> engine_step sim en (en\<lparr>en_book := book_run id l (en_book en)\<rparr>)"
| step_price: "engine_step sim en (en\<lparr>en_portfolio := update_last_price sy price (en_portfolio en)\<rparr>)"
| step_mark: "engine_step sim en (en\<lparr>en_portfolio := snd (mark_to_market (en_portfolio en))\<rparr>)"
| step_expire: "expire_day_and_protect (en_portfolio en) b (en_book en) = Inr (gone, bk) \<Longrightarrow>
    engine_step sim en (en\<lparr>en_book := bk\<rparr>)"
| step_bar: "process_bar sim b nb en = Inr (en', oc) \<Longrightarrow> engine_step sim en en'"

definition engine_start :: "engine \<Rightarrow> bool" where
  "engine_start en \<longleftrightarrow> en_book en = empty_book \<and> (\<exists>c. en_portfolio en = new_portfolio c)"

abbreviation engine_reachable :: "simulator \<Rightarrow> engine \<Rightarrow> bool" where
  "engine_reachable sim \<equiv> reachable engine_start (engine_step sim)"

lemma update_last_price_frame [simp]:
  "positions (update_last_price sy price pf) = positions pf" "capital (update_last_price sy price pf) = capital pf"
  "cumulative_pnl (update_last_price sy price pf) = cumulative_pnl pf"
  by (simp_all add: update_last_price_def)

lemma engine_start_inv: "engine_start en \<Longrightarrow> engine_inv en"
  by (auto simp: engine_start_def engine_inv_def empty_book_inv new_portfolio_def positions_ok_def wf_dict_def)

lemma protect_expired_inv:
  "protect_expired pf ts pos b = Inr b' \<Longrightarrow> book_inv id b \<Longrightarrow> book_inv id b'"
  by (induction pf ts pos b rule: protect_expired.induct)
    (auto split: sum.splits if_splits dest!: abandon_touches touchesD(1))

lemma expire_inv:
  assumes "expire_day_and_protect pf b bk = Inr (gone, bk')" and "book_inv id bk"
  shows "book_inv id bk'"
proof -
  obtain ex bk1 where ex: "expire_day_orders (bar_timestamp b) bk = (ex, bk1)" by fastforce
  have "book_inv id (book_run id (BExpire (bar_timestamp b)) bk)"
    by (rule book_run_inv [OF assms(2)]) (simp_all add: rounds_zero_def)
  then have "book_inv id bk1" by (simp add: ex)
  with assms(1) ex show ?thesis
    by (auto simp: expire_day_and_protect_def map_sum_eq_Inr intro: protect_expired_inv)
qed

lemma engine_step_inv: "engine_step sim en en' \<Longrightarrow> engine_inv en \<Longrightarrow> engine_inv en'"
proof (induction rule: engine_step.induct)
  case (step_book l en)
  then show ?case using book_run_inv [of id "en_book en" l] by (simp add: engine_inv_def rounds_zero_def)
next
  case (step_expire en b gone bk)
  then show ?case by (auto simp: engine_inv_def intro: expire_inv)
next
  case (step_bar b nb en en' oc)
  then show ?case using process_bar_ok by blast
qed (simp_all add: engine_inv_def)

interpretation trading_engine: invariant_system engine_start "engine_step sim" engine_inv for sim
  by unfold_locales (blast intro: engine_start_inv engine_step_inv)+

section \<open>What a tick does to the account\<close>

definition value_of :: "fill list \<Rightarrow> rat" where
  "value_of fs = sum_list (map (\<lambda>f. fill_qty f * fill_price f) fs)"

lemma value_of_simps [simp]:
  "value_of [] = 0" "value_of (f # fs) = fill_qty f * fill_price f + value_of fs"
  "value_of (fs @ gs) = value_of fs + value_of gs"
  by (simp_all add: value_of_def)

lemma value_of_refusals: "\<forall>f \<in> set fs. refusal_of po f \<Longrightarrow> value_of fs = 0"
  by (induction fs) (auto simp: refusal_of_def)

text \<open>The running result: rounded to cents after every trade.\<close>

definition booked :: "rat \<Rightarrow> trade_record list \<Rightarrow> rat" where
  "booked c ts = foldl (\<lambda>c t. py_round 2 (c + tr_net_pnl t)) c ts"

lemma booked_append: "booked c (ts @ us) = booked (booked c ts) us"
  by (simp add: booked_def)

lemma effect_cash:
  assumes "order_effect sim b po pf pf' ef xf ts"
  shows "\<exists>ds. list_all2 (\<lambda>t d. \<exists>rest. dust_of t rest d) ts ds \<and>
    capital pf' = capital pf - value_of ef + value_of xf + sum_list ds \<and>
    cumulative_pnl pf' = booked (cumulative_pnl pf) ts"
  using assms
proof cases
  case effect_none
  then have "value_of ef = 0" "value_of xf = 0" using value_of_refusals by auto
  with effect_none show ?thesis by (auto simp: booked_def)
next
  case (effect_close f p t d)
  then have "list_all2 (\<lambda>t d. \<exists>rest. dust_of t rest d) ts [d] \<and> capital pf' = capital pf - value_of ef + value_of xf + sum_list [d]"
    by (simp; blast)
  with effect_close show ?thesis by (intro exI [of _ "[d]"]) (simp add: booked_def)
qed (auto simp: booked_def)

lemma tick_cash:
  "tick_run sim b pos pf pf' ef xf ts \<Longrightarrow>
   \<exists>ds. list_all2 (\<lambda>t d. \<exists>rest. dust_of t rest d) ts ds \<and> capital pf' = capital pf - value_of ef + value_of xf + sum_list ds \<and>
     cumulative_pnl pf' = booked (cumulative_pnl pf) ts"
proof (induction rule: tick_run.induct)
  case (tick_done pf)
  then show ?case by (auto simp: booked_def)
next
  case (tick_order po pf pf1 ef xf ts pos pf' ef' xf' ts')
  from effect_cash [OF tick_order.hyps(1)] tick_order.IH obtain ds ds' where
    "list_all2 (\<lambda>t d. \<exists>rest. dust_of t rest d) ts ds" "list_all2 (\<lambda>t d. \<exists>rest. dust_of t rest d) ts' ds'"
    "capital pf1 = capital pf - value_of ef + value_of xf + sum_list ds"
    "capital pf' = capital pf1 - value_of ef' + value_of xf' + sum_list ds'"
    "cumulative_pnl pf1 = booked (cumulative_pnl pf) ts" "cumulative_pnl pf' = booked (cumulative_pnl pf1) ts'"
    by blast
  then have "list_all2 (\<lambda>t d. \<exists>rest. dust_of t rest d) (ts @ ts') (ds @ ds') \<and>
    capital pf' = capital pf - value_of (ef @ ef') + value_of (xf @ xf') + sum_list (ds @ ds') \<and>
    cumulative_pnl pf' = booked (cumulative_pnl pf) (ts @ ts')"
    by (simp add: list_all2_appendI booked_append)
  then show ?case by blast
qed

section \<open>What a tick fills\<close>

definition filled_by :: "simulator \<Rightarrow> bar \<Rightarrow> pending_order \<Rightarrow> fill \<Rightarrow> bool" where
  "filled_by sim b po f \<longleftrightarrow>
     refusal_of po f \<or>
     slice_of po f \<and> check_fill (bar_safety_enabled sim) (po_id po) (submitted_at po) (bar_timestamp b) = Inr ()"

lemma effect_fills: "order_effect sim b po pf pf' ef xf ts \<Longrightarrow> f \<in> set (ef @ xf) \<Longrightarrow> filled_by sim b po f"
  by (erule order_effect.cases) (auto simp: filled_by_def)

lemma tick_fills:
  "tick_run sim b pos pf pf' ef xf ts \<Longrightarrow> f \<in> set (ef @ xf) \<Longrightarrow> \<exists>po \<in> set pos. filled_by sim b po f"
proof (induction rule: tick_run.induct)
  case (tick_order po pf pf1 ef xf ts pos pf' ef' xf' ts')
  then show ?case using effect_fills [OF tick_order.hyps(1), of f] by auto
qed auto

lemma effect_other_symbols:
  "order_effect sim b po pf pf' ef xf ts \<Longrightarrow> sy \<noteq> bar_symbol b \<Longrightarrow> dget (positions pf') sy = dget (positions pf) sy"
  by (erule order_effect.cases) simp_all

lemma tick_other_symbols:
  "tick_run sim b pos pf pf' ef xf ts \<Longrightarrow> sy \<noteq> bar_symbol b \<Longrightarrow> dget (positions pf') sy = dget (positions pf) sy"
  by (induction rule: tick_run.induct) (simp_all add: effect_other_symbols)

section \<open>What a tick does to the position of its symbol\<close>

definition bought :: "fill list \<Rightarrow> rat" where
  "bought fs = sum_list (map fill_qty fs)"

lemma bought_simps [simp]:
  "bought [] = 0" "bought (f # fs) = fill_qty f + bought fs" "bought (fs @ gs) = bought fs + bought gs"
  by (simp_all add: bought_def)

definition holding :: "bar \<Rightarrow> portfolio \<Rightarrow> rat" where
  "holding b pf = (case dget (positions pf) (bar_symbol b) of None \<Rightarrow> 0 | Some p \<Rightarrow> pos_qty p)"

lemma bought_refusals: "\<forall>f \<in> set fs. refusal_of po f \<Longrightarrow> bought fs = 0"
  by (induction fs) (auto simp: refusal_of_def)



text \<open>The quantity held changes by the fills; closing may drop a residual of at most the tolerance.\<close>

lemma effect_holding:
  assumes "order_effect sim b po pf pf' ef xf ts" and "wf_dict (positions pf)"
  shows "\<exists>rest. 0 \<le> rest \<and> rest \<le> sum_list (map tr_shares ts) * fill_qty_rel_tol \<and>
    holding b pf' + rest = holding b pf + bought ef - bought xf"
  using assms(1)
proof cases
  case effect_none
  then have "bought ef = 0" "bought xf = 0" using bought_refusals by auto
  with effect_none show ?thesis by (simp add: holding_def)
next
  case (effect_close f p t d)
  then have "holding b pf' = 0" using assms(2) by (simp add: holding_def)
  with effect_close show ?thesis
    by (intro exI [of _ "pos_qty p - fill_qty f"]) (simp add: holding_def dust_of_def)
qed (auto simp: holding_def)

lemma effect_wf: "order_effect sim b po pf pf' ef xf ts \<Longrightarrow> wf_dict (positions pf) \<Longrightarrow> wf_dict (positions pf')"
  by (erule order_effect.cases) simp_all

lemma tick_holding:
  "tick_run sim b pos pf pf' ef xf ts \<Longrightarrow> wf_dict (positions pf) \<Longrightarrow>
   \<exists>rest. 0 \<le> rest \<and> rest \<le> sum_list (map tr_shares ts) * fill_qty_rel_tol \<and>
     holding b pf' + rest = holding b pf + bought ef - bought xf"
proof (induction rule: tick_run.induct)
  case (tick_order po pf pf1 ef xf ts pos pf' ef' xf' ts')
  from effect_holding [OF tick_order.hyps(1) tick_order.prems] obtain r where r:
    "0 \<le> r" "r \<le> sum_list (map tr_shares ts) * fill_qty_rel_tol"
    "holding b pf1 + r = holding b pf + bought ef - bought xf" by blast
  from tick_order.IH [OF effect_wf [OF tick_order.hyps(1) tick_order.prems]] obtain r' where r':
    "0 \<le> r'" "r' \<le> sum_list (map tr_shares ts') * fill_qty_rel_tol"
    "holding b pf' + r' = holding b pf1 + bought ef' - bought xf'" by blast
  from r r' show ?case by (intro exI [of _ "r + r'"]) (simp add: distrib_right)
qed (auto intro: exI [of _ 0])

end
