(* ===== verification/FillProps.thy ===== *)
theory FillProps
  imports FillMachine
begin

text \<open>
  The properties of the trading engine over its reachable states: a tick refines the contract of its
  orders, positions stay whole, nothing fills on a bar its order has already seen, cash and holdings
  change by exactly the fills. The witnesses run one buy order through one bar.
\<close>

section \<open>A run\<close>

definition demo_sim :: "rat \<Rightarrow> simulator" where
  "demo_sim slippage =
     \<lparr>sim_limits = default_limits\<lparr>max_position_pct := 100, max_symbol_concentration_pct := 100\<rparr>,
      slippage_bps = slippage, transaction_cost_bps = 0, bar_safety_enabled = True,
      sim_terms = compute_fill_terms Optimistic, exit_reconciler = None\<rparr>"

definition demo_bar :: "string \<Rightarrow> rat \<Rightarrow> bar" where
  "demo_bar ts p =
     \<lparr>bar_symbol = ''A'', bar_timestamp = ts, bar_timeframe = ''1d'', bar_open = p, bar_high = p + 1,
      bar_low = p - 1, bar_close = p, bar_volume = 1000\<rparr>"

definition demo_empty :: "rat \<Rightarrow> engine" where
  "demo_empty c = \<lparr>en_book = empty_book, en_portfolio = new_portfolio c, en_trade_num = 0\<rparr>"

definition demo_submit :: "order_side \<Rightarrow> string \<Rightarrow> engine \<Rightarrow> engine" where
  "demo_submit sd ts en =
     en\<lparr>en_book := book_run id (BSubmit (market_request ''A'' sd 10) ts 2000 False) (en_book en)\<rparr>"

definition demo_ordered :: engine where
  "demo_ordered = demo_submit LONG ''2024-01-01'' (demo_empty 2000)"

lemma demo_ordered_reachable: "engine_reachable (demo_sim k) demo_ordered"
proof -
  have "engine_reachable (demo_sim k) (demo_empty 2000)"
    by (rule reach_init) (auto simp: engine_start_def demo_empty_def)
  moreover have "engine_step (demo_sim k) (demo_empty 2000) demo_ordered"
    unfolding demo_ordered_def demo_submit_def
    by (rule step_book) (simp add: market_request_def)
  ultimately show ?thesis by (rule reach_step)
qed

definition ticked :: "simulator \<Rightarrow> bar \<Rightarrow> engine \<Rightarrow> engine \<times> fill_outcome" where
  "ticked sim b en = (case process_bar sim b None en of Inl e \<Rightarrow> (en, no_fills) | Inr s \<Rightarrow> s)"

definition demo_tick :: "engine \<times> fill_outcome" where
  "demo_tick = ticked (demo_sim 10) (demo_bar ''2024-01-02'' 100) demo_ordered"

lemma demo_tick_runs:
  "process_bar (demo_sim 10) (demo_bar ''2024-01-02'' 100) None demo_ordered = Inr (fst demo_tick, snd demo_tick)"
  by code_simp

section \<open>Properties\<close>

text \<open>C2. A bar is processed as its orders promise: from a reachable engine, a tick that returns leaves a
  reachable engine, and the change of the account with the fills and trades it reports are those of the
  pending orders of the bar's symbol, in submission order, each of them with an effect of its contract or
  skipped.\<close>

theorem process_bar_refines:
  assumes "engine_reachable sim en" and "process_bar sim b nb en = Inr (en', oc)"
  shows "engine_reachable sim en' \<and>
    tick_run sim b (orders_on b en) (en_portfolio en) (en_portfolio en')
      (entry_fills oc) (exit_fills oc) (closed_trades oc)"
  using process_bar_ok [OF trading_engine.reachable_inv [OF assms(1)] assms(2)]
    reach_step [OF assms(1) step_bar [OF assms(2)]] by blast

text \<open>C3. In every reachable state an open position sits under its own symbol, holds a positive quantity,
  and what it holds plus what was sold out of it is what was ever bought into it: no exit oversells a
  position, none flips it to the other side, and none leaves an empty one behind.\<close>

theorem positions_stay_whole:
  assumes "engine_reachable sim en" and "dget (positions (en_portfolio en)) sy = Some p"
  shows "pos_symbol p = sy \<and> 0 < pos_qty p \<and> 0 \<le> cumulative_exit_qty p \<and>
    pos_qty p + cumulative_exit_qty p = pos_original_qty p \<and> \<not> is_closed p"
  using positions_okD(1) [OF _ assms(2)] trading_engine.reachable_inv [OF assms(1)]
  by (simp add: engine_inv_def position_ok_def)

lemma reachable_tick:
  assumes "engine_reachable sim en" and "process_bar sim b nb en = Inr (en', oc)"
  shows "tick_run sim b (orders_on b en) (en_portfolio en) (en_portfolio en')
      (entry_fills oc) (exit_fills oc) (closed_trades oc)"
  using process_bar_ok [OF trading_engine.reachable_inv [OF assms(1)] assms(2)] by blast

lemma check_fill_earlier:
  "check_fill True oid submitted now = Inr () \<Longrightarrow> submitted = [] \<or> now = [] \<or> \<not> ts_le now submitted"
  by (auto simp: check_fill_def split: if_splits)

text \<open>C4. No look-ahead, and exact accounts: with the guard on, a fill of a positive quantity belongs to an
  order that was pending on the bar's symbol when the bar began and that was submitted, or last requeued,
  strictly before it; the fill takes at most what was left of the order, reports what is filled and what
  is left so that they add up to the original quantity, and is called full exactly when nothing is left.\<close>

theorem fills_come_from_earlier_orders:
  assumes "engine_reachable sim en" and "process_bar sim b nb en = Inr (en', oc)"
    and "bar_safety_enabled sim" and "f \<in> set (entry_fills oc @ exit_fills oc)" and "fill_qty f \<noteq> 0"
  shows "\<exists>po. dget (pending (en_book en)) (fill_order_id f) = Some po \<and> symbol (request po) = bar_symbol b \<and>
    (submitted_at po = [] \<or> bar_timestamp b = [] \<or> \<not> ts_le (bar_timestamp b) (submitted_at po)) \<and>
    0 < fill_qty f \<and> fill_qty f \<le> remaining_qty po \<and>
    fill_cumulative_qty f = cumulative_filled_qty po + fill_qty f \<and>
    fill_cumulative_qty f + unfilled_qty f = original_qty po \<and>
    (kind_of_fill f = FULL \<longleftrightarrow> unfilled_qty f = 0)"
proof -
  from tick_fills [OF reachable_tick [OF assms(1,2)] assms(4)] obtain po where
    po: "po \<in> set (orders_on b en)" "filled_by sim b po f" by blast
  with assms(3,5) have f: "slice_of po f" "fill_order_id f = po_id po"
    "check_fill True (po_id po) (submitted_at po) (bar_timestamp b) = Inr ()"
    by (auto simp: filled_by_def refusal_of_def slice_of_def)
  from po(1) have "dget (pending (en_book en)) (po_id po) = Some po" "symbol (request po) = bar_symbol b"
    using orders_on_pending [OF trading_engine.reachable_inv [OF assms(1)]] by auto
  with f check_fill_earlier [OF f(3)] show ?thesis by (auto simp: slice_of_def)
qed

text \<open>C6. Cash moves by exactly the fills: over a bar the capital changes by the value of the exit fills
  less that of the entry fills, plus, for every trade it closes, the residual of the position within the
  closing tolerance, paid at the average exit price and rounded to cents; the running result adds the net
  result of every closed trade, rounded to cents.\<close>

theorem bar_conserves_cash:
  assumes "engine_reachable sim en" and "process_bar sim b nb en = Inr (en', oc)"
  shows "\<exists>ds. list_all2 (\<lambda>t d. \<exists>rest. dust_of t rest d) (closed_trades oc) ds \<and>
    capital (en_portfolio en') =
      capital (en_portfolio en) - value_of (entry_fills oc) + value_of (exit_fills oc) + sum_list ds \<and>
    cumulative_pnl (en_portfolio en') = booked (cumulative_pnl (en_portfolio en)) (closed_trades oc)"
  by (rule tick_cash [OF reachable_tick [OF assms]])

text \<open>Holdings move by exactly the fills: the quantity held in the bar's symbol grows by the entry fills
  and shrinks by the exit fills, up to the residual a closed trade drops, which is never more than the
  tolerance of its shares; the position of any other symbol is exactly what it was.\<close>

theorem bar_balances_holdings:
  assumes "engine_reachable sim en" and "process_bar sim b nb en = Inr (en', oc)"
  shows "(\<exists>rest. 0 \<le> rest \<and> rest \<le> sum_list (map tr_shares (closed_trades oc)) * fill_qty_rel_tol \<and>
      holding b (en_portfolio en') + rest =
        holding b (en_portfolio en) + bought (entry_fills oc) - bought (exit_fills oc)) \<and>
    (\<forall>sy. sy \<noteq> bar_symbol b \<longrightarrow> dget (positions (en_portfolio en')) sy = dget (positions (en_portfolio en)) sy)"
proof -
  note tick = reachable_tick [OF assms]
  have "wf_dict (positions (en_portfolio en))"
    using trading_engine.reachable_inv [OF assms(1)] by (simp add: engine_inv_def positions_ok_def)
  from tick_holding [OF tick this] tick_other_symbols [OF tick] show ?thesis by blast
qed

section \<open>Witnesses\<close>

lemma demo_tick_facts:
  "map fill_qty (entry_fills (snd demo_tick)) = [10]" "capital (en_portfolio (fst demo_tick)) = 999"
  "map_option pos_qty (dget (positions (en_portfolio (fst demo_tick))) ''A'') = Some 10"
  by code_simp+

theorem process_bar_refines_witness:
  "engine_reachable (demo_sim 10) (fst demo_tick) \<and> capital (en_portfolio (fst demo_tick)) = 999"
  using process_bar_refines [OF demo_ordered_reachable demo_tick_runs] demo_tick_facts by blast

theorem positions_stay_whole_witness:
  "\<exists>p. dget (positions (en_portfolio (fst demo_tick))) ''A'' = Some p \<and> 0 < pos_qty p \<and> \<not> is_closed p"
proof -
  obtain p where p: "dget (positions (en_portfolio (fst demo_tick))) ''A'' = Some p"
    using demo_tick_facts(3) by auto
  from positions_stay_whole [OF reach_step [OF demo_ordered_reachable step_bar [OF demo_tick_runs]] p] p
  show ?thesis by blast
qed

theorem fills_come_from_earlier_orders_witness:
  "\<exists>f po. entry_fills (snd demo_tick) = [f] \<and> dget (pending (en_book demo_ordered)) (fill_order_id f) = Some po \<and>
     fill_qty f \<le> remaining_qty po \<and> fill_cumulative_qty f + unfilled_qty f = original_qty po"
proof -
  obtain f where f: "entry_fills (snd demo_tick) = [f]" "fill_qty f = 10"
    using demo_tick_facts(1) by (auto simp: map_eq_Cons_conv)
  have "f \<in> set (entry_fills (snd demo_tick) @ exit_fills (snd demo_tick))" by (simp add: f)
  from fills_come_from_earlier_orders [OF demo_ordered_reachable demo_tick_runs _ this] f
  show ?thesis by (auto simp: demo_sim_def)
qed

theorem bar_conserves_cash_witness:
  "\<exists>ds. list_all2 (\<lambda>t d. \<exists>rest. dust_of t rest d) (closed_trades (snd demo_tick)) ds \<and>
     999 = 2000 - value_of (entry_fills (snd demo_tick)) + value_of (exit_fills (snd demo_tick)) + sum_list ds"
proof -
  have "capital (en_portfolio demo_ordered) = 2000" by code_simp
  with bar_conserves_cash [OF demo_ordered_reachable demo_tick_runs] demo_tick_facts(2) show ?thesis by auto
qed

theorem bar_balances_holdings_witness:
  "\<exists>rest. holding (demo_bar ''2024-01-02'' 100) (en_portfolio (fst demo_tick)) + rest =
     holding (demo_bar ''2024-01-02'' 100) (en_portfolio demo_ordered) +
     bought (entry_fills (snd demo_tick)) - bought (exit_fills (snd demo_tick))"
  using bar_balances_holdings [OF demo_ordered_reachable demo_tick_runs] by blast

end
