(* ===== verification/FillMoney.thy ===== *)
theory FillMoney
  imports FillProps
begin

text \<open>
  Profit and loss against cash. A position is opened, grown slice by slice and sold slice by slice; the
  trade record's gross result is compared with what the cash did. For a long position entered before it is
  sold the two agree; for a short one they have opposite signs, and a slice bought after a partial exit
  makes them differ.
\<close>

section \<open>Slices\<close>

fun grow_slices :: "string \<Rightarrow> (rat \<times> rat \<times> rat) list \<Rightarrow> portfolio \<Rightarrow> portfolio outcome" where
  "grow_slices sy [] pf = Inr pf"
| "grow_slices sy ((q, price, ref) # gs) pf =
     (case grow_position sy q price ref 0 pf of Inl e \<Rightarrow> Inl e | Inr pf \<Rightarrow> grow_slices sy gs pf)"

fun sell_slices :: "string \<Rightarrow> (rat \<times> rat \<times> rat) list \<Rightarrow> portfolio \<Rightarrow> portfolio" where
  "sell_slices sy [] pf = pf"
| "sell_slices sy ((q, price, ref) # xs) pf = sell_slices sy xs (snd (partial_close sy q price ref pf))"

definition slices_qty :: "(rat \<times> rat \<times> rat) list \<Rightarrow> rat" where
  "slices_qty xs = sum_list (map fst xs)"

definition slices_value :: "(rat \<times> rat \<times> rat) list \<Rightarrow> rat" where
  "slices_value xs = sum_list (map (\<lambda>(q, price, ref). q * price) xs)"

text \<open>A position nothing was sold from: its cost is what its entries cost.\<close>

definition untouched :: "rat \<Rightarrow> position \<Rightarrow> bool" where
  "untouched cost p \<longleftrightarrow>
     0 < pos_qty p \<and> pos_original_qty p = pos_qty p \<and> cumulative_exit_qty p = 0 \<and>
     weighted_exit_price_sum p = 0 \<and> entry_price p * pos_qty p = cost"

lemma grow_position_untouched:
  assumes "grow_position sy q price ref clipped pf = Inr pf'" and "0 < q"
    and "dget (positions pf) sy = Some p" and "untouched cost p"
  shows "\<exists>p'. dget (positions pf') sy = Some p' \<and> untouched (cost + q * price) p' \<and>
    pos_side p' = pos_side p \<and> capital pf' = capital pf - q * price"
proof -
  from assms(2,4) have n: "0 < pos_qty p + q" by (simp add: untouched_def)
  with assms have "pf' = put_position sy (count_slice q clipped (extend_by q price (Some ref) p))
      (pf\<lparr>positions := dset (positions pf) sy (extend_by q price (Some ref) p), capital := capital pf - q * price\<rparr>)"
    by (simp add: grow_position_def extend_position_def Let_def)
  then show ?thesis using n assms(2,4)
    by (auto simp: put_position_def untouched_def count_slice_def extend_by_def Let_def)
qed

lemma grow_slices_untouched:
  "grow_slices sy gs pf = Inr pf' \<Longrightarrow> (\<forall>g \<in> set gs. 0 < fst g) \<Longrightarrow> dget (positions pf) sy = Some p \<Longrightarrow>
   untouched cost p \<Longrightarrow>
   \<exists>p'. dget (positions pf') sy = Some p' \<and> untouched (cost + slices_value gs) p' \<and> pos_side p' = pos_side p \<and>
     capital pf' = capital pf - slices_value gs"
proof (induction sy gs pf arbitrary: p cost rule: grow_slices.induct)
  case (2 sy q price ref gs pf)
  from "2.prems"(1) obtain pf1 where one: "grow_position sy q price ref 0 pf = Inr pf1"
    and rest: "grow_slices sy gs pf1 = Inr pf'" by (auto split: sum.splits)
  from grow_position_untouched [OF one _ "2.prems"(3,4)] "2.prems"(2) obtain p1 where p1:
    "dget (positions pf1) sy = Some p1" "untouched (cost + q * price) p1" "pos_side p1 = pos_side p"
    "capital pf1 = capital pf - q * price" by auto
  from "2.IH" [OF one rest _ p1(1,2)] "2.prems"(2) p1(3,4) show ?case
    by (auto simp: slices_value_def algebra_simps)
qed (simp add: slices_value_def)

lemma sell_slices_position:
  "dget (positions pf) sy = Some p \<Longrightarrow>
   capital (sell_slices sy xs pf) = capital pf + slices_value xs \<and>
   (\<exists>p'. dget (positions (sell_slices sy xs pf)) sy = Some p' \<and>
      pos_qty p' = pos_qty p - slices_qty xs \<and> pos_original_qty p' = pos_original_qty p \<and>
      cumulative_exit_qty p' = cumulative_exit_qty p + slices_qty xs \<and> entry_price p' = entry_price p \<and>
      weighted_exit_price_sum p' = weighted_exit_price_sum p + slices_value xs \<and> pos_side p' = pos_side p)"
proof (induction sy xs pf arbitrary: p rule: sell_slices.induct)
  case (2 sy q price ref xs pf)
  let ?pf = "snd (partial_close sy q price ref pf)"
  have "dget (positions ?pf) sy = Some (reduce_position q price ref p)" "capital ?pf = capital pf + q * price"
    using "2.prems" by (simp_all add: partial_close_def Let_def)
  with "2.IH" [of "reduce_position q price ref p"] show ?case
    by (auto simp: reduce_position_def slices_qty_def slices_value_def algebra_simps)
qed (simp add: slices_qty_def slices_value_def)

text \<open>Sold out, the gross result is the proceeds less the cost, with the sign of the side.\<close>

lemma gross_pnl_sold_out:
  assumes "0 < pos_original_qty p" and "cumulative_exit_qty p = pos_original_qty p"
  shows "gross_pnl p =
    (if pos_side p = LONG then weighted_exit_price_sum p - entry_price p * pos_original_qty p
     else entry_price p * pos_original_qty p - weighted_exit_price_sum p)"
  using assms by (simp add: gross_pnl_def weighted_avg_exit_price_def left_diff_distrib)

text \<open>The whole life of a position and what it does to the cash.\<close>

lemma round_trip:
  assumes "open_position p pf0 = Inr pf1" and "untouched cost p"
    and "grow_slices (pos_symbol p) gs pf1 = Inr pf2" and "\<forall>g \<in> set gs. 0 < fst g"
    and "dget (positions pf2) (pos_symbol p) = Some p2" and "slices_qty xs = pos_qty p2"
    and "dget (positions (sell_slices (pos_symbol p) xs pf2)) (pos_symbol p) = Some p3"
  shows "pos_side p3 = pos_side p \<and> pos_qty p3 = 0 \<and>
    capital (sell_slices (pos_symbol p) xs pf2) - capital pf0 =
      (if pos_side p = LONG then gross_pnl p3 else - gross_pnl p3)"
proof -
  from assms(1,2) have o: "dget (positions pf1) (pos_symbol p) = Some p" "capital pf1 = capital pf0 - cost"
    by (auto simp: open_position_def untouched_def position_value_def Let_def split: if_splits)
  from grow_slices_untouched [OF assms(3,4) o(1) assms(2)] assms(5) have g:
    "untouched (cost + slices_value gs) p2" "pos_side p2 = pos_side p" "capital pf2 = capital pf1 - slices_value gs"
    by auto
  from sell_slices_position [OF assms(5), of xs] assms(6,7) have s:
    "capital (sell_slices (pos_symbol p) xs pf2) = capital pf2 + slices_value xs" "pos_qty p3 = 0"
    "pos_original_qty p3 = pos_original_qty p2" "cumulative_exit_qty p3 = cumulative_exit_qty p2 + slices_qty xs"
    "entry_price p3 = entry_price p2" "weighted_exit_price_sum p3 = weighted_exit_price_sum p2 + slices_value xs"
    "pos_side p3 = pos_side p2" by auto
  have "0 < pos_original_qty p3" "cumulative_exit_qty p3 = pos_original_qty p3"
    using g(1) s(3,4) assms(6) by (simp_all add: untouched_def)
  from gross_pnl_sold_out [OF this] have "gross_pnl p3 = (if pos_side p = LONG
      then slices_value xs - (cost + slices_value gs) else cost + slices_value gs - slices_value xs)"
    using g(1,2) s(3,5,6,7) by (simp add: untouched_def)
  with o(2) g(2,3) s(1,2,7) show ?thesis by simp
qed

section \<open>Properties\<close>

text \<open>For a long position the result is the cash: opened, grown by any slices at any prices and then sold
  out in any slices, the gross result its trade record is computed from is exactly what the capital gained
  over its life, and closing the empty remainder pays nothing.\<close>

theorem long_result_is_cash:
  assumes "open_position p pf0 = Inr pf1" and "untouched cost p" and "pos_side p = LONG"
    and "grow_slices (pos_symbol p) gs pf1 = Inr pf2" and "\<forall>g \<in> set gs. 0 < fst g"
    and "dget (positions pf2) (pos_symbol p) = Some p2" and "slices_qty xs = pos_qty p2"
    and "dget (positions (sell_slices (pos_symbol p) xs pf2)) (pos_symbol p) = Some p3"
  shows "gross_pnl p3 = capital (snd (close_position (pos_symbol p) price (sell_slices (pos_symbol p) xs pf2))) - capital pf0"
  using round_trip [OF assms(1,2,4,5,6,7,8)] assms(3,8) by (simp add: close_position_def)

text \<open>C18. For a short position it is the reverse: the capital loses exactly what the trade gained and gains
  what it lost, because an exit credits its quantity at the exit price whatever the side.\<close>

theorem short_result_is_reversed_cash:
  assumes "open_position p pf0 = Inr pf1" and "untouched cost p" and "pos_side p = SHORT"
    and "grow_slices (pos_symbol p) gs pf1 = Inr pf2" and "\<forall>g \<in> set gs. 0 < fst g"
    and "dget (positions pf2) (pos_symbol p) = Some p2" and "slices_qty xs = pos_qty p2"
    and "dget (positions (sell_slices (pos_symbol p) xs pf2)) (pos_symbol p) = Some p3"
  shows "capital (snd (close_position (pos_symbol p) price (sell_slices (pos_symbol p) xs pf2))) =
    capital pf0 - gross_pnl p3"
  using round_trip [OF assms(1,2,4,5,6,7,8)] assms(3,8) by (simp add: close_position_def)

text \<open>So the simulator's own books disagree on a short trade: one that shorts ten at 100 and covers at 90
  is recorded as a gain of 100 while the account ends 100 poorer than it began.\<close>

definition short_run :: "engine \<times> fill_outcome" where
  "short_run =
     (let en = fst (ticked (demo_sim 0) (demo_bar ''2024-01-02'' 100)
                 (demo_submit SHORT ''2024-01-01'' (demo_empty 2000)))
      in ticked (demo_sim 0) (demo_bar ''2024-01-03'' 90) (demo_submit LONG ''2024-01-02'' en))"

lemma ticked_reachable: "engine_reachable sim en \<Longrightarrow> engine_reachable sim (fst (ticked sim b en))"
  by (auto simp: ticked_def split: sum.splits intro: reach_step step_bar)

lemma demo_submit_reachable: "engine_reachable sim en \<Longrightarrow> engine_reachable sim (demo_submit sd ts en)"
  unfolding demo_submit_def by (erule reach_step) (rule step_book, simp add: market_request_def)

lemma demo_empty_reachable: "engine_reachable sim (demo_empty c)"
  by (rule reach_init) (auto simp: engine_start_def demo_empty_def)

lemma short_run_result:
  "engine_reachable (demo_sim 0) (fst short_run) \<and> positions (en_portfolio (fst short_run)) = [] \<and>
   map tr_net_pnl (closed_trades (snd short_run)) = [100] \<and> capital (en_portfolio (fst short_run)) = 2000 - 100"
proof -
  have "engine_reachable (demo_sim 0) (fst short_run)"
    unfolding short_run_def Let_def
    by (intro ticked_reachable demo_submit_reachable demo_empty_reachable)
  moreover have "positions (en_portfolio (fst short_run)) = []"
    "map tr_net_pnl (closed_trades (snd short_run)) = [100]" "capital (en_portfolio (fst short_run)) = 2000 - 100"
    by code_simp+
  ultimately show ?thesis by blast
qed

text \<open>The first slice of an entry is checked against the cash before slippage: what it takes is covered up
  to the slippage, and only up to it.\<close>

theorem entry_is_covered_before_slippage:
  assumes "fill_entry sim po ts tm en = Inr (Some f, why, evs, en')" and "fill_qty f \<noteq> 0"
  shows "fill_qty f * reference_price tm \<le> capital (en_portfolio en) \<and>
    capital (en_portfolio en') = capital (en_portfolio en) - fill_qty f * fill_price f \<and>
    fill_price f = slipped_price sim tm (side (request po) = LONG)"
proof -
  let ?q = "twap_slice_target po * clamped_fraction tm"
  have q: "0 < ?q"
    using assms by (auto simp: fill_entry_def Let_def no_liquidity_def rejected_fill_def split: sum.splits if_splits)
  let ?pos = "new_position po ts tm ?q (slipped_price sim tm (side (request po) = LONG)) (twap_slice_target po - ?q)"
  from assms(1) q obtain pf where cash: "?q * reference_price tm \<le> capital (en_portfolio en)"
    and op: "open_position ?pos (snd (mark_to_market (en_portfolio en))) = Inr pf"
    and st: "settle_entry (po\<lparr>working_against := Some (po_id po)\<rparr>) ts (remaining_qty po - ?q) (\<lambda>_. ?q)
       (real_fill (po\<lparr>working_against := Some (po_id po)\<rparr>) (symbol (request po)) (side (request po)) ?q
         (slipped_price sim tm (side (request po) = LONG)) ts ''entry'' (remaining_qty po - ?q) ?q)
       (en\<lparr>en_portfolio := pf, en_book := store_order (po\<lparr>working_against := Some (po_id po)\<rparr>) (en_book en)\<rparr>) =
       Inr (Some f, why, evs, en')"
    by (auto simp: fill_entry_def Let_def case_prod_unfold not_less split: if_splits sum.splits)
  from st have f: "fill_qty f = ?q" "fill_price f = slipped_price sim tm (side (request po) = LONG)"
    "en_portfolio en' = pf"
    by (auto simp: settle_entry_def real_fill_def split: sum.splits if_splits)
  from op have "capital pf = capital (en_portfolio en) - ?q * slipped_price sim tm (side (request po) = LONG)"
    by (auto simp: open_position_def new_position_def position_value_def Let_def split: if_splits)
  with f cash show ?thesis by simp
qed

text \<open>A buy of fifteen fills ten at 10 and is requeued; on the next bar a resting sell takes five off the
  position at 20, and the remainder of five is bought at 20, which re-averages the entry over the ten then
  held; at last ten are sold at 20.\<close>

definition resumed_sim :: simulator where
  "resumed_sim = (demo_sim 0)\<lparr>sim_terms := compute_fill_terms (Realistic (1 / 10) 50)\<rparr>"

definition resumed_bar :: "string \<Rightarrow> rat \<Rightarrow> rat \<Rightarrow> bar" where
  "resumed_bar ts p v = (demo_bar ts p)\<lparr>bar_volume := v\<rparr>"

definition resumed_submit :: "string \<Rightarrow> order_request \<Rightarrow> engine \<Rightarrow> engine" where
  "resumed_submit ts r en =
     en\<lparr>en_book := book_run id (BSubmit (r\<lparr>tif := GTC, unfilled_policy := Some REQUEUE_NEXT_BAR\<rparr>) ts 1000 False)
                   (en_book en)\<rparr>"

definition resumed_run :: "engine \<times> fill_outcome" where
  "resumed_run =
     (let en = resumed_submit ''2024-01-01'' ((market_request ''A'' SHORT 5)\<lparr>order_type := LIMIT, limit_price := Some 20\<rparr>)
                 (demo_empty 1000);
          en = resumed_submit ''2024-01-01'' (market_request ''A'' LONG 15) en;
          en = fst (ticked resumed_sim (resumed_bar ''2024-01-02'' 10 100) en);
          en = fst (ticked resumed_sim (resumed_bar ''2024-01-03'' 20 150) en);
          en = resumed_submit ''2024-01-03'' (market_request ''A'' SHORT 10) en
      in ticked resumed_sim (resumed_bar ''2024-01-04'' 20 150) en)"

lemma resumed_submit_reachable:
  "engine_reachable sim en \<Longrightarrow> 0 < qty r \<Longrightarrow> engine_reachable sim (resumed_submit ts r en)"
  unfolding resumed_submit_def by (erule reach_step) (rule step_book, simp)

text \<open>An entry that resumes after a partial exit misstates its result: the account gained 100 and the trade
  record says 75, because the entry price is averaged over the quantity still held while the result
  multiplies it by all that was ever bought.\<close>

theorem resumed_entry_misstates_result:
  "engine_reachable resumed_sim (fst resumed_run) \<and> positions (en_portfolio (fst resumed_run)) = [] \<and>
   capital (en_portfolio (fst resumed_run)) - initial_capital (en_portfolio (fst resumed_run)) = 100 \<and>
   map tr_gross_pnl (closed_trades (snd resumed_run)) = [75]"
proof -
  have "engine_reachable resumed_sim (fst resumed_run)"
    unfolding resumed_run_def Let_def
    by (intro ticked_reachable resumed_submit_reachable demo_empty_reachable) (simp_all add: market_request_def)
  moreover have "positions (en_portfolio (fst resumed_run)) = []"
    "capital (en_portfolio (fst resumed_run)) - initial_capital (en_portfolio (fst resumed_run)) = 100"
    "map tr_gross_pnl (closed_trades (snd resumed_run)) = [75]"
    by code_simp+
  ultimately show ?thesis by blast
qed

section \<open>Witnesses\<close>

definition demo_position :: "order_side \<Rightarrow> position" where
  "demo_position sd =
     new_position (new_order ''o1'' (market_request ''A'' sd 10) ''2024-01-01'' 2000 True) ''2024-01-02''
       (plain_terms 100) 10 100 0"

definition demo_opened :: "order_side \<Rightarrow> portfolio" where
  "demo_opened sd = (case open_position (demo_position sd) (new_portfolio 2000) of Inr pf \<Rightarrow> pf | Inl _ \<Rightarrow> new_portfolio 0)"

definition demo_grown :: "order_side \<Rightarrow> portfolio" where
  "demo_grown sd = (case grow_slices ''A'' [(10, 50, 50)] (demo_opened sd) of Inr pf \<Rightarrow> pf | Inl _ \<Rightarrow> new_portfolio 0)"

definition demo_held :: "portfolio \<Rightarrow> position" where
  "demo_held pf = the (dget (positions pf) ''A'')"

definition demo_exits :: "(rat \<times> rat \<times> rat) list" where
  "demo_exits = [(15, 90, 90), (5, 60, 60)]"

lemma demo_symbol: "pos_symbol (demo_position sd) = ''A''"
  by (simp add: demo_position_def new_position_def new_order_def market_request_def Let_def)

lemma long_life:
  "open_position (demo_position LONG) (new_portfolio 2000) = Inr (demo_opened LONG)"
  "untouched 1000 (demo_position LONG)" "pos_side (demo_position LONG) = LONG"
  "grow_slices ''A'' [(10, 50, 50)] (demo_opened LONG) = Inr (demo_grown LONG)"
  "dget (positions (demo_grown LONG)) ''A'' = Some (demo_held (demo_grown LONG))"
  "slices_qty demo_exits = pos_qty (demo_held (demo_grown LONG))"
  "dget (positions (sell_slices ''A'' demo_exits (demo_grown LONG))) ''A'' =
     Some (demo_held (sell_slices ''A'' demo_exits (demo_grown LONG)))"
  "gross_pnl (demo_held (sell_slices ''A'' demo_exits (demo_grown LONG))) = 150"
  by code_simp+

lemma short_life:
  "open_position (demo_position SHORT) (new_portfolio 2000) = Inr (demo_opened SHORT)"
  "untouched 1000 (demo_position SHORT)" "pos_side (demo_position SHORT) = SHORT"
  "grow_slices ''A'' [(10, 50, 50)] (demo_opened SHORT) = Inr (demo_grown SHORT)"
  "dget (positions (demo_grown SHORT)) ''A'' = Some (demo_held (demo_grown SHORT))"
  "slices_qty demo_exits = pos_qty (demo_held (demo_grown SHORT))"
  "dget (positions (sell_slices ''A'' demo_exits (demo_grown SHORT))) ''A'' =
     Some (demo_held (sell_slices ''A'' demo_exits (demo_grown SHORT)))"
  "gross_pnl (demo_held (sell_slices ''A'' demo_exits (demo_grown SHORT))) = - 150"
  by code_simp+

theorem long_result_is_cash_witness:
  "capital (snd (close_position ''A'' 60 (sell_slices ''A'' demo_exits (demo_grown LONG)))) - 2000 = 150"
  using long_result_is_cash [OF long_life(1-3), unfolded demo_symbol, OF long_life(4) _ long_life(5-7), of 60]
    long_life(8) by (simp add: new_portfolio_def)

theorem short_result_is_reversed_cash_witness:
  "capital (snd (close_position ''A'' 60 (sell_slices ''A'' demo_exits (demo_grown SHORT)))) = 2000 + 150"
  using short_result_is_reversed_cash [OF short_life(1-3), unfolded demo_symbol, OF short_life(4) _ short_life(5-7), of 60]
    short_life(8) by (simp add: new_portfolio_def)

definition overdrawn :: "entry_result" where
  "overdrawn =
     (case fill_entry (demo_sim 10) (new_order ''o1'' (market_request ''A'' LONG 10) ''2024-01-01'' 1000 True)
             ''2024-01-02'' (plain_terms 100)
             (demo_submit LONG ''2024-01-01'' (demo_empty 1000)) of
        Inr r \<Rightarrow> r | Inl _ \<Rightarrow> (None, None, [], demo_empty 0))"

theorem entry_is_covered_before_slippage_witness:
  "\<exists>f why evs en'. overdrawn = (Some f, why, evs, en') \<and> fill_qty f * 100 \<le> 1000 \<and>
     capital (en_portfolio en') < 0"
proof -
  obtain f why evs en' where o: "overdrawn = (Some f, why, evs, en')"
    and q: "fill_qty f = 10" "capital (en_portfolio en') = -1"
  proof -
    have "map_option fill_qty (fst overdrawn) = Some 10" "capital (en_portfolio (snd (snd (snd overdrawn)))) = -1"
      by code_simp+
    then obtain z where "fst overdrawn = Some z" "fill_qty z = 10" by auto
    with \<open>capital _ = -1\<close> show thesis
      by (intro that [of z "fst (snd overdrawn)" "fst (snd (snd overdrawn))" "snd (snd (snd overdrawn))"])
        (simp_all add: prod_eq_iff)
  qed
  have r: "fill_entry (demo_sim 10) (new_order ''o1'' (market_request ''A'' LONG 10) ''2024-01-01'' 1000 True)
     ''2024-01-02'' (plain_terms 100) (demo_submit LONG ''2024-01-01'' (demo_empty 1000)) = Inr overdrawn"
    by code_simp
  have c: "capital (en_portfolio (demo_submit LONG ''2024-01-01'' (demo_empty 1000))) = 1000" by code_simp
  from entry_is_covered_before_slippage [OF r [unfolded o]] q c have "fill_qty f * 100 \<le> 1000" by (simp add: plain_terms_def)
  with o q(2) show ?thesis by fastforce
qed

end
