(* ===== verification/FillLegProps.thy ===== *)
theory FillLegProps
  imports FillProps
begin

text \<open>
  Protection of a position: when an entry is done every attached leg is resting in the book, armed and
  sized to the position; a trailing stop follows the best price and never loosens.
\<close>

section \<open>Legs in the book\<close>

definition protects :: "pending_order \<Rightarrow> string \<Rightarrow> rat \<Rightarrow> bool \<Rightarrow> exit_leg \<times> string \<times> string \<Rightarrow> pending_order \<Rightarrow> bool" where
  "protects po ts q arm leg c \<longleftrightarrow>
     (let (l, why, cid) = leg; r = request c
      in symbol r = symbol (request po) \<and> side r = opposite (side (request po)) \<and> qty r = q \<and> remaining_qty c = q \<and>
         parent_order_id r = Some (po_id po) \<and> oco_group_id r = Some (oco_name po) \<and> tif r = GTC \<and>
         unfilled_policy r = Some REQUEUE_NEXT_BAR \<and> reason r = why \<and>
         order_type r = (case l of StopLeg sl \<Rightarrow> leg_type sl | LimitLeg tp \<Rightarrow> LIMIT) \<and>
         working_against c = Some (po_id po) \<and> submitted_at c = ts \<and> armed c = arm)"

lemma dset_last: "dget d k = None \<Longrightarrow> dset (d @ [(k, v)]) k w = d @ [(k, w)]"
  by (induction d) auto

lemma leg_stored:
  assumes inv: "book_inv id b" and leg: "submit_leg r po ts b = Inr (child, bk)" and "po_id child' = po_id child"
  shows "pending (store_order child' bk) = pending b @ [(po_id child', child')]"
    "child = new_order (order_name (next_id b + 1))
      (r\<lparr>parent_order_id := Some (po_id po), oco_group_id := Some (oco_name po)\<rparr>) ts (submitted_equity po)
      (\<not> has_key (pending b) (po_id po))"
proof -
  from leg have s: "submit_attached r ts (submitted_equity po) (po_id po) (oco_name po) b = Inr (child, bk)"
    by (auto simp: submit_leg_def map_sum_eq_Inr split: if_splits)
  note c = submit_attached_Inr [OF s]
  from c(1) show "child = new_order (order_name (next_id b + 1))
      (r\<lparr>parent_order_id := Some (po_id po), oco_group_id := Some (oco_name po)\<rparr>) ts (submitted_equity po)
      (\<not> has_key (pending b) (po_id po))" .
  have "dget (pending b) (order_name (next_id b + 1)) = None"
    using fresh_name pending_id(2) [OF inv] by fastforce
  from dset_new [OF this] dset_last [OF this] show "pending (store_order child' bk) = pending b @ [(po_id child', child')]"
    using c(1,2) assms(3) by (simp add: store_order_def)
qed

lemma has_key_snoc: "k' \<noteq> k \<Longrightarrow> has_key (d @ [(k', v)]) k = has_key d k"
  by (auto simp: has_key_def map_add_def split: option.splits)

text \<open>One leg: appended to the book, covering the quantity.\<close>

lemma leg_protects:
  assumes inv: "book_inv id b" and iss: "issued b (po_id po)"
    and run: "(case l of StopLeg sl \<Rightarrow> materialize_stop_child po ts q e why cid ev sl (evs, b)
        | LimitLeg tp \<Rightarrow> materialize_limit_child po ts q why cid tp (evs, b)) = Inr (evs', b')"
  shows "\<exists>c. pending b' = pending b @ [(po_id c, c)] \<and> protects po ts q (\<not> has_key (pending b) (po_id po)) (l, why, cid) c \<and>
    has_key (pending b') (po_id po) = has_key (pending b) (po_id po)"
proof (cases l)
  case (StopLeg sl)
  with run obtain lp child bk where
    leg: "submit_leg ((leg_request (str_or (sa_client_order_id sl) cid) po q (leg_type sl)
        (Some (stop_level (request po) e sl)) lp why)
          \<lparr>trail_offset := sa_trail_offset sl, trail_offset_kind := sa_trail_offset_kind sl\<rparr>) po ts b = Inr (child, bk)"
    and b': "b' = store_order (seed_trailing (request po) e sl (child\<lparr>working_against := Some (po_id po)\<rparr>)) bk"
    by (auto simp: materialize_stop_child_def Let_def split: sum.splits prod.splits if_splits)
  note c = leg_stored(1) [OF inv leg] leg_stored(2) [OF inv leg refl]
  have new: "po_id child \<noteq> po_id po" using iss fresh_name [of b] by (auto simp: c(2))
  show ?thesis
    by (rule exI [of _ "seed_trailing (request po) e sl (child\<lparr>working_against := Some (po_id po)\<rparr>)"])
      (simp add: b' c(1) has_key_snoc new,
       simp add: StopLeg protects_def c(2) new_order_def leg_request_def market_request_def)
next
  case (LimitLeg tp)
  with run obtain child bk where
    leg: "submit_leg (leg_request (str_or (la_client_order_id tp) cid) po q LIMIT None (Some (la_limit_price tp)) why)
        po ts b = Inr (child, bk)"
    and b': "b' = store_order (child\<lparr>working_against := Some (po_id po)\<rparr>) bk"
    by (auto simp: materialize_limit_child_def Let_def split: sum.splits prod.splits)
  note c = leg_stored(1) [OF inv leg] leg_stored(2) [OF inv leg refl]
  have new: "po_id child \<noteq> po_id po" using iss fresh_name [of b] by (auto simp: c(2))
  show ?thesis
    by (rule exI [of _ "child\<lparr>working_against := Some (po_id po)\<rparr>"])
      (simp add: b' c(1) has_key_snoc new,
       simp add: LimitLeg protects_def c(2) new_order_def leg_request_def market_request_def)
qed

text \<open>All legs, in their order.\<close>

lemma legs_protect:
  "materialize_legs po ts q e ev ls s = Inr s' \<Longrightarrow> book_inv id (snd s) \<Longrightarrow> issued (snd s) (po_id po) \<Longrightarrow>
   \<exists>cs. pending (snd s') = pending (snd s) @ map (\<lambda>c. (po_id c, c)) cs \<and>
     list_all2 (protects po ts q (\<not> has_key (pending (snd s)) (po_id po))) ls cs"
proof (induction po ts q e ev ls s arbitrary: s' rule: materialize_legs.induct)
  case (2 po ts q e ev l why cid ls s)
  from "2.prems"(1) obtain s1 where one: "(case l of
        StopLeg sl \<Rightarrow> materialize_stop_child po ts q e why cid ev sl s
      | LimitLeg tp \<Rightarrow> materialize_limit_child po ts q why cid tp s) = Inr s1"
    and rest: "materialize_legs po ts q e ev ls s1 = Inr s'" by (auto split: sum.splits)
  from leg_protects [OF "2.prems"(2,3), where evs = "fst s" and evs' = "fst s1" and b' = "snd s1", unfolded prod.collapse, OF one]
  obtain c where c:
    "pending (snd s1) = pending (snd s) @ [(po_id c, c)]"
    "protects po ts q (\<not> has_key (pending (snd s)) (po_id po)) (l, why, cid) c"
    "has_key (pending (snd s1)) (po_id po) = has_key (pending (snd s)) (po_id po)" by auto
  have t: "touches (po_id po) (snd s) (snd s1)"
    using one stop_child_touches [OF "2.prems"(2)] limit_child_touches [OF "2.prems"(2)] by (cases l) auto
  from "2.IH" [OF one rest touchesD(1) [OF t] issued_mono [OF "2.prems"(3) touchesD(2) [OF t]]] obtain cs where
    "pending (snd s') = pending (snd s1) @ map (\<lambda>c. (po_id c, c)) cs"
    "list_all2 (protects po ts q (\<not> has_key (pending (snd s1)) (po_id po))) ls cs" by blast
  with c show ?case by (intro exI [of _ "c # cs"]) simp
qed simp

section \<open>A finished entry\<close>

lemma attached_legs_none: "\<not> has_attached_exits r \<Longrightarrow> attached_legs r = []"
  by (simp add: has_attached_exits_def attached_legs_def)

lemma settle_entry_protects:
  assumes inv: "book_inv id (en_book en)" and iss: "issued (en_book en) (po_id po)"
    and run: "settle_entry po ts unf cov f en = Inr (Some f', why, evs, en')" and "unf \<le> 0"
  shows "f' = f \<and> en_portfolio en' = en_portfolio en \<and>
    (\<exists>cs. list_all2 (protects po ts (cov (en_portfolio en)) True) (attached_legs (request po)) cs \<and>
       set cs \<subseteq> set (all_pending (en_book en')))"
proof -
  let ?bk = "drop_order po True (en_book en)"
  have bk: "book_inv id ?bk" "issued ?bk (po_id po)"
    using drop_touches [OF inv, where po = po and filled = True and oid = "po_id po"] issued_mono [OF iss] by (auto dest: touchesD)
  have gone: "\<not> has_key (pending ?bk) (po_id po)" using drop_gone [OF inv] by (simp add: has_key_def)
  have rem: "handle_entry_remainder po ts unf True (en_book en) = Inr (po, ?bk)"
    using assms(4) by (simp add: handle_entry_remainder_def Let_def not_less)
  show ?thesis
  proof (cases "has_attached_exits (request po)")
    case False
    with run rem show ?thesis by (auto simp: settle_entry_def attached_legs_none)
  next
    case True
    with run rem gone obtain bk where m: "materialize_legs po ts (cov (en_portfolio en))
        (map_option entry_price (dget (positions (en_portfolio en)) (symbol (request po)))) True
        (attached_legs (request po)) ([], ?bk) = Inr (evs, bk)"
      and r: "f' = f" "en' = en\<lparr>en_book := bk\<rparr>"
      by (auto simp: settle_entry_def contains_def materialize_attached_exit_children_def split: sum.splits)
    from legs_protect [OF m] bk gone obtain cs where cs: "pending bk = pending ?bk @ map (\<lambda>c. (po_id c, c)) cs"
      "list_all2 (protects po ts (cov (en_portfolio en)) True) (attached_legs (request po)) cs" by auto
    have "set cs \<subseteq> set (all_pending bk)" by (auto simp: all_pending_def cs(1))
    with cs(2) r show ?thesis by auto
  qed
qed

lemma protects_bound: "protects (po\<lparr>working_against := w\<rparr>) = protects po"
  by (simp add: protects_def oco_name_def fun_eq_iff)

lemma real_fill_full: "kind_of_fill (real_fill po sy sd q price ts why unf cum) = FULL \<longleftrightarrow> unf \<le> 0"
  by (simp add: real_fill_def not_less)

lemma no_liquidity_rejects:
  "no_liquidity po ts ref was_filled en = Inr (Some f, r) \<Longrightarrow> kind_of_fill f = REJECTED"
  by (auto simp: no_liquidity_def rejected_fill_def split: sum.splits)

text \<open>C5. A finished entry is protected: when the last slice of an entry fills, first slice or later one, every
  stop, target and further leg attached to it is resting in the book, in that order: armed, on the opposite
  side of the same symbol, good till cancelled, bound to the entry and grouped with its siblings, and for
  the quantity the entry bought in all its slices.\<close>

theorem finished_entry_is_protected:
  assumes "book_inv id (en_book en)" and "dget (pending (en_book en)) (po_id po) = Some po"
    and "(if continuing then continue_entry sim po ts tm en else fill_entry sim po ts tm en) = Inr (Some f, why, evs, en')"
    and "kind_of_fill f = FULL"
  shows "\<exists>p cs. dget (positions (en_portfolio en')) (symbol (request po)) = Some p \<and>
    list_all2 (protects po ts (pos_original_qty p) True) (attached_legs (request po)) cs \<and>
    set cs \<subseteq> set (all_pending (en_book en'))"
proof (cases continuing)
  case False
  let ?po = "po\<lparr>working_against := Some (po_id po)\<rparr>" and ?q = "twap_slice_target po * clamped_fraction tm"
  let ?price = "slipped_price sim tm (side (request po) = LONG)"
  from assms(3,4) False obtain pf where q: "0 < ?q"
    and op: "open_position (new_position po ts tm ?q ?price (twap_slice_target po - ?q))
        (snd (mark_to_market (en_portfolio en))) = Inr pf"
    and st: "settle_entry ?po ts (remaining_qty po - ?q) (\<lambda>_. ?q)
       (real_fill ?po (symbol (request po)) (side (request po)) ?q ?price ts ''entry'' (remaining_qty po - ?q) ?q)
       (en\<lparr>en_portfolio := pf, en_book := store_order ?po (en_book en)\<rparr>) = Inr (Some f, why, evs, en')"
    by (auto simp: fill_entry_def Let_def case_prod_unfold not_le split: if_splits sum.splits dest: no_liquidity_rejects)
  note p = pending_id [OF assms(1,2)]
  have t: "touches (po_id po) (en_book en) (store_order ?po (en_book en))"
    using store_touches [OF assms(1), of ?po po] assms(2) p(3) by (simp add: qty_ok_def)
  have un: "remaining_qty po - ?q \<le> 0"
    using st assms(4) by (auto simp: settle_entry_def real_fill_full split: sum.splits if_splits)
  from op q have "\<exists>p. dget (positions pf) (symbol (request po)) = Some p \<and> pos_original_qty p = ?q"
    by (auto simp: open_position_def new_position_def Let_def split: if_splits)
  moreover have "book_inv id (store_order ?po (en_book en))" "issued (store_order ?po (en_book en)) (po_id po)"
    using touchesD(1,2) [OF t] issued_mono p(2) by blast+
  ultimately show ?thesis
    using settle_entry_protects [OF _ _ st un] by (auto simp: protects_bound)
next
  case True
  let ?q = "twap_slice_target po * clamped_fraction tm" and ?price = "slipped_price sim tm (side (request po) = LONG)"
  let ?p0 = "the (dget (positions (en_portfolio en)) (symbol (request po)))"
  from assms(3,4) True obtain pf where
    gr: "grow_position (symbol (request po)) ?q ?price (reference_price tm) (twap_slice_target po - ?q)
        (snd (mark_to_market (en_portfolio en))) = Inr pf"
    and st: "settle_entry po ts (remaining_qty po - ?q) (held_original (symbol (request po)))
       (real_fill po (pos_symbol ?p0) (pos_side ?p0) ?q ?price ts ''entry'' (remaining_qty po - ?q)
         (cumulative_filled_qty po + ?q)) (en\<lparr>en_portfolio := pf\<rparr>) = Inr (Some f, why, evs, en')"
    by (auto simp: continue_entry_def abandon_entry_def map_sum_eq_Inr Let_def case_prod_unfold not_le
        split: if_splits sum.splits option.splits dest: no_liquidity_rejects)
  have un: "remaining_qty po - ?q \<le> 0"
    using st assms(4) by (auto simp: settle_entry_def real_fill_full split: sum.splits if_splits)
  from gr obtain p where "dget (positions pf) (symbol (request po)) = Some p"
    by (auto simp: grow_position_def put_position_def split: sum.splits)
  then have "\<exists>p. dget (positions pf) (symbol (request po)) = Some p \<and>
      held_original (symbol (request po)) pf = pos_original_qty p" by (simp add: held_original_def)
  with settle_entry_protects [OF _ _ st un] pending_id(2) [OF assms(1,2)] assms(1) show ?thesis by auto
qed

section \<open>Trailing stops\<close>

text \<open>The extreme the stop trails: the highest price for a sell stop, the lowest for a buy stop.\<close>

definition best_price :: "order_side \<Rightarrow> rat \<Rightarrow> bar list \<Rightarrow> rat" where
  "best_price sd seed bs =
     (if sd = SHORT then foldl max seed (map bar_high bs) else foldl min seed (map bar_low bs))"

definition stop_from :: "order_request \<Rightarrow> rat \<Rightarrow> rat \<Rightarrow> rat" where
  "stop_from r off best =
     (if side r = SHORT then best - offset_from (trail_offset_kind r) best off
      else best + offset_from (trail_offset_kind r) best off)"

definition trails :: "pending_order \<Rightarrow> rat \<Rightarrow> bool" where
  "trails po off \<longleftrightarrow> order_type (request po) = TRAILING_STOP \<and> trail_offset (request po) = Some off"

definition tick_extreme :: "order_side \<Rightarrow> bar \<Rightarrow> rat" where
  "tick_extreme sd b = (if sd = SHORT then bar_high b else bar_low b)"

lemma update_trailing_request [simp]: "request (update_trailing b po) = request po"
  by (simp add: update_trailing_def Let_def split: option.split)

lemma best_price_simps:
  "best_price sd seed [] = seed"
  "best_price sd seed (bs @ [b]) =
     (if sd = SHORT then max (best_price sd seed bs) (bar_high b) else min (best_price sd seed bs) (bar_low b))"
  by (simp_all add: best_price_def)

lemma update_trailing_trails:
  assumes "trails po off"
  shows "trails (update_trailing b po) off"
    "trailing_water (update_trailing b po) =
       Some (best_price (side (request po)) (trailing_seed po (tick_extreme (side (request po)) b)) [b])"
    "effective_stop_price (update_trailing b po) =
       Some (stop_from (request po) off
         (best_price (side (request po)) (trailing_seed po (tick_extreme (side (request po)) b)) [b]))"
  using assms by (simp_all add: trails_def update_trailing_def best_price_def stop_from_def tick_extreme_def Let_def)

lemma fold_trailing:
  assumes "trails po off"
  shows "trails (fold update_trailing (b # bs) po) off \<and> request (fold update_trailing (b # bs) po) = request po \<and>
    trailing_water (fold update_trailing (b # bs) po) =
      Some (best_price (side (request po)) (trailing_seed po (tick_extreme (side (request po)) b)) (b # bs)) \<and>
    effective_stop_price (fold update_trailing (b # bs) po) =
      Some (stop_from (request po) off
        (best_price (side (request po)) (trailing_seed po (tick_extreme (side (request po)) b)) (b # bs)))"
proof (induction bs rule: rev_induct)
  case Nil
  then show ?case using update_trailing_trails [OF assms] by simp
next
  case (snoc c bs)
  let ?po = "fold update_trailing (b # bs) po" and ?sd = "side (request po)"
  let ?w = "best_price ?sd (trailing_seed po (tick_extreme ?sd b)) (b # bs)"
  from snoc have po: "trails ?po off" "request ?po = request po" "trailing_water ?po = Some ?w" by auto
  have "best_price ?sd (trailing_seed ?po (tick_extreme ?sd c)) [c] = best_price ?sd ?w [c]"
    using po(3) by (simp add: trailing_seed_def)
  also have "\<dots> = best_price ?sd (trailing_seed po (tick_extreme ?sd b)) (b # bs @ [c])"
    using best_price_simps(2) [of ?sd "trailing_seed po (tick_extreme ?sd b)" "b # bs" c] by (simp add: best_price_def)
  finally show ?case using update_trailing_trails [OF po(1), of c] po(2) by simp
qed

lemma stop_from_mono:
  assumes "trail_offset_kind r = BPS \<Longrightarrow> 0 \<le> off \<and> off \<le> 10000"
    and "if side r = SHORT then w \<le> w' else w' \<le> w"
  shows "if side r = SHORT then stop_from r off w \<le> stop_from r off w' else stop_from r off w' \<le> stop_from r off w"
proof (cases "trail_offset_kind r")
  case BPS
  with assms(1) have "0 \<le> 1 - off / 10000" "0 \<le> 1 + off / 10000" by simp_all
  from mult_right_mono [OF _ this(1), of w w'] mult_right_mono [OF _ this(2), of w' w] assms(2) BPS show ?thesis
    by (simp add: stop_from_def offset_from_def apply_bps_offset_def algebra_simps split: if_splits)
qed (use assms(2) in \<open>simp add: stop_from_def offset_from_def split: if_splits\<close>)

text \<open>C17. A trailing stop follows the best price and only tightens: after any bars the stop stands at its offset
  from the best price since the order was seeded (the highest high under a sell, the lowest low over a
  buy), and while the offset is an amount, or at most all of the price, no further bar lowers the stop of a
  sell or raises the stop of a buy.\<close>

theorem trailing_stop_only_tightens:
  assumes "trails po off" and "trail_offset_kind (request po) = BPS \<Longrightarrow> 0 \<le> off \<and> off \<le> 10000"
  shows "\<exists>s s'. effective_stop_price (fold update_trailing (b # bs) po) = Some s \<and>
    s = stop_from (request po) off
          (best_price (side (request po)) (trailing_seed po (tick_extreme (side (request po)) b)) (b # bs)) \<and>
    effective_stop_price (fold update_trailing (b # bs @ [c]) po) = Some s' \<and>
    (if side (request po) = SHORT then s \<le> s' else s' \<le> s)"
proof -
  let ?r = "request po" and ?sd = "side (request po)"
  let ?w = "best_price ?sd (trailing_seed po (tick_extreme ?sd b)) (b # bs)"
  let ?w' = "best_price ?sd (trailing_seed po (tick_extreme ?sd b)) (b # bs @ [c])"
  have w: "if ?sd = SHORT then ?w \<le> ?w' else ?w' \<le> ?w"
    unfolding best_price_simps(2) [of _ _ "b # bs" c, simplified append_Cons] by simp
  have "effective_stop_price (fold update_trailing (b # bs) po) = Some (stop_from ?r off ?w)"
    "effective_stop_price (fold update_trailing (b # bs @ [c]) po) = Some (stop_from ?r off ?w')"
    using fold_trailing [OF assms(1), of b bs] fold_trailing [OF assms(1), of b "bs @ [c]"] by blast+
  with stop_from_mono [OF assms(2) w] show ?thesis by blast
qed

section \<open>Witnesses\<close>

definition bracket_request :: order_request where
  "bracket_request =
     (market_request ''A'' LONG 10)
       \<lparr>attached_stop_loss := Some \<lparr>sa_stop_price = 90, sa_trail_offset = Some 5, sa_trail_offset_kind = ABS,
          sa_limit_offset = None, sa_limit_offset_kind = ABS, sa_client_order_id = None, sa_entry_price_pct = None,
          sa_reason = None\<rparr>,
        attached_take_profit := Some \<lparr>la_limit_price = 120, la_client_order_id = None\<rparr>\<rparr>"

definition bracket_book :: engine where
  "bracket_book =
     (demo_empty 2000)\<lparr>en_book := book_run id (BSubmit bracket_request ''2024-01-01'' 2000 True) empty_book\<rparr>"

definition bracket_order :: pending_order where
  "bracket_order = new_order ''o1'' bracket_request ''2024-01-01'' 2000 True"

definition bracket_fill :: entry_result where
  "bracket_fill =
     (case fill_entry (demo_sim 0) bracket_order ''2024-01-02'' (plain_terms 100) bracket_book of
        Inr r \<Rightarrow> r | Inl _ \<Rightarrow> (None, None, [], bracket_book))"

lemma bracket_book_reachable: "engine_reachable sim bracket_book"
proof -
  have "engine_reachable sim (demo_empty 2000)"
    by (rule reach_init) (auto simp: engine_start_def demo_empty_def)
  moreover have "engine_step sim (demo_empty 2000)
      ((demo_empty 2000)\<lparr>en_book := book_run id (BSubmit bracket_request ''2024-01-01'' 2000 True) (en_book (demo_empty 2000))\<rparr>)"
    by (rule step_book) (simp add: bracket_request_def market_request_def)
  ultimately show ?thesis by (simp add: bracket_book_def demo_empty_def reach_step)
qed

theorem finished_entry_is_protected_witness:
  "\<exists>stop target. {stop, target} \<subseteq> set (all_pending (en_book (snd (snd (snd bracket_fill))))) \<and> remaining_qty stop = 10 \<and> side (request stop) = SHORT \<and>
     order_type (request stop) = TRAILING_STOP \<and> order_type (request target) = LIMIT"
proof -
  have "map_option kind_of_fill (fst bracket_fill) = Some FULL" "fst (snd bracket_fill) = None"
    "fst (snd (snd bracket_fill)) = []" by code_simp+
  then obtain f where "kind_of_fill f = FULL" "fst bracket_fill = Some f" by auto
  with \<open>fst (snd bracket_fill) = None\<close> \<open>fst (snd (snd bracket_fill)) = []\<close> obtain en' where
    b: "bracket_fill = (Some f, None, [], en')" "kind_of_fill f = FULL" by (metis prod.collapse)
  have r: "fill_entry (demo_sim 0) bracket_order ''2024-01-02'' (plain_terms 100) bracket_book = Inr bracket_fill"
    by code_simp
  have inv: "book_inv id (en_book bracket_book)"
    using trading_engine.reachable_inv [OF bracket_book_reachable [of "demo_sim 0"]] by (simp add: engine_inv_def)
  have p: "dget (pending (en_book bracket_book)) (po_id bracket_order) = Some bracket_order" by code_simp
  have legs: "map (\<lambda>(l, why, cid). case l of StopLeg sl \<Rightarrow> leg_type sl | LimitLeg _ \<Rightarrow> LIMIT)
      (attached_legs (request bracket_order)) = [TRAILING_STOP, LIMIT]" by code_simp
  have q: "map_option pos_original_qty (dget (positions (en_portfolio (snd (snd (snd bracket_fill))))) ''A'') = Some 10"
    by code_simp
  have s: "symbol (request bracket_order) = ''A''" "side (request bracket_order) = LONG" by code_simp+
  from finished_entry_is_protected [OF inv p, of False "demo_sim 0" "''2024-01-02''" "plain_terms 100" f None "[]" en']
    r b obtain p cs where "dget (positions (en_portfolio en')) ''A'' = Some p"
      "list_all2 (protects bracket_order ''2024-01-02'' (pos_original_qty p) True) (attached_legs (request bracket_order)) cs"
      "set cs \<subseteq> set (all_pending (en_book en'))" by (auto simp: s)
  moreover from this(1) q [unfolded b(1)] have "pos_original_qty p = 10" by simp
  ultimately obtain stop target where "{stop, target} \<subseteq> set (all_pending (en_book en'))" "remaining_qty stop = 10"
    "side (request stop) = SHORT" "order_type (request stop) = TRAILING_STOP" "order_type (request target) = LIMIT"
    using legs s by (auto simp: map_eq_Cons_conv list_all2_Cons1 protects_def opposite_def Let_def)
  moreover have "snd (snd (snd bracket_fill)) = en'" by (simp add: b(1))
  ultimately show ?thesis by metis
qed

theorem trailing_stop_only_tightens_witness:
  "\<exists>s s'. effective_stop_price (fold update_trailing [demo_bar ''t'' 100, demo_bar ''t'' 120]
       (new_order ''o2'' ((market_request ''A'' SHORT 10)\<lparr>order_type := TRAILING_STOP, trail_offset := Some 500,
          trail_offset_kind := BPS\<rparr>) ''2024-01-01'' 2000 True)) = Some s' \<and> s \<le> s' \<and> s = 101 - 101 * 5 / 100"
proof -
  let ?po = "new_order ''o2'' ((market_request ''A'' SHORT 10)\<lparr>order_type := TRAILING_STOP, trail_offset := Some 500,
          trail_offset_kind := BPS\<rparr>) ''2024-01-01'' 2000 True"
  have t: "trails ?po 500" by (simp add: trails_def new_order_def)
  show ?thesis
    using trailing_stop_only_tightens [OF t, of "demo_bar ''t'' 100" "[]" "demo_bar ''t'' 120"]
    by (auto simp: new_order_def market_request_def best_price_def tick_extreme_def trailing_seed_def demo_bar_def
        stop_from_def offset_from_def apply_bps_offset_def)
qed

end
