(* ===== verification/ExecutionProps.thy ===== *)
theory ExecutionProps
  imports FillSim
begin

text \<open>
  What the fill simulator relies on of an execution model, as a contract (\<open>execution_contract\<close>): the
  fraction is positive and at most one, the extra slippage is not negative, limit and stop prices are
  respected. Every model the factory builds meets it. The realistic model is compared with the optimistic
  one, and the risk gate with the limits it enforces.
\<close>

section \<open>The contract\<close>

locale execution_contract =
  fixes valid :: "'m \<Rightarrow> bool"
    and terms :: "'m \<Rightarrow> order_request \<Rightarrow> bar \<Rightarrow> bar option \<Rightarrow> fill_terms option outcome"
  assumes fraction_pos: "valid m \<Longrightarrow> terms m r b nb = Inr (Some tm) \<Longrightarrow> 0 < qty_fraction tm"
    and fraction_le: "valid m \<Longrightarrow> terms m r b nb = Inr (Some tm) \<Longrightarrow> qty_fraction tm \<le> 1"
    and slip_nonneg: "valid m \<Longrightarrow> terms m r b nb = Inr (Some tm) \<Longrightarrow> 0 \<le> extra_slip_bps tm"
    and limit_kept: "valid m \<Longrightarrow> terms m r b nb = Inr (Some tm) \<Longrightarrow> order_type r \<in> {LIMIT, STOP_LIMIT} \<Longrightarrow>
      \<exists>l. limit_price r = Some l \<and> (if side r = LONG then reference_price tm \<le> l else l \<le> reference_price tm)"
    and stop_kept: "valid m \<Longrightarrow> terms m r b nb = Inr (Some tm) \<Longrightarrow> order_type r = STOP \<Longrightarrow>
      \<exists>s. stop_price r = Some s \<and> (if side r = LONG then s \<le> reference_price tm else reference_price tm \<le> s)"
begin

text \<open>The simulator's clamp of the fraction changes nothing.\<close>

lemma clamp_idle: "valid m \<Longrightarrow> terms m r b nb = Inr (Some tm) \<Longrightarrow> clamped_fraction tm = qty_fraction tm"
  using fraction_pos [of m r b nb tm] fraction_le [of m r b nb tm] by (simp add: clamped_fraction_def)

text \<open>So a triggered slice always fills something, and never more than its target.\<close>

lemma slice_fills:
  "valid m \<Longrightarrow> terms m r b nb = Inr (Some tm) \<Longrightarrow> 0 < target \<Longrightarrow>
   0 < target * clamped_fraction tm \<and> target * clamped_fraction tm \<le> target"
  using fraction_pos [of m r b nb tm] fraction_le [of m r b nb tm] by (simp add: clamp_idle)

text \<open>And slippage is never in the trader's favour.\<close>

lemma slip_at_least: "valid m \<Longrightarrow> terms m r b nb = Inr (Some tm) \<Longrightarrow>
    slippage_bps sim / 10000 \<le> slip sim (extra_slip_bps tm)"
  using slip_nonneg [of m r b nb tm] by (simp add: slip_def add_divide_distrib)

end

section \<open>The models of the factory\<close>

definition built :: "exec_model \<Rightarrow> bool" where
  "built m \<longleftrightarrow> (case m of Optimistic \<Rightarrow> True | Realistic cap mx \<Rightarrow> 0 < cap \<and> cap \<le> 1 \<and> 0 \<le> mx)"

lemma build_built: "build_execution_model name cap = Inr m \<Longrightarrow> built m"
  by (auto simp: build_execution_model_def realistic_model_def built_def Let_def split: if_splits)

lemma reference_Some:
  "optimistic_reference r b = Inr (Some p) \<Longrightarrow> order_type r \<in> {LIMIT, STOP_LIMIT} \<Longrightarrow>
     \<exists>l. limit_price r = Some l \<and> (if side r = LONG then p \<le> l else l \<le> p)"
  "realistic_reference r b = Inr (Some p) \<Longrightarrow> order_type r \<in> {LIMIT, STOP_LIMIT} \<Longrightarrow> limit_price r = Some p"
  "optimistic_reference r b = Inr (Some p) \<Longrightarrow> order_type r = STOP \<Longrightarrow>
     \<exists>s. stop_price r = Some s \<and> (if side r = LONG then s \<le> p else p \<le> s)"
  "realistic_reference r b = Inr (Some p) \<Longrightarrow> order_type r = STOP \<Longrightarrow>
     \<exists>s. stop_price r = Some s \<and> (if side r = LONG then s \<le> p else p \<le> s)"
  by (auto simp: optimistic_reference_def realistic_reference_def optimistic_limit_price_def
      limit_reference_price_def stop_limit_reference_price_def stop_reference_price_def with_price_def
      split: option.splits if_splits)

lemma fraction_bounds:
  assumes "0 < cap"
  shows "0 < qty_fraction_from_participation cap raw" "qty_fraction_from_participation cap raw \<le> 1"
    "0 < raw \<Longrightarrow> qty_fraction_from_participation cap raw * raw \<le> cap"
  using assms by (auto simp: qty_fraction_from_participation_def)

lemma raw_nonneg: "0 \<le> raw_participation r b ref"
  by (simp add: raw_participation_def)

lemma haircut_bounds:
  assumes "0 \<le> mx" and "0 \<le> rate"
  shows "0 \<le> adverse_selection_bps mx r b nb rate" "adverse_selection_bps mx r b nb rate \<le> mx"
  using assms by (auto simp: adverse_selection_bps_def Let_def)

lemma realistic_Some:
  assumes "realistic_terms cap mx r b nb = Inr (Some tm)" and "0 < cap" and "0 \<le> mx"
  shows "realistic_reference r b = Inr (Some (reference_price tm))"
    "qty_fraction tm = qty_fraction_from_participation cap (raw_participation r b (reference_price tm))"
    "0 \<le> extra_slip_bps tm" "extra_slip_bps tm \<le> mx"
proof -
  have eff: "0 \<le> min (raw_participation r b p) cap" for p using raw_nonneg assms(2) by simp
  show "realistic_reference r b = Inr (Some (reference_price tm))"
    "qty_fraction tm = qty_fraction_from_participation cap (raw_participation r b (reference_price tm))"
    using assms(1) by (auto simp: realistic_terms_def Let_def split: sum.splits option.splits if_splits)
  show "0 \<le> extra_slip_bps tm" "extra_slip_bps tm \<le> mx"
    using assms(1,3) haircut_bounds [OF assms(3) eff]
    by (auto simp: realistic_terms_def Let_def split: sum.splits option.splits if_splits)
qed

lemma optimistic_Some:
  "optimistic_terms r b nb = Inr (Some tm) \<longleftrightarrow> (\<exists>p. optimistic_reference r b = Inr (Some p) \<and> tm = plain_terms p)"
  by (cases "optimistic_reference r b") (auto simp: optimistic_terms_def)

interpretation factory: execution_contract built compute_fill_terms
proof unfold_locales
  fix m r b nb tm
  assume m: "built m" and run: "compute_fill_terms m r b nb = Inr (Some tm)"
  show "0 < qty_fraction tm" "qty_fraction tm \<le> 1" "0 \<le> extra_slip_bps tm"
    using m run realistic_Some [of _ _ r b nb tm] fraction_bounds
    by (cases m; auto simp: built_def compute_fill_terms_def optimistic_Some plain_terms_def)+
  show "\<exists>l. limit_price r = Some l \<and> (if side r = LONG then reference_price tm \<le> l else l \<le> reference_price tm)"
    if "order_type r \<in> {LIMIT, STOP_LIMIT}"
  proof (cases m)
    case Optimistic
    with run that reference_Some(1) [of r b] show ?thesis
      by (auto simp: compute_fill_terms_def optimistic_Some plain_terms_def split: if_splits)
  next
    case (Realistic cap mx)
    with m run that realistic_Some(1) [of cap mx r b nb tm] reference_Some(2) [of r b] show ?thesis
      by (auto simp: compute_fill_terms_def built_def)
  qed
  show "\<exists>s. stop_price r = Some s \<and> (if side r = LONG then s \<le> reference_price tm else reference_price tm \<le> s)"
    if "order_type r = STOP"
  proof (cases m)
    case Optimistic
    with run that reference_Some(3) [of r b] show ?thesis
      by (auto simp: compute_fill_terms_def optimistic_Some plain_terms_def split: if_splits)
  next
    case (Realistic cap mx)
    with m run that realistic_Some(1) [of cap mx r b nb tm] reference_Some(4) [of r b] show ?thesis
      by (auto simp: compute_fill_terms_def built_def)
  qed
qed

section \<open>Properties\<close>

text \<open>Whatever model the factory builds, its terms can be filled as they are: the fraction is in \<open>(0, 1]\<close>,
  so a slice of a positive target always fills something and never more than the target; the extra slippage
  is not negative; a limit or stop-limit order is never priced worse than its limit, nor a stop better than
  its stop.\<close>

theorem built_models_keep_the_contract:
  assumes "build_execution_model name cap = Inr m" and "compute_fill_terms m r b nb = Inr (Some tm)"
  shows "0 < qty_fraction tm \<and> qty_fraction tm \<le> 1 \<and> 0 \<le> extra_slip_bps tm \<and>
    (0 < target \<longrightarrow> 0 < target * clamped_fraction tm \<and> target * clamped_fraction tm \<le> target) \<and>
    (order_type r \<in> {LIMIT, STOP_LIMIT} \<longrightarrow>
       (\<exists>l. limit_price r = Some l \<and> (if side r = LONG then reference_price tm \<le> l else l \<le> reference_price tm))) \<and>
    (order_type r = STOP \<longrightarrow>
       (\<exists>s. stop_price r = Some s \<and> (if side r = LONG then s \<le> reference_price tm else reference_price tm \<le> s)))"
proof -
  note b = build_built [OF assms(1)]
  show ?thesis
    using factory.fraction_pos [OF b assms(2)] factory.fraction_le [OF b assms(2)] factory.slip_nonneg [OF b assms(2)]
      factory.limit_kept [OF b assms(2)] factory.stop_kept [OF b assms(2)] factory.slice_fills [OF b assms(2), of target]
    by blast
qed

text \<open>C19. The realistic model bounds what a fill takes from the market where it knows the market: when bar and
  order have a dollar value, the order fills at most the participation cap of the bar's dollar volume, and in
  full exactly when it is within the cap. A bar without volume bounds nothing: there every order that
  triggers fills in full. The haircut never exceeds its ceiling.\<close>

theorem fill_stays_within_participation:
  assumes "realistic_model cap mx = Inr m" and "compute_fill_terms m r b nb = Inr (Some tm)"
  shows "(if 0 < bar_dollar_volume b \<and> 0 < qty r * reference_price tm
      then qty_fraction tm * (qty r * reference_price tm) \<le> cap * bar_dollar_volume b \<and>
        (qty_fraction tm = 1 \<longleftrightarrow> qty r * reference_price tm \<le> cap * bar_dollar_volume b)
      else qty_fraction tm = 1) \<and> extra_slip_bps tm \<le> mx"
proof -
  from assms(1) have m: "m = Realistic cap mx" "0 < cap" "0 \<le> mx"
    by (auto simp: realistic_model_def split: if_splits)
  note f = realistic_Some [OF assms(2) [unfolded m(1) compute_fill_terms_def exec_model.case] m(2,3)]
  let ?raw = "raw_participation r b (reference_price tm)"
  show ?thesis
  proof (cases "0 < bar_dollar_volume b \<and> 0 < qty r * reference_price tm")
    case True
    then have raw: "?raw = qty r * reference_price tm / bar_dollar_volume b" "0 < ?raw"
      by (simp_all add: raw_participation_def)
    have le: "?raw \<le> cap \<longleftrightarrow> qty r * reference_price tm \<le> cap * bar_dollar_volume b"
      unfolding raw(1) using True by (simp add: pos_divide_le_eq)
    have "qty_fraction tm * ?raw \<le> cap" unfolding f(2) by (rule fraction_bounds(3) [OF m(2) raw(2)])
    then have "qty_fraction tm * (qty r * reference_price tm) \<le> cap * bar_dollar_volume b"
      unfolding raw(1) using True by (simp add: pos_divide_le_eq)
    moreover have "qty_fraction tm = 1 \<longleftrightarrow> ?raw \<le> cap"
      using raw(2) unfolding f(2) by (auto simp: qty_fraction_from_participation_def)
    ultimately show ?thesis using le f(4) True by simp
  next
    case False
    then have "?raw = 0" by (auto simp: raw_participation_def)
    then have "qty_fraction tm = 1" unfolding f(2) by (simp add: qty_fraction_from_participation_def)
    with f(4) show ?thesis unfolding if_not_P [OF False] by simp
  qed
qed

text \<open>Terms against the optimistic ones: both raise alike, both do not trigger, or both trigger and the first
  are no better in price, size and slippage.\<close>

definition no_better :: "order_side \<Rightarrow> fill_terms option outcome \<Rightarrow> fill_terms option outcome \<Rightarrow> bool" where
  "no_better sd x y \<longleftrightarrow>
     (case (x, y) of
        (Inl e, Inl e') \<Rightarrow> e = e'
      | (Inr None, Inr None) \<Rightarrow> True
      | (Inr (Some a), Inr (Some c)) \<Rightarrow>
          (if sd = LONG then reference_price c \<le> reference_price a else reference_price a \<le> reference_price c) \<and>
          qty_fraction a \<le> qty_fraction c \<and> extra_slip_bps c \<le> extra_slip_bps a
      | _ \<Rightarrow> False)"

lemma references_agree:
  "(\<exists>e. realistic_reference r b = Inl e \<and> optimistic_reference r b = Inl e) \<or>
   (realistic_reference r b = Inr None \<and> optimistic_reference r b = Inr None) \<or>
   (\<exists>p q. realistic_reference r b = Inr (Some p) \<and> optimistic_reference r b = Inr (Some q) \<and>
      (if side r = LONG then q \<le> p else p \<le> q))"
  by (cases "order_type r")
    (auto simp: realistic_reference_def optimistic_reference_def stop_reference_price_def stop_limit_reference_price_def
      optimistic_limit_price_def limit_reference_price_def with_price_def split: option.splits)

lemma realistic_triggers:
  assumes "realistic_reference r b = Inr (Some p)" and "0 < cap" and "0 \<le> mx"
  shows "\<exists>tm. realistic_terms cap mx r b nb = Inr (Some tm) \<and> reference_price tm = p"
  using assms fraction_bounds(1) [OF assms(2)] by (auto simp: realistic_terms_def Let_def not_le)

text \<open>C20. The realistic model is never better than the optimistic one: it triggers an order on exactly the same
  bars, and where it does, a buy pays at least the optimistic price, a sell gets at most it, no larger a
  share is filled and no less slippage is charged.\<close>

theorem realistic_is_no_better:
  assumes "realistic_model cap mx = Inr m"
  shows "no_better (side r) (compute_fill_terms m r b nb) (compute_fill_terms Optimistic r b nb)"
proof -
  from assms have m: "m = Realistic cap mx" "0 < cap" "0 \<le> mx"
    by (auto simp: realistic_model_def split: if_splits)
  from references_agree [of r b] consider
    (error) e where "realistic_reference r b = Inl e" "optimistic_reference r b = Inl e"
    | (none) "realistic_reference r b = Inr None" "optimistic_reference r b = Inr None"
    | (both) p q where "realistic_reference r b = Inr (Some p)" "optimistic_reference r b = Inr (Some q)"
        "if side r = LONG then q \<le> p else p \<le> q" by blast
  then show ?thesis
  proof cases
    case both
    from realistic_triggers [OF both(1) m(2,3)] obtain tm where
      tm: "realistic_terms cap mx r b nb = Inr (Some tm)" "reference_price tm = p" by blast
    from realistic_Some [OF tm(1) m(2,3)] fraction_bounds(2) [OF m(2)] have
      "qty_fraction tm \<le> 1" "0 \<le> extra_slip_bps tm" by simp_all
    with tm both(2,3) show ?thesis
      by (simp add: no_better_def m(1) compute_fill_terms_def optimistic_terms_def plain_terms_def)
  qed (simp_all add: no_better_def m(1) compute_fill_terms_def optimistic_terms_def realistic_terms_def)
qed

text \<open>The gate admits exactly what the limits allow: room for one more position, a positive equity, gross
  exposure within the leverage limit, and the new notional within the concentration limit and, when it is
  enforced, within the position cap and its rounding tolerance; and \<open>WithinLimits\<close> is its answer to
  nothing else.\<close>

theorem gate_admits_exactly:
  "(fst (can_enter l notional equity ps enforce) = admits l notional equity ps enforce) \<and>
   (snd (can_enter l notional equity ps enforce) = WithinLimits) = admits l notional equity ps enforce"
proof -
  have "fst (can_enter l notional equity ps enforce) = (snd (can_enter l notional equity ps enforce) = WithinLimits)"
    by (simp add: can_enter_def Let_def)
  with can_enter_iff show ?thesis by simp
qed

section \<open>Witnesses\<close>

definition thin_bar :: bar where
  "thin_bar = \<lparr>bar_symbol = ''A'', bar_timestamp = ''2024-01-02'', bar_timeframe = ''1d'', bar_open = 10, bar_high = 11,
     bar_low = 9, bar_close = 10, bar_volume = 100\<rparr>"

definition thin_order :: order_request where
  "thin_order = (market_request ''A'' LONG 20)\<lparr>order_type := LIMIT, limit_price := Some 12\<rparr>"

definition thin_terms :: fill_terms where
  "thin_terms = \<lparr>reference_price = 12, qty_fraction = 100 / 240, extra_slip_bps = 0\<rparr>"

lemma thin_run:
  "build_execution_model (Some ''Realistic '') (1 / 10) = Inr (Realistic (1 / 10) 50)"
  "realistic_model (1 / 10) 50 = Inr (Realistic (1 / 10) 50)"
  "compute_fill_terms (Realistic (1 / 10) 50) thin_order thin_bar None = Inr (Some thin_terms)"
  "compute_fill_terms Optimistic thin_order thin_bar None = Inr (Some (plain_terms 10))"
  by code_simp+

theorem built_models_keep_the_contract_witness:
  "0 < qty_fraction thin_terms \<and> 20 * clamped_fraction thin_terms \<le> 20 \<and>
   (\<exists>l. limit_price thin_order = Some l \<and> reference_price thin_terms \<le> l)"
  using built_models_keep_the_contract [OF thin_run(1,3), of 20]
  by (simp add: thin_order_def market_request_def)

theorem fill_stays_within_participation_witness:
  "qty_fraction thin_terms * (20 * 12) \<le> 1 / 10 * 1000 \<and> qty_fraction thin_terms \<noteq> 1"
proof -
  have "bar_dollar_volume thin_bar = 1000" "qty thin_order = 20" "reference_price thin_terms = 12" by code_simp+
  with fill_stays_within_participation [OF thin_run(2,3)] show ?thesis by simp
qed

theorem realistic_is_no_better_witness: "reference_price (plain_terms 10) \<le> reference_price thin_terms"
proof -
  have "side thin_order = LONG" by (simp add: thin_order_def market_request_def)
  with realistic_is_no_better [OF thin_run(2), of thin_order thin_bar None] show ?thesis
    by (simp add: thin_run no_better_def)
qed

end
