(* ===== verification/Resampler.thy ===== *)
theory Resampler
  imports OrderContract
begin

text \<open>
  The candle resampler
  (\<^verbatim>\<open>backend/agents/investment_team/trading_service/data_stream/resampler.py\<close>): provider-native ticks and
  bars in, finished bars of the strategy's timeframe out. Prices are exact rationals and instants are
  seconds since the epoch; an emitted bar carries the instant its timestamp is formatted from. A call of
  \<open>feed_native\<close> is the complete iteration of its generator.
\<close>

section \<open>Timeframes and instants\<close>

definition timeframe_table :: "(string \<times> int) list" where
  "timeframe_table =
     [(''1s'', 1), (''5s'', 5), (''15s'', 15), (''30s'', 30), (''1m'', 60), (''5m'', 300), (''15m'', 900),
      (''30m'', 1800), (''1h'', 3600), (''4h'', 14400), (''1d'', 86400)]"

definition timeframe_to_seconds :: "string \<Rightarrow> order_error + int" where
  "timeframe_to_seconds tf =
     (case dget timeframe_table tf of None \<Rightarrow> Inl (ValueErr ''unknown timeframe'') | Some n \<Rightarrow> Inr n)"

definition unix_epoch_day :: int where
  "unix_epoch_day = day_number 1970 1 1"

text \<open>A naive timestamp is taken as UTC, so the flag of the parser does not matter.\<close>

definition to_epoch :: "string \<Rightarrow> order_error + rat" where
  "to_epoch ts =
     (let s = (if ts \<noteq> [] \<and> last ts = CHR ''Z''
               then concat (map (\<lambda>c. if c = CHR ''Z'' then ''+00:00'' else [c]) ts) else ts)
      in case fromisoformat s of
           None \<Rightarrow> Inl (ValueErr ''Invalid isoformat string'')
         | Some (_, us) \<Rightarrow> Inr (of_int (us - unix_epoch_day * 86400000000) / 1000000))"

section \<open>State and events\<close>

record native_tick =
  tick_timestamp :: string
  tick_symbol :: string
  tick_price :: rat
  tick_size :: rat

record native_bar =
  nb_timestamp :: string
  nb_symbol :: string
  nb_timeframe :: string
  nb_open :: rat
  nb_high :: rat
  nb_low :: rat
  nb_close :: rat
  nb_volume :: rat

datatype native_event = Tick native_tick | NBar native_bar

record partial_bar =
  pb_start :: int
  pb_end :: int
  pb_open :: rat
  pb_high :: rat
  pb_low :: rat
  pb_close :: rat
  pb_volume :: rat

record out_bar =
  out_symbol :: string
  out_end :: int
  out_timeframe :: string
  out_open :: rat
  out_high :: rat
  out_low :: rat
  out_close :: rat
  out_volume :: rat

record resampler =
  rs_timeframe :: string
  rs_seconds :: int
  rs_partial :: "(string, partial_bar) pydict"
  rs_watermark :: "(string, int) pydict"
  rs_dropped :: int
  rs_emitted :: int
  rs_symbols :: "(string, int) pydict"

definition new_resampler :: "string \<Rightarrow> order_error + resampler" where
  "new_resampler tf =
     map_sum id (\<lambda>n. \<lparr>rs_timeframe = tf, rs_seconds = n, rs_partial = [], rs_watermark = [], rs_dropped = 0,
                      rs_emitted = 0, rs_symbols = []\<rparr>) (timeframe_to_seconds tf)"

section \<open>Helpers\<close>

text \<open>\<open>int(x)\<close>: towards zero.\<close>

definition py_int :: "rat \<Rightarrow> int" where
  "py_int x = (if 0 \<le> x then \<lfloor>x\<rfloor> else \<lceil>x\<rceil>)"

definition interval_start :: "int \<Rightarrow> rat \<Rightarrow> int" where
  "interval_start n x = py_int x div n * n"

definition interval_for :: "resampler \<Rightarrow> rat \<Rightarrow> int \<times> int" where
  "interval_for rs x = (let s = interval_start (rs_seconds rs) x in (s, s + rs_seconds rs))"

definition count_emitted :: "string \<Rightarrow> int \<Rightarrow> resampler \<Rightarrow> resampler" where
  "count_emitted sy bar_end rs =
     rs\<lparr>rs_watermark := dset (rs_watermark rs) sy bar_end, rs_emitted := rs_emitted rs + 1,
        rs_symbols := dset (rs_symbols rs) sy ((case dget (rs_symbols rs) sy of None \<Rightarrow> 0 | Some k \<Rightarrow> k) + 1)\<rparr>"

definition finalize_bar :: "string \<Rightarrow> partial_bar \<Rightarrow> resampler \<Rightarrow> out_bar \<times> resampler" where
  "finalize_bar sy p rs =
     (\<lparr>out_symbol = sy, out_end = pb_end p, out_timeframe = rs_timeframe rs, out_open = pb_open p, out_high = pb_high p,
       out_low = pb_low p, out_close = pb_close p, out_volume = pb_volume p\<rparr>,
      (count_emitted sy (pb_end p) rs)\<lparr>rs_partial := ddel (rs_partial rs) sy\<rparr>)"

definition is_late :: "resampler \<Rightarrow> string \<Rightarrow> int \<Rightarrow> bool" where
  "is_late rs sy bar_end \<longleftrightarrow> (case dget (rs_watermark rs) sy of None \<Rightarrow> False | Some wm \<Rightarrow> bar_end \<le> wm)"

definition drop_late :: "resampler \<Rightarrow> resampler" where
  "drop_late rs = rs\<lparr>rs_dropped := rs_dropped rs + 1\<rparr>"

text \<open>The open bar is finished when a later interval begins.\<close>

definition roll_over :: "string \<Rightarrow> int \<Rightarrow> resampler \<Rightarrow> out_bar list \<times> resampler" where
  "roll_over sy bar_start rs =
     (case dget (rs_partial rs) sy of
        None \<Rightarrow> ([], rs)
      | Some p \<Rightarrow> if pb_start p < bar_start then (let (ob, rs) = finalize_bar sy p rs in ([ob], rs)) else ([], rs))"

text \<open>What an event contributes to a bar: a tick is one price, a native bar its four.\<close>

definition fold_in ::
  "string \<Rightarrow> int \<times> int \<Rightarrow> rat \<Rightarrow> rat \<Rightarrow> rat \<Rightarrow> rat \<Rightarrow> rat \<Rightarrow> resampler \<Rightarrow> partial_bar \<times> resampler" where
  "fold_in sy iv o1 hi lo cl vol rs =
     (let p = (case dget (rs_partial rs) sy of
                 None \<Rightarrow> \<lparr>pb_start = fst iv, pb_end = snd iv, pb_open = o1, pb_high = hi, pb_low = lo, pb_close = cl,
                         pb_volume = vol\<rparr>
               | Some p \<Rightarrow> p\<lparr>pb_high := max (pb_high p) hi, pb_low := min (pb_low p) lo, pb_close := cl,
                            pb_volume := pb_volume p + vol\<rparr>)
      in (p, rs\<lparr>rs_partial := dset (rs_partial rs) sy p\<rparr>))"

section \<open>Ingestion\<close>

definition feed_tick :: "native_tick \<Rightarrow> resampler \<Rightarrow> order_error + (out_bar list \<times> resampler)" where
  "feed_tick t rs =
     (case to_epoch (tick_timestamp t) of
        Inl e \<Rightarrow> Inl e
      | Inr x \<Rightarrow>
          let iv = interval_for rs x; sy = tick_symbol t
          in if is_late rs sy (snd iv) then Inr ([], drop_late rs)
             else
               let (outs, rs) = roll_over sy (fst iv) rs;
                   (p, rs) = fold_in sy iv (tick_price t) (tick_price t) (tick_price t) (tick_price t) (tick_size t) rs
               in Inr (outs, rs))"

text \<open>A native bar of the target timeframe passes through, after the open bar if there is one.\<close>

definition pass_through :: "native_bar \<Rightarrow> int \<Rightarrow> resampler \<Rightarrow> out_bar list \<times> resampler" where
  "pass_through nb bar_end rs =
     (let sy = nb_symbol nb;
          (outs, rs) = (case dget (rs_partial rs) sy of None \<Rightarrow> ([], rs)
                        | Some p \<Rightarrow> (let (ob, rs) = finalize_bar sy p rs in ([ob], rs)))
      in (outs @ [\<lparr>out_symbol = sy, out_end = bar_end, out_timeframe = rs_timeframe rs, out_open = nb_open nb,
                   out_high = nb_high nb, out_low = nb_low nb, out_close = nb_close nb, out_volume = nb_volume nb\<rparr>],
          count_emitted sy bar_end rs))"

definition eager_tolerance :: rat where
  "eager_tolerance = 1 / 1000000"

definition upscale :: "native_bar \<Rightarrow> rat \<Rightarrow> int \<times> int \<Rightarrow> resampler \<Rightarrow> out_bar list \<times> resampler" where
  "upscale nb close_epoch iv rs =
     (let sy = nb_symbol nb; (outs, rs) = roll_over sy (fst iv) rs;
          (p, rs) = fold_in sy iv (nb_open nb) (nb_high nb) (nb_low nb) (nb_close nb) (nb_volume nb) rs
      in if \<bar>close_epoch - of_int (pb_end p)\<bar> < eager_tolerance
         then (let (ob, rs) = finalize_bar sy p rs in (outs @ [ob], rs))
         else (outs, rs))"

definition feed_native_bar :: "native_bar \<Rightarrow> resampler \<Rightarrow> order_error + (out_bar list \<times> resampler)" where
  "feed_native_bar nb rs =
     (case timeframe_to_seconds (nb_timeframe nb) of
        Inl e \<Rightarrow> Inl e
      | Inr n \<Rightarrow>
          if rs_seconds rs < n then Inl (ValueErr ''native timeframe is coarser than target'')
          else if rs_seconds rs mod n \<noteq> 0 then Inl (ValueErr ''native timeframe does not evenly divide target'')
          else (case to_epoch (nb_timestamp nb) of
                  Inl e \<Rightarrow> Inl e
                | Inr x \<Rightarrow>
                    let iv = interval_for rs (x - of_int n / 2)
                    in if is_late rs (nb_symbol nb) (snd iv) then Inr ([], drop_late rs)
                       else if n = rs_seconds rs then Inr (pass_through nb (snd iv) rs)
                       else Inr (upscale nb x iv rs)))"

definition feed_native :: "native_event \<Rightarrow> resampler \<Rightarrow> order_error + (out_bar list \<times> resampler)" where
  "feed_native ev rs = (case ev of Tick t \<Rightarrow> feed_tick t rs | NBar nb \<Rightarrow> feed_native_bar nb rs)"

text \<open>The end of the stream emits nothing: an unfinished bar never leaves.\<close>

definition flush_on_end :: "resampler \<Rightarrow> out_bar list" where
  "flush_on_end rs = []"

text \<open>A whole feed, stopping at the first error.\<close>

fun feed_all :: "native_event list \<Rightarrow> resampler \<Rightarrow> order_error + (out_bar list \<times> resampler)" where
  "feed_all [] rs = Inr ([], rs)"
| "feed_all (ev # evs) rs =
     (case feed_native ev rs of
        Inl e \<Rightarrow> Inl e
      | Inr (outs, rs) \<Rightarrow> map_sum id (\<lambda>(outs', rs). (outs @ outs', rs)) (feed_all evs rs))"

end
