(* ===== verification/ResamplerProps.thy ===== *)
theory ResamplerProps
  imports Resampler
begin

text \<open>
  Properties of the resampler: what leaves is well formed and on the grid, in increasing order per symbol
  when no bar passes through, and only once an event has reached its end; ticks that come in order are
  grouped exactly. Two ways in which an event that comes late is mishandled are proved as well.
\<close>

section \<open>The invariant\<close>

definition ohlc_wf :: "rat \<Rightarrow> rat \<Rightarrow> rat \<Rightarrow> rat \<Rightarrow> bool" where
  "ohlc_wf op hi lo cl \<longleftrightarrow> lo \<le> op \<and> op \<le> hi \<and> lo \<le> cl \<and> cl \<le> hi"

definition after :: "int option \<Rightarrow> int \<Rightarrow> bool" where
  "after wm e \<longleftrightarrow> (case wm of None \<Rightarrow> True | Some w \<Rightarrow> w < e)"

definition partial_ok :: "resampler \<Rightarrow> string \<Rightarrow> partial_bar \<Rightarrow> bool" where
  "partial_ok rs sy p \<longleftrightarrow>
     ohlc_wf (pb_open p) (pb_high p) (pb_low p) (pb_close p) \<and> rs_seconds rs dvd pb_start p \<and>
     pb_end p = pb_start p + rs_seconds rs \<and> after (dget (rs_watermark rs) sy) (pb_end p)"

definition rs_inv :: "resampler \<Rightarrow> bool" where
  "rs_inv rs \<longleftrightarrow> 0 < rs_seconds rs \<and> (\<forall>sy p. dget (rs_partial rs) sy = Some p \<longrightarrow> partial_ok rs sy p)"

lemma partial_ok_cong:
  "rs_seconds rs' = rs_seconds rs \<Longrightarrow> dget (rs_watermark rs') sy = dget (rs_watermark rs) sy \<Longrightarrow>
   partial_ok rs' sy p = partial_ok rs sy p"
  unfolding partial_ok_def by (simp only:)

lemma rs_inv_change:
  assumes "rs_inv rs" and "rs_seconds rs' = rs_seconds rs"
    and "\<And>sy p. dget (rs_partial rs') sy = Some p \<Longrightarrow> partial_ok rs' sy p \<or>
      dget (rs_partial rs) sy = Some p \<and> dget (rs_watermark rs') sy = dget (rs_watermark rs) sy"
  shows "rs_inv rs'"
  unfolding rs_inv_def
proof (intro conjI allI impI)
  show "0 < rs_seconds rs'" using assms(1,2) by (simp add: rs_inv_def)
next
  fix sy p
  assume "dget (rs_partial rs') sy = Some p"
  from assms(3) [OF this] show "partial_ok rs' sy p"
    using assms(1) partial_ok_cong [OF assms(2)] by (auto simp: rs_inv_def)
qed

definition event_ok :: "native_event \<Rightarrow> bool" where
  "event_ok ev \<longleftrightarrow>
     (case ev of Tick t \<Rightarrow> True | NBar nb \<Rightarrow> ohlc_wf (nb_open nb) (nb_high nb) (nb_low nb) (nb_close nb))"

definition out_ok :: "resampler \<Rightarrow> out_bar \<Rightarrow> bool" where
  "out_ok rs ob \<longleftrightarrow>
     ohlc_wf (out_open ob) (out_high ob) (out_low ob) (out_close ob) \<and> rs_seconds rs dvd out_end ob \<and>
     out_timeframe ob = rs_timeframe rs"

definition same_clock :: "resampler \<Rightarrow> resampler \<Rightarrow> bool" where
  "same_clock rs rs' \<longleftrightarrow> rs_seconds rs' = rs_seconds rs \<and> rs_timeframe rs' = rs_timeframe rs"

definition ends_of :: "string \<Rightarrow> out_bar list \<Rightarrow> int list" where
  "ends_of sy outs = map out_end (filter (\<lambda>ob. out_symbol ob = sy) outs)"

lemma ends_of_simps [simp]:
  "ends_of sy [] = []" "ends_of sy (ob # outs) = (if out_symbol ob = sy then out_end ob # ends_of sy outs else ends_of sy outs)"
  "ends_of sy (outs @ outs') = ends_of sy outs @ ends_of sy outs'"
  by (simp_all add: ends_of_def)

text \<open>What every step does: the bars are fine, and the watermark of a symbol is its last end.\<close>

definition emits :: "resampler \<Rightarrow> out_bar list \<Rightarrow> resampler \<Rightarrow> bool" where
  "emits rs outs rs' \<longleftrightarrow>
     rs_inv rs' \<and> same_clock rs rs' \<and> (\<forall>ob \<in> set outs. out_ok rs ob) \<and>
     (\<forall>sy. dget (rs_watermark rs') sy =
        (if ends_of sy outs = [] then dget (rs_watermark rs) sy else Some (last (ends_of sy outs))))"

lemma emitsI:
  "rs_inv rs' \<Longrightarrow> same_clock rs rs' \<Longrightarrow> (\<And>ob. ob \<in> set outs \<Longrightarrow> out_ok rs ob) \<Longrightarrow>
   (\<And>sy. dget (rs_watermark rs') sy =
      (if ends_of sy outs = [] then dget (rs_watermark rs) sy else Some (last (ends_of sy outs)))) \<Longrightarrow>
   emits rs outs rs'"
  by (simp add: emits_def)

lemma emits_trans: "emits rs outs rs' \<Longrightarrow> emits rs' outs' rs'' \<Longrightarrow> emits rs (outs @ outs') rs''"
  by (auto simp: emits_def same_clock_def out_ok_def)

lemma emits_nil: "rs_inv rs \<Longrightarrow> emits rs [] rs"
  by (simp add: emits_def same_clock_def)

lemma drop_late_emits: "rs_inv rs \<Longrightarrow> emits rs [] (drop_late rs)"
  by (auto simp: emits_def drop_late_def same_clock_def elim: rs_inv_change)

lemma finalize_emits:
  assumes "rs_inv rs" and "dget (rs_partial rs) sy = Some p" and "finalize_bar sy p rs = (ob, rs')"
  shows "emits rs [ob] rs'" "out_symbol ob = sy" "out_end ob = pb_end p" "rs_partial rs' = ddel (rs_partial rs) sy"
    "dget (rs_watermark rs') sy = Some (pb_end p)"
proof -
  have p: "partial_ok rs sy p" "0 < rs_seconds rs" using assms(1,2) by (simp_all add: rs_inv_def)
  from assms(3) have r: "ob = fst (finalize_bar sy p rs)" "rs' = snd (finalize_bar sy p rs)" by simp_all
  note d = finalize_bar_def count_emitted_def
  show "out_symbol ob = sy" "out_end ob = pb_end p" "rs_partial rs' = ddel (rs_partial rs) sy"
    "dget (rs_watermark rs') sy = Some (pb_end p)" by (simp_all add: r d)
  have "rs_inv rs'"
    by (rule rs_inv_change [OF assms(1)]) (auto simp: r d split: if_splits)
  moreover have "out_ok rs ob" using p by (simp add: r d out_ok_def partial_ok_def)
  ultimately show "emits rs [ob] rs'" by (intro emitsI) (simp_all add: r d same_clock_def)
qed

text \<open>The interval of an instant.\<close>

lemma interval_for_facts:
  assumes "0 < rs_seconds rs"
  shows "snd (interval_for rs x) = fst (interval_for rs x) + rs_seconds rs" "rs_seconds rs dvd fst (interval_for rs x)"
    "0 \<le> x \<Longrightarrow> of_int (fst (interval_for rs x)) \<le> x"
proof -
  show "snd (interval_for rs x) = fst (interval_for rs x) + rs_seconds rs" "rs_seconds rs dvd fst (interval_for rs x)"
    by (simp_all add: interval_for_def interval_start_def Let_def)
  assume "0 \<le> x"
  then have "fst (interval_for rs x) \<le> \<lfloor>x\<rfloor>"
    using minus_mod_eq_div_mult [of "\<lfloor>x\<rfloor>" "rs_seconds rs", symmetric] pos_mod_sign [OF assms, of "\<lfloor>x\<rfloor>"]
    by (simp add: interval_for_def interval_start_def Let_def py_int_def)
  then show "of_int (fst (interval_for rs x)) \<le> x" by linarith
qed

lemma roll_over_emits:
  assumes "rs_inv rs" and "roll_over sy s rs = (outs, rs')"
  shows "emits rs outs rs'" "\<forall>sy'. sy' \<noteq> sy \<longrightarrow> ends_of sy' outs = []"
    "(outs = [] \<and> rs' = rs \<and> (\<forall>p. dget (rs_partial rs) sy = Some p \<longrightarrow> s \<le> pb_start p)) \<or>
     (\<exists>p ob. dget (rs_partial rs) sy = Some p \<and> pb_start p < s \<and> outs = [ob] \<and> out_symbol ob = sy \<and>
        out_end ob = pb_end p \<and> rs_partial rs' = ddel (rs_partial rs) sy \<and> dget (rs_watermark rs') sy = Some (pb_end p))"
proof -
  have "emits rs outs rs' \<and> (\<forall>sy'. sy' \<noteq> sy \<longrightarrow> ends_of sy' outs = []) \<and>
    ((outs = [] \<and> rs' = rs \<and> (\<forall>p. dget (rs_partial rs) sy = Some p \<longrightarrow> s \<le> pb_start p)) \<or>
     (\<exists>p ob. dget (rs_partial rs) sy = Some p \<and> pb_start p < s \<and> outs = [ob] \<and> out_symbol ob = sy \<and>
        out_end ob = pb_end p \<and> rs_partial rs' = ddel (rs_partial rs) sy \<and> dget (rs_watermark rs') sy = Some (pb_end p)))"
  proof (cases "dget (rs_partial rs) sy")
    case None
    with assms show ?thesis by (simp add: roll_over_def emits_nil)
  next
    case (Some p)
    obtain ob rs1 where f: "finalize_bar sy p rs = (ob, rs1)" by fastforce
    show ?thesis
    proof (cases "pb_start p < s")
      case True
      with assms(2) Some f have "outs = [ob]" "rs' = rs1" by (simp_all add: roll_over_def)
      with finalize_emits [OF assms(1) Some f] Some True show ?thesis by auto
    next
      case False
      with assms Some show ?thesis by (simp add: roll_over_def emits_nil)
    qed
  qed
  then show "emits rs outs rs'" "\<forall>sy'. sy' \<noteq> sy \<longrightarrow> ends_of sy' outs = []"
    "(outs = [] \<and> rs' = rs \<and> (\<forall>p. dget (rs_partial rs) sy = Some p \<longrightarrow> s \<le> pb_start p)) \<or>
     (\<exists>p ob. dget (rs_partial rs) sy = Some p \<and> pb_start p < s \<and> outs = [ob] \<and> out_symbol ob = sy \<and>
        out_end ob = pb_end p \<and> rs_partial rs' = ddel (rs_partial rs) sy \<and> dget (rs_watermark rs') sy = Some (pb_end p))"
    by blast+
qed

lemma fold_in_ok:
  assumes "rs_inv rs" and "fold_in sy iv op hi lo cl vol rs = (p, rs')" and "ohlc_wf op hi lo cl"
    and "snd iv = fst iv + rs_seconds rs" and "rs_seconds rs dvd fst iv" and "after (dget (rs_watermark rs) sy) (snd iv)"
  shows "emits rs [] rs'" "dget (rs_partial rs') sy = Some p"
    "pb_end p = (case dget (rs_partial rs) sy of None \<Rightarrow> snd iv | Some q \<Rightarrow> pb_end q)"
    "rs_watermark rs' = rs_watermark rs" "partial_ok rs sy p"
proof -
  from assms(2) have p: "p = fst (fold_in sy iv op hi lo cl vol rs)" and rs': "rs' = rs\<lparr>rs_partial := dset (rs_partial rs) sy p\<rparr>"
    by (auto simp: fold_in_def Let_def)
  show pe: "pb_end p = (case dget (rs_partial rs) sy of None \<Rightarrow> snd iv | Some q \<Rightarrow> pb_end q)"
    by (simp add: p fold_in_def Let_def split: option.split)
  show ok: "partial_ok rs sy p"
  proof (cases "dget (rs_partial rs) sy")
    case None
    with assms(3-6) show ?thesis by (simp add: p fold_in_def partial_ok_def Let_def)
  next
    case (Some q)
    with assms(1) have "partial_ok rs sy q" by (simp add: rs_inv_def)
    with Some assms(3) show ?thesis
      by (auto simp: p fold_in_def partial_ok_def ohlc_wf_def min_le_iff_disj le_max_iff_disj Let_def)
  qed
  show "dget (rs_partial rs') sy = Some p" "rs_watermark rs' = rs_watermark rs" by (simp_all add: rs')
  have "partial_ok rs' sy p" using ok partial_ok_cong [of rs' rs sy p] by (simp add: rs')
  then have "rs_inv rs'" by (intro rs_inv_change [OF assms(1)]) (auto simp: rs' split: if_splits)
  then show "emits rs [] rs'" by (simp add: emits_def rs' same_clock_def)
qed

section \<open>One event\<close>

definition ascends :: "resampler \<Rightarrow> out_bar list \<Rightarrow> bool" where
  "ascends rs outs \<longleftrightarrow>
     (\<forall>sy. sorted_wrt (<) (ends_of sy outs) \<and> (\<forall>e \<in> set (ends_of sy outs). after (dget (rs_watermark rs) sy) e))"

lemma ascends_nil [simp]: "ascends rs []"
  by (simp add: ascends_def)

lemma ascends_single: "after (dget (rs_watermark rs) (out_symbol ob)) (out_end ob) \<Longrightarrow> ascends rs [ob]"
  by (simp add: ascends_def)

lemma partial_ok_after: "partial_ok rs sy p \<Longrightarrow> after (dget (rs_watermark rs) sy) (pb_end p)"
  unfolding partial_ok_def by blast

lemma last_ge: "sorted_wrt (<) (xs :: int list) \<Longrightarrow> x \<in> set xs \<Longrightarrow> x \<le> last xs"
  by (induction xs) (auto simp: less_imp_le)

lemma ascends_append:
  assumes "emits rs outs rs'" and "ascends rs outs" and "ascends rs' outs'"
  shows "ascends rs (outs @ outs')"
  unfolding ascends_def
proof (intro allI conjI)
  fix sy
  note wm = assms(1) [unfolded emits_def, THEN conjunct2, THEN conjunct2, THEN conjunct2, rule_format, of sy]
  from assms(2,3) have a: "sorted_wrt (<) (ends_of sy outs)" "sorted_wrt (<) (ends_of sy outs')"
    "\<forall>e \<in> set (ends_of sy outs). after (dget (rs_watermark rs) sy) e"
    "\<forall>e \<in> set (ends_of sy outs'). after (dget (rs_watermark rs') sy) e" by (simp_all add: ascends_def)
  have "x < y" if "x \<in> set (ends_of sy outs)" "y \<in> set (ends_of sy outs')" for x y
    using wm a(4) that last_ge [OF a(1) that(1)] by (auto simp: after_def split: if_splits)
  with a show "sorted_wrt (<) (ends_of sy (outs @ outs'))" by (simp add: sorted_wrt_append)
  have "after (dget (rs_watermark rs) sy) y" if "y \<in> set (ends_of sy outs')" for y
  proof (cases "ends_of sy outs = []")
    case True
    with wm a(4) that show ?thesis by simp
  next
    case False
    then have "last (ends_of sy outs) < y" "after (dget (rs_watermark rs) sy) (last (ends_of sy outs))"
      using wm a(3,4) that by (auto simp: after_def)
    then show ?thesis by (simp add: after_def split: option.splits)
  qed
  with a(3) show "\<forall>e \<in> set (ends_of sy (outs @ outs')). after (dget (rs_watermark rs) sy) e" by auto
qed

text \<open>The open bar rolls over and the event is folded in: shared by ticks and finer bars.\<close>

lemma roll_and_fold:
  assumes inv: "rs_inv rs" and iv: "iv = interval_for rs x" and late: "\<not> is_late rs sy (snd iv)"
    and roll: "roll_over sy (fst iv) rs = (outs, rs1)" and fold: "fold_in sy iv op hi lo cl vol rs1 = (p, rs2)"
    and wf: "ohlc_wf op hi lo cl"
  shows "emits rs outs rs2" "ascends rs outs" "dget (rs_partial rs2) sy = Some p" "partial_ok rs2 sy p"
    "\<forall>ob \<in> set outs. out_symbol ob = sy \<and> out_end ob \<le> fst iv"
proof -
  note f = interval_for_facts [OF inv [unfolded rs_inv_def, THEN conjunct1], of x, folded iv]
  note r = roll_over_emits [OF inv roll]
  have inv1: "rs_inv rs1" "rs_seconds rs1 = rs_seconds rs" using r(1) by (simp_all add: emits_def same_clock_def)
  have late': "after (dget (rs_watermark rs) sy) (snd iv)"
    using late by (auto simp: is_late_def after_def split: option.splits)
  have "after (dget (rs_watermark rs1) sy) (snd iv) \<and> ascends rs outs \<and>
      (\<forall>ob \<in> set outs. out_symbol ob = sy \<and> out_end ob \<le> fst iv)"
    using r(3)
  proof (elim disjE exE conjE)
    fix q ob
    assume q: "dget (rs_partial rs) sy = Some q" "pb_start q < fst iv" "outs = [ob]" "out_symbol ob = sy"
      "out_end ob = pb_end q" "dget (rs_watermark rs1) sy = Some (pb_end q)"
    from inv q(1) have "partial_ok rs sy q" by (simp add: rs_inv_def)
    then have pq: "pb_end q = pb_start q + rs_seconds rs" "rs_seconds rs dvd pb_start q"
      "after (dget (rs_watermark rs) sy) (pb_end q)" unfolding partial_ok_def by blast+
    have "rs_seconds rs dvd fst iv - pb_start q" using f(2) pq(2) by simp
    with q(2) have "rs_seconds rs \<le> fst iv - pb_start q" by (intro zdvd_imp_le) simp_all
    with pq(1) have "pb_end q \<le> fst iv" by simp
    moreover have "0 < rs_seconds rs" using inv by (simp add: rs_inv_def)
    ultimately have "after (dget (rs_watermark rs1) sy) (snd iv)" using q(6) f(1) by (simp add: after_def)
    moreover have "ascends rs outs" unfolding q(3) by (rule ascends_single) (simp add: q(4,5) pq(3))
    ultimately show ?thesis using q \<open>pb_end q \<le> fst iv\<close> by simp
  qed (use late' in simp)
  then have a: "after (dget (rs_watermark rs1) sy) (snd iv)" "ascends rs outs"
    "\<forall>ob \<in> set outs. out_symbol ob = sy \<and> out_end ob \<le> fst iv" by blast+
  note g = fold_in_ok [OF inv1(1) fold wf _ _ a(1), unfolded inv1(2), OF f(1,2)]
  from emits_trans [OF r(1) g(1)] show "emits rs outs rs2" by simp
  show "dget (rs_partial rs2) sy = Some p" by (rule g(2))
  show "partial_ok rs2 sy p" using g(5) partial_ok_cong [of rs2 rs1 sy p] g(1,4) by (simp add: emits_def same_clock_def)
  from a show "ascends rs outs" "\<forall>ob \<in> set outs. out_symbol ob = sy \<and> out_end ob \<le> fst iv" by blast+
qed

lemma feed_tick_step:
  assumes "rs_inv rs" and "feed_tick t rs = Inr (outs, rs')"
  shows "emits rs outs rs'" "ascends rs outs"
    "to_epoch (tick_timestamp t) = Inr x \<Longrightarrow> 0 \<le> x \<Longrightarrow> \<forall>ob \<in> set outs. of_int (out_end ob) \<le> x"
proof -
  from assms(2) obtain y where y: "to_epoch (tick_timestamp t) = Inr y" by (auto simp: feed_tick_def split: sum.splits)
  let ?iv = "interval_for rs y" and ?sy = "tick_symbol t" and ?p = "tick_price t"
  have "emits rs outs rs' \<and> ascends rs outs \<and> (\<forall>ob \<in> set outs. out_end ob \<le> fst ?iv)"
  proof (cases "is_late rs ?sy (snd ?iv)")
    case True
    with assms y show ?thesis by (auto simp: feed_tick_def Let_def intro: drop_late_emits)
  next
    case False
    obtain rs1 p where r: "roll_over ?sy (fst ?iv) rs = (outs, rs1)"
      and f: "fold_in ?sy ?iv ?p ?p ?p ?p (tick_size t) rs1 = (p, rs')"
      using assms(2) y False by (auto simp: feed_tick_def Let_def split: prod.splits)
    from roll_and_fold [OF assms(1) refl False r f] show ?thesis by (auto simp: ohlc_wf_def)
  qed
  moreover have "of_int (fst ?iv) \<le> y" if "0 \<le> y"
    using interval_for_facts(3) [of rs y] assms(1) that by (simp add: rs_inv_def)
  ultimately show "emits rs outs rs'" "ascends rs outs"
    "to_epoch (tick_timestamp t) = Inr x \<Longrightarrow> 0 \<le> x \<Longrightarrow> \<forall>ob \<in> set outs. of_int (out_end ob) \<le> x"
    using y by (auto intro: order_trans [OF of_int_le_iff [THEN iffD2]])
qed

lemma upscale_step:
  assumes inv: "rs_inv rs" and late: "\<not> is_late rs (nb_symbol nb) (snd (interval_for rs y))"
    and run: "upscale nb x (interval_for rs y) rs = (outs, rs')"
    and wf: "ohlc_wf (nb_open nb) (nb_high nb) (nb_low nb) (nb_close nb)"
  shows "emits rs outs rs'" "ascends rs outs"
    "0 \<le> y \<Longrightarrow> y \<le> x \<Longrightarrow> \<forall>ob \<in> set outs. of_int (out_end ob) < x + eager_tolerance"
proof -
  let ?iv = "interval_for rs y" and ?sy = "nb_symbol nb"
  obtain outs1 rs1 p rs2 where r: "roll_over ?sy (fst ?iv) rs = (outs1, rs1)"
    and f: "fold_in ?sy ?iv (nb_open nb) (nb_high nb) (nb_low nb) (nb_close nb) (nb_volume nb) rs1 = (p, rs2)"
    by (metis prod.collapse)
  note s = roll_and_fold [OF inv refl late r f wf]
  have start: "of_int (fst ?iv) \<le> y" if "0 \<le> y"
    using interval_for_facts(3) [of rs y] inv that by (simp add: rs_inv_def)
  have tol: "0 < eager_tolerance" by (simp add: eager_tolerance_def)
  have early: "of_int (out_end ob) < x + eager_tolerance" if "ob \<in> set outs1" "0 \<le> y" "y \<le> x" for ob
  proof -
    have "(of_int (out_end ob) :: rat) \<le> of_int (fst ?iv)" using s(5) that(1) by simp
    with start [OF that(2)] that(3) tol show ?thesis by linarith
  qed
  show "emits rs outs rs'" "ascends rs outs"
    "0 \<le> y \<Longrightarrow> y \<le> x \<Longrightarrow> \<forall>ob \<in> set outs. of_int (out_end ob) < x + eager_tolerance"
  proof -
    have "emits rs outs rs' \<and> ascends rs outs \<and>
      (0 \<le> y \<longrightarrow> y \<le> x \<longrightarrow> (\<forall>ob \<in> set outs. of_int (out_end ob) < x + eager_tolerance))"
    proof (cases "\<bar>x - of_int (pb_end p)\<bar> < eager_tolerance")
      case False
      with run r f have "outs = outs1" "rs' = rs2" by (simp_all add: upscale_def)
      with s early show ?thesis by auto
    next
      case True
      obtain ob rs3 where fin: "finalize_bar ?sy p rs2 = (ob, rs3)" by fastforce
      with True run r f have o: "outs = outs1 @ [ob]" "rs' = rs3" by (simp_all add: upscale_def)
      have "rs_inv rs2" using s(1) by (simp add: emits_def)
      note e = finalize_emits [OF this s(3) fin]
      have "ascends rs2 [ob]" using partial_ok_after [OF s(4)] e(2,3) by (intro ascends_single) simp
      with ascends_append [OF s(1,2)] emits_trans [OF s(1) e(1)] o True early e(3) show ?thesis by auto
    qed
    then show "emits rs outs rs'" "ascends rs outs"
      "0 \<le> y \<Longrightarrow> y \<le> x \<Longrightarrow> \<forall>ob \<in> set outs. of_int (out_end ob) < x + eager_tolerance" by blast+
  qed
qed

lemma pass_through_emits:
  assumes inv: "rs_inv rs" and wf: "ohlc_wf (nb_open nb) (nb_high nb) (nb_low nb) (nb_close nb)"
    and run: "pass_through nb e rs = (outs, rs')" and "rs_seconds rs dvd e"
  shows "emits rs outs rs'"
proof -
  let ?sy = "nb_symbol nb"
  obtain outs1 rs1 where one: "(case dget (rs_partial rs) ?sy of None \<Rightarrow> ([], rs)
      | Some p \<Rightarrow> (let (ob, rs) = finalize_bar ?sy p rs in ([ob], rs))) = (outs1, rs1)" by fastforce
  have s: "emits rs outs1 rs1 \<and> dget (rs_partial rs1) ?sy = None"
  proof (cases "dget (rs_partial rs) ?sy")
    case None
    with one inv show ?thesis by (auto intro: emits_nil)
  next
    case (Some p)
    obtain ob rs2 where f: "finalize_bar ?sy p rs = (ob, rs2)" by fastforce
    with one Some finalize_emits [OF inv Some f] show ?thesis by auto
  qed
  let ?ob = "\<lparr>out_symbol = ?sy, out_end = e, out_timeframe = rs_timeframe rs1, out_open = nb_open nb,
      out_high = nb_high nb, out_low = nb_low nb, out_close = nb_close nb, out_volume = nb_volume nb\<rparr>"
  from run one have o: "outs = outs1 @ [?ob]" "rs' = count_emitted ?sy e rs1"
    by (simp_all add: pass_through_def Let_def)
  from s have c: "rs_seconds rs1 = rs_seconds rs" "rs_inv rs1" by (simp_all add: emits_def same_clock_def)
  have "rs_inv (count_emitted ?sy e rs1)"
    by (rule rs_inv_change [OF c(2)]) (use s in \<open>auto simp: count_emitted_def\<close>)
  then have "emits rs1 [?ob] (count_emitted ?sy e rs1)"
    using wf assms(4) c(1) by (simp add: emits_def same_clock_def out_ok_def count_emitted_def)
  with s emits_trans [of rs outs1 rs1] show ?thesis by (simp add: o)
qed

text \<open>A native bar of the target timeframe itself.\<close>

definition passes :: "resampler \<Rightarrow> native_event \<Rightarrow> bool" where
  "passes rs ev \<longleftrightarrow>
     (case ev of Tick t \<Rightarrow> False | NBar nb \<Rightarrow> timeframe_to_seconds (nb_timeframe nb) = Inr (rs_seconds rs))"

definition event_instant :: "native_event \<Rightarrow> order_error + rat" where
  "event_instant ev = to_epoch (case ev of Tick t \<Rightarrow> tick_timestamp t | NBar nb \<Rightarrow> nb_timestamp nb)"

lemma timeframe_pos: "timeframe_to_seconds tf = Inr n \<Longrightarrow> 0 < n \<and> n \<le> 86400"
  by (auto simp: timeframe_to_seconds_def timeframe_table_def split: option.splits if_splits)

lemma feed_native_step:
  assumes inv: "rs_inv rs" and ok: "event_ok ev" and run: "feed_native ev rs = Inr (outs, rs')"
  shows "emits rs outs rs'" "\<not> passes rs ev \<Longrightarrow> ascends rs outs"
    "\<not> passes rs ev \<Longrightarrow> event_instant ev = Inr x \<Longrightarrow> 43200 \<le> x \<Longrightarrow>
       \<forall>ob \<in> set outs. of_int (out_end ob) < x + eager_tolerance"
proof -
  have tol: "0 < eager_tolerance" by (simp add: eager_tolerance_def)
  have "emits rs outs rs' \<and> (\<not> passes rs ev \<longrightarrow> ascends rs outs \<and>
      (event_instant ev = Inr x \<longrightarrow> 43200 \<le> x \<longrightarrow> (\<forall>ob \<in> set outs. of_int (out_end ob) < x + eager_tolerance)))"
  proof (cases ev)
    case (Tick t)
    with run have "feed_tick t rs = Inr (outs, rs')" by (simp add: feed_native_def)
    from feed_tick_step [OF inv this] Tick tol show ?thesis by (force simp: event_instant_def)
  next
    case (NBar nb)
    with run obtain n y where n: "timeframe_to_seconds (nb_timeframe nb) = Inr n" and y: "to_epoch (nb_timestamp nb) = Inr y"
      by (auto simp: feed_native_def feed_native_bar_def split: sum.splits if_splits)
    let ?iv = "interval_for rs (y - of_int n / 2)"
    from n have np: "0 < n" "n \<le> 86400" by (simp_all add: timeframe_pos)
    have wf: "ohlc_wf (nb_open nb) (nb_high nb) (nb_low nb) (nb_close nb)" using ok NBar by (simp add: event_ok_def)
    consider (late) "outs = []" "rs' = drop_late rs"
      | (pass) "n = rs_seconds rs" "pass_through nb (snd ?iv) rs = (outs, rs')"
      | (up) "\<not> is_late rs (nb_symbol nb) (snd ?iv)" "n \<noteq> rs_seconds rs" "upscale nb y ?iv rs = (outs, rs')"
      using run NBar n y by (auto simp: feed_native_def feed_native_bar_def Let_def split: if_splits)
    then show ?thesis
    proof cases
      case late
      with drop_late_emits [OF inv] show ?thesis by simp
    next
      case pass
      have "rs_seconds rs dvd snd ?iv"
        using interval_for_facts(1,2) [of rs] inv by (simp add: rs_inv_def)
      from pass_through_emits [OF inv wf pass(2) this] pass(1) NBar n show ?thesis by (simp add: passes_def)
    next
      case up
      note u = upscale_step [OF inv up(1,3) wf]
      have "0 \<le> y - of_int n / 2" if "43200 \<le> y"
      proof -
        have "(of_int n :: rat) \<le> of_int 86400" using np(2) by (simp only: of_int_le_iff)
        with that show ?thesis by simp
      qed
      with u NBar y np(1) show ?thesis by (auto simp: event_instant_def)
    qed
  qed
  then show "emits rs outs rs'" "\<not> passes rs ev \<Longrightarrow> ascends rs outs"
    "\<not> passes rs ev \<Longrightarrow> event_instant ev = Inr x \<Longrightarrow> 43200 \<le> x \<Longrightarrow>
       \<forall>ob \<in> set outs. of_int (out_end ob) < x + eager_tolerance" by blast+
qed

section \<open>A whole feed\<close>

lemma new_resampler_facts:
  assumes "new_resampler tf = Inr rs"
  shows "rs_inv rs" "rs_timeframe rs = tf" "timeframe_to_seconds tf = Inr (rs_seconds rs)" "rs_partial rs = []"
    "rs_watermark rs = []"
  using assms timeframe_pos by (cases "timeframe_to_seconds tf"; force simp: new_resampler_def rs_inv_def)+

lemma passes_cong: "emits rs outs rs' \<Longrightarrow> passes rs' = passes rs"
  by (rule ext) (simp add: emits_def same_clock_def passes_def split: native_event.split)

lemma feed_all_steps:
  "feed_all evs rs = Inr (outs, rs') \<Longrightarrow> rs_inv rs \<Longrightarrow> list_all event_ok evs \<Longrightarrow>
   emits rs outs rs' \<and> ((\<forall>ev \<in> set evs. \<not> passes rs ev) \<longrightarrow> ascends rs outs)"
proof (induction evs rs arbitrary: outs rule: feed_all.induct)
  case (1 rs)
  then show ?case by (auto intro: emits_nil)
next
  case (2 ev evs rs)
  from "2.prems"(1) obtain o1 rs1 o2 where one: "feed_native ev rs = Inr (o1, rs1)"
    and rest: "feed_all evs rs1 = Inr (o2, rs')" and outs: "outs = o1 @ o2"
    by (auto simp: map_sum_def split: sum.splits)
  note s = feed_native_step [OF "2.prems"(2) _ one]
  from "2.prems"(3) have ok: "event_ok ev" "list_all event_ok evs" by simp_all
  have e: "emits rs o1 rs1" by (rule s(1) [OF ok(1)])
  have "rs_inv rs1" using e by (simp add: emits_def)
  from "2.IH" [OF one refl rest this ok(2)] e s(2) [OF ok(1)] show ?case
    unfolding outs passes_cong [OF e] by (auto intro: emits_trans ascends_append)
qed

lemma feed_all_append:
  "feed_all evs rs = Inr (outs, rs') \<Longrightarrow>
   feed_all (evs @ evs') rs = map_sum id (\<lambda>(outs', rs'). (outs @ outs', rs')) (feed_all evs' rs')"
proof (induction evs rs arbitrary: outs rule: feed_all.induct)
  case (1 rs)
  then show ?case by (cases "feed_all evs' rs'") (auto simp: map_sum_def)
next
  case (2 ev evs rs)
  from "2.prems" obtain o1 rs1 o2 where one: "feed_native ev rs = Inr (o1, rs1)"
    and rest: "feed_all evs rs1 = Inr (o2, rs')" and outs: "outs = o1 @ o2"
    by (auto simp: map_sum_def split: sum.splits)
  from "2.IH" [OF one refl rest] show ?case
    by (cases "feed_all evs' rs'") (auto simp: one outs map_sum_def)
qed

section \<open>Properties\<close>

text \<open>C21. Whatever native events arrive, in whatever order, every bar that leaves is a bar: its low is below
  its open and close and its high above them, it ends on the grid of the target timeframe and carries its
  label (given that the provider's own bars are bars).\<close>

theorem resampled_bars_are_bars:
  assumes "new_resampler tf = Inr rs0" and "feed_all evs rs0 = Inr (outs, rs)" and "list_all event_ok evs"
    and "ob \<in> set outs"
  shows "ohlc_wf (out_open ob) (out_high ob) (out_low ob) (out_close ob) \<and> out_timeframe ob = tf \<and>
    (\<exists>n. timeframe_to_seconds tf = Inr n \<and> n dvd out_end ob)"
  using feed_all_steps [OF assms(2) new_resampler_facts(1) [OF assms(1)] assms(3)] assms(4)
    new_resampler_facts(2,3) [OF assms(1)] by (auto simp: emits_def out_ok_def)

text \<open>C22. Bars leave finished and in order: as long as no bar of the target timeframe itself passes through,
  the bars of a symbol end strictly later one after the other, however late or mixed up the events are, and
  an event only releases bars that end by its own time (up to the tolerance of the boundary test, for
  events after the first half day of the epoch).\<close>

theorem bars_leave_finished_and_in_order:
  assumes "new_resampler tf = Inr rs0" and "feed_all evs rs0 = Inr (outs, rs)" and "feed_native ev rs = Inr (outs', rs')"
    and "list_all event_ok (ev # evs)" and "\<forall>e \<in> set (ev # evs). \<not> passes rs0 e"
  shows "sorted_wrt (<) (ends_of sy (outs @ outs')) \<and>
    (\<forall>x. event_instant ev = Inr x \<longrightarrow> 43200 \<le> x \<longrightarrow> (\<forall>ob \<in> set outs'. of_int (out_end ob) < x + eager_tolerance))"
proof -
  from assms(4) have ok: "list_all event_ok evs" "event_ok ev" by simp_all
  note a = feed_all_steps [OF assms(2) new_resampler_facts(1) [OF assms(1)] ok(1)]
  from a have "rs_inv rs" by (simp add: emits_def)
  note s = feed_native_step [OF this ok(2) assms(3)]
  have np: "\<not> passes rs ev" using a assms(5) passes_cong by auto
  from ascends_append [OF conjunct1 [OF a] _ s(2) [OF np]] a assms(5) have "ascends rs0 (outs @ outs')" by simp
  then have "sorted_wrt (<) (ends_of sy (outs @ outs'))" by (simp add: ascends_def)
  with s(3) [OF np] show ?thesis by blast
qed

section \<open>Ticks in order\<close>

definition tick_end :: "int \<Rightarrow> native_tick \<Rightarrow> int" where
  "tick_end n t = (case to_epoch (tick_timestamp t) of Inr x \<Rightarrow> interval_start n x + n | Inl _ \<Rightarrow> 0)"

text \<open>The candle of some ticks: first, highest, lowest and last price, and the total size.\<close>

definition candle :: "string \<Rightarrow> string \<Rightarrow> int \<Rightarrow> native_tick list \<Rightarrow> out_bar" where
  "candle sy tf e ts =
     \<lparr>out_symbol = sy, out_end = e, out_timeframe = tf, out_open = tick_price (hd ts),
      out_high = foldl max (tick_price (hd ts)) (map tick_price (tl ts)),
      out_low = foldl min (tick_price (hd ts)) (map tick_price (tl ts)),
      out_close = tick_price (last ts), out_volume = sum_list (map tick_size ts)\<rparr>"

definition in_interval :: "int \<Rightarrow> int \<Rightarrow> native_tick list \<Rightarrow> native_tick list" where
  "in_interval n e ts = filter (\<lambda>t. tick_end n t = e) ts"

text \<open>The ends of the intervals that have ticks, without the last one, in order.\<close>

definition finished_ends :: "int \<Rightarrow> native_tick list \<Rightarrow> int list" where
  "finished_ends n ts = sorted_list_of_set (tick_end n ` set ts - {tick_end n (last ts)})"

definition open_bar :: "int \<Rightarrow> out_bar \<Rightarrow> partial_bar" where
  "open_bar n ob =
     \<lparr>pb_start = out_end ob - n, pb_end = out_end ob, pb_open = out_open ob, pb_high = out_high ob, pb_low = out_low ob,
      pb_close = out_close ob, pb_volume = out_volume ob\<rparr>"

lemma candle_snoc:
  assumes "ts \<noteq> []"
  shows "open_bar n (candle sy tf e (ts @ [t])) =
    (open_bar n (candle sy tf e ts))
      \<lparr>pb_high := max (pb_high (open_bar n (candle sy tf e ts))) (tick_price t),
       pb_low := min (pb_low (open_bar n (candle sy tf e ts))) (tick_price t),
       pb_close := tick_price t, pb_volume := pb_volume (open_bar n (candle sy tf e ts)) + tick_size t\<rparr>"
  using assms by (cases ts) (simp_all add: open_bar_def candle_def)

lemma candle_one:
  "open_bar n (candle sy tf e [t]) =
     \<lparr>pb_start = e - n, pb_end = e, pb_open = tick_price t, pb_high = tick_price t, pb_low = tick_price t,
      pb_close = tick_price t, pb_volume = tick_size t\<rparr>"
  by (simp add: open_bar_def candle_def)

lemma finalize_candle:
  "rs_timeframe rs = tf \<Longrightarrow> fst (finalize_bar sy (open_bar n (candle sy tf e ts)) rs) = candle sy tf e ts"
  by (simp add: finalize_bar_def open_bar_def candle_def)

lemma sorted_list_insert_max:
  assumes "finite A" and "\<forall>a \<in> A. a < (e :: int)"
  shows "sorted_list_of_set (insert e A) = sorted_list_of_set A @ [e]"
proof -
  have "sorted_wrt (<) (sorted_list_of_set A @ [e])"
    using assms strict_sorted_list_of_set [of A] by (simp add: sorted_wrt_append)
  moreover have "set (sorted_list_of_set A @ [e]) = insert e A" using assms(1) by auto
  ultimately show ?thesis using sorted_list_of_set.idem_if_sorted_distinct strict_sorted_iff by metis
qed

text \<open>After a tick, the state holds the candle of the last interval, and nothing of it has left.\<close>

definition grouped :: "string \<Rightarrow> string \<Rightarrow> int \<Rightarrow> native_tick list \<Rightarrow> resampler \<Rightarrow> bool" where
  "grouped sy tf n ts rs \<longleftrightarrow>
     rs_seconds rs = n \<and> rs_timeframe rs = tf \<and>
     (let e = tick_end n (last ts)
      in dget (rs_partial rs) sy = Some (open_bar n (candle sy tf e (in_interval n e ts))) \<and>
         after (dget (rs_watermark rs) sy) e)"

definition tick_ok :: "string \<Rightarrow> native_tick \<Rightarrow> bool" where
  "tick_ok sy t \<longleftrightarrow> tick_symbol t = sy \<and> (\<exists>x. to_epoch (tick_timestamp t) = Inr x)"

lemma feed_tick_known:
  assumes "tick_ok sy t" and "rs_seconds rs = n" and "after (dget (rs_watermark rs) sy) (tick_end n t)"
  shows "feed_tick t rs =
    (let (outs, rs) = roll_over sy (tick_end n t - n) rs;
         (p, rs) = fold_in sy (tick_end n t - n, tick_end n t) (tick_price t) (tick_price t) (tick_price t) (tick_price t)
                     (tick_size t) rs
     in Inr (outs, rs))"
  using assms
  by (auto simp: tick_ok_def feed_tick_def tick_end_def interval_for_def is_late_def after_def Let_def not_le
      split: option.splits)

lemma tick_grouped:
  assumes g: "grouped sy tf n ts rs" and ts: "ts \<noteq> []" and t: "tick_ok sy t"
    and le: "tick_end n (last ts) \<le> tick_end n t" and below: "\<forall>u \<in> set ts. tick_end n u \<le> tick_end n (last ts)"
  shows "\<exists>rs'. grouped sy tf n (ts @ [t]) rs' \<and>
    feed_tick t rs = Inr (if tick_end n t = tick_end n (last ts) then []
      else [candle sy tf (tick_end n (last ts)) (in_interval n (tick_end n (last ts)) ts)], rs')"
proof -
  let ?l = "tick_end n (last ts)" and ?e = "tick_end n t"
  let ?p = "open_bar n (candle sy tf ?l (in_interval n ?l ts))"
  from g have rs: "rs_seconds rs = n" "rs_timeframe rs = tf" "dget (rs_partial rs) sy = Some ?p"
    "after (dget (rs_watermark rs) sy) ?l" by (simp_all add: grouped_def Let_def)
  have "after (dget (rs_watermark rs) sy) ?e" using rs(4) le by (auto simp: after_def split: option.splits)
  note run = feed_tick_known [OF t rs(1) this]
  have ne: "in_interval n ?l ts \<noteq> []" using ts by (auto simp: in_interval_def filter_empty_conv)
  have st: "pb_start ?p = ?l - n" by (simp add: open_bar_def candle_def)
  show ?thesis
  proof (cases "?e = ?l")
    case True
    have "roll_over sy (?e - n) rs = ([], rs)" using rs(3) True st by (simp add: roll_over_def)
    with True run rs ne show ?thesis
      by (auto simp: fold_in_def Let_def grouped_def in_interval_def candle_snoc)
  next
    case False
    with le have lt: "?l < ?e" by simp
    obtain ob rs1 where f: "finalize_bar sy ?p rs = (ob, rs1)" by fastforce
    have "roll_over sy (?e - n) rs = ([ob], rs1)" using rs(3) lt st f by (simp add: roll_over_def)
    moreover have "ob = candle sy tf ?l (in_interval n ?l ts)"
      using finalize_candle [OF rs(2), of sy n ?l "in_interval n ?l ts"] f by simp
    moreover have "rs1 = snd (finalize_bar sy ?p rs)" using f by simp
    moreover have "in_interval n ?e ts = []"
      using below lt by (auto simp: in_interval_def filter_empty_conv)
    ultimately show ?thesis using False run rs lt
      by (auto simp: fold_in_def Let_def grouped_def in_interval_def candle_one finalize_bar_def count_emitted_def
          after_def open_bar_def candle_def)
  qed
qed

lemma finished_snoc:
  assumes "ts \<noteq> []" and "\<forall>u \<in> set ts. tick_end n u \<le> tick_end n (last ts)" and "tick_end n (last ts) \<le> tick_end n t"
  shows "finished_ends n (ts @ [t]) =
    (if tick_end n t = tick_end n (last ts) then finished_ends n ts else finished_ends n ts @ [tick_end n (last ts)])"
proof (cases "tick_end n t = tick_end n (last ts)")
  case True
  have "tick_end n (last ts) \<in> tick_end n ` set ts" using assms(1) by simp
  with True show ?thesis by (simp add: finished_ends_def insert_absorb)
next
  case False
  let ?A = "tick_end n ` set ts" and ?l = "tick_end n (last ts)"
  from False assms(3) have lt: "?l < tick_end n t" by simp
  have "tick_end n t \<notin> ?A" using assms(2) lt by (auto simp: not_le [symmetric])
  then have "insert (tick_end n t) ?A - {tick_end n t} = insert ?l (?A - {?l})" using assms(1) by auto
  moreover have "\<forall>a \<in> ?A - {?l}. a < ?l" using assms(2) by force
  ultimately show ?thesis using False sorted_list_insert_max [of "?A - {?l}" ?l] by (simp add: finished_ends_def)
qed

lemma in_interval_snoc: "e \<noteq> tick_end n t \<Longrightarrow> in_interval n e (ts @ [t]) = in_interval n e ts"
  by (simp add: in_interval_def)

lemma feed_ticks:
  assumes "new_resampler tf = Inr rs0" and "timeframe_to_seconds tf = Inr n"
  shows "ts \<noteq> [] \<Longrightarrow> list_all (tick_ok sy) ts \<Longrightarrow> sorted (map (tick_end n) ts) \<Longrightarrow>
   \<exists>rs. grouped sy tf n ts rs \<and>
     feed_all (map Tick ts) rs0 = Inr (map (\<lambda>e. candle sy tf e (in_interval n e ts)) (finished_ends n ts), rs)"
proof (induction ts rule: rev_induct)
  case (snoc t ts)
  note r = new_resampler_facts [OF assms(1)]
  have n: "rs_seconds rs0 = n" using r(3) assms(2) by simp
  from snoc.prems have ok: "list_all (tick_ok sy) ts" "tick_ok sy t" "sorted (map (tick_end n) ts)"
    and up: "\<forall>u \<in> set ts. tick_end n u \<le> tick_end n t" by (auto simp: sorted_append)
  show ?case
  proof (cases "ts = []")
    case True
    have "after (dget (rs_watermark rs0) sy) (tick_end n t)" by (simp add: r(5) after_def)
    with feed_tick_known [OF ok(2) n] have "feed_tick t rs0 = Inr ([], rs0\<lparr>rs_partial := [(sy,
        open_bar n (candle sy tf (tick_end n t) [t]))]\<rparr>)"
      by (simp add: roll_over_def r(4) fold_in_def candle_one Let_def)
    with True n r show ?thesis
      by (simp add: feed_native_def grouped_def in_interval_def finished_ends_def after_def)
  next
    case False
    have "\<forall>u \<in> set ts. tick_end n u \<le> tick_end n (last ts)"
    proof
      fix u assume "u \<in> set ts"
      then obtain i where "i < length ts" "ts ! i = u" by (auto simp: in_set_conv_nth)
      with sorted_nth_mono [OF ok(3), of i "length ts - 1"] False
      show "tick_end n u \<le> tick_end n (last ts)" by (simp add: last_conv_nth)
    qed
    note below = this
    from snoc.IH [OF False ok(1,3)] obtain rs where g: "grouped sy tf n ts rs"
      and run: "feed_all (map Tick ts) rs0 =
        Inr (map (\<lambda>e. candle sy tf e (in_interval n e ts)) (finished_ends n ts), rs)" by blast
    have le: "tick_end n (last ts) \<le> tick_end n t" using up False by simp
    from tick_grouped [OF g False ok(2) le below] obtain rs' where g': "grouped sy tf n (ts @ [t]) rs'"
      and one: "feed_tick t rs = Inr (if tick_end n t = tick_end n (last ts) then []
        else [candle sy tf (tick_end n (last ts)) (in_interval n (tick_end n (last ts)) ts)], rs')" by blast
    have old: "e \<noteq> tick_end n t" if "e \<in> set (finished_ends n ts)" for e
      using that below le by (force simp: finished_ends_def)
    have "map (\<lambda>e. candle sy tf e (in_interval n e (ts @ [t]))) (finished_ends n ts) =
        map (\<lambda>e. candle sy tf e (in_interval n e ts)) (finished_ends n ts)"
      using old by (auto simp: in_interval_snoc)
    with feed_all_append [OF run, of "[Tick t]"] one g' finished_snoc [OF False below le] show ?thesis
      by (auto simp: feed_native_def in_interval_snoc)
  qed
qed simp

text \<open>C23. Ticks that come in order are grouped exactly: the bars that leave are, for every interval that has
  ticks except the last one, the candle of the ticks of that interval; an interval without ticks has no bar,
  and the last one stays open.\<close>

theorem ordered_ticks_are_grouped_exactly:
  assumes "new_resampler tf = Inr rs0" and "timeframe_to_seconds tf = Inr n" and "list_all (tick_ok sy) ts"
    and "sorted (map (tick_end n) ts)" and "ts \<noteq> []"
  shows "\<exists>rs. feed_all (map Tick ts) rs0 =
    Inr (map (\<lambda>e. candle sy tf e (in_interval n e ts)) (finished_ends n ts), rs)"
  using feed_ticks [OF assms(1,2,5,3,4)] by blast

section \<open>Late events\<close>

text \<open>C24. A late tick enters the wrong bar: a tick of an interval that ended before the open bar began is not
  dropped while no bar has left since that interval; its price becomes the close of the open bar, inside its
  range, and its size is added to the volume.\<close>

theorem late_tick_enters_the_open_bar:
  assumes "dget (rs_partial rs) (tick_symbol t) = Some p" and "to_epoch (tick_timestamp t) = Inr x"
    and "snd (interval_for rs x) \<le> pb_start p" and "0 < rs_seconds rs"
    and "\<not> is_late rs (tick_symbol t) (snd (interval_for rs x))"
  shows "\<exists>rs' p'. feed_tick t rs = Inr ([], rs') \<and> dget (rs_partial rs') (tick_symbol t) = Some p' \<and>
    pb_start p' = pb_start p \<and> pb_close p' = tick_price t \<and> pb_low p' \<le> tick_price t \<and> tick_price t \<le> pb_high p' \<and>
    pb_volume p' = pb_volume p + tick_size t \<and> rs_dropped rs' = rs_dropped rs"
proof -
  have "\<not> pb_start p < fst (interval_for rs x)"
    using assms(3,4) by (simp add: interval_for_def Let_def)
  with assms(1,2,5) show ?thesis
    by (simp add: feed_tick_def roll_over_def fold_in_def Let_def)
qed

definition demo_ts :: "string \<Rightarrow> rat \<Rightarrow> native_tick" where
  "demo_ts clock price =
     \<lparr>tick_timestamp = ''2024-01-02T'' @ clock @ ''Z'', tick_symbol = ''A'', tick_price = price, tick_size = 1\<rparr>"

definition demo_nb :: "string \<Rightarrow> rat \<Rightarrow> native_bar" where
  "demo_nb clock price =
     \<lparr>nb_timestamp = ''2024-01-02T'' @ clock @ ''Z'', nb_symbol = ''A'', nb_timeframe = ''1m'', nb_open = price,
      nb_high = price + 1, nb_low = price - 1, nb_close = price, nb_volume = 1\<rparr>"

definition minute_resampler :: resampler where
  "minute_resampler = (case new_resampler ''1m'' of Inr rs \<Rightarrow> rs | Inl _ \<Rightarrow> undefined)"

definition feed_or :: "native_event list \<Rightarrow> resampler \<Rightarrow> out_bar list \<times> resampler" where
  "feed_or evs rs = (case feed_all evs rs of Inr r \<Rightarrow> r | Inl _ \<Rightarrow> ([], rs))"

lemma minute_facts:
  "new_resampler ''1m'' = Inr minute_resampler" "timeframe_to_seconds ''1m'' = Inr 60"
  by (simp_all add: minute_resampler_def new_resampler_def timeframe_to_seconds_def timeframe_table_def)

definition midnight :: int where
  "midnight = (738887 - 719163) * 86400"

text \<open>A feed that mixes ticks with bars of the target timeframe goes back in time: the bar that passes
  through first pushes out the open one, which ends later.\<close>

theorem mixed_feed_goes_back:
  "map out_end (fst (feed_or [Tick (demo_ts ''00:01:10'' 100), NBar (demo_nb ''00:01:00'' 90)] minute_resampler)) =
     [midnight + 120, midnight + 60]"
  by code_simp

section \<open>Witnesses\<close>

definition demo_ticks :: "native_tick list" where
  "demo_ticks = [demo_ts ''00:00:05'' 10, demo_ts ''00:00:50'' 12, demo_ts ''00:03:10'' 11]"

definition demo_feed :: "out_bar list \<times> resampler" where
  "demo_feed = feed_or (map Tick demo_ticks) minute_resampler"

lemma demo_feed_runs:
  "feed_all (map Tick demo_ticks) minute_resampler = Inr (fst demo_feed, snd demo_feed)"
  "map out_end (fst demo_feed) = [midnight + 60]" "map out_high (fst demo_feed) = [12]"
  by code_simp+

theorem resampled_bars_are_bars_witness:
  "\<exists>ob. fst demo_feed = [ob] \<and> out_low ob \<le> out_close ob \<and> 60 dvd out_end ob"
proof -
  obtain ob where ob: "fst demo_feed = [ob]" using demo_feed_runs(2) by (cases "fst demo_feed") auto
  have "list_all event_ok (map Tick demo_ticks)" by (simp add: demo_ticks_def event_ok_def)
  from resampled_bars_are_bars [OF minute_facts(1) demo_feed_runs(1) this, of ob] ob minute_facts(2)
  show ?thesis by (auto simp: ohlc_wf_def)
qed

definition demo_next :: "out_bar list \<times> resampler" where
  "demo_next = feed_or [Tick (demo_ts ''00:04:00'' 9)] (snd demo_feed)"

theorem bars_leave_finished_and_in_order_witness:
  "sorted_wrt (<) (ends_of ''A'' (fst demo_feed @ fst demo_next)) \<and> map out_end (fst demo_next) = [midnight + 240]"
proof -
  have n: "feed_native (Tick (demo_ts ''00:04:00'' 9)) (snd demo_feed) = Inr (fst demo_next, snd demo_next)"
    "map out_end (fst demo_next) = [midnight + 240]" by code_simp+
  have "list_all event_ok (Tick (demo_ts ''00:04:00'' 9) # map Tick demo_ticks)"
    "\<forall>e \<in> set (Tick (demo_ts ''00:04:00'' 9) # map Tick demo_ticks). \<not> passes minute_resampler e"
    by (simp_all add: demo_ticks_def event_ok_def passes_def)
  from bars_leave_finished_and_in_order [OF minute_facts(1) demo_feed_runs(1) n(1) this] n(2) show ?thesis by blast
qed

theorem ordered_ticks_are_grouped_exactly_witness:
  "\<exists>rs. feed_all (map Tick demo_ticks) minute_resampler =
     Inr ([candle ''A'' ''1m'' (midnight + 60) [demo_ts ''00:00:05'' 10, demo_ts ''00:00:50'' 12]], rs)"
proof -
  have "list_all (tick_ok ''A'') demo_ticks"
  proof -
    have "list_all (\<lambda>t. tick_symbol t = ''A'' \<and> (case to_epoch (tick_timestamp t) of Inl _ \<Rightarrow> False | Inr _ \<Rightarrow> True)) demo_ticks"
      by code_simp
    then show ?thesis by (rule list.pred_mono_strong) (auto simp: tick_ok_def split: sum.splits)
  qed
  moreover have "sorted (map (tick_end 60) demo_ticks)" "demo_ticks \<noteq> []"
    "finished_ends 60 demo_ticks = [midnight + 60]"
    "in_interval 60 (midnight + 60) demo_ticks = [demo_ts ''00:00:05'' 10, demo_ts ''00:00:50'' 12]" by code_simp+
  ultimately show ?thesis using ordered_ticks_are_grouped_exactly [OF minute_facts] by fastforce
qed

definition late_state :: resampler where
  "late_state = snd (feed_or [Tick (demo_ts ''00:01:10'' 100)] minute_resampler)"

theorem late_tick_enters_the_open_bar_witness:
  "\<exists>rs' p'. feed_tick (demo_ts ''00:00:30'' 50) late_state = Inr ([], rs') \<and>
     dget (rs_partial rs') ''A'' = Some p' \<and> pb_start p' = midnight + 60 \<and> pb_close p' = 50"
proof -
  obtain p where p: "dget (rs_partial late_state) ''A'' = Some p" "pb_start p = midnight + 60"
  proof -
    have "map_option pb_start (dget (rs_partial late_state) ''A'') = Some (midnight + 60)" by code_simp
    then show thesis using that by auto
  qed
  have x: "to_epoch (tick_timestamp (demo_ts ''00:00:30'' 50)) = Inr (of_int midnight + 30)"
    "tick_symbol (demo_ts ''00:00:30'' 50) = ''A''" "tick_price (demo_ts ''00:00:30'' 50) = 50" by code_simp+
  have i: "snd (interval_for late_state (of_int midnight + 30)) = midnight + 60" "0 < rs_seconds late_state"
    "\<not> is_late late_state ''A'' (midnight + 60)" by code_simp+
  from late_tick_enters_the_open_bar [of late_state "demo_ts ''00:00:30'' 50" p] p x i show ?thesis by force
qed

end
