(* ===== verification/WalkForward.thy ===== *)
theory WalkForward
  imports FillSim
begin

text \<open>
  Purged walk-forward folds (\<^verbatim>\<open>backend/agents/investment_team/execution/walk_forward.py\<close>) and the choice
  of their cushions in \<^verbatim>\<open>strategy_lab/orchestrator.py\<close>. A \<open>date\<close> is its proleptic ordinal (1 is
  0001-01-01), so \<open>date.weekday()\<close> is a remainder and adding a \<open>timedelta\<close> an addition that overflows
  outside 0001-01-01 .. 9999-12-31. Trades are the \<open>trade_record\<close>s of the fill simulator.
\<close>

section \<open>Dates\<close>

datatype fold_error = BadValue string | DateOverflow

datatype date_like = DateText string | DateVal int

definition date_fromisoformat :: "string \<Rightarrow> fold_error + int" where
  "date_fromisoformat s =
     (case parse_date s of Some (d, []) \<Rightarrow> Inr d | _ \<Rightarrow> Inl (BadValue ''Invalid isoformat string''))"

definition as_date :: "date_like \<Rightarrow> fold_error + int" where
  "as_date d = (case d of DateVal n \<Rightarrow> Inr n | DateText s \<Rightarrow> date_fromisoformat (take 10 s))"

definition max_ordinal :: int where
  "max_ordinal = 3652059"

text \<open>\<open>d + timedelta(days=k)\<close>: the delta and the date are both bounded.\<close>

definition add_days :: "int \<Rightarrow> int \<Rightarrow> fold_error + int" where
  "add_days d k =
     (if \<bar>k\<bar> \<le> 999999999 \<and> 1 \<le> d + k \<and> d + k \<le> max_ordinal then Inr (d + k) else Inl DateOverflow)"

definition weekday :: "int \<Rightarrow> int" where
  "weekday d = (d + 6) mod 7"

function weekday_range :: "int \<Rightarrow> int \<Rightarrow> fold_error + int list" where
  "weekday_range d e =
     (if d \<le> e
      then (case add_days d 1 of
              Inl x \<Rightarrow> Inl x
            | Inr d' \<Rightarrow> map_sum id (if weekday d < 5 then (#) d else id) (weekday_range d' e))
      else Inr [])"
  by pat_completeness auto
termination
  by (relation "measure (\<lambda>(d, e). nat (e - d + 1))") (auto simp: add_days_def split: if_splits)

declare weekday_range.simps [simp del]

section \<open>Folds\<close>

record date_range =
  dr_start :: int
  dr_end :: int

definition range_contains :: "date_range \<Rightarrow> int \<Rightarrow> bool" where
  "range_contains r d \<longleftrightarrow> dr_start r \<le> d \<and> d \<le> dr_end r"

record walk_fold =
  fold_index :: nat
  train_ranges :: "date_range list"
  test_range :: date_range

definition test_start :: "walk_fold \<Rightarrow> int" where
  "test_start f = dr_start (test_range f)"

definition test_end :: "walk_fold \<Rightarrow> int" where
  "test_end f = dr_end (test_range f)"

definition block :: "int list \<Rightarrow> nat \<Rightarrow> nat \<Rightarrow> int \<times> int" where
  "block ws k i = (let n = length ws in (ws ! (n * i div k), ws ! (n * (i + 1) div k - 1)))"

definition build_fold :: "int \<Rightarrow> int \<Rightarrow> int list \<Rightarrow> nat \<Rightarrow> int \<Rightarrow> int \<Rightarrow> nat \<Rightarrow> fold_error + walk_fold" where
  "build_fold s e ws k embargo purge i =
     (let (t0, t1) = block ws k i
      in case add_days t0 (- (purge + 1)) of
           Inl x \<Rightarrow> Inl x
         | Inr pre_end \<Rightarrow>
             (case add_days t1 (embargo + 1) of
                Inl x \<Rightarrow> Inl x
              | Inr post_start \<Rightarrow>
                  Inr \<lparr>fold_index = i,
                       train_ranges =
                         (if s \<le> pre_end then [\<lparr>dr_start = s, dr_end = pre_end\<rparr>] else []) @
                         (if post_start \<le> e then [\<lparr>dr_start = post_start, dr_end = e\<rparr>] else []),
                       test_range = \<lparr>dr_start = t0, dr_end = t1\<rparr>\<rparr>))"

fun build_loop :: "int \<Rightarrow> int \<Rightarrow> int list \<Rightarrow> nat \<Rightarrow> int \<Rightarrow> int \<Rightarrow> nat list \<Rightarrow> fold_error + walk_fold list" where
  "build_loop s e ws k embargo purge [] = Inr []"
| "build_loop s e ws k embargo purge (i # is) =
     (case build_fold s e ws k embargo purge i of
        Inl x \<Rightarrow> Inl x
      | Inr f \<Rightarrow> map_sum id ((#) f) (build_loop s e ws k embargo purge is))"

definition build_purged_walk_forward ::
  "date_like \<Rightarrow> date_like \<Rightarrow> int \<Rightarrow> int \<Rightarrow> int \<Rightarrow> fold_error + walk_fold list" where
  "build_purged_walk_forward start finish k_folds embargo_days purge_hold_days =
     (if k_folds < 1 then Inl (BadValue ''k_folds must be >= 1'')
      else if embargo_days < 0 then Inl (BadValue ''embargo_days must be non-negative'')
      else if purge_hold_days < 0 then Inl (BadValue ''purge_hold_days must be non-negative'')
      else (case as_date start of
              Inl x \<Rightarrow> Inl x
            | Inr s \<Rightarrow>
                (case as_date finish of
                   Inl x \<Rightarrow> Inl x
                 | Inr e \<Rightarrow>
                     if e < s then Inl (BadValue ''end precedes start'')
                     else (case weekday_range s e of
                             Inl x \<Rightarrow> Inl x
                           | Inr ws \<Rightarrow>
                               if int (length ws) < k_folds then Inl (BadValue ''span is too short'')
                               else build_loop s e ws (nat k_folds) embargo_days purge_hold_days
                                      [0..<nat k_folds]))))"

section \<open>Trades\<close>

text \<open>Both filters stop at the first exit date that does not parse.\<close>

fun keep_by_exit :: "(int \<Rightarrow> bool) \<Rightarrow> trade_record list \<Rightarrow> fold_error + trade_record list" where
  "keep_by_exit P [] = Inr []"
| "keep_by_exit P (t # ts) =
     (case as_date (DateText (tr_exit_date t)) of
        Inl x \<Rightarrow> Inl x
      | Inr d \<Rightarrow> map_sum id (if P d then (#) t else id) (keep_by_exit P ts))"

definition filter_trades_in_range ::
  "trade_record list \<Rightarrow> date_like \<Rightarrow> date_like \<Rightarrow> fold_error + trade_record list" where
  "filter_trades_in_range ts start finish =
     (case as_date start of
        Inl x \<Rightarrow> Inl x
      | Inr s \<Rightarrow>
          (case as_date finish of
             Inl x \<Rightarrow> Inl x
           | Inr e \<Rightarrow> keep_by_exit (\<lambda>d. s \<le> d \<and> d \<le> e) ts))"

definition filter_trades_in_fold_training :: "trade_record list \<Rightarrow> walk_fold \<Rightarrow> fold_error + trade_record list" where
  "filter_trades_in_fold_training ts f = keep_by_exit (\<lambda>d. list_ex (\<lambda>r. range_contains r d) (train_ranges f)) ts"

definition max_hold_days_from_trades :: "trade_record list \<Rightarrow> int" where
  "max_hold_days_from_trades ts = (case map tr_hold_days ts of [] \<Rightarrow> 0 | h # hs \<Rightarrow> foldl max h hs)"

section \<open>The cushions of the evaluation\<close>

definition evaluation_folds ::
  "trade_record list \<Rightarrow> string \<Rightarrow> string \<Rightarrow> int \<Rightarrow> int \<Rightarrow> fold_error + walk_fold list" where
  "evaluation_folds trades start_date end_date n_folds embargo_days =
     (let purge = max_hold_days_from_trades trades;
          embargo = (if embargo_days > 0 then embargo_days else purge)
      in build_purged_walk_forward (DateText start_date) (DateText end_date) n_folds embargo purge)"

text \<open>The trades a fold is judged on and the trades it is compared with.\<close>

definition fold_trades :: "trade_record list \<Rightarrow> walk_fold \<Rightarrow> fold_error + (trade_record list \<times> trade_record list)" where
  "fold_trades trades f =
     (case filter_trades_in_range trades (DateVal (test_start f)) (DateVal (test_end f)) of
        Inl x \<Rightarrow> Inl x
      | Inr oos \<Rightarrow> map_sum id (Pair oos) (filter_trades_in_fold_training trades f))"

end
