(* ===== verification/WalkProps.thy ===== *)
theory WalkProps
  imports WalkForward
begin

text \<open>
  Properties of the walk-forward folds: the test blocks tile the weekdays of the span, the training
  segments are the purged complement, exactly when a construction raises, and when no training trade
  overlaps the test block.
\<close>

section \<open>Weekdays\<close>

definition weekdays :: "int \<Rightarrow> int \<Rightarrow> int list" where
  "weekdays s e = filter (\<lambda>d. weekday d < 5) [s..e]"

lemma weekdays_step: "s \<le> e \<Longrightarrow> weekdays s e = (if weekday s < 5 then (#) s else id) (weekdays (s + 1) e)"
  by (simp add: weekdays_def upto_rec1)

lemma weekdays_empty: "e < s \<Longrightarrow> weekdays s e = []"
  by (simp add: weekdays_def)

lemma add_days_Inr: "add_days d k = Inr d' \<longleftrightarrow> d' = d + k \<and> \<bar>k\<bar> \<le> 999999999 \<and> 1 \<le> d + k \<and> d + k \<le> max_ordinal"
  by (auto simp: add_days_def)

lemma add_days_cases:
  obtains "add_days d k = Inl DateOverflow" | "add_days d k = Inr (d + k)"
  by (cases "\<bar>k\<bar> \<le> 999999999 \<and> 1 \<le> d + k \<and> d + k \<le> max_ordinal") (auto simp: add_days_def)

lemma weekday_range_eq:
  "0 \<le> s \<Longrightarrow> weekday_range s e = (if s \<le> e \<and> max_ordinal \<le> e then Inl DateOverflow else Inr (weekdays s e))"
proof (induction s e rule: weekday_range.induct)
  case (1 d e)
  show ?case
  proof (cases "d \<le> e")
    case True
    show ?thesis
    proof (cases "d < max_ordinal")
      case True2: True
      then have a: "add_days d 1 = Inr (d + 1)" using "1.prems" by (simp add: add_days_def)
      have "weekday_range (d + 1) e = (if d + 1 \<le> e \<and> max_ordinal \<le> e then Inl DateOverflow else Inr (weekdays (d + 1) e))"
        using "1.IH" [OF True a] "1.prems" by simp
      with True True2 a show ?thesis
        by (subst weekday_range.simps) (simp add: weekdays_step)
    next
      case False
      then have "add_days d 1 = Inl DateOverflow" by (simp add: add_days_def)
      with True False show ?thesis by (subst weekday_range.simps) simp
    qed
  next
    case False
    then show ?thesis by (subst weekday_range.simps) (simp add: weekdays_empty)
  qed
qed

lemma weekday_range_Inr: "weekday_range s e = Inr ws \<Longrightarrow> ws = weekdays s e"
proof (induction s e arbitrary: ws rule: weekday_range.induct)
  case (1 d e)
  show ?case
  proof (cases "d \<le> e")
    case True
    with "1.prems" obtain ws' where a: "add_days d 1 = Inr (d + 1)" and r: "weekday_range (d + 1) e = Inr ws'"
      and w: "ws = (if weekday d < 5 then (#) d else id) ws'"
      by (subst (asm) weekday_range.simps) (rule add_days_cases [of d 1], auto simp: map_sum_eq_Inr)
    from "1.IH" [OF True a r] w True show ?thesis by (simp add: weekdays_step)
  next
    case False
    with "1.prems" show ?thesis by (subst (asm) weekday_range.simps) (simp add: weekdays_empty)
  qed
qed

lemma weekdays_sorted: "sorted_wrt (<) (weekdays s e)"
  by (simp add: weekdays_def sorted_wrt_filter)

lemma weekdays_in_span: "d \<in> set (weekdays s e) \<longleftrightarrow> s \<le> d \<and> d \<le> e \<and> weekday d < 5"
  by (auto simp: weekdays_def)

section \<open>Blocks of a sorted list\<close>

definition cut :: "nat \<Rightarrow> nat \<Rightarrow> nat \<Rightarrow> nat" where
  "cut n k i = n * i div k"

lemma cut_0 [simp]: "cut n k 0 = 0"
  by (simp add: cut_def)

lemma cut_end [simp]: "0 < k \<Longrightarrow> cut n k k = n"
  by (simp add: cut_def)

lemma cut_mono: "i \<le> j \<Longrightarrow> cut n k i \<le> cut n k j"
  by (simp add: cut_def div_le_mono)

lemma cut_step: "0 < k \<Longrightarrow> cut n k (Suc i) \<in> {cut n k i + n div k, cut n k i + n div k + 1}"
proof -
  assume k: "0 < k"
  have "cut n k (Suc i) = cut n k i + n div k + (n * i mod k + n mod k) div k"
    using div_add1_eq [of "n * i" n k] by (simp add: cut_def add.commute)
  moreover have "(n * i mod k + n mod k) div k \<le> 1"
  proof -
    have "n * i mod k + n mod k < 2 * k" using k by (simp add: add_strict_mono mult_2)
    then have "(n * i mod k + n mod k) div k < 2" using k by (simp add: div_less_iff_less_mult mult.commute)
    then show ?thesis by simp
  qed
  ultimately show ?thesis by (cases "(n * i mod k + n mod k) div k") auto
qed

lemma cut_strict: "0 < k \<Longrightarrow> k \<le> n \<Longrightarrow> cut n k i < cut n k (Suc i)"
  using cut_step [of k n i] div_le_mono [of k n k] by fastforce

lemma filter_slice:
  assumes "sorted_wrt (<) (ws :: int list)" and "lo < hi" and "hi \<le> length ws"
  shows "filter (\<lambda>d. ws ! lo \<le> d \<and> d \<le> ws ! (hi - 1)) ws = take (hi - lo) (drop lo ws)"
proof -
  have split: "ws = take lo ws @ take (hi - lo) (drop lo ws) @ drop hi ws"
    using assms(2) by (metis append_take_drop_id drop_drop le_add_diff_inverse2 less_imp_le)
  have lt: "i < j \<Longrightarrow> j < length ws \<Longrightarrow> ws ! i < ws ! j" for i j
    using assms(1) by (simp add: sorted_wrt_iff_nth_less)
  have le: "i \<le> j \<Longrightarrow> j < length ws \<Longrightarrow> ws ! i \<le> ws ! j" for i j
    using lt [of i j] by (cases "i = j") auto
  have before: "d < ws ! lo" if "d \<in> set (take lo ws)" for d
    using that lt assms(2,3) by (auto simp: in_set_conv_nth)
  have behind: "ws ! (hi - 1) < d" if d: "d \<in> set (drop hi ws)" for d
  proof -
    from d obtain j where "j < length ws - hi" and "d = ws ! (hi + j)" by (auto simp: in_set_conv_nth)
    with lt [of "hi - 1" "hi + j"] assms(2,3) show ?thesis by simp
  qed
  have "filter (\<lambda>d. ws ! lo \<le> d \<and> d \<le> ws ! (hi - 1)) (take lo ws) = []"
    using before by (force simp: filter_empty_conv)
  moreover have "filter (\<lambda>d. ws ! lo \<le> d \<and> d \<le> ws ! (hi - 1)) (drop hi ws) = []"
    using behind by (force simp: filter_empty_conv)
  moreover have "filter (\<lambda>d. ws ! lo \<le> d \<and> d \<le> ws ! (hi - 1)) (take (hi - lo) (drop lo ws)) = take (hi - lo) (drop lo ws)"
    using le assms(2,3) by (auto simp: filter_id_conv in_set_conv_nth)
  ultimately show ?thesis by (subst split) (simp del: append_take_drop_id)
qed

lemma slices_join:
  assumes "\<And>i. b i \<le> b (Suc i)" and "b 0 = 0"
  shows "concat (map (\<lambda>i. take (b (Suc i) - b i) (drop (b i) ws)) [0..<m]) = take (b m) ws"
proof (induction m)
  case (Suc m)
  have "take (b (Suc m)) ws = take (b m) ws @ take (b (Suc m) - b m) (drop (b m) ws)"
    using assms(1) [of m] by (metis le_add_diff_inverse take_add)
  with Suc show ?case by simp
qed (simp add: assms(2))

section \<open>The folds of a construction\<close>

definition train_of :: "int \<Rightarrow> int \<Rightarrow> int \<Rightarrow> int \<Rightarrow> date_range list" where
  "train_of s e a b =
     (if s \<le> a then [\<lparr>dr_start = s, dr_end = a\<rparr>] else []) @ (if b \<le> e then [\<lparr>dr_start = b, dr_end = e\<rparr>] else [])"

definition pure_fold :: "int \<Rightarrow> int \<Rightarrow> int list \<Rightarrow> nat \<Rightarrow> int \<Rightarrow> int \<Rightarrow> nat \<Rightarrow> walk_fold" where
  "pure_fold s e ws k embargo purge i =
     (let (t0, t1) = block ws k i
      in \<lparr>fold_index = i, train_ranges = train_of s e (t0 - (purge + 1)) (t1 + (embargo + 1)),
          test_range = \<lparr>dr_start = t0, dr_end = t1\<rparr>\<rparr>)"

definition fold_fits :: "int list \<Rightarrow> nat \<Rightarrow> int \<Rightarrow> int \<Rightarrow> nat \<Rightarrow> bool" where
  "fold_fits ws k embargo purge i \<longleftrightarrow>
     add_days (fst (block ws k i)) (- (purge + 1)) \<noteq> Inl DateOverflow \<and>
     add_days (snd (block ws k i)) (embargo + 1) \<noteq> Inl DateOverflow"

lemma build_fold_eq:
  "build_fold s e ws k embargo purge i =
     (if fold_fits ws k embargo purge i then Inr (pure_fold s e ws k embargo purge i) else Inl DateOverflow)"
  by (rule add_days_cases [of "fst (block ws k i)" "- (purge + 1)"];
      rule add_days_cases [of "snd (block ws k i)" "embargo + 1"])
    (simp_all add: build_fold_def fold_fits_def pure_fold_def train_of_def case_prod_unfold Let_def)

lemma build_loop_eq:
  "build_loop s e ws k embargo purge is =
     (if \<forall>i \<in> set is. fold_fits ws k embargo purge i then Inr (map (pure_fold s e ws k embargo purge) is)
      else Inl DateOverflow)"
  by (induction "is") (auto simp: build_fold_eq)

text \<open>What a construction that returns has checked, and what it returns.\<close>

lemma build_Inr:
  assumes "build_purged_walk_forward start finish k embargo purge = Inr folds"
    and d: "as_date start = Inr s" "as_date finish = Inr e"
  shows "0 < nat k" and "0 \<le> embargo" and "0 \<le> purge" and "s \<le> e" and "nat k \<le> length (weekdays s e)"
    and "folds = map (pure_fold s e (weekdays s e) (nat k) embargo purge) [0..<nat k]"
    and "\<forall>i < nat k. fold_fits (weekdays s e) (nat k) embargo purge i"
proof -
  from assms show "0 < nat k" "0 \<le> embargo" "0 \<le> purge"
    unfolding build_purged_walk_forward_def by (auto split: if_splits)
  from assms obtain ws where w: "s \<le> e" "weekday_range s e = Inr ws" "\<not> int (length ws) < k"
    and b: "build_loop s e ws (nat k) embargo purge [0..<nat k] = Inr folds"
    unfolding build_purged_walk_forward_def by (auto split: if_splits sum.splits)
  have ws: "ws = weekdays s e" using weekday_range_Inr [OF w(2)] .
  from b show "folds = map (pure_fold s e (weekdays s e) (nat k) embargo purge) [0..<nat k]"
    and "\<forall>i < nat k. fold_fits (weekdays s e) (nat k) embargo purge i"
    by (auto simp: build_loop_eq ws split: if_splits)
  from w ws show "s \<le> e" "nat k \<le> length (weekdays s e)" by auto
qed

lemma block_eq: "block ws k i = (ws ! cut (length ws) k i, ws ! (cut (length ws) k (Suc i) - 1))"
  by (simp add: block_def cut_def Let_def)

lemma pure_fold_sel [simp]:
  "test_start (pure_fold s e ws k embargo purge i) = fst (block ws k i)"
  "test_end (pure_fold s e ws k embargo purge i) = snd (block ws k i)"
  "fold_index (pure_fold s e ws k embargo purge i) = i"
  "range_contains (test_range (pure_fold s e ws k embargo purge i)) d \<longleftrightarrow> fst (block ws k i) \<le> d \<and> d \<le> snd (block ws k i)"
  by (simp_all add: pure_fold_def test_start_def test_end_def range_contains_def case_prod_unfold Let_def)

lemma block_bounds:
  assumes "sorted_wrt (<) (ws :: int list)" and "0 < k" and "k \<le> length ws" and "i < k"
  shows "fst (block ws k i) \<in> set ws" and "snd (block ws k i) \<in> set ws" and "fst (block ws k i) \<le> snd (block ws k i)"
    and "j < k \<Longrightarrow> i < j \<Longrightarrow> snd (block ws k i) < fst (block ws k j)"
proof -
  have lt: "a < b \<Longrightarrow> b < length ws \<Longrightarrow> ws ! a < ws ! b" for a b
    using assms(1) by (simp add: sorted_wrt_iff_nth_less)
  have c: "cut (length ws) k i < cut (length ws) k (Suc i)" using cut_strict [OF assms(2,3)] .
  have m: "cut (length ws) k (Suc i) \<le> length ws"
    using cut_mono [of "Suc i" k "length ws" k] assms(2,4) by simp
  from c m show "fst (block ws k i) \<in> set ws" "snd (block ws k i) \<in> set ws" by (simp_all add: block_eq)
  show "fst (block ws k i) \<le> snd (block ws k i)"
    using c m lt [of "cut (length ws) k i" "cut (length ws) k (Suc i) - 1"]
    by (cases "cut (length ws) k i = cut (length ws) k (Suc i) - 1") (simp_all add: block_eq less_imp_le)
  show "snd (block ws k i) < fst (block ws k j)" if j: "j < k" "i < j"
  proof -
    have "cut (length ws) k (Suc i) \<le> cut (length ws) k j" using j by (intro cut_mono) simp
    moreover have "cut (length ws) k j < length ws"
      using cut_strict [OF assms(2,3), of j] cut_mono [of "Suc j" k "length ws" k] j assms(2) by simp
    ultimately show ?thesis using lt c by (simp add: block_eq)
  qed
qed

section \<open>Properties\<close>

definition block_days :: "int \<Rightarrow> int \<Rightarrow> walk_fold \<Rightarrow> int list" where
  "block_days s e f = filter (range_contains (test_range f)) (weekdays s e)"

lemma block_days_slice:
  assumes "0 < k" and "k \<le> length (weekdays s e)" and "i < k"
  shows "block_days s e (pure_fold s e (weekdays s e) k embargo purge i) =
    take (cut (length (weekdays s e)) k (Suc i) - cut (length (weekdays s e)) k i)
      (drop (cut (length (weekdays s e)) k i) (weekdays s e))"
proof -
  have "cut (length (weekdays s e)) k (Suc i) \<le> length (weekdays s e)"
    using cut_mono [of "Suc i" k _ k] assms(1,3) by (metis Suc_leI cut_end)
  note slice = filter_slice [OF weekdays_sorted cut_strict [OF assms(1,2)] this]
  have "range_contains (test_range (pure_fold s e (weekdays s e) k embargo purge i)) =
    (\<lambda>d. fst (block (weekdays s e) k i) \<le> d \<and> d \<le> snd (block (weekdays s e) k i))"
    by (rule ext) simp
  then show ?thesis unfolding block_days_def by (simp only: block_eq fst_conv snd_conv slice)
qed

text \<open>The test blocks tile the weekdays: together, in order, they hold every weekday of the span once; each
  holds the same number of them up to one, begins and ends on a weekday, and ends before the next begins.\<close>

theorem test_blocks_tile_the_weekdays:
  assumes "build_purged_walk_forward start finish k embargo purge = Inr folds"
    and "as_date start = Inr s" and "as_date finish = Inr e"
  shows "length folds = nat k \<and> concat (map (block_days s e) folds) = weekdays s e \<and>
    sorted_wrt (\<lambda>f g. test_end f < test_start g) folds \<and>
    (\<forall>f \<in> set folds. length (block_days s e f) \<in> {length (weekdays s e) div nat k, length (weekdays s e) div nat k + 1} \<and>
       {test_start f, test_end f} \<subseteq> set (weekdays s e) \<and> test_start f \<le> test_end f)"
proof -
  let ?ws = "weekdays s e"
  let ?c = "cut (length ?ws) (nat k)"
  note k = build_Inr(1) [OF assms(1-3)] and l = build_Inr(5) [OF assms(1-3)] and f = build_Inr(6) [OF assms(1-3)]
  have "concat (map (block_days s e) folds) = concat (map (\<lambda>i. take (?c (Suc i) - ?c i) (drop (?c i) ?ws)) [0..<nat k])"
    using block_days_slice [OF k l] by (auto simp: f intro!: arg_cong [of _ _ concat])
  also have "\<dots> = ?ws" using slices_join [of ?c ?ws "nat k"] k by (simp add: cut_mono)
  finally have tile: "concat (map (block_days s e) folds) = ?ws" .
  have sizes: "length (block_days s e g) \<in> {length ?ws div nat k, length ?ws div nat k + 1}"
    if "g \<in> set folds" for g
  proof -
    from that f obtain i where i: "i < nat k" and g: "g = pure_fold s e ?ws (nat k) embargo purge i" by auto
    have "?c (Suc i) \<le> length ?ws" using cut_mono [of "Suc i" "nat k" _ "nat k"] k i by (metis Suc_leI cut_end)
    then show ?thesis using cut_step [OF k, of "length ?ws" i] block_days_slice [OF k l i] g by auto
  qed
  have order: "sorted_wrt (\<lambda>f g. test_end f < test_start g) folds"
    unfolding f sorted_wrt_map
    by (rule sorted_wrt_mono_rel [OF _ sorted_wrt_upt]) (simp add: block_bounds(4) [OF weekdays_sorted k l])
  have ends: "{test_start g, test_end g} \<subseteq> set ?ws \<and> test_start g \<le> test_end g" if "g \<in> set folds" for g
    using that block_bounds(1,2,3) [OF weekdays_sorted k l] unfolding f by fastforce
  from tile sizes order ends show ?thesis by (simp add: f)
qed

lemma training_facts:
  assumes "build_purged_walk_forward start finish k embargo purge = Inr folds"
    and "as_date start = Inr s" and "as_date finish = Inr e" and "f \<in> set folds"
  shows "list_ex (\<lambda>r. range_contains r d) (train_ranges f) \<longleftrightarrow>
    s \<le> d \<and> d \<le> e \<and> (d + purge < test_start f \<or> test_end f + embargo < d)"
proof -
  let ?ws = "weekdays s e"
  note k = build_Inr(1) [OF assms(1-3)] and l = build_Inr(5) [OF assms(1-3)] and f = build_Inr(6) [OF assms(1-3)]
    and p = build_Inr(2,3) [OF assms(1-3)]
  from assms(4) f obtain i where i: "i < nat k" and g: "f = pure_fold s e ?ws (nat k) embargo purge i" by auto
  have "s \<le> fst (block ?ws (nat k) i)" "fst (block ?ws (nat k) i) \<le> e"
    "s \<le> snd (block ?ws (nat k) i)" "snd (block ?ws (nat k) i) \<le> e"
    using block_bounds(1,2) [OF weekdays_sorted k l i] by (auto simp: weekdays_in_span)
  with p show ?thesis
    by (auto simp: g pure_fold_def train_of_def range_contains_def test_start_def test_end_def case_prod_unfold Let_def)
qed

text \<open>C25. The training set is the purged complement: a date is in a training segment of a fold exactly when it
  lies in the span and more than the purge before the test block or more than the embargo after it.\<close>

theorem training_is_the_purged_complement:
  assumes "build_purged_walk_forward start finish k embargo purge = Inr folds"
    and "as_date start = Inr s" and "as_date finish = Inr e" and "f \<in> set folds"
  shows "list_ex (\<lambda>r. range_contains r d) (train_ranges f) \<longleftrightarrow>
    s \<le> d \<and> d \<le> e \<and> (d + purge < test_start f \<or> test_end f + embargo < d)"
  by (rule training_facts [OF assms])

definition cushions_fit :: "int \<Rightarrow> int \<Rightarrow> int list \<Rightarrow> bool" where
  "cushions_fit embargo purge ws \<longleftrightarrow>
     purge < 999999999 \<and> embargo < 999999999 \<and> purge + 1 < hd ws \<and> last ws + embargo < max_ordinal"

lemma sorted_ends:
  assumes "sorted_wrt (<) (ws :: int list)" and "w \<in> set ws"
  shows "hd ws \<le> w" and "w \<le> last ws"
  using assms by (induction ws) (auto simp: less_imp_le)

lemma all_folds_fit:
  assumes "sorted_wrt (<) ws" and "0 < k" and "k \<le> length ws" and "0 \<le> embargo" and "0 \<le> purge"
    and "\<forall>w \<in> set ws. 1 \<le> w \<and> w \<le> max_ordinal"
  shows "(\<forall>i < k. fold_fits ws k embargo purge i) \<longleftrightarrow> cushions_fit embargo purge ws"
proof -
  have fit: "fold_fits ws k embargo purge i \<longleftrightarrow> purge < 999999999 \<and> embargo < 999999999 \<and>
      purge + 1 < fst (block ws k i) \<and> snd (block ws k i) + embargo < max_ordinal" if "i < k" for i
    using block_bounds(1,2) [OF assms(1-3) that] assms(4-6) by (auto simp: fold_fits_def add_days_def)
  have ne: "ws \<noteq> []" using assms(2,3) by auto
  have first: "fst (block ws k 0) = hd ws" using ne by (simp add: block_eq hd_conv_nth)
  have last: "snd (block ws k (k - 1)) = last ws" using ne assms(2) by (simp add: block_eq last_conv_nth)
  show ?thesis
  proof
    assume a: "\<forall>i < k. fold_fits ws k embargo purge i"
    then have "fold_fits ws k embargo purge 0" "fold_fits ws k embargo purge (k - 1)" using assms(2) by auto
    with fit [of 0] fit [of "k - 1"] assms(2) first last show "cushions_fit embargo purge ws"
      by (simp add: cushions_fit_def)
  next
    assume a: "cushions_fit embargo purge ws"
    show "\<forall>i < k. fold_fits ws k embargo purge i"
    proof (intro allI impI)
      fix i assume i: "i < k"
      from sorted_ends(1) [OF assms(1) block_bounds(1) [OF assms(1-3) i]]
        sorted_ends(2) [OF assms(1) block_bounds(2) [OF assms(1-3) i]] a fit [OF i]
      show "fold_fits ws k embargo purge i" by (simp add: cushions_fit_def)
    qed
  qed
qed

text \<open>What a construction over real dates returns: it raises \<open>ValueError\<close> for a bad parameter, an empty span
  or too few weekdays, overflows when the span ends on the last date or a cushion leaves the calendar, and
  otherwise returns.\<close>

theorem construction_raises_exactly:
  assumes "as_date start = Inr s" and "as_date finish = Inr e" and "1 \<le> s" and "e \<le> max_ordinal"
  shows "((\<exists>m. build_purged_walk_forward start finish k embargo purge = Inl (BadValue m)) \<longleftrightarrow>
      k < 1 \<or> embargo < 0 \<or> purge < 0 \<or> e < s \<or> (e < max_ordinal \<and> int (length (weekdays s e)) < k)) \<and>
    ((\<exists>folds. build_purged_walk_forward start finish k embargo purge = Inr folds) \<longleftrightarrow>
      1 \<le> k \<and> 0 \<le> embargo \<and> 0 \<le> purge \<and> s \<le> e \<and> e < max_ordinal \<and> k \<le> int (length (weekdays s e)) \<and>
      cushions_fit embargo purge (weekdays s e))"
proof (cases "1 \<le> k \<and> 0 \<le> embargo \<and> 0 \<le> purge \<and> s \<le> e \<and> e < max_ordinal \<and> k \<le> int (length (weekdays s e))")
  case True
  let ?ws = "weekdays s e"
  have "weekday_range s e = Inr ?ws" using weekday_range_eq [of s e] assms(3) True by simp
  with True assms(1,2) have b: "build_purged_walk_forward start finish k embargo purge =
      build_loop s e ?ws (nat k) embargo purge [0..<nat k]"
    by (simp add: build_purged_walk_forward_def)
  have "(\<forall>i < nat k. fold_fits ?ws (nat k) embargo purge i) \<longleftrightarrow> cushions_fit embargo purge ?ws"
    using True assms(3,4) by (intro all_folds_fit weekdays_sorted) (auto simp: weekdays_in_span)
  with True b show ?thesis by (auto simp: build_loop_eq)
next
  case False
  then show ?thesis
    using assms weekday_range_eq [of s e] by (auto simp: build_purged_walk_forward_def)
qed

section \<open>Trades\<close>

lemma keep_by_exit_Inr:
  "keep_by_exit P ts = Inr ys \<Longrightarrow> t \<in> set ys \<longleftrightarrow> t \<in> set ts \<and> (\<exists>d. as_date (DateText (tr_exit_date t)) = Inr d \<and> P d)"
  by (induction ts arbitrary: ys) (auto simp: map_sum_eq_Inr split: sum.splits if_splits)

lemma foldl_max_ge: "x \<in> set (h # hs) \<Longrightarrow> x \<le> foldl max h hs" for h :: int
proof (induction hs arbitrary: h x)
  case (Cons a hs)
  have "max h a \<le> foldl max (max h a) hs" by (rule Cons.IH) simp
  then have "h \<le> foldl max (max h a) hs" "a \<le> foldl max (max h a) hs" by auto
  with Cons.IH [of x "max h a"] Cons.prems show ?case by auto
qed simp

lemma max_hold_ge: "t \<in> set ts \<Longrightarrow> tr_hold_days t \<le> max_hold_days_from_trades ts"
  by (cases ts) (auto simp: max_hold_days_from_trades_def intro!: foldl_max_ge)

lemma date_diff_as_date:
  "as_date (DateText a) = Inr x \<Longrightarrow> as_date (DateText b) = Inr y \<Longrightarrow> date_diff a b = \<bar>y - x\<bar>"
  by (auto simp: as_date_def date_fromisoformat_def date_diff_def split: option.splits prod.splits list.splits)

text \<open>C26. With the derived embargo, or a configured one no shorter than the longest trade, the training trades of
  a fold were wholly closed before its test block or opened after it: none overlaps it.\<close>

theorem no_training_trade_overlaps_the_test:
  assumes "evaluation_folds trades sd ed n embargo = Inr folds" and "f \<in> set folds"
    and "fold_trades trades f = Inr (oos, train)" and "t \<in> set train"
    and "as_date (DateText (tr_entry_date t)) = Inr a" and "as_date (DateText (tr_exit_date t)) = Inr x"
    and "a \<le> x" and "tr_hold_days t = date_diff (tr_entry_date t) (tr_exit_date t)"
    and "embargo \<le> 0 \<or> max_hold_days_from_trades trades \<le> embargo"
  shows "x < test_start f \<or> test_end f < a"
proof -
  let ?purge = "max_hold_days_from_trades trades"
  let ?embargo = "if embargo > 0 then embargo else ?purge"
  have b: "build_purged_walk_forward (DateText sd) (DateText ed) n ?embargo ?purge = Inr folds"
    using assms(1) by (simp add: evaluation_folds_def Let_def)
  then obtain s e where d: "as_date (DateText sd) = Inr s" "as_date (DateText ed) = Inr e"
    unfolding build_purged_walk_forward_def by (auto split: if_splits sum.splits)
  from assms(3) have tr: "filter_trades_in_fold_training trades f = Inr train"
    by (auto simp: fold_trades_def map_sum_eq_Inr split: sum.splits)
  from keep_by_exit_Inr [OF tr [unfolded filter_trades_in_fold_training_def], of t] assms(4,6)
  have t: "t \<in> set trades" "list_ex (\<lambda>r. range_contains r x) (train_ranges f)" by auto
  from training_facts [OF b d assms(2), of x] t(2) have "x + ?purge < test_start f \<or> test_end f + ?embargo < x" by simp
  moreover have "x - a \<le> ?purge" "0 \<le> ?purge"
    using max_hold_ge [OF t(1)] assms(5-8) date_diff_as_date [OF assms(5,6)] build_Inr(3) [OF b d] by auto
  ultimately show ?thesis using assms(9) by (auto split: if_splits)
qed

section \<open>Witnesses\<close>

definition dated_trade :: "string \<Rightarrow> string \<Rightarrow> trade_record" where
  "dated_trade a b =
     \<lparr>tr_trade_num = 1, tr_entry_date = a, tr_exit_date = b, tr_symbol = ''A'', tr_side = LONG, tr_entry_price = 10,
      tr_exit_price = 11, tr_shares = 1, tr_position_value = 10, tr_gross_pnl = 1, tr_net_pnl = 1, tr_return_pct = 10,
      tr_hold_days = date_diff a b, tr_win = True, tr_cumulative_pnl = 1, tr_entry_bid_price = 10,
      tr_exit_bid_price = 11, tr_entry_order_type = MARKET, tr_exit_order_type = MARKET,
      tr_participation_clipped = False, tr_partial_fill_count = 0, tr_total_unfilled_qty = 0,
      tr_entry_reason = None, tr_exit_reason = None\<rparr>"

definition january :: "int \<Rightarrow> int \<Rightarrow> walk_fold list" where
  "january embargo purge =
     (case build_purged_walk_forward (DateText ''2024-01-01'') (DateText ''2024-01-31'') 3 embargo purge of
        Inr fs \<Rightarrow> fs | Inl _ \<Rightarrow> [])"

definition winter_trades :: "trade_record list" where
  "winter_trades = [dated_trade ''2024-01-02'' ''2024-01-04'', dated_trade ''2024-01-19'' ''2024-01-24'']"

definition trades_of :: "walk_fold \<Rightarrow> trade_record list \<times> trade_record list" where
  "trades_of f = (case fold_trades winter_trades f of Inr r \<Rightarrow> r | Inl _ \<Rightarrow> ([], []))"

text \<open>A configured embargo shorter than the longest trade lets a training trade overlap the test block: the
  trade of five days that is entered on the last day of the second block, 19 January, is in the training set
  of that block when the embargo is one day.\<close>

theorem short_embargo_lets_test_trades_train:
  "map_sum id (\<lambda>fs. (test_start (fs ! 1), test_end (fs ! 1), map tr_entry_date (snd (trades_of (fs ! 1)))))
     (evaluation_folds winter_trades ''2024-01-01'' ''2024-01-31'' 3 1) =
   Inr (day_number 2024 1 10, day_number 2024 1 19, [''2024-01-02'', ''2024-01-19''])"
  by code_simp

definition jan_1 :: int where "jan_1 = day_number 2024 1 1"
definition jan_31 :: int where "jan_31 = day_number 2024 1 31"

lemma january_built:
  "build_purged_walk_forward (DateText ''2024-01-01'') (DateText ''2024-01-31'') 3 1 5 = Inr (january 1 5)"
  "as_date (DateText ''2024-01-01'') = Inr jan_1" "as_date (DateText ''2024-01-31'') = Inr jan_31"
  by code_simp+

definition derived_folds :: "walk_fold list" where
  "derived_folds = (case evaluation_folds winter_trades ''2024-01-01'' ''2024-01-31'' 3 0 of Inr fs \<Rightarrow> fs | Inl _ \<Rightarrow> [])"

lemma derived_built:
  "evaluation_folds winter_trades ''2024-01-01'' ''2024-01-31'' 3 0 = Inr derived_folds"
  "fold_trades winter_trades (derived_folds ! 1) = Inr (trades_of (derived_folds ! 1))"
  "snd (trades_of (derived_folds ! 1)) = [hd winter_trades]" "length derived_folds = 3"
  by code_simp+

theorem test_blocks_tile_the_weekdays_witness:
  "concat (map (block_days jan_1 jan_31) (january 1 5)) = weekdays jan_1 jan_31 \<and>
   map (length \<circ> block_days jan_1 jan_31) (january 1 5) = [7, 8, 8]"
proof
  from test_blocks_tile_the_weekdays [OF january_built]
  show "concat (map (block_days jan_1 jan_31) (january 1 5)) = weekdays jan_1 jan_31" by simp
  show "map (length \<circ> block_days jan_1 jan_31) (january 1 5) = [7, 8, 8]" by code_simp
qed

theorem training_is_the_purged_complement_witness:
  "\<not> list_ex (\<lambda>r. range_contains r (test_start (hd (january 1 5)))) (train_ranges (hd (january 1 5)))"
proof -
  have "hd (january 1 5) \<in> set (january 1 5)" by code_simp
  moreover have "test_start (hd (january 1 5)) \<le> test_end (hd (january 1 5))" by code_simp
  ultimately show ?thesis using training_is_the_purged_complement [OF january_built] by simp
qed

theorem construction_raises_exactly_witness:
  "\<exists>m. build_purged_walk_forward (DateVal 1) (DateVal 10) 0 0 0 = Inl (BadValue m)"
  by (subst conjunct1 [OF construction_raises_exactly [of "DateVal 1" 1 "DateVal 10" 10]])
    (simp_all add: as_date_def max_ordinal_def)

theorem no_training_trade_overlaps_the_test_witness:
  "day_number 2024 1 4 < test_start (derived_folds ! 1) \<or> test_end (derived_folds ! 1) < day_number 2024 1 2"
proof (rule no_training_trade_overlaps_the_test [OF derived_built(1), where t = "hd winter_trades"])
  show "derived_folds ! 1 \<in> set derived_folds" by (simp add: derived_built)
  show "fold_trades winter_trades (derived_folds ! 1) = Inr (fst (trades_of (derived_folds ! 1)), snd (trades_of (derived_folds ! 1)))"
    by (simp add: derived_built(2) del: One_nat_def)
  show "hd winter_trades \<in> set (snd (trades_of (derived_folds ! 1)))" by (simp add: derived_built(3) del: One_nat_def)
qed (code_simp+)

end
