(* ===== verification/MemoryCache.thy ===== *)
theory MemoryCache
  imports Prelude
begin

text \<open>
  The in-process cache (\<^verbatim>\<open>backend/shared/cache/memory.py\<close>): a bounded least-recently-used store and a
  registry of futures that lets one thread compute a missing entry while the others wait for it.

  Any number of threads call one \<^verbatim>\<open>MemoryBackend\<close>. What the code does under its lock is one step; outside the
  lock, asking a future whether it is done and resolving it are two steps, because another thread may
  resolve it in between, and resolving a resolved future raises \<^verbatim>\<open>InvalidStateError\<close>. Keys and payloads
  are strings; what a \<^verbatim>\<open>compute\<close> delivers is chosen by the step. A \<^verbatim>\<open>compute\<close> that calls the cache again
  on its own thread is left out: a thread makes one call at a time (a nested \<^verbatim>\<open>single_flight\<close> of the same
  key would wait for its own future).
\<close>

section \<open>State\<close>

datatype failure = ClearedError | InvalidStateError | ComputeError string | NegativeCapacity

datatype future_result = Result string | Exc failure

text \<open>Futures are numbered in the order they are made; \<open>None\<close> is one that is not done.\<close>

record cache =
  store :: "(string, string) pydict"
  inflight :: "(string, nat) pydict"
  futures :: "future_result option list"

definition new_cache :: cache where
  "new_cache = \<lparr>store = [], inflight = [], futures = []\<rparr>"

datatype call = Get string | Put string string int | Single string int | Delete string | Clear

datatype answer = Payload string | Miss | Done | Removed nat | Failed failure

datatype delivery = Delivers string bool | Raises string

text \<open>Where a call stands: computing without the cache, leading a future, waiting for one, or abandoning some.\<close>

datatype cache_phase =
    Passing
  | Computing nat
  | Storing nat string bool
  | Settling nat future_result
  | Setting nat future_result
  | Releasing nat future_result
  | Waiting nat
  | Abandoning "nat list" answer
  | Dropping nat "nat list" answer

datatype thread = Idle | Running call cache_phase | Finished call answer

record cache_system =
  shared :: cache
  threads :: "nat \<Rightarrow> thread"

section \<open>The store\<close>

text \<open>\<open>OrderedDict.move_to_end\<close> of a key that is there.\<close>

definition move_to_end :: "string \<Rightarrow> ('v) \<Rightarrow> (string, 'v) pydict \<Rightarrow> (string, 'v) pydict" where
  "move_to_end k v st = ddel st k @ [(k, v)]"

function evict :: "int \<Rightarrow> (string, 'v) pydict \<Rightarrow> (string, 'v) pydict" where
  "evict m st = (if 0 \<le> m \<and> m < int (length st) then evict m (tl st) else st)"
  by pat_completeness auto
termination
  by (relation "measure (\<lambda>(m, st). length st)") auto

declare evict.simps [simp del]

definition lookup_store :: "string \<Rightarrow> cache \<Rightarrow> string option \<times> cache" where
  "lookup_store k c =
     (case dget (store c) k of
        None \<Rightarrow> (None, c)
      | Some v \<Rightarrow> (Some v, c\<lparr>store := move_to_end k v (store c)\<rparr>))"

definition put_store :: "string \<Rightarrow> string \<Rightarrow> int \<Rightarrow> cache \<Rightarrow> cache" where
  "put_store k v m c = c\<lparr>store := evict m (move_to_end k v (dset (store c) k v))\<rparr>"

section \<open>Futures\<close>

definition pending :: "cache \<Rightarrow> nat \<Rightarrow> bool" where
  "pending c f \<longleftrightarrow> futures c ! f = None"

definition resolve_future :: "nat \<Rightarrow> future_result \<Rightarrow> cache \<Rightarrow> cache" where
  "resolve_future f s c = c\<lparr>futures := (futures c)[f := Some s]\<rparr>"

definition release_slot :: "string \<Rightarrow> nat \<Rightarrow> cache \<Rightarrow> cache" where
  "release_slot k f c = (if dget (inflight c) k = Some f then c\<lparr>inflight := ddel (inflight c) k\<rparr> else c)"

definition answer_of :: "future_result \<Rightarrow> answer" where
  "answer_of s = (case s of Result v \<Rightarrow> Payload v | Exc e \<Rightarrow> Failed e)"

section \<open>Calls\<close>

definition begin_get :: "string \<Rightarrow> cache \<Rightarrow> answer \<times> cache" where
  "begin_get k c =
     (case lookup_store k c of (None, c) \<Rightarrow> (Miss, c) | (Some v, c) \<Rightarrow> (Payload v, c))"

definition begin_put :: "string \<Rightarrow> string \<Rightarrow> int \<Rightarrow> cache \<Rightarrow> answer \<times> cache" where
  "begin_put k v m c =
     (if m < 0 then (Failed NegativeCapacity, c) else if m = 0 then (Done, c) else (Done, put_store k v m c))"

definition begin_single :: "string \<Rightarrow> int \<Rightarrow> cache \<Rightarrow> (cache_phase + answer) \<times> cache" where
  "begin_single k m c =
     (if m < 0 then (Inr (Failed NegativeCapacity), c)
      else if m = 0 then (Inl Passing, c)
      else (case lookup_store k c of
              (Some v, c) \<Rightarrow> (Inr (Payload v), c)
            | (None, c) \<Rightarrow>
                (case dget (inflight c) k of
                   Some f \<Rightarrow> (Inl (Waiting f), c)
                 | None \<Rightarrow>
                     let f = length (futures c)
                     in (Inl (Computing f), c\<lparr>futures := futures c @ [None], inflight := dset (inflight c) k f\<rparr>))))"

definition begin_delete :: "string \<Rightarrow> cache \<Rightarrow> cache_phase \<times> cache" where
  "begin_delete k c =
     (Abandoning (case dget (inflight c) k of None \<Rightarrow> [] | Some f \<Rightarrow> [f]) Done,
      c\<lparr>store := ddel (store c) k, inflight := ddel (inflight c) k\<rparr>)"

definition begin_clear :: "cache \<Rightarrow> cache_phase \<times> cache" where
  "begin_clear c =
     (Abandoning (dvals (inflight c)) (Removed (length (store c))), c\<lparr>store := [], inflight := []\<rparr>)"

definition begin_call :: "call \<Rightarrow> cache \<Rightarrow> (cache_phase + answer) \<times> cache" where
  "begin_call cl c =
     (case cl of
        Get k \<Rightarrow> map_prod Inr id (begin_get k c)
      | Put k v m \<Rightarrow> map_prod Inr id (begin_put k v m c)
      | Single k m \<Rightarrow> begin_single k m c
      | Delete k \<Rightarrow> map_prod Inl id (begin_delete k c)
      | Clear \<Rightarrow> map_prod Inl id (begin_clear c))"

section \<open>Steps inside a call\<close>

definition finish_settle :: "nat \<Rightarrow> future_result \<Rightarrow> cache \<Rightarrow> cache_phase" where
  "finish_settle f s c = (if pending c f then Setting f s else Releasing f s)"

definition set_result :: "nat \<Rightarrow> future_result \<Rightarrow> cache \<Rightarrow> (cache_phase + answer) \<times> cache" where
  "set_result f s c =
     (if pending c f then (Inl (Releasing f s), resolve_future f s c) else (Inr (Failed InvalidStateError), c))"

definition resolve_abandoned :: "nat \<Rightarrow> nat list \<Rightarrow> answer \<Rightarrow> cache \<Rightarrow> (cache_phase + answer) \<times> cache" where
  "resolve_abandoned f fs a c =
     (if pending c f then (Inl (Abandoning fs a), resolve_future f (Exc ClearedError) c)
      else (Inr (Failed InvalidStateError), c))"

text \<open>The next step of a thread inside a call for key \<open>k\<close> with capacity \<open>m\<close>; \<open>None\<close> while its future is not
  done. \<open>d\<close> is what a computation that ends here delivers.\<close>

fun advance_call :: "string \<Rightarrow> int \<Rightarrow> delivery \<Rightarrow> cache_phase \<Rightarrow> cache \<Rightarrow> ((cache_phase + answer) \<times> cache) option" where
  "advance_call k m d Passing c =
     Some (Inr (case d of Delivers v b \<Rightarrow> Payload v | Raises e \<Rightarrow> Failed (ComputeError e)), c)"
| "advance_call k m d (Computing f) c =
     Some (Inl (case d of Delivers v b \<Rightarrow> Storing f v b | Raises e \<Rightarrow> Settling f (Exc (ComputeError e))), c)"
| "advance_call k m d (Storing f v b) c =
     Some (Inl (Settling f (Result v)), if b then put_store k v m c else c)"
| "advance_call k m d (Settling f s) c = Some (Inl (finish_settle f s c), c)"
| "advance_call k m d (Setting f s) c = Some (set_result f s c)"
| "advance_call k m d (Releasing f s) c = Some (Inr (answer_of s), release_slot k f c)"
| "advance_call k m d (Waiting f) c = map_option (\<lambda>s. (Inr (answer_of s), c)) (futures c ! f)"
| "advance_call k m d (Abandoning [] a) c = Some (Inr a, c)"
| "advance_call k m d (Abandoning (f # fs) a) c =
     Some (Inl (if pending c f then Dropping f fs a else Abandoning fs a), c)"
| "advance_call k m d (Dropping f fs a) c = Some (resolve_abandoned f fs a c)"

section \<open>The system\<close>

fun call_key :: "call \<Rightarrow> string" where
  "call_key (Get k) = k"
| "call_key (Put k v m) = k"
| "call_key (Single k m) = k"
| "call_key (Delete k) = k"
| "call_key Clear = []"

fun call_cap :: "call \<Rightarrow> int" where
  "call_cap (Single k m) = m"
| "call_cap (Put k v m) = m"
| "call_cap _ = 0"

definition enter :: "call \<Rightarrow> cache_phase + answer \<Rightarrow> thread" where
  "enter cl r = (case r of Inl p \<Rightarrow> Running cl p | Inr a \<Rightarrow> Finished cl a)"

definition may_call :: "thread \<Rightarrow> bool" where
  "may_call th \<longleftrightarrow> (case th of Running cl p \<Rightarrow> False | _ \<Rightarrow> True)"

definition call_step :: "nat \<Rightarrow> call \<Rightarrow> cache_system \<Rightarrow> cache_system" where
  "call_step t cl s =
     (let (r, c) = begin_call cl (shared s) in s\<lparr>shared := c, threads := (threads s)(t := enter cl r)\<rparr>)"

definition run_step :: "nat \<Rightarrow> delivery \<Rightarrow> cache_system \<Rightarrow> cache_system option" where
  "run_step t d s =
     (case threads s t of
        Running cl p \<Rightarrow>
          map_option (\<lambda>(r, c). s\<lparr>shared := c, threads := (threads s)(t := enter cl r)\<rparr>)
            (advance_call (call_key cl) (call_cap cl) d p (shared s))
      | _ \<Rightarrow> None)"

text \<open>\<open>A\<close> is the set of calls the threads make and \<open>D\<close> what a computation may deliver for a key.\<close>

inductive cache_step :: "(call \<Rightarrow> bool) \<Rightarrow> (string \<Rightarrow> delivery \<Rightarrow> bool) \<Rightarrow> cache_system \<Rightarrow> cache_system \<Rightarrow> bool"
  for A D where
  cache_call: "may_call (threads s t) \<Longrightarrow> A cl \<Longrightarrow> cache_step A D s (call_step t cl s)"
| cache_run: "threads s t = Running cl p \<Longrightarrow> D (call_key cl) d \<Longrightarrow> run_step t d s = Some s' \<Longrightarrow> cache_step A D s s'"

inductive_cases cache_stepE: "cache_step A D s s'"

definition new_system :: cache_system where
  "new_system = \<lparr>shared = new_cache, threads = (\<lambda>_. Idle)\<rparr>"

abbreviation cache_reachable :: "(call \<Rightarrow> bool) \<Rightarrow> (string \<Rightarrow> delivery \<Rightarrow> bool) \<Rightarrow> cache_system \<Rightarrow> bool" where
  "cache_reachable A D \<equiv> reachable (\<lambda>s. s = new_system) (cache_step A D)"

text \<open>A schedule, for concrete executions.\<close>

datatype move = Begin nat call | Run nat delivery

fun play :: "move list \<Rightarrow> cache_system \<Rightarrow> cache_system option" where
  "play [] s = Some s"
| "play (Begin t cl # ms) s = (if may_call (threads s t) then play ms (call_step t cl s) else None)"
| "play (Run t d # ms) s = (case run_step t d s of None \<Rightarrow> None | Some s' \<Rightarrow> play ms s')"

end
