(* ===== verification/MemoryCacheInv.thy ===== *)
theory MemoryCacheInv
  imports MemoryCache
begin

text \<open>
  The invariant of the in-process cache: every slot has a leader, every future one leader at most and a
  thread that will resolve it while it is not done, waiters wait for a future of their key, and what a
  deletion abandons has no slot.
\<close>

section \<open>The store\<close>

lemma evict_drop: "0 \<le> m \<Longrightarrow> evict m st = drop (length st - nat m) st"
proof (induction m st rule: evict.induct)
  case (1 m st)
  show ?case
  proof (cases "m < int (length st)")
    case True
    with "1.prems" have "evict m st = drop (length (tl st) - nat m) (tl st)"
      using "1.IH" by (subst evict.simps) simp
    moreover from True "1.prems" have "length st - nat m = Suc (length (tl st) - nat m)" by (cases st) auto
    ultimately show ?thesis by (simp add: drop_Suc)
  next
    case False
    with "1.prems" show ?thesis by (subst evict.simps) simp
  qed
qed

lemma move_to_end_dget: "dget (move_to_end k v st) j = (if j = k then Some v else dget st j)"
  by (auto simp: move_to_end_def map_add_def split: option.split)

lemma wf_move_to_end [simp]: "wf_dict st \<Longrightarrow> wf_dict (move_to_end k v st)"
  using wf_dict_ddel [of st k] by (auto simp: move_to_end_def wf_dict_def distinct_delete delete_keys)

lemma wf_drop: "wf_dict st \<Longrightarrow> wf_dict (drop n st)"
  by (simp add: wf_dict_def drop_map [symmetric] distinct_drop)

lemma wf_evict [simp]: "wf_dict st \<Longrightarrow> wf_dict (evict m st)"
proof (cases "0 \<le> m")
  case False
  then have "evict m st = st" by (subst evict.simps) simp
  then show "wf_dict st \<Longrightarrow> wf_dict (evict m st)" by simp
qed (simp add: evict_drop wf_drop)

section \<open>Leaders, waiters and droppers\<close>

fun leads :: "thread \<Rightarrow> (string \<times> nat) option" where
  "leads (Running cl (Computing f)) = Some (call_key cl, f)"
| "leads (Running cl (Storing f v b)) = Some (call_key cl, f)"
| "leads (Running cl (Settling f r)) = Some (call_key cl, f)"
| "leads (Running cl (Setting f r)) = Some (call_key cl, f)"
| "leads (Running cl (Releasing f r)) = Some (call_key cl, f)"
| "leads _ = None"

fun unsettled :: "thread \<Rightarrow> nat option" where
  "unsettled (Running cl (Releasing f r)) = None"
| "unsettled th = map_option snd (leads th)"

fun waits :: "thread \<Rightarrow> (string \<times> nat) option" where
  "waits (Running cl (Waiting f)) = Some (call_key cl, f)"
| "waits _ = None"

fun drops :: "thread \<Rightarrow> nat list" where
  "drops (Running cl (Abandoning fs a)) = fs"
| "drops (Running cl (Dropping f fs a)) = f # fs"
| "drops _ = []"

text \<open>The clauses of the invariant: over the slots, the leaders, the futures, the waiters and the droppers.\<close>

definition slots_ok :: "cache \<Rightarrow> (nat \<Rightarrow> thread) \<Rightarrow> bool" where
  "slots_ok c th \<longleftrightarrow> (\<forall>k f. dget (inflight c) k = Some f \<longrightarrow> (\<exists>t. leads (th t) = Some (k, f)))"

definition leaders_ok :: "cache \<Rightarrow> (nat \<Rightarrow> thread) \<Rightarrow> bool" where
  "leaders_ok c th \<longleftrightarrow>
     (\<forall>t k f. leads (th t) = Some (k, f) \<longrightarrow> f < length (futures c) \<and> (\<forall>t' k'. leads (th t') = Some (k', f) \<longrightarrow> t' = t))"

definition futures_ok :: "cache \<Rightarrow> (nat \<Rightarrow> thread) \<Rightarrow> bool" where
  "futures_ok c th \<longleftrightarrow>
     (\<forall>f < length (futures c). pending c f \<longrightarrow> (\<exists>t. unsettled (th t) = Some f)) \<and>
     (\<forall>t k f. dget (inflight c) k = Some f \<longrightarrow> unsettled (th t) = Some f \<longrightarrow> pending c f)"

definition waiters_ok :: "cache \<Rightarrow> (nat \<Rightarrow> thread) \<Rightarrow> bool" where
  "waiters_ok c th \<longleftrightarrow>
     (\<forall>t k f. waits (th t) = Some (k, f) \<longrightarrow>
        f < length (futures c) \<and> (\<forall>t' k'. leads (th t') = Some (k', f) \<longrightarrow> k' = k))"

definition droppers_ok :: "cache \<Rightarrow> (nat \<Rightarrow> thread) \<Rightarrow> bool" where
  "droppers_ok c th \<longleftrightarrow>
     (\<forall>t f. f \<in> set (drops (th t)) \<longrightarrow> f < length (futures c) \<and> (\<forall>k. dget (inflight c) k \<noteq> Some f))"

definition dicts_ok :: "cache \<Rightarrow> bool" where
  "dicts_ok c \<longleftrightarrow> wf_dict (store c) \<and> wf_dict (inflight c)"

definition cache_inv :: "cache_system \<Rightarrow> bool" where
  "cache_inv s \<longleftrightarrow> dicts_ok (shared s) \<and> slots_ok (shared s) (threads s) \<and> leaders_ok (shared s) (threads s) \<and>
     futures_ok (shared s) (threads s) \<and> waiters_ok (shared s) (threads s) \<and> droppers_ok (shared s) (threads s)"

lemmas cache_inv_defs =
  cache_inv_def slots_ok_def leaders_ok_def futures_ok_def waiters_ok_def droppers_ok_def dicts_ok_def

section \<open>How a step of one thread keeps each clause\<close>

lemma slots_okI:
  assumes "slots_ok c th"
    and "\<And>k f. dget (inflight c') k = Some f \<Longrightarrow>
      leads x = Some (k, f) \<or> (dget (inflight c) k = Some f \<and> leads (th t) \<noteq> Some (k, f))"
  shows "slots_ok c' (th(t := x))"
  unfolding slots_ok_def
proof (intro allI impI)
  fix k f assume "dget (inflight c') k = Some f"
  from assms(2) [OF this] show "\<exists>u. leads ((th(t := x)) u) = Some (k, f)"
  proof
    assume "leads x = Some (k, f)"
    then show ?thesis by (intro exI [of _ t]) simp
  next
    assume a: "dget (inflight c) k = Some f \<and> leads (th t) \<noteq> Some (k, f)"
    with assms(1) obtain u where "leads (th u) = Some (k, f)" unfolding slots_ok_def by blast
    with a show ?thesis by (intro exI [of _ u]) auto
  qed
qed

lemma leaders_okI:
  assumes "leaders_ok c th" and "length (futures c) \<le> length (futures c')"
    and "leads x = None \<or> leads x = leads (th t) \<or>
      (\<exists>k. leads x = Some (k, length (futures c)) \<and> length (futures c) < length (futures c'))"
  shows "leaders_ok c' (th(t := x))"
proof -
  have old: "leads (th u) = Some (k, f) \<Longrightarrow> f < length (futures c)" for u k f
    using assms(1) unfolding leaders_ok_def by blast
  have uniq: "leads (th u) = Some (k, f) \<Longrightarrow> leads (th v) = Some (j, f) \<Longrightarrow> u = v" for u v k j f
    using assms(1) unfolding leaders_ok_def by blast
  have new: "leads x = Some (k, f) \<Longrightarrow> f < length (futures c')" for k f
    using assms(2,3) old [of t k f] by auto
  have fresh: "leads x = Some (k, f) \<Longrightarrow> leads (th v) = Some (j, f) \<Longrightarrow> v = t" for k f v j
    using assms(3) old [of v j f] uniq [of t k f v j] by auto
  show ?thesis
    unfolding leaders_ok_def fun_upd_apply
    using new fresh old uniq assms(2) by (smt (verit) less_le_trans)
qed

lemma waiters_okI:
  assumes "waiters_ok c th" and "length (futures c) \<le> length (futures c')" and "leaders_ok c th"
    and "leads x = None \<or> leads x = leads (th t) \<or> (\<exists>k. leads x = Some (k, length (futures c)))"
    and "waits x = None \<or> waits x = waits (th t) \<or>
      (\<exists>k f. waits x = Some (k, f) \<and> dget (inflight c) k = Some f \<and> leads x = None)"
    and "slots_ok c th"
  shows "waiters_ok c' (th(t := x))"
proof -
  have slot: "f < length (futures c) \<and> (\<forall>u j. leads (th u) = Some (j, f) \<longrightarrow> j = k)" if "dget (inflight c) k = Some f" for k f
  proof -
    from assms(6) that obtain u where u: "leads (th u) = Some (k, f)" unfolding slots_ok_def by blast
    with assms(3) have "f < length (futures c)" and "leads (th v) = Some (j, f) \<Longrightarrow> v = u" for v j
      unfolding leaders_ok_def by blast+
    with u show ?thesis by auto
  qed
  have ok: "f < length (futures c) \<and> (\<forall>v j. leads (th v) = Some (j, f) \<longrightarrow> j = k)"
    if "waits ((th(t := x)) u) = Some (k, f)" for u k f
  proof -
    from that assms(5) have "waits (th u) = Some (k, f) \<or> dget (inflight c) k = Some f" by (auto split: if_splits)
    then show ?thesis using slot assms(1) unfolding waiters_ok_def by blast
  qed
  have "leads ((th(t := x)) v) = Some (j, f) \<Longrightarrow> f < length (futures c) \<Longrightarrow> \<exists>w. leads (th w) = Some (j, f)" for v j f
    using assms(4) by (auto split: if_splits)
  with ok assms(2) show ?thesis unfolding waiters_ok_def by (metis less_le_trans)
qed

lemma droppers_okI:
  assumes "droppers_ok c th" and "length (futures c) \<le> length (futures c')"
    and "\<And>k f. dget (inflight c') k = Some f \<Longrightarrow> dget (inflight c) k = Some f \<or> length (futures c) \<le> f"
    and "\<And>f. f \<in> set (drops x) \<Longrightarrow>
      f \<in> set (drops (th t)) \<or> (f < length (futures c) \<and> (\<forall>k. dget (inflight c') k \<noteq> Some f))"
  shows "droppers_ok c' (th(t := x))"
proof -
  have old: "f < length (futures c) \<and> (\<forall>k. dget (inflight c') k \<noteq> Some f)" if "f \<in> set (drops (th u))" for u f
    using that assms(1,3) unfolding droppers_ok_def by (metis leD)
  have "f < length (futures c') \<and> (\<forall>k. dget (inflight c') k \<noteq> Some f)" if "f \<in> set (drops ((th(t := x)) u))" for u f
    using that old [of f u] old [of f t] assms(2) assms(4) [of f] by (auto split: if_splits)
  then show ?thesis unfolding droppers_ok_def by blast
qed

lemma futures_okI:
  assumes "futures_ok c th"
    and "\<And>f. f < length (futures c') \<Longrightarrow> pending c' f \<Longrightarrow>
      unsettled x = Some f \<or> (f < length (futures c) \<and> pending c f \<and> unsettled (th t) \<noteq> Some f)"
    and "\<And>k f. dget (inflight c') k = Some f \<Longrightarrow> unsettled x = Some f \<Longrightarrow> pending c' f"
    and "\<And>k f u. dget (inflight c') k = Some f \<Longrightarrow> unsettled (th u) = Some f \<Longrightarrow> u \<noteq> t \<Longrightarrow> pending c' f"
  shows "futures_ok c' (th(t := x))"
proof -
  have "\<exists>u. unsettled ((th(t := x)) u) = Some f" if "f < length (futures c')" "pending c' f" for f
  proof (cases "unsettled x = Some f")
    case True
    then show ?thesis by (intro exI [of _ t]) simp
  next
    case False
    with assms(2) [OF that] assms(1) obtain u where "unsettled (th u) = Some f" "u \<noteq> t"
      unfolding futures_ok_def by metis
    then show ?thesis by (intro exI [of _ u]) simp
  qed
  with assms(3,4) show ?thesis unfolding futures_ok_def by (auto split: if_splits)
qed

text \<open>A step that touches neither slots nor futures.\<close>

lemma quiet_step:
  assumes "cache_inv s" and "inflight c = inflight (shared s)" and "futures c = futures (shared s)" and "wf_dict (store c)"
    and "leads x = leads (threads s t)"
    and "unsettled x = unsettled (threads s t) \<or>
      (unsettled x = None \<and> (\<forall>f. unsettled (threads s t) = Some f \<longrightarrow> \<not> pending (shared s) f))"
    and "waits x = None \<or> waits x = waits (threads s t)" and "set (drops x) \<subseteq> set (drops (threads s t))"
  shows "cache_inv (s\<lparr>shared := c, threads := (threads s)(t := x)\<rparr>)"
proof -
  note inv = assms(1) [unfolded cache_inv_def]
  have pend: "pending c = pending (shared s)" using assms(3) by (simp add: pending_def fun_eq_iff)
  have "slots_ok c ((threads s)(t := x))"
    using inv assms(2,5) by (intro slots_okI [of "shared s"]) auto
  moreover have "leaders_ok c ((threads s)(t := x))"
    using inv assms(3,5) by (intro leaders_okI [of "shared s"]) auto
  moreover have "waiters_ok c ((threads s)(t := x))"
    using inv assms(3,5,7) by (intro waiters_okI [of "shared s"]) auto
  moreover have "droppers_ok c ((threads s)(t := x))"
    using inv assms(2,3,8) by (intro droppers_okI [of "shared s"]) auto
  moreover have "futures_ok c ((threads s)(t := x))"
    using inv assms(2,3,6) pend by (intro futures_okI [of "shared s"]) (auto simp: futures_ok_def)
  ultimately show ?thesis using inv assms(2,4) by (simp add: cache_inv_def dicts_ok_def)
qed

text \<open>A step of a leader or dropper that resolves a future that is not done.\<close>

lemma settle_step:
  assumes "cache_inv s" and "c = resolve_future f r (shared s)" and "pending (shared s) f"
    and "leads x = leads (threads s t)" and "waits x = None" and "set (drops x) \<subseteq> set (drops (threads s t))"
    and "unsettled x = None" and "unsettled (threads s t) = Some f \<or> (unsettled (threads s t) = None \<and> f \<in> set (drops (threads s t)))"
  shows "cache_inv (s\<lparr>shared := c, threads := (threads s)(t := x)\<rparr>)"
proof -
  note inv = assms(1) [unfolded cache_inv_def]
  have c: "inflight c = inflight (shared s)" "length (futures c) = length (futures (shared s))" "store c = store (shared s)"
    using assms(2) by (simp_all add: resolve_future_def)
  have pend: "pending c g \<longleftrightarrow> pending (shared s) g \<and> g \<noteq> f" if "g < length (futures (shared s))" for g
    using that assms(2) by (cases "g = f") (auto simp: pending_def resolve_future_def)
  have "slots_ok c ((threads s)(t := x))"
    using inv c assms(4) by (intro slots_okI [of "shared s"]) auto
  moreover have "leaders_ok c ((threads s)(t := x))"
    using inv c assms(4) by (intro leaders_okI [of "shared s"]) auto
  moreover have "waiters_ok c ((threads s)(t := x))"
    using inv c assms(4,5) by (intro waiters_okI [of "shared s"]) auto
  moreover have "droppers_ok c ((threads s)(t := x))"
    using inv c assms(6) by (intro droppers_okI [of "shared s"]) auto
  moreover have "futures_ok c ((threads s)(t := x))"
  proof (rule futures_okI [of "shared s"])
    show "futures_ok (shared s) (threads s)" using inv by simp
    show "unsettled x = Some g \<or> (g < length (futures (shared s)) \<and> pending (shared s) g \<and> unsettled (threads s t) \<noteq> Some g)"
      if "g < length (futures c)" "pending c g" for g
      using that pend [of g] c assms(8) by auto
    show "pending c g" if "dget (inflight c) k = Some g" "unsettled x = Some g" for k g
      using that assms(7) by simp
    show "pending c g" if g: "dget (inflight c) k = Some g" "unsettled (threads s u) = Some g" "u \<noteq> t" for k g u
    proof -
      have l: "\<exists>j. leads (threads s u) = Some (j, g)"
        using g(2) by (cases "threads s u" rule: unsettled.cases) auto
      with inv have len: "g < length (futures (shared s))" unfolding leaders_ok_def by blast
      have "g \<noteq> f"
        using assms(8)
      proof
        assume "unsettled (threads s t) = Some f"
        then have "\<exists>j. leads (threads s t) = Some (j, f)" by (cases "threads s t" rule: unsettled.cases) auto
        with l g(3) inv show ?thesis unfolding leaders_ok_def by blast
      next
        assume "unsettled (threads s t) = None \<and> f \<in> set (drops (threads s t))"
        with inv g(1) c(1) show ?thesis unfolding droppers_ok_def by metis
      qed
      with inv g c(1) pend [OF len] show ?thesis unfolding futures_ok_def by metis
    qed
  qed
  ultimately show ?thesis using inv c by (simp add: cache_inv_def dicts_ok_def)
qed

lemma unsettled_leads: "unsettled th = Some f \<Longrightarrow> \<exists>k. leads th = Some (k, f)"
  by (cases th rule: unsettled.cases) auto

text \<open>A call that ends: a leader whose future is resolved gives up its slot, if it still has it.\<close>

lemma leave_step:
  assumes "cache_inv s" and "futures c = futures (shared s)" and "store c = store (shared s)"
    and "inflight c = inflight (shared s) \<or> inflight c = ddel (inflight (shared s)) k"
    and "leads (threads s t) = Some (k, f)" and "dget (inflight c) k \<noteq> Some f" and "\<not> pending (shared s) f"
    and "leads x = None" and "waits x = None" and "drops x = []"
  shows "cache_inv (s\<lparr>shared := c, threads := (threads s)(t := x)\<rparr>)"
proof -
  note inv = assms(1) [unfolded cache_inv_def]
  have sub: "dget (inflight c) j = Some g \<Longrightarrow> dget (inflight (shared s)) j = Some g" for j g
    using assms(4) by (auto split: if_splits)
  have pend: "pending c = pending (shared s)" using assms(2) by (simp add: pending_def fun_eq_iff)
  have un: "unsettled x = None" using assms(8) by (cases x rule: unsettled.cases) auto
  have "slots_ok c ((threads s)(t := x))"
    using inv sub assms(5,6) by (intro slots_okI [of "shared s"]) auto
  moreover have "leaders_ok c ((threads s)(t := x))"
    using inv assms(2,8) by (intro leaders_okI [of "shared s"]) auto
  moreover have "waiters_ok c ((threads s)(t := x))"
    using inv assms(2,8,9) by (intro waiters_okI [of "shared s"]) auto
  moreover have "droppers_ok c ((threads s)(t := x))"
    using inv assms(2,10) sub by (intro droppers_okI [of "shared s"]) auto
  moreover have "futures_ok c ((threads s)(t := x))"
  proof (rule futures_okI [of "shared s"])
    show "unsettled x = Some g \<or> (g < length (futures (shared s)) \<and> pending (shared s) g \<and> unsettled (threads s t) \<noteq> Some g)"
      if "g < length (futures c)" "pending c g" for g
      using that pend assms(2,5,7) unsettled_leads by fastforce
    show "pending c g" if "dget (inflight c) j = Some g" "unsettled (threads s u) = Some g" "u \<noteq> t" for j g u
      using that sub inv pend unfolding futures_ok_def by metis
  qed (use inv un in auto)
  moreover have "dicts_ok c" using inv assms(3,4) by (auto simp: dicts_ok_def)
  ultimately show ?thesis by (simp add: cache_inv_def)
qed

text \<open>A thread that becomes the leader of a new future.\<close>

lemma lead_step:
  assumes "cache_inv s" and "dget (inflight (shared s)) k = None" and "leads (threads s t) = None"
    and "f = length (futures (shared s))"
    and "c = (shared s)\<lparr>futures := futures (shared s) @ [None], inflight := dset (inflight (shared s)) k f\<rparr>"
    and "leads x = Some (k, f)" and "unsettled x = Some f" and "waits x = None" and "drops x = []"
  shows "cache_inv (s\<lparr>shared := c, threads := (threads s)(t := x)\<rparr>)"
proof -
  note inv = assms(1) [unfolded cache_inv_def]
  have c: "length (futures c) = Suc f" "store c = store (shared s)" using assms(4,5) by simp_all
  have slot: "dget (inflight c) j = (if j = k then Some f else dget (inflight (shared s)) j)" for j
    using assms(5) by simp
  have pend: "g < f \<Longrightarrow> pending c g = pending (shared s) g" "pending c f" for g
    using assms(4,5) by (simp_all add: pending_def nth_append)
  have old: "leads (threads s u) = Some (j, g) \<Longrightarrow> g < f" for u j g
    using inv assms(4) unfolding leaders_ok_def by blast
  have slots: "g < f" if "dget (inflight (shared s)) j = Some g" for j g
    using that inv old unfolding slots_ok_def by blast
  have "slots_ok c ((threads s)(t := x))"
    using inv slot assms(3,6) by (intro slots_okI [of "shared s"]) (auto split: if_splits)
  moreover have "leaders_ok c ((threads s)(t := x))"
    using inv c assms(4,6) by (intro leaders_okI [of "shared s"]) auto
  moreover have "waiters_ok c ((threads s)(t := x))"
    using inv c assms(4,6,8) by (intro waiters_okI [of "shared s"]) auto
  moreover have "droppers_ok c ((threads s)(t := x))"
    using inv c assms(4,9) slot by (intro droppers_okI [of "shared s"]) (auto split: if_splits)
  moreover have "futures_ok c ((threads s)(t := x))"
  proof (rule futures_okI [of "shared s"])
    show "unsettled x = Some g \<or> (g < length (futures (shared s)) \<and> pending (shared s) g \<and> unsettled (threads s t) \<noteq> Some g)"
      if "g < length (futures c)" "pending c g" for g
    proof (cases "g = f")
      case False
      with that c pend(1) [of g] assms(3,4) unsettled_leads [of "threads s t" g] show ?thesis by auto
    qed (simp add: assms(7))
    show "pending c g" if "dget (inflight c) j = Some g" "unsettled (threads s u) = Some g" "u \<noteq> t" for j g u
    proof -
      from that(2) unsettled_leads old have "g < f" by blast
      with that(1) slot have "dget (inflight (shared s)) j = Some g" by (auto split: if_splits)
      with that(2) inv pend(1) [OF \<open>g < f\<close>] show ?thesis unfolding futures_ok_def by metis
    qed
    show "pending c g" if "dget (inflight c) j = Some g" "unsettled x = Some g" for j g
      using that assms(7) pend(2) by simp
  qed (use inv in simp)
  moreover have "dicts_ok c" using inv assms(5) by (simp add: dicts_ok_def)
  ultimately show ?thesis by (simp add: cache_inv_def)
qed

text \<open>A deletion: slots go, and their futures are the thread's to abandon.\<close>

lemma wipe_step:
  assumes "cache_inv s" and "dicts_ok c" and "futures c = futures (shared s)"
    and "\<And>k f. dget (inflight c) k = Some f \<Longrightarrow> dget (inflight (shared s)) k = Some f"
    and "leads (threads s t) = None" and "leads x = None" and "waits x = None"
    and "\<And>f. f \<in> set (drops x) \<Longrightarrow> \<exists>k. dget (inflight (shared s)) k = Some f \<and> dget (inflight c) k = None"
  shows "cache_inv (s\<lparr>shared := c, threads := (threads s)(t := x)\<rparr>)"
proof -
  note inv = assms(1) [unfolded cache_inv_def]
  have pend: "pending c = pending (shared s)" using assms(3) by (simp add: pending_def fun_eq_iff)
  have un: "unsettled x = None" "unsettled (threads s t) = None"
    using assms(5,6) unsettled_leads by (metis not_None_eq option.distinct(1))+
  have one: "j = k" if "dget (inflight (shared s)) k = Some f" "dget (inflight (shared s)) j = Some f" for j k f
    using that inv unfolding slots_ok_def leaders_ok_def by (metis Pair_inject option.inject)
  have len: "f < length (futures (shared s))" if "dget (inflight (shared s)) k = Some f" for k f
    using that inv unfolding slots_ok_def leaders_ok_def by blast
  have gone: "f < length (futures (shared s)) \<and> (\<forall>j. dget (inflight c) j \<noteq> Some f)" if "f \<in> set (drops x)" for f
  proof -
    from assms(8) [OF that] obtain k where k: "dget (inflight (shared s)) k = Some f" "dget (inflight c) k = None" by blast
    with one [OF k(1)] assms(4) len [OF k(1)] show ?thesis by (metis option.distinct(1))
  qed
  have "slots_ok c ((threads s)(t := x))"
    using inv assms(4,5) by (intro slots_okI [of "shared s"]) auto
  moreover have "leaders_ok c ((threads s)(t := x))"
    using inv assms(3,6) by (intro leaders_okI [of "shared s"]) auto
  moreover have "waiters_ok c ((threads s)(t := x))"
    using inv assms(3,6,7) by (intro waiters_okI [of "shared s"]) auto
  moreover have "droppers_ok c ((threads s)(t := x))"
    using inv assms(3,4) gone by (intro droppers_okI [of "shared s"]) auto
  moreover have "futures_ok c ((threads s)(t := x))"
    using inv assms(3) un pend by (intro futures_okI [of "shared s"]) (auto simp: futures_ok_def dest!: assms(4))
  ultimately show ?thesis using assms(2) by (simp add: cache_inv_def)
qed

section \<open>Every step keeps the invariant\<close>

lemma leads_Finished [simp]: "leads (Finished cl a) = None" "unsettled (Finished cl a) = None"
  "waits (Finished cl a) = None" "drops (Finished cl a) = []"
  by simp_all

lemma may_call_free: "may_call th \<Longrightarrow> leads th = None \<and> unsettled th = None \<and> waits th = None \<and> drops th = []"
  by (cases th) (simp_all add: may_call_def)

lemma lookup_same [simp]:
  "inflight (snd (lookup_store k c)) = inflight c" "futures (snd (lookup_store k c)) = futures c"
  "wf_dict (store c) \<Longrightarrow> wf_dict (store (snd (lookup_store k c)))"
  by (simp_all add: lookup_store_def split: option.split)

lemma put_same [simp]:
  "inflight (put_store k v m c) = inflight c" "futures (put_store k v m c) = futures c"
  by (simp_all add: put_store_def)

lemma put_wf: "wf_dict (store c) \<Longrightarrow> wf_dict (store (put_store k v m c))"
  by (simp add: put_store_def)

lemma quiet_call:
  assumes "cache_inv s" and "may_call (threads s t)" and "inflight c = inflight (shared s)"
    and "futures c = futures (shared s)" and "wf_dict (store c)"
    and "leads x = None" and "waits x = None" and "drops x = []"
  shows "cache_inv (s\<lparr>shared := c, threads := (threads s)(t := x)\<rparr>)"
  using assms may_call_free [OF assms(2)] unsettled_leads [of x]
  by (intro quiet_step) (auto, metis option.exhaust option.distinct(1))

lemma quiet_thread:
  assumes "cache_inv s" and "may_call (threads s t)" and "leads x = None" and "waits x = None" and "drops x = []"
  shows "cache_inv (s\<lparr>threads := (threads s)(t := x)\<rparr>)"
  using quiet_call [of s t "shared s" x] assms by (simp add: cache_inv_def dicts_ok_def)

lemma wait_call:
  assumes "cache_inv s" and "may_call (threads s t)" and "dget (inflight (shared s)) k = Some f"
    and "x = Running cl (Waiting f)" and "call_key cl = k"
  shows "cache_inv (s\<lparr>shared := shared s, threads := (threads s)(t := x)\<rparr>)"
proof -
  note inv = assms(1) [unfolded cache_inv_def] and free = may_call_free [OF assms(2)]
  have "waiters_ok (shared s) ((threads s)(t := x))"
    using inv assms(3-5) free by (intro waiters_okI [of "shared s"]) auto
  moreover have "slots_ok (shared s) ((threads s)(t := x))"
    using inv free assms(4) by (intro slots_okI [of "shared s"]) auto
  moreover have "leaders_ok (shared s) ((threads s)(t := x))"
    using inv assms(4) by (intro leaders_okI [of "shared s"]) auto
  moreover have "droppers_ok (shared s) ((threads s)(t := x))"
    using inv assms(4) by (intro droppers_okI [of "shared s"]) auto
  moreover have "futures_ok (shared s) ((threads s)(t := x))"
    using inv assms(4) free by (intro futures_okI [of "shared s"]) (auto simp: futures_ok_def)
  ultimately show ?thesis using inv by (simp add: cache_inv_def)
qed

lemma single_call_inv:
  assumes "cache_inv s" and "may_call (threads s t)"
  shows "cache_inv (call_step t (Single k m) s)"
proof (cases "m \<le> 0 \<or> dget (store (shared s)) k \<noteq> None")
  case True
  moreover have "wf_dict (store (shared s))" using assms(1) by (simp add: cache_inv_def dicts_ok_def)
  ultimately show ?thesis
    using assms by (auto simp: call_step_def begin_call_def begin_single_def enter_def lookup_store_def
        intro!: quiet_call quiet_thread)
next
  case False
  show ?thesis
  proof (cases "dget (inflight (shared s)) k")
    case None
    with False have "call_step t (Single k m) s =
      s\<lparr>shared := (shared s)\<lparr>futures := futures (shared s) @ [None],
                              inflight := dset (inflight (shared s)) k (length (futures (shared s)))\<rparr>,
         threads := (threads s)(t := Running (Single k m) (Computing (length (futures (shared s)))))\<rparr>"
      by (simp add: call_step_def begin_call_def begin_single_def enter_def lookup_store_def Let_def)
    then show ?thesis
      using lead_step [OF assms(1) None] may_call_free [OF assms(2)] by simp
  next
    case (Some f)
    with False have "call_step t (Single k m) s =
      s\<lparr>shared := shared s, threads := (threads s)(t := Running (Single k m) (Waiting f))\<rparr>"
      by (simp add: call_step_def begin_call_def begin_single_def enter_def lookup_store_def)
    then show ?thesis using wait_call [OF assms Some refl] by simp
  qed
qed

lemma call_step_inv:
  assumes "cache_inv s" and "may_call (threads s t)"
  shows "cache_inv (call_step t cl s)"
proof -
  have d: "wf_dict (store (shared s))" "wf_dict (inflight (shared s))"
    using assms(1) by (simp_all add: cache_inv_def dicts_ok_def)
  note free = may_call_free [OF assms(2)]
  show ?thesis
  proof (cases cl)
    case (Get k)
    with assms d show ?thesis
      by (auto simp: call_step_def begin_call_def begin_get_def enter_def lookup_store_def split: option.split
          intro!: quiet_call quiet_thread)
  next
    case (Put k v m)
    with assms d show ?thesis
      by (auto simp: call_step_def begin_call_def begin_put_def enter_def put_wf intro!: quiet_call quiet_thread)
  next
    case (Single k m)
    with assms show ?thesis by (simp add: single_call_inv)
  next
    case (Delete k)
    with assms d free show ?thesis
      by (auto simp: call_step_def begin_call_def begin_delete_def enter_def dicts_ok_def split: option.split if_splits
          intro!: wipe_step)
  next
    case Clear
    have "\<exists>k. dget (inflight (shared s)) k = Some f" if "f \<in> set (dvals (inflight (shared s)))" for f
      using that d(2) by (force dest: wf_dict_dget)
    with Clear assms d free show ?thesis
      by (auto simp: call_step_def begin_call_def begin_clear_def enter_def dicts_ok_def intro!: wipe_step)
  qed
qed

lemma releasing_done:
  assumes "cache_inv s" and "threads s t = Running cl (Releasing f r)"
  shows "\<not> pending (shared s) f"
proof
  note inv = assms(1) [unfolded cache_inv_def]
  have l: "leads (threads s t) = Some (call_key cl, f)" by (simp add: assms(2))
  with inv have "f < length (futures (shared s))" unfolding leaders_ok_def by blast
  moreover assume "pending (shared s) f"
  ultimately obtain u where u: "unsettled (threads s u) = Some f" using inv unfolding futures_ok_def by blast
  with unsettled_leads obtain k where "leads (threads s u) = Some (k, f)" by blast
  with l inv have "u = t" unfolding leaders_ok_def by blast
  with u assms(2) show False by simp
qed

lemma lost_slot:
  assumes "cache_inv s" and "unsettled (threads s t) = Some f" and "\<not> pending (shared s) f"
  shows "dget (inflight (shared s)) k \<noteq> Some f"
  using assms unfolding cache_inv_def futures_ok_def by blast

lemma cache_advance_inv:
  assumes inv: "cache_inv s" and th: "threads s t = Running cl p"
    and adv: "advance_call (call_key cl) m d p (shared s) = Some (r, c)"
  shows "cache_inv (s\<lparr>shared := c, threads := (threads s)(t := enter cl r)\<rparr>)"
proof -
  have d: "wf_dict (store (shared s))" using inv by (simp add: cache_inv_def dicts_ok_def)
  show ?thesis
  proof (cases p)
    case Passing
    with adv th show ?thesis
      by (intro quiet_step inv) (auto simp: enter_def d)
  next
    case (Computing f)
    with adv th show ?thesis
      by (intro quiet_step inv) (auto simp: enter_def d split: delivery.splits)
  next
    case (Storing f v b)
    with adv th show ?thesis
      by (intro quiet_step inv) (auto simp: enter_def d put_wf)
  next
    case (Settling f x)
    with adv th show ?thesis
      by (intro quiet_step inv) (auto simp: enter_def d finish_settle_def)
  next
    case (Setting f x)
    show ?thesis
    proof (cases "pending (shared s) f")
      case True
      with Setting adv th show ?thesis
        by (intro settle_step [where f = f and r = x] inv) (auto simp: enter_def set_result_def)
    next
      case False
      with Setting adv th lost_slot [OF inv _ False, of t] show ?thesis
        by (intro leave_step [where k = "call_key cl" and f = f] inv) (auto simp: enter_def set_result_def)
    qed
  next
    case (Releasing f x)
    with adv th releasing_done [OF inv, of t cl f x] show ?thesis
      by (intro leave_step [where k = "call_key cl" and f = f] inv)
        (auto simp: enter_def release_slot_def split: if_splits)
  next
    case (Waiting f)
    with adv th show ?thesis
      by (intro quiet_step inv) (auto simp: enter_def d)
  next
    case (Abandoning fs a)
    with adv th show ?thesis
      by (cases fs) ((intro quiet_step inv; force simp: enter_def d split: if_splits)+)
  next
    case (Dropping f fs a)
    show ?thesis
    proof (cases "pending (shared s) f")
      case True
      with Dropping adv th show ?thesis
        by (intro settle_step [where f = f and r = "Exc ClearedError"] inv) (auto simp: enter_def resolve_abandoned_def)
    next
      case False
      with Dropping adv th show ?thesis
        by (intro quiet_step inv) (auto simp: enter_def resolve_abandoned_def d)
    qed
  qed
qed

lemma cache_step_inv: "cache_inv s \<Longrightarrow> cache_step A D s s' \<Longrightarrow> cache_inv s'"
  by (erule cache_stepE) (auto simp: call_step_inv run_step_def intro: cache_advance_inv)

lemma new_system_inv: "cache_inv new_system"
  by (simp add: cache_inv_defs new_system_def new_cache_def)

interpretation memory_cache: invariant_system "\<lambda>s. s = new_system" "cache_step A D" cache_inv
  by unfold_locales (auto simp: new_system_inv intro: cache_step_inv)

end
