(* ===== verification/MemoryCacheProps.thy ===== *)
theory MemoryCacheProps
  imports MemoryCacheInv
begin

text \<open>
  Properties of the in-process cache: no waiter is left without a thread that resolves its future, one
  leader computes a key at a time, every answer of a key is a payload that was computed or stored for
  it, and the store keeps its capacity and its order of use.
\<close>

section \<open>Progress\<close>

fun rank :: "cache_phase \<Rightarrow> nat" where
  "rank Passing = 1"
| "rank (Computing f) = 5"
| "rank (Storing f v b) = 4"
| "rank (Settling f r) = 3"
| "rank (Setting f r) = 2"
| "rank (Releasing f r) = 1"
| "rank (Waiting f) = 1"
| "rank (Abandoning fs a) = 2 * length fs + 1"
| "rank (Dropping f fs a) = 2 * length fs + 2"

lemma advance_rank: "advance_call k m d p c = Some (Inl p', c') \<Longrightarrow> rank p' < rank p"
  by (induction k m d p c rule: advance_call.induct)
    (auto simp: finish_settle_def set_result_def resolve_abandoned_def split: delivery.splits if_splits)

lemma advance_None: "advance_call k m d p c = None \<Longrightarrow> \<exists>f. p = Waiting f \<and> futures c ! f = None"
  by (induction k m d p c rule: advance_call.induct) (auto split: if_splits)

lemma leader_steps: "leads (threads s u) = Some (k, f) \<Longrightarrow> run_step u d s \<noteq> None"
  by (cases "threads s u" rule: leads.cases) (auto simp: run_step_def)

lemma run_stepD:
  assumes "run_step t d s = Some s'" and "threads s t = Running cl p"
  shows "\<exists>r c. advance_call (call_key cl) (call_cap cl) d p (shared s) = Some (r, c) \<and>
    s' = s\<lparr>shared := c, threads := (threads s)(t := enter cl r)\<rparr>"
  using assms by (auto simp: run_step_def)

text \<open>C27. No waiter is stranded: a call that cannot go on waits for a future whose leader computes the same key
  and can take its next step, whatever is deleted meanwhile; and every step of a call brings it nearer its
  end, which a leader reaches in at most five steps of its own.\<close>

theorem no_waiter_is_stranded:
  assumes "cache_reachable A D s" and "threads s t = Running cl p"
  shows "(run_step t d s = None \<longrightarrow>
      (\<exists>f u. p = Waiting f \<and> u \<noteq> t \<and> leads (threads s u) = Some (call_key cl, f) \<and> (\<forall>d'. run_step u d' s \<noteq> None))) \<and>
    (\<forall>s' cl' p'. run_step t d s = Some s' \<longrightarrow> threads s' t = Running cl' p' \<longrightarrow> rank p' < rank p)"
proof (intro conjI allI impI)
  note inv = memory_cache.reachable_inv [OF assms(1), unfolded cache_inv_def]
  assume "run_step t d s = None"
  with assms(2) have "advance_call (call_key cl) (call_cap cl) d p (shared s) = None" by (simp add: run_step_def)
  from advance_None [OF this] obtain f where p: "p = Waiting f" and pf: "pending (shared s) f"
    by (auto simp: pending_def)
  from p assms(2) have w: "waits (threads s t) = Some (call_key cl, f)" by simp
  with inv pf obtain u where u: "unsettled (threads s u) = Some f" unfolding waiters_ok_def futures_ok_def by blast
  with unsettled_leads obtain k where l: "leads (threads s u) = Some (k, f)" by blast
  with w inv have "k = call_key cl" unfolding waiters_ok_def by blast
  moreover have "u \<noteq> t" using l p assms(2) by auto
  ultimately show "\<exists>f u. p = Waiting f \<and> u \<noteq> t \<and> leads (threads s u) = Some (call_key cl, f) \<and> (\<forall>d'. run_step u d' s \<noteq> None)"
    using p l leader_steps [OF l] by blast
next
  fix s' cl' p' assume "run_step t d s = Some s'" and "threads s' t = Running cl' p'"
  with run_stepD [OF _ assms(2)] obtain r c where a: "advance_call (call_key cl) (call_cap cl) d p (shared s) = Some (r, c)"
    and r: "enter cl r = Running cl' p'" by fastforce
  from r have "r = Inl p'" by (cases r) (simp_all add: enter_def)
  with a show "rank p' < rank p" by (auto intro: advance_rank)
qed

section \<open>Answers belong to their key\<close>

fun thread_ok :: "(string \<Rightarrow> string \<Rightarrow> bool) \<Rightarrow> thread \<Rightarrow> bool" where
  "thread_ok P (Running cl (Storing f v b)) = P (call_key cl) v"
| "thread_ok P (Running cl (Settling f (Result v))) = P (call_key cl) v"
| "thread_ok P (Running cl (Setting f (Result v))) = P (call_key cl) v"
| "thread_ok P (Running cl (Releasing f (Result v))) = P (call_key cl) v"
| "thread_ok P (Running cl (Abandoning fs (Payload v))) = False"
| "thread_ok P (Running cl (Dropping f fs (Payload v))) = False"
| "thread_ok P (Finished cl (Payload v)) = P (call_key cl) v"
| "thread_ok P _ = True"

definition interested :: "cache \<Rightarrow> (nat \<Rightarrow> thread) \<Rightarrow> string \<Rightarrow> nat \<Rightarrow> bool" where
  "interested c th k f \<longleftrightarrow>
     dget (inflight c) k = Some f \<or> (\<exists>t. waits (th t) = Some (k, f)) \<or> (\<exists>t. leads (th t) = Some (k, f))"

definition payload_inv :: "(string \<Rightarrow> string \<Rightarrow> bool) \<Rightarrow> cache_system \<Rightarrow> bool" where
  "payload_inv P s \<longleftrightarrow> (\<forall>k v. dget (store (shared s)) k = Some v \<longrightarrow> P k v) \<and> (\<forall>t. thread_ok P (threads s t)) \<and>
     (\<forall>k f v. interested (shared s) (threads s) k f \<longrightarrow> futures (shared s) ! f = Some (Result v) \<longrightarrow> P k v)"

lemma interested_len: "cache_inv s \<Longrightarrow> interested (shared s) (threads s) k f \<Longrightarrow> f < length (futures (shared s))"
  unfolding interested_def cache_inv_def slots_ok_def leaders_ok_def waiters_ok_def by metis

lemma payload_step:
  assumes "payload_inv P s" and "\<And>k v. dget (store c) k = Some v \<Longrightarrow> dget (store (shared s)) k = Some v \<or> P k v"
    and "thread_ok P x"
    and "\<And>j g. dget (inflight c) j = Some g \<Longrightarrow> dget (inflight (shared s)) j = Some g \<or> leads x = Some (j, g)"
    and "waits x = None \<or> (\<exists>j g. waits x = Some (j, g) \<and> interested (shared s) (threads s) j g)"
    and "leads x = None \<or> leads x = leads (threads s t) \<or>
      (\<exists>j g. leads x = Some (j, g) \<and> g = length (futures (shared s)) \<and> futures c ! g = None)"
    and "\<And>k f v. interested (shared s) (threads s) k f \<Longrightarrow> f < length (futures (shared s)) \<Longrightarrow>
      futures c ! f = Some (Result v) \<Longrightarrow> futures (shared s) ! f = Some (Result v) \<or> P k v"
    and "cache_inv s"
  shows "payload_inv P (s\<lparr>shared := c, threads := (threads s)(t := x)\<rparr>)"
proof -
  have "P k v" if i: "interested c ((threads s)(t := x)) k f" and v: "futures c ! f = Some (Result v)" for k f v
  proof (cases "interested (shared s) (threads s) k f")
    case True
    with assms(1) assms(7) [OF True interested_len [OF assms(8) True]] v show ?thesis unfolding payload_inv_def by blast
  next
    case False
    have "leads x = Some (k, f)"
      using i False assms(4,5) by (auto simp: interested_def split: if_splits)
    moreover have "leads (threads s t) \<noteq> Some (k, f)" using False unfolding interested_def by blast
    ultimately show ?thesis using assms(6) v by auto
  qed
  moreover have "thread_ok P (((threads s)(t := x)) u)" for u using assms(1,3) by (simp add: payload_inv_def)
  moreover have "dget (store c) k = Some v \<Longrightarrow> P k v" for k v
    using assms(1) assms(2) [of k v] unfolding payload_inv_def by blast
  ultimately show ?thesis unfolding payload_inv_def by simp
qed

lemma dget_drop: "wf_dict st \<Longrightarrow> dget (drop n st) k = Some v \<Longrightarrow> dget st k = Some v"
  by (meson dget_in_set in_set_dropD wf_dict_dget)

lemma dget_evict: "wf_dict st \<Longrightarrow> dget (evict m st) k = Some v \<Longrightarrow> dget st k = Some v"
proof (cases "0 \<le> m")
  case False
  then have "evict m st = st" by (subst evict.simps) simp
  then show "dget (evict m st) k = Some v \<Longrightarrow> dget st k = Some v" by simp
qed (auto simp: evict_drop dest: dget_drop)

lemma dget_put_store:
  "wf_dict (store c) \<Longrightarrow> dget (store (put_store k v m c)) j = Some w \<Longrightarrow>
    (j = k \<and> w = v) \<or> dget (store c) j = Some w"
  by (auto simp: put_store_def move_to_end_dget dest!: dget_evict [rotated] split: if_splits)

lemma dget_lookup [simp]: "dget (store (snd (lookup_store k c))) j = dget (store c) j"
  by (auto simp: lookup_store_def move_to_end_dget split: option.split)

lemma payload_call:
  assumes "payload_inv P s" and "cache_inv s" and "may_call (threads s t)"
    and "\<And>k v m. cl = Put k v m \<Longrightarrow> P k v"
  shows "payload_inv P (call_step t cl s)"
proof -
  have d: "wf_dict (store (shared s))" using assms(2) by (simp add: cache_inv_def dicts_ok_def)
  have st: "dget (store (shared s)) k = Some v \<Longrightarrow> P k v" for k v using assms(1) by (simp add: payload_inv_def)
  show ?thesis
  proof (cases cl)
    case (Get k)
    show ?thesis
      unfolding call_step_def Let_def case_prod_unfold
      by (rule payload_step [OF assms(1) _ _ _ _ _ _ assms(2)])
        (auto simp: Get begin_call_def begin_get_def enter_def lookup_store_def move_to_end_dget st split: option.splits if_splits)
  next
    case (Put k v m)
    show ?thesis
      unfolding call_step_def Let_def case_prod_unfold
      by (rule payload_step [OF assms(1) _ _ _ _ _ _ assms(2)])
        (auto simp: Put begin_call_def begin_put_def enter_def assms(4) [OF Put] dest!: dget_put_store [OF d] split: if_splits)
  next
    case (Single k m)
    show ?thesis
      unfolding call_step_def Let_def case_prod_unfold
      by (rule payload_step [OF assms(1) _ _ _ _ _ _ assms(2)])
        (auto simp: Single begin_call_def begin_single_def enter_def lookup_store_def move_to_end_dget st interested_def
          nth_append Let_def split: option.splits if_splits)
  next
    case (Delete k)
    show ?thesis
      unfolding call_step_def Let_def case_prod_unfold
      by (rule payload_step [OF assms(1) _ _ _ _ _ _ assms(2)])
        (auto simp: Delete begin_call_def begin_delete_def enter_def split: option.splits if_splits)
  next
    case Clear
    show ?thesis
      unfolding call_step_def Let_def case_prod_unfold
      by (rule payload_step [OF assms(1) _ _ _ _ _ _ assms(2)]) (auto simp: Clear begin_call_def begin_clear_def enter_def)
  qed
qed

lemma exc_update: "fs[f := Some (Exc e)] ! g = Some (Result v) \<Longrightarrow> g < length fs \<Longrightarrow> fs ! g = Some (Result v)"
  by (cases "g = f") auto

lemma payload_run:
  assumes "payload_inv P s" and "cache_inv s" and th: "threads s t = Running cl p"
    and adv: "advance_call (call_key cl) m d p (shared s) = Some (r, c)"
    and "\<And>v b. d = Delivers v b \<Longrightarrow> P (call_key cl) v"
  shows "payload_inv P (s\<lparr>shared := c, threads := (threads s)(t := enter cl r)\<rparr>)"
proof -
  have d: "wf_dict (store (shared s))" using assms(2) by (simp add: cache_inv_def dicts_ok_def)
  have ok: "thread_ok P (Running cl p)" using assms(1) th unfolding payload_inv_def by metis
  have int: "P k v" if "interested (shared s) (threads s) k f" "futures (shared s) ! f = Some (Result v)" for k f v
    using that assms(1) unfolding payload_inv_def by blast
  have lead: "j = call_key cl" if "interested (shared s) (threads s) j f" "leads (threads s t) = Some (call_key cl, f)" for j f
    using that assms(2) unfolding interested_def cache_inv_def slots_ok_def leaders_ok_def waiters_ok_def
    by (metis Pair_inject option.inject)
  note step = payload_step [OF assms(1) _ _ _ _ _ _ assms(2)]
  show ?thesis
  proof (cases p)
    case Passing
    with adv ok show ?thesis by (intro step) (auto simp: enter_def assms(5) split: delivery.splits)
  next
    case (Computing f)
    with adv th show ?thesis by (intro step) (auto simp: enter_def assms(5) split: delivery.splits)
  next
    case (Storing f v b)
    with adv th ok show ?thesis
      by (intro step) (auto simp: enter_def interested_def dest!: dget_put_store [OF d] split: if_splits)
  next
    case (Settling f x)
    with adv th ok show ?thesis
      by (cases "pending (shared s) f"; cases x; intro step) (auto simp: enter_def finish_settle_def)
  next
    case (Setting f x)
    show ?thesis
    proof (cases "pending (shared s) f")
      case True
      with Setting adv have r: "r = Inl (Releasing f x)" "c = resolve_future f x (shared s)"
        by (auto simp: set_result_def)
      have "futures (shared s) ! g = Some (Result v) \<or> P k v"
        if "interested (shared s) (threads s) k g" "futures c ! g = Some (Result v)" "g < length (futures (shared s))" for k g v
        using that r(2) ok Setting th lead [of k f]
        by (cases "g = f") (auto simp: resolve_future_def)
      with r Setting th ok show ?thesis
        by (cases x; intro step) (auto simp: enter_def resolve_future_def)
    next
      case False
      with Setting adv show ?thesis by (intro step) (auto simp: enter_def set_result_def)
    qed
  next
    case (Releasing f x)
    with adv ok show ?thesis
      by (cases x; intro step) (auto simp: enter_def release_slot_def answer_of_def split: if_splits)
  next
    case (Waiting f)
    with th have "waits (threads s t) = Some (call_key cl, f)" by simp
    then have "interested (shared s) (threads s) (call_key cl) f" unfolding interested_def by blast
    note mine = int [OF this]
    from Waiting adv obtain z where "futures (shared s) ! f = Some z" "r = Inr (answer_of z)" "c = shared s" by auto
    with mine show ?thesis by (cases z; intro step) (auto simp: enter_def answer_of_def)
  next
    case (Abandoning fs a)
    with adv ok show ?thesis
      by (cases fs; cases a; intro step) (auto simp: enter_def split: if_splits)
  next
    case (Dropping f fs a)
    with adv ok show ?thesis
      by (cases a; intro step)
        (auto simp: enter_def resolve_abandoned_def resolve_future_def dest: exc_update split: if_splits)
  qed
qed

definition genuine :: "(call \<Rightarrow> bool) \<Rightarrow> (string \<Rightarrow> delivery \<Rightarrow> bool) \<Rightarrow> string \<Rightarrow> string \<Rightarrow> bool" where
  "genuine A D k v \<longleftrightarrow> (\<exists>b. D k (Delivers v b)) \<or> (\<exists>m. A (Put k v m))"

definition full_inv :: "(call \<Rightarrow> bool) \<Rightarrow> (string \<Rightarrow> delivery \<Rightarrow> bool) \<Rightarrow> cache_system \<Rightarrow> bool" where
  "full_inv A D s \<longleftrightarrow> cache_inv s \<and> payload_inv (genuine A D) s"

lemma full_step: "full_inv A D s \<Longrightarrow> cache_step A D s s' \<Longrightarrow> full_inv A D s'"
proof (erule cache_stepE)
  fix t cl assume a: "full_inv A D s" "s' = call_step t cl s" "may_call (threads s t)" "A cl"
  then show "full_inv A D s'"
    using payload_call [of "genuine A D" s t cl] call_step_inv [of s t cl] by (auto simp: full_inv_def genuine_def)
next
  fix t cl p d assume a: "full_inv A D s" "threads s t = Running cl p" "D (call_key cl) d" "run_step t d s = Some s'"
  from run_stepD [OF a(4,2)] obtain r c where r: "advance_call (call_key cl) (call_cap cl) d p (shared s) = Some (r, c)"
    and s': "s' = s\<lparr>shared := c, threads := (threads s)(t := enter cl r)\<rparr>" by blast
  have "genuine A D (call_key cl) v" if "d = Delivers v b" for v b using that a(3) by (auto simp: genuine_def)
  with payload_run [OF _ _ a(2) r, of "genuine A D"] cache_advance_inv [OF _ a(2) r] a(1) s'
  show "full_inv A D s'" by (simp add: full_inv_def)
qed

interpretation cache_answers: invariant_system "\<lambda>s. s = new_system" "cache_step A D" "full_inv A D"
proof
  show "full_inv A D s" if "s = new_system" for s
    using that new_system_inv by (simp add: full_inv_def payload_inv_def new_system_def new_cache_def interested_def)
qed (rule full_step)

text \<open>C28. Answers belong to their key: whatever the interleaving, with evictions, deletions and failing computations,
  a call of a key only returns a payload that a computation delivered or a \<open>set\<close> stored for that key, and so
  does the store.\<close>

theorem answers_belong_to_their_key:
  assumes "cache_reachable A D s"
  shows "(threads s t = Finished cl (Payload v) \<longrightarrow> genuine A D (call_key cl) v) \<and>
    (dget (store (shared s)) k = Some w \<longrightarrow> genuine A D k w)"
proof -
  from cache_answers.reachable_inv [OF assms] have p: "payload_inv (genuine A D) s" by (simp add: full_inv_def)
  then have ok: "thread_ok (genuine A D) (threads s t)" and st: "dget (store (shared s)) k = Some w \<longrightarrow> genuine A D k w"
    unfolding payload_inv_def by blast+
  from ok have "threads s t = Finished cl (Payload v) \<longrightarrow> genuine A D (call_key cl) v" by auto
  with st show ?thesis by blast
qed

section \<open>Without deletions\<close>

definition tame :: "future_result \<Rightarrow> bool" where
  "tame r \<longleftrightarrow> r \<noteq> Exc ClearedError \<and> r \<noteq> Exc InvalidStateError"

fun plain :: "thread \<Rightarrow> bool" where
  "plain (Running cl (Settling f r)) = tame r"
| "plain (Running cl (Setting f r)) = tame r"
| "plain (Running cl (Releasing f r)) = tame r"
| "plain (Running cl (Abandoning fs a)) = False"
| "plain (Running cl (Dropping f fs a)) = False"
| "plain (Finished cl a) = (a \<noteq> Failed ClearedError \<and> a \<noteq> Failed InvalidStateError)"
| "plain _ = True"

definition solo_inv :: "cache_system \<Rightarrow> bool" where
  "solo_inv s \<longleftrightarrow> cache_inv s \<and> (\<forall>t. plain (threads s t)) \<and> (\<forall>r. Some r \<in> set (futures (shared s)) \<longrightarrow> tame r) \<and>
     (\<forall>t k f. leads (threads s t) = Some (k, f) \<longrightarrow> dget (inflight (shared s)) k = Some f)"

lemma tame_answer: "tame r \<Longrightarrow> plain (Finished cl (answer_of r))"
  by (cases r) (auto simp: answer_of_def tame_def)

lemma solo_leader:
  "solo_inv s \<Longrightarrow> leads (threads s t) = Some (k, f) \<Longrightarrow> leads (threads s u) = Some (k, g) \<Longrightarrow> u = t \<and> g = f"
  unfolding solo_inv_def cache_inv_def leaders_ok_def by (metis option.inject)

lemma solo_change:
  assumes "solo_inv s" and "cache_inv (s\<lparr>shared := c, threads := (threads s)(t := x)\<rparr>)" and "plain x"
    and "\<And>r. Some r \<in> set (futures c) \<Longrightarrow> Some r \<in> set (futures (shared s)) \<or> tame r"
    and "\<And>k f. leads x = Some (k, f) \<Longrightarrow> dget (inflight c) k = Some f"
    and "\<And>k f. dget (inflight (shared s)) k = Some f \<Longrightarrow> dget (inflight c) k = Some f \<or> leads (threads s t) = Some (k, f)"
  shows "solo_inv (s\<lparr>shared := c, threads := (threads s)(t := x)\<rparr>)"
proof -
  have "dget (inflight c) k = Some f" if "leads (threads s u) = Some (k, f)" "u \<noteq> t" for u k f
  proof -
    from that(1) assms(1) have "dget (inflight (shared s)) k = Some f" unfolding solo_inv_def by blast
    with assms(6) solo_leader [OF assms(1) that(1)] that(2) show ?thesis by blast
  qed
  moreover have "tame r" if "Some r \<in> set (futures c)" for r
    using assms(4) [OF that] assms(1) unfolding solo_inv_def by blast
  ultimately show ?thesis using assms(1,2,3,5) unfolding solo_inv_def by auto
qed

lemma solo_call:
  assumes "solo_inv s" and "may_call (threads s t)" and "\<forall>k. cl \<noteq> Delete k" and "cl \<noteq> Clear"
  shows "solo_inv (call_step t cl s)"
proof -
  have "cache_inv (call_step t cl s)" using assms by (simp add: solo_inv_def call_step_inv)
  with assms(3,4) show ?thesis
    unfolding call_step_def Let_def case_prod_unfold
    by (intro solo_change [OF assms(1)]; cases cl)
      (auto simp: begin_call_def begin_get_def begin_put_def begin_single_def enter_def lookup_store_def Let_def
        split: option.splits if_splits)
qed

lemma solo_run:
  assumes "solo_inv s" and th: "threads s t = Running cl p"
    and adv: "advance_call (call_key cl) m d p (shared s) = Some (r, c)"
  shows "solo_inv (s\<lparr>shared := c, threads := (threads s)(t := enter cl r)\<rparr>)"
proof -
  have ci: "cache_inv (s\<lparr>shared := c, threads := (threads s)(t := enter cl r)\<rparr>)"
    using assms by (auto simp: solo_inv_def intro: cache_advance_inv)
  have ok: "plain (Running cl p)" using assms(1) th unfolding solo_inv_def by metis
  have slot: "leads (threads s t) = Some (k, f) \<Longrightarrow> dget (inflight (shared s)) k = Some f" for k f
    using assms(1) unfolding solo_inv_def by blast
  note step = solo_change [OF assms(1) ci]
  show ?thesis
  proof (cases p)
    case Passing
    with adv show ?thesis by (intro step) (auto simp: enter_def split: delivery.splits)
  next
    case (Computing f)
    with adv th slot show ?thesis by (intro step) (auto simp: enter_def tame_def split: delivery.splits)
  next
    case (Storing f v b)
    with adv th slot show ?thesis by (intro step) (auto simp: enter_def tame_def split: if_splits)
  next
    case (Settling f x)
    with adv th slot ok show ?thesis by (intro step) (auto simp: enter_def finish_settle_def split: if_splits)
  next
    case (Setting f x)
    have "pending (shared s) f"
      using lost_slot [of s t f] slot [of "call_key cl" f] assms(1) th Setting by (auto simp: solo_inv_def)
    with Setting adv th slot ok show ?thesis
      by (intro step) (auto simp: enter_def set_result_def resolve_future_def dest!: set_update_subset_insert [THEN subsetD])
  next
    case (Releasing f x)
    with adv th ok tame_answer [of x cl] show ?thesis
      by (intro step) (auto simp: enter_def release_slot_def split: if_splits)
  next
    case (Waiting f)
    then have "waits (threads s t) = Some (call_key cl, f)" using th by simp
    then have "f < length (futures (shared s))" using assms(1) unfolding solo_inv_def cache_inv_def waiters_ok_def by blast
    moreover from Waiting adv obtain z where z: "futures (shared s) ! f = Some z" "r = Inr (answer_of z)" "c = shared s" by auto
    ultimately have "Some z \<in> set (futures (shared s))" by (metis nth_mem)
    then have "tame z" using assms(1) unfolding solo_inv_def by blast
    with z tame_answer [of z cl] show ?thesis by (intro step) (auto simp: enter_def)
  qed (use ok in simp_all)
qed

lemma solo_step:
  assumes "solo_inv s" and "cache_step A D s s'" and "\<forall>k. \<not> A (Delete k)" and "\<not> A Clear"
  shows "solo_inv s'"
  using assms(2)
proof (rule cache_stepE)
  fix t cl assume "s' = call_step t cl s" "may_call (threads s t)" "A cl"
  then show ?thesis using solo_call [OF assms(1)] assms(3,4) by metis
next
  fix t cl p d assume a: "threads s t = Running cl p" "run_step t d s = Some s'"
  from run_stepD [OF a(2,1)] solo_run [OF assms(1) a(1)] show ?thesis by blast
qed

text \<open>Who runs a computation: a leader, or a call with capacity 0, which goes past the cache.\<close>

fun computes :: "thread \<Rightarrow> (string \<times> int) option" where
  "computes (Running cl (Computing f)) = Some (call_key cl, call_cap cl)"
| "computes (Running cl Passing) = Some (call_key cl, call_cap cl)"
| "computes _ = None"

definition passing_ok :: "cache_system \<Rightarrow> bool" where
  "passing_ok s \<longleftrightarrow> (\<forall>t cl. threads s t = Running cl Passing \<longrightarrow> call_cap cl = 0)"

lemma advance_not_passing: "advance_call k m d p c \<noteq> Some (Inl Passing, c')"
  by (induction k m d p c rule: advance_call.induct)
    (auto simp: finish_settle_def set_result_def resolve_abandoned_def split: delivery.splits)

lemma begin_passing: "begin_call cl c = (Inl Passing, c') \<Longrightarrow> call_cap cl = 0"
  by (cases cl) (auto simp: begin_call_def begin_single_def begin_delete_def begin_clear_def begin_get_def begin_put_def Let_def
      split: prod.splits option.splits if_splits)

lemma passing_step: "passing_ok s \<Longrightarrow> cache_step A D s s' \<Longrightarrow> passing_ok s'"
proof (erule cache_stepE)
  fix t cl assume "passing_ok s" "s' = call_step t cl s"
  then show ?thesis
    using begin_passing [of cl "shared s"]
    by (cases "begin_call cl (shared s)") (auto simp: passing_ok_def call_step_def enter_def split: sum.splits)
next
  fix t cl p d assume ok: "passing_ok s" and a: "threads s t = Running cl p" "run_step t d s = Some s'"
  from run_stepD [OF a(2,1)] obtain r c where "advance_call (call_key cl) (call_cap cl) d p (shared s) = Some (r, c)"
    and s': "s' = s\<lparr>shared := c, threads := (threads s)(t := enter cl r)\<rparr>" by blast
  with advance_not_passing have "r \<noteq> Inl Passing" by blast
  with ok show ?thesis by (auto simp: passing_ok_def s' enter_def split: sum.splits)
qed

lemma reachable_passing: "cache_reachable A D s \<Longrightarrow> passing_ok s"
proof (induction rule: reachable.induct)
  case (reach_init s)
  then show ?case by (simp add: passing_ok_def new_system_def)
next
  case (reach_step s s')
  then show ?case using passing_step by blast
qed

lemma computes_leads:
  "passing_ok s \<Longrightarrow> computes (threads s t) = Some (k, m) \<Longrightarrow> m \<noteq> 0 \<Longrightarrow> \<exists>f. leads (threads s t) = Some (k, f)"
  by (cases "threads s t" rule: computes.cases) (auto simp: passing_ok_def)

text \<open>C29. Single flight: as long as nothing is deleted, at most one thread at a time computes a key with a capacity
  above 0 or hands out what it computed (a capacity of 0 computes past the cache), and no call ends with a
  cleared or an already resolved future; what fails is a computation or a negative capacity.\<close>

theorem one_computation_at_a_time:
  assumes "cache_reachable A D s" and "\<forall>k. \<not> A (Delete k)" and "\<not> A Clear"
  shows "(computes (threads s t) = Some (k, m) \<longrightarrow> computes (threads s u) = Some (k, n) \<longrightarrow> m \<noteq> 0 \<longrightarrow> n \<noteq> 0 \<longrightarrow> u = t) \<and>
    (leads (threads s t) = Some (k, f) \<longrightarrow> leads (threads s u) = Some (k, g) \<longrightarrow> u = t) \<and>
    (threads s t = Finished cl (Failed e) \<longrightarrow> e \<noteq> ClearedError \<and> e \<noteq> InvalidStateError)"
proof -
  have "solo_inv s"
    using assms(1)
  proof (induction rule: reachable.induct)
    case (reach_init s)
    then show ?case using new_system_inv by (simp add: solo_inv_def new_system_def new_cache_def)
  next
    case (reach_step s s')
    then show ?case using solo_step assms(2,3) by blast
  qed
  note solo = this and lead = computes_leads [OF reachable_passing [OF assms(1)]]
  have "u = t" if "leads (threads s t) = Some (k, f)" "leads (threads s u) = Some (k, g)" for f g
    using solo_leader [OF solo that] by simp
  moreover have "u = t" if "computes (threads s t) = Some (k, m)" "computes (threads s u) = Some (k, n)" "m \<noteq> 0" "n \<noteq> 0"
    using lead [OF that(1,3)] lead [OF that(2,4)] calculation by blast
  moreover have "e \<noteq> ClearedError \<and> e \<noteq> InvalidStateError" if "threads s t = Finished cl (Failed e)"
    using solo that unfolding solo_inv_def by (metis plain.simps(6))
  ultimately show ?thesis by blast
qed

section \<open>Least recently used\<close>

text \<open>The reference keeps every key ever stored, ordered by its last use, and holds the last \<open>m\<close>.\<close>

definition stored :: "int \<Rightarrow> (string, 'v) pydict \<Rightarrow> (string, 'v) pydict" where
  "stored m r = drop (length r - nat m) r"

fun lru_spec :: "int \<Rightarrow> call \<Rightarrow> (string, string) pydict \<Rightarrow> answer \<times> (string, string) pydict" where
  "lru_spec m (Get k) r =
     (case dget (stored m r) k of None \<Rightarrow> (Miss, r) | Some v \<Rightarrow> (Payload v, move_to_end k v r))"
| "lru_spec m (Put k v _) r = (Done, move_to_end k v r)"
| "lru_spec m _ r = (Done, r)"

lemma stored_append: "nat m \<le> length b \<Longrightarrow> stored m (a @ b) = stored m b"
  by (simp add: stored_def)

lemma stored_split: "r = take (length r - nat m) r @ stored m r"
  by (simp add: stored_def)

lemma stored_short: "length r \<le> nat m \<Longrightarrow> stored m r = r"
  by (simp add: stored_def)

lemma length_ddel: "wf_dict d \<Longrightarrow> length d = length (ddel d k) + (if dget d k = None then 0 else 1)"
proof (induction d)
  case (Cons p d)
  then have "wf_dict d" "fst p \<notin> fst ` set d" by (simp_all add: wf_dict_def)
  with Cons.IH show ?case by (cases "fst p = k") (auto simp: dget_None_iff)
qed simp

lemma length_move: "wf_dict d \<Longrightarrow> dget d k \<noteq> None \<Longrightarrow> length (move_to_end k v d) = length d"
  using length_ddel [of d k] by (simp add: move_to_end_def)

lemma stored_move:
  assumes "0 < m" and "wf_dict r"
  shows "stored m (move_to_end k v (stored m r)) = stored m (move_to_end k v r)"
proof -
  let ?a = "take (length r - nat m) r" and ?b = "stored m r"
  have r: "ddel r k = ddel ?a k @ ddel ?b k" by (subst stored_split [of r m]) (simp add: AList.delete_eq)
  have wf: "wf_dict ?b" using assms(2) by (simp add: stored_def wf_drop)
  show ?thesis
  proof (cases "length r \<le> nat m")
    case True
    then show ?thesis by (simp add: stored_def)
  next
    case False
    then have "nat m \<le> length (ddel ?b k @ [(k, v)])"
      using length_ddel [OF wf, of k] by (simp add: stored_def split: if_splits)
    with r show ?thesis unfolding move_to_end_def by (simp add: stored_append [symmetric])
  qed
qed

lemma put_move: "move_to_end k v (dset st k v) = move_to_end k v st"
  by (simp add: move_to_end_def AList.delete_update_same)

text \<open>The store is least recently used: a call of \<open>get\<close> or \<open>set\<close> with one capacity answers like the reference, and
  the store stays the part of it that was used last.\<close>

theorem store_is_least_recently_used:
  assumes "0 < m" and "wf_dict r" and "store c = stored m r" and "(\<exists>k. cl = Get k) \<or> (\<exists>k v. cl = Put k v m)"
  shows "\<exists>c'. begin_call cl c = (Inr (fst (lru_spec m cl r)), c') \<and> store c' = stored m (snd (lru_spec m cl r)) \<and>
    wf_dict (snd (lru_spec m cl r)) \<and> int (length (store c')) \<le> m"
proof -
  have wf: "wf_dict (stored m r)" using assms(2) by (simp add: stored_def wf_drop)
  have short: "int (length (stored m x)) \<le> m" for x :: "(string, string) pydict" using assms(1) by (simp add: stored_def)
  from assms(4) show ?thesis
  proof (elim disjE exE)
    fix k assume cl: "cl = Get k"
    show ?thesis
    proof (cases "dget (stored m r) k")
      case None
      with cl assms show ?thesis by (simp add: begin_call_def begin_get_def lookup_store_def short)
    next
      case (Some v)
      then have "stored m (move_to_end k v (stored m r)) = move_to_end k v (stored m r)"
        using length_move [OF wf, of k v] short [of r] by (intro stored_short) simp
      then have "move_to_end k v (stored m r) = stored m (move_to_end k v r)"
        using stored_move [OF assms(1,2), of k v] by simp
      with Some cl assms show ?thesis
        by (simp add: begin_call_def begin_get_def lookup_store_def short)
    qed
  next
    fix k v assume cl: "cl = Put k v m"
    have "evict m (move_to_end k v (stored m r)) = stored m (move_to_end k v r)"
      using assms(1) stored_move [OF assms(1,2), of k v] by (simp add: evict_drop stored_def)
    with cl assms show ?thesis
      by (simp add: begin_call_def begin_put_def put_store_def put_move short)
  qed
qed

section \<open>Deletion against a finishing leader\<close>

text \<open>The calls that abandon a future first: \<open>delete\<close> of its key, and \<open>clear\<close> when it is the oldest in flight.\<close>

definition deletes_first :: "string \<Rightarrow> nat \<Rightarrow> call \<Rightarrow> cache \<Rightarrow> bool" where
  "deletes_first k f cl c \<longleftrightarrow>
     (cl = Delete k \<and> dget (inflight c) k = Some f) \<or> (cl = Clear \<and> (\<exists>rest. inflight c = (k, f) # rest))"

lemma deletes_first_begin:
  "deletes_first k f cl c \<Longrightarrow>
     \<exists>fs a c'. begin_call cl c = (Inl (Abandoning (f # fs) a), c') \<and> futures c' = futures c"
  by (auto simp: deletes_first_def begin_call_def begin_delete_def begin_clear_def)

text \<open>Leader and deleter have both asked and found the future not done: whoever resolves it second raises.\<close>

lemma second_resolver_raises:
  assumes t: "threads s t = Running cl (Setting f r)" and u: "threads s u = Running cl' (Dropping f fs a)"
    and p: "pending (shared s) f" and f: "f < length (futures (shared s))"
  shows "\<exists>s'. play [Run u d, Run t d] s = Some s' \<and> threads s' t = Finished cl (Failed InvalidStateError)"
    and "\<exists>s'. play [Run t d, Run u d] s = Some s' \<and> threads s' u = Finished cl' (Failed InvalidStateError)"
proof -
  have ne: "t \<noteq> u" using t u by auto
  from t u p f ne show "\<exists>s'. play [Run u d, Run t d] s = Some s' \<and> threads s' t = Finished cl (Failed InvalidStateError)"
    by (simp add: run_step_def resolve_abandoned_def set_result_def enter_def resolve_future_def pending_def)
  from t u p f ne show "\<exists>s'. play [Run t d, Run u d] s = Some s' \<and> threads s' u = Finished cl' (Failed InvalidStateError)"
    by (simp add: run_step_def resolve_abandoned_def set_result_def enter_def resolve_future_def pending_def)
qed

text \<open>C30. Asking whether a future is done and resolving it are not one step. So in every reachable state in which a
  leader has its computed payload and still its slot, any thread outside the cache can race it with a
  deletion: after both have asked, the one that resolves first makes the other raise
  \<^verbatim>\<open>InvalidStateError\<close>, the leader out of \<open>single_flight\<close> although its computation succeeded, or the
  deleter out of \<open>delete\<close> or \<open>clear\<close>.\<close>

theorem deletion_races_with_leader:
  assumes "cache_reachable A D s" and "threads s t = Running (Single k m) (Settling f (Result v))"
    and "may_call (threads s u)" and "deletes_first k f cl (shared s)"
  shows "\<exists>s1. play [Begin u cl, Run t d, Run u d] s = Some s1 \<and>
    (\<exists>s2. play [Run u d, Run t d] s1 = Some s2 \<and> threads s2 t = Finished (Single k m) (Failed InvalidStateError)) \<and>
    (\<exists>s3. play [Run t d, Run u d] s1 = Some s3 \<and> threads s3 u = Finished cl (Failed InvalidStateError))"
proof -
  note inv = memory_cache.reachable_inv [OF assms(1), unfolded cache_inv_def]
  have ne: "t \<noteq> u" using assms(2,3) by (auto simp: may_call_def)
  have "leads (threads s t) = Some (k, f)" "unsettled (threads s t) = Some f" by (simp_all add: assms(2))
  moreover have "dget (inflight (shared s)) k = Some f" using assms(4) by (auto simp: deletes_first_def)
  ultimately have p: "pending (shared s) f" and f: "f < length (futures (shared s))"
    using inv unfolding leaders_ok_def futures_ok_def by blast+
  from deletes_first_begin [OF assms(4)] obtain fs a c' where
    b: "begin_call cl (shared s) = (Inl (Abandoning (f # fs) a), c')" "futures c' = futures (shared s)" by blast
  let ?s = "call_step u cl s"
  let ?s1 = "?s\<lparr>threads := (threads ?s)(t := Running (Single k m) (Setting f (Result v)), u := Running cl (Dropping f fs a))\<rparr>"
  have "play [Begin u cl, Run t d, Run u d] s = Some ?s1"
    using assms(2,3) b p ne
    by (simp add: call_step_def run_step_def enter_def finish_settle_def pending_def fun_upd_twist)
  moreover have "threads ?s1 t = Running (Single k m) (Setting f (Result v))" "threads ?s1 u = Running cl (Dropping f fs a)"
    "pending (shared ?s1) f" "f < length (futures (shared ?s1))"
    using ne p f b by (simp_all add: call_step_def pending_def)
  note second_resolver_raises [OF this]
  ultimately show ?thesis by blast
qed

section \<open>Witnesses\<close>

definition any_delivery :: "string \<Rightarrow> delivery \<Rightarrow> bool" where
  "any_delivery k d \<longleftrightarrow> True"

fun no_deletion :: "call \<Rightarrow> bool" where
  "no_deletion (Delete k) = False"
| "no_deletion Clear = False"
| "no_deletion _ = True"

fun allowed :: "(call \<Rightarrow> bool) \<Rightarrow> move \<Rightarrow> bool" where
  "allowed A (Begin t cl) = A cl"
| "allowed A (Run t d) = True"

lemma play_reachable:
  "play ms s = Some s' \<Longrightarrow> cache_reachable A any_delivery s \<Longrightarrow> list_all (allowed A) ms \<Longrightarrow>
    cache_reachable A any_delivery s'"
proof (induction ms s rule: play.induct)
  case (2 t cl ms s)
  then have m: "may_call (threads s t)" and p: "play ms (call_step t cl s) = Some s'" by (auto split: if_splits)
  have "cache_step A any_delivery s (call_step t cl s)" using m 2(4) by (intro cache_call) simp_all
  with 2(3) have "cache_reachable A any_delivery (call_step t cl s)" by (rule reach_step)
  with "2.IH" [OF m p] 2(4) show ?case by simp
next
  case (3 t d ms s)
  then obtain s1 where r: "run_step t d s = Some s1" and p: "play ms s1 = Some s'" by (auto split: option.splits)
  then obtain cl p where "threads s t = Running cl p" by (auto simp: run_step_def split: thread.splits)
  then have "cache_step A any_delivery s s1" by (rule cache_run [where d = d]) (simp_all add: r any_delivery_def)
  with 3(3) have "cache_reachable A any_delivery s1" by (rule reach_step)
  with "3.IH" [OF r p] 3(4) show ?case by simp
qed simp

text \<open>Thread 0 computes a key, thread 1 waits for it.\<close>

definition waiting_moves :: "move list" where
  "waiting_moves = [Begin 0 (Single ''k'' 4), Begin 1 (Single ''k'' 4)]"

definition finished_moves :: "move list" where
  "finished_moves = waiting_moves @ [Run 0 (Delivers ''v'' True), Run 0 (Raises []), Run 0 (Raises []), Run 0 (Raises []), Run 1 (Raises [])]"

definition after_moves :: "move list \<Rightarrow> cache_system" where
  "after_moves ms = (case play ms new_system of Some s \<Rightarrow> s | None \<Rightarrow> new_system)"

lemma after_reachable:
  "play ms new_system \<noteq> None \<Longrightarrow> list_all (allowed A) ms \<Longrightarrow> cache_reachable A any_delivery (after_moves ms)"
  by (auto simp: after_moves_def intro: play_reachable reach_init)

lemma demo_moves:
  "play waiting_moves new_system \<noteq> None" "play finished_moves new_system \<noteq> None"
  "list_all (allowed no_deletion) waiting_moves" "list_all (allowed no_deletion) finished_moves"
  "threads (after_moves waiting_moves) 1 = Running (Single ''k'' 4) (Waiting 0)"
  "threads (after_moves waiting_moves) 0 = Running (Single ''k'' 4) (Computing 0)"
  "threads (after_moves finished_moves) 1 = Finished (Single ''k'' 4) (Payload ''v'')"
  "run_step 1 (Raises []) (after_moves waiting_moves) = None"
  by (simp_all add: waiting_moves_def finished_moves_def after_moves_def call_step_def begin_call_def begin_single_def
      lookup_store_def enter_def new_system_def new_cache_def may_call_def run_step_def finish_settle_def set_result_def
      pending_def resolve_future_def put_store_def move_to_end_def evict.simps answer_of_def Let_def)

theorem no_waiter_is_stranded_witness:
  "\<exists>f u. Waiting 0 = Waiting f \<and> u \<noteq> 1 \<and> leads (threads (after_moves waiting_moves) u) = Some (''k'', f)"
  using no_waiter_is_stranded [OF after_reachable [OF demo_moves(1,3)] demo_moves(5), of "Raises []"] demo_moves(8)
  by auto

theorem answers_belong_to_their_key_witness: "genuine no_deletion any_delivery ''k'' ''v''"
  using answers_belong_to_their_key [OF after_reachable [OF demo_moves(2,4)], of 1 "Single ''k'' 4" "''v''"] demo_moves(7)
  by simp

theorem one_computation_at_a_time_witness:
  "computes (threads (after_moves waiting_moves) 0) = Some (''k'', 4) \<and>
   computes (threads (after_moves waiting_moves) 1) \<noteq> Some (''k'', 4)"
  using one_computation_at_a_time [OF after_reachable [OF demo_moves(1,3)], of 0 "''k''" 4 1 4] demo_moves(6)
  by auto

definition settling_moves :: "move list" where
  "settling_moves = [Begin 0 (Single ''k'' 4), Run 0 (Delivers ''v'' True), Run 0 (Raises [])]"

lemma settling_facts:
  "play settling_moves new_system \<noteq> None" "list_all (allowed (\<lambda>_. True)) settling_moves"
  "threads (after_moves settling_moves) 0 = Running (Single ''k'' 4) (Settling 0 (Result ''v''))"
  "threads (after_moves settling_moves) 1 = Idle" "inflight (shared (after_moves settling_moves)) = [(''k'', 0)]"
  by (simp_all add: settling_moves_def after_moves_def call_step_def begin_call_def begin_single_def lookup_store_def enter_def
      new_system_def new_cache_def may_call_def run_step_def put_store_def move_to_end_def evict.simps Let_def)

theorem deletion_races_with_leader_witness:
  "\<exists>s. cache_reachable (\<lambda>_. True) any_delivery s \<and> threads s 0 = Finished (Single ''k'' 4) (Failed InvalidStateError)"
proof -
  note r = after_reachable [OF settling_facts(1,2)]
  have "may_call (threads (after_moves settling_moves) 1)" "deletes_first ''k'' 0 Clear (shared (after_moves settling_moves))"
    by (simp_all add: settling_facts(4) [unfolded One_nat_def] settling_facts(5) may_call_def deletes_first_def)
  from deletion_races_with_leader [OF r settling_facts(3) this, of "Raises []"] obtain s1 s2
    where 1: "play [Begin 1 Clear, Run 0 (Raises []), Run 1 (Raises [])] (after_moves settling_moves) = Some s1"
      and 2: "play [Run 1 (Raises []), Run 0 (Raises [])] s1 = Some s2"
        "threads s2 0 = Finished (Single ''k'' 4) (Failed InvalidStateError)" by blast
  have "cache_reachable (\<lambda>_. True) any_delivery s1" by (rule play_reachable [OF 1 r]) simp
  then have "cache_reachable (\<lambda>_. True) any_delivery s2" by (rule play_reachable [OF 2(1)]) simp
  with 2(2) show ?thesis by blast
qed

theorem store_is_least_recently_used_witness:
  "\<exists>c'. begin_call (Get ''a'') \<lparr>store = [(''a'', ''1''), (''b'', ''2'')], inflight = [], futures = []\<rparr> = (Inr (Payload ''1''), c') \<and>
    store c' = [(''b'', ''2''), (''a'', ''1'')]"
  using store_is_least_recently_used [of 2 "[(''c'', ''0''), (''a'', ''1''), (''b'', ''2'')]"
      "\<lparr>store = [(''a'', ''1''), (''b'', ''2'')], inflight = [], futures = []\<rparr>" "Get ''a''"]
  by (simp add: stored_def wf_dict_def move_to_end_def) blast

end
