(* ===== verification/EventBus.thy ===== *)
theory EventBus
  imports Json
begin

text \<open>
  The per-job event bus (\<^verbatim>\<open>backend/shared/job_event_bus/bus.py\<close>). A subscription is an object that the bus and
  one consumer share, so subscriptions live in a store and the bus holds their addresses, which are
  handed out in order. Every operation runs under the lock of the bus and is one step; what
  \<open>cleanup_job\<close> and \<open>reap_once\<close> do after the lock only touches subscriptions that are no longer attached.
  Clock readings are arguments, in microseconds.
\<close>

section \<open>State\<close>

record subscription =
  notify :: bool
  queued :: "jdict list"
  created_at :: int
  last_activity :: int
  closed :: bool

record bus =
  subscribers :: "(string, nat list) pydict"
  job_created_at :: "(string, int) pydict"
  objects :: "subscription list"

definition empty_bus :: bus where
  "empty_bus = \<lparr>subscribers = [], job_created_at = [], objects = []\<rparr>"

datatype bus_error = BusValueError string

definition max_queue :: nat where
  "max_queue = 500"

text \<open>\<open>append\<close> on a \<open>deque(maxlen=500)\<close>.\<close>

definition push_event :: "jdict \<Rightarrow> jdict list \<Rightarrow> jdict list" where
  "push_event e q = (let q = q @ [e] in drop (length q - max_queue) q)"

definition on_sub :: "nat \<Rightarrow> (subscription \<Rightarrow> subscription) \<Rightarrow> bus \<Rightarrow> bus" where
  "on_sub i f b = b\<lparr>objects := (objects b)[i := f (objects b ! i)]\<rparr>"

fun on_subs :: "nat list \<Rightarrow> (subscription \<Rightarrow> subscription) \<Rightarrow> bus \<Rightarrow> bus" where
  "on_subs [] f b = b"
| "on_subs (i # is) f b = on_subs is f (on_sub i f b)"

definition touch :: "int \<Rightarrow> subscription \<Rightarrow> subscription" where
  "touch now s = s\<lparr>last_activity := now\<rparr>"

definition deliver :: "int \<Rightarrow> jdict \<Rightarrow> subscription \<Rightarrow> subscription" where
  "deliver now e s = s\<lparr>queued := push_event e (queued s), last_activity := now, notify := True\<rparr>"

definition end_stream :: "subscription \<Rightarrow> subscription" where
  "end_stream s = s\<lparr>closed := True, notify := True\<rparr>"

definition subs_of :: "bus \<Rightarrow> string \<Rightarrow> nat list" where
  "subs_of b job = (case dget (subscribers b) job of None \<Rightarrow> [] | Some is \<Rightarrow> is)"

definition forget_job :: "string \<Rightarrow> bus \<Rightarrow> bus" where
  "forget_job job b =
     b\<lparr>subscribers := ddel (subscribers b) job, job_created_at := ddel (job_created_at b) job\<rparr>"

section \<open>Operations\<close>

text \<open>\<open>c\<close> and \<open>l\<close> are the two clock readings of the new subscription.\<close>

definition subscribe :: "string \<Rightarrow> int \<Rightarrow> int \<Rightarrow> bus \<Rightarrow> nat \<times> bus" where
  "subscribe job c l b =
     (let i = length (objects b);
          s = \<lparr>notify = False, queued = [], created_at = c, last_activity = l, closed = False\<rparr>;
          b = b\<lparr>objects := objects b @ [s]\<rparr>;
          b = (if has_key (subscribers b) job then b
               else b\<lparr>subscribers := dset (subscribers b) job [], job_created_at := dset (job_created_at b) job c\<rparr>)
      in (i, b\<lparr>subscribers := dset (subscribers b) job (subs_of b job @ [i])\<rparr>))"

definition unsubscribe :: "string \<Rightarrow> nat \<Rightarrow> bus \<Rightarrow> bus" where
  "unsubscribe job i b =
     (case dget (subscribers b) job of
        None \<Rightarrow> b
      | Some is \<Rightarrow>
          if remove1 i is = [] then forget_job job b
          else b\<lparr>subscribers := dset (subscribers b) job (remove1 i is)\<rparr>)"

text \<open>The fields of the bus are set last, so the event cannot override them. \<open>ts\<close> is the formatted time.\<close>

definition stamp :: "jdict \<Rightarrow> string option \<Rightarrow> string \<Rightarrow> jdict" where
  "stamp e ty ts =
     dset (case ty of Some t \<Rightarrow> if t \<noteq> [] then dset e ''type'' (JStr t) else e | None \<Rightarrow> e) ''ts'' (JStr ts)"

definition publish :: "string \<Rightarrow> jdict \<Rightarrow> string option \<Rightarrow> string \<Rightarrow> int \<Rightarrow> bus \<Rightarrow> bus" where
  "publish job e ty ts now b = on_subs (subs_of b job) (deliver now (stamp e ty ts)) b"

definition cleanup_job :: "string \<Rightarrow> bus \<Rightarrow> bus" where
  "cleanup_job job b = on_subs (subs_of b job) end_stream (forget_job job b)"

section \<open>The reaper\<close>

record reaping =
  rp_bus :: bus
  rp_jobs :: nat
  rp_subs :: nat
  rp_woken :: "nat list"

definition mark_closed :: "subscription \<Rightarrow> subscription" where
  "mark_closed s = s\<lparr>closed := True\<rparr>"

definition wake :: "subscription \<Rightarrow> subscription" where
  "wake s = s\<lparr>notify := True\<rparr>"

definition idle :: "int \<Rightarrow> int \<Rightarrow> bus \<Rightarrow> nat \<Rightarrow> bool" where
  "idle ttl now b i \<longleftrightarrow> ttl < now - last_activity (objects b ! i)"

definition reap_job :: "int \<Rightarrow> int \<Rightarrow> string \<Rightarrow> reaping \<Rightarrow> reaping" where
  "reap_job ttl now job r =
     (let b = rp_bus r;
          gone = filter (idle ttl now b) (subs_of b job);
          kept = filter (\<lambda>i. \<not> idle ttl now b i) (subs_of b job);
          b = on_subs gone mark_closed b
      in r\<lparr>rp_bus := (if kept \<noteq> [] then b\<lparr>subscribers := dset (subscribers b) job kept\<rparr> else forget_job job b),
           rp_jobs := rp_jobs r + (if kept \<noteq> [] then 0 else 1),
           rp_subs := rp_subs r + length gone,
           rp_woken := rp_woken r @ gone\<rparr>)"

fun reap_jobs :: "int \<Rightarrow> int \<Rightarrow> string list \<Rightarrow> reaping \<Rightarrow> reaping" where
  "reap_jobs ttl now [] r = r"
| "reap_jobs ttl now (job # jobs) r = reap_jobs ttl now jobs (reap_job ttl now job r)"

definition evict_job :: "string \<Rightarrow> reaping \<Rightarrow> reaping" where
  "evict_job job r =
     (let b = rp_bus r; gone = subs_of b job
      in r\<lparr>rp_bus := on_subs gone mark_closed (forget_job job b), rp_jobs := rp_jobs r + 1,
           rp_subs := rp_subs r + length gone, rp_woken := rp_woken r @ gone\<rparr>)"

lemma on_sub_frame [simp]:
  "subscribers (on_sub i f b) = subscribers b" "job_created_at (on_sub i f b) = job_created_at b"
  "length (objects (on_sub i f b)) = length (objects b)"
  by (simp_all add: on_sub_def)

lemma on_subs_frame [simp]:
  "subscribers (on_subs is f b) = subscribers b" "job_created_at (on_subs is f b) = job_created_at b"
  "length (objects (on_subs is f b)) = length (objects b)"
  by (induction "is" f b rule: on_subs.induct) simp_all

text \<open>The oldest job is the first key; the loop stops when there is none.\<close>

function evict_oldest :: "nat \<Rightarrow> reaping \<Rightarrow> reaping" where
  "evict_oldest cap r =
     (if length (subscribers (rp_bus r)) \<le> cap then r
      else (case job_created_at (rp_bus r) of
              [] \<Rightarrow> r
            | (job, _) # _ \<Rightarrow> evict_oldest cap (evict_job job r)))"
  by pat_completeness auto
termination
proof (relation "measure (\<lambda>(cap, r). length (job_created_at (rp_bus r)))")
  fix cap and r :: reaping and p :: "string \<times> int" and ps job c
  assume "job_created_at (rp_bus r) = p # ps" and "(job, c) = p"
  then have "length (ddel ps job) < length (job_created_at (rp_bus r))"
    using AList.length_delete_le [of job ps] by simp
  then show "((cap, evict_job job r), cap, r) \<in> measure (\<lambda>(cap, r). length (job_created_at (rp_bus r)))"
    using \<open>job_created_at (rp_bus r) = p # ps\<close> \<open>(job, c) = p\<close>
    by (auto simp: evict_job_def forget_job_def Let_def)
qed simp

declare evict_oldest.simps [simp del]

definition reap_once :: "int \<Rightarrow> int \<Rightarrow> int \<Rightarrow> bus \<Rightarrow> bus_error + ((nat \<times> nat) \<times> bus)" where
  "reap_once ttl max_jobs now b =
     (if ttl < 0 then Inl (BusValueError ''ttl_seconds must be >= 0'')
      else if max_jobs < 0 then Inl (BusValueError ''max_jobs must be >= 0'')
      else
        let r = reap_jobs ttl now (dkeys (subscribers b)) \<lparr>rp_bus = b, rp_jobs = 0, rp_subs = 0, rp_woken = []\<rparr>;
            r = evict_oldest (nat max_jobs) r
        in Inr ((rp_jobs r, rp_subs r), on_subs (rp_woken r) wake (rp_bus r)))"

end
