(* ===== verification/SseStream.thy ===== *)
theory SseStream
  imports EventBus
begin

text \<open>
  The progress stream of a job (\<^verbatim>\<open>backend/shared/sse/stream.py\<close>) on top of the event bus: one consumer that
  drains its subscription, relays the events, and ends after a terminal event, when the bus closed the
  subscription, or at its deadline. A frame is the event it renders, or the keepalive comment; the
  rendering itself is left out. Between any two steps of the stream other threads may use the bus:
  taking one event from the queue is a step, so is each look at \<^verbatim>\<open>closed\<close>.
\<close>

datatype frame = Data jdict | Keepalive

definition done_event :: jdict where
  "done_event = [(''type'', JStr ''done'')]"

definition closed_event :: jdict where
  "closed_event =
     [(''type'', JStr ''error''), (''error'', JStr ''stream closed: the server reclaimed this subscription'')]"

datatype stream_phase = Top | Draining bool "jdict list" bool | Checking | Waiting | Leaving | Ended

record stream =
  st_job :: string
  st_sub :: nat
  st_terminal :: "string list"
  st_deadline :: int
  st_async :: bool
  st_phase :: stream_phase
  st_out :: "frame list"

definition is_terminal :: "string list \<Rightarrow> jdict \<Rightarrow> bool" where
  "is_terminal tys e \<longleftrightarrow> (case dget e ''type'' of Some (JStr t) \<Rightarrow> t \<in> set tys | _ \<Rightarrow> False)"

text \<open>Subscribing, the snapshot, and the deadline, which is computed after both.\<close>

definition open_stream ::
  "string \<Rightarrow> string list \<Rightarrow> jdict option \<Rightarrow> bool \<Rightarrow> int \<Rightarrow> int \<Rightarrow> int \<Rightarrow> bus \<Rightarrow> stream \<times> bus" where
  "open_stream job tys snap async c l deadline b =
     (let (i, b) = subscribe job c l b
      in (\<lparr>st_job = job, st_sub = i, st_terminal = tys, st_deadline = deadline, st_async = async, st_phase = Top,
           st_out = (case snap of None \<Rightarrow> [] | Some e \<Rightarrow> [Data e])\<rparr>, b))"

text \<open>The end of a drain: \<open>closing\<close> is the second drain of a closed subscription.\<close>

definition finish_drain :: "bool \<Rightarrow> jdict list \<Rightarrow> bool \<Rightarrow> stream \<Rightarrow> stream" where
  "finish_drain closing lines sent st =
     st\<lparr>st_out := st_out st @ map Data lines @
          (if sent then [Data done_event] else if closing then [Data closed_event, Data done_event] else []),
        st_phase := (if sent \<or> closing then Leaving else Checking)\<rparr>"

definition pop_event :: "subscription \<Rightarrow> subscription" where
  "pop_event s = s\<lparr>queued := tl (queued s)\<rparr>"

definition clear_notify :: "subscription \<Rightarrow> subscription" where
  "clear_notify s = s\<lparr>notify := False\<rparr>"

definition in_phase :: "stream_phase \<Rightarrow> stream \<Rightarrow> stream" where
  "in_phase p st = st\<lparr>st_phase := p\<rparr>"

definition drain_step :: "bool \<Rightarrow> jdict list \<Rightarrow> bool \<Rightarrow> stream \<Rightarrow> bus \<Rightarrow> stream \<times> bus" where
  "drain_step closing lines sent st b =
     (case queued (objects b ! st_sub st) of
        [] \<Rightarrow> (finish_drain closing lines sent st, b)
      | e # _ \<Rightarrow>
          (in_phase (Draining closing (lines @ [e]) (sent \<or> is_terminal (st_terminal st) e)) st,
           on_sub (st_sub st) pop_event b))"

text \<open>The next step of the stream; \<open>None\<close> when it has ended.\<close>

definition advance_stream :: "int \<Rightarrow> stream \<Rightarrow> bus \<Rightarrow> (stream \<times> bus) option" where
  "advance_stream now st b =
     (case st_phase st of
        Top \<Rightarrow>
          if now < st_deadline st then Some (in_phase (Draining False [] False) st, on_sub (st_sub st) (touch now) b)
          else Some (in_phase Leaving st, b)
      | Draining closing lines sent \<Rightarrow> Some (drain_step closing lines sent st b)
      | Checking \<Rightarrow>
          if closed (objects b ! st_sub st) then Some (in_phase (Draining True [] False) st, b)
          else Some (in_phase Waiting (st\<lparr>st_out := st_out st @ [Keepalive]\<rparr>), b)
      | Waiting \<Rightarrow> Some (in_phase Top st, if st_async st then b else on_sub (st_sub st) clear_notify b)
      | Leaving \<Rightarrow> Some (in_phase Ended st, unsubscribe (st_job st) (st_sub st) b)
      | Ended \<Rightarrow> None)"

text \<open>The stream alone, with the clock standing.\<close>

fun own_run :: "nat \<Rightarrow> int \<Rightarrow> stream \<Rightarrow> bus \<Rightarrow> stream \<times> bus" where
  "own_run 0 now st b = (st, b)"
| "own_run (Suc n) now st b =
     (case advance_stream now st b of None \<Rightarrow> (st, b) | Some (st, b) \<Rightarrow> own_run n now st b)"

end
