(* ===== verification/EventBusProps.thy ===== *)
theory EventBusProps
  imports EventBus
begin

text \<open>
  Properties of the event bus: its invariant (both tables have the same jobs in the same order, every
  attached subscription is open and attached once), and exactly what a pass of the reaper does.
\<close>

section \<open>Objects\<close>

lemma on_sub_nth: "objects (on_sub i f b) ! j = (if j = i \<and> j < length (objects b) then f (objects b ! j) else objects b ! j)"
  by (cases "i < length (objects b)") (auto simp: on_sub_def nth_list_update list_update_beyond not_less)

lemma on_subs_nth:
  "distinct is \<Longrightarrow> j < length (objects b) \<Longrightarrow>
    objects (on_subs is f b) ! j = (if j \<in> set is then f (objects b ! j) else objects b ! j)"
  by (induction "is" f b rule: on_subs.induct) (auto simp: on_sub_nth)

lemma on_subs_idem:
  assumes "\<And>s. f (f s) = f s"
  shows "j < length (objects b) \<Longrightarrow>
    objects (on_subs is f b) ! j = (if j \<in> set is then f (objects b ! j) else objects b ! j)"
  using assms by (induction "is" f b rule: on_subs.induct) (auto simp: on_sub_nth)

lemma on_subs_keeps:
  assumes "\<And>s. p (f s) = p s"
  shows "p (objects (on_subs is f b) ! j) = p (objects b ! j)"
  using assms by (induction "is" f b rule: on_subs.induct) (simp_all add: on_sub_nth)

lemma sub_change_simps [simp]:
  "last_activity (mark_closed s) = last_activity s" "queued (mark_closed s) = queued s"
  "queued (end_stream s) = queued s" "queued (wake s) = queued s" "closed (wake s) = closed s"
  "last_activity (wake s) = last_activity s" "closed (touch now s) = closed s" "closed (deliver now e s) = closed s"
  "closed (mark_closed s)" "closed (end_stream s)" "notify (wake s)"
  by (simp_all add: mark_closed_def end_stream_def wake_def touch_def deliver_def)

lemma forget_job_simps [simp]:
  "subscribers (forget_job job b) = ddel (subscribers b) job" "objects (forget_job job b) = objects b"
  "job_created_at (forget_job job b) = ddel (job_created_at b) job"
  by (simp_all add: forget_job_def)

section \<open>The invariant\<close>

definition attached :: "bus \<Rightarrow> string \<Rightarrow> nat \<Rightarrow> bool" where
  "attached b job i \<longleftrightarrow> i \<in> set (subs_of b job)"

definition bus_inv :: "bus \<Rightarrow> bool" where
  "bus_inv b \<longleftrightarrow>
     dkeys (job_created_at b) = dkeys (subscribers b) \<and> wf_dict (subscribers b) \<and>
     (\<forall>job is. dget (subscribers b) job = Some is \<longrightarrow> is \<noteq> [] \<and> distinct is) \<and>
     (\<forall>job i. attached b job i \<longrightarrow> i < length (objects b) \<and> \<not> closed (objects b ! i)) \<and>
     (\<forall>job job' i. attached b job i \<longrightarrow> attached b job' i \<longrightarrow> job = job')"

lemma bus_invD:
  assumes "bus_inv b"
  shows "dkeys (job_created_at b) = dkeys (subscribers b)" and "wf_dict (subscribers b)"
    and "dget (subscribers b) job = Some is \<Longrightarrow> is \<noteq> [] \<and> distinct is"
    and "attached b job i \<Longrightarrow> i < length (objects b) \<and> \<not> closed (objects b ! i)"
    and "attached b job i \<Longrightarrow> attached b job' i \<Longrightarrow> job = job'"
  using assms unfolding bus_inv_def by blast+

lemma distinct_subs_of: "bus_inv b \<Longrightarrow> distinct (subs_of b job)"
  by (auto simp: subs_of_def split: option.split dest: bus_invD(3))

lemma dkeys_ddel: "dkeys (ddel d k) = removeAll k (dkeys d)"
  by (simp add: AList.delete_keys)

text \<open>A step that only detaches subscriptions and leaves the others open.\<close>

lemma bus_inv_shrink:
  assumes "bus_inv b" and "dkeys (job_created_at b') = dkeys (subscribers b')" and "wf_dict (subscribers b')"
    and "\<And>job is. dget (subscribers b') job = Some is \<Longrightarrow> is \<noteq> [] \<and> distinct is"
    and "\<And>job i. attached b' job i \<Longrightarrow> attached b job i \<and> closed (objects b' ! i) = closed (objects b ! i)"
    and "length (objects b) \<le> length (objects b')"
  shows "bus_inv b'"
proof -
  have "i < length (objects b') \<and> \<not> closed (objects b' ! i)" if "attached b' job i" for job i
    using assms(5) [OF that] bus_invD(4) [OF assms(1), of job i] assms(6) by auto
  moreover have "job = job'" if "attached b' job i" "attached b' job' i" for job job' i
    using assms(5) [OF that(1)] assms(5) [OF that(2)] bus_invD(5) [OF assms(1)] by blast
  moreover have "\<forall>job is. dget (subscribers b') job = Some is \<longrightarrow> is \<noteq> [] \<and> distinct is" using assms(4) by blast
  ultimately show ?thesis using assms(2,3) unfolding bus_inv_def by blast
qed

lemma on_subs_inv:
  assumes "bus_inv b" and "\<And>s. closed (f s) = closed s"
  shows "bus_inv (on_subs is f b)"
  using assms on_subs_keeps [of closed f "is" b]
  by (intro bus_inv_shrink [OF assms(1)]) (auto simp: attached_def subs_of_def dest: bus_invD)

lemma on_subs_attached [simp]: "attached (on_subs is f b) = attached b" "subs_of (on_subs is f b) = subs_of b"
  by (intro ext; simp add: attached_def subs_of_def)+

lemma forget_attached [simp]: "attached (forget_job job b) j i \<longleftrightarrow> j \<noteq> job \<and> attached b j i"
  "subs_of (forget_job job b) j = (if j = job then [] else subs_of b j)"
  by (auto simp: attached_def subs_of_def)

lemma forget_inv:
  assumes "bus_inv b" and "set is \<subseteq> set (subs_of b job)" and "distinct is"
  shows "bus_inv (on_subs is f (forget_job job b))"
proof (rule bus_inv_shrink [OF assms(1)])
  fix j i assume a: "attached (on_subs is f (forget_job job b)) j i"
  then have "i \<notin> set is" "i < length (objects b)"
    using assms(2) bus_invD(4) [OF assms(1), of j i] bus_invD(5) [OF assms(1), of j i job] by (auto simp: attached_def split: if_splits)
  with a show "attached b j i \<and> closed (objects (on_subs is f (forget_job job b)) ! i) = closed (objects b ! i)"
    by (simp add: on_subs_nth [OF assms(3)])
qed (use assms(1) in \<open>auto simp: dkeys_ddel dest: bus_invD split: if_splits\<close>)

lemma keep_inv:
  assumes "bus_inv b" and "set is \<subseteq> set (subs_of b job)" and "distinct is" and "kept \<noteq> []" and "distinct kept"
    and "set kept \<subseteq> set (subs_of b job)" and "set kept \<inter> set is = {}"
  shows "bus_inv (on_subs is f (b\<lparr>subscribers := dset (subscribers b) job kept\<rparr>))"
proof -
  let ?b = "b\<lparr>subscribers := dset (subscribers b) job kept\<rparr>"
  have key: "dget (subscribers b) job \<noteq> None" using assms(4,6) by (cases "dget (subscribers b) job") (simp_all add: subs_of_def)
  have subs: "subs_of ?b j = (if j = job then kept else subs_of b j)" for j by (simp add: subs_of_def)
  show ?thesis
  proof (rule bus_inv_shrink [OF assms(1)])
    fix j i assume a: "attached (on_subs is f ?b) j i"
    then have old: "attached b j i" using assms(6) by (auto simp: attached_def subs split: if_splits)
    have "i \<notin> set is"
    proof (cases "j = job")
      case True
      with a assms(7) show ?thesis by (auto simp: attached_def subs)
    next
      case False
      with bus_invD(5) [OF assms(1) old] assms(2) show ?thesis by (auto simp: attached_def)
    qed
    with bus_invD(4) [OF assms(1) old] old
    show "attached b j i \<and> closed (objects (on_subs is f ?b) ! i) = closed (objects b ! i)"
      by (simp add: on_subs_nth [OF assms(3)])
  qed (use assms(1,4,5) key in \<open>auto simp: dset_keys_old dest: bus_invD split: if_splits\<close>)
qed

section \<open>Every operation keeps the invariant\<close>

lemma subscribe_facts:
  assumes "bus_inv b" and "subscribe job c l b = (i, b')"
  shows "bus_inv b'" and "i = length (objects b)" and "attached b' j k \<longleftrightarrow> attached b j k \<or> (j = job \<and> k = i)"
    and "k < length (objects b) \<Longrightarrow> objects b' ! k = objects b ! k"
    and "objects b' ! i = \<lparr>notify = False, queued = [], created_at = c, last_activity = l, closed = False\<rparr>"
    and "length (objects b') = Suc (length (objects b))"
proof -
  note b' = assms(2) [unfolded subscribe_def Let_def, symmetric]
  show i: "i = length (objects b)" using b' by simp
  have subs: "subs_of b' j = (if j = job then subs_of b job @ [i] else subs_of b j)" for j
    using b' by (auto simp: subs_of_def has_key_def split: if_splits option.splits)
  show obs: "k < length (objects b) \<Longrightarrow> objects b' ! k = objects b ! k"
    "objects b' ! i = \<lparr>notify = False, queued = [], created_at = c, last_activity = l, closed = False\<rparr>"
    "length (objects b') = Suc (length (objects b))" for k
    using b' by (simp_all add: nth_append)
  show att: "attached b' j k \<longleftrightarrow> attached b j k \<or> (j = job \<and> k = i)" for j k by (auto simp: attached_def subs)
  have old: "attached b j k \<Longrightarrow> k < length (objects b) \<and> \<not> closed (objects b ! k)" for j k
    using bus_invD(4) [OF assms(1)] .
  have "dkeys (job_created_at b') = dkeys (subscribers b')" "wf_dict (subscribers b')"
    using bus_invD(1,2) [OF assms(1)] b'
    by (auto simp: has_key_def dset_keys_old dset_keys_new dget_None_iff)
  moreover have "is \<noteq> [] \<and> distinct is" if "dget (subscribers b') j = Some is" for j "is"
  proof (cases "j = job")
    case True
    with that subs [of job] have "is = subs_of b job @ [i]" by (simp add: subs_of_def)
    with distinct_subs_of [OF assms(1), of job] old [of job i] i show ?thesis by (auto simp: attached_def)
  next
    case False
    with that b' have "dget (subscribers b) j = Some is" by (auto split: if_splits)
    with bus_invD(3) [OF assms(1)] show ?thesis by blast
  qed
  moreover have "k < length (objects b') \<and> \<not> closed (objects b' ! k)" if "attached b' j k" for j k
    using that att old [of j k] obs i by (cases "k = i") auto
  moreover have "j = j'" if "attached b' j k" "attached b' j' k" for j j' k
    using that att old [of j k] old [of j' k] bus_invD(5) [OF assms(1)] i by auto
  ultimately show "bus_inv b'" unfolding bus_inv_def by blast
qed

lemma unsubscribe_facts:
  assumes "bus_inv b"
  shows "bus_inv (unsubscribe job i b)" and "attached (unsubscribe job i b) j k \<longleftrightarrow> attached b j k \<and> \<not> (j = job \<and> k = i)"
    and "objects (unsubscribe job i b) = objects b"
proof -
  have d: "distinct (subs_of b job)" by (rule distinct_subs_of [OF assms])
  show "objects (unsubscribe job i b) = objects b" by (simp add: unsubscribe_def split: option.split)
  show "attached (unsubscribe job i b) j k \<longleftrightarrow> attached b j k \<and> \<not> (j = job \<and> k = i)"
  proof (cases "dget (subscribers b) job")
    case (Some "is")
    then have "subs_of b job = is" by (simp add: subs_of_def)
    with d have "set (remove1 i is) = set is - {i}" "distinct is" by simp_all
    moreover from this have "remove1 i is = [] \<Longrightarrow> set is \<subseteq> {i}" by auto
    ultimately show ?thesis using Some
      by (cases "remove1 i is = []") (auto simp: unsubscribe_def attached_def subs_of_def forget_job_def)
  qed (auto simp: unsubscribe_def attached_def subs_of_def)
  show "bus_inv (unsubscribe job i b)"
  proof (cases "dget (subscribers b) job")
    case None
    with assms show ?thesis by (simp add: unsubscribe_def)
  next
    case (Some "is")
    then have s: "subs_of b job = is" by (simp add: subs_of_def)
    show ?thesis
    proof (cases "remove1 i is = []")
      case True
      with Some forget_inv [OF assms, of "[]" job id] show ?thesis by (simp add: unsubscribe_def)
    next
      case False
      with Some s d keep_inv [OF assms, of "[]" job "remove1 i is" id] show ?thesis
        by (simp add: unsubscribe_def set_remove1_subset)
    qed
  qed
qed

lemma publish_inv: "bus_inv b \<Longrightarrow> bus_inv (publish job e ty ts now b)"
  unfolding publish_def by (rule on_subs_inv) simp_all

lemma cleanup_inv: "bus_inv b \<Longrightarrow> bus_inv (cleanup_job job b)"
  unfolding cleanup_job_def by (rule forget_inv) (simp_all add: distinct_subs_of)

section \<open>The reaper\<close>

definition fresh_subs :: "int \<Rightarrow> int \<Rightarrow> bus \<Rightarrow> string \<Rightarrow> nat list" where
  "fresh_subs ttl now b job = filter (\<lambda>i. \<not> idle ttl now b i) (subs_of b job)"

definition idle_subs :: "int \<Rightarrow> int \<Rightarrow> bus \<Rightarrow> string \<Rightarrow> nat list" where
  "idle_subs ttl now b job = filter (idle ttl now b) (subs_of b job)"

lemma idle_cong: "(\<And>i. last_activity (objects b' ! i) = last_activity (objects b ! i)) \<Longrightarrow> idle ttl now b' = idle ttl now b"
  by (intro ext) (simp add: idle_def)

definition jobs_of :: "bus \<Rightarrow> string list" where
  "jobs_of b = dkeys (subscribers b)"

lemma jobs_of_distinct: "bus_inv b \<Longrightarrow> distinct (jobs_of b)"
  using bus_invD(2) by (simp add: jobs_of_def wf_dict_def)

lemma subs_of_tracked: "bus_inv b \<Longrightarrow> job \<in> set (jobs_of b) \<longleftrightarrow> subs_of b job \<noteq> []"
proof -
  have "job \<in> set (jobs_of b) \<longleftrightarrow> dget (subscribers b) job \<noteq> None" by (simp add: jobs_of_def dget_None_iff)
  moreover assume "bus_inv b"
  ultimately show ?thesis using bus_invD(3) [of b job] by (cases "dget (subscribers b) job") (auto simp: subs_of_def)
qed

text \<open>One job.\<close>

lemma reap_job_facts:
  fixes r :: reaping and ttl now :: int and job :: string
  defines "b \<equiv> rp_bus r" and "r1 \<equiv> reap_job ttl now job r"
  assumes "bus_inv b" and "job \<in> set (jobs_of b)"
  shows "bus_inv (rp_bus r1)"
    and "jobs_of (rp_bus r1) = filter (\<lambda>j. j = job \<longrightarrow> fresh_subs ttl now b job \<noteq> []) (jobs_of b)"
    and "subs_of (rp_bus r1) j = (if j = job then fresh_subs ttl now b job else subs_of b j)"
    and "rp_woken r1 = rp_woken r @ idle_subs ttl now b job"
    and "rp_subs r1 = rp_subs r + length (idle_subs ttl now b job)"
    and "rp_jobs r1 + length (jobs_of (rp_bus r1)) = rp_jobs r + length (jobs_of b)"
    and "idle ttl now (rp_bus r1) = idle ttl now b"
    and "length (objects (rp_bus r1)) = length (objects b)"
    and "k < length (objects b) \<Longrightarrow> objects (rp_bus r1) ! k =
      (if k \<in> set (idle_subs ttl now b job) then mark_closed (objects b ! k) else objects b ! k)"
proof -
  let ?fresh = "fresh_subs ttl now b job" and ?idle = "idle_subs ttl now b job"
  have r1: "rp_bus r1 = on_subs ?idle mark_closed
      (if ?fresh \<noteq> [] then b\<lparr>subscribers := dset (subscribers b) job ?fresh\<rparr> else forget_job job b)"
  proof -
    have swap: "b\<lparr>subscribers := x, objects := y\<rparr> = b\<lparr>objects := y, subscribers := x\<rparr>" for b :: bus and x y by simp
    have swap2: "b\<lparr>subscribers := x, job_created_at := z, objects := y\<rparr> = b\<lparr>objects := y, subscribers := x, job_created_at := z\<rparr>"
      for b :: bus and x y z by simp
    have "on_subs is f (b\<lparr>subscribers := x\<rparr>) = (on_subs is f b)\<lparr>subscribers := x\<rparr>" for "is" f x
      by (induction "is" f b rule: on_subs.induct) (simp_all add: on_sub_def swap)
    moreover have "on_subs is f (forget_job job b) = forget_job job (on_subs is f b)" for "is" f
      by (induction "is" f b rule: on_subs.induct) (simp_all add: on_sub_def forget_job_def swap2)
    ultimately show ?thesis
      unfolding r1_def b_def by (simp add: reap_job_def fresh_subs_def idle_subs_def Let_def)
  qed
  have parts: "set ?idle \<subseteq> set (subs_of b job)" "set ?fresh \<subseteq> set (subs_of b job)" "set ?fresh \<inter> set ?idle = {}"
    "distinct ?idle" "distinct ?fresh"
    using distinct_subs_of [OF assms(3), of job] by (auto simp: idle_subs_def fresh_subs_def)
  have key: "dget (subscribers b) job \<noteq> None" using assms(4) by (auto simp: jobs_of_def dget_None_iff)
  show "bus_inv (rp_bus r1)"
    using keep_inv [OF assms(3) parts(1,4) _ parts(5,2,3)] forget_inv [OF assms(3) parts(1,4)] by (simp add: r1)
  have d: "distinct (jobs_of b)" by (rule jobs_of_distinct [OF assms(3)])
  show jobs: "jobs_of (rp_bus r1) = filter (\<lambda>j. j = job \<longrightarrow> ?fresh \<noteq> []) (jobs_of b)"
    using key by (auto simp: r1 jobs_of_def dset_keys_old dkeys_ddel removeAll_filter_not_eq intro: filter_cong)
  show "subs_of (rp_bus r1) j = (if j = job then ?fresh else subs_of b j)"
    by (auto simp: r1 subs_of_def)
  show "rp_woken r1 = rp_woken r @ ?idle" "rp_subs r1 = rp_subs r + length ?idle"
    by (simp_all add: r1_def b_def reap_job_def idle_subs_def Let_def)
  show "rp_jobs r1 + length (jobs_of (rp_bus r1)) = rp_jobs r + length (jobs_of b)"
  proof (cases "?fresh = []")
    case True
    have "filter (\<lambda>j. j \<noteq> job) (jobs_of b) = remove1 job (jobs_of b)"
      using d by (auto simp: distinct_remove1_removeAll removeAll_filter_not_eq intro: filter_cong)
    then have "length (jobs_of (rp_bus r1)) = length (jobs_of b) - 1"
      using True jobs assms(4) by (simp add: length_remove1)
    moreover have "0 < length (jobs_of b)" using assms(4) by (cases "jobs_of b") auto
    moreover have "rp_jobs r1 = rp_jobs r + 1"
      using True by (simp add: r1_def b_def reap_job_def fresh_subs_def Let_def)
    ultimately show ?thesis by simp
  next
    case False
    then show ?thesis using jobs by (simp add: r1_def b_def reap_job_def fresh_subs_def Let_def)
  qed
  show "idle ttl now (rp_bus r1) = idle ttl now b"
    by (rule idle_cong) (simp add: r1 on_subs_keeps [of last_activity])
  show "length (objects (rp_bus r1)) = length (objects b)" by (simp add: r1)
  show "k < length (objects b) \<Longrightarrow> objects (rp_bus r1) ! k =
      (if k \<in> set ?idle then mark_closed (objects b ! k) else objects b ! k)"
    by (simp add: r1 on_subs_nth [OF parts(4)])
qed

text \<open>All of them.\<close>

definition reaped :: "reaping \<Rightarrow> (string \<Rightarrow> nat list) \<Rightarrow> nat list \<Rightarrow> string list \<Rightarrow> reaping \<Rightarrow> bool" where
  "reaped r kept gone jobs r' \<longleftrightarrow>
     bus_inv (rp_bus r') \<and> jobs_of (rp_bus r') = jobs \<and> (\<forall>j \<in> set jobs. subs_of (rp_bus r') j = kept j) \<and>
     rp_woken r' = rp_woken r @ gone \<and> rp_subs r' = rp_subs r + length gone \<and>
     rp_jobs r' + length jobs = rp_jobs r + length (jobs_of (rp_bus r)) \<and>
     length (objects (rp_bus r')) = length (objects (rp_bus r)) \<and>
     (\<forall>k < length (objects (rp_bus r)). objects (rp_bus r') ! k =
        (if k \<in> set gone then mark_closed (objects (rp_bus r) ! k) else objects (rp_bus r) ! k))"

lemma mark_closed_idem [simp]: "mark_closed (mark_closed s) = mark_closed s"
  by (simp add: mark_closed_def)

lemma reap_jobs_facts:
  assumes "bus_inv (rp_bus r)" and "distinct jobs" and "set jobs \<subseteq> set (jobs_of (rp_bus r))"
  shows "reaped r (\<lambda>j. if j \<in> set jobs then fresh_subs ttl now (rp_bus r) j else subs_of (rp_bus r) j)
    (concat (map (idle_subs ttl now (rp_bus r)) jobs))
    (filter (\<lambda>j. j \<in> set jobs \<longrightarrow> fresh_subs ttl now (rp_bus r) j \<noteq> []) (jobs_of (rp_bus r)))
    (reap_jobs ttl now jobs r)"
  using assms
proof (induction jobs arbitrary: r)
  case (Cons job jobs)
  let ?b = "rp_bus r" and ?r1 = "reap_job ttl now job r"
  have k: "job \<in> set (jobs_of ?b)" using Cons.prems(3) by simp
  note f = reap_job_facts [where ttl = ttl and now = now, OF Cons.prems(1) k]
  have same: "fresh_subs ttl now (rp_bus ?r1) j = fresh_subs ttl now ?b j"
    "idle_subs ttl now (rp_bus ?r1) j = idle_subs ttl now ?b j" if "j \<noteq> job" for j
    using f(3) [of j] f(7) that by (simp_all add: fresh_subs_def idle_subs_def)
  have nj: "job \<notin> set jobs" "distinct jobs" using Cons.prems(2) by auto
  have "set jobs \<subseteq> set (jobs_of (rp_bus ?r1))" using Cons.prems(3) nj f(2) by auto
  note ih = Cons.IH [OF f(1) nj(2) this, unfolded reaped_def]
  have gone: "concat (map (idle_subs ttl now (rp_bus ?r1)) jobs) = concat (map (idle_subs ttl now ?b) jobs)"
    by (intro arg_cong [of _ _ concat] map_cong refl) (metis same(2) nj(1))
  have jobs: "filter (\<lambda>j. j \<in> set jobs \<longrightarrow> fresh_subs ttl now (rp_bus ?r1) j \<noteq> []) (jobs_of (rp_bus ?r1)) =
      filter (\<lambda>j. j \<in> set (job # jobs) \<longrightarrow> fresh_subs ttl now ?b j \<noteq> []) (jobs_of ?b)"
    unfolding f(2) filter_filter by (intro filter_cong refl) (metis same(1) nj(1) list.set_intros set_ConsD)
  have obs: "objects (rp_bus (reap_jobs ttl now jobs ?r1)) ! i =
      (if i \<in> set (concat (map (idle_subs ttl now ?b) (job # jobs))) then mark_closed (objects ?b ! i) else objects ?b ! i)"
    if "i < length (objects ?b)" for i
    using ih f(8) f(9) [OF that] gone that by auto
  have subs: "\<forall>j \<in> set (filter (\<lambda>j. j \<in> set (job # jobs) \<longrightarrow> fresh_subs ttl now ?b j \<noteq> []) (jobs_of ?b)).
      subs_of (rp_bus (reap_jobs ttl now jobs ?r1)) j =
        (if j \<in> set (job # jobs) then fresh_subs ttl now ?b j else subs_of ?b j)"
  proof
    fix j assume j: "j \<in> set (filter (\<lambda>j. j \<in> set (job # jobs) \<longrightarrow> fresh_subs ttl now ?b j \<noteq> []) (jobs_of ?b))"
    have "subs_of (rp_bus (reap_jobs ttl now jobs ?r1)) j =
        (if j \<in> set jobs then fresh_subs ttl now (rp_bus ?r1) j else subs_of (rp_bus ?r1) j)"
      using ih j jobs by metis
    then show "subs_of (rp_bus (reap_jobs ttl now jobs ?r1)) j =
        (if j \<in> set (job # jobs) then fresh_subs ttl now ?b j else subs_of ?b j)"
      using f(3) [of j] same(1) [of j] nj(1) by auto
  qed
  from ih f(4-6,8) gone jobs obs subs show ?case unfolding reaped_def by (simp del: filter.simps)
qed (simp add: reaped_def)

lemma reaped_trans:
  assumes "reaped r kept gone jobs r1" and "reaped r1 kept1 gone1 jobs1 r2"
  shows "reaped r kept1 (gone @ gone1) jobs1 r2"
  using assms unfolding reaped_def by (auto split: if_splits)

lemma reaped_cong: "reaped r k g js r' \<Longrightarrow> (\<And>j. j \<in> set js \<Longrightarrow> k j = k' j) \<Longrightarrow> reaped r k' g js r'"
  unfolding reaped_def by metis

lemma evict_job_facts:
  assumes "bus_inv (rp_bus r)" and "jobs_of (rp_bus r) = job # jobs"
  shows "reaped r (subs_of (rp_bus r)) (subs_of (rp_bus r) job) jobs (evict_job job r)"
proof -
  let ?b = "rp_bus r"
  have d: "job \<notin> set jobs" "distinct jobs" using jobs_of_distinct [OF assms(1)] assms(2) by auto
  have b': "rp_bus (evict_job job r) = on_subs (subs_of ?b job) mark_closed (forget_job job ?b)"
    by (simp add: evict_job_def Let_def)
  have j: "jobs_of (rp_bus (evict_job job r)) = jobs"
    using assms(2) d by (simp add: b' jobs_of_def dkeys_ddel)
  have "bus_inv (rp_bus (evict_job job r))"
    unfolding b' using distinct_subs_of [OF assms(1)] by (intro forget_inv [OF assms(1)]) auto
  moreover have "\<forall>i \<in> set jobs. subs_of (rp_bus (evict_job job r)) i = subs_of ?b i" using d by (auto simp: b')
  moreover have "\<forall>k < length (objects ?b). objects (rp_bus (evict_job job r)) ! k =
      (if k \<in> set (subs_of ?b job) then mark_closed (objects ?b ! k) else objects ?b ! k)"
    using on_subs_nth [OF distinct_subs_of [OF assms(1), of job], of _ "forget_job job ?b" mark_closed] by (simp add: b')
  ultimately show ?thesis
    using j assms(2) by (simp add: reaped_def evict_job_def Let_def)
qed

lemma evict_oldest_facts:
  "bus_inv (rp_bus r) \<Longrightarrow> reaped r (subs_of (rp_bus r))
    (concat (map (subs_of (rp_bus r)) (take (length (jobs_of (rp_bus r)) - cap) (jobs_of (rp_bus r)))))
    (drop (length (jobs_of (rp_bus r)) - cap) (jobs_of (rp_bus r))) (evict_oldest cap r)"
proof (induction cap r rule: evict_oldest.induct)
  case (1 cap r)
  let ?b = "rp_bus r"
  show ?case
  proof (cases "length (jobs_of ?b) \<le> cap")
    case True
    then show ?thesis using "1.prems" by (subst evict_oldest.simps) (simp add: reaped_def jobs_of_def)
  next
    case False
    then obtain job jobs where js: "jobs_of ?b = job # jobs" by (cases "jobs_of ?b") auto
    with bus_invD(1) [OF "1.prems"] obtain c rest where created: "job_created_at ?b = (job, c) # rest"
      by (cases "job_created_at ?b") (auto simp: jobs_of_def)
    note one = evict_job_facts [OF "1.prems" js]
    let ?r1 = "evict_job job r"
    have ev: "evict_oldest cap r = evict_oldest cap ?r1"
      using False created by (subst evict_oldest.simps) (simp add: jobs_of_def)
    have inv: "bus_inv (rp_bus ?r1)" and j1: "jobs_of (rp_bus ?r1) = jobs"
      and s1: "\<forall>j \<in> set jobs. subs_of (rp_bus ?r1) j = subs_of ?b j" using one unfolding reaped_def by blast+
    have "\<not> length (subscribers ?b) \<le> cap" using False by (simp add: jobs_of_def)
    note ih = "1.IH" [OF this created refl inv, unfolded j1]
    have cut: "length (jobs_of ?b) - cap = Suc (length jobs - cap)" using False js by auto
    have take: "concat (map (subs_of (rp_bus ?r1)) (take (length jobs - cap) jobs)) =
        concat (map (subs_of ?b) (take (length jobs - cap) jobs))"
      using s1 by (intro arg_cong [of _ _ concat] map_cong refl) (meson in_set_takeD)
    have "reaped r (subs_of (rp_bus ?r1)) (subs_of ?b job @ concat (map (subs_of ?b) (take (length jobs - cap) jobs)))
        (drop (length jobs - cap) jobs) (evict_oldest cap ?r1)"
      using reaped_trans [OF one ih] by (simp add: take)
    with s1 show ?thesis unfolding reaped_def ev js cut [unfolded js]
      by (simp) (meson in_set_dropD)
  qed
qed

lemma idle_or_fresh: "length (idle_subs ttl now b j) + length (fresh_subs ttl now b j) = length (subs_of b j)"
  by (simp add: idle_subs_def fresh_subs_def sum_length_filter_compl)

lemma sum_fresh_live:
  "sum_list (map (length \<circ> f) (filter (\<lambda>j. f j \<noteq> []) js)) = sum_list (map (length \<circ> f) js)"
  by (induction js) auto

lemma wake_closed: "wake (mark_closed s) = end_stream s"
  by (simp add: wake_def mark_closed_def end_stream_def)

lemma reap_result:
  fixes ttl now :: int
  assumes "bus_inv b" and "0 \<le> ttl" and "0 \<le> cap"
  defines "live \<equiv> filter (\<lambda>j. fresh_subs ttl now b j \<noteq> []) (jobs_of b)"
  defines "left \<equiv> drop (length live - nat cap) live"
  defines "gone \<equiv> concat (map (idle_subs ttl now b) (jobs_of b)) @
    concat (map (fresh_subs ttl now b) (take (length live - nat cap) live))"
  shows "\<exists>r. reaped \<lparr>rp_bus = b, rp_jobs = 0, rp_subs = 0, rp_woken = []\<rparr> (fresh_subs ttl now b) gone left r \<and>
    reap_once ttl cap now b = Inr ((rp_jobs r, rp_subs r), on_subs (rp_woken r) wake (rp_bus r))"
proof -
  let ?r0 = "\<lparr>rp_bus = b, rp_jobs = 0, rp_subs = 0, rp_woken = []\<rparr>"
  let ?r1 = "reap_jobs ttl now (jobs_of b) ?r0"
  have live: "filter (\<lambda>j. j \<in> set (jobs_of b) \<longrightarrow> fresh_subs ttl now b j \<noteq> []) (jobs_of b) = live"
    unfolding live_def by (rule filter_cong) auto
  have one: "reaped ?r0 (fresh_subs ttl now b) (concat (map (idle_subs ttl now b) (jobs_of b))) live ?r1"
    using reap_jobs_facts [of ?r0 "jobs_of b" ttl now] assms(1) jobs_of_distinct [OF assms(1)]
    unfolding reaped_def by (simp add: live) (simp add: live_def)
  then have r1: "bus_inv (rp_bus ?r1)" "jobs_of (rp_bus ?r1) = live" and s1: "\<forall>j \<in> set live. subs_of (rp_bus ?r1) j = fresh_subs ttl now b j"
    unfolding reaped_def by blast+
  have take: "concat (map (subs_of (rp_bus ?r1)) (take (length live - nat cap) live)) =
      concat (map (fresh_subs ttl now b) (take (length live - nat cap) live))"
    using s1 by (intro arg_cong [of _ _ concat] map_cong refl) (meson in_set_takeD)
  from evict_oldest_facts [OF r1(1), of "nat cap"]
  have "reaped ?r1 (subs_of (rp_bus ?r1)) (concat (map (fresh_subs ttl now b) (take (length live - nat cap) live))) left
      (evict_oldest (nat cap) ?r1)"
    by (simp add: r1(2) take left_def)
  from reaped_trans [OF one this]
  have "reaped ?r0 (fresh_subs ttl now b) gone left (evict_oldest (nat cap) ?r1)"
    unfolding gone_def by (rule reaped_cong) (use s1 in \<open>auto simp: left_def dest: in_set_dropD\<close>)
  then show ?thesis using assms(2,3) by (auto simp: reap_once_def jobs_of_def Let_def)
qed

section \<open>The bus as a machine\<close>

datatype bus_op =
    Subscribe string int int
  | Unsubscribe string nat
  | Publish string jdict "string option" string int
  | Cleanup string
  | Reap int int int
  | Consume nat "jdict list" int bool

text \<open>\<open>Consume\<close> is anything a consumer does to its own subscription: read its queue, touch it, clear the event.\<close>

definition consume :: "jdict list \<Rightarrow> int \<Rightarrow> bool \<Rightarrow> subscription \<Rightarrow> subscription" where
  "consume q l n s = s\<lparr>queued := q, last_activity := l, notify := n\<rparr>"

fun run_bus_op :: "bus_op \<Rightarrow> bus \<Rightarrow> bus" where
  "run_bus_op (Subscribe job c l) b = snd (subscribe job c l b)"
| "run_bus_op (Unsubscribe job i) b = unsubscribe job i b"
| "run_bus_op (Publish job e ty ts now) b = publish job e ty ts now b"
| "run_bus_op (Cleanup job) b = cleanup_job job b"
| "run_bus_op (Reap ttl cap now) b = (case reap_once ttl cap now b of Inl e \<Rightarrow> b | Inr (counts, b') \<Rightarrow> b')"
| "run_bus_op (Consume i q l n) b = on_sub i (consume q l n) b"

lemma reap_inv:
  assumes "bus_inv b" and "reap_once ttl cap now b = Inr (counts, b')"
  shows "bus_inv b'"
proof -
  have c: "0 \<le> ttl" "0 \<le> cap" using assms(2) by (auto simp: reap_once_def split: if_splits)
  from reap_result [OF assms(1) c, of now] obtain k g js r
    where "reaped \<lparr>rp_bus = b, rp_jobs = 0, rp_subs = 0, rp_woken = []\<rparr> k g js r"
      and o: "reap_once ttl cap now b = Inr ((rp_jobs r, rp_subs r), on_subs (rp_woken r) wake (rp_bus r))" by blast
  then have "bus_inv (rp_bus r)" unfolding reaped_def by blast
  then have "bus_inv (on_subs (rp_woken r) wake (rp_bus r))" by (rule on_subs_inv) simp
  with o assms(2) show ?thesis by simp
qed

lemma bus_op_inv: "bus_inv b \<Longrightarrow> bus_inv (run_bus_op x b)"
proof (cases x)
  case (Subscribe job c l)
  assume "bus_inv b"
  with Subscribe show ?thesis by (cases "subscribe job c l b") (auto intro: subscribe_facts)
next
  case (Consume i q l n)
  assume "bus_inv b"
  then have "bus_inv (on_subs [i] (consume q l n) b)" by (rule on_subs_inv) (simp add: consume_def)
  with Consume show ?thesis by simp
qed (auto simp: unsubscribe_facts publish_inv cleanup_inv split: sum.splits intro: reap_inv)

lemma empty_bus_inv: "bus_inv empty_bus"
  by (simp add: bus_inv_def empty_bus_def attached_def subs_of_def)

abbreviation bus_reachable :: "bus \<Rightarrow> bool" where
  "bus_reachable \<equiv> reachable (\<lambda>b. b = empty_bus) (\<lambda>b b'. \<exists>x. b' = run_bus_op x b)"

interpretation event_bus: invariant_system "\<lambda>b. b = empty_bus" "\<lambda>b b'. \<exists>x. b' = run_bus_op x b" bus_inv
  by unfold_locales (auto simp: empty_bus_inv intro: bus_op_inv)

text \<open>What a pass of the reaper does: the jobs that stay are the newest that still have a fresh subscription, as
  many as the cap allows, each with exactly its fresh subscriptions; every other subscription is closed and
  woken, none that stays is touched, and the two counts are what went.\<close>

theorem reaper_is_exact:
  assumes "bus_reachable b" and "0 \<le> ttl" and "0 \<le> cap"
    and "live = filter (\<lambda>j. fresh_subs ttl now b j \<noteq> []) (jobs_of b)" and "left = drop (length live - nat cap) live"
  shows "\<exists>njobs nsubs b'. reap_once ttl cap now b = Inr ((njobs, nsubs), b') \<and> jobs_of b' = left \<and>
    (\<forall>j \<in> set left. subs_of b' j = fresh_subs ttl now b j) \<and> njobs + length left = length (jobs_of b) \<and>
    nsubs + sum_list (map (length \<circ> subs_of b') left) = sum_list (map (length \<circ> subs_of b) (jobs_of b)) \<and>
    (\<forall>j i. attached b j i \<longrightarrow> objects b' ! i = (if attached b' j i then objects b ! i else end_stream (objects b ! i)))"
proof -
  have inv: "bus_inv b" using event_bus.reachable_inv [OF assms(1)] .
  let ?fresh = "fresh_subs ttl now b" and ?idle = "idle_subs ttl now b"
  let ?cut = "take (length live - nat cap) live"
  let ?gone = "concat (map ?idle (jobs_of b)) @ concat (map ?fresh ?cut)"
  from reap_result [OF inv assms(2,3), of now, folded assms(4), folded assms(5)] obtain r
    where re: "reaped \<lparr>rp_bus = b, rp_jobs = 0, rp_subs = 0, rp_woken = []\<rparr> ?fresh ?gone left r"
      and o: "reap_once ttl cap now b = Inr ((rp_jobs r, rp_subs r), on_subs (rp_woken r) wake (rp_bus r))" by blast
  let ?b' = "on_subs (rp_woken r) wake (rp_bus r)"
  have jobs: "jobs_of ?b' = left" "\<forall>j \<in> set left. subs_of ?b' j = ?fresh j" and w: "rp_woken r = ?gone"
    and n: "rp_jobs r + length left = length (jobs_of b)" "rp_subs r = length ?gone"
    using re unfolding reaped_def by (auto simp: jobs_of_def)
  have "length ?gone + sum_list (map (length \<circ> ?fresh) left) = sum_list (map (length \<circ> subs_of b) (jobs_of b))"
  proof -
    have "sum_list (map (length \<circ> ?fresh) ?cut) + sum_list (map (length \<circ> ?fresh) left) = sum_list (map (length \<circ> ?fresh) live)"
      unfolding assms(5) by (simp flip: sum_list_append map_append)
    also have "\<dots> = sum_list (map (length \<circ> ?fresh) (jobs_of b))" unfolding assms(4) by (rule sum_fresh_live)
    finally show ?thesis
      by (simp add: length_concat comp_def idle_or_fresh [of ttl now b, symmetric] sum_list_addf)
  qed
  moreover have "sum_list (map (length \<circ> subs_of ?b') left) = sum_list (map (length \<circ> ?fresh) left)"
    using jobs(2) by (intro arg_cong [of _ _ sum_list] map_cong) auto
  moreover have "objects ?b' ! i = (if attached ?b' j i then objects b ! i else end_stream (objects b ! i))"
    if a: "attached b j i" for j i
  proof -
    have i: "i < length (objects b)" and one: "attached b k i \<Longrightarrow> k = j" for k
      using bus_invD(4,5) [OF inv] a by blast+
    have rb: "bus_inv (rp_bus r)" using re unfolding reaped_def by blast
    have obs: "objects ?b' ! i = (if i \<in> set ?gone then end_stream (objects b ! i) else objects b ! i)"
    proof -
      have "wake (wake s) = wake s" for s by (simp add: wake_def)
      moreover have "objects (rp_bus r) ! i = (if i \<in> set ?gone then mark_closed (objects b ! i) else objects b ! i)"
        and "length (objects (rp_bus r)) = length (objects b)" using re i unfolding reaped_def by simp_all
      ultimately show ?thesis using i on_subs_idem [of wake i "rp_bus r" "rp_woken r"] unfolding w by (simp add: wake_closed)
    qed
    have att: "attached ?b' j i \<longleftrightarrow> j \<in> set left \<and> i \<in> set (?fresh j)"
      using jobs subs_of_tracked [OF rb, of j] by (auto simp: attached_def jobs_of_def)
    have js: "j \<in> set (jobs_of b)" using subs_of_tracked [OF inv, of j] a by (auto simp: attached_def)
    have parts: "attached b k i \<longleftrightarrow> i \<in> set (?idle k) \<or> i \<in> set (?fresh k)" "\<not> (i \<in> set (?idle k) \<and> i \<in> set (?fresh k))" for k
      by (auto simp: attached_def idle_subs_def fresh_subs_def)
    have "i \<in> set ?gone \<longleftrightarrow> i \<in> set (?idle j) \<or> (j \<in> set ?cut \<and> i \<in> set (?fresh j))"
      using one parts(1) js by (auto; blast)
    moreover have "j \<in> set live \<longleftrightarrow> ?fresh j \<noteq> []" using js by (simp add: assms(4))
    moreover have "distinct live" using jobs_of_distinct [OF inv] by (simp add: assms(4))
    then have "set ?cut \<inter> set left = {}" "set live = set ?cut \<union> set left"
      unfolding assms(5) by (simp_all add: set_take_disj_set_drop_if_distinct set_append [symmetric] del: set_append)
    ultimately have "i \<in> set ?gone \<longleftrightarrow> \<not> attached ?b' j i"
      unfolding att using a parts [of j] by (metis Un_iff disjoint_iff list.set_cases empty_iff empty_set)
    then show ?thesis using obs by simp
  qed
  ultimately show ?thesis using o jobs n by metis
qed

definition demo_bus :: bus where
  "demo_bus = fold run_bus_op [Subscribe ''a'' 0 0, Subscribe ''b'' 95 95, Subscribe ''c'' 96 96] empty_bus"

lemma fold_bus_reachable: "bus_reachable b \<Longrightarrow> bus_reachable (fold run_bus_op xs b)"
proof (induction xs arbitrary: b)
  case (Cons x xs)
  from Cons.prems have "bus_reachable (run_bus_op x b)" by (rule reach_step) blast
  with Cons.IH show ?case by simp
qed simp

lemma demo_bus_facts:
  "jobs_of demo_bus = [''a'', ''b'', ''c'']" "fresh_subs 10 100 demo_bus ''a'' = []"
  "fresh_subs 10 100 demo_bus ''b'' = [1]" "fresh_subs 10 100 demo_bus ''c'' = [2]"
  by code_simp+

theorem reaper_is_exact_witness:
  "\<exists>n b'. reap_once 10 1 100 demo_bus = Inr ((2, n), b') \<and> jobs_of b' = [''c''] \<and> subs_of b' ''c'' = [2]"
proof -
  have "bus_reachable demo_bus" unfolding demo_bus_def by (intro fold_bus_reachable reach_init) simp
  from reaper_is_exact [OF this, of 10 1 "[''b'', ''c'']" 100 "[''c'']"] show ?thesis
    by (auto simp: demo_bus_facts)
qed

end
