(* ===== verification/SseStreamProps.thy ===== *)
theory SseStreamProps
  imports SseStream EventBusProps
begin

text \<open>
  What a client of a progress stream sees, whatever the other threads do with the bus: the events of its
  job, each once and in order, with the right ending; and that a stream that has something to end it ends.
\<close>

section \<open>A stream among other threads\<close>

text \<open>\<open>ss_log\<close> and \<open>ss_lost\<close> only record: the events the bus put into the queue of the stream, and whether the queue
  ever overflowed. \<open>ss_start\<close> is what the stream had sent when it opened.\<close>

record stream_system =
  ss_bus :: bus
  ss_stream :: stream
  ss_start :: "frame list"
  ss_log :: "jdict list"
  ss_lost :: bool

abbreviation own_sub :: "stream_system \<Rightarrow> subscription" where
  "own_sub s \<equiv> objects (ss_bus s) ! st_sub (ss_stream s)"

text \<open>Other threads leave the subscription of the stream to its consumer.\<close>

fun foreign :: "nat \<Rightarrow> bus_op \<Rightarrow> bool" where
  "foreign i (Unsubscribe job k) = (k \<noteq> i)"
| "foreign i (Consume k q l n) = (k \<noteq> i)"
| "foreign i _ = True"

fun put_in_queue :: "nat \<Rightarrow> bus_op \<Rightarrow> bus \<Rightarrow> jdict list" where
  "put_in_queue i (Publish job e ty ts now) b = (if attached b job i then [stamp e ty ts] else [])"
| "put_in_queue i _ b = []"

definition other_step :: "bus_op \<Rightarrow> stream_system \<Rightarrow> stream_system" where
  "other_step x s =
     (let new = put_in_queue (st_sub (ss_stream s)) x (ss_bus s)
      in s\<lparr>ss_bus := run_bus_op x (ss_bus s), ss_log := ss_log s @ new,
           ss_lost := ss_lost s \<or> (new \<noteq> [] \<and> max_queue \<le> length (queued (own_sub s)))\<rparr>)"

inductive stream_step :: "stream_system \<Rightarrow> stream_system \<Rightarrow> bool" where
  step_other: "foreign (st_sub (ss_stream s)) x \<Longrightarrow> stream_step s (other_step x s)"
| step_own: "advance_stream now (ss_stream s) (ss_bus s) = Some (st, b) \<Longrightarrow>
    stream_step s (s\<lparr>ss_stream := st, ss_bus := b\<rparr>)"

inductive_cases stream_stepE: "stream_step s s'"

definition opened :: "stream_system \<Rightarrow> bool" where
  "opened s \<longleftrightarrow> (\<exists>job tys snap async c l deadline b.
     bus_inv b \<and> open_stream job tys snap async c l deadline b = (ss_stream s, ss_bus s) \<and>
     ss_start s = st_out (ss_stream s) \<and> ss_log s = [] \<and> \<not> ss_lost s)"

abbreviation stream_reachable :: "stream_system \<Rightarrow> bool" where
  "stream_reachable \<equiv> reachable opened stream_step"

section \<open>The invariant\<close>

fun payload :: "frame \<Rightarrow> jdict list" where
  "payload (Data e) = [e]"
| "payload Keepalive = []"

definition payloads :: "frame list \<Rightarrow> jdict list" where
  "payloads fs = concat (map payload fs)"

lemma payloads_simps [simp]:
  "payloads (xs @ ys) = payloads xs @ payloads ys" "payloads [] = []" "payloads [Keepalive] = []"
  "payloads [Data e] = [e]" "payloads (Data e # fs) = e # payloads fs" "payloads (map Data es) = es"
  by (simp_all add: payloads_def) (induction es; simp)

text \<open>Events drained but not yet sent.\<close>

definition in_hand :: "stream \<Rightarrow> jdict list" where
  "in_hand st = (case st_phase st of Draining closing lines sent \<Rightarrow> lines | _ \<Rightarrow> [])"

text \<open>\<open>tail\<close> is how the stream ended: nothing, a normal end, or a subscription the bus gave up.\<close>

definition ending_ok :: "stream_system \<Rightarrow> jdict list \<Rightarrow> jdict list \<Rightarrow> bool" where
  "ending_ok s relayed tail \<longleftrightarrow>
     (let terminal = list_ex (is_terminal (st_terminal (ss_stream s))) in
      case st_phase (ss_stream s) of
        Draining closing lines sent \<Rightarrow> tail = [] \<and> sent = terminal lines \<and>
          (\<exists>before. relayed = before @ lines \<and> \<not> terminal before) \<and> (closing \<longrightarrow> closed (own_sub s))
      | Leaving \<Rightarrow> (tail = [] \<and> \<not> terminal relayed) \<or> (tail = [done_event] \<and> terminal relayed) \<or>
          (tail = [closed_event, done_event] \<and> \<not> terminal relayed \<and> queued (own_sub s) = [] \<and> closed (own_sub s))
      | Ended \<Rightarrow> (tail = [] \<and> \<not> terminal relayed) \<or> (tail = [done_event] \<and> terminal relayed) \<or>
          (tail = [closed_event, done_event] \<and> \<not> terminal relayed \<and> queued (own_sub s) = [] \<and> closed (own_sub s))
      | _ \<Rightarrow> tail = [] \<and> \<not> terminal relayed)"

definition relays :: "stream_system \<Rightarrow> bool" where
  "relays s \<longleftrightarrow> (\<exists>relayed tail. ss_log s = relayed @ queued (own_sub s) \<and> ending_ok s relayed tail \<and>
     payloads (st_out (ss_stream s)) @ in_hand (ss_stream s) = payloads (ss_start s) @ relayed @ tail)"

definition stream_inv :: "stream_system \<Rightarrow> bool" where
  "stream_inv s \<longleftrightarrow> bus_inv (ss_bus s) \<and> st_sub (ss_stream s) < length (objects (ss_bus s)) \<and> (ss_lost s \<or> relays s)"

section \<open>What other threads do to the subscription\<close>

lemma reap_sub:
  assumes "bus_inv b" and "reap_once ttl cap now b = Inr (counts, b')" and "i < length (objects b)"
  shows "queued (objects b' ! i) = queued (objects b ! i)" and "closed (objects b ! i) \<longrightarrow> closed (objects b' ! i)"
    and "length (objects b') = length (objects b)"
proof -
  have c: "0 \<le> ttl" "0 \<le> cap" using assms(2) by (auto simp: reap_once_def split: if_splits)
  from reap_result [OF assms(1) c, of now] obtain k g js r
    where re: "reaped \<lparr>rp_bus = b, rp_jobs = 0, rp_subs = 0, rp_woken = []\<rparr> k g js r"
      and "reap_once ttl cap now b = Inr ((rp_jobs r, rp_subs r), on_subs (rp_woken r) wake (rp_bus r))" by blast
  then have b': "b' = on_subs (rp_woken r) wake (rp_bus r)" using assms(2) by simp
  from re assms(3) have o: "objects (rp_bus r) ! i = (if i \<in> set g then mark_closed (objects b ! i) else objects b ! i)"
    and "length (objects (rp_bus r)) = length (objects b)" unfolding reaped_def by simp_all
  then show "length (objects b') = length (objects b)" by (simp add: b')
  show "queued (objects b' ! i) = queued (objects b ! i)" "closed (objects b ! i) \<longrightarrow> closed (objects b' ! i)"
    by (simp_all add: b' on_subs_keeps [of queued] on_subs_keeps [of closed] o)
qed

lemma other_sub:
  assumes "bus_inv b" and "i < length (objects b)" and "foreign i x"
  shows "i < length (objects (run_bus_op x b))"
    and "length (queued (objects b ! i)) < max_queue \<or> put_in_queue i x b = [] \<Longrightarrow>
      queued (objects (run_bus_op x b) ! i) = queued (objects b ! i) @ put_in_queue i x b"
    and "closed (objects b ! i) \<Longrightarrow> closed (objects (run_bus_op x b) ! i) \<and> put_in_queue i x b = []"
proof -
  have open_att: "attached b job i \<Longrightarrow> \<not> closed (objects b ! i)" for job using bus_invD(4) [OF assms(1)] by blast
  have all: "i < length (objects (run_bus_op x b)) \<and>
    (length (queued (objects b ! i)) < max_queue \<or> put_in_queue i x b = [] \<longrightarrow>
      queued (objects (run_bus_op x b) ! i) = queued (objects b ! i) @ put_in_queue i x b) \<and>
    (closed (objects b ! i) \<longrightarrow> closed (objects (run_bus_op x b) ! i) \<and> put_in_queue i x b = [])"
  proof (cases x)
    case (Subscribe job c l)
    obtain k b' where sb: "subscribe job c l b = (k, b')" by (cases "subscribe job c l b")
    from subscribe_facts(4,6) [OF assms(1) sb] Subscribe assms(2) sb show ?thesis by simp
  next
    case (Unsubscribe job k)
    then show ?thesis using assms(2) unsubscribe_facts(3) [OF assms(1)] by simp
  next
    case (Publish job e ty ts now)
    have "queued (objects (run_bus_op x b) ! i) =
        (if attached b job i then push_event (stamp e ty ts) (queued (objects b ! i)) else queued (objects b ! i))"
      and "closed (objects (run_bus_op x b) ! i) = closed (objects b ! i)"
      using on_subs_nth [OF distinct_subs_of [OF assms(1), of job] assms(2)] Publish
      by (simp_all add: publish_def attached_def deliver_def)
    with Publish assms(2) open_att show ?thesis
      by (auto simp: publish_def push_event_def Let_def)
  next
    case (Cleanup job)
    have "objects (run_bus_op x b) ! i =
        (if i \<in> set (subs_of b job) then end_stream (objects b ! i) else objects b ! i)"
      using on_subs_nth [OF distinct_subs_of [OF assms(1), of job], of i "forget_job job b" end_stream] Cleanup assms(2)
      by (simp add: cleanup_job_def)
    with Cleanup assms(2) show ?thesis by (simp add: cleanup_job_def)
  next
    case (Reap ttl cap now)
    then show ?thesis using assms(2) reap_sub [OF assms(1) _ assms(2), of ttl cap now] by (auto split: sum.splits)
  next
    case (Consume k q l n)
    with assms(2,3) show ?thesis by (simp add: on_sub_nth)
  qed
  then show "i < length (objects (run_bus_op x b))"
    "length (queued (objects b ! i)) < max_queue \<or> put_in_queue i x b = [] \<Longrightarrow>
      queued (objects (run_bus_op x b) ! i) = queued (objects b ! i) @ put_in_queue i x b"
    "closed (objects b ! i) \<Longrightarrow> closed (objects (run_bus_op x b) ! i) \<and> put_in_queue i x b = []" by blast+
qed

lemma other_step_inv:
  assumes "stream_inv s" and "foreign (st_sub (ss_stream s)) x"
  shows "stream_inv (other_step x s)"
proof -
  let ?b = "ss_bus s" and ?st = "ss_stream s"
  have inv: "bus_inv ?b" and i: "st_sub ?st < length (objects ?b)" using assms(1) by (simp_all add: stream_inv_def)
  note sub = other_sub [OF inv i assms(2)]
  have "relays (other_step x s)" if "\<not> ss_lost (other_step x s)"
  proof -
    from that have q: "length (queued (own_sub s)) < max_queue \<or> put_in_queue (st_sub ?st) x ?b = []" and "\<not> ss_lost s"
      by (auto simp: other_step_def Let_def)
    with assms(1) obtain relayed tail where r: "ss_log s = relayed @ queued (own_sub s)" "ending_ok s relayed tail"
      "payloads (st_out ?st) @ in_hand ?st = payloads (ss_start s) @ relayed @ tail"
      unfolding stream_inv_def relays_def by blast
    have "ending_ok (other_step x s) relayed tail"
      using r(2) sub(2) [OF q] sub(3)
      by (cases "st_phase ?st") (auto simp: ending_ok_def other_step_def Let_def)
    moreover have "ss_log (other_step x s) = relayed @ queued (own_sub (other_step x s))"
      using r(1) sub(2) [OF q] by (simp add: other_step_def Let_def)
    ultimately show ?thesis unfolding relays_def using r(3) by (auto simp: other_step_def Let_def)
  qed
  moreover have "ss_bus (other_step x s) = run_bus_op x ?b" "ss_stream (other_step x s) = ?st"
    by (simp_all add: other_step_def Let_def)
  ultimately show ?thesis using sub(1) bus_op_inv [OF inv] unfolding stream_inv_def by metis
qed

section \<open>What the stream does itself\<close>

lemma in_phase_simps [simp]:
  "st_job (in_phase p st) = st_job st" "st_sub (in_phase p st) = st_sub st" "st_out (in_phase p st) = st_out st"
  "st_terminal (in_phase p st) = st_terminal st" "st_phase (in_phase p st) = p"
  "st_deadline (in_phase p st) = st_deadline st" "st_async (in_phase p st) = st_async st"
  by (simp_all add: in_phase_def)

lemma own_change_simps [simp]:
  "queued (touch now s) = queued s" "queued (clear_notify s) = queued s" "closed (clear_notify s) = closed s"
  "queued (pop_event s) = tl (queued s)" "closed (pop_event s) = closed s"
  by (simp_all add: touch_def clear_notify_def pop_event_def)

lemma on_sub_inv: "bus_inv b \<Longrightarrow> (\<And>s. closed (f s) = closed s) \<Longrightarrow> bus_inv (on_sub i f b)"
  using on_subs_inv [of b f "[i]"] by simp

lemma relaysI:
  "ss_log s = relayed @ queued (own_sub s) \<Longrightarrow> ending_ok s relayed tail \<Longrightarrow>
    payloads (st_out (ss_stream s)) @ in_hand (ss_stream s) = payloads (ss_start s) @ relayed @ tail \<Longrightarrow> relays s"
  unfolding relays_def by blast

lemma drain_step_relays:
  assumes "relays s" and "st_phase (ss_stream s) = Draining closing lines sent"
    and "drain_step closing lines sent (ss_stream s) (ss_bus s) = (st, b)" and "st_sub (ss_stream s) < length (objects (ss_bus s))"
  shows "relays (s\<lparr>ss_stream := st, ss_bus := b\<rparr>)"
proof -
  let ?terminal = "list_ex (is_terminal (st_terminal (ss_stream s)))"
  from assms(1,2) obtain before where log: "ss_log s = (before @ lines) @ queued (own_sub s)"
    and sent: "sent = ?terminal lines" and early: "\<not> ?terminal before" and cl: "closing \<longrightarrow> closed (own_sub s)"
    and out: "payloads (st_out (ss_stream s)) = payloads (ss_start s) @ before"
    by (auto simp: relays_def ending_ok_def in_hand_def Let_def)
  show ?thesis
  proof (cases "queued (own_sub s)")
    case Nil
    with assms(3) have st: "st = finish_drain closing lines sent (ss_stream s)" "b = ss_bus s" by (simp_all add: drain_step_def)
    define tail where "tail = (if sent then [done_event] else if closing then [closed_event, done_event] else [])"
    show ?thesis
      using log sent early cl Nil out
      by (intro relaysI [of _ "before @ lines" tail])
        (auto simp: st finish_drain_def tail_def ending_ok_def in_hand_def)
  next
    case (Cons e es)
    with assms(3) have st: "st = in_phase (Draining closing (lines @ [e]) (sent \<or> is_terminal (st_terminal (ss_stream s)) e)) (ss_stream s)"
      "b = on_sub (st_sub (ss_stream s)) pop_event (ss_bus s)" by (simp_all add: drain_step_def)
    show ?thesis
      using log sent early cl Cons out assms(4)
      by (intro relaysI [of _ "before @ lines @ [e]" "[]"])
        (auto simp: st ending_ok_def in_hand_def on_sub_nth Let_def)
  qed
qed

lemma own_step_inv:
  assumes "stream_inv s" and "advance_stream now (ss_stream s) (ss_bus s) = Some (st, b)"
  shows "stream_inv (s\<lparr>ss_stream := st, ss_bus := b\<rparr>)"
proof -
  let ?st = "ss_stream s"
  have inv: "bus_inv (ss_bus s)" and i: "st_sub ?st < length (objects (ss_bus s))" using assms(1) by (simp_all add: stream_inv_def)
  have "bus_inv b \<and> st_sub st < length (objects b)"
    using assms(2) inv i
    by (auto simp: advance_stream_def drain_step_def finish_drain_def unsubscribe_facts
        split: stream_phase.splits if_splits list.splits intro!: on_sub_inv)
  moreover have "relays (s\<lparr>ss_stream := st, ss_bus := b\<rparr>)" if r: "relays s"
  proof (cases "st_phase ?st")
    case (Draining closing lines sent)
    with drain_step_relays [OF r Draining _ i] assms(2) show ?thesis by (simp add: advance_stream_def)
  next
    case Leaving
    with r assms(2) inv i show ?thesis
      by (auto simp: advance_stream_def relays_def ending_ok_def in_hand_def unsubscribe_facts(3))
  qed (use r assms(2) i in \<open>auto simp: advance_stream_def relays_def ending_ok_def in_hand_def on_sub_nth split: if_splits\<close>)
  ultimately show ?thesis using assms(1) by (auto simp: stream_inv_def)
qed

lemma opened_inv: "opened s \<Longrightarrow> stream_inv s"
proof -
  assume "opened s"
  then obtain job tys snap async c l deadline b
    where o: "bus_inv b" "open_stream job tys snap async c l deadline b = (ss_stream s, ss_bus s)"
      "ss_start s = st_out (ss_stream s)" "ss_log s = []" unfolding opened_def by blast
  obtain i b' where sb: "subscribe job c l b = (i, b')" by (cases "subscribe job c l b")
  note f = subscribe_facts [OF o(1) sb]
  from o(2) have "ss_stream s = fst (open_stream job tys snap async c l deadline b)"
    "ss_bus s = snd (open_stream job tys snap async c l deadline b)" by simp_all
  then have st: "ss_bus s = b'" "st_sub (ss_stream s) = i" "st_phase (ss_stream s) = Top"
    by (simp_all add: open_stream_def sb)
  have "relays s" using o(3,4) f(5) st by (intro relaysI [of _ "[]" "[]"]) (auto simp: ending_ok_def in_hand_def)
  with f st show "stream_inv s" by (simp add: stream_inv_def)
qed

interpretation progress_stream: invariant_system opened stream_step stream_inv
  by unfold_locales (auto simp: opened_inv elim!: stream_stepE intro: other_step_inv own_step_inv)

section \<open>Properties\<close>

text \<open>C31. The stream relays exactly: as long as its queue never overflowed, what the client got is the snapshot and
  then the events published for the job, in order, each once, up to those still queued or in hand; a normal
  end comes only after a terminal event, and the error of a reclaimed subscription only when none was
  published, so the end of a job never looks like an eviction, however the cleanup and the drains interleave.\<close>

theorem stream_relays_exactly:
  assumes "stream_reachable s" and "\<not> ss_lost s"
  shows "\<exists>relayed tail. ss_log s = relayed @ queued (own_sub s) \<and>
    payloads (st_out (ss_stream s)) @ in_hand (ss_stream s) = payloads (ss_start s) @ relayed @ tail \<and>
    (tail = [] \<or>
     tail = [done_event] \<and> list_ex (is_terminal (st_terminal (ss_stream s))) relayed \<or>
     tail = [closed_event, done_event] \<and> \<not> list_ex (is_terminal (st_terminal (ss_stream s))) (ss_log s))"
proof -
  from progress_stream.reachable_inv [OF assms(1)] assms(2) obtain relayed tail
    where r: "ss_log s = relayed @ queued (own_sub s)" "ending_ok s relayed tail"
      "payloads (st_out (ss_stream s)) @ in_hand (ss_stream s) = payloads (ss_start s) @ relayed @ tail"
    unfolding stream_inv_def relays_def by blast
  have "tail = [] \<or> tail = [done_event] \<and> list_ex (is_terminal (st_terminal (ss_stream s))) relayed \<or>
     tail = [closed_event, done_event] \<and> \<not> list_ex (is_terminal (st_terminal (ss_stream s))) (ss_log s)"
    using r(1,2) by (cases "st_phase (ss_stream s)") (auto simp: ending_ok_def Let_def)
  with r show ?thesis by blast
qed

lemma own_run_add: "own_run (m + n) now st b = (case own_run m now st b of (st, b) \<Rightarrow> own_run n now st b)"
proof (induction m arbitrary: st b)
  case (Suc m)
  show ?case
  proof (cases "advance_stream now st b")
    case None
    then have "own_run n now st b = (st, b)" by (cases n) simp_all
    with None show ?thesis by simp
  qed (auto simp: Suc)
qed simp

lemma own_run_step: "advance_stream now st b = Some (st', b') \<Longrightarrow> own_run (Suc n) now st b = own_run n now st' b'"
  by simp

text \<open>A drain takes one step for each queued event and one to finish.\<close>

lemma drain_run:
  assumes "st_phase st = Draining closing lines sent" and "st_sub st < length (objects b)" and "queued (objects b ! st_sub st) = q"
  shows "\<exists>b'. own_run (length q) now st b =
      (in_phase (Draining closing (lines @ q) (sent \<or> list_ex (is_terminal (st_terminal st)) q)) st, b') \<and>
    queued (objects b' ! st_sub st) = [] \<and> closed (objects b' ! st_sub st) = closed (objects b ! st_sub st) \<and>
    length (objects b') = length (objects b)"
  using assms
proof (induction q arbitrary: st b lines sent)
  case Nil
  then show ?case by (simp add: in_phase_def)
next
  case (Cons e q)
  let ?st = "in_phase (Draining closing (lines @ [e]) (sent \<or> is_terminal (st_terminal st) e)) st"
  let ?b = "on_sub (st_sub st) pop_event b"
  have step: "advance_stream now st b = Some (?st, ?b)"
    using Cons.prems by (simp add: advance_stream_def drain_step_def)
  have "queued (objects ?b ! st_sub ?st) = q" using Cons.prems by (simp add: on_sub_nth)
  from Cons.IH [of ?st "lines @ [e]" "sent \<or> is_terminal (st_terminal st) e" ?b] this Cons.prems(2)
  show ?case unfolding length_Cons own_run_step [OF step] using Cons.prems by (auto simp: on_sub_nth in_phase_def)
qed

lemma drain_ends:
  assumes "st_phase st = Draining closing lines sent" and "st_sub st < length (objects b)"
    and "queued (objects b ! st_sub st) = q" and "sent \<or> list_ex (is_terminal (st_terminal st)) q \<or> closing"
  shows "\<exists>st' b'. own_run (length q + 2) now st b = (st', b') \<and> st_phase st' = Ended \<and> last (st_out st') = Data done_event"
proof -
  let ?st = "in_phase (Draining closing (lines @ q) (sent \<or> list_ex (is_terminal (st_terminal st)) q)) st"
  from drain_run [OF assms(1-3), of now] obtain b' where r: "own_run (length q) now st b = (?st, b')"
    and q: "queued (objects b' ! st_sub st) = []" by blast
  let ?fin = "in_phase Ended (finish_drain closing (lines @ q) (sent \<or> list_ex (is_terminal (st_terminal st)) q) ?st)"
  have "own_run 2 now ?st b' = (?fin, unsubscribe (st_job st) (st_sub st) b')"
    using assms(4) q by (simp add: numeral_2_eq_2 advance_stream_def drain_step_def finish_drain_def in_phase_def)
  with r have "own_run (length q + 2) now st b = (?fin, unsubscribe (st_job st) (st_sub st) b')"
    unfolding own_run_add by simp
  moreover have "st_phase ?fin = Ended" "last (st_out ?fin) = Data done_event"
    using assms(4) by (auto simp: finish_drain_def)
  ultimately show ?thesis by blast
qed

lemma top_ends:
  assumes "st_phase st = Top" and "st_sub st < length (objects b)" and "now < st_deadline st"
    and "closed (objects b ! st_sub st) \<or> list_ex (is_terminal (st_terminal st)) (queued (objects b ! st_sub st))"
  shows "\<exists>n \<le> length (queued (objects b ! st_sub st)) + 5. \<exists>st' b'. own_run n now st b = (st', b') \<and> st_phase st' = Ended \<and>
    last (st_out st') = Data done_event"
proof -
  let ?q = "queued (objects b ! st_sub st)"
  let ?st = "in_phase (Draining False [] False) st" and ?b = "on_sub (st_sub st) (touch now) b"
  have step: "advance_stream now st b = Some (?st, ?b)" using assms(1,3) by (simp add: advance_stream_def)
  have q: "queued (objects ?b ! st_sub ?st) = ?q" "closed (objects ?b ! st_sub ?st) = closed (objects b ! st_sub st)"
    "st_sub ?st < length (objects ?b)" using assms(2) by (simp_all add: on_sub_nth)
  have ph: "st_phase ?st = Draining False [] False" by simp
  show ?thesis
  proof (cases "list_ex (is_terminal (st_terminal st)) ?q")
    case True
    then have "False \<or> list_ex (is_terminal (st_terminal ?st)) ?q \<or> False" by simp
    from drain_ends [OF ph q(3,1) this] obtain st' b'
      where "own_run (length ?q + 2) now ?st ?b = (st', b')" and e: "st_phase st' = Ended" "last (st_out st') = Data done_event"
      by blast
    then have "own_run (Suc (length ?q + 2)) now st b = (st', b')" unfolding own_run_step [OF step] by simp
    with e show ?thesis by (intro exI [of _ "Suc (length ?q + 2)"]) (simp del: own_run.simps)
  next
    case False
    from drain_run [OF ph q(3,1), of now] q(2) False obtain b1
      where r: "own_run (length ?q) now ?st ?b = (in_phase (Draining False ?q False) ?st, b1)"
        and b1: "queued (objects b1 ! st_sub st) = []" "closed (objects b1 ! st_sub st) = closed (objects b ! st_sub st)"
          "length (objects b1) = length (objects b)" by (auto simp del: own_run.simps)
    let ?st1 = "in_phase (Draining False ?q False) ?st"
    let ?st2 = "in_phase (Draining True [] False) (finish_drain False ?q False ?st1)"
    have "own_run 2 now ?st1 b1 = (?st2, b1)"
      using b1 assms(4) False by (simp add: numeral_2_eq_2 advance_stream_def drain_step_def finish_drain_def in_phase_def)
    then have two: "own_run (Suc (length ?q + 2)) now st b = (?st2, b1)"
      unfolding own_run_step [OF step] own_run_add r by simp
    have p2: "st_phase ?st2 = Draining True [] False" "st_sub ?st2 < length (objects b1)" "queued (objects b1 ! st_sub ?st2) = []"
      using b1 assms(2) by (simp_all add: finish_drain_def)
    have p3: "False \<or> list_ex (is_terminal (st_terminal ?st2)) [] \<or> True" by simp
    from drain_ends [OF p2 p3, of now, unfolded list.size(3) add_0] obtain st' b'
      where "own_run 2 now ?st2 b1 = (st', b')" and e: "st_phase st' = Ended" "last (st_out st') = Data done_event"
      by blast
    then have "own_run (Suc (length ?q + 2) + 2) now st b = (st', b')" unfolding own_run_add two by simp
    with e show ?thesis by (intro exI [of _ "Suc (length ?q + 2) + 2"]) (simp del: own_run.simps)
  qed
qed

lemma expired_ends:
  assumes "st_phase st = Top" and "st_deadline st \<le> now"
  shows "\<exists>b'. own_run 2 now st b = (in_phase Ended st, b')"
  using assms by (simp add: numeral_2_eq_2 advance_stream_def in_phase_def)

text \<open>C32. A finished stream ends: a stream that waits or starts a pass, with a terminal event in its queue, its
  subscription closed or its deadline reached, ends within as many own steps as events are queued and six
  more. Before the deadline the last thing it sends is the end marker; from the deadline on it sends
  nothing more, not even a terminal event that is queued.\<close>

theorem finished_stream_ends:
  assumes "stream_reachable s" and "st_phase (ss_stream s) \<in> {Top, Waiting}"
    and "closed (own_sub s) \<or> list_ex (is_terminal (st_terminal (ss_stream s))) (queued (own_sub s)) \<or>
      st_deadline (ss_stream s) \<le> now"
  shows "\<exists>n \<le> length (queued (own_sub s)) + 6. \<exists>st b. own_run n now (ss_stream s) (ss_bus s) = (st, b) \<and>
    st_phase st = Ended \<and>
    (if now < st_deadline (ss_stream s) then last (st_out st) = Data done_event else st_out st = st_out (ss_stream s))"
proof -
  let ?st = "ss_stream s" and ?b = "ss_bus s"
  have i: "st_sub ?st < length (objects ?b)"
    using progress_stream.reachable_inv [OF assms(1)] by (simp add: stream_inv_def)
  have top: "\<exists>n \<le> length (queued (objects b ! st_sub st)) + 5. \<exists>st' b'. own_run n now st b = (st', b') \<and>
      st_phase st' = Ended \<and> (if now < st_deadline st then last (st_out st') = Data done_event else st_out st' = st_out st)"
    if "st_phase st = Top" "st_sub st < length (objects b)"
      "closed (objects b ! st_sub st) \<or> list_ex (is_terminal (st_terminal st)) (queued (objects b ! st_sub st)) \<or>
       st_deadline st \<le> now" for st b
  proof (cases "now < st_deadline st")
    case True
    with top_ends [OF that(1,2) True] that(3) show ?thesis by force
  next
    case False
    then show ?thesis using expired_ends [OF that(1), of now b] by (intro exI [of _ 2]) auto
  qed
  show ?thesis
  proof (cases "st_phase ?st = Top")
    case True
    from top [OF True i assms(3)] obtain n st b where "n \<le> length (queued (own_sub s)) + 5"
      and "own_run n now ?st ?b = (st, b)" "st_phase st = Ended"
        "if now < st_deadline ?st then last (st_out st) = Data done_event else st_out st = st_out ?st" by blast
    then show ?thesis by (intro exI [of _ n]) simp
  next
    case False
    let ?b1 = "if st_async ?st then ?b else on_sub (st_sub ?st) clear_notify ?b"
    have step: "advance_stream now ?st ?b = Some (in_phase Top ?st, ?b1)"
      using False assms(2) by (auto simp: advance_stream_def)
    have o: "queued (objects ?b1 ! st_sub ?st) = queued (own_sub s)" "closed (objects ?b1 ! st_sub ?st) = closed (own_sub s)"
      using i by (simp_all add: on_sub_nth)
    have p: "st_phase (in_phase Top ?st) = Top" "st_sub (in_phase Top ?st) < length (objects ?b1)"
      "closed (objects ?b1 ! st_sub (in_phase Top ?st)) \<or>
       list_ex (is_terminal (st_terminal (in_phase Top ?st))) (queued (objects ?b1 ! st_sub (in_phase Top ?st))) \<or>
       st_deadline (in_phase Top ?st) \<le> now"
      using i assms(3) by (simp_all only: in_phase_simps o) simp
    from top [OF p] obtain n st b
      where n: "n \<le> length (queued (own_sub s)) + 5" and r: "own_run n now (in_phase Top ?st) ?b1 = (st, b)"
        and e: "st_phase st = Ended" "if now < st_deadline ?st then last (st_out st) = Data done_event else st_out st = st_out ?st"
      unfolding in_phase_simps o by blast
    have "own_run (Suc n) now ?st ?b = (st, b)" unfolding own_run_step [OF step] by (rule r)
    with n e show ?thesis by (intro exI [of _ "Suc n"]) auto
  qed
qed

section \<open>Witnesses\<close>

definition open_system :: stream_system where
  "open_system =
     (let (st, b) = open_stream ''j'' [''completed''] None False 0 0 1000 empty_bus
      in \<lparr>ss_bus = b, ss_stream = st, ss_start = st_out st, ss_log = [], ss_lost = False\<rparr>)"

definition own_move :: "int \<Rightarrow> stream_system \<Rightarrow> stream_system" where
  "own_move now s =
     (case advance_stream now (ss_stream s) (ss_bus s) of
        None \<Rightarrow> s | Some (st, b) \<Rightarrow> s\<lparr>ss_stream := st, ss_bus := b\<rparr>)"

lemma open_system_reachable: "stream_reachable open_system"
proof (rule reach_init)
  have o: "open_stream ''j'' [''completed''] None False 0 0 1000 empty_bus = (ss_stream open_system, ss_bus open_system)"
    by (simp add: open_system_def case_prod_unfold Let_def)
  show "opened open_system"
    unfolding opened_def
    by (intro exI conjI) (rule empty_bus_inv, rule o, simp_all add: open_system_def case_prod_unfold Let_def)
qed

lemma own_move_reachable: "stream_reachable s \<Longrightarrow> stream_reachable (own_move now s)"
  by (auto simp: own_move_def split: option.split intro: reach_step step_own)

lemma other_reachable: "stream_reachable s \<Longrightarrow> foreign (st_sub (ss_stream s)) x \<Longrightarrow> stream_reachable (other_step x s)"
  by (erule reach_step) (rule step_other)

text \<open>The job publishes its terminal event and is cleaned up before the stream has looked even once.\<close>

definition finished_system :: stream_system where
  "finished_system = other_step (Cleanup ''j'')
     (other_step (Publish ''j'' [(''type'', JStr ''completed'')] None ''now'' 5) open_system)"

definition drained_system :: stream_system where
  "drained_system = own_move 6 (own_move 6 (own_move 6 (own_move 6 finished_system)))"

definition completed_event :: jdict where
  "completed_event = [(''type'', JStr ''completed''), (''ts'', JStr ''now'')]"

lemma finished_reachable: "stream_reachable finished_system" "stream_reachable drained_system"
  unfolding finished_system_def drained_system_def
  by (intro own_move_reachable other_reachable open_system_reachable; simp)+

lemma demo_stream_facts:
  "st_phase (ss_stream finished_system) = Top" "st_deadline (ss_stream finished_system) = 1000"
  "closed (own_sub finished_system)" "length (queued (own_sub finished_system)) = 1"
  "\<not> ss_lost drained_system" "ss_log drained_system = [completed_event]" "queued (own_sub drained_system) = []"
  "ss_start drained_system = []" "in_hand (ss_stream drained_system) = []" "st_terminal (ss_stream drained_system) = [''completed'']"
  by code_simp+

theorem stream_relays_exactly_witness:
  "payloads (st_out (ss_stream drained_system)) \<in> {[completed_event], [completed_event, done_event]}"
proof -
  have "is_terminal [''completed''] completed_event" by (simp add: is_terminal_def completed_event_def)
  with stream_relays_exactly [OF finished_reachable(2) demo_stream_facts(5)] show ?thesis
    by (auto simp: demo_stream_facts)
qed

theorem finished_stream_ends_witness:
  "\<exists>n \<le> 7. st_phase (fst (own_run n 6 (ss_stream finished_system) (ss_bus finished_system))) = Ended \<and>
     last (st_out (fst (own_run n 6 (ss_stream finished_system) (ss_bus finished_system)))) = Data done_event"
proof -
  have "6 < st_deadline (ss_stream finished_system)" by (simp add: demo_stream_facts)
  with finished_stream_ends [OF finished_reachable(1), of 6] demo_stream_facts(1,3) obtain n st b
    where "n \<le> length (queued (own_sub finished_system)) + 6"
      and "own_run n 6 (ss_stream finished_system) (ss_bus finished_system) = (st, b)" and "st_phase st = Ended"
      and "last (st_out st) = Data done_event" by auto
  then show ?thesis by (intro exI [of _ n]) (simp add: demo_stream_facts(4))
qed

end
