(* ===== verification/RiskMerge.thy ===== *)
theory RiskMerge
  imports RiskFilter "HOL-Library.List_Lexorder" "HOL-Library.Char_ord"
begin

text \<open>
  Where risk limits come from: the migration of an untyped dictionary
  (\<open>RiskLimits.from_legacy_dict\<close> in \<^verbatim>\<open>execution/risk_filter.py\<close>) and the merge of the limits a
  refinement proposes (\<open>_merge_risk_limits_tighten_only\<close> in
  \<^verbatim>\<open>strategy_lab/_orchestrator_helpers.py\<close>). The values are what a language model may send: any JSON
  value, an integer of any size included; floats are rationals, so an integer is not rounded before it
  is compared, and NaN and the infinities, which the language's JSON reader accepts, are left out. The argument \<open>readers\<close> holds what lies outside the program: the number \<open>float()\<close> reads in
  a text, and what the schema's library makes of a value in a number field.
\<close>

section \<open>Values and their readings\<close>

datatype limit_value = LNone | LBool bool | LInt int | LFloat rat | LText string | LOther

record readers =
  read_float :: "string \<Rightarrow> rat option"
  field_float :: "limit_value \<Rightarrow> rat option"
  field_int :: "limit_value \<Rightarrow> int option"

text \<open>
  \<open>float(v)\<close>: \<open>FRejected\<close> is the \<open>TypeError\<close> or \<open>ValueError\<close>, \<open>FOverflow\<close> the \<open>OverflowError\<close> of an
  integer that rounds beyond the largest double.
\<close>

datatype float_result = FVal rat | FRejected | FOverflow

definition float_limit :: int where
  "float_limit = 2 ^ 1024 - 2 ^ 970"

fun py_float :: "readers \<Rightarrow> limit_value \<Rightarrow> float_result" where
  "py_float r LNone = FRejected"
| "py_float r (LBool b) = FVal (of_bool b)"
| "py_float r (LInt n) = (if \<bar>n\<bar> < float_limit then FVal (of_int n) else FOverflow)"
| "py_float r (LFloat q) = FVal q"
| "py_float r (LText s) = (case read_float r s of Some q \<Rightarrow> FVal q | None \<Rightarrow> FRejected)"
| "py_float r LOther = FRejected"

text \<open>
  What the program relies on: a field that accepts a value takes the number \<open>float()\<close> takes it for, no
  number is \<open>None\<close>, and a field accepts its own kind of number.
\<close>

definition readers_agree :: "readers \<Rightarrow> bool" where
  "readers_agree r \<longleftrightarrow>
     (\<forall>v q q'. field_float r v = Some q \<longrightarrow> py_float r v = FVal q' \<longrightarrow> q = q') \<and>
     (\<forall>v n q. field_int r v = Some n \<longrightarrow> py_float r v = FVal q \<longrightarrow> q = of_int n) \<and>
     field_float r LNone = None \<and> field_int r LNone = None \<and>
     (\<forall>q. field_float r (LFloat q) = Some q) \<and> (\<forall>n. field_int r (LInt n) = Some n)"

definition as_optional_float_field :: "readers \<Rightarrow> limit_value \<Rightarrow> rat option option" where
  "as_optional_float_field r v = (if v = LNone then Some None else map_option Some (field_float r v))"

section \<open>The schema\<close>

text \<open>\<open>RiskLimits(**data)\<close>: \<open>None\<close> is a validation error.\<close>

definition field_or :: "(limit_value \<Rightarrow> 'a option) \<Rightarrow> 'a \<Rightarrow> (string, limit_value) pydict \<Rightarrow> string \<Rightarrow> 'a option" where
  "field_or f dflt d k = (case dget d k of None \<Rightarrow> Some dflt | Some v \<Rightarrow> f v)"

definition read_limits :: "readers \<Rightarrow> (string, limit_value) pydict \<Rightarrow> risk_limits option" where
  "read_limits r d =
     (case (field_or (field_float r) (max_gross_leverage default_limits) d ''max_gross_leverage'',
            field_or (field_float r) (max_position_pct default_limits) d ''max_position_pct'',
            field_or (field_float r) (max_symbol_concentration_pct default_limits) d ''max_symbol_concentration_pct'',
            field_or (field_int r) (max_open_positions default_limits) d ''max_open_positions'',
            field_or (as_optional_float_field r) (target_annual_vol default_limits) d ''target_annual_vol'',
            field_or (field_int r) (vol_lookback_days default_limits) d ''vol_lookback_days'') of
        (Some gross, Some pos, Some conc, Some opens, Some vol, Some days) \<Rightarrow>
          let l = \<lparr>max_gross_leverage = gross, max_position_pct = pos, max_symbol_concentration_pct = conc,
                   max_open_positions = opens, target_annual_vol = vol, vol_lookback_days = days\<rparr>
          in if limits_wf l then Some l else None
      | _ \<Rightarrow> None)"

text \<open>\<open>limits.model_dump()\<close>.\<close>

definition dump_limits :: "risk_limits \<Rightarrow> (string, limit_value) pydict" where
  "dump_limits l =
     [(''max_gross_leverage'', LFloat (max_gross_leverage l)),
      (''max_position_pct'', LFloat (max_position_pct l)),
      (''max_symbol_concentration_pct'', LFloat (max_symbol_concentration_pct l)),
      (''max_open_positions'', LInt (max_open_positions l)),
      (''target_annual_vol'', case target_annual_vol l of None \<Rightarrow> LNone | Some v \<Rightarrow> LFloat v),
      (''vol_lookback_days'', LInt (vol_lookback_days l))]"

definition known_fields :: "string list" where
  "known_fields = dkeys (dump_limits default_limits)"

definition from_legacy_dict :: "readers \<Rightarrow> (string, limit_value) pydict \<Rightarrow> risk_limits option" where
  "from_legacy_dict r raw = read_limits r (filter (\<lambda>(k, v). k \<in> set known_fields) raw)"

section \<open>The tighten-only merge\<close>

datatype direction = Lower | Higher

definition tighten_directions :: "(string, direction option) pydict" where
  "tighten_directions =
     [(''max_gross_leverage'', Some Lower), (''max_position_pct'', Some Lower),
      (''max_symbol_concentration_pct'', Some Lower), (''max_open_positions'', Some Lower),
      (''target_annual_vol'', Some Lower), (''vol_lookback_days'', None)]"

definition tighten_direction :: "string \<Rightarrow> direction option" where
  "tighten_direction k = (case dget tighten_directions k of Some d \<Rightarrow> d | None \<Rightarrow> None)"

text \<open>\<open>float(v) if v is not None else None\<close>.\<close>

definition float_or_none :: "readers \<Rightarrow> limit_value \<Rightarrow> float_result option" where
  "float_or_none r v = (if v = LNone then None else Some (py_float r v))"

record merge_state =
  merged_data :: "(string, limit_value) pydict"
  loosened :: "string list"
  unknown :: "string list"

datatype verdict = Accept | Loosens | Unknown | NoChange | Raises

text \<open>The two conversions, in order, then the comparison.\<close>

fun compare_limits :: "direction \<Rightarrow> float_result option \<Rightarrow> float_result option \<Rightarrow> verdict" where
  "compare_limits dir (Some FRejected) n = Unknown"
| "compare_limits dir (Some FOverflow) n = Raises"
| "compare_limits dir c (Some FRejected) = Unknown"
| "compare_limits dir c (Some FOverflow) = Raises"
| "compare_limits Lower (Some (FVal a)) (Some (FVal b)) = (if b < a then Accept else if a < b then Loosens else NoChange)"
| "compare_limits Higher (Some (FVal a)) (Some (FVal b)) = (if a < b then Accept else if b < a then Loosens else NoChange)"
| "compare_limits dir c n = NoChange"

definition judge :: "readers \<Rightarrow> (string, limit_value) pydict \<Rightarrow> string \<Rightarrow> limit_value \<Rightarrow> verdict" where
  "judge r data key new =
     (case tighten_direction key of
        None \<Rightarrow> Unknown
      | Some dir \<Rightarrow>
          let cur = (case dget data key of Some v \<Rightarrow> v | None \<Rightarrow> LNone) in
          if key = ''target_annual_vol'' \<and> cur = LNone \<and> new \<noteq> LNone then Loosens
          else if key = ''target_annual_vol'' \<and> cur \<noteq> LNone \<and> new = LNone then Loosens
          else if cur \<noteq> LNone \<and> new = LNone then Loosens
          else compare_limits dir (float_or_none r cur) (float_or_none r new))"

definition merge_key :: "readers \<Rightarrow> string \<Rightarrow> limit_value \<Rightarrow> merge_state \<Rightarrow> merge_state option" where
  "merge_key r key new s =
     (case judge r (merged_data s) key new of
        Accept \<Rightarrow> Some (s\<lparr>merged_data := dset (merged_data s) key new\<rparr>)
      | Loosens \<Rightarrow> Some (s\<lparr>loosened := loosened s @ [key]\<rparr>)
      | Unknown \<Rightarrow> Some (s\<lparr>unknown := unknown s @ [key]\<rparr>)
      | NoChange \<Rightarrow> Some s
      | Raises \<Rightarrow> None)"

fun merge_keys :: "readers \<Rightarrow> (string, limit_value) pydict \<Rightarrow> merge_state \<Rightarrow> merge_state option" where
  "merge_keys r [] s = Some s"
| "merge_keys r ((k, v) # kvs) s = Option.bind (merge_key r k v s) (merge_keys r kvs)"

datatype proposal = LimitsDict "(string, limit_value) pydict" | NotADict

text \<open>\<open>None\<close> is the \<open>OverflowError\<close> the loop does not catch.\<close>

definition merge_limits ::
  "readers \<Rightarrow> risk_limits \<Rightarrow> proposal \<Rightarrow> (risk_limits \<times> string list \<times> string list) option" where
  "merge_limits r current proposed =
     (case proposed of
        NotADict \<Rightarrow> Some (current, [], [])
      | LimitsDict p \<Rightarrow>
          map_option
            (\<lambda>s. case read_limits r (merged_data s) of
                   Some merged \<Rightarrow> (merged, loosened s, unknown s)
                 | None \<Rightarrow> (current, loosened s, sort (remdups (unknown s @ dkeys p))))
            (merge_keys r p \<lparr>merged_data = dump_limits current, loosened = [], unknown = []\<rparr>))"

end
