(* ===== verification/RiskMergeProps.thy ===== *)
theory RiskMergeProps
  imports RiskMerge
begin

text \<open>
  What the tighten-only merge guarantees: merged limits are valid and in no field looser, the proposal
  is split into taken, refused and unknown keys by comparison with the limits it started from, and the
  entry gate and the sizing under merged limits stay within those under the old ones.
\<close>

section \<open>Tighter limits\<close>

definition tighter :: "risk_limits \<Rightarrow> risk_limits \<Rightarrow> bool" where
  "tighter a b \<longleftrightarrow>
     max_gross_leverage a \<le> max_gross_leverage b \<and> max_position_pct a \<le> max_position_pct b \<and>
     max_symbol_concentration_pct a \<le> max_symbol_concentration_pct b \<and>
     max_open_positions a \<le> max_open_positions b \<and>
     rel_option (\<le>) (target_annual_vol a) (target_annual_vol b) \<and>
     vol_lookback_days a = vol_lookback_days b"

lemma tighter_refl [simp, intro]: "tighter l l"
  by (simp add: tighter_def option.rel_refl)

lemma tighter_trans: "tighter a b \<Longrightarrow> tighter b c \<Longrightarrow> tighter a c"
  unfolding tighter_def by (auto simp: option_rel_Some1 intro: option.rel_refl elim!: option.rel_cases)

section \<open>The loop over the proposal\<close>

lemma tighten_direction_lower: "tighten_direction k = Some d \<Longrightarrow> d = Lower \<and> k \<noteq> ''vol_lookback_days''"
  by (auto simp: tighten_direction_def tighten_directions_def split: if_splits)

lemma compare_accept:
  "compare_limits dir c n = Accept \<Longrightarrow> dir = Lower \<Longrightarrow> \<exists>a b. c = Some (FVal a) \<and> n = Some (FVal b) \<and> b < a"
  by (induction dir c n rule: compare_limits.induct) (auto split: if_splits)

lemma judge_accept:
  assumes "judge r data k new = Accept"
  obtains cur a b where "dget data k = Some cur" "py_float r cur = FVal a" "py_float r new = FVal b" "b < a"
    "k \<noteq> ''vol_lookback_days''"
proof -
  obtain dir where dir: "tighten_direction k = Some dir"
    using assms by (auto simp: judge_def split: option.splits)
  define cur where "cur = (case dget data k of Some v \<Rightarrow> v | None \<Rightarrow> LNone)"
  have "compare_limits dir (float_or_none r cur) (float_or_none r new) = Accept"
    using assms dir by (auto simp: judge_def cur_def [symmetric] split: if_splits)
  from compare_accept [OF this] tighten_direction_lower [OF dir] obtain a b where
    "float_or_none r cur = Some (FVal a)" "float_or_none r new = Some (FVal b)" "b < a" by auto
  moreover from this(1) have "dget data k = Some cur"
    by (auto simp: cur_def float_or_none_def split: option.splits)
  ultimately show ?thesis
    using that tighten_direction_lower [OF dir] by (auto simp: float_or_none_def split: if_splits)
qed

definition shrunk :: "readers \<Rightarrow> limit_value \<Rightarrow> limit_value \<Rightarrow> bool" where
  "shrunk r old new \<longleftrightarrow> new = old \<or> (\<exists>q q0. py_float r new = FVal q \<and> py_float r old = FVal q0 \<and> q < q0)"

lemma shrunk_step: "shrunk r old cur \<Longrightarrow> py_float r cur = FVal a \<Longrightarrow> py_float r new = FVal b \<Longrightarrow> b < a \<Longrightarrow> shrunk r old new"
  by (auto simp: shrunk_def intro: less_trans)

definition shrinks :: "readers \<Rightarrow> (string, limit_value) pydict \<Rightarrow> (string, limit_value) pydict \<Rightarrow> bool" where
  "shrinks r old data \<longleftrightarrow>
     (\<forall>k. rel_option (shrunk r) (dget old k) (dget data k)) \<and>
     dget data ''vol_lookback_days'' = dget old ''vol_lookback_days''"

lemma shrinks_refl: "shrinks r d d"
  by (auto simp: shrinks_def shrunk_def intro: option.rel_refl)

lemma merge_key_shrinks:
  assumes "shrinks r old (merged_data s)" and "merge_key r k new s = Some s'"
  shows "shrinks r old (merged_data s')"
proof (cases "judge r (merged_data s) k new = Accept")
  case True
  then obtain cur a b where j: "dget (merged_data s) k = Some cur" "py_float r cur = FVal a"
    "py_float r new = FVal b" "b < a" "k \<noteq> ''vol_lookback_days''" by (rule judge_accept)
  have s': "s' = s\<lparr>merged_data := dset (merged_data s) k new\<rparr>"
    using assms(2) True by (simp add: merge_key_def)
  have rel: "rel_option (shrunk r) (dget old x) (dget (merged_data s) x)" for x
    using assms(1) unfolding shrinks_def by blast
  obtain o1 where "dget old k = Some o1" "shrunk r o1 cur"
    using rel [of k] j(1) by (auto simp: option_rel_Some2)
  then have "rel_option (shrunk r) (dget old k) (Some new)"
    using j by (auto intro: shrunk_step)
  with rel assms(1) j(5) show ?thesis unfolding shrinks_def s' by simp
next
  case False
  with assms show ?thesis unfolding merge_key_def by (auto split: verdict.splits)
qed

lemma merge_keys_shrinks:
  "shrinks r old (merged_data s) \<Longrightarrow> merge_keys r p s = Some s' \<Longrightarrow> shrinks r old (merged_data s')"
proof (induction p arbitrary: s)
  case (Cons kv p)
  then show ?case by (cases kv) (auto simp: bind_eq_Some_conv dest: merge_key_shrinks)
qed simp

lemma readers_agreeD:
  assumes "readers_agree r"
  shows "field_float r v = Some q \<Longrightarrow> py_float r v = FVal q' \<Longrightarrow> q = q'"
    and "field_int r v = Some n \<Longrightarrow> py_float r v = FVal q' \<Longrightarrow> q' = of_int n"
    and "field_float r LNone = None" and "field_int r LNone = None"
    and "field_float r (LFloat q) = Some q" and "field_int r (LInt n) = Some n"
  using assms unfolding readers_agree_def by blast+

lemma shrunk_float:
  assumes "readers_agree r" and "shrunk r (LFloat q0) v" and "field_float r v = Some q"
  shows "q \<le> q0"
  using assms(2,3) readers_agreeD(1,5) [OF assms(1)] by (fastforce simp: shrunk_def)

lemma shrunk_int:
  assumes "readers_agree r" and "shrunk r (LInt n0) v" and "field_int r v = Some n"
  shows "n \<le> n0"
proof (cases "v = LInt n0")
  case True
  with assms(3) readers_agreeD(6) [OF assms(1)] show ?thesis by simp
next
  case False
  with assms(2) obtain q where q: "py_float r v = FVal q" "q < of_int n0"
    by (auto simp: shrunk_def split: if_splits)
  with readers_agreeD(2) [OF assms(1) assms(3) q(1)] show ?thesis by simp
qed

lemma shrunk_vol:
  assumes "readers_agree r" and "shrunk r (case t of None \<Rightarrow> LNone | Some x \<Rightarrow> LFloat x) v"
    and "as_optional_float_field r v = Some u"
  shows "rel_option (\<le>) u t"
proof (cases t)
  case None
  with assms(2,3) show ?thesis by (auto simp: shrunk_def as_optional_float_field_def)
next
  case (Some x)
  with assms(2) have v: "shrunk r (LFloat x) v" "v \<noteq> LNone" by (auto simp: shrunk_def)
  with assms(3) obtain q where "field_float r v = Some q" "u = Some q" by (auto simp: as_optional_float_field_def)
  with shrunk_float [OF assms(1) v(1)] Some show ?thesis by simp
qed

lemma read_limits_wf: "read_limits r d = Some l \<Longrightarrow> limits_wf l"
  by (auto simp: read_limits_def Let_def split: option.splits if_splits)

lemma read_limits_tighter:
  assumes "readers_agree r" and "shrinks r (dump_limits c) d" and "read_limits r d = Some l"
  shows "tighter l c"
proof -
  have rel: "rel_option (shrunk r) (dget (dump_limits c) k) (dget d k)" for k
    using assms(2) by (simp add: shrinks_def)
  have "dget d ''vol_lookback_days'' = Some (LInt (vol_lookback_days c))"
    using assms(2) by (simp add: shrinks_def dump_limits_def)
  moreover obtain g p s n t where
    g: "dget d ''max_gross_leverage'' = Some g" "shrunk r (LFloat (max_gross_leverage c)) g" and
    p: "dget d ''max_position_pct'' = Some p" "shrunk r (LFloat (max_position_pct c)) p" and
    s: "dget d ''max_symbol_concentration_pct'' = Some s" "shrunk r (LFloat (max_symbol_concentration_pct c)) s" and
    n: "dget d ''max_open_positions'' = Some n" "shrunk r (LInt (max_open_positions c)) n" and
    t: "dget d ''target_annual_vol'' = Some t"
       "shrunk r (case target_annual_vol c of None \<Rightarrow> LNone | Some x \<Rightarrow> LFloat x) t"
    using rel [of "''max_gross_leverage''"] rel [of "''max_position_pct''"]
      rel [of "''max_symbol_concentration_pct''"] rel [of "''max_open_positions''"] rel [of "''target_annual_vol''"]
    by (auto simp: dump_limits_def option_rel_Some1)
  ultimately show ?thesis
    using assms(3) shrunk_float [OF assms(1) g(2)] shrunk_float [OF assms(1) p(2)] shrunk_float [OF assms(1) s(2)]
      shrunk_int [OF assms(1) n(2)] shrunk_vol [OF assms(1) t(2)] g(1) p(1) s(1) n(1) t(1)
      readers_agreeD(6) [OF assms(1)]
    by (auto simp: read_limits_def field_or_def tighter_def Let_def split: option.splits if_splits)
qed

lemma merge_limits_tighter:
  assumes "readers_agree r" and "limits_wf c" and "merge_limits r c p = Some (m, lo, un)"
  shows "limits_wf m \<and> tighter m c"
proof (cases p)
  case NotADict
  with assms show ?thesis by (simp add: merge_limits_def)
next
  case (LimitsDict d)
  with assms(3) obtain s where
    s: "merge_keys r d \<lparr>merged_data = dump_limits c, loosened = [], unknown = []\<rparr> = Some s"
    and m: "m = (case read_limits r (merged_data s) of Some l \<Rightarrow> l | None \<Rightarrow> c)"
    by (auto simp: merge_limits_def split: option.splits)
  have "shrinks r (dump_limits c) (merged_data s)"
    using merge_keys_shrinks [OF _ s] by (simp add: shrinks_refl)
  from read_limits_tighter [OF assms(1) this] read_limits_wf m assms(2) show ?thesis
    by (auto split: option.splits)
qed

section \<open>Every key is judged against the limits the merge started from\<close>

definition reads_above :: "readers \<Rightarrow> limit_value \<Rightarrow> limit_value \<Rightarrow> bool" where
  "reads_above r old new = (case (py_float r old, py_float r new) of (FVal a, FVal b) \<Rightarrow> a < b | _ \<Rightarrow> False)"

definition capped_fields :: "string list" where
  "capped_fields = butlast known_fields"

text \<open>A key is refused when it removes or adds a limit, or raises one.\<close>

definition asks_looser :: "readers \<Rightarrow> risk_limits \<Rightarrow> string \<times> limit_value \<Rightarrow> bool" where
  "asks_looser r c = (\<lambda>(k, v). k \<in> set capped_fields \<and>
     (case dget (dump_limits c) k of
        None \<Rightarrow> False
      | Some cur \<Rightarrow> (if cur = LNone \<or> v = LNone then cur \<noteq> v else reads_above r cur v)))"

text \<open>A key that the merge cannot use: not one of the caps, or no number.\<close>

definition not_usable :: "readers \<Rightarrow> string \<times> limit_value \<Rightarrow> bool" where
  "not_usable r = (\<lambda>(k, v). k \<notin> set capped_fields \<or> v \<noteq> LNone \<and> py_float r v = FRejected)"

definition too_big :: "readers \<Rightarrow> string \<times> limit_value \<Rightarrow> bool" where
  "too_big r = (\<lambda>(k, v). k \<in> set capped_fields \<and> py_float r v = FOverflow)"

definition asks_tighter :: "readers \<Rightarrow> risk_limits \<Rightarrow> string \<times> limit_value \<Rightarrow> bool" where
  "asks_tighter r c = (\<lambda>(k, v). k \<in> set capped_fields \<and>
     (case dget (dump_limits c) k of None \<Rightarrow> False | Some cur \<Rightarrow> reads_above r v cur))"

lemma capped_fields_eq:
  "capped_fields = [''max_gross_leverage'', ''max_position_pct'', ''max_symbol_concentration_pct'',
     ''max_open_positions'', ''target_annual_vol'']"
  by (simp add: capped_fields_def known_fields_def dump_limits_def)

lemma tighten_direction_eq: "tighten_direction k = (if k \<in> set capped_fields then Some Lower else None)"
  by (auto simp: tighten_direction_def tighten_directions_def capped_fields_eq)

lemma judge_cong: "dget d k = dget d' k \<Longrightarrow> judge r d k v = judge r d' k v"
  by (simp only: judge_def)

definition in_double :: "risk_limits \<Rightarrow> bool" where
  "in_double c \<longleftrightarrow> \<bar>max_open_positions c\<bar> < float_limit"

lemma capped_value:
  assumes "k \<in> set capped_fields" and "in_double c"
  obtains (unset) "dget (dump_limits c) k = Some LNone" "k = ''target_annual_vol''"
    | (num) cur a where "dget (dump_limits c) k = Some cur" "cur \<noteq> LNone" "py_float r cur = FVal a"
  using assms that(2) by (cases "target_annual_vol c")
    (auto simp: capped_fields_eq dump_limits_def in_double_def intro: that(1))

lemma judge_capped:
  assumes "k \<in> set capped_fields" and "in_double c"
  shows "judge r (dump_limits c) k v =
    (if asks_looser r c (k, v) then Loosens
     else if v = LNone then NoChange
     else if py_float r v = FRejected then Unknown
     else if py_float r v = FOverflow then Raises
     else if asks_tighter r c (k, v) then Accept else NoChange)"
  using assms
proof (cases rule: capped_value [where r = r])
  case unset
  have "k = ''target_annual_vol'' \<Longrightarrow> k \<in> set capped_fields" by (simp add: capped_fields_eq)
  with unset show ?thesis
    by (simp add: judge_def tighten_direction_eq asks_looser_def float_or_none_def)
next
  case (num cur a)
  have "judge r (dump_limits c) k v =
    (if v = LNone then Loosens else compare_limits Lower (Some (FVal a)) (Some (py_float r v)))"
    using num assms(1) by (auto simp: judge_def tighten_direction_eq float_or_none_def)
  with num assms(1) show ?thesis
    by (cases "py_float r v") (simp_all add: asks_looser_def asks_tighter_def reads_above_def)
qed

lemma judge_uncapped: "k \<notin> set capped_fields \<Longrightarrow> judge r d k v = Unknown"
  by (simp add: judge_def tighten_direction_eq)

lemma merge_keys_eq:
  assumes "wf_dict p" and "\<forall>k\<in>set (dkeys p). dget (merged_data s) k = dget d k"
  shows "merge_keys r p s =
    (if \<exists>(k, v)\<in>set p. judge r d k v = Raises then None
     else Some \<lparr>merged_data = dupdate (merged_data s) (filter (\<lambda>(k, v). judge r d k v = Accept) p),
                loosened = loosened s @ dkeys (filter (\<lambda>(k, v). judge r d k v = Loosens) p),
                unknown = unknown s @ dkeys (filter (\<lambda>(k, v). judge r d k v = Unknown) p)\<rparr>)"
  using assms
proof (induction p arbitrary: s)
  case (Cons kv p)
  obtain k v where kv: "kv = (k, v)" by force
  have j: "judge r (merged_data s) k v = judge r d k v"
    using Cons.prems(2) kv by (intro judge_cong) simp
  have wf: "wf_dict p" and k: "k \<notin> set (dkeys p)"
    using Cons.prems(1) kv by (auto simp: wf_dict_def)
  have ih: "merge_keys r p s' = (if \<exists>(k, v)\<in>set p. judge r d k v = Raises then None
     else Some \<lparr>merged_data = dupdate (merged_data s') (filter (\<lambda>(k, v). judge r d k v = Accept) p),
                loosened = loosened s' @ dkeys (filter (\<lambda>(k, v). judge r d k v = Loosens) p),
                unknown = unknown s' @ dkeys (filter (\<lambda>(k, v). judge r d k v = Unknown) p)\<rparr>)"
    if "merge_key r k v s = Some s'" for s'
  proof (rule Cons.IH [OF wf])
    show "\<forall>x\<in>set (dkeys p). dget (merged_data s') x = dget d x"
    proof
      fix x assume x: "x \<in> set (dkeys p)"
      with k have "x \<noteq> k" by blast
      then have "dget (merged_data s') x = dget (merged_data s) x"
        using that by (cases "judge r (merged_data s) k v") (auto simp: merge_key_def)
      moreover from x have "x \<in> set (dkeys (kv # p))" by simp
      ultimately show "dget (merged_data s') x = dget d x" using Cons.prems(2) by (simp only:)
    qed
  qed
  show ?case
  proof (cases "judge r d k v")
    case Raises
    then show ?thesis using kv j by (auto simp: merge_key_def)
  qed (use ih kv j in \<open>simp_all add: merge_key_def\<close>)
qed simp

text \<open>What was written out is read back.\<close>

lemma legacy_reads_dump:
  assumes "readers_agree r" and "limits_wf l" and "set (dkeys extra) \<inter> set known_fields = {}"
  shows "from_legacy_dict r (extra @ dump_limits l) = Some l"
proof -
  have "filter (\<lambda>(k, v). k \<in> set known_fields) extra = []"
    using assms(3) by (auto simp: filter_empty_conv)
  moreover have "filter (\<lambda>(k, v). k \<in> set known_fields) (dump_limits l) = dump_limits l"
    by (simp add: known_fields_def dump_limits_def)
  moreover have "read_limits r (dump_limits l) = Some l"
    using assms(2) readers_agreeD [OF assms(1)]
    by (cases l) (auto simp: read_limits_def field_or_def dump_limits_def as_optional_float_field_def split: option.splits)
  ultimately show ?thesis by (simp add: from_legacy_dict_def)
qed

lemma judge_split:
  assumes "in_double c"
  shows "judge r (dump_limits c) k v = Loosens \<longleftrightarrow> asks_looser r c (k, v)"
    and "judge r (dump_limits c) k v = Unknown \<longleftrightarrow> not_usable r (k, v) \<and> \<not> asks_looser r c (k, v)"
    and "judge r (dump_limits c) k v = Raises \<longleftrightarrow> too_big r (k, v) \<and> \<not> asks_looser r c (k, v)"
    and "judge r (dump_limits c) k v = Accept \<longleftrightarrow> asks_tighter r c (k, v)"
proof -
  have tight: "asks_tighter r c (k, v) \<Longrightarrow> \<not> asks_looser r c (k, v) \<and> v \<noteq> LNone \<and> (\<exists>q. py_float r v = FVal q)"
    by (auto simp: asks_tighter_def asks_looser_def reads_above_def split: option.splits float_result.splits if_splits)
  have "judge r (dump_limits c) k v =
    (if asks_looser r c (k, v) then Loosens else if not_usable r (k, v) then Unknown
     else if too_big r (k, v) then Raises else if asks_tighter r c (k, v) then Accept else NoChange)"
  proof (cases "k \<in> set capped_fields")
    case True
    from judge_capped [OF this assms, of r v] tight True show ?thesis
      by (auto simp: not_usable_def too_big_def)
  next
    case False
    then show ?thesis using judge_uncapped [OF False] by (simp add: asks_looser_def not_usable_def)
  qed
  moreover have "asks_tighter r c (k, v) \<Longrightarrow> \<not> not_usable r (k, v) \<and> \<not> too_big r (k, v)"
    using tight by (auto simp: not_usable_def too_big_def asks_tighter_def)
  moreover have "too_big r (k, v) \<Longrightarrow> \<not> not_usable r (k, v)" by (auto simp: too_big_def not_usable_def)
  ultimately show
    "judge r (dump_limits c) k v = Loosens \<longleftrightarrow> asks_looser r c (k, v)"
    "judge r (dump_limits c) k v = Unknown \<longleftrightarrow> not_usable r (k, v) \<and> \<not> asks_looser r c (k, v)"
    "judge r (dump_limits c) k v = Raises \<longleftrightarrow> too_big r (k, v) \<and> \<not> asks_looser r c (k, v)"
    "judge r (dump_limits c) k v = Accept \<longleftrightarrow> asks_tighter r c (k, v)"
    using tight by auto
qed

section \<open>What merged limits admit\<close>

lemma sized_notional_mono:
  assumes "limits_wf a" and "tighter a b" and "0 \<le> e"
  shows "sized_notional vol a e cl \<le> sized_notional vol b e cl"
proof -
  have n: "0 \<le> e * max_position_pct a / 100" "e * max_position_pct a / 100 \<le> e * max_position_pct b / 100"
    using assms by (auto simp: limits_wf_def tighter_def intro: divide_right_mono mult_left_mono)
  show ?thesis
  proof (cases "target_annual_vol a")
    case None
    with assms(2) have "target_annual_vol b = None" by (auto simp: tighter_def)
    with None n show ?thesis by (simp add: sized_notional_def Let_def min.coboundedI1)
  next
    case (Some x)
    with assms(2) obtain y where y: "target_annual_vol b = Some y" "x \<le> y"
      by (auto simp: tighter_def option_rel_Some1)
    have x: "0 \<le> x" using assms(1) Some by (simp add: limits_wf_def)
    have mono: "u * (x / max v (1 / 100)) \<le> w * (y / max v (1 / 100))" if "0 \<le> u" "u \<le> w" for u v w :: rat
      using that x y(2) by (intro mult_mono divide_right_mono) (auto intro: divide_nonneg_nonneg)
    have "e * max_position_pct a / 100 * (x / max v (1 / 100)) \<le> e * max_position_pct b / 100 * (y / max v (1 / 100))" for v
      using n by (rule mono)
    moreover have "e * max_position_pct a / 100 * 3 \<le> e * max_position_pct b / 100 * 3" using n by simp
    moreover have days: "vol_lookback_days a = vol_lookback_days b" using assms(2) by (simp add: tighter_def)
    ultimately show ?thesis using n(2) unfolding sized_notional_def Let_def Some y(1) option.case days
      by (cases "vol_lookback_days b \<le> int (length cl)"; simp only: if_True if_False; intro min.mono order_refl; blast)
  qed
qed

lemma size_position_mono:
  assumes "limits_wf a" and "tighter a b"
  shows "fst (size_position vol a p e cl) \<le> fst (size_position vol b p e cl)"
  using sized_notional_mono [OF assms, of e vol cl]
  by (auto simp: size_position_def intro!: py_round_mono divide_right_mono)

lemma admits_mono:
  assumes "tighter a b" and "admits a n e ps c"
  shows "admits b n e ps c"
proof -
  have e: "0 < e" using assms(2) by (simp add: admits_def)
  have m: "k * e \<le> k' * e" if "k \<le> k'" for k k' :: rat using that e by (simp add: mult_right_mono)
  have "max_position_pct a * (1 + position_cap_rel_eps) * e \<le> max_position_pct b * (1 + position_cap_rel_eps) * e"
    using assms(1) e by (intro mult_right_mono) (auto simp: tighter_def position_cap_rel_eps_def)
  with assms m [of "max_gross_leverage a" "max_gross_leverage b"]
    m [of "max_symbol_concentration_pct a" "max_symbol_concentration_pct b"]
  show ?thesis unfolding admits_def tighter_def by linarith
qed

section \<open>The properties\<close>

text \<open>Readers that take no text for a number, for the examples.\<close>

fun plain_float_field :: "limit_value \<Rightarrow> rat option" where
  "plain_float_field (LFloat q) = Some q"
| "plain_float_field (LInt n) = (if \<bar>n\<bar> < float_limit then Some (of_int n) else None)"
| "plain_float_field (LBool b) = Some (of_bool b)"
| "plain_float_field _ = None"

fun plain_int_field :: "limit_value \<Rightarrow> int option" where
  "plain_int_field (LInt n) = Some n"
| "plain_int_field (LBool b) = Some (of_bool b)"
| "plain_int_field (LFloat q) = (if of_int \<lfloor>q\<rfloor> = q then Some \<lfloor>q\<rfloor> else None)"
| "plain_int_field _ = None"

definition plain_readers :: readers where
  "plain_readers = \<lparr>read_float = (\<lambda>_. None), field_float = plain_float_field, field_int = plain_int_field\<rparr>"

lemma plain_readers_agree: "readers_agree plain_readers"
proof -
  have "plain_float_field v = Some q \<Longrightarrow> py_float plain_readers v = FVal q' \<Longrightarrow> q = q'" for v q q'
    by (cases v) (auto split: if_splits)
  moreover have "plain_int_field v = Some n \<Longrightarrow> py_float plain_readers v = FVal q \<Longrightarrow> q = of_int n" for v n q
    by (cases v) (auto split: if_splits)
  ultimately show ?thesis by (auto simp: readers_agree_def plain_readers_def)
qed

lemma limits_wf_default: "limits_wf default_limits" "in_double default_limits"
  by (simp_all add: limits_wf_def default_limits_def in_double_def float_limit_def)

text \<open>C33. Whatever a refinement proposes, the limits that come out of the merge are valid and in no field
  looser than those that went in: the gate admits no entry it would have refused, and no position is
  sized larger.\<close>

theorem merge_never_loosens:
  assumes "readers_agree r" and "limits_wf c" and "merge_limits r c p = Some (m, lo, un)"
  shows "limits_wf m \<and> tighter m c \<and>
    (fst (can_enter m notional equity ps cap) \<longrightarrow> fst (can_enter c notional equity ps cap)) \<and>
    fst (size_position vol m price equity closes) \<le> fst (size_position vol c price equity closes)"
  using merge_limits_tighter [OF assms] size_position_mono admits_mono unfolding can_enter_iff by blast

definition sample_proposal :: "(string, limit_value) pydict" where
  "sample_proposal =
     [(''max_position_pct'', LInt 4), (''max_gross_leverage'', LFloat 2), (''note'', LText ''x''),
      (''vol_lookback_days'', LInt 5), (''max_open_positions'', LNone)]"

lemma sample_merge:
  "merge_limits plain_readers default_limits (LimitsDict sample_proposal) =
     Some (default_limits\<lparr>max_position_pct := 4\<rparr>, [''max_gross_leverage'', ''max_open_positions''],
           [''note'', ''vol_lookback_days''])"
  by (simp add: merge_limits_def sample_proposal_def plain_readers_def default_limits_def dump_limits_def merge_key_def
      judge_def tighten_direction_def tighten_directions_def float_or_none_def float_limit_def read_limits_def
      field_or_def as_optional_float_field_def limits_wf_def)

theorem merge_never_loosens_witness:
  "tighter (default_limits\<lparr>max_position_pct := 4\<rparr>) default_limits \<and>
   fst (size_position (\<lambda>_ _. 1) (default_limits\<lparr>max_position_pct := 4\<rparr>) 10 1000 [])
     \<le> fst (size_position (\<lambda>_ _. 1) default_limits 10 1000 [])"
  using merge_never_loosens [OF plain_readers_agree limits_wf_default(1) sample_merge, of 0 1000 "[]" True]
  by blast

text \<open>C37. The merge treats the keys of a proposal as if each were compared with the limits it started from,
  in any order: it takes exactly the keys that tighten a cap, reports as loosened exactly those that
  raise, set or clear one, and as unknown the rest it cannot use. Limits that do not validate are
  dropped as a whole; only a number beyond the range of \<open>float\<close> makes it raise.\<close>

theorem merge_judges_every_key_alone:
  assumes "wf_dict p" and "in_double c"
  shows "merge_limits r c (LimitsDict p) =
    (let lo = dkeys (filter (asks_looser r c) p);
         un = dkeys (filter (\<lambda>kv. not_usable r kv \<and> \<not> asks_looser r c kv) p)
     in if list_ex (\<lambda>kv. too_big r kv \<and> \<not> asks_looser r c kv) p then None
        else Some (case read_limits r (dupdate (dump_limits c) (filter (asks_tighter r c) p)) of
                     Some m \<Rightarrow> (m, lo, un)
                   | None \<Rightarrow> (c, lo, sort (remdups (un @ dkeys p)))))"
proof -
  have "(\<lambda>(k, v). judge r (dump_limits c) k v = Accept) = asks_tighter r c"
    "(\<lambda>(k, v). judge r (dump_limits c) k v = Loosens) = asks_looser r c"
    "(\<lambda>(k, v). judge r (dump_limits c) k v = Unknown) = (\<lambda>kv. not_usable r kv \<and> \<not> asks_looser r c kv)"
    "(\<lambda>(k, v). judge r (dump_limits c) k v = Raises) = (\<lambda>kv. too_big r kv \<and> \<not> asks_looser r c kv)"
    using judge_split [OF assms(2)] by auto
  with merge_keys_eq [OF assms(1), of "\<lparr>merged_data = dump_limits c, loosened = [], unknown = []\<rparr>" "dump_limits c" r]
  show ?thesis
    by (simp add: merge_limits_def Let_def list_ex_iff split: option.split)
qed

theorem merge_judges_every_key_alone_witness:
  "\<not> list_ex (\<lambda>kv. too_big plain_readers kv \<and> \<not> asks_looser plain_readers default_limits kv) sample_proposal \<and>
   dkeys (filter (asks_looser plain_readers default_limits) sample_proposal) = [''max_gross_leverage'', ''max_open_positions'']"
proof -
  have "wf_dict sample_proposal" by (simp add: wf_dict_def sample_proposal_def)
  from merge_judges_every_key_alone [OF this limits_wf_default(2), of plain_readers] sample_merge
  show ?thesis by (auto simp: Let_def split: option.splits if_splits)
qed

text \<open>A proposal that reads as a number no \<open>float\<close> can hold makes the merge raise instead of being
  discarded, although the merge is meant to return the unusable keys.\<close>

theorem huge_proposal_raises:
  "merge_limits r default_limits (LimitsDict [(''max_open_positions'', LInt (10 ^ 400))]) = None"
  by (simp add: merge_limits_def merge_key_def judge_def tighten_direction_def tighten_directions_def dump_limits_def
      float_or_none_def default_limits_def float_limit_def)

text \<open>Limits that were written out are read back unchanged by the migration, whatever unknown keys,
  retired ones among them, stand beside them.\<close>

theorem migration_reads_dumped_limits:
  assumes "readers_agree r" and "limits_wf l" and "set (dkeys extra) \<inter> set known_fields = {}"
  shows "from_legacy_dict r (extra @ dump_limits l) = Some l"
  using assms by (rule legacy_reads_dump)

theorem migration_reads_dumped_limits_witness:
  "from_legacy_dict plain_readers ([(''max_loss_per_trade_pct'', LFloat 2)] @ dump_limits default_limits) = Some default_limits"
  by (rule migration_reads_dumped_limits [OF plain_readers_agree limits_wf_default(1)])
    (simp add: known_fields_def dump_limits_def)

end
