(* ===== verification/LabModels.thy ===== *)
theory LabModels
  imports RiskMerge Json
begin

text \<open>
  The data the code refinement of the strategy laboratory works on
  (\<^verbatim>\<open>backend/agents/investment_team/strategy_lab/\<close>: \<^verbatim>\<open>_orchestrator_helpers.py\<close>, \<^verbatim>\<open>phases.py\<close>,
  \<^verbatim>\<open>quality_gates/models.py\<close>, \<^verbatim>\<open>agents/refinement.py\<close>).

  A strategy is its risk limits, its code and the rest of its fields (rules, hypothesis, symbols), the
  parameter \<open>'r\<close>; market data, trades and metrics are \<open>'d\<close>, \<open>'t\<close> and \<open>'m\<close>. Everything the loop asks
  a language model, the sandbox or a gate is a field of the record \<open>lab\<close>; what is asked of a language
  model also takes the round, so one value of the record stands for any sequence of answers. The two
  texts of an answer are texts, as the response schema prescribes. Timestamps and text diffs of the
  revisions are left out.
\<close>

section \<open>Quality gates\<close>

datatype severity = Info | Warning | Critical

record gate_result =
  gate_name :: string
  gate_passed :: bool
  gate_details :: string
  gate_severity :: severity
  gate_phase :: string
  gate_round :: int
  gate_rule :: "string option"

definition critical_failures :: "gate_result list \<Rightarrow> gate_result list" where
  "critical_failures gs = filter (\<lambda>g. \<not> gate_passed g \<and> gate_severity g = Critical) gs"

definition has_critical_failures :: "gate_result list \<Rightarrow> bool" where
  "has_critical_failures gs = list_ex (\<lambda>g. \<not> gate_passed g \<and> gate_severity g = Critical) gs"

lemma has_critical_failures_iff: "has_critical_failures gs \<longleftrightarrow> critical_failures gs \<noteq> []"
  by (simp add: has_critical_failures_def critical_failures_def list_ex_iff filter_empty_conv)

definition text_starts_with :: "string \<Rightarrow> string \<Rightarrow> bool" where
  "text_starts_with s p \<longleftrightarrow> take (length p) s = p"

definition round_demoted_conformance :: "gate_result list \<Rightarrow> bool" where
  "round_demoted_conformance gs = list_ex (\<lambda>g. gate_name g = ''predicate_conformance'' \<and> \<not> gate_passed g \<and>
     gate_severity g = Warning \<and> \<not> text_starts_with (gate_details g) ''Fixture unsynthesizable:'') gs"

text \<open>\<open>record_gates\<close> stamps the round on the results (and a prefix on their names) and extends the
  running list with them.\<close>

definition stamp_gates :: "int \<Rightarrow> string \<Rightarrow> gate_result list \<Rightarrow> gate_result list" where
  "stamp_gates rnd prefix gs =
     map (\<lambda>g. g\<lparr>gate_round := rnd, gate_name := prefix @ gate_name g\<rparr>) gs"

definition orchestrator_gate :: "string \<Rightarrow> severity \<Rightarrow> string \<Rightarrow> int \<Rightarrow> gate_result" where
  "orchestrator_gate name sev details rnd =
     \<lparr>gate_name = name, gate_passed = (sev = Info), gate_details = details, gate_severity = sev,
      gate_phase = ''synthesis'', gate_round = rnd, gate_rule = None\<rparr>"

section \<open>Strategies, runs and answers\<close>

record 'r lab_spec =
  spec_limits :: risk_limits
  spec_code :: "string option"
  spec_rest :: 'r

text \<open>The diagnostics of a run are there or not, and name a category of zero-trade failure or not.\<close>

record 't run_result =
  run_success :: bool
  run_error_type :: "string option"
  run_stderr :: string
  run_trades :: "'t list"
  run_open_reasons :: "string list"
  run_category :: "string option option"

record market_fetch =
  requested_symbols :: "string list"
  fetched_symbols :: "string list"
  provider_used :: "(string \<times> string) list"

datatype limits_update = NullLimits | Proposed proposal

text \<open>What a refinement returns: \<open>changes_made\<close>, \<open>risk_limits\<close> and the other keys of the answer.\<close>

record updates =
  upd_changes :: "string option"
  upd_limits :: "limits_update option"
  upd_others :: "string list"

record llm_answer =
  ans_code :: "string option"
  ans_updates :: updates

datatype llm_reply = Answer llm_answer | AgentFailed | BudgetSpent

text \<open>\<open>RefinementAgent.run\<close> hands on the two keys it knows, and the code.\<close>

definition narrow_answer :: "string \<Rightarrow> llm_answer \<Rightarrow> updates \<times> string" where
  "narrow_answer code a =
     ((ans_updates a)\<lparr>upd_others := []\<rparr>, case ans_code a of Some c \<Rightarrow> c | None \<Rightarrow> code)"

record repair_report =
  rep_category :: string
  rep_evidence :: string
  rep_code :: "string option"
  rep_changes :: string
  rep_limits :: "limits_update option"
  rep_other_keys :: "string list"
  rep_dropped_keys :: "string list"

text \<open>An agent that raised is its exception's type and text.\<close>

datatype repair_reply = Report repair_report | RepairFailed string string | RepairBudgetSpent

section \<open>What the loop relies on\<close>

record ('r, 'd, 't, 'm) lab =
  lab_readers :: readers
  rest_valid :: "'r \<Rightarrow> bool"
  digest :: "string \<Rightarrow> string"
  spec_text :: "risk_limits \<Rightarrow> 'r \<Rightarrow> string"
  inject :: "'r lab_spec \<Rightarrow> string \<Rightarrow> string"
  readiness :: "'r lab_spec \<Rightarrow> gate_result list"
  code_safety :: "'r lab_spec \<Rightarrow> string \<Rightarrow> gate_result list"
  code_conformance :: "'r lab_spec \<Rightarrow> string \<Rightarrow> gate_result list"
  predicate_conformance :: "nat \<Rightarrow> 'r lab_spec \<Rightarrow> string \<Rightarrow> gate_result list"
  demotion_attempt :: nat
  validation_text :: "'r lab_spec \<Rightarrow> limits_update option \<Rightarrow> string"
  spec_validator :: "'r lab_spec \<Rightarrow> gate_result list"
  fetch_data :: "'r lab_spec \<Rightarrow> 'd option \<times> market_fetch"
  fetch_coverage :: "'r lab_spec \<Rightarrow> string list \<Rightarrow> string list \<Rightarrow> gate_result list"
  data_counts :: "'d \<Rightarrow> nat \<times> nat"
  probe_signature :: "'r \<Rightarrow> string list \<times> bool"
  reachability :: "'r lab_spec \<Rightarrow> 'd \<Rightarrow> gate_result list"
  starvation :: "'r lab_spec \<Rightarrow> 'd \<Rightarrow> gate_result list"
  run_code :: "string \<Rightarrow> 'd \<Rightarrow> 'r lab_spec \<Rightarrow> 't run_result"
  trade_coverage :: "'r lab_spec \<Rightarrow> 't list \<Rightarrow> gate_result list"
  trade_metrics :: "'t list \<Rightarrow> 'm"
  attach_reports :: "'m \<Rightarrow> 'r lab_spec \<Rightarrow> 'd \<Rightarrow> 't run_result \<Rightarrow> 'm"
  anomalies :: "'m \<Rightarrow> 't list \<Rightarrow> 'd \<Rightarrow> gate_result list"
  repair_anomalies :: "'m \<Rightarrow> 't list \<Rightarrow> 't run_result \<Rightarrow> gate_result list"
  diagnostics_block :: "'t run_result \<Rightarrow> string"
  coverage_block :: "'m \<Rightarrow> string"
  refiner :: "nat \<Rightarrow> 'r lab_spec \<Rightarrow> string \<Rightarrow> string \<Rightarrow> string \<Rightarrow> 'm option \<Rightarrow> string list \<Rightarrow> llm_reply"
  repairer :: "nat \<Rightarrow> 'r lab_spec \<Rightarrow> string \<Rightarrow> 't run_result \<Rightarrow> 'm \<Rightarrow> string list \<Rightarrow> repair_reply"
  asset_class :: "'r \<Rightarrow> string"
  max_rounds :: nat
  stall_rounds :: nat

definition hash_code :: "('r, 'd, 't, 'm) lab \<Rightarrow> string \<Rightarrow> string" where
  "hash_code L code = digest L code"

definition hash_spec :: "('r, 'd, 't, 'm) lab \<Rightarrow> 'r lab_spec \<Rightarrow> string" where
  "hash_spec L s = digest L (spec_text L (spec_limits s) (spec_rest s))"

section \<open>Progress events\<close>

text \<open>What the loop emits, with the round.\<close>

datatype lab_event =
    GatesStarted nat
  | GatesFailed nat nat nat
  | GatesCompleted nat nat nat
  | RefineStalled nat string nat
  | Refining nat string
  | Refined nat string
  | RefinedByRepair nat string
  | RoutedToRedesign nat
  | FetchingData
  | DataLoaded nat nat
  | RunningCode nat
  | RunCompleted nat
  | RepairStarted nat string nat
  | RepairSkipped nat string
  | RepairRejected nat string
  | RepairCommitted nat string string nat

section \<open>Drift\<close>

record revision =
  rev_phase :: string
  rev_agent :: string
  rev_before :: string
  rev_after :: string
  rev_reason :: string

record drift =
  spec_history :: "revision list"
  code_history :: "revision list"
  gate_timeline :: "gate_result list"

definition empty_drift :: drift where
  "empty_drift = \<lparr>spec_history = [], code_history = [], gate_timeline = []\<rparr>"

definition merge_drift :: "drift \<Rightarrow> drift \<Rightarrow> drift" where
  "merge_drift d child =
     \<lparr>spec_history = spec_history d @ spec_history child, code_history = code_history d @ code_history child,
      gate_timeline = gate_timeline d @ gate_timeline child\<rparr>"

definition revision_of :: "string \<Rightarrow> string \<Rightarrow> string \<Rightarrow> string \<Rightarrow> string \<Rightarrow> revision list" where
  "revision_of phase agent before after why =
     (if before = after then []
      else [\<lparr>rev_phase = phase, rev_agent = agent, rev_before = before, rev_after = after, rev_reason = why\<rparr>])"

definition record_spec_change ::
  "('r, 'd, 't, 'm) lab \<Rightarrow> string \<Rightarrow> string \<Rightarrow> 'r lab_spec \<Rightarrow> 'r lab_spec \<Rightarrow> string \<Rightarrow> drift \<Rightarrow> drift" where
  "record_spec_change L phase agent before after why d =
     d\<lparr>spec_history := spec_history d @ revision_of phase agent (hash_spec L before) (hash_spec L after) why\<rparr>"

definition record_code_change ::
  "('r, 'd, 't, 'm) lab \<Rightarrow> string \<Rightarrow> string \<Rightarrow> string \<Rightarrow> string \<Rightarrow> string \<Rightarrow> drift \<Rightarrow> drift" where
  "record_code_change L phase agent before after why d =
     d\<lparr>code_history := code_history d @ revision_of phase agent (hash_code L before) (hash_code L after) why\<rparr>"

section \<open>Stalls\<close>

text \<open>\<open>_has_short_period_stall\<close>: the first period of at most half the window that fits decides.\<close>

definition has_period :: "'a list \<Rightarrow> nat \<Rightarrow> bool" where
  "has_period w p = list_all (\<lambda>i. w ! i = w ! (i - p)) [p..<length w]"

definition has_short_period_stall :: "'a list \<Rightarrow> bool" where
  "has_short_period_stall w =
     (if w = [] then False else if length w = 1 then True
      else list_ex (has_period w) [1..<length w div 2 + 1])"

type_synonym signatures = "(string \<times> string) list"

definition is_stalled :: "nat \<Rightarrow> signatures \<Rightarrow> bool" where
  "is_stalled n history =
     (let n = max n 1
      in if length history < n then False else has_short_period_stall (drop (length history - n) history))"

end
