(* ===== verification/LabRepair.thy ===== *)
theory LabRepair
  imports LabModels
begin

text \<open>
  The repair of a backtest without trades
  (\<^verbatim>\<open>backend/agents/investment_team/strategy_lab/zero_trade_repair.py\<close>): an agent proposes code and
  possibly new risk limits, and the proposal is committed when it passes the code-safety gate, the
  validation of the changed strategy, a fresh run and the anomaly gates. The names in a gate's detail
  text are written without escapes.
\<close>

section \<open>The proposal's strategy\<close>

definition or_empty :: "string option \<Rightarrow> string" where
  "or_empty s = (case s of Some t \<Rightarrow> t | None \<Rightarrow> ''None'')"

definition list_repr :: "string list \<Rightarrow> string" where
  "list_repr xs = ''['' @ str_join '', '' (map (\<lambda>x. [CHR 0x27] @ x @ [CHR 0x27]) xs) @ '']''"

text \<open>A limits update replaces the limits as a whole: \<open>None\<close> by the defaults, a dictionary by what the
  migration reads in it; anything else does not validate.\<close>

definition replaced_limits :: "readers \<Rightarrow> risk_limits \<Rightarrow> limits_update option \<Rightarrow> risk_limits option" where
  "replaced_limits r l u =
     (case u of
        None \<Rightarrow> from_legacy_dict r (dump_limits l)
      | Some NullLimits \<Rightarrow> Some default_limits
      | Some (Proposed (LimitsDict d)) \<Rightarrow> from_legacy_dict r d
      | Some (Proposed NotADict) \<Rightarrow> None)"

definition apply_zero_trade_spec_updates ::
  "('r, 'd, 't, 'm) lab \<Rightarrow> 'r lab_spec \<Rightarrow> limits_update option \<Rightarrow> string \<Rightarrow> 'r lab_spec option" where
  "apply_zero_trade_spec_updates L s u code =
     (case replaced_limits (lab_readers L) (spec_limits s) u of
        Some l \<Rightarrow> if rest_valid L (spec_rest s) then Some (s\<lparr>spec_limits := l, spec_code := Some code\<rparr>) else None
      | None \<Rightarrow> None)"

section \<open>The repair\<close>

record ('r, 't, 'm) commit =
  new_spec :: "'r lab_spec"
  new_code :: string
  new_trades :: "'t list"
  new_metrics :: 'm
  new_run :: "'t run_result"
  new_changes :: string

record ('r, 't, 'm) repair_outcome =
  out_commit :: "('r, 't, 'm) commit option"
  out_gates :: "gate_result list"
  out_attempts :: "string list"
  out_events :: "lab_event list"

definition reject ::
  "string list \<Rightarrow> lab_event list \<Rightarrow> lab_event \<Rightarrow> string \<Rightarrow> gate_result list \<Rightarrow> ('r, 't, 'm) repair_outcome" where
  "reject attempts events event attempt gates =
     \<lparr>out_commit = None, out_gates = gates, out_attempts = attempts @ [attempt], out_events = events @ [event]\<rparr>"

definition dropped_keys_gates :: "nat \<Rightarrow> repair_report \<Rightarrow> gate_result list" where
  "dropped_keys_gates rnd rep =
     (let ks = sort (remdups (rep_dropped_keys rep @ rep_other_keys rep))
      in if ks = [] then []
         else [orchestrator_gate ''zero_trade_repair_dropped_spec_keys'' Warning
                 (''Zero-trade repair proposed off-list spec keys '' @ list_repr ks @ ''; dropped per #530 (risk_limits only).'')
                 (int rnd)])"

definition joined_details :: "gate_result list \<Rightarrow> string" where
  "joined_details gs = str_join ''; '' (map gate_details gs)"

definition repair_prefix :: string where
  "repair_prefix = ''zero_trade_repair_''"

text \<open>Steps 5 and 6: the run of the proposed code and the anomaly gates on it.\<close>

definition confirm_repair ::
  "('r, 'd, 't, 'm) lab \<Rightarrow> nat \<Rightarrow> 'd \<Rightarrow> repair_report \<Rightarrow> string \<Rightarrow> 'r lab_spec \<Rightarrow> gate_result list \<Rightarrow> gate_result list \<Rightarrow>
   string list \<Rightarrow> lab_event list \<Rightarrow> ('r, 't, 'm) repair_outcome" where
  "confirm_repair L rnd data rep code spec safety spec_gates attempts events =
     (let run = run_code L code data spec; gates = safety @ spec_gates; cat = rep_category rep
      in if \<not> run_success run then
           reject attempts events (RepairRejected rnd ''re_execution_failed'')
             (''reexec_failed ('' @ cat @ ''): '' @ or_empty (run_error_type run))
             (gates @ [orchestrator_gate ''zero_trade_repair_code_execution'' Critical
                (''Re-execution after zero-trade repair failed ('' @ or_empty (run_error_type run) @ ''): '' @ run_stderr run)
                (int rnd)])
         else
           let metrics = attach_reports L (trade_metrics L (run_trades run)) spec data run;
               found = stamp_gates (int rnd) repair_prefix (repair_anomalies L metrics (run_trades run) run);
               critical = critical_failures found
           in if critical \<noteq> [] then
                reject attempts events (RepairRejected rnd ''anomaly_after_repair'')
                  (''anomaly_after_repair ('' @ cat @ ''): '' @ take 160 (joined_details critical)) (gates @ found)
              else
                let changes = (if rep_changes rep = [] then ''repair '' @ cat else rep_changes rep)
                in \<lparr>out_commit = Some \<lparr>new_spec = spec, new_code = code, new_trades = run_trades run,
                       new_metrics = metrics, new_run = run, new_changes = changes\<rparr>,
                    out_gates = gates @ found,
                    out_attempts = attempts @ [''committed ('' @ cat @ ''): '' @ take 160 changes],
                    out_events = events @ [RepairCommitted rnd cat changes (length (run_trades run))]\<rparr>)"

text \<open>Steps 2 to 4: code safety, the whitelisted update, the validation of the changed strategy.\<close>

definition check_proposal ::
  "('r, 'd, 't, 'm) lab \<Rightarrow> nat \<Rightarrow> 'r lab_spec \<Rightarrow> 'd \<Rightarrow> repair_report \<Rightarrow> string \<Rightarrow> string list \<Rightarrow> lab_event list \<Rightarrow>
   ('r, 't, 'm) repair_outcome" where
  "check_proposal L rnd spec data rep code attempts events =
     (let safety = stamp_gates (int rnd) repair_prefix (code_safety L spec code); cat = rep_category rep
      in if critical_failures safety \<noteq> [] then
           reject attempts events (RepairRejected rnd ''unsafe_code'')
             (''unsafe_code ('' @ cat @ ''): '' @ take 160 (joined_details (critical_failures safety))) safety
         else
           let dropped = dropped_keys_gates rnd rep
           in case apply_zero_trade_spec_updates L spec (rep_limits rep) code of
                None \<Rightarrow>
                  reject attempts events (RepairRejected rnd ''invalid_spec_updates'')
                    (''invalid_spec_updates ('' @ cat @ ''): '' @ take 160 (validation_text L spec (rep_limits rep)))
                    (safety @ dropped)
              | Some spec' \<Rightarrow>
                  let changed = rep_limits rep \<noteq> None \<or> rep_other_keys rep \<noteq> [];
                      spec_gates = (if changed then stamp_gates (int rnd) repair_prefix (spec_validator L spec') else [])
                                   @ dropped
                  in if critical_failures spec_gates \<noteq> [] then
                       reject attempts events (RepairRejected rnd ''invalid_spec_after_repair'')
                         (''invalid_spec_after_repair ('' @ cat @ ''): '' @ take 160 (joined_details (critical_failures spec_gates)))
                         (safety @ spec_gates)
                     else confirm_repair L rnd data rep code spec' safety spec_gates attempts events)"

text \<open>\<open>try_repair\<close>; \<open>None\<close> is the exhausted budget. Step 1 asks the agent.\<close>

definition try_repair ::
  "('r, 'd, 't, 'm) lab \<Rightarrow> nat \<Rightarrow> 'r lab_spec \<Rightarrow> string \<Rightarrow> 't run_result \<Rightarrow> 'm \<Rightarrow> 'd \<Rightarrow> string list \<Rightarrow> lab_event list \<Rightarrow>
   ('r, 't, 'm) repair_outcome option" where
  "try_repair L rnd spec code run metrics data attempts events =
     (case run_category run of
        Some (Some category) \<Rightarrow>
          let events = events @ [RepairStarted rnd category (length attempts)]
          in (case repairer L rnd spec code run metrics attempts of
                RepairBudgetSpent \<Rightarrow> None
              | RepairFailed kind msg \<Rightarrow>
                  Some (reject attempts events (RepairSkipped rnd ''agent_error'')
                    (''agent_error: '' @ kind @ '': '' @ take 160 msg) [])
              | Report rep \<Rightarrow>
                  (case rep_code rep of
                     Some code' \<Rightarrow>
                       if code' \<noteq> [] then Some (check_proposal L rnd spec data rep code' attempts events)
                       else Some (reject attempts events (RepairSkipped rnd ''no_proposed_code'')
                              (''no_proposal ('' @ rep_category rep @ ''): '' @
                               (if rep_evidence rep = [] then ''agent declined to propose'' else take 160 (rep_evidence rep))) [])
                   | None \<Rightarrow>
                       Some (reject attempts events (RepairSkipped rnd ''no_proposed_code'')
                         (''no_proposal ('' @ rep_category rep @ ''): '' @
                          (if rep_evidence rep = [] then ''agent declined to propose'' else take 160 (rep_evidence rep))) [])))
      | _ \<Rightarrow> Some \<lparr>out_commit = None, out_gates = [], out_attempts = attempts, out_events = events\<rparr>)"

end
