(* ===== verification/LabRefine.thy ===== *)
theory LabRefine
  imports LabRepair
begin

text \<open>
  The code refinement loop of the strategy laboratory (\<open>_run_synthesis_loop\<close> and its stages in
  \<^verbatim>\<open>strategy_lab/orchestrator_synthesis.py\<close>, \<open>_refine_or_exhaust\<close> and \<open>_apply_updates\<close> in
  \<^verbatim>\<open>strategy_lab/orchestrator.py\<close>). A stage takes the state of the loop and returns it with what it
  ended in; a raise is \<open>Inl\<close> and leaves the lists the caller shares as they are then. The memos of the
  backtest and of the anomaly check are not visible in the results of functions.
\<close>

section \<open>State\<close>

record ('r, 'd, 't, 'm) lab_state =
  st_spec :: "'r lab_spec"
  st_code :: string
  st_gates :: "gate_result list"
  st_attempts :: "string list"
  st_repairs :: "string list"
  st_events :: "lab_event list"
  st_drift :: drift
  st_signatures :: signatures
  st_counter :: "(string, nat) pydict"
  st_trades :: "'t list"
  st_open_reasons :: "string list"
  st_metrics :: 'm
  st_data :: "'d option"
  st_fetch :: market_fetch
  st_lookahead :: bool
  st_predicate_attempts :: nat
  st_non_conforming :: bool
  st_probed :: "(string list \<times> bool) option"

datatype evidence = LoosenedLimits "string list" | RepeatedMutations string "string list" nat | NoExits string

datatype 'r lab_raise =
    Unimplementable evidence "string option" "'r lab_spec" string
  | BudgetExhausted "'r lab_spec" string
  | InvalidSpec
  | NumberTooBig

definition emit :: "lab_event \<Rightarrow> ('r, 'd, 't, 'm) lab_state \<Rightarrow> ('r, 'd, 't, 'm) lab_state" where
  "emit e st = st\<lparr>st_events := st_events st @ [e]\<rparr>"

definition add_gates :: "gate_result list \<Rightarrow> ('r, 'd, 't, 'm) lab_state \<Rightarrow> ('r, 'd, 't, 'm) lab_state" where
  "add_gates gs st = st\<lparr>st_gates := st_gates st @ gs\<rparr>"

section \<open>Applying a refinement\<close>

definition spec_mutation_trip_threshold :: nat where
  "spec_mutation_trip_threshold = 3"

definition count_of :: "(string, nat) pydict \<Rightarrow> string \<Rightarrow> nat" where
  "count_of c phase = (case dget c phase of Some n \<Rightarrow> n | None \<Rightarrow> 0)"

text \<open>A round with stray keys counts for its phase and clears the others; a clean one clears its own.\<close>

definition count_round :: "string option \<Rightarrow> bool \<Rightarrow> (string, nat) pydict \<Rightarrow> (string, nat) pydict" where
  "count_round phase stray c =
     (case phase of
        None \<Rightarrow> c
      | Some p \<Rightarrow>
          if stray then map (\<lambda>(k, n). (k, if k = p then n else 0)) (dset c p (count_of c p + 1))
          else dset c p 0)"

definition revalidate :: "('r, 'd, 't, 'm) lab \<Rightarrow> 'r lab_spec \<Rightarrow> risk_limits \<Rightarrow> string \<Rightarrow> 'r lab_spec option" where
  "revalidate L s l code =
     (case from_legacy_dict (lab_readers L) (dump_limits l) of
        Some l' \<Rightarrow> if rest_valid L (spec_rest s) then Some (s\<lparr>spec_limits := l', spec_code := Some code\<rparr>) else None
      | None \<Rightarrow> None)"

definition apply_updates ::
  "('r, 'd, 't, 'm) lab \<Rightarrow> 'r lab_spec \<Rightarrow> updates \<Rightarrow> string \<Rightarrow> string option \<Rightarrow> (string, nat) pydict \<Rightarrow>
   ('r lab_raise + 'r lab_spec) \<times> (string, nat) pydict" where
  "apply_updates L s u code phase c =
     (case (case upd_limits u of
              Some (Proposed p) \<Rightarrow> merge_limits (lab_readers L) (spec_limits s) p
            | _ \<Rightarrow> Some (spec_limits s, [], [])) of
        None \<Rightarrow> (Inl NumberTooBig, c)
      | Some (limits, lo, un) \<Rightarrow>
          if lo \<noteq> [] then (Inl (Unimplementable (LoosenedLimits (sort lo)) phase s code), c)
          else
            let stray = upd_others u; c' = count_round phase (stray \<noteq> []) c in
            case phase of
              Some p \<Rightarrow>
                if stray \<noteq> [] \<and> spec_mutation_trip_threshold \<le> count_of c' p
                then (Inl (Unimplementable (RepeatedMutations p (sort stray) (count_of c' p)) phase s code), c')
                else (case revalidate L s limits code of Some s' \<Rightarrow> Inr s' | None \<Rightarrow> Inl InvalidSpec, c')
            | None \<Rightarrow> (case revalidate L s limits code of Some s' \<Rightarrow> Inr s' | None \<Rightarrow> Inl InvalidSpec, c'))"

text \<open>\<open>_refine\<close>; \<open>None\<close> is the exhausted budget.\<close>

definition refine ::
  "('r, 'd, 't, 'm) lab \<Rightarrow> nat \<Rightarrow> 'r lab_spec \<Rightarrow> string \<Rightarrow> string \<Rightarrow> string \<Rightarrow> 'm option \<Rightarrow> string list \<Rightarrow>
   (updates \<times> string) option" where
  "refine L rnd s code label details metrics attempts =
     (case refiner L rnd s code label details metrics attempts of
        Answer a \<Rightarrow> Some (narrow_answer code a)
      | AgentFailed \<Rightarrow>
          Some (\<lparr>upd_changes = Some ''refinement failed - no changes'', upd_limits = None, upd_others = []\<rparr>, code)
      | BudgetSpent \<Rightarrow> None)"

datatype refine_end = Applied | Exhausted bool

definition refine_or_exhaust ::
  "('r, 'd, 't, 'm) lab \<Rightarrow> nat \<Rightarrow> string \<Rightarrow> string \<Rightarrow> string \<Rightarrow> 'm option \<Rightarrow> string \<Rightarrow> ('r, 'd, 't, 'm) lab_state \<Rightarrow>
   ('r lab_raise + refine_end) \<times> ('r, 'd, 't, 'm) lab_state" where
  "refine_or_exhaust L rnd phase label details metrics change_label st0 =
     (let s = st_spec st0; code = st_code st0;
          st = st0\<lparr>st_signatures := st_signatures st0 @ [(hash_code L code, hash_code L details)]\<rparr>
      in if rnd + 1 < max_rounds L \<and> is_stalled (stall_rounds L) (st_signatures st)
         then (Inr (Exhausted True), emit (RefineStalled rnd phase (stall_rounds L)) st)
         else if max_rounds L \<le> rnd + 1 then (Inr (Exhausted False), st)
         else
           let st1 = emit (Refining rnd phase) st
           in case refine L rnd s code label details metrics (st_attempts st1) of
                None \<Rightarrow> (Inl (BudgetExhausted s code), st1)
              | Some (u, code') \<Rightarrow>
                  (case apply_updates L s u code' (Some phase) (st_counter st1) of
                     (Inl e, c) \<Rightarrow> (Inl e, st1\<lparr>st_counter := c\<rparr>)
                   | (Inr s', c) \<Rightarrow>
                       let changes = (case upd_changes u of Some t \<Rightarrow> t | None \<Rightarrow> change_label);
                           d = record_code_change L ''synthesis'' ''RefinementAgent'' code code' changes (st_drift st1);
                           d = record_spec_change L ''synthesis'' ''RefinementAgent'' s s' changes d
                       in (Inr Applied,
                           emit (Refined rnd changes)
                             (st1\<lparr>st_counter := c, st_spec := s', st_code := code',
                                  st_attempts := st_attempts st1 @ [changes], st_drift := d\<rparr>))))"

section \<open>The stages of a round\<close>

definition inject_universe :: "('r, 'd, 't, 'm) lab \<Rightarrow> ('r, 'd, 't, 'm) lab_state \<Rightarrow> ('r, 'd, 't, 'm) lab_state" where
  "inject_universe L st =
     (let before = st_code st; code = inject L (st_spec st) before
      in if code = before then st
         else st\<lparr>st_code := code, st_spec := (st_spec st)\<lparr>spec_code := Some code\<rparr>,
                 st_drift := record_code_change L ''synthesis'' ''universe_injector'' before code
                   ''deterministic UNIVERSE + symbol-guard injection'' (st_drift st)\<rparr>)"

definition validation_gates ::
  "('r, 'd, 't, 'm) lab \<Rightarrow> nat \<Rightarrow> ('r, 'd, 't, 'm) lab_state \<Rightarrow> gate_result list \<times> ('r, 'd, 't, 'm) lab_state" where
  "validation_gates L rnd st =
     (let s = st_spec st; code = st_code st;
          first = (if rnd = 0 then readiness L s else []) @ code_safety L s code @ code_conformance L s code;
          pred = (if has_critical_failures first then []
                  else predicate_conformance L (st_predicate_attempts st) s code);
          gs = stamp_gates (int rnd) [] (first @ pred)
      in (gs, add_gates gs (emit (GatesStarted rnd)
            (st\<lparr>st_predicate_attempts := st_predicate_attempts st + (if has_critical_failures pred then 1 else 0)\<rparr>))))"

text \<open>\<open>_fetch_market_data_for_synthesis\<close> and what the loop adopts of it; the flag is \<open>should_break\<close>.\<close>

definition fetch_market_data ::
  "('r, 'd, 't, 'm) lab \<Rightarrow> nat \<Rightarrow> ('r, 'd, 't, 'm) lab_state \<Rightarrow> bool \<times> ('r, 'd, 't, 'm) lab_state" where
  "fetch_market_data L rnd st0 =
     (let s = st_spec st0; (data, mf) = fetch_data L s;
          st = emit FetchingData (st0\<lparr>st_data := data, st_fetch := mf\<rparr>)
      in case (case data of Some d \<Rightarrow> if fst (data_counts L d) = 0 then None else Some d | None \<Rightarrow> None) of
           None \<Rightarrow>
             (True, add_gates [orchestrator_gate ''market_data'' Critical
                (''No market data available for asset class '' @ [CHR 0x27] @ asset_class L (spec_rest s) @ [CHR 0x27] @ ''.'')
                (int rnd)] st)
         | Some d \<Rightarrow>
             let gs = stamp_gates (int rnd) [] (fetch_coverage L s (requested_symbols mf) (fetched_symbols mf))
             in (has_critical_failures gs, add_gates gs (emit (DataLoaded (fst (data_counts L d)) (snd (data_counts L d))) st)))"

definition probe_reachability ::
  "('r, 'd, 't, 'm) lab \<Rightarrow> nat \<Rightarrow> 'd \<Rightarrow> ('r, 'd, 't, 'm) lab_state \<Rightarrow> ('r, 'd, 't, 'm) lab_state" where
  "probe_reachability L rnd d st =
     (let s = st_spec st; sig = probe_signature L (spec_rest s)
      in if fst (data_counts L d) = 0 \<or> st_probed st = Some sig then st
         else add_gates (stamp_gates (int rnd) [] (reachability L s d) @ stamp_gates (int rnd) [] (starvation L s d))
                (st\<lparr>st_probed := Some sig\<rparr>))"

definition is_lookahead :: "'t run_result \<Rightarrow> bool" where
  "is_lookahead run \<longleftrightarrow> run_error_type run = Some ''lookahead_violation''"

definition execute_code ::
  "('r, 'd, 't, 'm) lab \<Rightarrow> nat \<Rightarrow> 'd \<Rightarrow> ('r, 'd, 't, 'm) lab_state \<Rightarrow> 't run_result \<times> ('r, 'd, 't, 'm) lab_state" where
  "execute_code L rnd d st0 =
     (let run = run_code L (st_code st0) d (st_spec st0);
          st = emit (RunningCode rnd) (st0\<lparr>st_lookahead := is_lookahead run\<rparr>)
      in (run, if run_success run then st
               else add_gates [orchestrator_gate ''code_execution'' Critical
                 (''Execution failed ('' @ or_empty (run_error_type run) @ ''): '' @ run_stderr run) (int rnd)] st))"

definition collect_trades ::
  "('r, 'd, 't, 'm) lab \<Rightarrow> nat \<Rightarrow> 't run_result \<Rightarrow> gate_result list \<Rightarrow> ('r, 'd, 't, 'm) lab_state \<Rightarrow>
   bool \<times> ('r, 'd, 't, 'm) lab_state" where
  "collect_trades L rnd run round_gates st0 =
     (let gs = stamp_gates (int rnd) [] (trade_coverage L (st_spec st0) (run_trades run));
          st = add_gates gs (st0\<lparr>st_trades := run_trades run, st_open_reasons := run_open_reasons run,
                                 st_non_conforming := round_demoted_conformance round_gates\<rparr>)
      in if has_critical_failures gs then (True, st) else (False, emit (RunCompleted (length (run_trades run))) st))"

section \<open>The evaluation of a run\<close>

definition nl :: string where
  "nl = [CHR 0x0A]"

definition anomaly_details :: "('r, 'd, 't, 'm) lab \<Rightarrow> gate_result list \<Rightarrow> 't run_result \<Rightarrow> 'm \<Rightarrow> string" where
  "anomaly_details L criticals run metrics =
     (let details = str_join nl (map (\<lambda>g. ''- '' @ gate_details g) criticals);
          block = (\<lambda>t b. if b = [] then t else t @ nl @ b)
      in block (block details (diagnostics_block L run)) (coverage_block L metrics))"

definition commit_repair ::
  "('r, 'd, 't, 'm) lab \<Rightarrow> nat \<Rightarrow> ('r, 't, 'm) commit \<Rightarrow> ('r, 'd, 't, 'm) lab_state \<Rightarrow> ('r, 'd, 't, 'm) lab_state" where
  "commit_repair L rnd k st =
     (let why = (if new_changes k = [] then ''zero-trade repair'' else new_changes k);
          d = record_spec_change L ''verification'' ''ZeroTradeRepairer'' (st_spec st) (new_spec k) why (st_drift st);
          d = record_code_change L ''verification'' ''ZeroTradeRepairer'' (st_code st) (new_code k) why d;
          check = predicate_conformance L (demotion_attempt L) (new_spec k) (new_code k)
      in add_gates (stamp_gates (int rnd) repair_prefix check)
           (emit (RefinedByRepair rnd why)
              (st\<lparr>st_attempts := st_attempts st @
                    [if new_changes k = [] then ''zero-trade repair'' else ''zero-trade repair: '' @ new_changes k],
                  st_drift := d, st_spec := new_spec k, st_code := new_code k, st_trades := new_trades k,
                  st_metrics := new_metrics k, st_lookahead := is_lookahead (new_run k),
                  st_non_conforming := round_demoted_conformance check\<rparr>)))"

datatype round_end = NextRound | Converged | GaveUp bool | NoData

definition round_end_of :: "refine_end \<Rightarrow> round_end" where
  "round_end_of e = (case e of Applied \<Rightarrow> NextRound | Exhausted stalled \<Rightarrow> GaveUp stalled)"

definition refine_round ::
  "('r, 'd, 't, 'm) lab \<Rightarrow> nat \<Rightarrow> string \<Rightarrow> string \<Rightarrow> string \<Rightarrow> 'm option \<Rightarrow> string \<Rightarrow> ('r, 'd, 't, 'm) lab_state \<Rightarrow>
   ('r lab_raise + round_end) \<times> ('r, 'd, 't, 'm) lab_state" where
  "refine_round L rnd phase label details metrics change_label st =
     apfst (map_sum id round_end_of) (refine_or_exhaust L rnd phase label details metrics change_label st)"

definition handle_anomalies ::
  "('r, 'd, 't, 'm) lab \<Rightarrow> nat \<Rightarrow> 'd \<Rightarrow> 't run_result \<Rightarrow> gate_result list \<Rightarrow> ('r, 'd, 't, 'm) lab_state \<Rightarrow>
   ('r lab_raise + round_end) \<times> ('r, 'd, 't, 'm) lab_state" where
  "handle_anomalies L rnd d run criticals st =
     (let details = anomaly_details L criticals run (st_metrics st);
          generic = refine_round L rnd ''evaluation'' ''evaluation (backtest anomaly)'' details (Some (st_metrics st)) ''anomaly fix''
      in case run_category run of
           Some (Some category) \<Rightarrow>
             if category = ''ENTRY_WITH_NO_EXIT''
             then (Inl (Unimplementable (NoExits details) (Some ''evaluation'') (st_spec st) (st_code st)),
                   emit (RoutedToRedesign rnd) st)
             else (case try_repair L rnd (st_spec st) (st_code st) run (st_metrics st) d (st_repairs st) (st_events st) of
                     None \<Rightarrow> (Inl (BudgetExhausted (st_spec st) (st_code st)),
                              emit (RepairStarted rnd category (length (st_repairs st))) st)
                   | Some out \<Rightarrow>
                       let st1 = add_gates (out_gates out)
                             (st\<lparr>st_repairs := out_attempts out, st_events := out_events out\<rparr>)
                       in case out_commit out of
                            Some k \<Rightarrow> (Inr NextRound, commit_repair L rnd k st1)
                          | None \<Rightarrow> generic st1)
         | _ \<Rightarrow> generic st)"

definition evaluate_round ::
  "('r, 'd, 't, 'm) lab \<Rightarrow> nat \<Rightarrow> 'd \<Rightarrow> 't run_result \<Rightarrow> ('r, 'd, 't, 'm) lab_state \<Rightarrow>
   ('r lab_raise + round_end) \<times> ('r, 'd, 't, 'm) lab_state" where
  "evaluate_round L rnd d run st0 =
     (let metrics = attach_reports L (trade_metrics L (st_trades st0)) (st_spec st0) d run;
          gs = stamp_gates (int rnd) [] (anomalies L metrics (st_trades st0) d);
          st = add_gates gs (st0\<lparr>st_metrics := metrics\<rparr>);
          criticals = critical_failures gs
      in if criticals = [] then (Inr Converged, st) else handle_anomalies L rnd d run criticals st)"

section \<open>The loop\<close>

definition gate_line :: "gate_result \<Rightarrow> string" where
  "gate_line g = ''- ['' @ gate_name g @
     (case gate_rule g of Some r \<Rightarrow> if r = [] then [] else '':'' @ r | None \<Rightarrow> []) @ ''] '' @ gate_details g"

text \<open>Steps 2b.5 to 2e of a round, once its data is there.\<close>

definition backtest_round ::
  "('r, 'd, 't, 'm) lab \<Rightarrow> nat \<Rightarrow> gate_result list \<Rightarrow> 'd \<Rightarrow> ('r, 'd, 't, 'm) lab_state \<Rightarrow>
   ('r lab_raise + round_end) \<times> ('r, 'd, 't, 'm) lab_state" where
  "backtest_round L rnd round_gates d st0 =
     (let (run, st) = execute_code L rnd d (probe_reachability L rnd d st0)
      in if \<not> run_success run then
           refine_round L rnd ''execution'' ''execution''
             (''Error type: '' @ or_empty (run_error_type run) @ nl @ ''stderr:'' @ nl @ run_stderr run)
             None ''execution fix'' st
         else
           let (stop, st1) = collect_trades L rnd run round_gates st
           in if stop then (Inr (GaveUp False), st1) else evaluate_round L rnd d run st1)"

definition lab_round ::
  "('r, 'd, 't, 'm) lab \<Rightarrow> nat \<Rightarrow> ('r, 'd, 't, 'm) lab_state \<Rightarrow>
   ('r lab_raise + round_end) \<times> ('r, 'd, 't, 'm) lab_state" where
  "lab_round L rnd st0 =
     (let (gs, st) = validation_gates L rnd (inject_universe L st0);
          passed = length (filter gate_passed gs)
      in if critical_failures gs \<noteq> [] then
           refine_round L rnd ''validation'' ''validation'' (str_join nl (map gate_line (critical_failures gs)))
             None ''validation fix'' (emit (GatesFailed rnd passed (length gs)) st)
         else
           let st1 = emit (GatesCompleted rnd passed (length gs)) st
           in case st_data st1 of
                Some d \<Rightarrow> backtest_round L rnd gs d st1
              | None \<Rightarrow>
                  let (stop, st2) = fetch_market_data L rnd st1
                  in case (stop, st_data st2) of
                       (False, Some d) \<Rightarrow> backtest_round L rnd gs d st2
                     | _ \<Rightarrow> (Inr NoData, st2))"

text \<open>\<open>NextRound\<close> at the end: the rounds are over and no exit was taken.\<close>

fun lab_rounds ::
  "('r, 'd, 't, 'm) lab \<Rightarrow> nat list \<Rightarrow> ('r, 'd, 't, 'm) lab_state \<Rightarrow>
   ('r lab_raise + round_end) \<times> ('r, 'd, 't, 'm) lab_state" where
  "lab_rounds L [] st = (Inr NextRound, st)"
| "lab_rounds L (r # rs) st =
     (case lab_round L r st of
        (Inr NextRound, st') \<Rightarrow> lab_rounds L rs st'
      | done \<Rightarrow> done)"

definition synthesis_start ::
  "('r, 'd, 't, 'm) lab \<Rightarrow> 'r lab_spec \<Rightarrow> string \<Rightarrow> gate_result list \<Rightarrow> string list \<Rightarrow> string list \<Rightarrow> lab_event list \<Rightarrow>
   drift \<Rightarrow> (string, nat) pydict \<Rightarrow> ('r, 'd, 't, 'm) lab_state" where
  "synthesis_start L s code gates attempts repairs events d c =
     \<lparr>st_spec = s, st_code = code, st_gates = gates, st_attempts = attempts, st_repairs = repairs,
      st_events = events, st_drift = d, st_signatures = [], st_counter = c, st_trades = [],
      st_open_reasons = [], st_metrics = trade_metrics L [], st_data = None,
      st_fetch = \<lparr>requested_symbols = [], fetched_symbols = [], provider_used = []\<rparr>,
      st_lookahead = False, st_predicate_attempts = 0, st_non_conforming = False, st_probed = None\<rparr>"

definition run_synthesis_loop ::
  "('r, 'd, 't, 'm) lab \<Rightarrow> 'r lab_spec \<Rightarrow> string \<Rightarrow> gate_result list \<Rightarrow> string list \<Rightarrow> string list \<Rightarrow> lab_event list \<Rightarrow>
   drift \<Rightarrow> (string, nat) pydict \<Rightarrow> ('r lab_raise + round_end) \<times> ('r, 'd, 't, 'm) lab_state" where
  "run_synthesis_loop L s code gates attempts repairs events d c =
     lab_rounds L [0..<max_rounds L] (synthesis_start L s code gates attempts repairs events d c)"

text \<open>The flags of the outcome, and the status of the record.\<close>

definition execution_succeeded :: "round_end \<Rightarrow> bool" where
  "execution_succeeded e \<longleftrightarrow> e = Converged"

definition max_rounds_exhausted :: "round_end \<Rightarrow> bool" where
  "max_rounds_exhausted e \<longleftrightarrow> e = GaveUp True \<or> e = GaveUp False"

definition refinement_stalled :: "round_end \<Rightarrow> bool" where
  "refinement_stalled e \<longleftrightarrow> e = GaveUp True"

definition backtest_status :: "bool \<Rightarrow> bool \<Rightarrow> bool \<Rightarrow> string" where
  "backtest_status stalled exhausted succeeded =
     (if stalled then ''failed: refinement_stalled''
      else if exhausted then ''failed: max_refinement_rounds''
      else if succeeded then ''completed'' else ''failed'')"

end
