(* ===== verification/LabRefineProps.thy ===== *)
theory LabRefineProps
  imports LabRefine RiskMergeProps
begin

text \<open>
  What the refinement loop keeps and what its ends mean: the strategy's rules are never changed, its
  risk limits only tighten unless a repair was committed, a converged loop has run exactly the code and
  strategy it returns through every gate, and the ways the loop can end without a verdict.
\<close>

section \<open>What a refinement may change\<close>

lemma revalidate_spec:
  assumes "readers_agree (lab_readers L)" and "limits_wf l" and "revalidate L s l code = Some s'"
  shows "s' = s\<lparr>spec_limits := l, spec_code := Some code\<rparr>"
  using assms legacy_reads_dump [OF assms(1,2), of "[]"] by (auto simp: revalidate_def split: if_splits)

lemma apply_updates_spec:
  assumes "readers_agree (lab_readers L)" and "limits_wf (spec_limits s)"
    and "apply_updates L s u code phase c = (Inr s', c')"
  shows "spec_rest s' = spec_rest s" and "limits_wf (spec_limits s')" and "tighter (spec_limits s') (spec_limits s)"
proof -
  obtain l lo un where
    m: "(case upd_limits u of Some (Proposed p) \<Rightarrow> merge_limits (lab_readers L) (spec_limits s) p
         | _ \<Rightarrow> Some (spec_limits s, [], [])) = Some (l, lo, un)"
    and s': "revalidate L s l code = Some s'"
    using assms(3) by (auto simp: apply_updates_def Let_def split: option.splits if_splits limits_update.splits prod.splits)
  have l: "limits_wf l \<and> tighter l (spec_limits s)"
    using m assms(2) merge_limits_tighter [OF assms(1,2)] by (auto split: option.splits limits_update.splits)
  with revalidate_spec [OF assms(1) _ s'] show "spec_rest s' = spec_rest s" "limits_wf (spec_limits s')"
    "tighter (spec_limits s') (spec_limits s)" by simp_all
qed

lemma apply_updates_raise:
  "apply_updates L s u code phase c = (Inl e, c') \<Longrightarrow>
   (\<exists>ev. e = Unimplementable ev phase s code) \<or> e = InvalidSpec \<or> e = NumberTooBig"
  by (auto simp: apply_updates_def Let_def split: option.splits if_splits limits_update.splits prod.splits)

definition raised_spec :: "'r lab_raise \<Rightarrow> 'r lab_spec option" where
  "raised_spec e = (case e of Unimplementable _ _ s _ \<Rightarrow> Some s | BudgetExhausted s _ \<Rightarrow> Some s | _ \<Rightarrow> None)"

definition repaired :: "lab_event list \<Rightarrow> bool" where
  "repaired es \<longleftrightarrow> (\<exists>r w. RefinedByRepair r w \<in> set es)"

lemma repaired_simps [simp]:
  "\<not> repaired []"
  "repaired (xs @ ys) \<longleftrightarrow> repaired xs \<or> repaired ys"
  "repaired (e # es) \<longleftrightarrow> (\<exists>r w. e = RefinedByRepair r w) \<or> repaired es"
  by (auto simp: repaired_def)

text \<open>The strategy of a state keeps what a refinement may not change of the one the loop started from.\<close>

definition keeps_strategy :: "'r lab_spec \<Rightarrow> ('r, 'd, 't, 'm) lab_state \<Rightarrow> bool" where
  "keeps_strategy s st \<longleftrightarrow> spec_rest (st_spec st) = spec_rest s \<and> limits_wf (spec_limits (st_spec st)) \<and>
     (\<not> repaired (st_events st) \<longrightarrow> tighter (spec_limits (st_spec st)) (spec_limits s))"

lemma allowed_same:
  "spec_rest (st_spec st') = spec_rest (st_spec st) \<Longrightarrow> spec_limits (st_spec st') = spec_limits (st_spec st) \<Longrightarrow>
   repaired (st_events st') = repaired (st_events st) \<Longrightarrow> keeps_strategy s st' = keeps_strategy s st"
  by (simp add: keeps_strategy_def)

lemma emit_sel [simp]:
  "st_spec (emit e st) = st_spec st" "st_code (emit e st) = st_code st" "st_gates (emit e st) = st_gates st"
  "st_attempts (emit e st) = st_attempts st" "st_events (emit e st) = st_events st @ [e]"
  "st_data (emit e st) = st_data st" "st_trades (emit e st) = st_trades st" "st_metrics (emit e st) = st_metrics st"
  "st_counter (emit e st) = st_counter st" "st_signatures (emit e st) = st_signatures st"
  "st_repairs (emit e st) = st_repairs st" "st_drift (emit e st) = st_drift st" "st_lookahead (emit e st) = st_lookahead st"
  by (simp_all add: emit_def)

lemma add_gates_sel [simp]:
  "st_spec (add_gates gs st) = st_spec st" "st_code (add_gates gs st) = st_code st"
  "st_gates (add_gates gs st) = st_gates st @ gs" "st_attempts (add_gates gs st) = st_attempts st"
  "st_events (add_gates gs st) = st_events st" "st_data (add_gates gs st) = st_data st"
  "st_trades (add_gates gs st) = st_trades st" "st_metrics (add_gates gs st) = st_metrics st"
  "st_counter (add_gates gs st) = st_counter st" "st_signatures (add_gates gs st) = st_signatures st"
  "st_repairs (add_gates gs st) = st_repairs st" "st_drift (add_gates gs st) = st_drift st"
  "st_lookahead (add_gates gs st) = st_lookahead st"
  by (simp_all add: add_gates_def)

lemma refine_or_exhaust_cases:
  assumes "refine_or_exhaust L rnd phase label details metrics dflt st = (res, st')"
  obtains
    (stalled) "res = Inr (Exhausted True)" "Suc rnd < max_rounds L"
      "is_stalled (stall_rounds L) (st_signatures st @ [(hash_code L (st_code st), hash_code L details)])"
      "st' = emit (RefineStalled rnd phase (stall_rounds L))
         (st\<lparr>st_signatures := st_signatures st @ [(hash_code L (st_code st), hash_code L details)]\<rparr>)"
  | (spent) "res = Inr (Exhausted False)" "max_rounds L \<le> Suc rnd"
      "st' = st\<lparr>st_signatures := st_signatures st @ [(hash_code L (st_code st), hash_code L details)]\<rparr>"
  | (budget) "res = Inl (BudgetExhausted (st_spec st) (st_code st))"
      "st' = emit (Refining rnd phase)
         (st\<lparr>st_signatures := st_signatures st @ [(hash_code L (st_code st), hash_code L details)]\<rparr>)"
  | (raised) u code' e c where
      "refine L rnd (st_spec st) (st_code st) label details metrics (st_attempts st) = Some (u, code')"
      "apply_updates L (st_spec st) u code' (Some phase) (st_counter st) = (Inl e, c)" "res = Inl e"
      "st' = (emit (Refining rnd phase)
         (st\<lparr>st_signatures := st_signatures st @ [(hash_code L (st_code st), hash_code L details)]\<rparr>))\<lparr>st_counter := c\<rparr>"
  | (applied) u code' s' c changes d where
      "refine L rnd (st_spec st) (st_code st) label details metrics (st_attempts st) = Some (u, code')"
      "apply_updates L (st_spec st) u code' (Some phase) (st_counter st) = (Inr s', c)" "res = Inr Applied"
      "st' = emit (Refined rnd changes) ((emit (Refining rnd phase)
         (st\<lparr>st_signatures := st_signatures st @ [(hash_code L (st_code st), hash_code L details)]\<rparr>))
           \<lparr>st_counter := c, st_spec := s', st_code := code', st_attempts := st_attempts st @ [changes], st_drift := d\<rparr>)"
      "Suc rnd < max_rounds L"
proof -
  let ?st = "st\<lparr>st_signatures := st_signatures st @ [(hash_code L (st_code st), hash_code L details)]\<rparr>"
  consider (a) "Suc rnd < max_rounds L" "is_stalled (stall_rounds L) (st_signatures ?st)"
    | (b) "max_rounds L \<le> Suc rnd"
    | (c) "Suc rnd < max_rounds L" "\<not> is_stalled (stall_rounds L) (st_signatures ?st)" by fastforce
  then show ?thesis
  proof cases
    case a
    with assms show ?thesis by (intro stalled) (auto simp: refine_or_exhaust_def Let_def)
  next
    case b
    with assms show ?thesis by (intro spent) (auto simp: refine_or_exhaust_def Let_def)
  next
    case c
    show ?thesis
    proof (cases "refine L rnd (st_spec st) (st_code st) label details metrics (st_attempts st)")
      case None
      with c assms show ?thesis by (intro budget) (auto simp: refine_or_exhaust_def Let_def)
    next
      case (Some uc)
      obtain u code' where uc: "uc = (u, code')" by force
      obtain r ctr where r: "apply_updates L (st_spec st) u code' (Some phase) (st_counter st) = (r, ctr)" by force
      show ?thesis
      proof (cases r)
        case (Inl e)
        with c assms Some uc r show ?thesis by (intro raised [of u code' e ctr]) (auto simp: refine_or_exhaust_def Let_def)
      next
        case (Inr s')
        with c assms Some uc r show ?thesis
          by (intro applied [of u code' s' ctr]) (auto simp: refine_or_exhaust_def Let_def)
      qed
    qed
  qed
qed

lemma refine_or_exhaust_allowed:
  assumes "readers_agree (lab_readers L)" and "keeps_strategy s st"
    and "refine_or_exhaust L rnd phase label details metrics dflt st = (res, st')"
  shows "keeps_strategy s st' \<and> (\<forall>e x. res = Inl e \<longrightarrow> raised_spec e = Some x \<longrightarrow> spec_rest x = spec_rest s)"
  using assms(3)
proof (cases rule: refine_or_exhaust_cases)
  case (applied u code' s' c changes d)
  have wf: "limits_wf (spec_limits (st_spec st))" using assms(2) by (simp add: keeps_strategy_def)
  from apply_updates_spec [OF assms(1) this applied(2)] assms(2) tighter_trans show ?thesis
    unfolding applied(3,4) keeps_strategy_def by simp
next
  case (raised u code' e c)
  from apply_updates_raise [OF raised(2)] assms(2) show ?thesis
    unfolding raised(3,4) by (auto simp: keeps_strategy_def raised_spec_def)
qed (use assms(2) in \<open>auto simp: keeps_strategy_def raised_spec_def\<close>)

section \<open>What a repair may change\<close>

lemma apply_zero_trade_spec_updates_spec:
  assumes "readers_agree (lab_readers L)" and "limits_wf (spec_limits s)"
    and "apply_zero_trade_spec_updates L s u code = Some s'"
  shows "spec_rest s' = spec_rest s \<and> limits_wf (spec_limits s') \<and> spec_code s' = Some code"
proof -
  have "limits_wf l" if "replaced_limits (lab_readers L) (spec_limits s) u = Some l" for l
    using that read_limits_wf limits_wf_default(1)
    by (auto simp: replaced_limits_def from_legacy_dict_def split: option.splits limits_update.splits proposal.splits)
  with assms(3) show ?thesis
    by (auto simp: apply_zero_trade_spec_updates_def split: option.splits if_splits)
qed

lemma check_proposal_cases:
  assumes "check_proposal L rnd spec data rep code attempts events = out"
  obtains
    (rejected) ev where "out_commit out = None" "out_events out = events @ [ev]" "\<not> repaired [ev]"
  | (committed) k ev where "out_commit out = Some k" "out_events out = events @ [ev]" "\<not> repaired [ev]"
      "apply_zero_trade_spec_updates L spec (rep_limits rep) code = Some (new_spec k)" "new_code k = code"
      "run_success (new_run k)" "new_run k = run_code L code data (new_spec k)" "new_trades k = run_trades (new_run k)"
proof -
  have "(out_commit out = None \<and> (\<exists>ev. out_events out = events @ [ev] \<and> \<not> repaired [ev])) \<or>
    (\<exists>k ev. out_commit out = Some k \<and> out_events out = events @ [ev] \<and> \<not> repaired [ev] \<and>
      apply_zero_trade_spec_updates L spec (rep_limits rep) code = Some (new_spec k) \<and> new_code k = code \<and>
      run_success (new_run k) \<and> new_run k = run_code L code data (new_spec k) \<and> new_trades k = run_trades (new_run k))"
    using assms unfolding check_proposal_def confirm_repair_def reject_def Let_def
    by (auto split: option.splits if_splits)
  with that show ?thesis by blast
qed

lemma try_repair_cases:
  assumes "try_repair L rnd spec code run metrics data attempts events = Some out"
  obtains
    (none) es where "out_commit out = None" "out_events out = events @ es" "\<not> repaired es"
  | (committed) k es u where "out_commit out = Some k" "out_events out = events @ es" "\<not> repaired es"
      "apply_zero_trade_spec_updates L spec u (new_code k) = Some (new_spec k)"
      "run_success (new_run k)" "new_run k = run_code L (new_code k) data (new_spec k)"
      "new_trades k = run_trades (new_run k)"
proof (cases "run_category run")
  case None
  with assms show ?thesis by (intro none [of "[]"]) (auto simp: try_repair_def)
next
  case (Some oc)
  show ?thesis
  proof (cases oc)
    case None
    with assms Some show ?thesis by (intro none [of "[]"]) (auto simp: try_repair_def)
  next
    case (Some cat)
    note cat = \<open>run_category run = Some oc\<close> Some
    show ?thesis
    proof (cases "repairer L rnd spec code run metrics attempts")
      case (Report rep)
      show ?thesis
      proof (cases "rep_code rep = None \<or> rep_code rep = Some []")
        case True
        with assms cat Report show ?thesis
          by (intro none [of "[RepairStarted rnd cat (length attempts), RepairSkipped rnd ''no_proposed_code'']"])
            (auto simp: try_repair_def reject_def)
      next
        case False
        with assms cat Report obtain code' where
          "check_proposal L rnd spec data rep code' attempts (events @ [RepairStarted rnd cat (length attempts)]) = out"
          by (auto simp: try_repair_def split: if_splits)
        then show ?thesis
        proof (cases rule: check_proposal_cases)
          case (rejected ev)
          with none [of "[RepairStarted rnd cat (length attempts), ev]"] show ?thesis by simp
        next
          case (committed k ev)
          with that(2) [of k "[RepairStarted rnd cat (length attempts), ev]" "rep_limits rep"] show ?thesis by simp
        qed
      qed
    next
      case (RepairFailed kind msg)
      with assms cat show ?thesis
        by (intro none [of "[RepairStarted rnd cat (length attempts), RepairSkipped rnd ''agent_error'']"])
          (auto simp: try_repair_def reject_def)
    next
      case RepairBudgetSpent
      with assms cat show ?thesis by (simp add: try_repair_def)
    qed
  qed
qed

section \<open>The stages of a round\<close>

lemma inject_universe_allowed: "keeps_strategy s (inject_universe L st) = keeps_strategy s st"
  by (rule allowed_same) (simp_all add: inject_universe_def Let_def)

lemma validation_gates_allowed: "validation_gates L rnd st = (gs, st') \<Longrightarrow> keeps_strategy s st' = keeps_strategy s st"
  by (rule allowed_same) (auto simp: validation_gates_def Let_def)

lemma fetch_market_data_allowed: "fetch_market_data L rnd st = (b, st') \<Longrightarrow> keeps_strategy s st' = keeps_strategy s st"
  by (rule allowed_same) (auto simp: fetch_market_data_def Let_def split: prod.splits option.splits if_splits)

lemma probe_reachability_allowed: "keeps_strategy s (probe_reachability L rnd d st) = keeps_strategy s st"
  by (rule allowed_same) (simp_all add: probe_reachability_def Let_def)

lemma execute_code_allowed: "execute_code L rnd d st = (run, st') \<Longrightarrow> keeps_strategy s st' = keeps_strategy s st"
  by (rule allowed_same) (auto simp: execute_code_def Let_def split: if_splits)

lemma collect_trades_allowed: "collect_trades L rnd run gs st = (b, st') \<Longrightarrow> keeps_strategy s st' = keeps_strategy s st"
  by (rule allowed_same) (auto simp: collect_trades_def Let_def split: if_splits)

text \<open>Keeping the strategy, in what a round returns or raises.\<close>

definition result_allowed :: "'r lab_spec \<Rightarrow> ('r lab_raise + 'e) \<times> ('r, 'd, 't, 'm) lab_state \<Rightarrow> bool" where
  "result_allowed s = (\<lambda>(res, st). keeps_strategy s st \<and>
     (\<forall>e x. res = Inl e \<longrightarrow> raised_spec e = Some x \<longrightarrow> spec_rest x = spec_rest s))"

lemma refine_round_allowed:
  assumes "readers_agree (lab_readers L)" and "keeps_strategy s st"
  shows "result_allowed s (refine_round L rnd phase label details metrics dflt st)"
proof -
  obtain res st' where r: "refine_or_exhaust L rnd phase label details metrics dflt st = (res, st')" by force
  from refine_or_exhaust_allowed [OF assms r] show ?thesis
    by (auto simp: refine_round_def r result_allowed_def map_sum_def split: sum.splits)
qed

lemma commit_repair_allowed:
  assumes "spec_rest (new_spec k) = spec_rest s" and "limits_wf (spec_limits (new_spec k))"
  shows "keeps_strategy s (commit_repair L rnd k st)"
  using assms by (simp add: keeps_strategy_def commit_repair_def Let_def)

lemma handle_anomalies_allowed:
  assumes r: "readers_agree (lab_readers L)" and a: "keeps_strategy s st"
  shows "result_allowed s (handle_anomalies L rnd d run crits st)"
proof (cases "run_category run")
  case None
  with refine_round_allowed [OF assms] show ?thesis by (simp add: handle_anomalies_def Let_def)
next
  case (Some oc)
  show ?thesis
  proof (cases oc)
    case None
    with Some refine_round_allowed [OF assms] show ?thesis by (simp add: handle_anomalies_def Let_def)
  next
    case (Some cat)
    note cat = \<open>run_category run = Some oc\<close> Some
    show ?thesis
    proof (cases "try_repair L rnd (st_spec st) (st_code st) run (st_metrics st) d (st_repairs st) (st_events st)")
      case None
      with cat a show ?thesis
        by (auto simp: handle_anomalies_def Let_def result_allowed_def keeps_strategy_def raised_spec_def)
    next
      case (Some out)
      show ?thesis
      proof (cases "cat = ''ENTRY_WITH_NO_EXIT''")
        case True
        with cat a show ?thesis
          by (auto simp: handle_anomalies_def Let_def result_allowed_def keeps_strategy_def raised_spec_def)
      next
        case False
        note h = handle_anomalies_def Let_def cat Some False
        from Some show ?thesis
        proof (cases rule: try_repair_cases)
          case (none es)
          let ?st = "add_gates (out_gates out) (st\<lparr>st_repairs := out_attempts out, st_events := out_events out\<rparr>)"
          have "keeps_strategy s ?st" using a none(2,3) by (simp add: keeps_strategy_def)
          with refine_round_allowed [OF r] none(1) show ?thesis by (simp add: h)
        next
          case (committed k es u)
          from a have "limits_wf (spec_limits (st_spec st))" "spec_rest (st_spec st) = spec_rest s" by (simp_all add: keeps_strategy_def)
          with apply_zero_trade_spec_updates_spec [OF r this(1) committed(4)]
          show ?thesis using committed(1) by (simp add: h result_allowed_def commit_repair_allowed)
        qed
      qed
    qed
  qed
qed

lemma result_allowed_Inr [simp]: "result_allowed s (Inr e, st) = keeps_strategy s st"
  by (simp add: result_allowed_def)

lemma evaluate_round_allowed:
  assumes "readers_agree (lab_readers L)" and "keeps_strategy s st"
  shows "result_allowed s (evaluate_round L rnd d run st)"
proof -
  have a: "keeps_strategy s (add_gates g (st\<lparr>st_metrics := m\<rparr>))" for g m using assms(2) by (simp add: keeps_strategy_def)
  show ?thesis
    unfolding evaluate_round_def Let_def by (simp only: a handle_anomalies_allowed [OF assms(1) a] result_allowed_Inr split: if_split) simp
qed

lemma backtest_round_allowed:
  assumes "readers_agree (lab_readers L)" and "keeps_strategy s st"
  shows "result_allowed s (backtest_round L rnd gs d st)"
proof -
  obtain run st1 where e: "execute_code L rnd d (probe_reachability L rnd d st) = (run, st1)" by force
  obtain stop st2 where c: "collect_trades L rnd run gs st1 = (stop, st2)" by force
  have a: "keeps_strategy s st1" "keeps_strategy s st2"
    by (simp_all only: collect_trades_allowed [OF c] execute_code_allowed [OF e] probe_reachability_allowed assms(2))
  show ?thesis
    unfolding backtest_round_def e Let_def prod.case c
    by (simp add: a refine_round_allowed [OF assms(1) a(1)] evaluate_round_allowed [OF assms(1) a(2)])
qed

lemma lab_round_allowed:
  assumes "readers_agree (lab_readers L)" and "keeps_strategy s st"
  shows "result_allowed s (lab_round L rnd st)"
proof -
  obtain gs st1 where v: "validation_gates L rnd (inject_universe L st) = (gs, st1)" by force
  have a: "keeps_strategy s st1" by (simp only: validation_gates_allowed [OF v] inject_universe_allowed assms(2))
  have e: "keeps_strategy s (emit (GatesFailed i j k) st1)" "keeps_strategy s (emit (GatesCompleted i j k) st1)" for i j k
    using a by (simp_all add: keeps_strategy_def)
  obtain stop st2 where f: "fetch_market_data L rnd
      (emit (GatesCompleted rnd (length (filter gate_passed gs)) (length gs)) st1) = (stop, st2)" by force
  have b: "keeps_strategy s st2" by (simp only: fetch_market_data_allowed [OF f] e(2))
  show ?thesis
    unfolding lab_round_def v Let_def prod.case f
    by (cases stop; cases "st_data st2"; cases "st_data (emit (GatesCompleted rnd (length (filter gate_passed gs)) (length gs)) st1)")
      (simp_all add: b refine_round_allowed [OF assms(1) e(1)] backtest_round_allowed [OF assms(1) e(2)]
        backtest_round_allowed [OF assms(1) b] del: emit_sel)
qed

lemma lab_rounds_allowed:
  "readers_agree (lab_readers L) \<Longrightarrow> keeps_strategy s st \<Longrightarrow> result_allowed s (lab_rounds L rs st)"
proof (induction rs arbitrary: st)
  case Nil
  then show ?case by (simp add: result_allowed_def)
next
  case (Cons r rs)
  obtain res st' where r: "lab_round L r st = (res, st')" by force
  have a: "result_allowed s (res, st')" using lab_round_allowed [OF Cons.prems] r by metis
  show ?case
  proof (cases "res = Inr NextRound")
    case True
    with a Cons.IH Cons.prems(1) r show ?thesis by (simp add: result_allowed_def)
  next
    case False
    then have "lab_rounds L (r # rs) st = (res, st')" using r by (auto split: sum.splits round_end.splits)
    with a show ?thesis by simp
  qed
qed

section \<open>What the ends of a round mean\<close>

lemma refine_round_ends:
  assumes "refine_round L rnd phase label details metrics dflt st = (Inr e, st')"
  obtains "e = NextRound" "Suc rnd < max_rounds L" | b where "e = GaveUp b"
proof -
  obtain res st1 where r: "refine_or_exhaust L rnd phase label details metrics dflt st = (res, st1)" by force
  with assms have e: "Inr e = map_sum id round_end_of res" by (simp add: refine_round_def)
  from r show ?thesis
    by (cases rule: refine_or_exhaust_cases) (use e that in \<open>auto simp: round_end_of_def\<close>)
qed

lemma refine_round_not_converged [simp]: "refine_round L rnd phase label details metrics dflt st \<noteq> (Inr Converged, st')"
  using refine_round_ends [of L rnd phase label details metrics dflt st Converged st'] by blast

lemma handle_anomalies_ends:
  assumes "handle_anomalies L rnd d run crits st = (Inr e, st')"
  obtains "e = NextRound" "Suc rnd < max_rounds L" | b where "e = GaveUp b"
    | why where "e = NextRound" "last (st_events st') = RefinedByRepair rnd why"
proof -
  have "(\<exists>details metrics st1. refine_round L rnd ''evaluation'' ''evaluation (backtest anomaly)'' details metrics
      ''anomaly fix'' st1 = (Inr e, st')) \<or> (\<exists>k st1. e = NextRound \<and> st' = commit_repair L rnd k st1)"
    using assms unfolding handle_anomalies_def Let_def
    by (auto split: option.splits if_splits)
  then show ?thesis
  proof (elim disjE exE conjE)
    fix details metrics st1
    assume "refine_round L rnd ''evaluation'' ''evaluation (backtest anomaly)'' details metrics ''anomaly fix'' st1 = (Inr e, st')"
    then show ?thesis by (cases rule: refine_round_ends) (auto intro: that)
  next
    fix k st1 assume "e = NextRound" "st' = commit_repair L rnd k st1"
    then show ?thesis by (intro that(3)) (auto simp: commit_repair_def Let_def)
  qed
qed

lemma evaluate_round_ends:
  assumes "evaluate_round L rnd d run st = (Inr e, st')"
  obtains "e = NextRound" "Suc rnd < max_rounds L" | b where "e = GaveUp b"
    | why where "e = NextRound" "last (st_events st') = RefinedByRepair rnd why" | "e = Converged"
  using assms handle_anomalies_ends [of L rnd d run _ _ e st'] unfolding evaluate_round_def Let_def
  by (auto split: if_splits)

lemma backtest_round_ends:
  assumes "backtest_round L rnd gs d st = (Inr e, st')"
  obtains "e = NextRound" "Suc rnd < max_rounds L" | b where "e = GaveUp b"
    | why where "e = NextRound" "last (st_events st') = RefinedByRepair rnd why" | "e = Converged"
proof -
  obtain run st1 where x: "execute_code L rnd d (probe_reachability L rnd d st) = (run, st1)" by force
  obtain stop st2 where c: "collect_trades L rnd run gs st1 = (stop, st2)" by force
  show ?thesis
  proof (cases "run_success run \<and> \<not> stop")
    case True
    with assms x c have "evaluate_round L rnd d run st2 = (Inr e, st')" by (simp add: backtest_round_def)
    then show ?thesis by (cases rule: evaluate_round_ends) (auto intro: that)
  next
    case False
    show ?thesis
    proof (cases "run_success run")
      case True
      with False assms x c show ?thesis by (intro that(2)) (auto simp: backtest_round_def)
    next
      case no: False
      with assms x have "refine_round L rnd ''execution'' ''execution''
          (''Error type: '' @ or_empty (run_error_type run) @ nl @ ''stderr:'' @ nl @ run_stderr run)
          None ''execution fix'' st1 = (Inr e, st')" by (simp add: backtest_round_def)
      then show ?thesis by (cases rule: refine_round_ends) (auto intro: that)
    qed
  qed
qed

text \<open>A round that ends in a verdict of its own went through one of these stages.\<close>

lemma lab_round_cases:
  assumes "lab_round L rnd st0 = r"
  obtains
    (refused) st details where "r = refine_round L rnd ''validation'' ''validation'' details None ''validation fix'' st"
  | (no_data) st where "r = (Inr NoData, st)"
  | (backtest) gs d st st' where "validation_gates L rnd (inject_universe L st0) = (gs, st)" "critical_failures gs = []"
      "r = backtest_round L rnd gs d st'" "st_data st' = Some d" "st_spec st' = st_spec st" "st_code st' = st_code st"
proof -
  obtain gs st where v: "validation_gates L rnd (inject_universe L st0) = (gs, st)" by force
  let ?st = "emit (GatesCompleted rnd (length (filter gate_passed gs)) (length gs)) st"
  obtain stop st2 where f: "fetch_market_data L rnd ?st = (stop, st2)" by force
  show ?thesis
  proof (cases "critical_failures gs = []")
    case False
    with assms v show ?thesis by (intro refused) (auto simp: lab_round_def)
  next
    case True
    show ?thesis
    proof (cases "st_data ?st")
      case (Some d)
      with True assms v show ?thesis by (intro backtest [OF v True, of d ?st]) (auto simp: lab_round_def)
    next
      case None
      have "st_spec st2 = st_spec ?st" "st_code st2 = st_code ?st"
        using f by (auto simp: fetch_market_data_def Let_def split: prod.splits option.splits if_splits)
      with None True assms v f show ?thesis
        by (cases stop; cases "st_data st2") (auto simp: lab_round_def intro: no_data backtest [OF v True])
    qed
  qed
qed

lemma lab_round_next:
  assumes "lab_round L rnd st0 = (Inr NextRound, st')" and "max_rounds L \<le> Suc rnd"
  shows "\<exists>why. last (st_events st') = RefinedByRepair rnd why"
  using assms(1)
proof (cases rule: lab_round_cases)
  case (refused st details)
  from refused(1) [symmetric] assms(2) show ?thesis by (cases rule: refine_round_ends) auto
next
  case (backtest gs d st st1)
  from backtest(3) [symmetric] assms(2) show ?thesis by (cases rule: backtest_round_ends) auto
qed simp

lemma lab_rounds_next:
  "lab_rounds L (rs @ [r]) st = (Inr NextRound, st') \<Longrightarrow> \<exists>st1. lab_round L r st1 = (Inr NextRound, st')"
  by (induction rs arbitrary: st) (auto split: prod.splits sum.splits round_end.splits)

lemma lab_rounds_end:
  "lab_rounds L rs st = (res, st') \<Longrightarrow> res \<noteq> Inr NextRound \<Longrightarrow> \<exists>r\<in>set rs. \<exists>st1. lab_round L r st1 = (res, st')"
proof (induction rs arbitrary: st)
  case (Cons r rs)
  obtain x y where xy: "lab_round L r st = (x, y)" by force
  show ?case
  proof (cases "x = Inr NextRound")
    case True
    with Cons xy show ?thesis by auto
  next
    case False
    with Cons.prems xy show ?thesis by (auto split: sum.splits round_end.splits)
  qed
qed simp

section \<open>A converged round\<close>

lemma critical_stamp [simp]: "critical_failures (stamp_gates r pre gs) = [] \<longleftrightarrow> \<not> has_critical_failures gs"
  by (auto simp: critical_failures_def stamp_gates_def has_critical_failures_def filter_empty_conv list_ex_iff)

lemma has_critical_stamp [simp]: "has_critical_failures (stamp_gates r pre gs) \<longleftrightarrow> has_critical_failures gs"
  unfolding has_critical_failures_iff by (simp add: has_critical_failures_iff)

lemma has_critical_Nil [simp]: "\<not> has_critical_failures []"
  by (simp add: has_critical_failures_def)

lemma has_critical_append [simp]:
  "has_critical_failures (xs @ ys) \<longleftrightarrow> has_critical_failures xs \<or> has_critical_failures ys"
  by (simp add: has_critical_failures_def)

text \<open>What it means that code has passed: it ran, and none of the five gates that every round consults (safety,
  code conformance, predicate conformance, trade coverage, anomalies) has a critical finding. The readiness
  gate is consulted in the first round only, and the reachability and starvation probes only report, so
  nothing is said of what they found.\<close>

definition passed_all :: "('r, 'd, 't, 'm) lab \<Rightarrow> nat \<Rightarrow> 'd \<Rightarrow> ('r, 'd, 't, 'm) lab_state \<Rightarrow> bool" where
  "passed_all L k d st \<longleftrightarrow>
     (let s = st_spec st; code = st_code st; run = run_code L code d s;
          metrics = attach_reports L (trade_metrics L (run_trades run)) s d run
      in run_success run \<and> st_trades st = run_trades run \<and> st_metrics st = metrics \<and>
         st_lookahead st = is_lookahead run \<and>
         \<not> has_critical_failures (code_safety L s code) \<and> \<not> has_critical_failures (code_conformance L s code) \<and>
         \<not> has_critical_failures (predicate_conformance L k s code) \<and>
         \<not> has_critical_failures (trade_coverage L s (run_trades run)) \<and>
         \<not> has_critical_failures (anomalies L metrics (run_trades run) d))"

lemma validation_gates_clean:
  assumes "validation_gates L rnd st0 = (gs, st)" and "critical_failures gs = []"
  shows "\<not> has_critical_failures (code_safety L (st_spec st) (st_code st))"
    and "\<not> has_critical_failures (code_conformance L (st_spec st) (st_code st))"
    and "\<exists>k. \<not> has_critical_failures (predicate_conformance L k (st_spec st) (st_code st))"
  using assms by (auto simp: validation_gates_def Let_def split: if_splits)

lemma evaluate_round_converged:
  assumes "evaluate_round L rnd d run st = (Inr Converged, st')"
  shows "st_metrics st' = attach_reports L (trade_metrics L (st_trades st)) (st_spec st) d run"
    and "\<not> has_critical_failures (anomalies L (st_metrics st') (st_trades st) d)"
    and "st_spec st' = st_spec st" "st_code st' = st_code st" "st_trades st' = st_trades st" "st_data st' = st_data st"
    and "st_lookahead st' = st_lookahead st"
proof -
  let ?m = "attach_reports L (trade_metrics L (st_trades st)) (st_spec st) d run"
  have c: "critical_failures (stamp_gates (int rnd) [] (anomalies L ?m (st_trades st) d)) = []"
    using assms handle_anomalies_ends [of L rnd d run _ _ Converged st']
    by (auto simp: evaluate_round_def Let_def split: if_splits)
  with assms have "st' = add_gates (stamp_gates (int rnd) [] (anomalies L ?m (st_trades st) d)) (st\<lparr>st_metrics := ?m\<rparr>)"
    by (simp add: evaluate_round_def Let_def)
  with c show "st_metrics st' = ?m" "\<not> has_critical_failures (anomalies L (st_metrics st') (st_trades st) d)"
    "st_spec st' = st_spec st" "st_code st' = st_code st" "st_trades st' = st_trades st" "st_data st' = st_data st"
    "st_lookahead st' = st_lookahead st"
    by simp_all
qed

lemma probe_reachability_sel [simp]:
  "st_spec (probe_reachability L rnd d st) = st_spec st" "st_code (probe_reachability L rnd d st) = st_code st"
  "st_data (probe_reachability L rnd d st) = st_data st"
  by (simp_all add: probe_reachability_def Let_def)

lemma backtest_round_converged:
  assumes "backtest_round L rnd gs d st = (Inr Converged, st')"
  defines "run \<equiv> run_code L (st_code st) d (st_spec st)"
  shows "st_spec st' = st_spec st" and "st_code st' = st_code st" and "st_data st' = st_data st"
    and "run_success run" and "st_trades st' = run_trades run" and "st_lookahead st' = is_lookahead run"
    and "\<not> has_critical_failures (trade_coverage L (st_spec st) (run_trades run))"
    and "st_metrics st' = attach_reports L (trade_metrics L (run_trades run)) (st_spec st) d run"
    and "\<not> has_critical_failures (anomalies L (st_metrics st') (run_trades run) d)"
proof -
  obtain rn st1 where x: "execute_code L rnd d (probe_reachability L rnd d st) = (rn, st1)" by force
  have rn: "rn = run" and 1: "st_spec st1 = st_spec st" "st_code st1 = st_code st" "st_data st1 = st_data st"
      "st_lookahead st1 = is_lookahead run"
    using x by (auto simp: execute_code_def run_def Let_def split: if_splits)
  obtain stop st2 where c: "collect_trades L rnd run gs st1 = (stop, st2)" by force
  have ok: "run_success run" using assms(1) x rn by (auto simp: backtest_round_def split: if_splits)
  have ev: "evaluate_round L rnd d run st2 = (Inr Converged, st')" and stop: "\<not> stop"
    using assms(1) x rn c ok by (auto simp: backtest_round_def split: if_splits)
  have 2: "st_spec st2 = st_spec st1" "st_code st2 = st_code st1" "st_data st2 = st_data st1"
      "st_trades st2 = run_trades run" "st_lookahead st2 = st_lookahead st1"
      "\<not> has_critical_failures (trade_coverage L (st_spec st1) (run_trades run))"
    using c stop by (auto simp: collect_trades_def Let_def split: if_splits)
  show "run_success run" by (rule ok)
  show "st_spec st' = st_spec st" "st_code st' = st_code st" "st_data st' = st_data st"
    "st_trades st' = run_trades run" "st_lookahead st' = is_lookahead run"
    "\<not> has_critical_failures (trade_coverage L (st_spec st) (run_trades run))"
    "st_metrics st' = attach_reports L (trade_metrics L (run_trades run)) (st_spec st) d run"
    "\<not> has_critical_failures (anomalies L (st_metrics st') (run_trades run) d)"
    using evaluate_round_converged [OF ev] 1 2 by simp_all
qed

lemma lab_round_converged:
  assumes "lab_round L rnd st0 = (Inr Converged, st')"
  shows "\<exists>k d. st_data st' = Some d \<and> passed_all L k d st'"
  using assms
proof (cases rule: lab_round_cases)
  case (refused st details)
  then show ?thesis by (metis refine_round_not_converged)
next
  case (backtest gs d st st1)
  note b = backtest_round_converged [OF backtest(3) [symmetric]]
  from validation_gates_clean(3) [OF backtest(1,2)] obtain k where
    "\<not> has_critical_failures (predicate_conformance L k (st_spec st) (st_code st))" by blast
  with validation_gates_clean(1,2) [OF backtest(1,2)] b backtest(4-6) show ?thesis
    unfolding passed_all_def Let_def by (intro exI [of _ k] exI [of _ d]) simp
qed simp

section \<open>Repeated mutations are never reported\<close>

definition reports_mutations :: "'r lab_raise + 'e \<Rightarrow> bool" where
  "reports_mutations res \<longleftrightarrow> (\<exists>p ks n ph s c. res = Inl (Unimplementable (RepeatedMutations p ks n) ph s c))"

lemma reports_mutations_simps [simp]:
  "\<not> reports_mutations (Inr e)" "\<not> reports_mutations (Inl (Unimplementable (NoExits t) ph s c))"
  "\<not> reports_mutations (Inl (Unimplementable (LoosenedLimits ks) ph s c))"
  "\<not> reports_mutations (Inl (BudgetExhausted s c))" "\<not> reports_mutations (Inl InvalidSpec)"
  "\<not> reports_mutations (Inl NumberTooBig)"
  by (simp_all add: reports_mutations_def)

lemma refine_no_others: "refine L rnd s code label details metrics attempts = Some (u, code') \<Longrightarrow> upd_others u = []"
  by (auto simp: refine_def narrow_answer_def split: llm_reply.splits)

lemma apply_updates_no_others:
  "upd_others u = [] \<Longrightarrow> apply_updates L s u code phase c = (res, c') \<Longrightarrow> \<not> reports_mutations res"
  by (auto simp: apply_updates_def Let_def split: option.splits if_splits limits_update.splits)

lemma refine_round_no_mutations:
  assumes "refine_round L rnd phase label details metrics dflt st = (res, st')"
  shows "\<not> reports_mutations res"
proof -
  obtain r st1 where r: "refine_or_exhaust L rnd phase label details metrics dflt st = (r, st1)" by force
  with assms have res: "res = map_sum id round_end_of r" by (simp add: refine_round_def)
  from r show ?thesis
  proof (cases rule: refine_or_exhaust_cases)
    case (raised u code' e c)
    from apply_updates_no_others [OF refine_no_others [OF raised(1)] raised(2)] raised(3) res show ?thesis
      by (simp add: reports_mutations_def)
  qed (simp_all add: res)
qed

lemma handle_anomalies_no_mutations:
  "handle_anomalies L rnd d run crits st = (res, st') \<Longrightarrow> \<not> reports_mutations res"
  unfolding handle_anomalies_def Let_def
  by (auto split: option.splits if_splits dest: refine_round_no_mutations)

lemma backtest_round_no_mutations:
  assumes "backtest_round L rnd gs d st = (res, st')"
  shows "\<not> reports_mutations res"
  using assms unfolding backtest_round_def evaluate_round_def Let_def
  by (auto split: prod.splits if_splits dest: refine_round_no_mutations handle_anomalies_no_mutations)

lemma lab_round_no_mutations:
  assumes "lab_round L rnd st = (res, st')"
  shows "\<not> reports_mutations res"
  using assms
proof (cases rule: lab_round_cases)
  case (refused st1 details)
  from refine_round_no_mutations [OF refused [symmetric]] show ?thesis .
next
  case (backtest gs d st1 st2)
  from backtest_round_no_mutations [OF backtest(3) [symmetric]] show ?thesis .
qed simp

section \<open>Examples\<close>

text \<open>A laboratory in which nothing is found wrong: one symbol, and code that always trades once.\<close>

definition calm_lab :: "(nat, nat, nat, nat) lab" where
  "calm_lab =
     \<lparr>lab_readers = plain_readers, rest_valid = (\<lambda>_. True), digest = (\<lambda>t. t), spec_text = (\<lambda>_ _. []),
      inject = (\<lambda>_ c. c), readiness = (\<lambda>_. []), code_safety = (\<lambda>_ _. []), code_conformance = (\<lambda>_ _. []),
      predicate_conformance = (\<lambda>_ _ _. []), demotion_attempt = 2, validation_text = (\<lambda>_ _. []),
      spec_validator = (\<lambda>_. []), fetch_data = (\<lambda>_. (Some 5, \<lparr>requested_symbols = [], fetched_symbols = [], provider_used = []\<rparr>)),
      fetch_coverage = (\<lambda>_ _ _. []), data_counts = (\<lambda>d. (1, d)), probe_signature = (\<lambda>_. ([], False)),
      reachability = (\<lambda>_ _. []), starvation = (\<lambda>_ _. []),
      run_code = (\<lambda>c _ _. \<lparr>run_success = True, run_error_type = None, run_stderr = [], run_trades = [7],
                             run_open_reasons = [], run_category = None\<rparr>),
      trade_coverage = (\<lambda>_ _. []), trade_metrics = length, attach_reports = (\<lambda>m _ _ _. m),
      anomalies = (\<lambda>_ _ _. []), repair_anomalies = (\<lambda>_ _ _. []), diagnostics_block = (\<lambda>_. []),
      coverage_block = (\<lambda>_. []), refiner = (\<lambda>_ _ _ _ _ _ _. AgentFailed),
      repairer = (\<lambda>_ _ _ _ _ _. RepairFailed [] []), asset_class = (\<lambda>_. ''stocks''),
      max_rounds = 2, stall_rounds = 3\<rparr>"

text \<open>One in which the first code trades nothing and the repair proposes code that does.\<close>

definition zero_trade_lab :: "(nat, nat, nat, nat) lab" where
  "zero_trade_lab = calm_lab
     \<lparr>run_code := (\<lambda>c _ _. \<lparr>run_success = True, run_error_type = None, run_stderr = [],
        run_trades = (if c = ''fixed'' then [7] else []), run_open_reasons = [],
        run_category = (if c = ''fixed'' then None else Some (Some ''NO_ORDERS_EMITTED''))\<rparr>),
      anomalies := (\<lambda>m _ _. if m = 0 then [orchestrator_gate ''anomaly'' Critical ''no trades'' 0] else []),
      repairer := (\<lambda>_ _ _ _ _ _. Report \<lparr>rep_category = ''NO_ORDERS_EMITTED'', rep_evidence = [], rep_code = Some ''fixed'',
        rep_changes = ''fix'', rep_limits = None, rep_other_keys = [], rep_dropped_keys = []\<rparr>)\<rparr>"

definition sample_spec :: "nat lab_spec" where
  "sample_spec = \<lparr>spec_limits = default_limits, spec_code = None, spec_rest = 1\<rparr>"

lemmas lab_eval = run_synthesis_loop_def synthesis_start_def calm_lab_def zero_trade_lab_def sample_spec_def
  lab_round_def validation_gates_def inject_universe_def fetch_market_data_def probe_reachability_def
  backtest_round_def execute_code_def collect_trades_def evaluate_round_def handle_anomalies_def try_repair_def
  check_proposal_def confirm_repair_def apply_zero_trade_spec_updates_def replaced_limits_def commit_repair_def
  dropped_keys_gates_def stamp_gates_def critical_failures_def has_critical_failures_def orchestrator_gate_def
  is_lookahead_def round_demoted_conformance_def anomaly_details_def emit_def add_gates_def

lemma default_limits_migrate: "from_legacy_dict plain_readers (dump_limits default_limits) = Some default_limits"
  using legacy_reads_dump [OF plain_readers_agree limits_wf_default(1), of "[]"] by simp

lemma calm_converges:
  "\<exists>st. run_synthesis_loop calm_lab sample_spec ''c'' [] [] [] [] empty_drift [] = (Inr Converged, st)"
  by (simp add: lab_eval upt_rec Let_def)

lemma repair_in_last_round:
  "\<exists>st. run_synthesis_loop (zero_trade_lab\<lparr>max_rounds := 1\<rparr>) sample_spec ''c'' [] [] [] [] empty_drift [] = (Inr NextRound, st)"
  by (simp add: lab_eval upt_rec Let_def default_limits_migrate)

section \<open>The properties\<close>

text \<open>C34. Whatever the agents answer, the refinement loop leaves the strategy's rules as the design made
  them, in what it returns and in what it raises; the risk limits stay valid, and unless a zero-trade
  repair was committed they are in no field looser than at the start.\<close>

theorem refinement_keeps_the_strategy:
  assumes "readers_agree (lab_readers L)" and "limits_wf (spec_limits s)"
    and "run_synthesis_loop L s code gates attempts repairs [] d c = (res, st)"
  shows "spec_rest (st_spec st) = spec_rest s \<and> limits_wf (spec_limits (st_spec st)) \<and>
    (\<not> repaired (st_events st) \<longrightarrow> tighter (spec_limits (st_spec st)) (spec_limits s)) \<and>
    (\<forall>e x. res = Inl e \<longrightarrow> raised_spec e = Some x \<longrightarrow> spec_rest x = spec_rest s)"
proof -
  have "keeps_strategy s (synthesis_start L s code gates attempts repairs [] d c)"
    using assms(2) by (simp add: keeps_strategy_def synthesis_start_def)
  from lab_rounds_allowed [OF assms(1) this, of "[0..<max_rounds L]"] assms(3) show ?thesis
    by (simp add: run_synthesis_loop_def result_allowed_def keeps_strategy_def)
qed

theorem refinement_keeps_the_strategy_witness:
  "\<exists>st. run_synthesis_loop calm_lab sample_spec ''c'' [] [] [] [] empty_drift [] = (Inr Converged, st) \<and>
     spec_rest (st_spec st) = 1 \<and> limits_wf (spec_limits (st_spec st))"
proof -
  have r: "readers_agree (lab_readers calm_lab)" by (simp add: calm_lab_def plain_readers_agree)
  have w: "limits_wf (spec_limits sample_spec)" by (simp add: sample_spec_def limits_wf_default)
  obtain st where st: "run_synthesis_loop calm_lab sample_spec ''c'' [] [] [] [] empty_drift [] = (Inr Converged, st)"
    using calm_converges by blast
  from refinement_keeps_the_strategy [OF r w st] st show ?thesis by (auto simp: sample_spec_def)
qed

text \<open>C35. A loop that converged returns what it ran: the trades and metrics are those of running exactly
  the returned code under the returned strategy on the fetched data, and the five gates every round
  consults (safety, code conformance, predicate conformance, trade coverage, anomalies) have no critical
  finding against them. The readiness gate of the first round and the probes, which may record critical
  findings without stopping a round, are not among the five.\<close>

theorem converged_code_has_passed:
  assumes "run_synthesis_loop L s code gates attempts repairs events d c = (Inr Converged, st)"
  shows "\<exists>k data. st_data st = Some data \<and> passed_all L k data st"
  using assms lab_rounds_end [of L _ _ "Inr Converged" st] lab_round_converged
  unfolding run_synthesis_loop_def by fastforce

theorem converged_code_has_passed_witness:
  "\<exists>st k. run_synthesis_loop calm_lab sample_spec ''c'' [] [] [] [] empty_drift [] = (Inr Converged, st) \<and>
     passed_all calm_lab k (the (st_data st)) st"
  using calm_converges converged_code_has_passed by (metis option.sel)

text \<open>C38. The rounds can run out without any exit only when the last allowed round committed a zero-trade
  repair: the loop then reports neither exhaustion nor success, and the record's status is the bare
  \<^verbatim>\<open>failed\<close>, although the repaired code has passed the repair's gates.\<close>

theorem rounds_run_out_after_a_repair:
  assumes "run_synthesis_loop L s code gates attempts repairs events d c = (Inr NextRound, st)" and "0 < max_rounds L"
  shows "(\<exists>why. last (st_events st) = RefinedByRepair (max_rounds L - 1) why) \<and>
    backtest_status (refinement_stalled NextRound) (max_rounds_exhausted NextRound) (execution_succeeded NextRound) = ''failed''"
proof -
  obtain n where n: "max_rounds L = Suc n" using assms(2) by (cases "max_rounds L") auto
  with assms(1) have "lab_rounds L ([0..<n] @ [n]) (synthesis_start L s code gates attempts repairs events d c) = (Inr NextRound, st)"
    by (simp add: run_synthesis_loop_def)
  from lab_rounds_next [OF this] lab_round_next n show ?thesis
    by (fastforce simp: backtest_status_def refinement_stalled_def max_rounds_exhausted_def execution_succeeded_def)
qed

theorem rounds_run_out_after_a_repair_witness:
  "\<exists>st why. run_synthesis_loop (zero_trade_lab\<lparr>max_rounds := 1\<rparr>) sample_spec ''c'' [] [] [] [] empty_drift [] = (Inr NextRound, st)
     \<and> last (st_events st) = RefinedByRepair 0 why"
proof -
  obtain st where st: "run_synthesis_loop (zero_trade_lab\<lparr>max_rounds := 1\<rparr>) sample_spec ''c'' [] [] [] [] empty_drift [] = (Inr NextRound, st)"
    using repair_in_last_round by blast
  from rounds_run_out_after_a_repair [OF st] show ?thesis using st by auto
qed

text \<open>C39. The trip on repeated mutations of the strategy never fires: the refinement agent drops the
  stray keys of an answer before the counter of the orchestrator can see them.\<close>

theorem mutation_trip_never_fires:
  "\<not> reports_mutations (fst (run_synthesis_loop L s code gates attempts repairs events d c))"
proof -
  obtain res st where r: "run_synthesis_loop L s code gates attempts repairs events d c = (res, st)" by force
  show ?thesis
  proof (cases "res = Inr NextRound")
    case False
    from lab_rounds_end [OF r [unfolded run_synthesis_loop_def] this] obtain k st1 where
      "lab_round L k st1 = (res, st)" by blast
    from lab_round_no_mutations [OF this] r show ?thesis by simp
  qed (simp add: r)
qed

text \<open>C40. With a threshold of two or three rounds, the default being three, a loop whose consecutive rounds
  differ is never stalled: the alternation between two failures, which the check is meant to recognise,
  runs to the cap.\<close>

theorem alternation_is_not_a_stall:
  assumes "n = 2 \<or> n = 3" and "\<forall>i. Suc i < length h \<longrightarrow> h ! i \<noteq> h ! Suc i"
  shows "\<not> is_stalled n h"
proof
  assume stalled: "is_stalled n h"
  then have n: "n \<le> length h" using assms(1) by (auto simp: is_stalled_def Let_def split: if_splits)
  let ?w = "drop (length h - n) h"
  have w: "length ?w = n" and d: "n div 2 + 1 = 2" using n assms(1) by auto
  have m: "max n 1 = n" using assms(1) by auto
  have "has_short_period_stall ?w" using stalled n unfolding is_stalled_def Let_def m by simp
  then have "list_ex (has_period ?w) [1..<n div 2 + 1]"
    unfolding has_short_period_stall_def w using assms(1) by (auto split: if_splits)
  then have "has_period ?w 1" unfolding d by (simp add: upt_rec)
  moreover have "1 \<in> set [1..<length ?w]" using n assms(1) by auto
  ultimately have "?w ! 1 = ?w ! (1 - 1)" unfolding has_period_def list_all_iff by blast
  then have "h ! Suc (length h - n) = h ! (length h - n)" using n assms(1) by (auto simp: nth_drop)
  moreover have "Suc (length h - n) < length h" using n assms(1) by auto
  ultimately show False using assms(2) by metis
qed

theorem alternation_is_not_a_stall_witness:
  "\<not> is_stalled 3 [(''a'', ''x''), (''b'', ''y''), (''a'', ''x''), (''b'', ''y'')] \<and>
   is_stalled 4 [(''a'', ''x''), (''b'', ''y''), (''a'', ''x''), (''b'', ''y'')]"
proof
  show "\<not> is_stalled 3 [(''a'', ''x''), (''b'', ''y''), (''a'', ''x''), (''b'', ''y'')]"
    by (rule alternation_is_not_a_stall) (auto simp: less_Suc_eq)
  show "is_stalled 4 [(''a'', ''x''), (''b'', ''y''), (''a'', ''x''), (''b'', ''y'')]"
    by (simp add: is_stalled_def has_short_period_stall_def has_period_def upt_rec)
qed

end
