(* ===== verification/LabCycle.thy ===== *)
theory LabCycle
  imports LabModels
begin

text \<open>
  One cycle of the strategy laboratory (\<open>run_cycle\<close> in \<^verbatim>\<open>strategy_lab/orchestrator.py\<close>): up to three
  design attempts, each on a drift collector of its own, with the checkpoints of
  \<^verbatim>\<open>strategy_lab/checkpoints.py\<close> deciding whether the next attempt may take over a reviewed strategy.

  A design attempt is an argument of the model: a function from what the cycle hands it to what it adds
  (drift, gate results and checkpoints, all append-only in the code) and how it ends. A checkpoint is
  what the resumption reads of it; hashes, budget counts and code of a checkpoint are left out. How a
  critique is read back from its dictionary is the argument \<open>read_critique\<close>.
\<close>

section \<open>Checkpoints\<close>

datatype pipeline_stage = DesignStage | ReviewStage | SynthesisStage | RefinementStage | AlignmentStage

definition pipeline_stages :: "pipeline_stage list" where
  "pipeline_stages = [DesignStage, ReviewStage, SynthesisStage, RefinementStage, AlignmentStage]"

fun index_of :: "'a list \<Rightarrow> 'a \<Rightarrow> nat" where
  "index_of [] x = 0"
| "index_of (y # ys) x = (if x = y then 0 else Suc (index_of ys x))"

definition stage_index :: "pipeline_stage \<Rightarrow> nat" where
  "stage_index s = index_of pipeline_stages s"

record 'r checkpoint =
  cp_run_id :: string
  cp_cycle_scope :: string
  cp_attempt :: nat
  cp_generation :: nat
  cp_stage :: pipeline_stage
  cp_spec :: "'r lab_spec"
  cp_rationale :: string
  cp_context :: jdict
  cp_drift :: drift

text \<open>\<open>max(matches, key=...)\<close> returns the first of the furthest.\<close>

fun furthest :: "'r checkpoint \<Rightarrow> 'r checkpoint list \<Rightarrow> 'r checkpoint" where
  "furthest best [] = best"
| "furthest best (c # cs) = furthest (if stage_index (cp_stage best) < stage_index (cp_stage c) then c else best) cs"

definition find_latest_checkpoint_for_attempt ::
  "'r checkpoint list \<Rightarrow> string \<Rightarrow> string \<Rightarrow> nat \<Rightarrow> nat \<Rightarrow> 'r checkpoint option" where
  "find_latest_checkpoint_for_attempt cps run_id scope attempt gen =
     (case filter (\<lambda>c. cp_run_id c = run_id \<and> cp_cycle_scope c = scope \<and> cp_attempt c = attempt \<and> cp_generation c = gen) cps of
        [] \<Rightarrow> None
      | c # cs \<Rightarrow> Some (furthest c cs))"

definition determine_resume_stage :: "'r checkpoint option \<Rightarrow> pipeline_stage option" where
  "determine_resume_stage cp =
     (case cp of
        None \<Rightarrow> None
      | Some c \<Rightarrow>
          let i = stage_index (cp_stage c)
          in if length pipeline_stages \<le> i + 1 then None else Some (pipeline_stages ! (i + 1)))"

definition resolve_cross_attempt_resume :: "'r checkpoint option \<Rightarrow> bool \<Rightarrow> 'r checkpoint option" where
  "resolve_cross_attempt_resume cp spec_implicated =
     (if spec_implicated then None
      else if determine_resume_stage cp \<noteq> Some SynthesisStage then None else cp)"

section \<open>The design context of a checkpoint\<close>

record 'c design_context =
  ctx_rounds :: int
  ctx_critiques :: "'c list"
  ctx_stop_reason :: string
  ctx_telemetry :: jdict

definition design_context_wire_keys :: "string list" where
  "design_context_wire_keys = [''rounds'', ''critiques'', ''stop_reason'', ''loop_telemetry'']"

definition design_context_wire_shape_is_valid :: "jdict \<Rightarrow> bool" where
  "design_context_wire_shape_is_valid d \<longleftrightarrow>
     d \<noteq> [] \<and> list_all (has_key d) design_context_wire_keys \<and>
     (case jget d ''rounds'' of JInt _ \<Rightarrow> True | _ \<Rightarrow> False) \<and>
     (case jget d ''critiques'' of JList _ \<Rightarrow> True | _ \<Rightarrow> False) \<and>
     (case jget d ''stop_reason'' of JStr _ \<Rightarrow> True | _ \<Rightarrow> False) \<and>
     is_dict (jget d ''loop_telemetry'')"

text \<open>\<open>None\<close> is the \<open>ValueError\<close>, of the shape or of a critique.\<close>

fun read_all :: "('a \<Rightarrow> 'c option) \<Rightarrow> 'a list \<Rightarrow> 'c list option" where
  "read_all f [] = Some []"
| "read_all f (x # xs) = (case f x of Some y \<Rightarrow> map_option ((#) y) (read_all f xs) | None \<Rightarrow> None)"

definition design_context_from_checkpoint :: "(json \<Rightarrow> 'c option) \<Rightarrow> jdict \<Rightarrow> 'c design_context option" where
  "design_context_from_checkpoint read_critique d =
     (if design_context_wire_shape_is_valid d then
        (case (jget d ''rounds'', jget d ''stop_reason'', read_all read_critique (list_of (jget d ''critiques''))) of
           (JInt n, JStr s, Some cs) \<Rightarrow>
             Some \<lparr>ctx_rounds = n, ctx_critiques = cs, ctx_stop_reason = s,
                   ctx_telemetry = dict_of (jget d ''loop_telemetry'')\<rparr>
         | _ \<Rightarrow> None)
      else None)"

section \<open>Attempts\<close>

record ('r, 'c) resumption =
  rs_spec :: "'r lab_spec"
  rs_rationale :: string
  rs_context :: "'c design_context"

record ('r, 'c) attempt_input =
  in_attempt :: nat
  in_phase_backs :: nat
  in_directives :: "string list"
  in_drift :: drift
  in_gates :: "gate_result list"
  in_resume :: "('r, 'c) resumption option"

text \<open>\<open>SpecImplementabilityError\<close>.\<close>

record ('r, 'c) attempt_failure =
  fl_evidence :: "string option"
  fl_phase :: "string option"
  fl_spec :: "'r lab_spec option"
  fl_code :: string
  fl_context :: "'c design_context option"
  fl_implicated :: bool

datatype ('r, 'c, 'rec) attempt_end = Recorded 'rec | Failed "('r, 'c) attempt_failure" | Crashed

record ('r, 'c, 'rec) attempt_result =
  ar_drift :: drift
  ar_gates :: "gate_result list"
  ar_checkpoints :: "'r checkpoint list"
  ar_end :: "('r, 'c, 'rec) attempt_end"

section \<open>The cycle\<close>

definition max_design_reentries :: nat where
  "max_design_reentries = 2"

record ('r, 'c) carried =
  pn_resume :: "('r, 'c) resumption"
  pn_seed :: drift

record ('r, 'c) cycle =
  cy_log :: drift
  cy_gates :: "gate_result list"
  cy_checkpoints :: "'r checkpoint list"
  cy_directives :: "string list"
  cy_phase_backs :: nat
  cy_trials :: nat
  cy_last :: "('r, 'c) attempt_failure option"
  cy_carried :: "('r, 'c) carried option"
  cy_determination :: "pipeline_stage option"
  cy_loopbacks :: "(nat \<times> nat \<times> string option \<times> string option) list"

definition drift_histories_past_seed :: "drift \<Rightarrow> drift \<Rightarrow> drift" where
  "drift_histories_past_seed d seed =
     \<lparr>spec_history = drop (length (spec_history seed)) (spec_history d),
      code_history = drop (length (code_history seed)) (code_history d),
      gate_timeline = drop (length (gate_timeline seed)) (gate_timeline d)\<rparr>"

definition start_drift :: "('r, 'c) cycle \<Rightarrow> drift" where
  "start_drift cy = (case cy_carried cy of Some p \<Rightarrow> merge_drift empty_drift (pn_seed p) | None \<Rightarrow> empty_drift)"

definition attempt_input_of :: "nat \<Rightarrow> ('r, 'c) cycle \<Rightarrow> ('r, 'c) attempt_input" where
  "attempt_input_of n cy =
     \<lparr>in_attempt = n, in_phase_backs = cy_phase_backs cy, in_directives = cy_directives cy,
      in_drift = start_drift cy, in_gates = cy_gates cy, in_resume = map_option pn_resume (cy_carried cy)\<rparr>"

definition next_carried ::
  "(json \<Rightarrow> 'c option) \<Rightarrow> 'r checkpoint option \<Rightarrow> bool \<Rightarrow> ('r, 'c) carried option" where
  "next_carried read_critique cp implicated =
     (case resolve_cross_attempt_resume cp implicated of
        None \<Rightarrow> None
      | Some c \<Rightarrow>
          (case design_context_from_checkpoint read_critique (cp_context c) of
             None \<Rightarrow> None
           | Some ctx \<Rightarrow>
               Some \<lparr>pn_resume = \<lparr>rs_spec = cp_spec c, rs_rationale = cp_rationale c, rs_context = ctx\<rparr>,
                     pn_seed = cp_drift c\<rparr>))"

definition evidence_text :: "string option \<Rightarrow> string" where
  "evidence_text e = (case e of Some t \<Rightarrow> t | None \<Rightarrow> ''None'')"

text \<open>The handler of a failed attempt.\<close>

definition fold_failure ::
  "(json \<Rightarrow> 'c option) \<Rightarrow> string \<Rightarrow> nat \<Rightarrow> ('r, 'c) attempt_failure \<Rightarrow> ('r, 'c, 'rec) attempt_result \<Rightarrow> ('r, 'c) cycle \<Rightarrow> ('r, 'c) cycle" where
  "fold_failure read_critique scope n f ar cy =
     (let backs = cy_phase_backs cy + 1;
          attempt_drift = merge_drift (start_drift cy) (ar_drift ar);
          own = (case cy_carried cy of
                   Some p \<Rightarrow> drift_histories_past_seed attempt_drift (pn_seed p)
                 | None \<Rightarrow> attempt_drift);
          cps = cy_checkpoints cy @ ar_checkpoints ar;
          cp = find_latest_checkpoint_for_attempt cps scope scope n 1;
          cy' = cy\<lparr>cy_log := merge_drift (cy_log cy) own, cy_gates := cy_gates cy @ ar_gates ar, cy_checkpoints := cps,
                   cy_phase_backs := backs, cy_trials := cy_trials cy + 1, cy_last := Some f,
                   cy_determination := determine_resume_stage cp,
                   cy_carried := next_carried read_critique cp (fl_implicated f)\<rparr>
      in if max_design_reentries \<le> n then cy'
         else cy'\<lparr>cy_loopbacks := cy_loopbacks cy @ [(n + 1, backs, fl_evidence f, fl_phase f)],
                  cy_directives := cy_directives cy @
                    (if fl_implicated f then [''PREVIOUS SPEC UNIMPLEMENTABLE: '' @ evidence_text (fl_evidence f)] else [])\<rparr>)"

record ('r, 'c) short_circuit =
  sc_spec :: "'r lab_spec"
  sc_code :: string
  sc_status :: string
  sc_phase :: "string option"
  sc_evidence :: string
  sc_context :: "'c design_context option"
  sc_phase_backs :: nat
  sc_drift :: drift
  sc_gates :: "gate_result list"

datatype ('r, 'c, 'rec) cycle_end =
  CycleRecord 'rec | CycleShortCircuit "('r, 'c) short_circuit" | CycleContractError | CycleCrashed

text \<open>After the last attempt; without a strategy or evidence \<open>require_short_circuit_inputs\<close> raises.\<close>

definition short_circuit_cycle :: "('r, 'c) cycle \<Rightarrow> ('r, 'c, 'rec) cycle_end" where
  "short_circuit_cycle cy =
     (case cy_last cy of
        Some f \<Rightarrow>
          (case (fl_spec f, fl_evidence f) of
             (Some s, Some e) \<Rightarrow>
               CycleShortCircuit \<lparr>sc_spec = s, sc_code = fl_code f, sc_status = ''failed: spec_unimplementable'',
                 sc_phase = fl_phase f, sc_evidence = e, sc_context = fl_context f, sc_phase_backs = cy_phase_backs cy,
                 sc_drift = cy_log cy, sc_gates = cy_gates cy\<rparr>
           | _ \<Rightarrow> CycleContractError)
      | None \<Rightarrow> CycleContractError)"

fun cycle_loop ::
  "(json \<Rightarrow> 'c option) \<Rightarrow> string \<Rightarrow> (('r, 'c) attempt_input \<Rightarrow> ('r, 'c, 'rec) attempt_result) \<Rightarrow> nat list \<Rightarrow>
   ('r, 'c) cycle \<Rightarrow> ('r, 'c, 'rec) cycle_end \<times> ('r, 'c) cycle" where
  "cycle_loop rc scope attempt [] cy = (short_circuit_cycle cy, cy)"
| "cycle_loop rc scope attempt (n # ns) cy =
     (let ar = attempt (attempt_input_of n cy)
      in case ar_end ar of
           Recorded r \<Rightarrow> (CycleRecord r, cy\<lparr>cy_gates := cy_gates cy @ ar_gates ar,
                                         cy_checkpoints := cy_checkpoints cy @ ar_checkpoints ar\<rparr>)
         | Crashed \<Rightarrow> (CycleCrashed, cy)
         | Failed f \<Rightarrow> cycle_loop rc scope attempt ns (fold_failure rc scope n f ar cy))"

definition start_cycle :: "string list \<Rightarrow> ('r, 'c) cycle" where
  "start_cycle directives =
     \<lparr>cy_log = empty_drift, cy_gates = [], cy_checkpoints = [], cy_directives = directives, cy_phase_backs = 0,
      cy_trials = 0, cy_last = None, cy_carried = None, cy_determination = None, cy_loopbacks = []\<rparr>"

definition run_cycle ::
  "(json \<Rightarrow> 'c option) \<Rightarrow> string \<Rightarrow> (('r, 'c) attempt_input \<Rightarrow> ('r, 'c, 'rec) attempt_result) \<Rightarrow> string list \<Rightarrow>
   ('r, 'c, 'rec) cycle_end \<times> ('r, 'c) cycle" where
  "run_cycle rc scope attempt directives =
     cycle_loop rc scope attempt [0..<max_design_reentries + 1] (start_cycle directives)"

end
