(* ===== verification/LabCycleProps.thy ===== *)
theory LabCycleProps
  imports LabCycle
begin

text \<open>
  What a cycle keeps across its design attempts: every failed attempt's history enters the record of an
  exhausted cycle once, whatever was resumed, and a strategy is taken over only from the review
  checkpoint of the attempt that just failed, and only when the failure does not implicate it.
\<close>

section \<open>Drift\<close>

lemma merge_drift_assoc: "merge_drift (merge_drift a b) c = merge_drift a (merge_drift b c)"
  by (simp add: merge_drift_def)

lemma merge_drift_empty [simp]: "merge_drift empty_drift d = d" "merge_drift d empty_drift = d"
  by (cases d; simp add: merge_drift_def empty_drift_def)+

lemma past_seed [simp]: "drift_histories_past_seed (merge_drift seed d) seed = d"
  by (cases d) (simp add: drift_histories_past_seed_def merge_drift_def)

definition merged_drift :: "drift list \<Rightarrow> drift" where
  "merged_drift ds = foldr merge_drift ds empty_drift"

lemma merged_drift_simps [simp]:
  "merged_drift [] = empty_drift" "merged_drift (d # ds) = merge_drift d (merged_drift ds)"
  by (simp_all add: merged_drift_def)

section \<open>The attempts of a cycle\<close>

fun attempts_of ::
  "(json \<Rightarrow> 'c option) \<Rightarrow> string \<Rightarrow> (('r, 'c) attempt_input \<Rightarrow> ('r, 'c, 'rec) attempt_result) \<Rightarrow> nat list \<Rightarrow>
   ('r, 'c) cycle \<Rightarrow> (('r, 'c) attempt_input \<times> ('r, 'c, 'rec) attempt_result) list" where
  "attempts_of rc scope attempt [] cy = []"
| "attempts_of rc scope attempt (n # ns) cy =
     (let i = attempt_input_of n cy; ar = attempt i
      in (i, ar) # (case ar_end ar of Failed f \<Rightarrow> attempts_of rc scope attempt ns (fold_failure rc scope n f ar cy) | _ \<Rightarrow> []))"

definition cycle_attempts ::
  "(json \<Rightarrow> 'c option) \<Rightarrow> string \<Rightarrow> (('r, 'c) attempt_input \<Rightarrow> ('r, 'c, 'rec) attempt_result) \<Rightarrow> string list \<Rightarrow>
   (('r, 'c) attempt_input \<times> ('r, 'c, 'rec) attempt_result) list" where
  "cycle_attempts rc scope attempt directives =
     attempts_of rc scope attempt [0..<max_design_reentries + 1] (start_cycle directives)"

lemma fold_failure_sel [simp]:
  "cy_log (fold_failure rc scope n f ar cy) = merge_drift (cy_log cy) (ar_drift ar)"
  "cy_gates (fold_failure rc scope n f ar cy) = cy_gates cy @ ar_gates ar"
  "cy_checkpoints (fold_failure rc scope n f ar cy) = cy_checkpoints cy @ ar_checkpoints ar"
  "cy_phase_backs (fold_failure rc scope n f ar cy) = cy_phase_backs cy + 1"
  "cy_last (fold_failure rc scope n f ar cy) = Some f"
  "cy_carried (fold_failure rc scope n f ar cy) =
     next_carried rc (find_latest_checkpoint_for_attempt (cy_checkpoints cy @ ar_checkpoints ar) scope scope n 1) (fl_implicated f)"
  by (simp_all add: fold_failure_def Let_def start_drift_def split: option.split)

lemma short_circuit_fields:
  "short_circuit_cycle cy = CycleShortCircuit r \<Longrightarrow>
   sc_phase_backs r = cy_phase_backs cy \<and> sc_drift r = cy_log cy \<and> sc_gates r = cy_gates cy"
  by (auto simp: short_circuit_cycle_def split: option.splits prod.splits)

lemma cycle_loop_short_circuit:
  "cycle_loop rc scope attempt ns cy = (CycleShortCircuit r, cy') \<Longrightarrow>
   (let tr = attempts_of rc scope attempt ns cy
    in length tr = length ns \<and> sc_phase_backs r = cy_phase_backs cy + length ns \<and>
       sc_drift r = merge_drift (cy_log cy) (merged_drift (map (ar_drift \<circ> snd) tr)) \<and>
       sc_gates r = cy_gates cy @ concat (map (ar_gates \<circ> snd) tr))"
proof (induction ns arbitrary: cy)
  case Nil
  then show ?case using short_circuit_fields [of cy r] by auto
next
  case (Cons n ns)
  then obtain f where f: "ar_end (attempt (attempt_input_of n cy)) = Failed f"
    by (auto simp: Let_def split: attempt_end.splits)
  with Cons.prems Cons.IH [of "fold_failure rc scope n f (attempt (attempt_input_of n cy)) cy"] show ?case
    by (simp add: Let_def merge_drift_assoc)
qed

section \<open>Resumption\<close>

lemma furthest_in: "furthest b cs \<in> insert b (set cs)"
  by (induction b cs rule: furthest.induct) auto

lemma furthest_max: "x \<in> insert b (set cs) \<Longrightarrow> stage_index (cp_stage x) \<le> stage_index (cp_stage (furthest b cs))"
proof (induction b cs arbitrary: x rule: furthest.induct)
  case (2 b c cs)
  let ?n = "if stage_index (cp_stage b) < stage_index (cp_stage c) then c else b"
  have n: "stage_index (cp_stage ?n) \<le> stage_index (cp_stage (furthest ?n cs))" using 2(1) [of ?n] by simp
  have "x \<in> set cs \<or> stage_index (cp_stage x) \<le> stage_index (cp_stage ?n)" using 2(2) by auto
  then show ?case
  proof
    assume "x \<in> set cs"
    with 2(1) [of x] show ?thesis by simp
  next
    assume "stage_index (cp_stage x) \<le> stage_index (cp_stage ?n)"
    with n show ?thesis unfolding furthest.simps by (rule order_trans [rotated])
  qed
qed simp

lemma find_latest:
  assumes "find_latest_checkpoint_for_attempt cps run scope n g = Some c"
  shows "c \<in> set cps" and "cp_attempt c = n" and "cp_run_id c = run" and "cp_cycle_scope c = scope" and "cp_generation c = g"
    and "\<And>x. x \<in> set cps \<Longrightarrow> cp_run_id x = run \<Longrightarrow> cp_cycle_scope x = scope \<Longrightarrow> cp_attempt x = n \<Longrightarrow> cp_generation x = g \<Longrightarrow>
      stage_index (cp_stage x) \<le> stage_index (cp_stage c)"
proof -
  let ?m = "filter (\<lambda>c. cp_run_id c = run \<and> cp_cycle_scope c = scope \<and> cp_attempt c = n \<and> cp_generation c = g) cps"
  obtain b bs where m: "?m = b # bs" "c = furthest b bs"
    using assms by (auto simp: find_latest_checkpoint_for_attempt_def split: list.splits)
  with furthest_in [of b bs] have "c \<in> set ?m" by simp
  then show "c \<in> set cps" "cp_attempt c = n" "cp_run_id c = run" "cp_cycle_scope c = scope" "cp_generation c = g" by auto
  show "stage_index (cp_stage x) \<le> stage_index (cp_stage c)"
    if "x \<in> set cps" "cp_run_id x = run" "cp_cycle_scope x = scope" "cp_attempt x = n" "cp_generation x = g" for x
  proof -
    have "x \<in> set ?m" using that by simp
    with m furthest_max [of x b bs] show ?thesis by simp
  qed
qed

lemma resume_stage_synthesis: "determine_resume_stage (Some c) = Some SynthesisStage \<longleftrightarrow> cp_stage c = ReviewStage"
  by (cases "cp_stage c") (simp_all add: determine_resume_stage_def stage_index_def pipeline_stages_def)

text \<open>The checkpoint an attempt after attempt \<open>n\<close> takes over.\<close>

definition sound_resume :: "string \<Rightarrow> 'r checkpoint list \<Rightarrow> nat \<Rightarrow> ('r, 'c) attempt_failure \<Rightarrow> ('r, 'c) resumption \<Rightarrow> bool" where
  "sound_resume scope cps n f rs \<longleftrightarrow> \<not> fl_implicated f \<and>
     (\<exists>c\<in>set cps. cp_attempt c = n \<and> cp_run_id c = scope \<and> cp_stage c = ReviewStage \<and> cp_spec c = rs_spec rs)"

lemma next_carried_sound:
  assumes "next_carried rc (find_latest_checkpoint_for_attempt cps scope scope n 1) (fl_implicated f) = Some p"
  shows "sound_resume scope cps n f (pn_resume p)"
proof -
  from assms obtain c where c: "find_latest_checkpoint_for_attempt cps scope scope n 1 = Some c"
    "\<not> fl_implicated f" "determine_resume_stage (Some c) = Some SynthesisStage" "rs_spec (pn_resume p) = cp_spec c"
    by (auto simp: next_carried_def resolve_cross_attempt_resume_def determine_resume_stage_def
        split: option.splits if_splits)
  with find_latest [OF c(1)] show ?thesis by (auto simp: sound_resume_def resume_stage_synthesis)
qed

lemma sound_resume_mono: "sound_resume scope cps n f rs \<Longrightarrow> set cps \<subseteq> set cps' \<Longrightarrow> sound_resume scope cps' n f rs"
  by (auto simp: sound_resume_def)

definition step_sound :: "string \<Rightarrow> 'r checkpoint list \<Rightarrow> (('r, 'c) attempt_input \<times> ('r, 'c, 'rec) attempt_result) \<Rightarrow>
    (('r, 'c) attempt_input \<times> ('r, 'c, 'rec) attempt_result) \<Rightarrow> bool" where
  "step_sound scope cps a b \<longleftrightarrow>
     (case in_resume (fst b) of
        None \<Rightarrow> in_drift (fst b) = empty_drift
      | Some rs \<Rightarrow> (\<exists>f. ar_end (snd a) = Failed f \<and> sound_resume scope cps (in_attempt (fst a)) f rs))"

lemma attempts_sound:
  "set (cy_checkpoints cy) \<union> (\<Union>a\<in>set (attempts_of rc scope attempt ns cy). set (ar_checkpoints (snd a))) \<subseteq> set cps \<Longrightarrow>
   successively (step_sound scope cps) (attempts_of rc scope attempt ns cy)"
proof (induction ns arbitrary: cy)
  case (Cons n ns)
  let ?i = "attempt_input_of n cy"
  let ?ar = "attempt ?i"
  show ?case
  proof (cases "ar_end ?ar")
    case (Failed f)
    let ?cy = "fold_failure rc scope n f ?ar cy"
    have ih: "successively (step_sound scope cps) (attempts_of rc scope attempt ns ?cy)"
      using Cons.prems Failed by (intro Cons.IH) (auto simp: Let_def)
    show ?thesis
    proof (cases ns)
      case Nil
      with Failed show ?thesis by (simp add: Let_def)
    next
      case (Cons m ms)
      let ?b = "(attempt_input_of m ?cy, attempt (attempt_input_of m ?cy))"
      have "step_sound scope cps (?i, ?ar) ?b"
      proof (cases "cy_carried ?cy")
        case None
        then show ?thesis by (simp add: step_sound_def attempt_input_of_def start_drift_def)
      next
        case (Some p)
        then have "sound_resume scope (cy_checkpoints cy @ ar_checkpoints ?ar) n f (pn_resume p)"
          by (intro next_carried_sound [of rc]) simp
        moreover have "set (cy_checkpoints cy @ ar_checkpoints ?ar) \<subseteq> set cps"
          using Cons.prems by (auto simp: Let_def)
        ultimately have "sound_resume scope cps n f (pn_resume p)" by (rule sound_resume_mono)
        with Some Failed show ?thesis by (simp add: step_sound_def attempt_input_of_def)
      qed
      with ih Failed Cons show ?thesis by (simp add: Let_def)
    qed
  qed (simp_all add: Let_def)
qed simp

section \<open>The properties\<close>

text \<open>C36. An exhausted cycle has made all its attempts, and its record holds the history of every one of them
  once, in order: what a resumed attempt was seeded with is not counted again.\<close>

theorem failed_attempts_are_recorded_once:
  assumes "run_cycle rc scope attempt directives = (CycleShortCircuit r, cy)"
  defines "tr \<equiv> cycle_attempts rc scope attempt directives"
  shows "length tr = max_design_reentries + 1 \<and> sc_phase_backs r = max_design_reentries + 1 \<and>
    sc_drift r = merged_drift (map (ar_drift \<circ> snd) tr) \<and> sc_gates r = concat (map (ar_gates \<circ> snd) tr)"
  using cycle_loop_short_circuit [OF assms(1) [unfolded run_cycle_def]]
  by (simp add: tr_def cycle_attempts_def start_cycle_def Let_def)

text \<open>An attempt that passes review and then fails without implicating its strategy, time after time.\<close>

definition sample_revision :: revision where
  "sample_revision = \<lparr>rev_phase = ''synthesis'', rev_agent = ''compiler'', rev_before = [], rev_after = ''c'', rev_reason = []\<rparr>"

definition reviewed_spec :: "unit lab_spec" where
  "reviewed_spec = \<lparr>spec_limits = default_limits, spec_code = None, spec_rest = ()\<rparr>"

definition failing_attempt :: "(unit, unit) attempt_input \<Rightarrow> (unit, unit, unit) attempt_result" where
  "failing_attempt i =
     \<lparr>ar_drift = \<lparr>spec_history = [], code_history = [sample_revision], gate_timeline = []\<rparr>, ar_gates = [],
      ar_checkpoints =
        [\<lparr>cp_run_id = ''s'', cp_cycle_scope = ''s'', cp_attempt = in_attempt i, cp_generation = 1, cp_stage = ReviewStage,
          cp_spec = reviewed_spec, cp_rationale = [],
          cp_context = [(''rounds'', JInt 1), (''critiques'', JList []), (''stop_reason'', JStr ''ready''), (''loop_telemetry'', JDict [])],
          cp_drift = in_drift i\<rparr>],
      ar_end = Failed \<lparr>fl_evidence = Some ''e'', fl_phase = None, fl_spec = Some reviewed_spec, fl_code = ''c'',
                       fl_context = None, fl_implicated = False\<rparr>\<rparr>"

lemma failing_cycle_exhausts:
  "\<exists>r cy. run_cycle (\<lambda>_. None) ''s'' failing_attempt [] = (CycleShortCircuit r, cy)"
  by (simp add: run_cycle_def upt_rec max_design_reentries_def Let_def failing_attempt_def short_circuit_cycle_def)

theorem failed_attempts_are_recorded_once_witness:
  "\<exists>r cy. run_cycle (\<lambda>_. None) ''s'' failing_attempt [] = (CycleShortCircuit r, cy) \<and>
     code_history (sc_drift r) = [sample_revision, sample_revision, sample_revision]"
proof -
  obtain r cy where c: "run_cycle (\<lambda>_. None) ''s'' failing_attempt [] = (CycleShortCircuit r, cy)"
    using failing_cycle_exhausts by blast
  from failed_attempts_are_recorded_once [OF c] have "code_history (sc_drift r) = [sample_revision, sample_revision, sample_revision]"
    by (simp add: cycle_attempts_def upt_rec max_design_reentries_def Let_def failing_attempt_def merge_drift_def empty_drift_def)
  with c show ?thesis by blast
qed

text \<open>An attempt takes over a strategy only from the review checkpoint of the attempt before it, and only
  when that attempt failed without implicating it; every other attempt starts with an empty history.\<close>

theorem only_sound_strategies_are_resumed:
  "let tr = cycle_attempts rc scope attempt directives
   in successively (step_sound scope (concat (map (ar_checkpoints \<circ> snd) tr))) tr \<and>
      in_resume (fst (hd tr)) = None \<and> in_drift (fst (hd tr)) = empty_drift"
proof -
  have "successively (step_sound scope (concat (map (ar_checkpoints \<circ> snd) (cycle_attempts rc scope attempt directives))))
      (cycle_attempts rc scope attempt directives)"
    unfolding cycle_attempts_def by (rule attempts_sound) (auto simp: start_cycle_def)
  moreover have "hd (cycle_attempts rc scope attempt directives) =
      (attempt_input_of 0 (start_cycle directives), attempt (attempt_input_of 0 (start_cycle directives)))"
    by (simp add: cycle_attempts_def upt_rec Let_def)
  ultimately show ?thesis
    unfolding Let_def by (simp add: attempt_input_of_def start_cycle_def start_drift_def)
qed

end
