(* ===== verification/Spec2Isabelle.thy ===== *)
theory Spec2Isabelle
  imports CircuitBreaker TaskCascade TaskRuns OrderBookProps Checkpoints PauseProps EnvStoreProps
    SwarmAssignProps KeyedLockProps StepOrdering
    FillMoney FillLegProps ExecutionProps ResamplerProps WalkProps
    MemoryCacheProps SseStreamProps
    RiskMergeProps LabRefineProps LabCycleProps
begin

text \<open>
  The coordination core of the agent platform: the deterministic state that the agent teams, the
  unified API and the job service share, and that has to stay right whatever a language model says.

  \<^bold>\<open>The program.\<close> \<^verbatim>\<open>src/backend\<close> holds a gateway (\<^verbatim>\<open>unified_api\<close>), a job service
  (\<^verbatim>\<open>job_service\<close>), shared infrastructure (\<^verbatim>\<open>shared\<close>) and some thirty agent teams (\<^verbatim>\<open>agents\<close>). A team
  runs as a background job: it reports to a row of the job service, checkpoints there, and parks
  there when a person has to answer. The software engineering team splits a job into a graph of
  tasks that a swarm of workers executes; the investment team simulates strategies over an order
  book; the provisioning team keeps files about environments under renewable leases. The gateway
  guards each team with a circuit breaker.

  \<^bold>\<open>Layers.\<close> \<open>Prelude\<close> and \<open>Json\<close> are shared by all: ordered dictionaries (\<open>dget\<close>, \<open>dset\<close>,
  \<open>ddel\<close>), reachable states, the locale \<open>invariant_system\<close>, JSON values and the conversions of the
  language (\<open>truthy\<close>, \<open>int_str\<close>, \<open>py_str\<close>).

  \<^item> \<open>TaskModels\<close>, \<open>TaskGraph\<close> (definitions), \<open>TaskGraphInv\<close>, \<open>TaskCascade\<close>, \<open>TaskSnapshot\<close>, \<open>TaskRuns\<close> (properties):
    \<^verbatim>\<open>software_engineering_team/models.py\<close> and \<^verbatim>\<open>task_graph.py\<close>. The state \<open>task_graph\<close> has the fields
    of \<^verbatim>\<open>TaskGraphService\<close>; each method is one definition of the same name. The invariant says which
    task an agent entry may name; the failure cascade is characterised by the least set closed
    under failed dependencies; a snapshot restores. \<open>TaskRuns\<close> is the machine over the runs of a job: every
    call of the swarm, snapshots that reach the store, process death and resume. A demotion is two steps of
    it; \<open>interrupted_demotion_strands\<close> shows what a death between them does.
  \<^item> \<open>Hitl\<close>, \<open>HitlValidation\<close>: \<^verbatim>\<open>software_engineering_team/hitl.py\<close>, \<^verbatim>\<open>shared/hitl/validation.py\<close>:
    cleaning of questions, coverage, the wait loop, the validator of submitted answers.
  \<^item> \<open>PauseCycle\<close>, \<open>PauseProps\<close>: \<^verbatim>\<open>software_engineering_team/pause_cycle.py\<close> and the planning loop on top of it, composed
    with \<open>Hitl\<close>: tokens, the two pause strategies, re-entry, hydration.
  \<^item> \<open>OrderContract\<close>, \<open>OrderBook\<close> (definitions), \<open>OrderBookInv\<close>, \<open>OrderBookProps\<close>:
    \<^verbatim>\<open>investment_team/trading_service/strategy/contract.py\<close> and \<^verbatim>\<open>engine/order_book.py\<close>. The lazily
    compacted indexes are refined to scans of the pending orders; the invariant relates parents,
    legs and registrations.
  \<^item> \<open>Portfolio\<close>, \<open>ExecutionModel\<close>, \<open>RiskFilter\<close>, \<open>FillLegs\<close>, \<open>FillSim\<close> (definitions): \<^verbatim>\<open>engine/portfolio.py\<close>,
    \<^verbatim>\<open>engine/execution_model.py\<close>, \<^verbatim>\<open>execution/risk_filter.py\<close>, \<^verbatim>\<open>execution/bar_safety.py\<close> and
    \<^verbatim>\<open>engine/fill_simulator.py\<close> of the investment team. \<open>process_bar\<close> runs the pending orders of a symbol
    against one bar; the state \<open>engine\<close> is the order book, the portfolio and the trade counter.
    \<open>FillEffect\<close> states what one order may do to the account (\<open>order_effect\<close>), \<open>FillInv\<close> what it may do
    to the book (\<open>touches\<close>), \<open>FillRefine\<close> proves that the detailed code does only that, and \<open>FillMachine\<close>
    makes the engine a machine over bars, submissions, cancels and sweeps with its invariant. \<open>FillProps\<close>
    (cash, holdings, look-ahead), \<open>FillMoney\<close> (results against cash), \<open>FillLegProps\<close> (protective legs,
    trailing stops) and \<open>ExecutionProps\<close> (execution models, the locale \<open>execution_contract\<close>, the risk
    gate) hold the properties.
  \<^item> \<open>Resampler\<close>, \<open>ResamplerProps\<close>: \<^verbatim>\<open>data_stream/resampler.py\<close>, the candles that feed the engine; a call of
    \<open>feed_native\<close> is one complete iteration of its generator. \<open>WalkForward\<close>, \<open>WalkProps\<close>:
    \<^verbatim>\<open>execution/walk_forward.py\<close> on the trades the engine records: test blocks, purged training segments
    and which trades are compared.
  \<^item> \<open>JobDb\<close>, \<open>JobDbProps\<close>: \<^verbatim>\<open>job_service/db.py\<close>. A row is \<open>job_row\<close>; a guarded \<^verbatim>\<open>UPDATE\<close> is a function
    on the table. \<open>Checkpoints\<close> (\<^verbatim>\<open>shared/temporal/checkpoints.py\<close>) is its client.
  \<^item> \<open>CircuitBreaker\<close>: \<^verbatim>\<open>unified_api/circuit_breaker.py\<close>.
  \<^item> \<open>AgentLock\<close>, \<open>AgentLockProps\<close>, \<open>EnvStore\<close>, \<open>EnvStoreProps\<close>: \<^verbatim>\<open>shared/agent_lock.py\<close>,
    \<^verbatim>\<open>path_safety.py\<close>, \<^verbatim>\<open>environment_store.py\<close> of the provisioning team and \<^verbatim>\<open>backend/shared/fencing.py\<close>.
    The locale \<open>fenced_resource\<close> states what a store that checks fencing tokens promises; the lease
    store and the registry are its two interpretations.

  \<^item> \<open>SwarmRouting\<close>, \<open>SwarmRoster\<close>, \<open>SwarmAssign\<close>, \<open>SwarmAssignProps\<close>: \<^verbatim>\<open>team_routing.py\<close>,
    \<^verbatim>\<open>agent_status.py\<close>, \<^verbatim>\<open>worker_factory.py\<close>, the plan phase of \<^verbatim>\<open>coding_team_orchestrator.py\<close> and
    \<^verbatim>\<open>swarm_assignment.py\<close> of the software engineering team: label normalisation, the roster of workers
    and the assignment round over \<open>TaskGraph\<close>, whatever JSON the language model answers.
  \<^item> \<open>KeyedLocks\<close>, \<open>KeyedLockProps\<close>: \<^verbatim>\<open>shared/concurrency/keyed_lock_manager.py\<close>, one step per operation on a
    single lock, for any number of threads. \<open>StepOrdering\<close>: \<^verbatim>\<open>step_ordering.py\<close>.
  \<^item> \<open>MemoryCache\<close>, \<open>MemoryCacheInv\<close>, \<open>MemoryCacheProps\<close>: \<^verbatim>\<open>shared/cache/memory.py\<close>, a least-recently-used store
    with futures, for any number of threads. \<open>advance_call\<close> is the next step of a thread inside a call; the
    invariant ties slots, futures, leaders and waiters together.
  \<^item> \<open>EventBus\<close>, \<open>EventBusProps\<close>: \<^verbatim>\<open>shared/job_event_bus/bus.py\<close>, with subscriptions as objects in a store
    (\<open>objects\<close>). \<open>SseStream\<close>, \<open>SseStreamProps\<close>: \<^verbatim>\<open>shared/sse/stream.py\<close>, one consumer whose steps interleave
    with any operations of the bus by others; it rests on the invariant of the bus.
  \<^item> \<open>RiskMerge\<close>, \<open>RiskMergeProps\<close>: where risk limits come from, \<^verbatim>\<open>RiskLimits.from_legacy_dict\<close> and
    \<^verbatim>\<open>_merge_risk_limits_tighten_only\<close> of \<^verbatim>\<open>strategy_lab/_orchestrator_helpers.py\<close>. The properties connect the
    merge to the gate and the sizing of \<open>RiskFilter\<close>.
  \<^item> \<open>LabModels\<close>, \<open>LabRepair\<close>, \<open>LabRefine\<close> (definitions), \<open>LabRefineProps\<close>: the code refinement loop of the
    strategy laboratory (\<^verbatim>\<open>strategy_lab/orchestrator_synthesis.py\<close>, \<open>_apply_updates\<close> and \<open>_refine_or_exhaust\<close> of
    \<^verbatim>\<open>orchestrator.py\<close>, \<^verbatim>\<open>zero_trade_repair.py\<close>, \<^verbatim>\<open>agents/refinement.py\<close>). The state \<open>lab_state\<close> has the locals of
    \<^verbatim>\<open>_run_synthesis_loop\<close> and the lists it shares with its caller; the loop runs over the rounds below
    \<open>max_rounds\<close>, so it ends by structure. The agents, gates, sandbox and metrics are fields of the record
    \<open>lab\<close>. The properties: what the loop may change of a strategy, what convergence means, and three
    ways in which its exits miss what they are meant for.
  \<^item> \<open>LabCycle\<close>, \<open>LabCycleProps\<close>: \<^verbatim>\<open>run_cycle\<close> of \<^verbatim>\<open>orchestrator.py\<close> with \<^verbatim>\<open>strategy_lab/checkpoints.py\<close>: up to
    three design attempts (an argument of the model), each failure folded into the history of the cycle,
    and the checkpoint gate that lets the next attempt resume with a reviewed strategy.

  \<^bold>\<open>Effects.\<close> A method under a lock, a guarded SQL statement or an atomic file replacement is one
  step. Clocks are arguments: instants are integers (microseconds), and a loop that polls is given
  the finite list of the readings it makes, so that running out of readings is a value of the
  result and not a convention. Loops that end are proved to: the cascade by the number of tasks
  that have not failed, the removal of orders by the number of pending orders (its fuel is one more
  than that number, which \<open>OrderBookInv\<close> proves enough), the scans by structure.
  Prices and quantities are exact rationals, rounded (half to even) where the code rounds; what depends on
  the error of floating-point arithmetic is not claimed. An exception in a tick ends the run: the model
  returns the error and no state, so what a half-done tick leaves behind is not claimed either.

  \<^bold>\<open>Not modelled.\<close> The language-model clients, prompts and agents (their answers are parameters); of the
  strategy laboratory the design loop, the alignment and verification stages and the assembly of the
  record, which are sequences of prompted stages; the trading session, which drives a subprocess; HTTP
  routes and integrations, Temporal workers, git and shell commands, SQL text and connections,
  logging, metrics, the user interface. The manifest lists each with its reason.
\<close>

end
